(* ===== verification/Ztest_Prelude.thy ===== *)
theory Ztest_Prelude
  imports Main "HOL-Library.Word" "HOL-Library.AList" "HOL-Library.Sublist"
begin

text \<open>
  What the component theories share: the machine-integer vocabulary of the Rust sources
  (\<open>u64\<close> and \<open>u32\<close> with \<open>saturating_add\<close>, \<open>saturating_sub\<close>, \<open>checked_add\<close>,
  \<open>checked_sub\<close>, \<open>checked_mul\<close>, \<open>saturating_mul\<close>), decimal printing and parsing as
  \<open>to_string\<close> and \<open>str::parse::<u64>\<close> do it, \<open>str::trim\<close>, \<open>strip_suffix\<close>, \<open>split\<close> and
  \<open>split_once\<close>, finite maps as association lists with unique keys, and the locale of
  step systems with an invariant.
  Strings are byte lists; white space and digits are the ASCII ones.
\<close>

named_theorems word_unat \<open>reading word operations as naturals\<close>

section \<open>Machine integers\<close>

type_synonym u64 = "64 word"
type_synonym u32 = "32 word"
type_synonym u8 = "8 word"

definition sat_add :: "'a::len word \<Rightarrow> 'a word \<Rightarrow> 'a word" where
  "sat_add a b = (if a \<le> a + b then a + b else - 1)"

definition sat_sub :: "'a::len word \<Rightarrow> 'a word \<Rightarrow> 'a word" where
  "sat_sub a b = (if b \<le> a then a - b else 0)"

definition sat_mul :: "'a::len word \<Rightarrow> 'a word \<Rightarrow> 'a word" where
  "sat_mul a b = (if uint a * uint b < 2 ^ LENGTH('a) then a * b else - 1)"

definition chk_add :: "'a::len word \<Rightarrow> 'a word \<Rightarrow> 'a word option" where
  "chk_add a b = (if a \<le> a + b then Some (a + b) else None)"

definition chk_sub :: "'a::len word \<Rightarrow> 'a word \<Rightarrow> 'a word option" where
  "chk_sub a b = (if b \<le> a then Some (a - b) else None)"

definition chk_mul :: "'a::len word \<Rightarrow> 'a word \<Rightarrow> 'a word option" where
  "chk_mul a b = (if uint a * uint b < 2 ^ LENGTH('a) then Some (a * b) else None)"

lemma unat_max_word [word_unat]: "unat (- 1 :: 'a::len word) = 2 ^ LENGTH('a) - 1"
  by (simp add: unsigned_minus_1_eq_mask mask_eq_exp_minus_1)

lemma unat_lt_pow: "unat (a :: 'a::len word) < 2 ^ LENGTH('a)"
  by (rule unsigned_less)

text \<open>The wrap-around tests above are overflow tests.\<close>

lemma add_no_overflow_iff: "a \<le> a + b \<longleftrightarrow> unat a + unat b < 2 ^ LENGTH('a)" for a b :: "'a::len word"
  by (rule no_olen_add_nat)

lemma mul_no_overflow_iff:
  "uint a * uint b < 2 ^ LENGTH('a) \<longleftrightarrow> unat a * unat b < 2 ^ LENGTH('a)" for a b :: "'a::len word"
proof -
  have "uint a * uint b = int (unat a * unat b)" by simp
  then show ?thesis by (simp only: of_nat_less_iff [symmetric, where 'a = int] of_nat_power of_nat_numeral)
qed

lemma unat_sat_add [word_unat]:
  "unat (sat_add a b) = min (unat a + unat b) (2 ^ LENGTH('a) - 1)" for a b :: "'a::len word"
  by (auto simp: sat_add_def add_no_overflow_iff unat_max_word unat_word_ariths min_def)

lemma unat_sat_sub [word_unat]: "unat (sat_sub a b) = unat a - unat b"
  by (auto simp: sat_sub_def unat_sub word_le_nat_alt)

lemma unat_sat_mul [word_unat]:
  "unat (sat_mul a b) = min (unat a * unat b) (2 ^ LENGTH('a) - 1)" for a b :: "'a::len word"
proof (cases "unat a * unat b < 2 ^ LENGTH('a)")
  case True
  then show ?thesis by (simp add: sat_mul_def mul_no_overflow_iff unat_word_ariths)
next
  case False
  then show ?thesis by (simp add: sat_mul_def mul_no_overflow_iff unat_max_word)
qed

lemma unat_max [word_unat]: "unat (max a b) = max (unat a) (unat b)"
  by (auto simp: max_def word_le_nat_alt)

lemma unat_min [word_unat]: "unat (min a b) = min (unat a) (unat b)"
  by (auto simp: min_def word_le_nat_alt)

lemma chk_add_Some_iff:
  "chk_add a b = Some c \<longleftrightarrow> unat c = unat a + unat b" for a b c :: "'a::len word"
proof
  show "chk_add a b = Some c \<Longrightarrow> unat c = unat a + unat b"
    by (auto simp: chk_add_def add_no_overflow_iff unat_word_ariths split: if_splits)
  assume eq: "unat c = unat a + unat b"
  with unat_lt_pow [of c] have lt: "unat a + unat b < 2 ^ LENGTH('a)" by simp
  with eq have "unat (a + b) = unat c" by (simp add: unat_word_ariths)
  then have "a + b = c" by (simp add: word_unat_eq_iff)
  moreover from lt have "a \<le> a + b" by (simp only: add_no_overflow_iff)
  ultimately show "chk_add a b = Some c" by (simp add: chk_add_def)
qed

lemma chk_sub_Some_iff:
  "chk_sub a b = Some c \<longleftrightarrow> unat b \<le> unat a \<and> unat c = unat a - unat b"
proof
  show "chk_sub a b = Some c \<Longrightarrow> unat b \<le> unat a \<and> unat c = unat a - unat b"
    by (auto simp: chk_sub_def word_le_nat_alt unat_sub split: if_splits)
  assume "unat b \<le> unat a \<and> unat c = unat a - unat b"
  then have le: "b \<le> a" and "unat (a - b) = unat c"
    by (simp_all add: word_le_nat_alt unat_sub)
  then have "a - b = c" by (simp add: word_unat_eq_iff)
  with le show "chk_sub a b = Some c" by (simp add: chk_sub_def)
qed

text \<open>\<open>join\<close> of a slice of strings.\<close>

fun join :: "string \<Rightarrow> string list \<Rightarrow> string" where
  "join sep [] = []"
| "join sep [x] = x"
| "join sep (x # y # zs) = x @ sep @ join sep (y # zs)"

section \<open>Decimal text\<close>

definition digit_char :: "nat \<Rightarrow> char" where
  "digit_char d = char_of (48 + d)"

definition digit_val :: "char \<Rightarrow> nat option" where
  "digit_val c = (let n = of_char c :: nat in if 48 \<le> n \<and> n \<le> 57 then Some (n - 48) else None)"

fun show_nat :: "nat \<Rightarrow> string" where
  "show_nat n = (if n < 10 then [digit_char n] else show_nat (n div 10) @ [digit_char (n mod 10)])"

declare show_nat.simps [simp del]

fun parse_digits :: "nat \<Rightarrow> string \<Rightarrow> nat option" where
  "parse_digits acc [] = Some acc"
| "parse_digits acc (c # cs) =
     (case digit_val c of None \<Rightarrow> None | Some d \<Rightarrow> parse_digits (10 * acc + d) cs)"

text \<open>\<open>str::parse::<u64>\<close>: an optional \<open>+\<close>, at least one digit, no overflow.\<close>

definition parse_u64 :: "string \<Rightarrow> u64 option" where
  "parse_u64 s =
     (let ds = (case s of c # cs \<Rightarrow> if c = CHR ''+'' then cs else s | [] \<Rightarrow> [])
      in if ds = [] then None
         else (case parse_digits 0 ds of
                 None \<Rightarrow> None
               | Some n \<Rightarrow> if n < 2 ^ 64 then Some (of_nat n) else None))"

definition show_u64 :: "'a::len word \<Rightarrow> string" where
  "show_u64 w = show_nat (unat w)"

lemma of_char_digit [simp]: "d < 10 \<Longrightarrow> (of_char (digit_char d) :: nat) = 48 + d"
  by (simp add: digit_char_def)

lemma digit_val_char [simp]: "d < 10 \<Longrightarrow> digit_val (digit_char d) = Some d"
  by (simp add: digit_val_def)

lemma parse_digits_append:
  "parse_digits acc (xs @ ys) = Option.bind (parse_digits acc xs) (\<lambda>a. parse_digits a ys)"
  by (induction xs arbitrary: acc) (auto split: option.splits)

lemma parse_show_nat: "parse_digits 0 (show_nat n) = Some n"
proof (induction n rule: show_nat.induct)
  case (1 n)
  show ?case
  proof (cases "n < 10")
    case True
    then show ?thesis by (subst show_nat.simps) simp
  next
    case False
    with "1.IH" show ?thesis
      by (subst show_nat.simps) (simp add: parse_digits_append)
  qed
qed

lemma show_nat_Cons: "\<exists>d cs. d < 10 \<and> show_nat n = digit_char d # cs"
proof (induction n rule: show_nat.induct)
  case (1 n)
  show ?case
  proof (cases "n < 10")
    case True
    then show ?thesis by (subst show_nat.simps) auto
  next
    case False
    with "1.IH" obtain d cs where "d < 10" "show_nat (n div 10) = digit_char d # cs" by blast
    with False show ?thesis by (subst show_nat.simps) auto
  qed
qed

lemma show_nat_digits: "c \<in> set (show_nat n) \<Longrightarrow> \<exists>d < 10. c = digit_char d"
proof (induction n rule: show_nat.induct)
  case (1 n)
  show ?case
  proof (cases "n < 10")
    case True
    with "1.prems" show ?thesis by (subst (asm) show_nat.simps) auto
  next
    case False
    have "n mod 10 < 10" by simp
    moreover from False "1.prems" have "c \<in> set (show_nat (n div 10)) \<or> c = digit_char (n mod 10)"
      by (subst (asm) show_nat.simps) auto
    ultimately show ?thesis using "1.IH" [OF False] by blast
  qed
qed

lemma digit_char_neq_plus [simp]: "d < 10 \<Longrightarrow> digit_char d \<noteq> CHR ''+''"
proof
  assume "d < 10" "digit_char d = CHR ''+''"
  then have "(of_char (CHR ''+'') :: nat) = 48 + d" by (metis of_char_digit)
  then show False by simp
qed

lemma parse_show_u64: "parse_u64 (show_u64 w) = Some w" for w :: u64
proof -
  obtain d cs where "d < 10" "show_nat (unat w) = digit_char d # cs" using show_nat_Cons by blast
  moreover have "parse_digits 0 (show_nat (unat w)) = Some (unat w)" by (rule parse_show_nat)
  moreover have "unat w < 2 ^ 64" using unat_lt_pow [of w] by simp
  ultimately show ?thesis by (simp add: parse_u64_def show_u64_def)
qed

lemma show_nat_inj: "show_nat m = show_nat n \<Longrightarrow> m = n"
  by (metis option.inject parse_show_nat)

section \<open>String operations of the standard library\<close>

definition is_ws :: "char \<Rightarrow> bool" where
  "is_ws c = (let n = of_char c :: nat in n = 32 \<or> (9 \<le> n \<and> n \<le> 13))"

definition trim :: "string \<Rightarrow> string" where
  "trim s = rev (dropWhile is_ws (rev (dropWhile is_ws s)))"

definition strip_suffix :: "string \<Rightarrow> string \<Rightarrow> string option" where
  "strip_suffix suf s = (if suffix suf s then Some (take (length s - length suf) s) else None)"

definition strip_prefix :: "string \<Rightarrow> string \<Rightarrow> string option" where
  "strip_prefix pre s = (if prefix pre s then Some (drop (length pre) s) else None)"

text \<open>\<open>str::split(char)\<close>: always at least one piece.\<close>

fun split_on :: "char \<Rightarrow> string \<Rightarrow> string list" where
  "split_on d [] = [[]]"
| "split_on d (c # cs) =
     (if c = d then [] # split_on d cs
      else (case split_on d cs of [] \<Rightarrow> [[c]] | p # ps \<Rightarrow> (c # p) # ps))"

text \<open>\<open>str::split_once(pat)\<close>: the first occurrence of a non-empty pattern.\<close>

fun split_once :: "string \<Rightarrow> string \<Rightarrow> (string \<times> string) option" where
  "split_once pat [] = (if pat = [] then Some ([], []) else None)"
| "split_once pat (c # cs) =
     (if prefix pat (c # cs) then Some ([], drop (length pat) (c # cs))
      else map_option (\<lambda>(a, b). (c # a, b)) (split_once pat cs))"

text \<open>\<open>str::rsplit_once(pat)\<close>: the last occurrence.\<close>

definition rsplit_once :: "string \<Rightarrow> string \<Rightarrow> (string \<times> string) option" where
  "rsplit_once pat s = map_option (\<lambda>(a, b). (rev b, rev a)) (split_once (rev pat) (rev s))"

lemma strip_suffix_append [simp]: "strip_suffix suf (s @ suf) = Some s"
  by (simp add: strip_suffix_def suffixI)

lemma strip_suffix_Some: "strip_suffix suf s = Some r \<Longrightarrow> s = r @ suf"
  by (auto simp: strip_suffix_def suffix_def split: if_splits)

lemma split_on_nonempty [simp]: "split_on d s \<noteq> []"
  by (induction s) (auto split: list.splits)

lemma split_on_no_delim: "d \<notin> set s \<Longrightarrow> split_on d s = [s]"
  by (induction s) auto

lemma split_on_append: "d \<notin> set a \<Longrightarrow> split_on d (a @ d # b) = a # split_on d b"
  by (induction a) auto

lemma split_once_Some: "split_once pat s = Some (a, b) \<Longrightarrow> s = a @ pat @ b"
proof (induction s arbitrary: a b)
  case Nil
  then show ?case by (simp split: if_splits)
next
  case (Cons c cs)
  show ?case
  proof (cases "prefix pat (c # cs)")
    case True
    with Cons.prems have "a = []" and b: "b = drop (length pat) (c # cs)" by auto
    from True obtain zs where "c # cs = pat @ zs" by (auto simp: prefix_def)
    with \<open>a = []\<close> b show ?thesis by simp
  next
    case False
    with Cons show ?thesis by auto
  qed
qed

lemma rsplit_once_Some: "rsplit_once pat s = Some (a, b) \<Longrightarrow> s = a @ pat @ b"
proof -
  assume "rsplit_once pat s = Some (a, b)"
  then have "split_once (rev pat) (rev s) = Some (rev b, rev a)"
    by (auto simp: rsplit_once_def)
  then have "rev s = rev b @ rev pat @ rev a" by (rule split_once_Some)
  then show ?thesis by (metis append_assoc rev_append rev_rev_ident)
qed

lemma trim_id: "s = [] \<or> (\<not> is_ws (hd s) \<and> \<not> is_ws (last s)) \<Longrightarrow> trim s = s"
proof (cases s)
  case (Cons c cs)
  assume "s = [] \<or> (\<not> is_ws (hd s) \<and> \<not> is_ws (last s))"
  with Cons have h: "\<not> is_ws c" and l: "\<not> is_ws (hd (rev s))"
    by (auto simp only: hd_rev list.sel)
  from h have "dropWhile is_ws s = s" by (simp add: Cons)
  moreover from l have "dropWhile is_ws (rev s) = rev s"
    by (cases "rev s") (auto simp: Cons)
  ultimately show ?thesis by (simp add: trim_def)
qed (simp add: trim_def)

lemma digit_not_ws [simp]: "d < 10 \<Longrightarrow> \<not> is_ws (digit_char d)"
  by (simp add: is_ws_def)

lemma trim_show_u64 [simp]: "trim (show_u64 w) = show_u64 w"
proof (rule trim_id, rule disjI2, rule conjI)
  obtain d cs where d: "d < 10" "show_u64 w = digit_char d # cs"
    unfolding show_u64_def using show_nat_Cons by blast
  then show "\<not> is_ws (hd (show_u64 w))" by simp
  have "last (show_u64 w) \<in> set (show_u64 w)" using d by simp
  then show "\<not> is_ws (last (show_u64 w))"
    unfolding show_u64_def using show_nat_digits digit_not_ws by metis
qed

section \<open>Finite maps as association lists\<close>

lemma map_of_alist_delete [simp]: "map_of (AList.delete k xs) = (map_of xs)(k := None)"
  by (rule AList.delete_conv')

text \<open>\<open>HashMap::insert\<close> on the association list; the order of the entries carries no meaning.\<close>

definition alist_insert :: "'k \<Rightarrow> 'v \<Rightarrow> ('k \<times> 'v) list \<Rightarrow> ('k \<times> 'v) list" where
  "alist_insert k v xs = (k, v) # AList.delete k xs"

lemma map_of_insert [simp]: "map_of (alist_insert k v xs) = (map_of xs)(k \<mapsto> v)"
  by (auto simp: alist_insert_def fun_eq_iff)

lemma keys_insert: "fst ` set (alist_insert k v xs) = insert k (fst ` set xs)"
  by (auto simp: alist_insert_def AList.delete_eq)

lemma distinct_keys_delete: "distinct (map fst xs) \<Longrightarrow> distinct (map fst (AList.delete k xs))"
  by (rule AList.distinct_delete)

lemma distinct_keys_insert: "distinct (map fst xs) \<Longrightarrow> distinct (map fst (alist_insert k v xs))"
  using AList.delete_notin_dom [of k xs] by (auto simp: alist_insert_def distinct_keys_delete)

lemma alist_insert_fresh: "k \<notin> fst ` set xs \<Longrightarrow> alist_insert k v xs = (k, v) # xs"
  by (simp add: alist_insert_def)

lemma keys_delete: "fst ` set (AList.delete k xs) = fst ` set xs - {k}"
  by (auto simp: AList.delete_eq)

lemma sum_list_delete:
  fixes f :: "'k \<times> 'v \<Rightarrow> nat"
  assumes "distinct (map fst xs)" and "map_of xs k = Some v"
  shows "sum_list (map f xs) = f (k, v) + sum_list (map f (AList.delete k xs))"
  using assms
proof (induction xs)
  case (Cons x xs)
  show ?case
  proof (cases "fst x = k")
    case True
    with Cons.prems have "AList.delete k xs = xs"
      by (intro AList.delete_id) auto
    with True Cons.prems show ?thesis by (auto simp: AList.delete_eq)
  next
    case False
    with Cons.prems have "map_of xs k = Some v" by (cases x) auto
    with Cons have "sum_list (map f xs) = f (k, v) + sum_list (map f (AList.delete k xs))" by simp
    with False show ?thesis by (auto simp: AList.delete_eq)
  qed
qed simp

section \<open>Subsequences\<close>

lemma subseq_set: "subseq xs ys \<Longrightarrow> set xs \<subseteq> set ys"
  by (induction rule: list_emb.induct) auto

lemma sorted_wrt_subseq: "subseq xs ys \<Longrightarrow> sorted_wrt P ys \<Longrightarrow> sorted_wrt P xs"
  by (induction rule: list_emb.induct) (auto dest: subseq_set)

lemma sorted_subseq:
  "subseq xs ys \<Longrightarrow> sorted_wrt P (map f ys) \<Longrightarrow> sorted_wrt P (map f xs)"
  by (rule sorted_wrt_subseq [OF subseq_map])

lemma all_splits_Cons:
  "(\<forall>pre x post. c # cs = pre @ x # post \<longrightarrow> P pre x) \<longleftrightarrow>
     P [] c \<and> (\<forall>pre x post. cs = pre @ x # post \<longrightarrow> P (c # pre) x)"
proof (intro iffI conjI allI impI)
  assume *: "\<forall>pre x post. c # cs = pre @ x # post \<longrightarrow> P pre x"
  from * show "P [] c" by (metis append_Nil)
  fix pre x post
  assume "cs = pre @ x # post"
  then have "c # cs = (c # pre) @ x # post" by simp
  with * show "P (c # pre) x" by blast
next
  fix pre x post
  assume "P [] c \<and> (\<forall>pre x post. cs = pre @ x # post \<longrightarrow> P (c # pre) x)"
    and "c # cs = pre @ x # post"
  then show "P pre x" by (cases pre) auto
qed

section \<open>Step systems\<close>

text \<open>
  The contract of a component that moves in steps: a set of start states, a step relation,
  and an invariant the start states have and every step keeps. Every state a run reaches
  then has it.
\<close>

locale step_system =
  fixes start :: "'s \<Rightarrow> bool"
    and step :: "'s \<Rightarrow> 's \<Rightarrow> bool"
    and invar :: "'s \<Rightarrow> bool"
  assumes start_invar: "start s \<Longrightarrow> invar s"
    and step_invar: "invar s \<Longrightarrow> step s t \<Longrightarrow> invar t"
begin

lemma steps_invar: "step\<^sup>*\<^sup>* s t \<Longrightarrow> invar s \<Longrightarrow> invar t"
  by (induction rule: rtranclp_induct) (auto intro: step_invar)

lemma reach_invar: "start s \<Longrightarrow> step\<^sup>*\<^sup>* s t \<Longrightarrow> invar t"
  by (blast intro: start_invar steps_invar)

end

end
