(* ===== verification/Qos_Resources.thy ===== *)
theory Qos_Resources
  imports Ztest_Prelude "HOL-Library.Multiset"
begin

text \<open>
  The resource vocabulary of \<open>src/src/qos/mod.rs\<close>: the five-dimensional \<open>Resources\<close> amount
  with its saturating and checked arithmetic, the tier table (\<open>QosClass\<close>, \<open>QosProfile\<close>,
  \<open>Pool\<close>), the declaration a running test enters, and the preflight summary of
  \<open>src/src/qos/schedule.rs\<close>. A panic (\<open>assert!\<close>) is the value \<open>None\<close>. Durations are whole
  seconds. The locale \<open>amounts\<close> is what admission and the ledger rely on: a saturating
  commutative monoid ordered by "fits within".
\<close>

named_theorems res_simps \<open>dimension-wise reading of resource operations\<close>

section \<open>Amounts\<close>

record resources =
  cpu_milli :: u64
  mem_bytes :: u64
  disk_bps :: u64
  disk_iops :: u64
  disk_bytes :: u64

definition MIB :: u64 where "MIB = 1024 * 1024"
definition GIB :: u64 where "GIB = 1024 * MIB"

definition ZERO :: resources where
  "ZERO = \<lparr>cpu_milli = 0, mem_bytes = 0, disk_bps = 0, disk_iops = 0, disk_bytes = 0\<rparr>"

definition r_new :: "u64 \<Rightarrow> u64 \<Rightarrow> u64 \<Rightarrow> u64 \<Rightarrow> resources" where
  "r_new c m b i =
     \<lparr>cpu_milli = c, mem_bytes = m, disk_bps = b, disk_iops = i, disk_bytes = 0\<rparr>"

definition with_disk :: "resources \<Rightarrow> u64 \<Rightarrow> resources" where
  "with_disk r d = r\<lparr>disk_bytes := d\<rparr>"

definition cpu_mem_unbounded_rest :: "u64 \<Rightarrow> u64 \<Rightarrow> resources" where
  "cpu_mem_unbounded_rest c m = with_disk (r_new c m (- 1) (- 1)) (- 1)"

definition fits_within :: "resources \<Rightarrow> resources \<Rightarrow> bool" where
  "fits_within r cap \<longleftrightarrow>
     cpu_milli r \<le> cpu_milli cap \<and> mem_bytes r \<le> mem_bytes cap \<and>
     disk_bps r \<le> disk_bps cap \<and> disk_iops r \<le> disk_iops cap \<and>
     disk_bytes r \<le> disk_bytes cap"

definition r_checked_add :: "resources \<Rightarrow> resources \<Rightarrow> resources option" where
  "r_checked_add r s =
     Option.bind (chk_add (cpu_milli r) (cpu_milli s)) (\<lambda>c.
     Option.bind (chk_add (mem_bytes r) (mem_bytes s)) (\<lambda>m.
     Option.bind (chk_add (disk_bps r) (disk_bps s)) (\<lambda>b.
     Option.bind (chk_add (disk_iops r) (disk_iops s)) (\<lambda>i.
     Option.bind (chk_add (disk_bytes r) (disk_bytes s)) (\<lambda>d.
       Some \<lparr>cpu_milli = c, mem_bytes = m, disk_bps = b, disk_iops = i, disk_bytes = d\<rparr>)))))"

definition r_checked_sub :: "resources \<Rightarrow> resources \<Rightarrow> resources option" where
  "r_checked_sub r s =
     Option.bind (chk_sub (cpu_milli r) (cpu_milli s)) (\<lambda>c.
     Option.bind (chk_sub (mem_bytes r) (mem_bytes s)) (\<lambda>m.
     Option.bind (chk_sub (disk_bps r) (disk_bps s)) (\<lambda>b.
     Option.bind (chk_sub (disk_iops r) (disk_iops s)) (\<lambda>i.
     Option.bind (chk_sub (disk_bytes r) (disk_bytes s)) (\<lambda>d.
       Some \<lparr>cpu_milli = c, mem_bytes = m, disk_bps = b, disk_iops = i, disk_bytes = d\<rparr>)))))"

definition r_map2 :: "(u64 \<Rightarrow> u64 \<Rightarrow> u64) \<Rightarrow> resources \<Rightarrow> resources \<Rightarrow> resources" where
  "r_map2 f r s =
     \<lparr>cpu_milli = f (cpu_milli r) (cpu_milli s), mem_bytes = f (mem_bytes r) (mem_bytes s),
      disk_bps = f (disk_bps r) (disk_bps s), disk_iops = f (disk_iops r) (disk_iops s),
      disk_bytes = f (disk_bytes r) (disk_bytes s)\<rparr>"

definition r_saturating_sub :: "resources \<Rightarrow> resources \<Rightarrow> resources" where
  "r_saturating_sub = r_map2 sat_sub"

definition r_saturating_add :: "resources \<Rightarrow> resources \<Rightarrow> resources" where
  "r_saturating_add = r_map2 sat_add"

definition r_max :: "resources \<Rightarrow> resources \<Rightarrow> resources" where
  "r_max = r_map2 max"

definition r_min :: "resources \<Rightarrow> resources \<Rightarrow> resources" where
  "r_min = r_map2 min"

text \<open>\<open>assert_pod_schedulable\<close> panics exactly where this predicate is false.\<close>

definition pod_schedulable :: "resources \<Rightarrow> bool" where
  "pod_schedulable r \<longleftrightarrow> cpu_milli r > 0 \<and> mem_bytes r > 0"

definition guaranteed_cpu_mem :: "resources \<Rightarrow> (string \<times> string) option" where
  "guaranteed_cpu_mem r =
     (if pod_schedulable r
      then let cores = max ((unat (cpu_milli r) + 999) div 1000) 1
           in Some (show_nat cores, show_u64 (mem_bytes r))
      else None)"

definition compact_bytes :: "u64 \<Rightarrow> string" where
  "compact_bytes b =
     (if b \<ge> GIB then show_u64 (b div GIB) @ ''Gi'' else show_u64 (b div MIB) @ ''Mi'')"

definition compact_mem :: "resources \<Rightarrow> string" where
  "compact_mem r = compact_bytes (mem_bytes r)"

definition frac_pct :: "u64 \<Rightarrow> u64 \<Rightarrow> u8" where
  "frac_pct p w = (if w = 0 then 0 else of_nat (min (unat p * 100 div unat w) 100))"

definition ratio_pct :: "resources \<Rightarrow> resources \<Rightarrow> u8 \<times> u8" where
  "ratio_pct r whole =
     (frac_pct (cpu_milli r) (cpu_milli whole), frac_pct (mem_bytes r) (mem_bytes whole))"

definition r_display :: "resources \<Rightarrow> string" where
  "r_display r =
     (let cpu = (if cpu_milli r \<noteq> 0 \<and> cpu_milli r mod 1000 = 0
                 then show_u64 (cpu_milli r div 1000) @ ''c''
                 else show_u64 (cpu_milli r) @ ''m'');
          mem = (if mem_bytes r \<noteq> 0 \<and> mem_bytes r mod GIB = 0
                 then show_u64 (mem_bytes r div GIB) @ '' GiB''
                 else show_u64 (mem_bytes r div MIB) @ '' MiB'')
      in cpu @ '' / '' @ mem)"

section \<open>Cluster capacity, pools and tiers\<close>

record cluster_capacity =
  cc_allocatable :: resources
  cc_reserved :: resources

definition capacity_free :: "cluster_capacity \<Rightarrow> resources" where
  "capacity_free c = r_saturating_sub (cc_allocatable c) (cc_reserved c)"

datatype pool = General | Nvme

definition pool_as_label :: "pool \<Rightarrow> string" where
  "pool_as_label p = (case p of General \<Rightarrow> ''general'' | Nvme \<Rightarrow> ''nvme'')"

definition pool_from_label :: "string \<Rightarrow> pool option" where
  "pool_from_label s =
     (if s = ''general'' then Some General else if s = ''nvme'' then Some Nvme else None)"

datatype qos_class = Integration | Wallet | Testnet | Sync

definition qos_as_label :: "qos_class \<Rightarrow> string" where
  "qos_as_label c = (case c of Integration \<Rightarrow> ''integration'' | Wallet \<Rightarrow> ''wallet''
     | Testnet \<Rightarrow> ''testnet'' | Sync \<Rightarrow> ''sync'')"

definition qos_from_label :: "string \<Rightarrow> qos_class option" where
  "qos_from_label s =
     (if s = ''integration'' then Some Integration else if s = ''wallet'' then Some Wallet
      else if s = ''testnet'' then Some Testnet else if s = ''sync'' then Some Sync else None)"

record qos_profile =
  pf_footprint :: resources
  pf_runner :: resources
  pf_pool :: pool
  pf_hard_cap :: nat

definition admitted :: "qos_profile \<Rightarrow> resources" where
  "admitted p = r_saturating_add (pf_footprint p) (pf_runner p)"

definition with_footprint :: "qos_profile \<Rightarrow> resources option \<Rightarrow> qos_profile option" where
  "with_footprint p fp = (case fp of
      Some f \<Rightarrow> if pod_schedulable f then Some (p\<lparr>pf_footprint := f\<rparr>) else None
    | None \<Rightarrow> Some p)"

definition with_runner :: "qos_profile \<Rightarrow> resources option \<Rightarrow> qos_profile option" where
  "with_runner p rn = (case rn of
      Some r \<Rightarrow> if pod_schedulable r then Some (p\<lparr>pf_runner := r\<rparr>) else None
    | None \<Rightarrow> Some p)"

definition profile :: "qos_class \<Rightarrow> qos_profile" where
  "profile c = (case c of
      Integration \<Rightarrow> \<lparr>pf_footprint = r_new 2000 (4 * GIB) 0 0, pf_runner = r_new 1000 GIB 0 0,
                      pf_pool = General, pf_hard_cap = 10 * 60\<rparr>
    | Wallet \<Rightarrow> \<lparr>pf_footprint = r_new 2000 (4 * GIB) 0 0, pf_runner = r_new 2000 (2 * GIB) 0 0,
                      pf_pool = General, pf_hard_cap = 10 * 60\<rparr>
    | Testnet \<Rightarrow> \<lparr>pf_footprint = r_new 8000 (10 * GIB) 0 0, pf_runner = r_new 1000 GIB 0 0,
                      pf_pool = General, pf_hard_cap = 6 * 60 * 60\<rparr>
    | Sync \<Rightarrow> \<lparr>pf_footprint = ZERO, pf_runner = r_new 2000 (4 * GIB) 0 0,
                      pf_pool = Nvme, pf_hard_cap = 48 * 60 * 60\<rparr>)"

definition profile_with :: "qos_class \<Rightarrow> resources option \<Rightarrow> qos_profile option" where
  "profile_with c fp = Option.bind (with_footprint (profile c) fp)
     (\<lambda>p. if pf_footprint p \<noteq> ZERO then Some p else None)"

definition ALL_TIERS :: "qos_class list" where
  "ALL_TIERS = [Integration, Wallet, Testnet, Sync]"

definition default_class :: qos_class where "default_class = Integration"

definition default_footprint :: resources where
  "default_footprint = pf_footprint (profile default_class)"

section \<open>The declaration the running test entered\<close>

record declared =
  d_class :: qos_class
  d_footprint :: "resources option"
  d_runner :: "resources option"

text \<open>The process-global \<open>CURRENT\<close> is the state passed through these operations.\<close>

definition enter ::
  "qos_class \<Rightarrow> resources option \<Rightarrow> resources option \<Rightarrow> declared option \<Rightarrow> declared option" where
  "enter c fp rn current_entry = Some \<lparr>d_class = c, d_footprint = fp, d_runner = rn\<rparr>"

definition current :: "declared option \<Rightarrow> qos_class" where
  "current e = (case e of None \<Rightarrow> default_class | Some d \<Rightarrow> d_class d)"

definition current_footprint :: "declared option \<Rightarrow> resources option" where
  "current_footprint e = Option.bind e d_footprint"

definition current_profile :: "declared option \<Rightarrow> qos_profile option" where
  "current_profile e = Option.bind (profile_with (current e) (current_footprint e))
     (\<lambda>p. with_runner p (Option.bind e d_runner))"

section \<open>The preflight summary\<close>

record planned_test =
  pt_name :: string
  pt_admitted :: resources

record qos_plan =
  qp_tests :: u32
  qp_total :: resources
  qp_free :: "resources option"
  qp_unschedulable :: "planned_test list"

definition qos_plan_of :: "planned_test list \<Rightarrow> resources option \<Rightarrow> qos_plan" where
  "qos_plan_of tests free =
     \<lparr>qp_tests = of_nat (length tests),
      qp_total = foldl (\<lambda>acc t. r_saturating_add acc (pt_admitted t)) ZERO tests,
      qp_free = free,
      qp_unschedulable = (case free of
          Some f \<Rightarrow> filter (\<lambda>t. \<not> fits_within (pt_admitted t) f) tests
        | None \<Rightarrow> [])\<rparr>"

section \<open>Reading amounts dimension by dimension\<close>

datatype dim = Cpu | Mem | Bps | Iops | Disk

fun amount :: "resources \<Rightarrow> dim \<Rightarrow> nat" where
  "amount r Cpu = unat (cpu_milli r)"
| "amount r Mem = unat (mem_bytes r)"
| "amount r Bps = unat (disk_bps r)"
| "amount r Iops = unat (disk_iops r)"
| "amount r Disk = unat (disk_bytes r)"

abbreviation u64_max :: nat where "u64_max \<equiv> 2 ^ 64 - 1"

lemma all_dim: "(\<forall>d. P d) \<longleftrightarrow> P Cpu \<and> P Mem \<and> P Bps \<and> P Iops \<and> P Disk"
  by (metis dim.exhaust)

lemma amount_le_max: "amount r d \<le> u64_max"
proof -
  have "unat w \<le> u64_max" for w :: u64 using unat_lt_pow [of w] by simp
  then show ?thesis by (cases d) simp_all
qed

lemma resources_eq_iff: "r = s \<longleftrightarrow> (\<forall>d. amount r d = amount s d)"
  by (auto simp: all_dim word_unat_eq_iff intro: resources.equality)

lemma fits_within_iff [res_simps]: "fits_within r s \<longleftrightarrow> (\<forall>d. amount r d \<le> amount s d)"
  by (simp add: fits_within_def all_dim word_le_nat_alt)

lemma amount_ZERO [simp, res_simps]: "amount ZERO d = 0"
  by (cases d) (simp_all add: ZERO_def)

lemma amount_sat_add [res_simps]:
  "amount (r_saturating_add r s) d = min (amount r d + amount s d) u64_max"
  by (cases d) (simp_all add: r_saturating_add_def r_map2_def word_unat)

lemma amount_sat_sub [res_simps]: "amount (r_saturating_sub r s) d = amount r d - amount s d"
  by (cases d) (simp_all add: r_saturating_sub_def r_map2_def word_unat)

lemma amount_r_max [res_simps]: "amount (r_max r s) d = max (amount r d) (amount s d)"
  by (cases d) (simp_all add: r_max_def r_map2_def word_unat)

lemma amount_r_min [res_simps]: "amount (r_min r s) d = min (amount r d) (amount s d)"
  by (cases d) (simp_all add: r_min_def r_map2_def word_unat)

lemma r_checked_add_Some:
  "r_checked_add r s = Some t \<longleftrightarrow> (\<forall>d. amount t d = amount r d + amount s d)"
  by (cases t) (auto simp: r_checked_add_def bind_eq_Some_conv chk_add_Some_iff all_dim)

lemma r_checked_sub_Some:
  "r_checked_sub r s = Some t \<longleftrightarrow>
     (\<forall>d. amount s d \<le> amount r d \<and> amount t d = amount r d - amount s d)"
  by (cases t) (auto simp: r_checked_sub_def bind_eq_Some_conv chk_sub_Some_iff all_dim)

section \<open>The interface admission and the ledger rely on\<close>

locale amounts =
  fixes fits :: "'r \<Rightarrow> 'r \<Rightarrow> bool"
    and add :: "'r \<Rightarrow> 'r \<Rightarrow> 'r"
    and zero :: "'r"
  assumes fits_refl: "fits r r"
    and fits_antisym: "fits r s \<Longrightarrow> fits s r \<Longrightarrow> r = s"
    and fits_trans: "fits r s \<Longrightarrow> fits s t \<Longrightarrow> fits r t"
    and zero_fits: "fits zero r"
    and add_zero: "add zero r = r"
    and add_commute: "add r s = add s r"
    and add_assoc: "add (add r s) t = add r (add s t)"
    and add_mono: "fits r s \<Longrightarrow> fits (add r t) (add s t)"
begin

lemma fits_add: "fits r (add r s)"
proof -
  have "fits (add zero r) (add s r)" by (rule add_mono [OF zero_fits])
  then show ?thesis by (simp only: add_zero add_commute [of s])
qed

lemma foldl_add_start: "foldl add a xs = add a (foldl add zero xs)"
proof (induction xs arbitrary: a)
  case Nil
  then show ?case by (simp add: add_commute [of a] add_zero)
next
  case (Cons x xs)
  have "foldl add a (x # xs) = add (add a x) (foldl add zero xs)"
    using Cons.IH [of "add a x"] by simp
  also have "\<dots> = add a (add x (foldl add zero xs))" by (rule add_assoc)
  also have "add x (foldl add zero xs) = foldl add zero (x # xs)"
    using Cons.IH [of x] by (simp add: add_zero)
  finally show ?case .
qed

lemma foldl_add_Cons: "foldl add zero (x # xs) = add x (foldl add zero xs)"
  using foldl_add_start [of "add zero x" xs] by (simp add: add_zero)

lemma foldl_add_append:
  "foldl add zero (xs @ ys) = add (foldl add zero xs) (foldl add zero ys)"
  by (simp add: foldl_add_start [of "foldl add zero xs"])

lemma fits_foldl: "x \<in> set xs \<Longrightarrow> fits x (foldl add zero xs)"
proof (induction xs)
  case (Cons y ys)
  show ?case
  proof (cases "x = y")
    case True
    then show ?thesis by (simp only: foldl_add_Cons fits_add)
  next
    case False
    with Cons have "fits x (foldl add zero ys)" by simp
    moreover have "fits (foldl add zero ys) (foldl add zero (y # ys))"
      unfolding foldl_add_Cons by (metis add_commute fits_add)
    ultimately show ?thesis by (rule fits_trans)
  qed
qed simp

lemma foldl_perm: "mset xs = mset ys \<Longrightarrow> foldl add zero xs = foldl add zero ys"
proof (induction xs arbitrary: ys)
  case (Cons x xs)
  then have "x \<in> set ys" by (metis list.set_intros(1) set_mset_mset)
  then obtain us vs where ys: "ys = us @ x # vs" by (meson split_list)
  with Cons.prems have "mset xs = mset (us @ vs)" by simp
  with Cons.IH have "foldl add zero xs = foldl add zero (us @ vs)" by blast
  then show ?case
    unfolding ys foldl_add_Cons foldl_add_append
    by (metis add_assoc add_commute)
qed simp

end

interpretation res: amounts fits_within r_saturating_add ZERO
proof unfold_locales
  fix r s t :: resources
  show "fits_within r r" by (simp add: fits_within_iff)
  show "fits_within r s \<Longrightarrow> fits_within s r \<Longrightarrow> r = s"
    by (metis fits_within_iff resources_eq_iff le_antisym)
  show "fits_within r s \<Longrightarrow> fits_within s t \<Longrightarrow> fits_within r t"
    by (auto simp: fits_within_iff intro: le_trans)
  show "fits_within ZERO r" by (simp add: fits_within_iff)
  show "r_saturating_add ZERO r = r"
    using amount_le_max [of r] by (simp add: resources_eq_iff amount_sat_add)
  show "r_saturating_add r s = r_saturating_add s r"
    by (simp add: resources_eq_iff amount_sat_add add.commute)
  show "r_saturating_add (r_saturating_add r s) t = r_saturating_add r (r_saturating_add s t)"
    by (auto simp: resources_eq_iff amount_sat_add)
  show "fits_within r s \<Longrightarrow> fits_within (r_saturating_add r t) (r_saturating_add s t)"
    unfolding fits_within_iff amount_sat_add by (meson add_le_mono1 min.mono order_refl)
qed

text \<open>Both directions of a text label: what the \<open>as_label\<close>/\<open>from_label\<close> pairs promise.\<close>

locale label_codec =
  fixes as_label :: "'a \<Rightarrow> string"
    and from_label :: "string \<Rightarrow> 'a option"
  assumes from_as: "from_label (as_label x) = Some x"
    and as_from: "from_label s = Some x \<Longrightarrow> s = as_label x"
begin

lemma as_label_inj: "as_label x = as_label y \<Longrightarrow> x = y"
  by (metis from_as option.inject)

lemma from_label_iff: "from_label s = Some x \<longleftrightarrow> s = as_label x"
  using as_from from_as by blast

lemma from_label_None: "from_label s = None \<longleftrightarrow> s \<notin> range as_label"
  by (metis as_from from_as not_None_eq option.distinct(1) rangeE rangeI)

end

interpretation pool_codec: label_codec pool_as_label pool_from_label
proof unfold_locales
  fix x s
  show "pool_from_label (pool_as_label x) = Some x"
    by (cases x) (simp_all add: pool_as_label_def pool_from_label_def)
  show "pool_from_label s = Some x \<Longrightarrow> s = pool_as_label x"
    by (auto simp: pool_as_label_def pool_from_label_def split: if_splits)
qed

interpretation qos_codec: label_codec qos_as_label qos_from_label
proof unfold_locales
  fix x s
  show "qos_from_label (qos_as_label x) = Some x"
    by (cases x) (simp_all add: qos_as_label_def qos_from_label_def)
  show "qos_from_label s = Some x \<Longrightarrow> s = qos_as_label x"
    by (auto simp: qos_as_label_def qos_from_label_def split: if_splits)
qed

end
