(* ===== verification/Qos_Scheduler.thy ===== *)
theory Qos_Scheduler
  imports Qos_Resources
begin

text \<open>
  The admission core of \<open>src/src/qos/scheduler.rs\<close>: \<open>decide\<close>, and the \<open>Scheduler\<close> with its
  lease table, its arrival-ordered queue and its per-identity budgets. A state is a record;
  each operation returns the next state, and \<open>None\<close> stands for a panic (the \<open>assert!\<close>s of
  \<open>request\<close> and \<open>admit\<close>, and the \<open>debug_assert!\<close> of \<open>schedule_pass\<close>). Slot ids and arrival
  numbers are naturals: the source's \<open>u64\<close> counters would have to be incremented \<open>2 ^ 64\<close>
  times to wrap. The lease table is an association list with unique keys.
  The lemmas show that the incremental accounting is exact, that no operation of a running
  scheduler panics, that one pass is enough, and that admission is the pure decision.
\<close>

section \<open>Requests, decisions and the scheduler's state\<close>

datatype reject_reason = ExceedsClusterCapacity | ExceedsSaBudget

datatype 'a admission = Granted 'a | Queued | Rejected reject_reason

definition decide ::
  "resources \<Rightarrow> resources \<Rightarrow> resources \<Rightarrow> resources option \<Rightarrow> resources \<Rightarrow> unit admission" where
  "decide available committed sa_usage sa_budget footprint =
     (if \<not> fits_within footprint available then Rejected ExceedsClusterCapacity
      else if (case sa_budget of Some b \<Rightarrow> \<not> fits_within footprint b | None \<Rightarrow> False)
        then Rejected ExceedsSaBudget
      else if \<not> fits_within footprint (r_saturating_sub available committed) then Queued
      else if (case sa_budget of Some b \<Rightarrow> \<not> fits_within footprint (r_saturating_sub b sa_usage)
               | None \<Rightarrow> False)
        then Queued
      else Granted ())"

type_synonym slot_id = nat

record request =
  rq_binary_id :: string
  rq_test_name :: string
  rq_sa :: string
  rq_footprint :: resources

record admitted_test =
  ad_slot_id :: slot_id
  ad_binary_id :: string
  ad_test_name :: string

record lease =
  l_binary_id :: string
  l_test_name :: string
  l_sa :: string
  l_footprint :: resources

record pending =
  p_seq :: nat
  p_req :: request

record scheduler =
  available :: resources
  committed :: resources
  leases :: "(slot_id \<times> lease) list"
  queue :: "pending list"
  sa_budgets :: "string \<rightharpoonup> resources"
  sa_usage :: "string \<rightharpoonup> resources"
  next_seq :: nat
  next_slot_id :: nat

section \<open>Operations\<close>

definition sched_new :: "resources \<Rightarrow> scheduler" where
  "sched_new av =
     \<lparr>available = av, committed = ZERO, leases = [], queue = [],
      sa_budgets = Map.empty, sa_usage = Map.empty, next_seq = 0, next_slot_id = 0\<rparr>"

definition set_sa_budget :: "string \<Rightarrow> resources \<Rightarrow> scheduler \<Rightarrow> scheduler" where
  "set_sa_budget sa b s = s\<lparr>sa_budgets := (sa_budgets s)(sa \<mapsto> b)\<rparr>"

definition sched_free :: "scheduler \<Rightarrow> resources" where
  "sched_free s = r_saturating_sub (available s) (committed s)"

definition sched_ceiling :: "scheduler \<Rightarrow> resources" where
  "sched_ceiling s = available s"

definition sched_demand :: "scheduler \<Rightarrow> resources" where
  "sched_demand s =
     foldl (\<lambda>acc p. r_saturating_add acc (rq_footprint (p_req p))) (committed s) (queue s)"

definition queue_len :: "scheduler \<Rightarrow> nat" where
  "queue_len s = length (queue s)"

definition active_leases :: "scheduler \<Rightarrow> nat" where
  "active_leases s = length (leases s)"

definition sa_usage_of :: "scheduler \<Rightarrow> string \<Rightarrow> resources" where
  "sa_usage_of s sa = (case sa_usage s sa of Some u \<Rightarrow> u | None \<Rightarrow> ZERO)"

definition decide_for :: "scheduler \<Rightarrow> request \<Rightarrow> unit admission" where
  "decide_for s r =
     decide (available s) (committed s) (sa_usage_of s (rq_sa r)) (sa_budgets s (rq_sa r))
       (rq_footprint r)"

definition fits_now :: "scheduler \<Rightarrow> request \<Rightarrow> bool" where
  "fits_now s r \<longleftrightarrow> decide_for s r = Granted ()"

definition admit :: "scheduler \<Rightarrow> request \<Rightarrow> (scheduler \<times> admitted_test) option" where
  "admit s r =
     (if \<not> fits_within (rq_footprint r) (r_saturating_sub (available s) (committed s)) then None
      else
        let slot = next_slot_id s;
            usage = r_saturating_add (sa_usage_of s (rq_sa r)) (rq_footprint r);
            grant = \<lparr>ad_slot_id = slot, ad_binary_id = rq_binary_id r,
                     ad_test_name = rq_test_name r\<rparr>;
            l = \<lparr>l_binary_id = rq_binary_id r, l_test_name = rq_test_name r,
                 l_sa = rq_sa r, l_footprint = rq_footprint r\<rparr>
        in Some (s\<lparr>next_slot_id := slot + 1,
                   committed := r_saturating_add (committed s) (rq_footprint r),
                   sa_usage := (sa_usage s)(rq_sa r \<mapsto> usage),
                   leases := alist_insert slot l (leases s)\<rparr>,
                 grant))"

text \<open>The body of the loop over the queue taken out of the scheduler.\<close>

fun pass_loop ::
  "scheduler \<Rightarrow> pending list \<Rightarrow> (scheduler \<times> admitted_test list \<times> pending list) option" where
  "pass_loop s [] = Some (s, [], [])"
| "pass_loop s (e # es) =
     (if fits_now s (p_req e)
      then (case admit s (p_req e) of
              None \<Rightarrow> None
            | Some (s', g) \<Rightarrow> map_option (\<lambda>(t, gs, qs). (t, g # gs, qs)) (pass_loop s' es))
      else map_option (\<lambda>(t, gs, qs). (t, gs, e # qs)) (pass_loop s es))"

definition schedule_pass :: "scheduler \<Rightarrow> (scheduler \<times> admitted_test list) option" where
  "schedule_pass s =
     (if \<not> sorted_wrt (<) (map p_seq (queue s)) then None
      else (case pass_loop (s\<lparr>queue := []\<rparr>) (queue s) of
              None \<Rightarrow> None
            | Some (t, grants, still_queued) \<Rightarrow> Some (t\<lparr>queue := still_queued\<rparr>, grants)))"

definition sched_request :: "request \<Rightarrow> scheduler \<Rightarrow> (scheduler \<times> slot_id admission) option" where
  "sched_request r s =
     (case decide_for s r of
        Rejected why \<Rightarrow> Some (s, Rejected why)
      | _ \<Rightarrow>
          (case schedule_pass (s\<lparr>next_seq := next_seq s + 1,
                                 queue := queue s @ [\<lparr>p_seq = next_seq s, p_req = r\<rparr>]\<rparr>) of
             None \<Rightarrow> None
           | Some (t, grants) \<Rightarrow>
               if length grants > 1 then None
               else Some (t, case find (\<lambda>g. ad_binary_id g = rq_binary_id r \<and>
                                             ad_test_name g = rq_test_name r) grants of
                                Some g \<Rightarrow> Granted (ad_slot_id g)
                              | None \<Rightarrow> Queued)))"

definition release_usage :: "scheduler \<Rightarrow> lease \<Rightarrow> (string \<rightharpoonup> resources)" where
  "release_usage s l = (case sa_usage s (l_sa l) of
      None \<Rightarrow> sa_usage s
    | Some u \<Rightarrow>
        let u' = r_saturating_sub u (l_footprint l)
        in if u' = ZERO then (sa_usage s)(l_sa l := None) else (sa_usage s)(l_sa l \<mapsto> u'))"

definition sched_release :: "slot_id \<Rightarrow> scheduler \<Rightarrow> (scheduler \<times> admitted_test list) option" where
  "sched_release slot s = (case map_of (leases s) slot of
      None \<Rightarrow> Some (s, [])
    | Some l \<Rightarrow>
        schedule_pass (s\<lparr>leases := AList.delete slot (leases s),
                         committed := r_saturating_sub (committed s) (l_footprint l),
                         sa_usage := release_usage s l\<rparr>))"

definition sched_disconnect :: "slot_id \<Rightarrow> scheduler \<Rightarrow> (scheduler \<times> admitted_test list) option" where
  "sched_disconnect slot s = sched_release slot s"

definition sched_reconcile :: "resources \<Rightarrow> scheduler \<Rightarrow> (scheduler \<times> admitted_test list) option" where
  "sched_reconcile new_available s = schedule_pass (s\<lparr>available := new_available\<rparr>)"

section \<open>The invariant: exact accounting and an ordered queue\<close>

definition lease_total :: "(slot_id \<times> lease) list \<Rightarrow> dim \<Rightarrow> nat" where
  "lease_total ls d = sum_list (map (\<lambda>x. amount (l_footprint (snd x)) d) ls)"

definition sa_total :: "(slot_id \<times> lease) list \<Rightarrow> string \<Rightarrow> dim \<Rightarrow> nat" where
  "sa_total ls sa d =
     sum_list (map (\<lambda>x. if l_sa (snd x) = sa then amount (l_footprint (snd x)) d else 0) ls)"

definition slots_ok :: "scheduler \<Rightarrow> bool" where
  "slots_ok s \<longleftrightarrow> distinct (map fst (leases s)) \<and> (\<forall>k \<in> fst ` set (leases s). k < next_slot_id s)"

definition books_ok :: "scheduler \<Rightarrow> bool" where
  "books_ok s \<longleftrightarrow> (\<forall>d. amount (committed s) d = lease_total (leases s) d) \<and>
     (\<forall>sa d. amount (sa_usage_of s sa) d = sa_total (leases s) sa d)"

definition queue_ok :: "scheduler \<Rightarrow> bool" where
  "queue_ok s \<longleftrightarrow> sorted_wrt (<) (map p_seq (queue s)) \<and> (\<forall>p \<in> set (queue s). p_seq p < next_seq s)"

definition core_inv :: "scheduler \<Rightarrow> bool" where
  "core_inv s \<longleftrightarrow> slots_ok s \<and> books_ok s"

definition sched_inv :: "scheduler \<Rightarrow> bool" where
  "sched_inv s \<longleftrightarrow> core_inv s \<and> queue_ok s"

text \<open>Nothing that waits could start now.\<close>

definition quiescent :: "scheduler \<Rightarrow> bool" where
  "quiescent s \<longleftrightarrow> (\<forall>p \<in> set (queue s). \<not> fits_now s (p_req p))"

lemmas sched_inv_defs = sched_inv_def core_inv_def slots_ok_def books_ok_def queue_ok_def

lemma decide_eq_Granted:
  "decide av c u b f = Granted () \<longleftrightarrow>
     fits_within f (r_saturating_sub av c) \<and>
     (case b of None \<Rightarrow> True | Some b \<Rightarrow> fits_within f (r_saturating_sub b u))"
proof -
  have "fits_within f (r_saturating_sub a x) \<Longrightarrow> fits_within f a" for a x
    by (auto simp: res_simps intro: le_trans diff_le_self)
  then show ?thesis by (auto simp: decide_def split: option.splits)
qed

lemma fits_now_iff:
  "fits_now s r \<longleftrightarrow>
     fits_within (rq_footprint r) (r_saturating_sub (available s) (committed s)) \<and>
     (case sa_budgets s (rq_sa r) of None \<Rightarrow> True
      | Some b \<Rightarrow> fits_within (rq_footprint r) (r_saturating_sub b (sa_usage_of s (rq_sa r))))"
  by (simp add: fits_now_def decide_for_def decide_eq_Granted)

lemma sa_usage_of_frame [simp]:
  "sa_usage_of (s\<lparr>queue := q\<rparr>) = sa_usage_of s"
  "sa_usage_of (s\<lparr>next_seq := n\<rparr>) = sa_usage_of s"
  "sa_usage_of (s\<lparr>available := av\<rparr>) = sa_usage_of s"
  "sa_usage_of (s\<lparr>sa_budgets := bs\<rparr>) = sa_usage_of s"
  by (simp_all add: sa_usage_of_def fun_eq_iff)

lemma fits_now_queue [simp]: "fits_now (s\<lparr>queue := q\<rparr>) r = fits_now s r"
  by (simp add: fits_now_def decide_for_def)

lemma fits_now_seq [simp]: "fits_now (s\<lparr>next_seq := n\<rparr>) r = fits_now s r"
  by (simp add: fits_now_def decide_for_def)

lemma core_inv_queue [simp]: "core_inv (s\<lparr>queue := q\<rparr>) = core_inv s"
  by (simp add: core_inv_def slots_ok_def books_ok_def sa_usage_of_def)

lemma core_inv_seq [simp]: "core_inv (s\<lparr>next_seq := n\<rparr>) = core_inv s"
  by (simp add: core_inv_def slots_ok_def books_ok_def sa_usage_of_def)

lemma sa_total_le: "sa_total ls sa d \<le> lease_total ls d"
  unfolding sa_total_def lease_total_def by (rule sum_list_mono) simp

lemma lease_total_Cons [simp]:
  "lease_total (x # ls) d = amount (l_footprint (snd x)) d + lease_total ls d"
  by (simp add: lease_total_def)

lemma sa_total_Cons [simp]:
  "sa_total (x # ls) sa d =
     (if l_sa (snd x) = sa then amount (l_footprint (snd x)) d else 0) + sa_total ls sa d"
  by (simp add: sa_total_def)

lemma fresh_slot: "slots_ok s \<Longrightarrow> next_slot_id s \<notin> fst ` set (leases s)"
  by (auto simp: slots_ok_def)

subsection \<open>Admitting one request\<close>

lemma admit_Some:
  assumes "fits_now s r"
  obtains t g where "admit s r = Some (t, g)"
  using assms by (auto simp: fits_now_iff admit_def Let_def)

text \<open>What fits the free capacity is added to the books without saturating.\<close>

lemma fits_add_exact:
  assumes "fits_within f (r_saturating_sub av c)"
  shows "amount (r_saturating_add c f) d = amount c d + amount f d"
proof -
  from assms have "amount f d \<le> amount av d - amount c d" by (simp add: res_simps)
  with amount_le_max [of av d] amount_le_max [of c d] have "amount c d + amount f d \<le> u64_max"
    by linarith
  then show ?thesis by (simp add: amount_sat_add)
qed

lemma admit_core_inv:
  assumes inv: "core_inv s" and adm: "admit s r = Some (t, g)"
  shows "core_inv t"
proof -
  let ?f = "rq_footprint r"
  from adm have fit: "fits_within ?f (r_saturating_sub (available s) (committed s))"
    by (auto simp: admit_def Let_def split: if_splits)
  have fresh: "next_slot_id s \<notin> fst ` set (leases s)"
    using inv fresh_slot by (auto simp: core_inv_def)
  let ?l = "\<lparr>l_binary_id = rq_binary_id r, l_test_name = rq_test_name r, l_sa = rq_sa r,
             l_footprint = ?f\<rparr>"
  have ls: "leases t = (next_slot_id s, ?l) # leases s"
    and nx: "next_slot_id t = next_slot_id s + 1"
    and cm: "committed t = r_saturating_add (committed s) ?f"
    and us: "sa_usage t = (sa_usage s)(rq_sa r \<mapsto> r_saturating_add (sa_usage_of s (rq_sa r)) ?f)"
    using adm fit alist_insert_fresh [OF fresh] by (auto simp: admit_def Let_def)
  have exact: "amount (committed t) d = amount (committed s) d + amount ?f d" for d
    unfolding cm by (rule fits_add_exact [OF fit])
  have books: "amount (committed t) d = lease_total (leases t) d" for d
    using inv exact [of d] by (simp add: core_inv_def books_ok_def ls)
  have "amount (sa_usage_of t sa) d = sa_total (leases t) sa d" for sa d
  proof (cases "sa = rq_sa r")
    case True
    have "sa_total (leases s) sa d + amount ?f d \<le> lease_total (leases t) d"
      using sa_total_le [of "leases s" sa d] by (simp add: ls)
    also have "\<dots> \<le> u64_max" unfolding books [symmetric] by (rule amount_le_max)
    finally have le: "sa_total (leases s) sa d + amount ?f d \<le> u64_max" .
    have "amount (sa_usage_of s sa) d = sa_total (leases s) sa d"
      using inv by (simp add: core_inv_def books_ok_def)
    with le True show ?thesis
      by (simp add: sa_usage_of_def [of t] us ls amount_sat_add)
  next
    case False
    then show ?thesis using inv
      by (auto simp: sa_usage_of_def us ls core_inv_def books_ok_def)
  qed
  moreover have "slots_ok t"
    using inv fresh by (auto simp: core_inv_def slots_ok_def ls nx)
  ultimately show ?thesis using books by (simp add: core_inv_def books_ok_def)
qed

lemma admit_frame:
  assumes "admit s r = Some (t, g)"
  shows "available t = available s" "sa_budgets t = sa_budgets s" "queue t = queue s"
    "next_seq t = next_seq s" "ad_binary_id g = rq_binary_id r" "ad_test_name g = rq_test_name r"
    "ad_slot_id g = next_slot_id s" "next_slot_id t = next_slot_id s + 1"
    "leases t = alist_insert (next_slot_id s) \<lparr>l_binary_id = rq_binary_id r,
       l_test_name = rq_test_name r, l_sa = rq_sa r, l_footprint = rq_footprint r\<rparr> (leases s)"
    "committed t = r_saturating_add (committed s) (rq_footprint r)"
  using assms by (auto simp: admit_def Let_def split: if_splits)

text \<open>Admission only consumes capacity: what did not fit before still does not.\<close>

lemma admit_consumes:
  assumes "core_inv s" and adm: "admit s r = Some (t, g)" and "fits_now t q"
  shows "fits_now s q"
proof -
  have "core_inv t" using assms(1) adm by (rule admit_core_inv)
  have mono: "sa_total (leases s) sa d \<le> sa_total (leases t) sa d"
    and mono': "lease_total (leases s) d \<le> lease_total (leases t) d" for sa d
    using admit_frame(9) [OF adm] fresh_slot assms(1)
    by (simp_all add: core_inv_def alist_insert_fresh)
  have use: "amount (sa_usage_of s sa) d \<le> amount (sa_usage_of t sa) d"
    and com: "amount (committed s) d \<le> amount (committed t) d" for sa d
    using assms(1) \<open>core_inv t\<close> mono mono' by (simp_all add: core_inv_def books_ok_def)
  have weaken: "x \<le> a - v \<Longrightarrow> u \<le> v \<Longrightarrow> x \<le> a - (u::nat)" for x a u v by linarith
  from assms(3) show ?thesis
    unfolding fits_now_iff res_simps admit_frame(1) [OF adm] admit_frame(2) [OF adm]
    by (auto split: option.splits intro: weaken [OF _ com] weaken [OF _ use])
qed

subsection \<open>One pass over the queue\<close>

lemma pass_loop_total:
  "core_inv s \<Longrightarrow> \<exists>t gs qs. pass_loop s es = Some (t, gs, qs)"
proof (induction es arbitrary: s)
  case (Cons e es)
  show ?case
  proof (cases "fits_now s (p_req e)")
    case True
    then obtain s' g where a: "admit s (p_req e) = Some (s', g)" by (rule admit_Some)
    with Cons.prems have "core_inv s'" by (blast intro: admit_core_inv)
    with Cons.IH obtain t gs qs where "pass_loop s' es = Some (t, gs, qs)" by blast
    with True a show ?thesis by simp
  next
    case False
    with Cons show ?thesis by fastforce
  qed
qed simp

lemma pass_loop_induct [consumes 2, case_names Nil Admit Skip]:
  assumes "pass_loop s es = Some (t, gs, qs)" and "core_inv s"
    and "\<And>s. core_inv s \<Longrightarrow> P s [] s [] []"
    and "\<And>s e es s' g t gs qs. core_inv s \<Longrightarrow> fits_now s (p_req e) \<Longrightarrow>
           admit s (p_req e) = Some (s', g) \<Longrightarrow> core_inv s' \<Longrightarrow>
           pass_loop s' es = Some (t, gs, qs) \<Longrightarrow> P s' es t gs qs \<Longrightarrow> P s (e # es) t (g # gs) qs"
    and "\<And>s e es t gs qs. core_inv s \<Longrightarrow> \<not> fits_now s (p_req e) \<Longrightarrow>
           pass_loop s es = Some (t, gs, qs) \<Longrightarrow> P s es t gs qs \<Longrightarrow> P s (e # es) t gs (e # qs)"
  shows "P s es t gs qs"
  using assms(1,2)
proof (induction es arbitrary: s t gs qs)
  case Nil
  then show ?case using assms(3) by simp
next
  case (Cons e es)
  show ?case
  proof (cases "fits_now s (p_req e)")
    case True
    then obtain s' g where a: "admit s (p_req e) = Some (s', g)" by (rule admit_Some)
    with Cons.prems True obtain gs' where gs: "gs = g # gs'" "pass_loop s' es = Some (t, gs', qs)"
      by auto
    moreover from a Cons.prems have "core_inv s'" by (blast intro: admit_core_inv)
    ultimately show ?thesis using assms(4) True a Cons by blast
  next
    case False
    with Cons.prems obtain qs' where "qs = e # qs'" "pass_loop s es = Some (t, gs, qs')"
      by auto
    then show ?thesis using assms(5) False Cons by blast
  qed
qed

lemma pass_loop_frame:
  assumes "pass_loop s es = Some (t, gs, qs)" and "core_inv s"
  shows "core_inv t \<and> available t = available s \<and> sa_budgets t = sa_budgets s \<and>
     queue t = queue s \<and> next_seq t = next_seq s"
  using assms by (induction rule: pass_loop_induct) (auto dest: admit_frame)

lemma pass_loop_consumes:
  assumes "pass_loop s es = Some (t, gs, qs)" and "core_inv s"
  shows "fits_now t r \<Longrightarrow> fits_now s r"
  using assms by (induction rule: pass_loop_induct) (auto intro: admit_consumes)

lemma pass_loop_skipped:
  assumes "pass_loop s es = Some (t, gs, qs)" and "core_inv s"
  shows "\<forall>q \<in> set qs. \<not> fits_now t (p_req q)"
  using assms by (induction rule: pass_loop_induct) (auto dest: pass_loop_consumes)

lemma pass_loop_subseq:
  assumes "pass_loop s es = Some (t, gs, qs)" and "core_inv s"
  shows "subseq qs es"
  using assms by (induction rule: pass_loop_induct) auto

lemma pass_loop_order:
  assumes "pass_loop s es = Some (t, gs, qs)" and "core_inv s"
  shows "subseq (map (\<lambda>g. (ad_binary_id g, ad_test_name g)) gs)
           (map (\<lambda>e. (rq_binary_id (p_req e), rq_test_name (p_req e))) es)"
  using assms by (induction rule: pass_loop_induct) (auto dest: admit_frame)

lemma pass_loop_slots:
  assumes "pass_loop s es = Some (t, gs, qs)" and "core_inv s"
  shows "map ad_slot_id gs = [next_slot_id s ..< next_slot_id t] \<and> next_slot_id s \<le> next_slot_id t"
  using assms
proof (induction rule: pass_loop_induct)
  case (Admit s e es s' g t gs qs)
  then show ?case by (auto simp: admit_frame(7,8) [OF Admit.hyps(3)] upt_rec [of "next_slot_id s"])
qed auto

lemma pass_loop_length:
  assumes "pass_loop s es = Some (t, gs, qs)" and "core_inv s"
  shows "length gs + length qs = length es"
  using assms by (induction rule: pass_loop_induct) auto

lemma pass_loop_committed:
  assumes "pass_loop s es = Some (t, gs, qs)" and "core_inv s"
  shows "amount (committed t) d \<le> max (amount (committed s) d) (amount (available s) d)"
  using assms
proof (induction rule: pass_loop_induct)
  case (Admit s e es s' g t gs qs)
  have fit: "fits_within (rq_footprint (p_req e)) (r_saturating_sub (available s) (committed s))"
    using Admit.hyps(2) by (simp add: fits_now_iff)
  have "amount (committed s') d = amount (committed s) d + amount (rq_footprint (p_req e)) d"
    unfolding admit_frame(10) [OF Admit.hyps(3)] by (rule fits_add_exact [OF fit])
  moreover have "amount (rq_footprint (p_req e)) d \<le> amount (available s) d - amount (committed s) d"
    using fit by (simp add: res_simps)
  ultimately show ?case using Admit.IH admit_frame(1) [OF Admit.hyps(3)] by auto
qed auto

text \<open>A prefix nobody of which fits is passed over unchanged.\<close>

lemma pass_loop_blocked:
  assumes "\<forall>e \<in> set xs. \<not> fits_now s (p_req e)"
  shows "pass_loop s (xs @ es) = map_option (\<lambda>(t, gs, qs). (t, gs, xs @ qs)) (pass_loop s es)"
  using assms
proof (induction xs)
  case (Cons x xs)
  then show ?case by (cases "pass_loop s es") auto
qed (simp add: map_option.identity case_prod_beta' option.map_ident)

lemma schedule_pass_facts:
  assumes inv: "sched_inv s"
  obtains t gs where "schedule_pass s = Some (t, gs)" "sched_inv t" "quiescent t"
    "available t = available s" "sa_budgets t = sa_budgets s" "next_seq t = next_seq s"
    "subseq (queue t) (queue s)" "length gs + length (queue t) = length (queue s)"
    "\<And>d. amount (committed t) d \<le> max (amount (committed s) d) (amount (available s) d)"
    "map ad_slot_id gs = [next_slot_id s ..< next_slot_id t]"
    "next_slot_id s \<le> next_slot_id t"
    "subseq (map (\<lambda>g. (ad_binary_id g, ad_test_name g)) gs)
       (map (\<lambda>e. (rq_binary_id (p_req e), rq_test_name (p_req e))) (queue s))"
proof -
  let ?s = "s\<lparr>queue := []\<rparr>"
  have c: "core_inv ?s" using inv by (simp add: sched_inv_def)
  then obtain t gs qs where l: "pass_loop ?s (queue s) = Some (t, gs, qs)"
    using pass_loop_total by blast
  let ?t = "t\<lparr>queue := qs\<rparr>"
  note fr = pass_loop_frame [OF l c]
  have sub: "subseq qs (queue s)" by (rule pass_loop_subseq [OF l c])
  have srt: "sorted_wrt (<) (map p_seq (queue s))" using inv by (simp add: sched_inv_defs)
  have "set qs \<subseteq> set (queue s)" using sub by (rule subseq_set)
  then have "queue_ok ?t"
    using inv fr sorted_subseq [OF sub srt] by (auto simp: sched_inv_defs)
  then have "sched_inv ?t" using fr by (simp add: sched_inv_def)
  moreover have "quiescent ?t" using pass_loop_skipped [OF l c] by (simp add: quiescent_def)
  moreover have "schedule_pass s = Some (?t, gs)" using l srt by (simp add: schedule_pass_def)
  ultimately show thesis
    using that [of ?t gs] fr sub pass_loop_length [OF l c] pass_loop_committed [OF l c]
      pass_loop_slots [OF l c] pass_loop_order [OF l c] by simp
qed

lemma pass_loop_idents:
  assumes "pass_loop s es = Some (t, gs, qs)" and "core_inv s"
  shows "mset (map (\<lambda>e. (rq_binary_id (p_req e), rq_test_name (p_req e))) es) =
     mset (map (\<lambda>g. (ad_binary_id g, ad_test_name g)) gs) +
     mset (map (\<lambda>e. (rq_binary_id (p_req e), rq_test_name (p_req e))) qs)"
  using assms by (induction rule: pass_loop_induct) (auto dest: admit_frame)

lemma pass_loop_leases:
  assumes "pass_loop s es = Some (t, gs, qs)" and "core_inv s"
  shows "fst ` set (leases t) = fst ` set (leases s) \<union> ad_slot_id ` set gs"
  using assms
proof (induction rule: pass_loop_induct)
  case (Admit s e es s' g t gs qs)
  then show ?case by (auto simp: admit_frame(7,9) [OF Admit.hyps(3)] keys_insert)
qed auto

subsection \<open>Returning a lease\<close>

lemma lease_fits_committed:
  assumes "books_ok s" and "distinct (map fst (leases s))" and "map_of (leases s) slot = Some l"
  shows "amount (committed s) d =
     amount (l_footprint l) d + lease_total (AList.delete slot (leases s)) d"
    and "sa_total (leases s) sa d = (if l_sa l = sa then amount (l_footprint l) d else 0) +
     sa_total (AList.delete slot (leases s)) sa d"
  using assms sum_list_delete [OF assms(2,3)]
  by (simp_all add: books_ok_def lease_total_def sa_total_def)

lemma release_core_inv:
  assumes inv: "core_inv s" and l: "map_of (leases s) slot = Some l"
  shows "core_inv (s\<lparr>leases := AList.delete slot (leases s),
     committed := r_saturating_sub (committed s) (l_footprint l), sa_usage := release_usage s l\<rparr>)"
    (is "core_inv ?t")
proof -
  have b: "books_ok s" and d: "distinct (map fst (leases s))"
    using inv by (auto simp: core_inv_def slots_ok_def)
  note sums = lease_fits_committed [OF b d l]
  have "slots_ok ?t"
    using inv distinct_keys_delete [OF d] by (auto simp: core_inv_def slots_ok_def keys_delete)
  moreover have "amount (committed ?t) d = lease_total (leases ?t) d" for d
    using sums(1) [of d] by (simp add: amount_sat_sub)
  moreover have "amount (sa_usage_of ?t sa) d = sa_total (leases ?t) sa d" for sa d
  proof -
    have bk: "amount (sa_usage_of s sa) d = sa_total (leases s) sa d" for d
      using b by (simp add: books_ok_def)
    show ?thesis
    proof (cases "sa_usage s (l_sa l)")
      case None
      then have "sa_usage_of s (l_sa l) = ZERO" by (simp add: sa_usage_of_def)
      with bk sums(2) [of sa d] None show ?thesis
        by (cases "l_sa l = sa") (auto simp: sa_usage_of_def release_usage_def)
    next
      case (Some u)
      let ?u' = "r_saturating_sub u (l_footprint l)"
      have "sa_usage_of ?t (l_sa l) = ?u'"
        using Some by (auto simp: sa_usage_of_def release_usage_def Let_def)
      moreover have "sa_usage_of ?t sa = sa_usage_of s sa" if "sa \<noteq> l_sa l" for sa
        using Some that by (auto simp: sa_usage_of_def release_usage_def Let_def)
      moreover have "u = sa_usage_of s (l_sa l)" using Some by (simp add: sa_usage_of_def)
      ultimately show ?thesis using bk sums(2) [of sa d]
        by (cases "l_sa l = sa") (auto simp: amount_sat_sub)
    qed
  qed
  ultimately show ?thesis by (simp add: core_inv_def books_ok_def)
qed

lemma release_sched_inv:
  assumes "sched_inv s" and "map_of (leases s) slot = Some l"
  shows "sched_inv (s\<lparr>leases := AList.delete slot (leases s),
     committed := r_saturating_sub (committed s) (l_footprint l), sa_usage := release_usage s l\<rparr>)"
  using assms release_core_inv [of s slot l] by (simp add: sched_inv_def queue_ok_def)

lemma reconcile_sched_inv: "sched_inv s \<Longrightarrow> sched_inv (s\<lparr>available := av\<rparr>)"
  by (simp add: sched_inv_defs)

lemma enqueue_sched_inv:
  "sched_inv s \<Longrightarrow>
     sched_inv (s\<lparr>next_seq := Suc (next_seq s),
                  queue := queue s @ [\<lparr>p_seq = next_seq s, p_req = r\<rparr>]\<rparr>)"
  by (auto simp: sched_inv_def queue_ok_def sorted_wrt_append less_Suc_eq
      core_inv_def slots_ok_def books_ok_def sa_usage_of_def)

section \<open>Requests against a quiescent queue\<close>

lemma decide_for_cases:
  obtains (rejected) w where "decide_for s r = Rejected w" "\<not> fits_now s r"
  | (queued) "decide_for s r = Queued" "\<not> fits_now s r"
  | (granted) "decide_for s r = Granted ()" "fits_now s r"
  by (cases "decide_for s r") (auto simp: fits_now_def)

lemma request_rejected:
  "decide_for s r = Rejected w \<Longrightarrow> sched_request r s = Some (s, Rejected w)"
  by (simp add: sched_request_def)

lemma enqueue_pass:
  assumes inv: "sched_inv s" and q: "quiescent s"
  shows "schedule_pass (s\<lparr>next_seq := Suc (next_seq s),
                          queue := queue s @ [\<lparr>p_seq = next_seq s, p_req = r\<rparr>]\<rparr>) =
    (if fits_now s r
     then (case admit (s\<lparr>next_seq := Suc (next_seq s), queue := []\<rparr>) r of
             None \<Rightarrow> None | Some (t, g) \<Rightarrow> Some (t\<lparr>queue := queue s\<rparr>, [g]))
     else Some (s\<lparr>next_seq := Suc (next_seq s),
                  queue := queue s @ [\<lparr>p_seq = next_seq s, p_req = r\<rparr>]\<rparr>, []))"
proof -
  let ?e = "\<lparr>p_seq = next_seq s, p_req = r\<rparr>"
  let ?s = "s\<lparr>next_seq := Suc (next_seq s), queue := []\<rparr>"
  have srt: "sorted_wrt (<) (map p_seq (queue s @ [?e]))"
    using inv by (auto simp: sched_inv_defs sorted_wrt_append)
  have blocked: "\<forall>e \<in> set (queue s). \<not> fits_now ?s (p_req e)"
    using q by (simp add: quiescent_def)
  have "pass_loop ?s (queue s @ [?e]) =
      map_option (\<lambda>(t, gs, qs). (t, gs, queue s @ qs)) (pass_loop ?s [?e])"
    by (rule pass_loop_blocked [OF blocked])
  then show ?thesis using srt
    by (auto simp: schedule_pass_def split: option.splits)
qed

lemma request_queued:
  assumes "sched_inv s" "quiescent s" "decide_for s r = Queued"
  shows "sched_request r s =
    Some (s\<lparr>next_seq := Suc (next_seq s),
            queue := queue s @ [\<lparr>p_seq = next_seq s, p_req = r\<rparr>]\<rparr>, Queued)"
  using assms by (simp add: sched_request_def enqueue_pass fits_now_def)

lemma request_granted:
  assumes "sched_inv s" "quiescent s" "decide_for s r = Granted ()"
  obtains t g where "admit (s\<lparr>next_seq := Suc (next_seq s), queue := []\<rparr>) r = Some (t, g)"
    "sched_request r s = Some (t\<lparr>queue := queue s\<rparr>, Granted (next_slot_id s))"
proof -
  let ?s = "s\<lparr>next_seq := Suc (next_seq s), queue := []\<rparr>"
  have f: "fits_now ?s r" and f': "fits_now s r" using assms(3) by (auto simp: fits_now_def decide_for_def)
  from f obtain t g where a: "admit ?s r = Some (t, g)" by (rule admit_Some)
  moreover have "ad_slot_id g = next_slot_id s" "ad_binary_id g = rq_binary_id r"
    "ad_test_name g = rq_test_name r" using admit_frame [OF a] by simp_all
  ultimately have "sched_request r s = Some (t\<lparr>queue := queue s\<rparr>, Granted (next_slot_id s))"
    using assms f' by (simp add: sched_request_def enqueue_pass)
  with a that show thesis by blast
qed

lemma request_inv:
  assumes "sched_inv s" "quiescent s"
  obtains t a where "sched_request r s = Some (t, a)" "sched_inv t" "quiescent t"
    "available t = available s" "sa_budgets t = sa_budgets s"
    "\<And>d. amount (committed t) d \<le> max (amount (committed s) d) (amount (available s) d)"
proof (cases rule: decide_for_cases [of s r])
  case (rejected w)
  then show ?thesis using that request_rejected assms by fastforce
next
  case queued
  let ?s = "s\<lparr>next_seq := Suc (next_seq s), queue := queue s @ [\<lparr>p_seq = next_seq s, p_req = r\<rparr>]\<rparr>"
  have "quiescent ?s" using assms(2) queued(2) by (auto simp: quiescent_def)
  then show ?thesis
    using that [OF request_queued [OF assms queued(1)]] enqueue_sched_inv [OF assms(1)] by simp
next
  case granted
  let ?s = "s\<lparr>next_seq := Suc (next_seq s), queue := queue s @ [\<lparr>p_seq = next_seq s, p_req = r\<rparr>]\<rparr>"
  obtain t g where a: "admit (s\<lparr>next_seq := Suc (next_seq s), queue := []\<rparr>) r = Some (t, g)"
    and rq: "sched_request r s = Some (t\<lparr>queue := queue s\<rparr>, Granted (next_slot_id s))"
    by (rule request_granted [OF assms granted(1)])
  have "sched_inv ?s" by (rule enqueue_sched_inv [OF assms(1)])
  then obtain t' gs where p: "schedule_pass ?s = Some (t', gs)" and
    facts: "sched_inv t'" "quiescent t'" "available t' = available ?s" "sa_budgets t' = sa_budgets ?s"
    "\<And>d. amount (committed t') d \<le> max (amount (committed ?s) d) (amount (available ?s) d)"
    by (rule schedule_pass_facts) blast
  have "t' = t\<lparr>queue := queue s\<rparr>" using p a granted(2) enqueue_pass [OF assms] by simp
  then show ?thesis using that [OF rq] facts by simp
qed

lemma release_inv:
  assumes "sched_inv s" "quiescent s"
  obtains t gs where "sched_release slot s = Some (t, gs)" "sched_inv t" "quiescent t"
    "available t = available s" "sa_budgets t = sa_budgets s"
    "\<And>d. amount (committed t) d \<le> max (amount (committed s) d) (amount (available s) d)"
proof (cases "map_of (leases s) slot")
  case None
  then show ?thesis using that assms by (fastforce simp: sched_release_def)
next
  case (Some l)
  let ?s = "s\<lparr>leases := AList.delete slot (leases s),
     committed := r_saturating_sub (committed s) (l_footprint l), sa_usage := release_usage s l\<rparr>"
  have "sched_inv ?s" by (rule release_sched_inv [OF assms(1) Some])
  then obtain t gs where "schedule_pass ?s = Some (t, gs)" "sched_inv t" "quiescent t"
    "available t = available ?s" "sa_budgets t = sa_budgets ?s" and
    c: "\<And>d. amount (committed t) d \<le> max (amount (committed ?s) d) (amount (available ?s) d)"
    by (rule schedule_pass_facts) blast
  moreover have "amount (committed t) d \<le> max (amount (committed s) d) (amount (available s) d)" for d
    using c [of d] by (auto simp: amount_sat_sub)
  ultimately show ?thesis using that Some by (simp add: sched_release_def)
qed

lemma reconcile_inv:
  assumes "sched_inv s"
  obtains t gs where "sched_reconcile av s = Some (t, gs)" "sched_inv t" "quiescent t"
    "available t = av" "sa_budgets t = sa_budgets s"
    "\<And>d. amount (committed t) d \<le> max (amount (committed s) d) (amount av d)"
proof -
  let ?s = "s\<lparr>available := av\<rparr>"
  obtain t gs where "schedule_pass ?s = Some (t, gs)" "sched_inv t" "quiescent t"
    "available t = available ?s" "sa_budgets t = sa_budgets ?s"
    "\<And>d. amount (committed t) d \<le> max (amount (committed ?s) d) (amount (available ?s) d)"
    using reconcile_sched_inv [OF assms] by (rule schedule_pass_facts) blast
  then show ?thesis using that by (simp add: sched_reconcile_def)
qed

section \<open>Runs of operations\<close>

datatype sched_op =
    OpRequest request
  | OpRelease slot_id
  | OpDisconnect slot_id
  | OpReconcile resources

fun run_op :: "sched_op \<Rightarrow> scheduler \<Rightarrow> scheduler option" where
  "run_op (OpRequest r) s = map_option fst (sched_request r s)"
| "run_op (OpRelease k) s = map_option fst (sched_release k s)"
| "run_op (OpDisconnect k) s = map_option fst (sched_disconnect k s)"
| "run_op (OpReconcile av) s = map_option fst (sched_reconcile av s)"

fun run_ops :: "sched_op list \<Rightarrow> scheduler \<Rightarrow> scheduler option" where
  "run_ops [] s = Some s"
| "run_ops (x # xs) s = Option.bind (run_op x s) (run_ops xs)"

text \<open>A fresh scheduler with the budgets registered at start-up.\<close>

definition configured :: "resources \<Rightarrow> (string \<times> resources) list \<Rightarrow> scheduler" where
  "configured av bs = fold (\<lambda>(sa, b). set_sa_budget sa b) bs (sched_new av)"

fun ceilings :: "sched_op list \<Rightarrow> resources list" where
  "ceilings [] = []"
| "ceilings (OpReconcile av # xs) = av # ceilings xs"
| "ceilings (_ # xs) = ceilings xs"

definition sched_ready :: "scheduler \<Rightarrow> bool" where
  "sched_ready s \<longleftrightarrow> sched_inv s \<and> quiescent s"

lemma configured_facts:
  "sched_ready (configured av bs) \<and> leases (configured av bs) = [] \<and>
   available (configured av bs) = av \<and> committed (configured av bs) = ZERO"
proof -
  have "sched_ready s \<and> leases s = [] \<and> queue s = [] \<and> available s = av \<and> committed s = ZERO \<Longrightarrow>
    sched_ready (fold (\<lambda>(sa, b). set_sa_budget sa b) bs s) \<and>
    leases (fold (\<lambda>(sa, b). set_sa_budget sa b) bs s) = [] \<and>
    available (fold (\<lambda>(sa, b). set_sa_budget sa b) bs s) = av \<and>
    committed (fold (\<lambda>(sa, b). set_sa_budget sa b) bs s) = ZERO" for s
    by (induction bs arbitrary: s)
      (auto simp: sched_ready_def sched_inv_defs quiescent_def set_sa_budget_def)
  moreover have "sched_ready (sched_new av)"
    by (simp add: sched_ready_def sched_inv_defs quiescent_def sched_new_def lease_total_def
        sa_total_def sa_usage_of_def)
  ultimately show ?thesis by (simp add: configured_def sched_new_def)
qed

lemma run_op_ready:
  assumes "sched_ready s"
  obtains t where "run_op x s = Some t" "sched_ready t"
    "available t = (case x of OpReconcile av \<Rightarrow> av | _ \<Rightarrow> available s)"
    "\<And>d. amount (committed t) d \<le> max (amount (committed s) d) (amount (available t) d)"
proof -
  from assms have i: "sched_inv s" "quiescent s" by (auto simp: sched_ready_def)
  show ?thesis
  proof (cases x)
    case (OpRequest r)
    from i obtain t a where "sched_request r s = Some (t, a)" "sched_inv t" "quiescent t"
      "available t = available s"
      "\<And>d. amount (committed t) d \<le> max (amount (committed s) d) (amount (available s) d)"
      by (rule request_inv [of s r]) blast
    then show ?thesis using that [of t] OpRequest by (simp add: sched_ready_def)
  next
    case (OpRelease k)
    from i obtain t gs where "sched_release k s = Some (t, gs)" "sched_inv t" "quiescent t"
      "available t = available s"
      "\<And>d. amount (committed t) d \<le> max (amount (committed s) d) (amount (available s) d)"
      by (rule release_inv [of s k]) blast
    then show ?thesis using that [of t] OpRelease by (simp add: sched_ready_def)
  next
    case (OpDisconnect k)
    from i obtain t gs where "sched_release k s = Some (t, gs)" "sched_inv t" "quiescent t"
      "available t = available s"
      "\<And>d. amount (committed t) d \<le> max (amount (committed s) d) (amount (available s) d)"
      by (rule release_inv [of s k]) blast
    then show ?thesis using that [of t] OpDisconnect
      by (simp add: sched_ready_def sched_disconnect_def)
  next
    case (OpReconcile av)
    from i(1) obtain t gs where "sched_reconcile av s = Some (t, gs)" "sched_inv t" "quiescent t"
      "available t = av"
      "\<And>d. amount (committed t) d \<le> max (amount (committed s) d) (amount av d)"
      by (rule reconcile_inv [of s av]) blast
    then show ?thesis using that [of t] OpReconcile by (simp add: sched_ready_def)
  qed
qed

text \<open>Every operation that returns grants is a pass over a scheduler with the same queue.\<close>

lemma release_is_pass:
  assumes "sched_inv s" and "sched_release k s = Some (t, gs)"
  shows "(t, gs) = (s, []) \<or> (\<exists>u. sched_inv u \<and> schedule_pass u = Some (t, gs) \<and>
     queue u = queue s \<and> next_slot_id u = next_slot_id s)"
proof (cases "map_of (leases s) k")
  case None
  with assms(2) show ?thesis by (simp add: sched_release_def)
next
  case (Some l)
  show ?thesis
    using assms(2) Some release_sched_inv [OF assms(1) Some]
    by (intro disjI2 exI [of _ "s\<lparr>leases := AList.delete k (leases s),
       committed := r_saturating_sub (committed s) (l_footprint l), sa_usage := release_usage s l\<rparr>"])
      (simp add: sched_release_def)
qed

lemma reconcile_is_pass:
  assumes "sched_inv s" and "sched_reconcile av s = Some (t, gs)"
  shows "\<exists>u. sched_inv u \<and> schedule_pass u = Some (t, gs) \<and>
     queue u = queue s \<and> next_slot_id u = next_slot_id s"
  using assms reconcile_sched_inv [OF assms(1), of av]
  by (intro exI [of _ "s\<lparr>available := av\<rparr>"]) (simp add: sched_reconcile_def)

interpretation sched: step_system
  "\<lambda>s. \<exists>av bs. s = configured av bs" "\<lambda>s t. \<exists>x. run_op x s = Some t" sched_ready
proof unfold_locales
  fix s t
  show "\<exists>av bs. s = configured av bs \<Longrightarrow> sched_ready s" using configured_facts by blast
  show "sched_ready s \<Longrightarrow> \<exists>x. run_op x s = Some t \<Longrightarrow> sched_ready t"
    by (metis option.inject run_op_ready)
qed

lemma run_ops_ready:
  assumes "sched_ready s"
  shows "\<exists>t. run_ops xs s = Some t \<and> sched_ready t \<and>
     (\<forall>d. \<exists>c \<in> set (available s # ceilings xs).
        amount (committed t) d \<le> max (amount (committed s) d) (amount c d))"
  using assms
proof (induction xs arbitrary: s)
  case Nil
  then show ?case by auto
next
  case (Cons x xs)
  obtain u where u: "run_op x s = Some u" "sched_ready u"
    "available u = (case x of OpReconcile av \<Rightarrow> av | _ \<Rightarrow> available s)"
    "\<And>d. amount (committed u) d \<le> max (amount (committed s) d) (amount (available u) d)"
    using Cons.prems by (rule run_op_ready [of s x]) blast
  obtain t where t: "run_ops xs u = Some t" "sched_ready t"
    "\<forall>d. \<exists>c \<in> set (available u # ceilings xs).
        amount (committed t) d \<le> max (amount (committed u) d) (amount c d)"
    using Cons.IH [OF u(2)] by blast
  have sub: "set (available u # ceilings xs) \<subseteq> set (available s # ceilings (x # xs))"
    using u(3) by (cases x) auto
  have "\<exists>c \<in> set (available s # ceilings (x # xs)).
      amount (committed t) d \<le> max (amount (committed s) d) (amount c d)" for d
  proof -
    from t(3) obtain c where c: "c \<in> set (available u # ceilings xs)"
      "amount (committed t) d \<le> max (amount (committed u) d) (amount c d)" by blast
    then have "amount (committed t) d \<le> max (amount (committed s) d) (amount c d) \<or>
        amount (committed t) d \<le> max (amount (committed s) d) (amount (available u) d)"
      using u(4) [of d] by (auto simp: le_max_iff_disj)
    then show ?thesis using c(1) sub by (metis list.set_intros(1) subsetD)
  qed
  then show ?case using u(1) t(1,2) by auto
qed

lemma reachable_ready: "run_ops xs (configured av bs) = Some t \<Longrightarrow> sched_ready t"
  using run_ops_ready [of "configured av bs" xs] configured_facts by force

text \<open>
  C1. No overload and no panic. From a scheduler configured at start-up, every sequence of
  requests, releases, disconnects and reconciles runs to the end without hitting an
  assertion; the committed figure is then the exact, unsaturated sum of the live leases in
  each dimension, and in each dimension it stays within some ceiling that was in force.
\<close>

theorem scheduler_no_overload:
  "\<exists>t. run_ops ops (configured av bs) = Some t \<and>
     (\<forall>d. amount (committed t) d = lease_total (leases t) d) \<and>
     (\<forall>d. \<exists>c \<in> set (av # ceilings ops). amount (committed t) d \<le> amount c d)"
proof -
  obtain t where "run_ops ops (configured av bs) = Some t" "sched_ready t"
    "\<forall>d. \<exists>c \<in> set (av # ceilings ops). amount (committed t) d \<le> max 0 (amount c d)"
    using run_ops_ready [of "configured av bs" ops] configured_facts [of av bs] by auto
  then show ?thesis by (auto simp: sched_ready_def sched_inv_defs)
qed

text \<open>
  C2. A request is answered by the pure decision: in every reachable scheduler state
  \<open>request\<close> grants, queues or rejects exactly as \<open>decide\<close> says. A grant takes the next slot
  id and leaves the queue alone; a queued request joins at the tail and changes no figure;
  a rejected one changes nothing at all.
\<close>

theorem request_refines_decide:
  assumes "run_ops ops (configured av bs) = Some s"
  shows "case decide (available s) (committed s) (sa_usage_of s (rq_sa r))
              (sa_budgets s (rq_sa r)) (rq_footprint r) of
       Rejected why \<Rightarrow> sched_request r s = Some (s, Rejected why)
     | Queued \<Rightarrow> sched_request r s =
         Some (s\<lparr>next_seq := Suc (next_seq s),
                 queue := queue s @ [\<lparr>p_seq = next_seq s, p_req = r\<rparr>]\<rparr>, Queued)
     | Granted _ \<Rightarrow> \<exists>t. sched_request r s = Some (t, Granted (next_slot_id s)) \<and>
         queue t = queue s \<and> available t = available s \<and>
         committed t = r_saturating_add (committed s) (rq_footprint r) \<and>
         map_of (leases t) = (map_of (leases s))(next_slot_id s \<mapsto>
           \<lparr>l_binary_id = rq_binary_id r, l_test_name = rq_test_name r, l_sa = rq_sa r,
            l_footprint = rq_footprint r\<rparr>)"
proof -
  have i: "sched_inv s" "quiescent s" using reachable_ready [OF assms] by (auto simp: sched_ready_def)
  show ?thesis
  proof (cases rule: decide_for_cases [of s r])
    case (rejected w)
    then show ?thesis using request_rejected [OF rejected(1)] by (simp add: decide_for_def)
  next
    case queued
    then show ?thesis using request_queued [OF i queued(1)] by (simp add: decide_for_def)
  next
    case granted
    obtain t g where a: "admit (s\<lparr>next_seq := Suc (next_seq s), queue := []\<rparr>) r = Some (t, g)"
      and rq: "sched_request r s = Some (t\<lparr>queue := queue s\<rparr>, Granted (next_slot_id s))"
      by (rule request_granted [OF i granted(1)])
    show ?thesis using granted(1) rq admit_frame [OF a] by (simp add: decide_for_def)
  qed
qed

text \<open>
  C3. One pass is enough and keeps the arrival order. After any release, disconnect or
  reconcile of a reachable scheduler nothing that still waits could start; the remaining
  queue is a subsequence of the old one (a skipped request keeps its place), the grants are
  in arrival order, and their slot ids are the next ones, in order.
\<close>

theorem pass_complete_in_order:
  assumes "run_ops ops (configured av bs) = Some s"
    and "sched_release k s = Some (t, gs) \<or> sched_disconnect k s = Some (t, gs) \<or>
         sched_reconcile new_av s = Some (t, gs)"
  shows "(\<forall>p \<in> set (queue t). \<not> fits_now t (p_req p)) \<and> subseq (queue t) (queue s) \<and>
    subseq (map (\<lambda>g. (ad_binary_id g, ad_test_name g)) gs)
      (map (\<lambda>e. (rq_binary_id (p_req e), rq_test_name (p_req e))) (queue s)) \<and>
    map ad_slot_id gs = [next_slot_id s ..< next_slot_id s + length gs]"
proof -
  have i: "sched_inv s" "quiescent s" using reachable_ready [OF assms(1)] by (auto simp: sched_ready_def)
  have "(t, gs) = (s, []) \<or>
    (\<exists>u. sched_inv u \<and> schedule_pass u = Some (t, gs) \<and> queue u = queue s \<and>
         next_slot_id u = next_slot_id s)"
    using assms(2) release_is_pass [OF i(1)] reconcile_is_pass [OF i(1)]
    unfolding sched_disconnect_def by blast
  then have "quiescent t \<and> subseq (queue t) (queue s) \<and>
    subseq (map (\<lambda>g. (ad_binary_id g, ad_test_name g)) gs)
      (map (\<lambda>e. (rq_binary_id (p_req e), rq_test_name (p_req e))) (queue s)) \<and>
    map ad_slot_id gs = [next_slot_id s ..< next_slot_id s + length gs]"
  proof
    assume "(t, gs) = (s, [])"
    with i show ?thesis by simp
  next
    assume "\<exists>u. sched_inv u \<and> schedule_pass u = Some (t, gs) \<and> queue u = queue s \<and>
         next_slot_id u = next_slot_id s"
    then obtain u where u: "sched_inv u" "schedule_pass u = Some (t, gs)" "queue u = queue s"
      "next_slot_id u = next_slot_id s" by blast
    from u(1) show ?thesis
    proof (rule schedule_pass_facts)
      fix t' gs'
      assume p: "schedule_pass u = Some (t', gs')" "quiescent t'" "subseq (queue t') (queue u)"
        "map ad_slot_id gs' = [next_slot_id u ..< next_slot_id t']"
        "next_slot_id u \<le> next_slot_id t'"
        "subseq (map (\<lambda>g. (ad_binary_id g, ad_test_name g)) gs')
          (map (\<lambda>e. (rq_binary_id (p_req e), rq_test_name (p_req e))) (queue u))"
      have "length gs' = next_slot_id t' - next_slot_id u"
        using p(4) by (metis length_map length_upt)
      with p u show ?thesis by simp
    qed
  qed
  then show ?thesis by (simp add: quiescent_def)
qed

text \<open>
  C4. Nothing schedulable is left waiting. When no lease is held in a reachable scheduler,
  every request still in the queue is one that the ceiling or its identity's whole budget
  can never admit: no wake-up is lost, and no schedulable request starves behind it.
\<close>

theorem idle_queue_unschedulable:
  assumes "run_ops ops (configured av bs) = Some s" and "leases s = []" and "p \<in> set (queue s)"
  shows "\<not> fits_within (rq_footprint (p_req p)) (available s) \<or>
    (\<exists>b. sa_budgets s (rq_sa (p_req p)) = Some b \<and> \<not> fits_within (rq_footprint (p_req p)) b)"
proof -
  have i: "sched_inv s" "quiescent s" using reachable_ready [OF assms(1)] by (auto simp: sched_ready_def)
  have "committed s = ZERO" and "sa_usage_of s sa = ZERO" for sa
    using i(1) assms(2) by (simp_all add: sched_inv_defs resources_eq_iff lease_total_def sa_total_def)
  moreover have "r_saturating_sub x ZERO = x" for x
    by (simp add: resources_eq_iff amount_sat_sub)
  ultimately show ?thesis using i(2) assms(3)
    by (auto simp: quiescent_def fits_now_iff split: option.splits)
qed

text \<open>
  C5. The incremental books agree with the lease table recomputed from scratch: in every
  reachable state a request fits now exactly when, in each dimension it asks anything of,
  the unbounded sum of the live leases plus the request stays within the ceiling, and the
  sum of its identity's leases plus the request stays within that identity's budget.
\<close>

theorem fits_now_by_lease_table:
  assumes "run_ops ops (configured av bs) = Some s"
  shows "fits_now s r \<longleftrightarrow>
    (\<forall>d. amount (rq_footprint r) d = 0 \<or>
       lease_total (leases s) d + amount (rq_footprint r) d \<le> amount (available s) d \<and>
       (case sa_budgets s (rq_sa r) of None \<Rightarrow> True
        | Some b \<Rightarrow> sa_total (leases s) (rq_sa r) d + amount (rq_footprint r) d \<le> amount b d))"
proof -
  have i: "books_ok s" using reachable_ready [OF assms] by (simp add: sched_ready_def sched_inv_defs)
  have sub: "(f \<le> a - c) = (f = 0 \<or> c + f \<le> a)" for f a c :: nat by linarith
  show ?thesis
    using i unfolding fits_now_iff res_simps books_ok_def sub
    by (cases "sa_budgets s (rq_sa r)") (simp_all add: sub, metis)
qed

text \<open>
  Rejection does not depend on load. \<open>decide\<close> rejects exactly the footprints that exceed
  the ceiling or the identity's whole budget, whatever is committed, and names the ceiling
  first; every other footprint is queued or granted, and is granted once nothing is held.
\<close>

theorem decide_reject_load_independent:
  "(decide av c u b f = Rejected ExceedsClusterCapacity \<longleftrightarrow> \<not> fits_within f av) \<and>
   (decide av c u b f = Rejected ExceedsSaBudget \<longleftrightarrow>
      fits_within f av \<and> (case b of None \<Rightarrow> False | Some b \<Rightarrow> \<not> fits_within f b)) \<and>
   (decide av c u b f \<in> {Queued, Granted ()} \<longleftrightarrow> decide av ZERO ZERO b f = Granted ())"
proof -
  have z: "r_saturating_sub x ZERO = x" for x
    by (simp add: resources_eq_iff amount_sat_sub)
  have "(decide av c u b f = Rejected ExceedsClusterCapacity) = (\<not> fits_within f av)"
    by (simp add: decide_def)
  moreover have "(decide av c u b f = Rejected ExceedsSaBudget) =
      (fits_within f av \<and> (case b of None \<Rightarrow> False | Some b \<Rightarrow> \<not> fits_within f b))"
    by (simp add: decide_def split: option.splits)
  moreover have "(decide av c u b f \<in> {Queued, Granted ()}) = (decide av ZERO ZERO b f = Granted ())"
    by (auto simp: decide_def z split: option.splits)
  ultimately show ?thesis by blast
qed

text \<open>
  Raising a registered budget while requests wait breaks the "at most one grant"
  assumption of \<open>request\<close>: no pass runs in \<open>set_sa_budget\<close>, so the next request admits the
  waiting one as well and the assertion on the number of grants fails (a panic).
\<close>

definition demo_req :: "string \<Rightarrow> u64 \<Rightarrow> request" where
  "demo_req name cpu = \<lparr>rq_binary_id = ''bin'', rq_test_name = name, rq_sa = ''acme'',
     rq_footprint = r_new cpu 1 0 0\<rparr>"

definition demo_cap :: resources where "demo_cap = r_new 8000 16 0 0"

theorem budget_raise_breaks_request:
  "\<exists>s. run_ops [OpRequest (demo_req ''first'' 3000), OpRequest (demo_req ''second'' 3000)]
         (configured demo_cap [(''acme'', r_new 4000 16 0 0)]) = Some s \<and>
     queue_len s = 1 \<and>
     sched_request (demo_req ''third'' 1000) (set_sa_budget ''acme'' (r_new 8000 16 0 0) s) = None"
proof -
  let ?o = "run_ops [OpRequest (demo_req ''first'' 3000), OpRequest (demo_req ''second'' 3000)]
         (configured demo_cap [(''acme'', r_new 4000 16 0 0)])"
  have "case ?o of None \<Rightarrow> False | Some s \<Rightarrow> queue_len s = 1 \<and>
    sched_request (demo_req ''third'' 1000) (set_sa_budget ''acme'' (r_new 8000 16 0 0) s) = None"
    by code_simp
  then show ?thesis by (cases ?o) auto
qed

section \<open>Concrete instances\<close>

definition demo_ops :: "sched_op list" where
  "demo_ops = [OpRequest (demo_req ''occ'' 6000), OpRequest (demo_req ''big'' 4000)]"

lemma demo_ops_run: "\<exists>s. run_ops demo_ops (configured demo_cap []) = Some s"
  using run_ops_ready [of "configured demo_cap []" demo_ops] configured_facts by blast

theorem request_refines_decide_witness:
  "\<exists>s. run_ops demo_ops (configured demo_cap []) = Some s \<and>
     (\<exists>t. sched_request (demo_req ''small'' 2000) s = Some (t, Granted (next_slot_id s)) \<and>
        queue t = queue s)"
proof -
  obtain s where s: "run_ops demo_ops (configured demo_cap []) = Some s" using demo_ops_run by blast
  let ?r = "demo_req ''small'' 2000"
  have "case run_ops demo_ops (configured demo_cap []) of None \<Rightarrow> False
    | Some s \<Rightarrow> decide (available s) (committed s) (sa_usage_of s (rq_sa ?r))
        (sa_budgets s (rq_sa ?r)) (rq_footprint ?r) = Granted ()"
    by code_simp
  with s request_refines_decide [OF s, of ?r] show ?thesis by auto
qed

theorem pass_complete_in_order_witness:
  "\<exists>s t gs. run_ops demo_ops (configured demo_cap []) = Some s \<and>
     sched_release 0 s = Some (t, gs) \<and> length gs = 1 \<and>
     map ad_slot_id gs = [next_slot_id s ..< next_slot_id s + length gs]"
proof -
  obtain s where s: "run_ops demo_ops (configured demo_cap []) = Some s" using demo_ops_run by blast
  have "case run_ops demo_ops (configured demo_cap []) of None \<Rightarrow> False
    | Some s \<Rightarrow> (case sched_release 0 s of None \<Rightarrow> False | Some (t, gs) \<Rightarrow> length gs = 1)"
    by code_simp
  with s obtain t gs where r: "sched_release 0 s = Some (t, gs)" "length gs = 1"
    by (auto split: option.splits)
  with s pass_complete_in_order [OF s, of 0 t gs] show ?thesis by blast
qed

theorem idle_queue_unschedulable_witness:
  "\<exists>s p. run_ops (demo_ops @ [OpReconcile ZERO, OpRelease 0]) (configured demo_cap []) = Some s \<and>
     leases s = [] \<and> queue s = [p] \<and> \<not> fits_within (rq_footprint (p_req p)) (available s)"
proof -
  let ?o = "run_ops (demo_ops @ [OpReconcile ZERO, OpRelease 0]) (configured demo_cap [])"
  have "case ?o of None \<Rightarrow> False
    | Some s \<Rightarrow> leases s = [] \<and> queue_len s = 1 \<and>
        (\<forall>p \<in> set (queue s). sa_budgets s (rq_sa (p_req p)) = None)"
    by code_simp
  then obtain s p where "?o = Some s" "leases s = []" "queue s = [p]"
    "sa_budgets s (rq_sa (p_req p)) = None"
    by (auto simp: queue_len_def length_Suc_conv split: option.splits)
  with idle_queue_unschedulable [of "demo_ops @ [OpReconcile ZERO, OpRelease 0]" demo_cap "[]" s p]
  show ?thesis by auto
qed

theorem fits_now_by_lease_table_witness:
  "\<exists>s. run_ops demo_ops (configured demo_cap []) = Some s \<and>
     fits_now s (demo_req ''small'' 2000) \<and>
     lease_total (leases s) Cpu + 2000 \<le> amount (available s) Cpu"
proof -
  obtain s where s: "run_ops demo_ops (configured demo_cap []) = Some s" using demo_ops_run by blast
  let ?r = "demo_req ''small'' 2000"
  have "case run_ops demo_ops (configured demo_cap []) of None \<Rightarrow> False
    | Some s \<Rightarrow> fits_now s ?r"
    by code_simp
  with s have f: "fits_now s ?r" by simp
  have "amount (rq_footprint ?r) Cpu = 2000" by code_simp
  moreover from f fits_now_by_lease_table [OF s, of ?r]
  have "amount (rq_footprint ?r) Cpu = 0 \<or>
    lease_total (leases s) Cpu + amount (rq_footprint ?r) Cpu \<le> amount (available s) Cpu" by blast
  ultimately show ?thesis using s f by auto
qed

end
