(* ===== verification/Std_F64.thy ===== *)
theory Std_F64
  imports Complex_Main Ztest_Prelude
begin

text \<open>
  The part of Rust's \<open>f64\<close> the quantity parsers use: \<open>str::parse::<f64>\<close> (decimal text to the
  nearest double, ties to even), multiplication and division rounded the same way, \<open>max\<close>,
  \<open>round\<close> (half away from zero) and the saturating cast \<open>as u64\<close>. A finite double is its exact
  rational value; the sign of zero is not kept, since every use ends in a cast to \<open>u64\<close>.
  The lemmas show that integers below \<open>2 ^ 53\<close> go through unchanged.
\<close>

datatype f64 = NaN | Inf bool | Fin rat

function ilog2 :: "int \<Rightarrow> int" where
  "ilog2 n = (if n \<le> 1 then 0 else 1 + ilog2 (n div 2))"
  by pat_completeness auto
termination
  by (relation "measure nat") auto

declare ilog2.simps [simp del]

definition pow2 :: "int \<Rightarrow> rat" where
  "pow2 e = (if 0 \<le> e then 2 ^ nat e else 1 / 2 ^ nat (- e))"

text \<open>The exponent of the unit in the last place of a positive rational.\<close>

definition f64_exp :: "rat \<Rightarrow> int" where
  "f64_exp x = (let (n, d) = quotient_of x; k = ilog2 n - ilog2 d;
     k' = (if pow2 k \<le> x then k else k - 1) in max (k' - 52) (- 1074))"

definition round_even :: "rat \<Rightarrow> int" where
  "round_even x = (let f = \<lfloor>x\<rfloor>; r = x - of_int f in
     if r < 1 / 2 then f else if r > 1 / 2 then f + 1 else if even f then f else f + 1)"

definition f64_of_rat :: "rat \<Rightarrow> f64" where
  "f64_of_rat x = (if x = 0 then Fin 0 else
     let e = f64_exp \<bar>x\<bar>; v = of_int (round_even (\<bar>x\<bar> / pow2 e)) * pow2 e
     in if v \<ge> 2 ^ 1024 then Inf (x < 0) else Fin (sgn x * v))"

fun f64_mul :: "f64 \<Rightarrow> f64 \<Rightarrow> f64" where
  "f64_mul (Fin x) (Fin y) = f64_of_rat (x * y)"
| "f64_mul (Inf s) (Fin y) = (if y = 0 then NaN else Inf (s \<noteq> (y < 0)))"
| "f64_mul (Fin x) (Inf s) = (if x = 0 then NaN else Inf (s \<noteq> (x < 0)))"
| "f64_mul (Inf s) (Inf t) = Inf (s \<noteq> t)"
| "f64_mul _ _ = NaN"

fun f64_add :: "f64 \<Rightarrow> f64 \<Rightarrow> f64" where
  "f64_add (Fin x) (Fin y) = f64_of_rat (x + y)"
| "f64_add (Inf s) (Inf t) = (if s = t then Inf s else NaN)"
| "f64_add (Inf s) (Fin _) = Inf s"
| "f64_add (Fin _) (Inf s) = Inf s"
| "f64_add _ _ = NaN"

text \<open>Division by a positive finite constant.\<close>

fun f64_div_pos :: "f64 \<Rightarrow> rat \<Rightarrow> f64" where
  "f64_div_pos (Fin x) c = f64_of_rat (x / c)"
| "f64_div_pos (Inf s) c = Inf s"
| "f64_div_pos NaN c = NaN"

fun f64_max_zero :: "f64 \<Rightarrow> f64" where
  "f64_max_zero (Fin x) = Fin (max x 0)"
| "f64_max_zero (Inf s) = (if s then Fin 0 else Inf False)"
| "f64_max_zero NaN = Fin 0"

text \<open>\<open>f64::round\<close> followed by \<open>as u64\<close>.\<close>

fun round_as_u64 :: "f64 \<Rightarrow> u64" where
  "round_as_u64 (Fin x) = (if x \<le> 0 then 0
     else let r = \<lfloor>x + 1 / 2\<rfloor> in if r \<ge> 2 ^ 64 then - 1 else word_of_int r)"
| "round_as_u64 (Inf s) = (if s then 0 else - 1)"
| "round_as_u64 NaN = 0"

text \<open>
  \<open>Duration::as_secs_f64\<close> of a duration in nanoseconds, and \<open>Duration::from_secs_f64\<close>, which
  rounds to the nearest nanosecond and panics (\<open>None\<close>) on a negative, infinite or
  unrepresentable number of seconds.
\<close>

definition as_secs_f64 :: "nat \<Rightarrow> f64" where
  "as_secs_f64 ns = f64_add (f64_of_rat (of_nat (ns div 1000000000)))
     (f64_div_pos (f64_of_rat (of_nat (ns mod 1000000000))) 1000000000)"

fun from_secs_f64 :: "f64 \<Rightarrow> nat option" where
  "from_secs_f64 (Fin x) = (if 0 \<le> x \<and> x < 18446744073709551616
     then Some (nat (round_even (x * 1000000000))) else None)"
| "from_secs_f64 _ = None"

section \<open>Decimal text\<close>

fun take_digits :: "string \<Rightarrow> string \<times> string" where
  "take_digits [] = ([], [])"
| "take_digits (c # cs) = (case digit_val c of
     None \<Rightarrow> ([], c # cs) | Some _ \<Rightarrow> (let (a, b) = take_digits cs in (c # a, b)))"

definition lower :: "string \<Rightarrow> string" where
  "lower s = map (\<lambda>c. let n = of_char c :: nat in
     if 65 \<le> n \<and> n \<le> 90 then char_of (n + 32) else c) s"

definition split_sign :: "string \<Rightarrow> bool \<times> string" where
  "split_sign s = (case s of
     c # cs \<Rightarrow> if c = CHR ''-'' then (True, cs) else if c = CHR ''+'' then (False, cs) else (False, s)
   | [] \<Rightarrow> (False, []))"

definition parse_exponent :: "string \<Rightarrow> int option" where
  "parse_exponent s = (case s of
     [] \<Rightarrow> Some 0
   | c # cs \<Rightarrow> if c = CHR ''e'' \<or> c = CHR ''E''
       then (let (neg, ds) = split_sign cs in if ds = [] then None
             else map_option (\<lambda>n. if neg then - int n else int n) (parse_digits 0 ds))
       else None)"

definition dec_value :: "bool \<Rightarrow> nat \<Rightarrow> int \<Rightarrow> f64" where
  "dec_value neg m e = f64_of_rat ((if neg then - 1 else 1) * of_nat m *
     (if 0 \<le> e then 10 ^ nat e else 1 / 10 ^ nat (- e)))"

definition parse_decimal :: "bool \<Rightarrow> string \<Rightarrow> f64 option" where
  "parse_decimal neg s =
     (let (a, r) = take_digits s;
          (b, r') = (case r of c # cs \<Rightarrow> if c = CHR ''.'' then take_digits cs else ([], r)
                             | [] \<Rightarrow> ([], []))
      in if a = [] \<and> b = [] then None
         else (case (parse_digits 0 (a @ b), parse_exponent r') of
                 (Some m, Some e) \<Rightarrow> Some (dec_value neg m (e - int (length b)))
               | _ \<Rightarrow> None))"

definition parse_f64 :: "string \<Rightarrow> f64 option" where
  "parse_f64 s = (let (neg, r) = split_sign s in
     if lower r = ''inf'' \<or> lower r = ''infinity'' then Some (Inf neg)
     else if lower r = ''nan'' then Some NaN
     else parse_decimal neg r)"

section \<open>Integers below two to the fifty-third are exact\<close>

lemma ilog2_bounds: "0 < n \<Longrightarrow> 0 \<le> ilog2 n \<and> 2 ^ nat (ilog2 n) \<le> n \<and> n < 2 * 2 ^ nat (ilog2 n)"
proof (induction n rule: ilog2.induct)
  case (1 n)
  show ?case
  proof (cases "n \<le> 1")
    case True
    with "1.prems" have "n = 1" by simp
    then show ?thesis by (simp add: ilog2.simps)
  next
    case False
    let ?k = "ilog2 (n div 2)"
    have IH: "0 \<le> ?k" "2 ^ nat ?k \<le> n div 2" "n div 2 < 2 * 2 ^ nat ?k"
      using "1.IH" [OF False] False by auto
    have "ilog2 n = 1 + ?k" using False by (simp add: ilog2.simps [of n])
    moreover have "nat (1 + ?k) = Suc (nat ?k)" using IH(1) by simp
    moreover have "2 * (2 :: int) ^ nat ?k \<le> n" using IH(2) by linarith
    moreover have "n < 4 * 2 ^ nat ?k" using IH(3) by linarith
    ultimately show ?thesis using IH(1) by simp
  qed
qed

lemma quotient_of_int_pos: "quotient_of (of_int n) = (n, 1)"
  using quotient_of_int [of n] by (simp only: Rat.of_int_def)

lemma f64_exp_int:
  assumes "0 < n" "n < 2 ^ 53"
  shows "- 1074 \<le> f64_exp (of_int n) \<and> f64_exp (of_int n) \<le> 0"
proof -
  have b: "0 \<le> ilog2 n" "2 ^ nat (ilog2 n) \<le> n" using ilog2_bounds [OF assms(1)] by auto
  have le: "pow2 (ilog2 n) \<le> of_int n"
  proof -
    have "(of_int (2 ^ nat (ilog2 n)) :: rat) \<le> of_int n" using b(2) by (simp only: of_int_le_iff)
    then show ?thesis using b(1) by (simp add: pow2_def)
  qed
  have "ilog2 1 = 0" by (simp add: ilog2.simps)
  have "nat (ilog2 n) < 53"
  proof (rule ccontr)
    assume "\<not> nat (ilog2 n) < 53"
    then have "(2 :: int) ^ 53 \<le> 2 ^ nat (ilog2 n)" by (intro power_increasing) auto
    with b assms show False by linarith
  qed
  then have "ilog2 n \<le> 52" by linarith
  then show ?thesis
    using le b \<open>ilog2 1 = 0\<close> by (simp add: f64_exp_def quotient_of_int_pos)
qed

lemma round_even_int [simp]: "round_even (of_int n) = n"
  by (simp add: round_even_def)

lemma f64_of_rat_int:
  assumes "0 \<le> n" "n < 2 ^ 53"
  shows "f64_of_rat (of_int n) = Fin (of_int n)"
proof (cases "n = 0")
  case True
  then show ?thesis by (simp add: f64_of_rat_def)
next
  case False
  with assms have n: "0 < n" by simp
  let ?e = "f64_exp (of_int n)"
  have e: "?e \<le> 0" using f64_exp_int [OF n assms(2)] by simp
  have p: "pow2 ?e = 1 / 2 ^ nat (- ?e)" using e by (cases "?e = 0") (auto simp: pow2_def)
  have "(of_int n :: rat) / pow2 ?e = of_int (n * 2 ^ nat (- ?e))" by (simp add: p)
  then have v: "of_int (round_even (of_int n / pow2 ?e)) * pow2 ?e = (of_int n :: rat)"
    by (simp only: round_even_int) (simp add: p)
  have "(of_int n :: rat) < of_int (2 ^ 53)" using assms(2) by (simp only: of_int_less_iff)
  also have "(of_int (2 ^ 53) :: rat) = 2 ^ 53" by simp
  also have "(2 :: rat) ^ 53 \<le> 2 ^ 1024" by (intro power_increasing) auto
  finally have "\<not> (2 :: rat) ^ 1024 \<le> of_int n" by simp
  with v n show ?thesis by (simp add: f64_of_rat_def Let_def)
qed

lemma round_as_u64_int: "0 \<le> n \<Longrightarrow> n < 2 ^ 64 \<Longrightarrow> round_as_u64 (Fin (of_int n)) = word_of_int n"
proof -
  assume n: "0 \<le> n" "n < 2 ^ 64"
  have "\<lfloor>(of_int n :: rat) + 1 / 2\<rfloor> = n" by (simp add: floor_eq_iff)
  with n show ?thesis by (auto simp: Let_def)
qed

lemma take_digits_all: "\<forall>c \<in> set ds. digit_val c \<noteq> None \<Longrightarrow> take_digits ds = (ds, [])"
  by (induction ds) (auto split: option.splits)

end
