(* ===== verification/Qos_Footprint.thy ===== *)
theory Qos_Footprint
  imports Std_F64 Qos_Resources
begin

text \<open>
  The quantity grammar of \<open>attr/src/footprint.rs\<close>: the permissive Kubernetes parsers
  \<open>parse_mem_bytes\<close> and \<open>parse_cpu_milli\<close>, and the strict \<open>footprint = "<cpu>/<mem>[/<disk>]"\<close>
  grammar with its diagnostics. Each error message of the source is one constructor of
  \<open>footprint_error\<close>; the text of the messages is not modelled. The lemmas show what a parsed
  footprint guarantees to the pods sized from it, and that printed quantities parse back.
\<close>

section \<open>Kubernetes quantities\<close>

text \<open>The chain of suffixes \<open>parse_mem_bytes\<close> tries, in its order.\<close>

definition mem_suffixes :: "(string \<times> u64) list" where
  "mem_suffixes =
     [(''Ki'', 1024), (''Mi'', 1048576), (''Gi'', 1073741824), (''Ti'', 1099511627776),
      (''Pi'', 1125899906842624), (''Ei'', 1152921504606846976),
      (''k'', 1000), (''K'', 1000), (''M'', 1000000), (''G'', 1000000000),
      (''T'', 1000000000000), (''P'', 1000000000000000), (''E'', 1000000000000000000)]"

fun split_suffix :: "(string \<times> u64) list \<Rightarrow> string \<Rightarrow> string \<times> u64" where
  "split_suffix [] s = (s, 1)"
| "split_suffix ((suf, m) # rest) s = (case strip_suffix suf s of
     Some n \<Rightarrow> (n, m) | None \<Rightarrow> split_suffix rest s)"

definition parse_mem_bytes :: "string \<Rightarrow> u64 option" where
  "parse_mem_bytes s =
     (let (n, mult) = split_suffix mem_suffixes (trim s); num = trim n
      in case parse_u64 num of
           Some v \<Rightarrow> Some (sat_mul v mult)
         | None \<Rightarrow> (case parse_f64 num of
             Some f \<Rightarrow> Some (round_as_u64 (f64_mul (f64_max_zero f) (f64_of_rat (of_int (uint mult)))))
           | None \<Rightarrow> None))"

definition scaled :: "string \<Rightarrow> rat \<Rightarrow> u64 option" where
  "scaled body per_milli = map_option (\<lambda>v. round_as_u64 (f64_div_pos v per_milli)) (parse_f64 (trim body))"

definition parse_cpu_milli :: "string \<Rightarrow> u64 option" where
  "parse_cpu_milli s0 =
     (let s = trim s0 in
      case strip_suffix ''m'' s of
        Some n \<Rightarrow> parse_u64 (trim n)
      | None \<Rightarrow> (case strip_suffix ''u'' s of
          Some n \<Rightarrow> scaled n 1000
        | None \<Rightarrow> (case strip_suffix ''n'' s of
            Some n \<Rightarrow> scaled n 1000000
          | None \<Rightarrow> map_option (\<lambda>v. round_as_u64 (f64_mul v (Fin 1000))) (parse_f64 s))))"

section \<open>The footprint grammar\<close>

record footprint =
  fp_cpu_milli :: u64
  fp_mem_bytes :: u64
  fp_disk_bytes :: "u64 option"
  fp_disk_bps :: "u64 option"
  fp_disk_iops :: "u64 option"

datatype footprint_error =
    TooFewSegments | TooManySegments
  | CpuNotWhole | CpuOverflows | CpuNoUnit | CpuZero | CpuNotWholeCores u64
  | MemNoUnit | MemNotQuantity | MemZero
  | DiskNoUnit | DiskNotQuantity | DiskZero

definition ends_alphabetic :: "string \<Rightarrow> bool" where
  "ends_alphabetic s \<longleftrightarrow> s \<noteq> [] \<and>
     (let n = of_char (last s) :: nat in (65 \<le> n \<and> n \<le> 90) \<or> (97 \<le> n \<and> n \<le> 122))"

definition parse_disk :: "string \<Rightarrow> footprint_error + u64" where
  "parse_disk s =
     (if \<not> ends_alphabetic s then Inl DiskNoUnit
      else case parse_mem_bytes s of
        None \<Rightarrow> Inl DiskNotQuantity
      | Some b \<Rightarrow> if b = 0 then Inl DiskZero else Inr b)"

definition cpu_amount :: "string \<Rightarrow> footprint_error + u64" where
  "cpu_amount s = (case strip_suffix ''c'' s of
     Some n \<Rightarrow> (case parse_u64 (trim n) of
         None \<Rightarrow> Inl CpuNotWhole
       | Some v \<Rightarrow> (case chk_mul v 1000 of None \<Rightarrow> Inl CpuOverflows | Some m \<Rightarrow> Inr m))
   | None \<Rightarrow> (case strip_suffix ''m'' s of
       Some n \<Rightarrow> (case parse_u64 (trim n) of None \<Rightarrow> Inl CpuNotWhole | Some v \<Rightarrow> Inr v)
     | None \<Rightarrow> Inl CpuNoUnit))"

definition parse_cpu :: "string \<Rightarrow> footprint_error + u64" where
  "parse_cpu s = (case cpu_amount s of
     Inl e \<Rightarrow> Inl e
   | Inr milli \<Rightarrow> if milli = 0 then Inl CpuZero
       else if milli mod 1000 \<noteq> 0 then Inl (CpuNotWholeCores milli) else Inr milli)"

definition parse_mem :: "string \<Rightarrow> footprint_error + u64" where
  "parse_mem s =
     (if \<not> ends_alphabetic s then Inl MemNoUnit
      else case parse_mem_bytes s of
        None \<Rightarrow> Inl MemNotQuantity
      | Some b \<Rightarrow> if b = 0 then Inl MemZero else Inr b)"

definition parse_segments ::
  "string \<Rightarrow> string \<Rightarrow> string option \<Rightarrow> footprint_error + footprint" where
  "parse_segments cpu mem disk = (case parse_cpu (trim cpu) of
     Inl e \<Rightarrow> Inl e
   | Inr c \<Rightarrow> (case parse_mem (trim mem) of
       Inl e \<Rightarrow> Inl e
     | Inr m \<Rightarrow> (case map_option (\<lambda>d. parse_disk (trim d)) disk of
         None \<Rightarrow> Inr \<lparr>fp_cpu_milli = c, fp_mem_bytes = m, fp_disk_bytes = None,
                      fp_disk_bps = None, fp_disk_iops = None\<rparr>
       | Some (Inl e) \<Rightarrow> Inl e
       | Some (Inr d) \<Rightarrow> Inr \<lparr>fp_cpu_milli = c, fp_mem_bytes = m, fp_disk_bytes = Some d,
                             fp_disk_bps = None, fp_disk_iops = None\<rparr>)))"

definition footprint_parse :: "string \<Rightarrow> footprint_error + footprint" where
  "footprint_parse s = (case split_on CHR ''/'' s of
     [cpu, mem] \<Rightarrow> parse_segments cpu mem None
   | [cpu, mem, disk] \<Rightarrow> parse_segments cpu mem (Some disk)
   | _ # _ # _ # _ # _ \<Rightarrow> Inl TooManySegments
   | _ \<Rightarrow> Inl TooFewSegments)"

definition from_footprint :: "footprint \<Rightarrow> resources" where
  "from_footprint f =
     with_disk (r_new (fp_cpu_milli f) (fp_mem_bytes f)
        (case fp_disk_bps f of Some b \<Rightarrow> b | None \<Rightarrow> 0)
        (case fp_disk_iops f of Some i \<Rightarrow> i | None \<Rightarrow> 0))
       (case fp_disk_bytes f of Some d \<Rightarrow> d | None \<Rightarrow> 0)"

section \<open>What a parsed footprint guarantees\<close>

lemma parse_cpu_Inr: "parse_cpu s = Inr m \<Longrightarrow> m \<noteq> 0 \<and> m mod 1000 = 0"
  by (auto simp: parse_cpu_def split: sum.splits if_splits)

lemma parse_mem_Inr: "parse_mem s = Inr m \<Longrightarrow> m \<noteq> 0"
  by (auto simp: parse_mem_def split: option.splits if_splits)

lemma parse_disk_Inr: "parse_disk s = Inr m \<Longrightarrow> m \<noteq> 0"
  by (auto simp: parse_disk_def split: option.splits if_splits)

lemma parse_segments_Inr:
  assumes "parse_segments cpu mem disk = Inr f"
  shows "fp_cpu_milli f \<noteq> 0 \<and> fp_cpu_milli f mod 1000 = 0 \<and> fp_mem_bytes f \<noteq> 0 \<and>
    fp_disk_bytes f \<noteq> Some 0 \<and> fp_disk_bps f = None \<and> fp_disk_iops f = None"
  using assms parse_disk_Inr
  by (force simp: parse_segments_def dest: parse_cpu_Inr parse_mem_Inr
      split: sum.splits option.splits)

lemma footprint_parse_Inr:
  "footprint_parse s = Inr f \<Longrightarrow> \<exists>cpu mem disk. parse_segments cpu mem disk = Inr f"
  by (auto simp: footprint_parse_def split: list.splits)

lemma whole_cores:
  fixes w :: u64
  assumes "w \<noteq> 0" "w mod 1000 = 0"
  shows "unat w mod 1000 = 0 \<and> 1000 \<le> unat w"
proof -
  have "unat w mod 1000 = unat (w mod 1000)" by (simp add: unat_mod)
  then have "unat w mod 1000 = 0" using assms(2) by simp
  moreover have "0 < unat w" using assms(1) by (simp add: unat_gt_0)
  ultimately show ?thesis by auto
qed

text \<open>
  A footprint the grammar accepts can size a pod: it never trips the zero-CPU or
  zero-memory assertion, and the Guaranteed pod rendered from it asks for exactly the
  reserved millicores (whole cores, no rounding up past the reserve) and the exact bytes.
\<close>

theorem parsed_footprint_renders_exactly:
  assumes "footprint_parse s = Inr f"
  shows "with_footprint p (Some (from_footprint f)) = Some (p\<lparr>pf_footprint := from_footprint f\<rparr>) \<and>
    (\<exists>cores. guaranteed_cpu_mem (from_footprint f) = Some (show_nat cores, show_u64 (fp_mem_bytes f)) \<and>
       1000 * cores = unat (cpu_milli (from_footprint f)))"
proof -
  let ?w = "fp_cpu_milli f"
  obtain cpu mem disk where "parse_segments cpu mem disk = Inr f"
    using footprint_parse_Inr [OF assms] by blast
  note f = parse_segments_Inr [OF this]
  have c: "unat ?w mod 1000 = 0" "1000 \<le> unat ?w"
    using whole_cores [of ?w] f by simp_all
  have pos: "pod_schedulable (from_footprint f)"
    using f by (simp add: pod_schedulable_def from_footprint_def with_disk_def r_new_def word_neq_0_conv)
  obtain k where k: "unat ?w = 1000 * k" using c(1) by (metis mod_0_imp_dvd dvdE)
  then have "max ((unat ?w + 999) div 1000) 1 = k" using c(2) by auto
  moreover have "cpu_milli (from_footprint f) = ?w" "mem_bytes (from_footprint f) = fp_mem_bytes f"
    by (simp_all add: from_footprint_def with_disk_def r_new_def)
  ultimately have "guaranteed_cpu_mem (from_footprint f) = Some (show_nat k, show_u64 (fp_mem_bytes f))"
    using pos unfolding guaranteed_cpu_mem_def by (simp only: if_True Let_def)
  then show ?thesis
    using pos k \<open>cpu_milli (from_footprint f) = ?w\<close> by (simp only: with_footprint_def) auto
qed

theorem parsed_footprint_renders_exactly_witness:
  "\<exists>f. footprint_parse ''15c/29Gi/400Gi'' = Inr f \<and>
     guaranteed_cpu_mem (from_footprint f) = Some (show_nat 15, show_u64 (31138512896 :: u64))"
proof -
  let ?f = "\<lparr>fp_cpu_milli = 15000, fp_mem_bytes = 31138512896, fp_disk_bytes = Some 429496729600,
     fp_disk_bps = None, fp_disk_iops = None\<rparr>"
  have h: "footprint_parse ''15c/29Gi/400Gi'' = Inr ?f"
    by (simp add: footprint_parse_def parse_segments_def parse_cpu_def cpu_amount_def parse_mem_def
        parse_disk_def parse_mem_bytes_def mem_suffixes_def strip_suffix_def suffix_to_prefix trim_def
        is_ws_def parse_u64_def digit_val_def ends_alphabetic_def chk_mul_def sat_mul_def)
  have "cpu_milli (from_footprint ?f) = 15000" "fp_mem_bytes ?f = 31138512896"
    by (simp_all add: from_footprint_def with_disk_def r_new_def)
  with parsed_footprint_renders_exactly [OF h]
  obtain cores where "guaranteed_cpu_mem (from_footprint ?f) = Some (show_nat cores, show_u64 (31138512896 :: u64))"
    "1000 * cores = (15000 :: nat)" by auto
  moreover from this(2) have "cores = 15" by simp
  ultimately show ?thesis using h by (intro exI [of _ ?f]) simp
qed

section \<open>Printed quantities parse back\<close>

lemma digits_parse: "\<forall>c \<in> set (show_nat n). digit_val c \<noteq> None"
  using show_nat_digits by fastforce

lemma show_nat_nonempty [simp]: "show_nat n \<noteq> []"
  by (metis list.distinct(1) show_nat_Cons)

lemma trim_digits_suffix:
  assumes "suf \<noteq> []" "\<not> is_ws (last suf)"
  shows "trim (show_u64 w @ suf) = show_u64 w @ suf"
proof (rule trim_id, rule disjI2, rule conjI)
  obtain d cs where "d < 10" "show_u64 w = digit_char d # cs"
    unfolding show_u64_def using show_nat_Cons by blast
  then show "\<not> is_ws (hd (show_u64 w @ suf))" by simp
  show "\<not> is_ws (last (show_u64 w @ suf))" using assms by simp
qed

lemma strip_suffix_short [simp]:
  "strip_suffix [a] (ds @ [b]) = (if a = b then Some ds else None)"
  "strip_suffix [a] (ds @ [b, c]) = (if a = c then Some (ds @ [b]) else None)"
  "b \<noteq> c \<Longrightarrow> strip_suffix [a, b] (ds @ [c]) = None"
  "strip_suffix [a, b] (ds @ [c, d]) = (if a = c \<and> b = d then Some ds else None)"
  by (auto simp: strip_suffix_def suffix_to_prefix)

lemma split_suffix_found:
  "(suf, m) \<in> set mem_suffixes \<Longrightarrow> split_suffix mem_suffixes (ds @ suf) = (ds, m)"
  by (auto simp: mem_suffixes_def)

text \<open>
  Whole quantities print and parse back: for every unit suffix the memory parser knows,
  a decimal count followed by the suffix is read as the count times the unit, saturating
  at the largest \<open>u64\<close> instead of wrapping.
\<close>

theorem mem_quantity_roundtrip:
  assumes "(suf, unit) \<in> set mem_suffixes"
  shows "parse_mem_bytes (show_u64 v @ suf) = Some (sat_mul v unit)"
proof -
  have "suf \<noteq> [] \<and> \<not> is_ws (last suf)" using assms by (auto simp: mem_suffixes_def is_ws_def)
  then show ?thesis
    by (simp add: parse_mem_bytes_def trim_digits_suffix split_suffix_found [OF assms] parse_show_u64)
qed

theorem mem_quantity_roundtrip_witness:
  "(''Gi'', 1073741824) \<in> set mem_suffixes \<and>
   parse_mem_bytes (show_u64 (2 :: u64) @ ''Gi'') = Some 2147483648 \<and>
   parse_mem_bytes (show_u64 (17179869184 :: u64) @ ''Gi'') = Some (- 1)"
proof -
  have h: "(''Gi'', 1073741824) \<in> set mem_suffixes" by (simp add: mem_suffixes_def)
  show ?thesis
    using h mem_quantity_roundtrip [OF h, of 2] mem_quantity_roundtrip [OF h, of 17179869184]
    by (simp add: sat_mul_def)
qed

text \<open>
  The CPU parser rounds to the nearest millicore: a quarter of a millicore parses to
  zero, where the comment at its definition says it rounds up.
\<close>

theorem cpu_parse_rounds_to_nearest: "parse_cpu_milli ''250u'' = Some 0"
proof -
  have l: "ilog2 1 = 0" "ilog2 4 = 2" by (simp_all add: ilog2.simps)
  have q: "quotient_of (1 / 4) = (1, 4)" by code_simp
  have e: "f64_exp (1 / 4) = - 54" by (simp add: f64_exp_def q l pow2_def)
  have "f64_of_rat (1 / 4) = Fin (1 / 4)"
    by (simp add: f64_of_rat_def e pow2_def round_even_def)
  moreover have "f64_of_rat 250 = Fin 250" using f64_of_rat_int [of 250] by simp
  moreover have "\<lfloor>3 / 4 :: rat\<rfloor> = 0" by (simp add: floor_eq_iff)
  ultimately show ?thesis
    by (simp add: parse_cpu_milli_def scaled_def trim_def is_ws_def strip_suffix_def suffix_to_prefix
        parse_f64_def split_sign_def lower_def parse_decimal_def digit_val_def parse_exponent_def
        dec_value_def Let_def)
qed

end
