(* ===== verification/Qos_Units.thy ===== *)
theory Qos_Units
  imports Qos_Footprint
begin

text \<open>
  The Kubernetes objects as the sources read them (the fields of \<open>k8s_openapi\<close> types that some
  modelled function looks at; times are integer nanoseconds), and the resource accounting of
  \<open>src/src/qos/units.rs\<close>: container amounts, the effective footprint of a pod, and a volume's
  reservation.
\<close>

section \<open>Objects\<close>

type_synonym str_map = "string \<rightharpoonup> string"
type_synonym instant = int

record object_meta =
  m_name :: "string option"
  m_namespace :: "string option"
  m_labels :: "str_map option"
  m_annotations :: "str_map option"
  m_creation :: "instant option"
  m_deletion :: "instant option"
  m_finalizers :: "string list option"

record container =
  c_requests :: "str_map option"
  c_limits :: "str_map option"
  c_restart_policy :: "string option"

record pod_spec =
  ps_containers :: "container list"
  ps_init_containers :: "container list option"

record pod =
  pod_meta :: object_meta
  pod_spec :: "pod_spec option"
  pod_phase :: "string option"

record lease_spec =
  ls_holder :: "string option"
  ls_duration_secs :: "int option"
  ls_renew_time :: "instant option"

record k8s_lease =
  le_meta :: object_meta
  le_spec :: "lease_spec option"

record pvc =
  pvc_meta :: object_meta
  pvc_requests :: "str_map option"

definition or_default :: "'a option \<Rightarrow> 'a \<Rightarrow> 'a" where
  "or_default x0 d = (case x0 of Some x \<Rightarrow> x | None \<Rightarrow> d)"

lemma or_default_simps [simp]: "or_default (Some x) d = x" "or_default None d = d"
  by (simp_all add: or_default_def)

section \<open>Quantities and containers\<close>

definition cpu_milli_of :: "string \<Rightarrow> u64" where
  "cpu_milli_of s = or_default (parse_cpu_milli s) 0"

definition mem_bytes_of :: "string \<Rightarrow> u64" where
  "mem_bytes_of s = or_default (parse_mem_bytes s) 0"

definition container_amount :: "str_map option \<Rightarrow> resources" where
  "container_amount m = (case m of
     None \<Rightarrow> ZERO
   | Some m \<Rightarrow> r_new (or_default (map_option cpu_milli_of (m ''cpu'')) 0)
                     (or_default (map_option mem_bytes_of (m ''memory'')) 0) 0 0)"

definition container_requests :: "container \<Rightarrow> resources" where
  "container_requests c = container_amount (c_requests c)"

definition container_limits :: "container \<Rightarrow> resources" where
  "container_limits c = container_amount (c_limits c)"

definition is_sidecar :: "container \<Rightarrow> bool" where
  "is_sidecar c \<longleftrightarrow> c_restart_policy c = Some ''Always''"

fun init_loop ::
  "(container \<Rightarrow> resources) \<Rightarrow> container list \<Rightarrow> resources \<times> resources \<times> resources \<Rightarrow>
   resources \<times> resources \<times> resources" where
  "init_loop per [] st = st"
| "init_loop per (c # cs) (running, sidecars, init_peak) =
     (let amt = per c in
      if is_sidecar c
      then init_loop per cs (r_saturating_add running amt, r_saturating_add sidecars amt, init_peak)
      else init_loop per cs (running, sidecars, r_max init_peak (r_saturating_add amt sidecars)))"

definition pod_effective :: "pod_spec \<Rightarrow> (container \<Rightarrow> resources) \<Rightarrow> resources" where
  "pod_effective p per =
     (let running = foldl (\<lambda>acc c. r_saturating_add acc (per c)) ZERO (ps_containers p);
          (running', _, init_peak) =
            init_loop per (or_default (ps_init_containers p) []) (running, ZERO, ZERO)
      in r_max running' init_peak)"

definition pod_effective_request :: "pod_spec \<Rightarrow> resources" where
  "pod_effective_request p = pod_effective p container_requests"

definition pod_effective_limit :: "pod_spec \<Rightarrow> resources" where
  "pod_effective_limit p = pod_effective p container_limits"

section \<open>Volumes and live pods\<close>

definition pvc_requested_storage :: "pvc \<Rightarrow> u64" where
  "pvc_requested_storage v =
     or_default (map_option mem_bytes_of (Option.bind (pvc_requests v) (\<lambda>r. r ''storage''))) 0"

definition pvc_reservation :: "pvc \<Rightarrow> resources" where
  "pvc_reservation v =
     (let annotated = (\<lambda>k. Option.bind (m_annotations (pvc_meta v)) (\<lambda>a. a k));
          bps = or_default (map_option mem_bytes_of (annotated ''qos.ztest.io/disk-bps'')) 0;
          iops = or_default (Option.bind (annotated ''qos.ztest.io/disk-iops'')
                               (\<lambda>s. parse_u64 (trim s))) 0;
          disk = (case annotated ''qos.ztest.io/disk-bytes'' of
                    Some s \<Rightarrow> mem_bytes_of s | None \<Rightarrow> pvc_requested_storage v)
      in with_disk (r_new 0 0 bps iops) disk)"

definition pod_holds_capacity :: "pod \<Rightarrow> bool" where
  "pod_holds_capacity p \<longleftrightarrow> pod_phase p \<noteq> Some ''Succeeded'' \<and> pod_phase p \<noteq> Some ''Failed''"

section \<open>The effective footprint is the least cover\<close>

definition sum_of :: "(container \<Rightarrow> resources) \<Rightarrow> container list \<Rightarrow> resources" where
  "sum_of per cs = foldl r_saturating_add ZERO (map per cs)"

lemma sum_of_Nil [simp]: "sum_of per [] = ZERO"
  by (simp add: sum_of_def)

lemma sum_of_Cons: "sum_of per (c # cs) = r_saturating_add (per c) (sum_of per cs)"
  unfolding sum_of_def list.map by (rule res.foldl_add_Cons)

lemma sum_of_append: "sum_of per (xs @ ys) = r_saturating_add (sum_of per xs) (sum_of per ys)"
  unfolding sum_of_def map_append by (rule res.foldl_add_append)

lemma fits_r_max: "fits_within (r_max a b) c \<longleftrightarrow> fits_within a c \<and> fits_within b c"
  by (auto simp: res_simps)

text \<open>Every plain init container runs beside the sidecars listed before it.\<close>

definition peaks_within :: "(container \<Rightarrow> resources) \<Rightarrow> resources \<Rightarrow> container list \<Rightarrow> resources \<Rightarrow> bool" where
  "peaks_within per base cs cap \<longleftrightarrow>
     (\<forall>pre c post. cs = pre @ c # post \<longrightarrow> \<not> is_sidecar c \<longrightarrow>
        fits_within (r_saturating_add (per c)
          (r_saturating_add base (sum_of per (filter is_sidecar pre)))) cap)"

lemma peaks_within_Nil [simp]: "peaks_within per base [] cap"
  by (simp add: peaks_within_def)

lemma peaks_within_Cons:
  "peaks_within per base (c # cs) cap \<longleftrightarrow>
     (if is_sidecar c then peaks_within per (r_saturating_add base (per c)) cs cap
      else fits_within (r_saturating_add (per c) base) cap \<and> peaks_within per base cs cap)"
proof -
  have z: "r_saturating_add base ZERO = base"
    using res.add_zero res.add_commute by metis
  have s: "is_sidecar c \<Longrightarrow> r_saturating_add (r_saturating_add base (per c)) (sum_of per xs) =
      r_saturating_add base (sum_of per (c # xs))" for xs
    by (simp add: sum_of_Cons res.add_assoc)
  show ?thesis
    unfolding peaks_within_def all_splits_Cons by (simp add: s z)
qed

lemma init_loop_fits:
  assumes "init_loop per cs (r, sc, pk) = (r', sc', pk')"
  shows "r' = r_saturating_add r (sum_of per (filter is_sidecar cs)) \<and>
    (fits_within pk' cap \<longleftrightarrow> fits_within pk cap \<and> peaks_within per sc cs cap)"
  using assms
proof (induction cs arbitrary: r sc pk)
  case Nil
  have "r_saturating_add r ZERO = r" using res.add_zero res.add_commute by metis
  with Nil show ?case by simp
next
  case (Cons c cs)
  show ?case
  proof (cases "is_sidecar c")
    case True
    with Cons.prems Cons.IH
    have "r' = r_saturating_add (r_saturating_add r (per c)) (sum_of per (filter is_sidecar cs)) \<and>
      (fits_within pk' cap \<longleftrightarrow>
         fits_within pk cap \<and> peaks_within per (r_saturating_add sc (per c)) cs cap)"
      by (simp add: Let_def)
    with True show ?thesis by (simp add: sum_of_Cons res.add_assoc peaks_within_Cons)
  next
    case False
    with Cons.prems Cons.IH
    have "r' = r_saturating_add r (sum_of per (filter is_sidecar cs)) \<and>
      (fits_within pk' cap \<longleftrightarrow>
         fits_within (r_max pk (r_saturating_add (per c) sc)) cap \<and> peaks_within per sc cs cap)"
      by (simp add: Let_def)
    with False show ?thesis by (auto simp: peaks_within_Cons fits_r_max)
  qed
qed

text \<open>
  The effective footprint of a pod is the least amount that covers it: it fits a
  capacity exactly when the regular containers plus all sidecars fit, and each plain init
  container fits together with the sidecars started before it.
\<close>

theorem pod_effective_least_cover:
  "fits_within (pod_effective p per) cap \<longleftrightarrow>
     fits_within (r_saturating_add (sum_of per (ps_containers p))
       (sum_of per (filter is_sidecar (or_default (ps_init_containers p) [])))) cap \<and>
     (\<forall>pre c post. or_default (ps_init_containers p) [] = pre @ c # post \<longrightarrow> \<not> is_sidecar c \<longrightarrow>
        fits_within (r_saturating_add (per c) (sum_of per (filter is_sidecar pre))) cap)"
proof -
  let ?cs = "or_default (ps_init_containers p) []"
  have f: "foldl (\<lambda>acc c. r_saturating_add acc (per c)) ZERO (ps_containers p) =
      sum_of per (ps_containers p)"
    by (simp add: sum_of_def foldl_map)
  obtain r' sc' pk' where i: "init_loop per ?cs (sum_of per (ps_containers p), ZERO, ZERO) = (r', sc', pk')"
    by (metis prod_cases3)
  note l = init_loop_fits [OF i, of cap]
  have "peaks_within per ZERO ?cs cap \<longleftrightarrow>
    (\<forall>pre c post. ?cs = pre @ c # post \<longrightarrow> \<not> is_sidecar c \<longrightarrow>
        fits_within (r_saturating_add (per c) (sum_of per (filter is_sidecar pre))) cap)"
    by (simp add: peaks_within_def res.add_zero)
  with l show ?thesis
    by (simp add: pod_effective_def f i fits_r_max res.zero_fits)
qed

definition demo_container :: "string \<Rightarrow> string option \<Rightarrow> container" where
  "demo_container cpu policy = \<lparr>c_requests = Some [''cpu'' \<mapsto> cpu], c_limits = None,
     c_restart_policy = policy\<rparr>"

definition demo_pod :: pod_spec where
  "demo_pod = \<lparr>ps_containers = [demo_container ''1m'' None],
     ps_init_containers = Some [demo_container ''1m'' (Some ''Always''), demo_container ''3m'' None]\<rparr>"

lemma demo_container_cpu:
  "container_requests (demo_container ''1m'' p) = r_new 1 0 0 0"
  "container_requests (demo_container ''3m'' p) = r_new 3 0 0 0"
  by (simp_all add: container_requests_def demo_container_def container_amount_def cpu_milli_of_def
      parse_cpu_milli_def trim_def is_ws_def strip_suffix_def suffix_to_prefix parse_u64_def digit_val_def)

theorem pod_effective_least_cover_witness:
  "fits_within (pod_effective demo_pod container_requests) (r_new 4 0 0 0) \<and>
   \<not> fits_within (pod_effective demo_pod container_requests) (r_new 3 0 0 0)"
proof -
  have side: "is_sidecar (demo_container q (Some ''Always''))" "\<not> is_sidecar (demo_container q None)" for q
    by (simp_all add: is_sidecar_def demo_container_def)
  have sums: "r_saturating_add (r_new 1 0 0 0) ZERO = r_new 1 0 0 0"
    "r_saturating_add (r_new 1 0 0 0) (r_new 1 0 0 0) = r_new 2 0 0 0"
    "r_saturating_add (r_new 3 0 0 0) (r_new 1 0 0 0) = r_new 4 0 0 0"
    by (simp_all add: r_saturating_add_def r_map2_def sat_add_def r_new_def ZERO_def)
  have split: "(\<forall>pre c post. [a, b] = pre @ c # post \<longrightarrow> P pre c) \<longleftrightarrow> P [] a \<and> P [a] b"
    for a b and P :: "container list \<Rightarrow> container \<Rightarrow> bool"
    unfolding all_splits_Cons by simp
  have init: "or_default (ps_init_containers demo_pod) [] =
      [demo_container ''1m'' (Some ''Always''), demo_container ''3m'' None]"
    and cs: "ps_containers demo_pod = [demo_container ''1m'' None]"
    by (simp_all add: demo_pod_def)
  show ?thesis
    unfolding pod_effective_least_cover [of demo_pod container_requests] init cs split
    by (simp add: side sum_of_Cons demo_container_cpu sums) (simp add: fits_within_def r_new_def)
qed

end
