(* ===== verification/Qos_Beacon.thy ===== *)
theory Qos_Beacon
  imports Qos_Units
begin

text \<open>
  The status record a run publishes on its ledger lease, \<open>src/src/qos/beacon.rs\<close>. Durations are
  nanoseconds. The JSON text of the record is produced and read by \<open>serde_json\<close>, which is not
  part of the sources: \<open>to_json\<close> and \<open>from_json\<close> are parameters of \<open>annotations\<close> and \<open>decode\<close>.
  \<open>Utc::now()\<close> is an argument. The lemmas show what survives the round trip through a lease,
  and that the truncated list still yields the exact overflow row.
\<close>

definition ANN_RESERVE_CPU :: string where "ANN_RESERVE_CPU = ''ztest.io/reserve-cpu-milli''"
definition ANN_RESERVE_MEM :: string where "ANN_RESERVE_MEM = ''ztest.io/reserve-mem-bytes''"
definition ANN_KIND :: string where "ANN_KIND = ''ztest.io/kind''"
definition ANN_BEACON :: string where "ANN_BEACON = ''ztest.io/beacon''"
definition LABEL_RUN_ID :: string where "LABEL_RUN_ID = ''ztest.io/run-id''"
definition LABEL_USER :: string where "LABEL_USER = ''ztest.io/user''"
definition MAX_RUNNING :: nat where "MAX_RUNNING = 8"

lemmas ann_defs = ANN_RESERVE_CPU_def ANN_RESERVE_MEM_def ANN_KIND_def ANN_BEACON_def

type_synonym duration = nat

abbreviation secs :: "nat \<Rightarrow> duration" where "secs n \<equiv> n * 1000000000"

definition quantize :: "duration \<Rightarrow> duration" where
  "quantize d =
     (let step = (if d < secs 3600 then 60 else 900); s = d div 1000000000
      in if s = 0 then 0 else secs (max ((s + step div 2) div step) 1 * step))"

datatype lease_kind = Run | Build | SyncLease | Claim

definition kind_as_str :: "lease_kind \<Rightarrow> string" where
  "kind_as_str k = (case k of Run \<Rightarrow> ''run'' | Build \<Rightarrow> ''build'' | SyncLease \<Rightarrow> ''sync'' | Claim \<Rightarrow> ''claim'')"

definition kind_parse :: "string \<Rightarrow> lease_kind" where
  "kind_parse s = (if s = ''build'' then Build else if s = ''sync'' then SyncLease
     else if s = ''claim'' then Claim else Run)"

record running_test =
  rt_name :: string
  rt_footprint :: resources
  rt_started_at :: instant

record beacon =
  b_run_id :: string
  b_user :: string
  b_kind :: lease_kind
  b_reserve :: resources
  b_started_at :: instant
  b_total :: u32
  b_queued :: u32
  b_failed :: u32
  b_running :: "running_test list"
  b_running_count :: u32
  b_running_footprint :: resources
  b_needs :: "resources option"
  b_eta_override :: "duration option"

record progress =
  pr_total :: u32
  pr_queued :: u32
  pr_failed :: u32
  pr_running :: "running_test list"
  pr_eta_override :: "duration option"

definition beacon_new :: "instant \<Rightarrow> string \<Rightarrow> string \<Rightarrow> lease_kind \<Rightarrow> resources \<Rightarrow> beacon" where
  "beacon_new now run_id user kind reserve =
     \<lparr>b_run_id = run_id, b_user = user, b_kind = kind, b_reserve = reserve, b_started_at = now,
      b_total = 0, b_queued = 0, b_failed = 0, b_running = [], b_running_count = 0,
      b_running_footprint = ZERO, b_needs = None, b_eta_override = None\<rparr>"

definition beacon_default :: "instant \<Rightarrow> beacon" where
  "beacon_default now = beacon_new now '''' ''?'' Run ZERO"

definition sum_running :: "running_test list \<Rightarrow> resources" where
  "sum_running rs = foldl (\<lambda>a t. r_saturating_add a (rt_footprint t)) ZERO rs"

definition beacon_apply :: "progress \<Rightarrow> beacon \<Rightarrow> beacon" where
  "beacon_apply p b = b\<lparr>b_total := pr_total p, b_queued := pr_queued p, b_failed := pr_failed p,
     b_eta_override := pr_eta_override p, b_running_count := of_nat (length (pr_running p)),
     b_running_footprint := sum_running (pr_running p), b_running := pr_running p\<rparr>"

definition completed :: "beacon \<Rightarrow> u32" where
  "completed b = sat_sub (sat_sub (b_total b) (b_queued b)) (b_running_count b)"

definition elided :: "beacon \<Rightarrow> (u32 \<times> resources) option" where
  "elided b =
     (let n = sat_sub (b_running_count b) (of_nat (length (b_running b)))
      in if n > 0 then Some (n, r_saturating_sub (b_running_footprint b) (sum_running (b_running b)))
         else None)"

text \<open>The outer \<open>None\<close> is a panic: the \<open>u32\<close> addition overflows, or \<open>from_secs_f64\<close> refuses.\<close>

definition eta :: "beacon \<Rightarrow> instant \<Rightarrow> duration option option" where
  "eta b now = (case b_eta_override b of
     Some d \<Rightarrow> Some (Some (quantize d))
   | None \<Rightarrow>
       if b_total b = 0 then Some None
       else (case chk_add (b_queued b) (b_running_count b) of
         None \<Rightarrow> None
       | Some remaining \<Rightarrow>
           if remaining = 0 then Some (Some 0)
           else if completed b = 0 then Some None
           else if now - b_started_at b < 0 then Some None
           else
             let per_test = f64_div_pos (as_secs_f64 (nat (now - b_started_at b)))
                              (of_nat (unat (completed b)))
             in map_option (\<lambda>d. Some (quantize d))
                  (from_secs_f64 (f64_mul per_test (Fin (of_nat (unat remaining)))))))"

definition wire :: "beacon \<Rightarrow> beacon" where
  "wire b = b\<lparr>b_running := take (min (length (b_running b)) MAX_RUNNING) (b_running b)\<rparr>"

definition annotations :: "(beacon \<Rightarrow> string) \<Rightarrow> beacon \<Rightarrow> str_map" where
  "annotations to_json b =
     [ANN_RESERVE_CPU \<mapsto> show_u64 (cpu_milli (b_reserve b)),
      ANN_RESERVE_MEM \<mapsto> show_u64 (mem_bytes (b_reserve b)),
      ANN_KIND \<mapsto> kind_as_str (b_kind b),
      ANN_BEACON \<mapsto> to_json (wire b)]"

definition kind_of :: "k8s_lease \<Rightarrow> lease_kind" where
  "kind_of l = or_default
     (map_option kind_parse (Option.bind (m_annotations (le_meta l)) (\<lambda>a. a ANN_KIND))) Run"

definition ann_num :: "str_map \<Rightarrow> string \<Rightarrow> u64" where
  "ann_num ann k = or_default (Option.bind (ann k) (\<lambda>s. parse_u64 (trim s))) 0"

definition decode :: "(string \<Rightarrow> beacon option) \<Rightarrow> instant \<Rightarrow> k8s_lease \<Rightarrow> beacon option" where
  "decode from_json now l =
     Option.bind (m_name (le_meta l)) (\<lambda>run_id.
     Option.bind (m_annotations (le_meta l)) (\<lambda>ann.
     Option.bind
       (case Option.bind (ann ANN_BEACON) from_json of
          Some b \<Rightarrow> Some b
        | None \<Rightarrow> map_option (\<lambda>t. (beacon_default now)\<lparr>
              b_kind := or_default (map_option kind_parse (ann ANN_KIND)) Run,
              b_reserve := r_new (ann_num ann ANN_RESERVE_CPU) (ann_num ann ANN_RESERVE_MEM) 0 0,
              b_started_at := t\<rparr>) (m_creation (le_meta l)))
       (\<lambda>b. Some (b\<lparr>b_run_id := run_id,
          b_user := or_default (Option.bind (m_labels (le_meta l)) (\<lambda>m. m LABEL_USER)) ''?'',
          b_reserve := r_new (ann_num ann ANN_RESERVE_CPU) (ann_num ann ANN_RESERVE_MEM) 0 0\<rparr>))))"

section \<open>Facts\<close>

lemma kind_roundtrip [simp]: "kind_parse (kind_as_str k) = k"
  by (cases k) (simp_all add: kind_parse_def kind_as_str_def)

lemma annotations_simps [simp]:
  "annotations to_json b ANN_RESERVE_CPU = Some (show_u64 (cpu_milli (b_reserve b)))"
  "annotations to_json b ANN_RESERVE_MEM = Some (show_u64 (mem_bytes (b_reserve b)))"
  "annotations to_json b ANN_KIND = Some (kind_as_str (b_kind b))"
  "annotations to_json b ANN_BEACON = Some (to_json (wire b))"
  by (simp_all add: annotations_def ann_defs)

lemma ann_num_annotations [simp]:
  "ann_num (annotations to_json b) ANN_RESERVE_CPU = cpu_milli (b_reserve b)"
  "ann_num (annotations to_json b) ANN_RESERVE_MEM = mem_bytes (b_reserve b)"
  by (simp_all add: ann_num_def parse_show_u64)

lemma sum_running_append:
  "sum_running (xs @ ys) = r_saturating_add (sum_running xs) (sum_running ys)"
proof -
  have s: "sum_running zs = foldl r_saturating_add ZERO (map rt_footprint zs)" for zs
    by (simp add: sum_running_def foldl_map)
  show ?thesis unfolding s map_append by (rule res.foldl_add_append)
qed

text \<open>
  The overflow row is exact from a truncated list. After \<open>apply\<close>, the copy written to the
  lease (at most eight running tests) reports as elided exactly the number of tests beyond
  the list, and their footprints' sum in every dimension where the total did not saturate.
\<close>

theorem elided_row_exact:
  assumes "length (pr_running p) > MAX_RUNNING" and "length (pr_running p) < 2 ^ 32"
  shows "\<exists>rest. elided (wire (beacon_apply p b)) =
      Some (of_nat (length (pr_running p) - MAX_RUNNING), rest) \<and>
    (\<forall>d. amount (sum_running (pr_running p)) d < u64_max \<longrightarrow>
       amount rest d = amount (sum_running (drop MAX_RUNNING (pr_running p))) d)"
proof -
  let ?rs = "pr_running p" and ?w = "wire (beacon_apply p b)"
  let ?rest = "r_saturating_sub (sum_running ?rs) (sum_running (take MAX_RUNNING ?rs))"
  have w: "b_running ?w = take MAX_RUNNING ?rs" "b_running_count ?w = of_nat (length ?rs)"
    "b_running_footprint ?w = sum_running ?rs"
    using assms(1) by (simp_all add: wire_def beacon_apply_def)
  have l: "length (take MAX_RUNNING ?rs) = MAX_RUNNING" using assms(1) by simp
  have le: "(of_nat MAX_RUNNING :: u32) \<le> of_nat (length ?rs)"
    using assms by (simp add: word_le_nat_alt unat_of_nat MAX_RUNNING_def)
  have n: "sat_sub (of_nat (length ?rs) :: u32) (of_nat MAX_RUNNING) = of_nat (length ?rs - MAX_RUNNING)"
    using le assms(1) by (simp add: sat_sub_def of_nat_diff)
  have nz: "(of_nat k :: u32) \<noteq> 0" if "0 < k" "k < 2 ^ 32" for k
  proof
    assume z: "(of_nat k :: u32) = 0"
    have "unat (of_nat k :: u32) = k" using that by (simp add: unat_of_nat)
    with z that show False by (metis less_numeral_extra(3) unat_0)
  qed
  have "(of_nat (length ?rs - MAX_RUNNING) :: u32) \<noteq> 0"
    by (rule nz) (use assms in simp_all)
  then have "elided ?w = Some (of_nat (length ?rs - MAX_RUNNING), ?rest)"
    unfolding elided_def Let_def w l n by (simp only: word_neq_0_conv if_True)
  moreover have "amount ?rest d = amount (sum_running (drop MAX_RUNNING ?rs)) d"
    if "amount (sum_running ?rs) d < u64_max" for d
  proof -
    have "sum_running ?rs = r_saturating_add (sum_running (take MAX_RUNNING ?rs))
        (sum_running (drop MAX_RUNNING ?rs))"
      by (metis append_take_drop_id sum_running_append)
    with that show ?thesis by (auto simp: amount_sat_sub amount_sat_add)
  qed
  ultimately show ?thesis by blast
qed

definition demo_running :: "running_test list" where
  "demo_running = replicate 9 \<lparr>rt_name = ''t'', rt_footprint = r_new 1000 1 0 0, rt_started_at = 0\<rparr>"

theorem elided_row_exact_witness:
  "\<exists>rest. elided (wire (beacon_apply \<lparr>pr_total = 9, pr_queued = 0, pr_failed = 0,
       pr_running = demo_running, pr_eta_override = None\<rparr> (beacon_default 0))) = Some (1, rest)"
  using elided_row_exact [of "\<lparr>pr_total = 9, pr_queued = 0, pr_failed = 0,
       pr_running = demo_running, pr_eta_override = None\<rparr>" "beacon_default 0"]
  by (auto simp: demo_running_def MAX_RUNNING_def)

text \<open>
  A quantized estimate steps: it is a whole number of steps (a minute below an hour, a
  quarter of an hour from there), it is zero only for a duration under one second, and it is
  off by at most half a step, or by less than one step when it was raised to the first.
\<close>

theorem quantize_steps:
  "let step = (if d < secs 3600 then 60 else 900); s = d div 1000000000; q = quantize d in
     q mod secs step = 0 \<and> (q = 0 \<longleftrightarrow> s = 0) \<and>
     (q = 0 \<or> q = secs step \<and> s < step \<or> 2 * (q div 1000000000) \<le> 2 * s + step \<and> 2 * s < 2 * (q div 1000000000) + step)"
proof -
  define step s where "step = (if d < secs 3600 then 60 else 900 :: nat)" and "s = d div 1000000000"
  define k where "k = (s + step div 2) div step"
  have st: "step = 60 \<or> step = 900" by (simp add: step_def)
  have q: "quantize d = (if s = 0 then 0 else secs (max k 1 * step))"
    unfolding quantize_def Let_def step_def s_def k_def by (rule refl)
  have k: "k * step \<le> s + step div 2" "s + step div 2 < k * step + step"
    unfolding k_def using st by (auto simp: div_times_less_eq_dividend dividend_less_div_times)
  have "secs (m * step) mod secs step = 0" for m by simp
  moreover have "2 * (step div 2) = step" using st by auto
  ultimately show ?thesis
    unfolding Let_def step_def [symmetric] s_def [symmetric] q
    using k st by (cases "k = 0") (auto simp: max_def)
qed


definition demo_beacon :: beacon where
  "demo_beacon = beacon_new 5 ''r1'' ''ada'' Build (r_new 1000 7 0 0)"

definition demo_beacon_lease :: k8s_lease where
  "demo_beacon_lease = \<lparr>le_meta = \<lparr>m_name = Some ''r1'', m_namespace = None,
     m_labels = Some [LABEL_USER \<mapsto> ''ada''],
     m_annotations = Some (annotations (\<lambda>_. ''{}'') demo_beacon), m_creation = None,
     m_deletion = None, m_finalizers = None\<rparr>, le_spec = None\<rparr>"


end
