(* ===== verification/Qos_Ledger.thy ===== *)
theory Qos_Ledger
  imports Qos_Beacon
begin

text \<open>
  The clusterless part of the cross-run reservation ledger, \<open>src/src/qos/ledger.rs\<close>: budgets,
  the usage split over pods and leases, the fair-share policy, expiry and the lease object.
  A listing returned by the API server is a list of objects. Instants and durations are
  nanoseconds. The protocol that runs on top is in \<open>Qos_Reservation\<close>.
\<close>

section \<open>Constants and budgets\<close>

definition META_NAMESPACE :: string where "META_NAMESPACE = ''ztest-meta''"
definition ANN_BUDGET_CPU :: string where "ANN_BUDGET_CPU = ''ztest.io/budget-cpu-milli''"
definition ANN_BUDGET_MEM :: string where "ANN_BUDGET_MEM = ''ztest.io/budget-mem-bytes''"
definition LEASE_DURATION_SECS :: int where "LEASE_DURATION_SECS = 60"
definition RECONCILE_INTERVAL :: duration where "RECONCILE_INTERVAL = secs 2"
definition RENEW_INTERVAL :: duration where "RENEW_INTERVAL = secs (nat LEASE_DURATION_SECS div 3)"
definition ACQUIRE_WAIT_TIMEOUT :: duration where "ACQUIRE_WAIT_TIMEOUT = secs 600"
definition ACQUIRE_POLL :: duration where "ACQUIRE_POLL = secs 3"

definition default_budget :: "resources \<Rightarrow> resources" where
  "default_budget allocatable = cpu_mem_unbounded_rest (cpu_milli allocatable) (mem_bytes allocatable)"

definition min_viable :: resources where "min_viable = default_footprint"

definition ledger_parse_u64 :: "string \<Rightarrow> u64 option" where
  "ledger_parse_u64 s = parse_u64 (trim s)"

definition budget_from_annotations :: "str_map option \<Rightarrow> resources \<Rightarrow> resources" where
  "budget_from_annotations ann dflt =
     (let cpu = Option.bind (Option.bind ann (\<lambda>a. a ANN_BUDGET_CPU)) ledger_parse_u64;
          mem = Option.bind (Option.bind ann (\<lambda>a. a ANN_BUDGET_MEM)) ledger_parse_u64
      in case (cpu, mem) of
           (Some c, Some m) \<Rightarrow> cpu_mem_unbounded_rest c m
         | _ \<Rightarrow> dflt)"

section \<open>Leases and pods\<close>

definition reservation_of :: "k8s_lease \<Rightarrow> resources" where
  "reservation_of l =
     (let ann = m_annotations (le_meta l);
          cpu = or_default (Option.bind (Option.bind ann (\<lambda>a. a ANN_RESERVE_CPU)) ledger_parse_u64) 0;
          mem = or_default (Option.bind (Option.bind ann (\<lambda>a. a ANN_RESERVE_MEM)) ledger_parse_u64) 0
      in r_new cpu mem 0 0)"

definition sum_reservations :: "k8s_lease list \<Rightarrow> string \<Rightarrow> resources" where
  "sum_reservations leases exclude =
     foldl (\<lambda>acc l. r_saturating_add acc (reservation_of l)) ZERO
       (filter (\<lambda>l. m_name (le_meta l) \<noteq> Some exclude) leases)"

definition run_id_of :: "pod \<Rightarrow> string option" where
  "run_id_of p = Option.bind (m_labels (pod_meta p)) (\<lambda>l. l LABEL_RUN_ID)"

definition pod_footprint :: "pod \<Rightarrow> resources" where
  "pod_footprint p = or_default (map_option pod_effective_request (pod_spec p)) ZERO"

definition leased_names :: "k8s_lease list \<Rightarrow> string list" where
  "leased_names leases = List.map_filter (\<lambda>l. m_name (le_meta l)) leases"

definition covering_run :: "string list \<Rightarrow> pod \<Rightarrow> string option" where
  "covering_run leased p = (case run_id_of p of
     Some r \<Rightarrow> if r \<in> set leased then Some r else None
   | None \<Rightarrow> None)"

fun split_loop ::
  "string list \<Rightarrow> pod list \<Rightarrow> resources \<Rightarrow> (string \<times> resources) list \<Rightarrow>
   resources \<times> (string \<times> resources) list" where
  "split_loop leased [] unreserved by_run = (unreserved, by_run)"
| "split_loop leased (p # ps) unreserved by_run =
     (case covering_run leased p of
        Some run \<Rightarrow> split_loop leased ps unreserved
          (AList.update run
             (r_saturating_add (or_default (map_of by_run run) ZERO) (pod_footprint p)) by_run)
      | None \<Rightarrow> split_loop leased ps (r_saturating_add unreserved (pod_footprint p)) by_run)"

definition split_usage ::
  "pod list \<Rightarrow> k8s_lease list \<Rightarrow> resources \<times> (string \<times> resources) list" where
  "split_usage pods leases =
     split_loop (leased_names leases) (filter pod_holds_capacity pods) ZERO []"

text \<open>\<open>False\<close> is the panic. Collecting into the map lets the last lease of a name win.\<close>

definition assert_invariant :: "k8s_lease list \<Rightarrow> pod list \<Rightarrow> bool" where
  "assert_invariant leases pods =
     (let reserved = List.map_filter
            (\<lambda>l. map_option (\<lambda>n. (n, reservation_of l)) (m_name (le_meta l))) leases
      in list_all (\<lambda>(run, usage). fits_within usage (or_default (map_of (rev reserved) run) ZERO))
           (snd (split_usage pods leases)))"

section \<open>The fair-share policy\<close>

definition fair_reserve ::
  "resources \<Rightarrow> resources \<Rightarrow> resources \<Rightarrow> u64 \<Rightarrow> resources \<Rightarrow> resources \<Rightarrow> resources \<Rightarrow> resources" where
  "fair_reserve allocatable non_ztest others active_runs budget committed demand =
     (let n = max active_runs 1;
          usable = r_saturating_sub allocatable non_ztest;
          fair = r_new (cpu_milli usable div n) (mem_bytes usable div n)
                       (disk_bps usable div n) (disk_iops usable div n);
          want = r_min (r_min demand fair) budget;
          headroom = r_saturating_sub usable others
      in r_max (r_min want headroom) committed)"

definition reserve_from_state ::
  "k8s_lease list \<Rightarrow> pod list \<Rightarrow> string \<Rightarrow> resources \<Rightarrow> resources \<Rightarrow> resources \<Rightarrow> resources \<Rightarrow>
   resources" where
  "reserve_from_state leases pods run_id allocatable budget committed demand =
     (let others = sum_reservations leases run_id;
          unreserved = fst (split_usage pods leases);
          active_runs = of_nat (length (filter (\<lambda>l. kind_of l \<noteq> Claim) leases))
      in fair_reserve allocatable unreserved others active_runs budget committed demand)"

section \<open>Expiry and the lease object\<close>

definition is_expired :: "k8s_lease \<Rightarrow> instant \<Rightarrow> bool" where
  "is_expired l now = (case le_spec l of
     None \<Rightarrow> False
   | Some spec \<Rightarrow> (case (ls_renew_time spec, ls_duration_secs spec) of
       (Some renew, Some dur) \<Rightarrow> renew + dur * 1000000000 < now
     | _ \<Rightarrow> False))"

definition lease_object ::
  "(beacon \<Rightarrow> string) \<Rightarrow> instant \<Rightarrow> string \<Rightarrow> string \<Rightarrow> string \<Rightarrow> beacon \<Rightarrow> k8s_lease" where
  "lease_object to_json now run_id user holder b =
     \<lparr>le_meta = \<lparr>m_name = Some run_id, m_namespace = Some META_NAMESPACE,
        m_labels = Some [LABEL_RUN_ID \<mapsto> run_id, LABEL_USER \<mapsto> user],
        m_annotations = Some (annotations to_json b), m_creation = None, m_deletion = None,
        m_finalizers = None\<rparr>,
      le_spec = Some \<lparr>ls_holder = Some holder, ls_duration_secs = Some LEASE_DURATION_SECS,
        ls_renew_time = Some now\<rparr>\<rparr>"

section \<open>The usage split\<close>

definition total :: "resources list \<Rightarrow> resources" where
  "total rs = foldl r_saturating_add ZERO rs"

lemma total_simps [simp]: "total [] = ZERO" "total (r # rs) = r_saturating_add r (total rs)"
  unfolding total_def using res.foldl_add_Cons by simp_all

lemmas r_add_ac = res.add_commute res.add_assoc res.add_zero

lemma r_add_zero_right [simp]: "r_saturating_add r ZERO = r"
  by (metis res.add_commute res.add_zero)

lemma r_add_left_commute:
  "r_saturating_add a (r_saturating_add b c) = r_saturating_add b (r_saturating_add a c)"
  by (metis res.add_assoc res.add_commute)

definition usage_where :: "(pod \<Rightarrow> bool) \<Rightarrow> pod list \<Rightarrow> resources" where
  "usage_where P ps = total (map pod_footprint (filter P ps))"

lemma usage_where_simps [simp]:
  "usage_where P [] = ZERO"
  "usage_where P (p # ps) = (if P p then r_saturating_add (pod_footprint p) (usage_where P ps)
     else usage_where P ps)"
  by (simp_all add: usage_where_def)

lemma total_update:
  "distinct (map fst m) \<Longrightarrow>
   total (map snd (AList.update k (r_saturating_add (or_default (map_of m k) ZERO) x) m)) =
     r_saturating_add (total (map snd m)) x"
proof (induction m)
  case Nil
  then show ?case by (simp add: res.add_zero)
next
  case (Cons kv m)
  then show ?case
    by (cases kv) (auto simp: res.add_assoc r_add_left_commute res.add_commute)
qed

lemma split_loop_total:
  "distinct (map fst m) \<Longrightarrow> split_loop leased ps u m = (u', m') \<Longrightarrow>
   distinct (map fst m') \<and>
   r_saturating_add u' (total (map snd m')) =
     r_saturating_add (r_saturating_add u (total (map snd m))) (total (map pod_footprint ps))"
proof (induction leased ps u m rule: split_loop.induct)
  case (2 leased p ps u m)
  show ?case
  proof (cases "covering_run leased p")
    case None
    with 2 show ?thesis by (simp add: res.add_assoc r_add_left_commute res.add_commute)
  next
    case (Some run)
    with 2 show ?thesis
      by (simp add: total_update AList.distinct_update res.add_assoc)
  qed
qed simp

lemma split_loop_unreserved:
  "fst (split_loop leased ps u m) =
     r_saturating_add u (usage_where (\<lambda>p. covering_run leased p = None) ps)"
  by (induction leased ps u m rule: split_loop.induct) (auto simp: res.add_assoc split: option.splits)

lemma split_loop_by_run:
  "map_of (snd (split_loop leased ps u m)) r =
     (if \<exists>p\<in>set ps. covering_run leased p = Some r
      then Some (r_saturating_add (or_default (map_of m r) ZERO)
                   (usage_where (\<lambda>p. covering_run leased p = Some r) ps))
      else map_of m r)"
proof (induction leased ps u m rule: split_loop.induct)
  case (2 leased p ps u m)
  show ?case
  proof (cases "covering_run leased p")
    case None
    then show ?thesis using 2 by simp
  next
    case (Some run)
    then show ?thesis
      using 2 by (auto simp: AList.update_conv' res.add_assoc usage_where_def)
  qed
qed simp

lemma usage_where_filter: "usage_where P (filter Q ps) = usage_where (\<lambda>p. Q p \<and> P p) ps"
  by (simp add: usage_where_def conj_commute)

lemma usage_where_none: "(\<And>p. p \<in> set ps \<Longrightarrow> \<not> P p) \<Longrightarrow> usage_where P ps = ZERO"
  by (simp add: usage_where_def)

lemma set_leased_names: "n \<in> set (leased_names ls) \<longleftrightarrow> (\<exists>l\<in>set ls. m_name (le_meta l) = Some n)"
  by (force simp: leased_names_def List.map_filter_def)

lemma covering_run_Some:
  "covering_run leased p = Some r \<longleftrightarrow> run_id_of p = Some r \<and> r \<in> set leased"
  by (auto simp: covering_run_def split: option.splits)

lemma split_usage_unreserved:
  "fst (split_usage pods ls) =
     usage_where (\<lambda>p. pod_holds_capacity p \<and> covering_run (leased_names ls) p = None) pods"
  by (simp add: split_usage_def split_loop_unreserved usage_where_filter res.add_zero)

lemma split_usage_by_run:
  "map_of (snd (split_usage pods ls)) r =
     (if \<exists>p\<in>set pods. pod_holds_capacity p \<and> covering_run (leased_names ls) p = Some r
      then Some (usage_where (\<lambda>p. pod_holds_capacity p \<and> covering_run (leased_names ls) p = Some r) pods)
      else None)"
  unfolding split_usage_def split_loop_by_run by (auto simp: usage_where_filter res.add_zero)

lemma split_usage_lookup:
  "map_of (snd (split_usage pods ls)) r =
     (if (\<exists>l\<in>set ls. m_name (le_meta l) = Some r) \<and>
         (\<exists>p\<in>set pods. pod_holds_capacity p \<and> run_id_of p = Some r)
      then Some (usage_where (\<lambda>p. pod_holds_capacity p \<and> run_id_of p = Some r) pods)
      else None)"
  unfolding split_usage_by_run covering_run_Some set_leased_names
  by (cases "\<exists>l\<in>set ls. m_name (le_meta l) = Some r") simp_all

lemma split_usage_distinct: "distinct (map fst (snd (split_usage pods ls)))"
  using split_loop_total [of "[]" "leased_names ls" "filter pod_holds_capacity pods" ZERO]
  by (cases "split_usage pods ls") (auto simp: split_usage_def)

text \<open>
  The usage split is a partition of what the pods hold. Every pod in a live phase is
  charged exactly once: to its run when a lease of that name exists, to nobody otherwise
  (no run label, or a run whose lease is gone); finished pods are not charged, and the parts
  add up to the whole.
\<close>

theorem split_usage_partition:
  "let unreserved = fst (split_usage pods ls); by_run = snd (split_usage pods ls) in
     unreserved = usage_where (\<lambda>p. pod_holds_capacity p \<and>
        (\<forall>l\<in>set ls. m_name (le_meta l) = None \<or> m_name (le_meta l) \<noteq> run_id_of p)) pods \<and>
     (\<forall>r. map_of by_run r =
        (if (\<exists>l\<in>set ls. m_name (le_meta l) = Some r) \<and>
            (\<exists>p\<in>set pods. pod_holds_capacity p \<and> run_id_of p = Some r)
         then Some (usage_where (\<lambda>p. pod_holds_capacity p \<and> run_id_of p = Some r) pods)
         else None)) \<and>
     r_saturating_add unreserved (total (map snd by_run)) = usage_where pod_holds_capacity pods"
proof -
  have cov: "covering_run (leased_names ls) p = None \<longleftrightarrow>
      (\<forall>l\<in>set ls. m_name (le_meta l) = None \<or> m_name (le_meta l) \<noteq> run_id_of p)" for p
    by (cases "run_id_of p") (auto simp: covering_run_def set_leased_names)
  have "r_saturating_add (fst (split_usage pods ls)) (total (map snd (snd (split_usage pods ls)))) =
      usage_where pod_holds_capacity pods"
    using split_loop_total [of "[]" "leased_names ls" "filter pod_holds_capacity pods" ZERO]
    by (cases "split_usage pods ls") (auto simp: split_usage_def usage_where_def res.add_zero)
  then show ?thesis unfolding Let_def split_usage_unreserved cov split_usage_lookup by blast
qed

lemma map_of_reserved:
  assumes "distinct (leased_names ls)" and "l \<in> set ls" and "m_name (le_meta l) = Some n"
  shows "map_of (rev (List.map_filter
     (\<lambda>l. map_option (\<lambda>n. (n, reservation_of l)) (m_name (le_meta l))) ls)) n = Some (reservation_of l)"
    (is "map_of (rev ?kv) n = _")
proof -
  have keys: "map fst ?kv = leased_names ls"
    by (induction ls) (auto simp: leased_names_def List.map_filter_simps split: option.splits)
  have "(n, reservation_of l) \<in> set ?kv"
    using assms(2,3) by (force simp: List.map_filter_def)
  moreover have "distinct (map fst (rev ?kv))" using assms(1) keys by (simp add: rev_map [symmetric])
  ultimately show ?thesis by (simp add: map_of_eq_Some_iff)
qed

text \<open>
  The invariant check panics exactly on a leased run over its reservation. With lease names
  distinct, as names are in a namespace, it passes iff the live pods labelled with each
  lease's name together fit what that lease reserves.
\<close>

theorem assert_invariant_iff:
  assumes "distinct (leased_names ls)"
  shows "assert_invariant ls pods \<longleftrightarrow> (\<forall>l\<in>set ls. \<forall>n. m_name (le_meta l) = Some n \<longrightarrow>
    fits_within (usage_where (\<lambda>p. pod_holds_capacity p \<and> run_id_of p = Some n) pods) (reservation_of l))"
    (is "_ \<longleftrightarrow> (\<forall>l\<in>set ls. \<forall>n. _ \<longrightarrow> fits_within (?use n) _)")
proof -
  let ?res = "List.map_filter
      (\<lambda>l. map_option (\<lambda>n. (n, reservation_of l)) (m_name (le_meta l))) ls"
  let ?by = "snd (split_usage pods ls)"
  have "assert_invariant ls pods \<longleftrightarrow>
      (\<forall>n u. map_of ?by n = Some u \<longrightarrow> fits_within u (or_default (map_of (rev ?res) n) ZERO))"
    unfolding assert_invariant_def Let_def list_all_iff
    using split_usage_distinct [of pods ls] by (auto simp: map_of_eq_Some_iff)
  also have "\<dots> \<longleftrightarrow> (\<forall>l\<in>set ls. \<forall>n. m_name (le_meta l) = Some n \<longrightarrow> fits_within (?use n) (reservation_of l))"
  proof (intro iffI ballI allI impI)
    fix l n
    assume a: "\<forall>n u. map_of ?by n = Some u \<longrightarrow> fits_within u (or_default (map_of (rev ?res) n) ZERO)"
      and l: "l \<in> set ls" "m_name (le_meta l) = Some n"
    note r = map_of_reserved [OF assms l]
    show "fits_within (?use n) (reservation_of l)"
    proof (cases "\<exists>p\<in>set pods. pod_holds_capacity p \<and> run_id_of p = Some n")
      case True
      then have "map_of ?by n = Some (?use n)"
        using l by (auto simp: split_usage_lookup)
      with a r show ?thesis by fastforce
    next
      case False
      then have "?use n = ZERO" by (intro usage_where_none) blast
      then show ?thesis by (simp add: res.zero_fits)
    qed
  next
    fix n u
    assume b: "\<forall>l\<in>set ls. \<forall>n. m_name (le_meta l) = Some n \<longrightarrow> fits_within (?use n) (reservation_of l)"
      and "map_of ?by n = Some u"
    then obtain l where l: "l \<in> set ls" "m_name (le_meta l) = Some n" and "u = ?use n"
      by (auto simp: split_usage_lookup split: if_splits)
    with b show "fits_within u (or_default (map_of (rev ?res) n) ZERO)"
      by (simp add: map_of_reserved [OF assms l])
  qed
  finally show ?thesis .
qed

definition demo_ledger_lease :: "u64 \<Rightarrow> k8s_lease" where
  "demo_ledger_lease c = \<lparr>le_meta = \<lparr>m_name = Some ''r1'', m_namespace = None, m_labels = None,
     m_annotations = Some [ANN_RESERVE_CPU \<mapsto> show_u64 c, ANN_RESERVE_MEM \<mapsto> show_u64 (0 :: u64)],
     m_creation = None, m_deletion = None, m_finalizers = None\<rparr>, le_spec = None\<rparr>"

definition demo_ledger_pod :: pod where
  "demo_ledger_pod = \<lparr>pod_meta = \<lparr>m_name = Some ''p'', m_namespace = None,
     m_labels = Some [LABEL_RUN_ID \<mapsto> ''r1''], m_annotations = None, m_creation = None,
     m_deletion = None, m_finalizers = None\<rparr>,
     pod_spec = Some \<lparr>ps_containers = [demo_container ''3m'' None], ps_init_containers = None\<rparr>,
     pod_phase = Some ''Running''\<rparr>"

lemma demo_ledger_lease_reservation [simp]: "reservation_of (demo_ledger_lease c) = r_new c 0 0 0"
  by (simp add: reservation_of_def demo_ledger_lease_def ledger_parse_u64_def parse_show_u64
      ANN_RESERVE_CPU_def ANN_RESERVE_MEM_def)

lemma demo_ledger_pod_footprint [simp]: "pod_footprint demo_ledger_pod = r_new 3 0 0 0"
  by (simp add: pod_footprint_def demo_ledger_pod_def pod_effective_request_def pod_effective_def
      demo_container_cpu res.add_zero Let_def)
    (simp add: r_max_def r_map2_def r_new_def ZERO_def)

theorem assert_invariant_iff_witness:
  "assert_invariant [demo_ledger_lease 4] [demo_ledger_pod] \<and>
   \<not> assert_invariant [demo_ledger_lease 2] [demo_ledger_pod]"
proof -
  have d: "distinct (leased_names [demo_ledger_lease m])" for m
    by (simp add: leased_names_def demo_ledger_lease_def List.map_filter_def)
  have n: "m_name (le_meta (demo_ledger_lease m)) = Some ''r1''" for m
    by (simp add: demo_ledger_lease_def)
  have p: "pod_holds_capacity demo_ledger_pod" "run_id_of demo_ledger_pod = Some ''r1''"
    by (simp_all add: demo_ledger_pod_def pod_holds_capacity_def run_id_of_def)
  show ?thesis
    using assert_invariant_iff [OF d, of 4 "[demo_ledger_pod]"]
      assert_invariant_iff [OF d, of 2 "[demo_ledger_pod]"]
    by (simp add: n p fits_within_def r_new_def)
qed

theorem split_usage_partition_witness:
  "fst (split_usage [demo_ledger_pod] [demo_ledger_lease 4]) = ZERO \<and>
   fst (split_usage [demo_ledger_pod] []) = r_new 3 0 0 0"
proof -
  have n: "m_name (le_meta (demo_ledger_lease m)) = Some ''r1''" for m
    by (simp add: demo_ledger_lease_def)
  have p: "pod_holds_capacity demo_ledger_pod" "run_id_of demo_ledger_pod = Some ''r1''"
    by (simp_all add: demo_ledger_pod_def pod_holds_capacity_def run_id_of_def)
  show ?thesis
    using split_usage_partition [of "[demo_ledger_pod]" "[demo_ledger_lease 4]"]
      split_usage_partition [of "[demo_ledger_pod]" "[]"]
    by (simp add: n p Let_def)
qed

section \<open>Fair shares\<close>

lemma amount_r_new [res_simps]:
  "amount (r_new c m b i) d =
     (case d of Cpu \<Rightarrow> unat c | Mem \<Rightarrow> unat m | Bps \<Rightarrow> unat b | Iops \<Rightarrow> unat i | Disk \<Rightarrow> 0)"
  by (cases d) (simp_all add: r_new_def)

lemma fair_usable:
  "unat (cpu_milli (r_saturating_sub a b)) = unat (cpu_milli a) - unat (cpu_milli b)"
  "unat (mem_bytes (r_saturating_sub a b)) = unat (mem_bytes a) - unat (mem_bytes b)"
  "unat (disk_bps (r_saturating_sub a b)) = unat (disk_bps a) - unat (disk_bps b)"
  "unat (disk_iops (r_saturating_sub a b)) = unat (disk_iops a) - unat (disk_iops b)"
  by (simp_all add: r_saturating_sub_def r_map2_def word_unat)

lemma amount_fair_reserve:
  "amount (fair_reserve allocatable non_ztest others active_runs budget committed demand) d =
     max (amount committed d)
       (if d = Disk then 0
        else min (min (min (amount demand d)
                   ((amount allocatable d - amount non_ztest d) div max (unat active_runs) 1))
                 (amount budget d))
               (amount allocatable d - amount non_ztest d - amount others d))"
  unfolding fair_reserve_def Let_def amount_r_max amount_r_min amount_r_new amount_sat_sub
  by (cases d) (simp_all add: unat_div_distrib word_unat fair_usable max.commute)

text \<open>
  The fair-share policy, dimension by dimension. Outside scratch disk the reservation is the
  least of the demand, an equal share of what foreign pods leave, the budget and the headroom
  the other runs leave, raised to what already runs. So it never drops below the running
  tests, and together with the others it stays within what is usable unless it is exactly
  what already runs. In the scratch-disk dimension it is only ever what already runs.
\<close>

theorem fair_reserve_policy:
  "let usable = amount allocatable d - amount non_ztest d; n = max (unat active_runs) 1;
       r = amount (fair_reserve allocatable non_ztest others active_runs budget committed demand) d
   in r = max (amount committed d)
        (if d = Disk then 0
         else min (min (min (amount demand d) (usable div n)) (amount budget d))
                (usable - amount others d)) \<and>
      amount committed d \<le> r \<and>
      (r = amount committed d \<or> amount others d + r \<le> usable)"
proof -
  have b: "max c m = c \<or> x + max c m \<le> u" if "m \<le> u - x" for c m x u :: nat
    using that by linarith
  have "(if d = Disk then 0 else min m (u - x)) \<le> u - x" for m u x :: nat by simp
  note b [OF this, of "amount committed d"]
  then show ?thesis
    unfolding Let_def amount_fair_reserve by (intro conjI) (rule refl max.cobounded1 | assumption)+
qed

lemma sum_list_le_share:
  fixes xs :: "nat list"
  assumes "\<And>x. x \<in> set xs \<Longrightarrow> x \<le> u div n" and "length xs \<le> n"
  shows "sum_list xs \<le> u"
proof -
  have "sum_list xs \<le> length xs * (u div n)" using assms(1) by (induction xs) (auto intro: add_mono)
  also have "\<dots> \<le> n * (u div n)" using assms(2) by (rule mult_le_mono1)
  also have "\<dots> \<le> u" by (rule times_div_less_eq_dividend)
  finally show ?thesis .
qed

text \<open>
  Concurrent resizes do not overcommit. Let any number of runs, at most as many as each counts
  as active, compute their reservations at the same time, each from its own view of the
  others, its own budget and its own demand. If none already runs more than an equal share,
  their reservations add up to at most what foreign pods leave, in every dimension.
\<close>

theorem fair_shares_fit_together:
  fixes views :: "(resources \<times> resources \<times> resources \<times> resources) list"
  assumes "length views \<le> max (unat active_runs) 1"
    and "\<And>others budget committed demand. (others, budget, committed, demand) \<in> set views \<Longrightarrow>
      amount committed d \<le> (amount allocatable d - amount non_ztest d) div max (unat active_runs) 1"
  shows "sum_list (map (\<lambda>(others, budget, committed, demand).
      amount (fair_reserve allocatable non_ztest others active_runs budget committed demand) d) views)
    \<le> amount allocatable d - amount non_ztest d"
proof (rule sum_list_le_share)
  fix x
  assume "x \<in> set (map (\<lambda>(others, budget, committed, demand).
      amount (fair_reserve allocatable non_ztest others active_runs budget committed demand) d) views)"
  then obtain ot b c dm where v: "(ot, b, c, dm) \<in> set views"
    and x: "x = amount (fair_reserve allocatable non_ztest ot active_runs b c dm) d"
    by auto
  show "x \<le> (amount allocatable d - amount non_ztest d) div max (unat active_runs) 1"
    using assms(2) [OF v] by (simp add: x amount_fair_reserve min.coboundedI1)
qed (use assms(1) in simp)

theorem fair_shares_fit_together_witness:
  "amount (fair_reserve (r_new 9 0 0 0) (r_new 1 0 0 0) ZERO 2 (r_new 9 0 0 0) ZERO (r_new 9 0 0 0)) Cpu +
   amount (fair_reserve (r_new 9 0 0 0) (r_new 1 0 0 0) ZERO 2 (r_new 9 0 0 0) (r_new 4 0 0 0) ZERO) Cpu \<le> 8"
proof -
  let ?views = "[(ZERO, r_new 9 0 0 0, ZERO, r_new 9 0 0 0), (ZERO, r_new 9 0 0 0, r_new 4 0 0 0, ZERO)]"
  have sel: "cpu_milli (r_new c m b i) = c" "cpu_milli ZERO = 0" for c m b i
    by (simp_all add: r_new_def ZERO_def)
  have "amount committed Cpu \<le> (amount (r_new 9 0 0 0) Cpu - amount (r_new 1 0 0 0) Cpu) div max (unat (2 :: u64)) 1"
    if "(others, budget, committed, demand) \<in> set ?views" for others budget committed demand
    using that by (auto simp: sel numeral_2_eq_2 [symmetric])
  from fair_shares_fit_together [where views = ?views and active_runs = 2, OF _ this]
  show ?thesis by (simp add: sel)
qed

section \<open>Leases as written\<close>

lemma reservation_of_lease_object [simp]:
  "reservation_of (lease_object to_json now run_id user holder b) =
     r_new (cpu_milli (b_reserve b)) (mem_bytes (b_reserve b)) 0 0"
  by (simp add: reservation_of_def lease_object_def ledger_parse_u64_def parse_show_u64)

lemma kind_of_lease_object [simp]:
  "kind_of (lease_object to_json now run_id user holder b) = b_kind b"
  by (simp add: kind_of_def lease_object_def)

lemma name_of_lease_object [simp]:
  "m_name (le_meta (lease_object to_json now run_id user holder b)) = Some run_id"
  by (simp add: lease_object_def)

lemma decode_lease_object:
  assumes "from_json (to_json (wire b)) = Some (wire b)"
  shows "decode from_json now (lease_object to_json t run_id user holder b) =
    Some ((wire b)\<lparr>b_run_id := run_id, b_user := user,
       b_reserve := r_new (cpu_milli (b_reserve b)) (mem_bytes (b_reserve b)) 0 0\<rparr>)"
  using assms by (simp add: decode_def lease_object_def LABEL_USER_def LABEL_RUN_ID_def)

lemma is_expired_lease_object:
  "is_expired (lease_object to_json now run_id user holder b) later \<longleftrightarrow> now + 60000000000 < later"
  by (simp add: is_expired_def lease_object_def LEASE_DURATION_SECS_def)

text \<open>
  The lease outlives two missed heartbeats and no more than its minute: with renewals every
  \<open>RENEW_INTERVAL\<close>, a written lease has not expired when the third tick after it comes, and
  has expired at the fourth; a lease without a renew time or duration never expires.
\<close>

theorem lease_survives_two_missed_ticks:
  "\<not> is_expired (lease_object to_json now run_id user holder b) (now + 3 * int RENEW_INTERVAL) \<and>
   is_expired (lease_object to_json now run_id user holder b) (now + 4 * int RENEW_INTERVAL) \<and>
   (Option.bind (le_spec l) ls_renew_time = None \<or> Option.bind (le_spec l) ls_duration_secs = None
      \<longrightarrow> \<not> is_expired l now)"
proof -
  have "\<not> is_expired l now"
    if "Option.bind (le_spec l) ls_renew_time = None \<or> Option.bind (le_spec l) ls_duration_secs = None"
    using that by (auto simp: is_expired_def split: option.splits)
  then show ?thesis
    by (simp add: is_expired_lease_object RENEW_INTERVAL_def LEASE_DURATION_SECS_def)
qed

theorem lease_survives_two_missed_ticks_witness:
  "\<not> is_expired (demo_ledger_lease 4) 0 \<and> Option.bind (le_spec (demo_ledger_lease 4)) ls_renew_time = None"
  using lease_survives_two_missed_ticks [of "\<lambda>_. []" 0 "[]" "[]" "[]" "beacon_default 0" "demo_ledger_lease 4"]
  by (simp add: demo_ledger_lease_def)

end
