(* ===== verification/Qos_Reservation.thy ===== *)
theory Qos_Reservation
  imports Qos_Ledger
begin

text \<open>
  The reservation protocol of \<open>src/src/qos/ledger.rs\<close>: writing, acquiring, resizing, adopting,
  handing off and releasing one lease. The API server is not part of the sources: each
  definition returns the calls it makes, in order, and takes the server's replies as
  arguments, an error reply being its text. Clock readings are arguments too. The renew loop
  \<open>drive\<close> is one definition per tick, over the reservation's state, so that its interleaving
  with the engine's reports is a sequence of steps.
\<close>

section \<open>State\<close>

type_synonym 'a reply = "string + 'a"

datatype ledger_error =
    CapacityTimeout duration resources
  | MetaNamespaceMissing
  | Kube string

datatype api_call = ApplyLease k8s_lease | DeleteLease string | ReapOrphans

record ledger_demand =
  dm_committed :: resources
  dm_demand :: resources

definition demand_default :: ledger_demand where
  "demand_default = \<lparr>dm_committed = ZERO, dm_demand = ZERO\<rparr>"

record inner =
  in_id :: string
  in_user :: string
  in_holder :: string
  in_beacon :: beacon

datatype reserve = Elastic | Fixed resources

text \<open>The local variables of the background loop.\<close>

record drive_task =
  dt_want :: reserve
  dt_budget :: resources
  dt_allocatable :: resources
  dt_prev :: resources

record reservation =
  rv_inner :: inner
  rv_ceiling :: resources
  rv_demand :: ledger_demand
  rv_budget :: resources
  rv_task :: "drive_task option"

section \<open>Writing the lease\<close>

definition inner_current :: "inner \<Rightarrow> resources" where
  "inner_current i = b_reserve (in_beacon i)"

definition map_err :: "(string \<Rightarrow> ledger_error) \<Rightarrow> 'a reply \<Rightarrow> ledger_error + 'a" where
  "map_err f r = (case r of Inl e \<Rightarrow> Inl (f e) | Inr x \<Rightarrow> Inr x)"

definition inner_write ::
  "(beacon \<Rightarrow> string) \<Rightarrow> instant \<Rightarrow> unit reply \<Rightarrow> resources \<Rightarrow> inner \<Rightarrow>
   api_call list \<times> inner \<times> (ledger_error + unit)" where
  "inner_write to_json now rep r i =
     (let b = (in_beacon i)\<lparr>b_reserve := r\<rparr>;
          l = lease_object to_json now (in_id i) (in_user i) (in_holder i) b;
          i' = (case rep of Inr _ \<Rightarrow> i\<lparr>in_beacon := (in_beacon i)\<lparr>b_reserve := r\<rparr>\<rparr> | Inl _ \<Rightarrow> i)
      in ([ApplyLease l], i', map_err (\<lambda>e. Kube (''renew lease '' @ in_id i @ '': '' @ e)) rep))"

definition inner_delete :: "inner \<Rightarrow> api_call list" where
  "inner_delete i = [DeleteLease (in_id i)]"

definition sweep_expired :: "instant \<Rightarrow> k8s_lease list reply \<Rightarrow> api_call list \<times> (ledger_error + unit)" where
  "sweep_expired now rep = (case rep of
     Inl e \<Rightarrow> ([], Inl (Kube (''list leases for sweep: '' @ e)))
   | Inr ls \<Rightarrow> (map DeleteLease (leased_names (filter (\<lambda>l. is_expired l now) ls)), Inr ()))"

definition lease_live :: "instant \<Rightarrow> string \<Rightarrow> k8s_lease option reply \<Rightarrow> ledger_error + bool" where
  "lease_live now run_id rep = (case rep of
     Inl e \<Rightarrow> Inl (Kube (''get lease '' @ run_id @ '': '' @ e))
   | Inr None \<Rightarrow> Inr False
   | Inr (Some l) \<Rightarrow> Inr (\<not> is_expired l now))"

definition list_leases :: "k8s_lease list reply \<Rightarrow> ledger_error + k8s_lease list" where
  "list_leases rep = map_err (\<lambda>e. Kube (''list leases: '' @ e)) rep"

definition all_pods :: "pod list reply \<Rightarrow> ledger_error + pod list" where
  "all_pods rep = map_err (\<lambda>e. Kube (''list pods: '' @ e)) rep"

text \<open>The reply is the ServiceAccount's annotations, or nothing when it does not exist.\<close>

definition sa_budget ::
  "string \<Rightarrow> resources \<Rightarrow> str_map option option reply \<Rightarrow> ledger_error + resources" where
  "sa_budget sa dflt rep = (case rep of
     Inr (Some ann) \<Rightarrow> Inr (budget_from_annotations ann dflt)
   | Inr None \<Rightarrow> Inr dflt
   | Inl e \<Rightarrow> Inl (Kube (''get ServiceAccount '' @ sa @ '': '' @ e)))"

definition require_meta_namespace :: "unit option reply \<Rightarrow> ledger_error + unit" where
  "require_meta_namespace rep = (case rep of
     Inl e \<Rightarrow> Inl (Kube (''get namespace '' @ META_NAMESPACE @ '': '' @ e))
   | Inr (Some _) \<Rightarrow> Inr ()
   | Inr None \<Rightarrow> Inl MetaNamespaceMissing)"

section \<open>Operations of a reservation\<close>

definition spawn :: "inner \<Rightarrow> reserve \<Rightarrow> resources \<Rightarrow> resources \<Rightarrow> resources \<Rightarrow> reservation" where
  "spawn i want slc budget allocatable =
     \<lparr>rv_inner = i, rv_ceiling = slc, rv_demand = demand_default, rv_budget = budget,
      rv_task = Some \<lparr>dt_want = want, dt_budget = budget, dt_allocatable = allocatable,
                      dt_prev = inner_current i\<rparr>\<rparr>"

definition reserved :: "reservation \<Rightarrow> resources" where
  "reserved rv = inner_current (rv_inner rv)"

definition report_demand :: "resources \<Rightarrow> resources \<Rightarrow> reservation \<Rightarrow> reservation" where
  "report_demand committed demand rv =
     rv\<lparr>rv_demand := \<lparr>dm_committed = committed, dm_demand = demand\<rparr>\<rparr>"

definition report_status :: "progress \<Rightarrow> reservation \<Rightarrow> reservation" where
  "report_status p rv =
     rv\<lparr>rv_inner := (rv_inner rv)\<lparr>in_beacon := beacon_apply p (in_beacon (rv_inner rv))\<rparr>\<rparr>"

definition reservation_drop :: "reservation \<Rightarrow> reservation" where
  "reservation_drop rv = rv\<lparr>rv_task := None\<rparr>"

definition release :: "reservation \<Rightarrow> api_call list \<times> reservation" where
  "release rv = (inner_delete (rv_inner rv), rv\<lparr>rv_task := None\<rparr>)"

definition tick_interval :: "reserve \<Rightarrow> duration" where
  "tick_interval want = (case want of Elastic \<Rightarrow> RECONCILE_INTERVAL | Fixed _ \<Rightarrow> RENEW_INTERVAL)"

record tick_env =
  te_now :: instant
  te_sweep :: "k8s_lease list reply"
  te_leases :: "k8s_lease list reply"
  te_pods :: "pod list reply"
  te_write :: "unit reply"

definition drive_tick ::
  "(beacon \<Rightarrow> string) \<Rightarrow> tick_env \<Rightarrow> reservation \<Rightarrow> api_call list \<times> reservation" where
  "drive_tick to_json e rv = (case rv_task rv of
     None \<Rightarrow> ([], rv)
   | Some t \<Rightarrow>
     (let renew = (\<lambda>r. inner_write to_json (te_now e) (te_write e) r (rv_inner rv)) in
      case dt_want t of
        Fixed _ \<Rightarrow> (let (cs, i', _) = renew (dt_prev t) in (cs, rv\<lparr>rv_inner := i'\<rparr>))
      | Elastic \<Rightarrow>
        (let sw = fst (sweep_expired (te_now e) (te_sweep e)); d = rv_demand rv in
         if d = demand_default
         then (let (cs, i', _) = renew (dt_prev t) in (sw @ cs, rv\<lparr>rv_inner := i'\<rparr>))
         else (case (list_leases (te_leases e), all_pods (te_pods e)) of
           (Inr live, Inr pods) \<Rightarrow>
             (let target = reserve_from_state live pods (in_id (rv_inner rv)) (dt_allocatable t)
                             (dt_budget t) (dm_committed d) (dm_demand d);
                  (cs, i', res) = renew (r_max target (dt_prev t))
              in case res of
                   Inl _ \<Rightarrow> (sw @ cs, rv\<lparr>rv_inner := i'\<rparr>)
                 | Inr _ \<Rightarrow> (sw @ cs, rv\<lparr>rv_inner := i',
                     rv_ceiling := (if target \<noteq> dt_prev t then target else rv_ceiling rv),
                     rv_task := Some (t\<lparr>dt_prev := target\<rparr>)\<rparr>))
         | _ \<Rightarrow> (sw, rv)))))"

section \<open>Adoption and hand-off\<close>

text \<open>The outer \<open>None\<close> is the panic of \<open>expect\<close> on a lease that does not decode.\<close>

definition adopt ::
  "(beacon \<Rightarrow> string) \<Rightarrow> (string \<Rightarrow> beacon option) \<Rightarrow> instant \<Rightarrow> string \<Rightarrow> string \<Rightarrow>
   k8s_lease option reply \<Rightarrow> unit reply \<Rightarrow> api_call list \<times> (ledger_error + reservation) option" where
  "adopt to_json from_json now ident holder get wr = (case get of
     Inl e \<Rightarrow> ([], Some (Inl (Kube (''get lease '' @ ident @ '': '' @ e))))
   | Inr None \<Rightarrow> ([], Some (Inl (Kube (''lease '' @ ident @ '' gone before adoption''))))
   | Inr (Some l) \<Rightarrow> (case decode from_json now l of
       None \<Rightarrow> ([], None)
     | Some b \<Rightarrow>
       (let r = b_reserve b;
            i = \<lparr>in_id = ident, in_user = b_user b, in_holder = holder, in_beacon = b\<rparr>;
            (cs, i', res) = inner_write to_json now wr r i
        in (cs, Some (case res of
              Inl e \<Rightarrow> Inl e
            | Inr _ \<Rightarrow> Inr (spawn i' (Fixed r) r r r))))))"

definition adopted_elsewhere :: "string \<Rightarrow> k8s_lease option \<Rightarrow> bool" where
  "adopted_elsewhere mine l =
     (case Option.bind (Option.bind l le_spec) ls_holder of Some h \<Rightarrow> h \<noteq> mine | None \<Rightarrow> False)"

datatype handoff_event = Observed "k8s_lease option" | WatchFailed string | Aborted string

text \<open>\<open>None\<close> is still waiting; otherwise the reservation handed back with the reason, or done.\<close>

fun hand_off :: "reservation \<Rightarrow> handoff_event list \<Rightarrow> (reservation \<times> string + unit) option" where
  "hand_off rv [] = None"
| "hand_off rv (Observed l # es) =
     (if adopted_elsewhere (in_holder (rv_inner rv)) l then Some (Inr ()) else hand_off rv es)"
| "hand_off rv (WatchFailed e # es) = Some (Inl (rv, ''watch lease handoff: '' @ e))"
| "hand_off rv (Aborted why # es) = Some (Inl (rv, why))"

section \<open>Acquisition\<close>

definition threshold :: "reserve \<Rightarrow> resources" where
  "threshold want = (case want of Elastic \<Rightarrow> min_viable | Fixed r \<Rightarrow> r)"

definition reserve_amount :: "reserve \<Rightarrow> resources \<Rightarrow> resources" where
  "reserve_amount want slc = (case want of Elastic \<Rightarrow> slc | Fixed r \<Rightarrow> r)"

definition ledger_fits :: "resources \<Rightarrow> resources \<Rightarrow> bool" where
  "ledger_fits needle cap = fits_within needle cap"

definition park_as_claim ::
  "(beacon \<Rightarrow> string) \<Rightarrow> instant \<Rightarrow> unit reply \<Rightarrow> reserve \<Rightarrow> inner \<Rightarrow> api_call list \<times> inner" where
  "park_as_claim to_json now rep want i =
     (let i1 = i\<lparr>in_beacon := (in_beacon i)\<lparr>b_kind := Claim, b_needs := Some (threshold want)\<rparr>\<rparr>;
          (cs, i2, _) = inner_write to_json now rep ZERO i1
      in (cs, i2))"

record poll_env =
  po_now :: instant
  po_sweep :: "k8s_lease list reply"
  po_leases :: "k8s_lease list reply"
  po_pods :: "pod list reply"
  po_write :: "unit reply"
  po_elapsed :: duration
  po_waited :: duration

datatype acquired = Acquired reservation | Refused ledger_error | Panicked | Waiting inner

definition headroom_of :: "resources \<Rightarrow> string \<Rightarrow> k8s_lease list \<Rightarrow> pod list \<Rightarrow> resources" where
  "headroom_of allocatable lease_id live pods =
     r_saturating_sub (r_saturating_sub allocatable (fst (split_usage pods live)))
       (sum_reservations live lease_id)"

definition acquire_take ::
  "(beacon \<Rightarrow> string) \<Rightarrow> resources \<Rightarrow> resources \<Rightarrow> reserve \<Rightarrow> lease_kind \<Rightarrow> resources \<Rightarrow> poll_env \<Rightarrow>
   inner \<Rightarrow> api_call list \<times> acquired" where
  "acquire_take to_json allocatable budget want kind slc e i =
     (let r = reserve_amount want slc;
          i1 = i\<lparr>in_beacon := (in_beacon i)\<lparr>b_kind := kind, b_needs := None\<rparr>\<rparr>;
          (cs, i2, res) = inner_write to_json (po_now e) (po_write e) r i1
      in (cs, case res of
            Inl err \<Rightarrow> Refused err
          | Inr _ \<Rightarrow> Acquired (spawn i2 want r budget allocatable)))"

definition acquire_decide ::
  "(beacon \<Rightarrow> string) \<Rightarrow> resources \<Rightarrow> resources \<Rightarrow> reserve \<Rightarrow> lease_kind \<Rightarrow> resources \<Rightarrow> poll_env \<Rightarrow>
   inner \<Rightarrow> api_call list \<times> acquired" where
  "acquire_decide to_json allocatable budget want kind headroom e i =
     (let slc = r_min budget headroom in
      if ledger_fits (threshold want) slc
      then acquire_take to_json allocatable budget want kind slc e i
      else if po_elapsed e \<ge> ACQUIRE_WAIT_TIMEOUT
      then (inner_delete i, Refused (CapacityTimeout (po_waited e) headroom))
      else (let (cs, i') = park_as_claim to_json (po_now e) (po_write e) want i in (cs, Waiting i')))"

definition acquire_poll ::
  "(beacon \<Rightarrow> string) \<Rightarrow> string \<Rightarrow> resources \<Rightarrow> resources \<Rightarrow> reserve \<Rightarrow> lease_kind \<Rightarrow> poll_env \<Rightarrow>
   inner \<Rightarrow> api_call list \<times> acquired" where
  "acquire_poll to_json lease_id allocatable budget want kind e i =
     (case sweep_expired (po_now e) (po_sweep e) of
        (_, Inl err) \<Rightarrow> ([], Refused err)
      | (sw, Inr _) \<Rightarrow> (case list_leases (po_leases e) of
          Inl err \<Rightarrow> (sw, Refused err)
        | Inr live \<Rightarrow> (case all_pods (po_pods e) of
            Inl err \<Rightarrow> (sw, Refused err)
          | Inr pods \<Rightarrow>
              if assert_invariant live pods
              then (let (cs, r) = acquire_decide to_json allocatable budget want kind
                                    (headroom_of allocatable lease_id live pods) e i
                    in (sw @ cs, r))
              else (sw, Panicked))))"

fun acquire_loop ::
  "(beacon \<Rightarrow> string) \<Rightarrow> string \<Rightarrow> resources \<Rightarrow> resources \<Rightarrow> reserve \<Rightarrow> lease_kind \<Rightarrow> poll_env list \<Rightarrow>
   inner \<Rightarrow> api_call list \<times> acquired" where
  "acquire_loop to_json lease_id allocatable budget want kind [] i = ([], Waiting i)"
| "acquire_loop to_json lease_id allocatable budget want kind (e # es) i =
     (case acquire_poll to_json lease_id allocatable budget want kind e i of
        (cs, Waiting i') \<Rightarrow>
          (let (cs', r) = acquire_loop to_json lease_id allocatable budget want kind es i'
           in (cs @ cs', r))
      | (cs, r) \<Rightarrow> (cs, r))"

definition acquire ::
  "(beacon \<Rightarrow> string) \<Rightarrow> instant \<Rightarrow> unit option reply \<Rightarrow> str_map option option reply \<Rightarrow> string \<Rightarrow> string \<Rightarrow>
   string \<Rightarrow> cluster_capacity \<Rightarrow> reserve \<Rightarrow> lease_kind \<Rightarrow> poll_env list \<Rightarrow> api_call list \<times> acquired" where
  "acquire to_json now ns_rep sa_rep lease_id sa user capacity want kind es =
     (case require_meta_namespace ns_rep of
        Inl err \<Rightarrow> ([], Refused err)
      | Inr _ \<Rightarrow>
        (case sa_budget sa (default_budget (cc_allocatable capacity)) sa_rep of
           Inl err \<Rightarrow> ([ReapOrphans], Refused err)
         | Inr budget \<Rightarrow>
           (let i = \<lparr>in_id = lease_id, in_user = user, in_holder = lease_id,
                     in_beacon = beacon_new now lease_id user kind ZERO\<rparr>;
                (cs, r) = acquire_loop to_json lease_id (cc_allocatable capacity) budget want kind es i
            in (ReapOrphans # cs, r))))"

section \<open>The resize loop keeps the ceiling under the lease\<close>

lemma inner_write_eq:
  "inner_write to_json now rep r i =
     ([ApplyLease (lease_object to_json now (in_id i) (in_user i) (in_holder i)
         ((in_beacon i)\<lparr>b_reserve := r\<rparr>))],
      (case rep of Inr _ \<Rightarrow> i\<lparr>in_beacon := (in_beacon i)\<lparr>b_reserve := r\<rparr>\<rparr> | Inl _ \<Rightarrow> i),
      map_err (\<lambda>e. Kube (''renew lease '' @ in_id i @ '': '' @ e)) rep)"
  by (simp add: inner_write_def)

text \<open>The object the server holds after a sequence of calls, if all of them land.\<close>

fun last_applied :: "k8s_lease \<Rightarrow> api_call list \<Rightarrow> k8s_lease" where
  "last_applied l [] = l"
| "last_applied l (ApplyLease l' # cs) = last_applied l' cs"
| "last_applied l (DeleteLease n # cs) = last_applied l cs"
| "last_applied l (ReapOrphans # cs) = last_applied l cs"

lemma last_applied_append: "last_applied l (xs @ ys) = last_applied (last_applied l xs) ys"
  by (induction l xs rule: last_applied.induct) simp_all

lemma last_applied_deletes [simp]: "last_applied l (map DeleteLease ns) = l"
  by (induction ns) simp_all

lemma last_applied_sweep [simp]: "last_applied l (fst (sweep_expired now rep)) = l"
  by (simp add: sweep_expired_def split: sum.split)

text \<open>
  One step of a reservation and of its lease on the server. A write answered by an error may
  have landed or not.
\<close>

inductive res_step ::
  "(beacon \<Rightarrow> string) \<Rightarrow> reservation \<times> k8s_lease \<Rightarrow> reservation \<times> k8s_lease \<Rightarrow> bool" for to_json where
  tick: "drive_tick to_json e rv = (cs, rv') \<Longrightarrow> l' = last_applied l cs \<Longrightarrow>
     res_step to_json (rv, l) (rv', l')"
| tick_lost: "drive_tick to_json e rv = (cs, rv') \<Longrightarrow> te_write e = Inl err \<Longrightarrow>
     res_step to_json (rv, l) (rv', l)"
| demand: "res_step to_json (rv, l) (report_demand c d rv, l)"
| status: "res_step to_json (rv, l) (report_status p rv, l)"
| drop: "res_step to_json (rv, l) (reservation_drop rv, l)"

definition res_started :: "reservation \<times> k8s_lease \<Rightarrow> bool" where
  "res_started s \<longleftrightarrow> (\<exists>i want r budget allocatable. fst s = spawn i want r budget allocatable \<and>
     inner_current i = r \<and> reservation_of (snd s) = r_new (cpu_milli r) (mem_bytes r) 0 0)"

definition res_covered :: "reservation \<times> k8s_lease \<Rightarrow> bool" where
  "res_covered s \<longleftrightarrow> (case s of (rv, l) \<Rightarrow>
     (\<forall>t. rv_task rv = Some t \<longrightarrow> dt_prev t = rv_ceiling rv) \<and>
     fits_within (rv_ceiling rv) (reserved rv) \<and>
     cpu_milli (rv_ceiling rv) \<le> cpu_milli (reservation_of l) \<and>
     mem_bytes (rv_ceiling rv) \<le> mem_bytes (reservation_of l))"

lemma r_new_sel [simp]:
  "cpu_milli (r_new c m b i) = c" "mem_bytes (r_new c m b i) = m" "disk_bytes (r_new c m b i) = 0"
  by (simp_all add: r_new_def)

lemma r_max_upper [simp]: "fits_within a (r_max a b)" "fits_within b (r_max a b)"
  by (simp_all add: res_simps)

lemma r_max_sel [simp]:
  "cpu_milli (r_max a b) = max (cpu_milli a) (cpu_milli b)"
  "mem_bytes (r_max a b) = max (mem_bytes a) (mem_bytes b)"
  by (simp_all add: r_max_def r_map2_def)

lemma covered_tick:
  assumes inv: "res_covered (rv, l)" and tick: "drive_tick to_json e rv = (cs, rv')"
  shows "res_covered (rv', last_applied l cs) \<and> (te_write e = Inl err \<longrightarrow> res_covered (rv', l))"
proof (cases "rv_task rv")
  case None
  with assms show ?thesis by (simp add: drive_tick_def)
next
  case (Some t)
  then have p: "dt_prev t = rv_ceiling rv" and c: "fits_within (rv_ceiling rv) (reserved rv)"
    and s: "cpu_milli (rv_ceiling rv) \<le> cpu_milli (reservation_of l)"
      "mem_bytes (rv_ceiling rv) \<le> mem_bytes (reservation_of l)"
    using inv by (auto simp: res_covered_def)
  note defs = res_covered_def reserved_def inner_current_def inner_write_eq last_applied_append
    map_err_def res.fits_refl
  show ?thesis
  proof (cases "dt_want t = Elastic \<and> rv_demand rv \<noteq> demand_default")
    case False
    then have "\<exists>w i' res. inner_write to_json (te_now e) (te_write e) (rv_ceiling rv) (rv_inner rv) = (w, i', res) \<and>
        last_applied l cs = last_applied l w \<and> rv' = rv\<lparr>rv_inner := i'\<rparr>"
      using tick Some
      by (cases "dt_want t") (auto simp: drive_tick_def p inner_write_eq last_applied_append Let_def)
    then show ?thesis
      using Some p c s by (cases "te_write e") (auto simp: defs)
  next
    case True
    show ?thesis
    proof (cases "\<exists>live pods. te_leases e = Inr live \<and> te_pods e = Inr pods")
      case False
      then have "last_applied l cs = l \<and> rv' = rv"
        using tick Some True
        by (cases "te_leases e"; cases "te_pods e")
          (auto simp: drive_tick_def list_leases_def all_pods_def map_err_def Let_def)
      with inv show ?thesis by simp
    next
      case live: True
      then obtain live pods where "te_leases e = Inr live" "te_pods e = Inr pods" by blast
      then show ?thesis
        using tick Some True p c s
        by (cases "te_write e")
          (auto simp: drive_tick_def list_leases_def all_pods_def Let_def defs)
    qed
  qed
qed

lemma covered_reports [simp]:
  "res_covered (report_demand c d rv, l) = res_covered (rv, l)"
  "res_covered (report_status p rv, l) = res_covered (rv, l)"
  "res_covered (rv, l) \<Longrightarrow> res_covered (reservation_drop rv, l)"
  by (simp_all add: res_covered_def report_demand_def report_status_def reservation_drop_def
      reserved_def inner_current_def beacon_apply_def)

lemma covered_step: "res_covered s \<Longrightarrow> res_step to_json s t \<Longrightarrow> res_covered t"
  by (erule res_step.cases) (auto dest: covered_tick)

interpretation reservation: step_system res_started "res_step to_json" res_covered
  for to_json
proof unfold_locales
  fix s :: "reservation \<times> k8s_lease" assume "res_started s"
  then show "res_covered s"
    by (cases s) (auto simp: res_started_def res_covered_def spawn_def reserved_def res.fits_refl)
next
  fix s t :: "reservation \<times> k8s_lease" assume "res_covered s" "res_step to_json s t"
  then show "res_covered t"
    by (rule covered_step)
qed

text \<open>
  C7. The scheduler may never admit into more than the lease holds. From a freshly acquired or
  adopted reservation, through any interleaving of heartbeats (whatever the server answers,
  and whether or not an unanswered write landed), demand and status reports and the final
  drop, the published ceiling is within the amount last written, and its cpu and memory are
  within what peers read off the lease object.
\<close>

theorem ceiling_within_reservation:
  assumes "res_started s" and "(res_step to_json)\<^sup>*\<^sup>* s (rv, l)"
  shows "fits_within (rv_ceiling rv) (reserved rv) \<and>
    cpu_milli (rv_ceiling rv) \<le> cpu_milli (reservation_of l) \<and>
    mem_bytes (rv_ceiling rv) \<le> mem_bytes (reservation_of l)"
  using reservation.reach_invar [OF assms] by (simp add: res_covered_def)

definition demo_inner :: inner where
  "demo_inner = \<lparr>in_id = ''r1'', in_user = ''ada'', in_holder = ''r1'',
     in_beacon = beacon_new 0 ''r1'' ''ada'' Run (r_new 4 8 0 0)\<rparr>"

definition demo_rv :: reservation where
  "demo_rv = spawn demo_inner Elastic (r_new 4 8 0 0) (r_new 9 9 0 0) (r_new 9 9 0 0)"

definition demo_written :: k8s_lease where
  "demo_written = lease_object (\<lambda>_. ''{}'') 0 ''r1'' ''ada'' ''r1'' (in_beacon demo_inner)"

theorem ceiling_within_reservation_witness:
  "cpu_milli (rv_ceiling (report_demand ZERO (r_new 1 1 0 0) demo_rv)) \<le> cpu_milli (reservation_of demo_written)"
proof -
  have b: "b_reserve (in_beacon demo_inner) = r_new 4 8 0 0"
    by (simp add: demo_inner_def beacon_new_def)
  have "res_started (demo_rv, demo_written)"
    unfolding res_started_def
    by (intro exI [of _ demo_inner] exI [of _ Elastic] exI [of _ "r_new 4 8 0 0"] exI [of _ "r_new 9 9 0 0"])
      (simp add: demo_rv_def demo_written_def inner_current_def b)
  moreover have "(res_step (\<lambda>_. ''{}''))\<^sup>*\<^sup>* (demo_rv, demo_written)
      (report_demand ZERO (r_new 1 1 0 0) demo_rv, demo_written)"
    by (rule r_into_rtranclp) (rule res_step.demand)
  ultimately show ?thesis using ceiling_within_reservation by blast
qed

text \<open>
  The resize settles in two ticks. While the cluster state and the reported demand stay the
  same and writes succeed, the second heartbeat leaves ceiling, loop state and lease all at
  the fair-share target.
\<close>

theorem drive_settles:
  assumes "rv_task rv = Some t" and "dt_want t = Elastic" and "rv_demand rv \<noteq> demand_default"
    and "te_leases e = Inr live" and "te_pods e = Inr pods" and "te_write e = Inr ()"
    and "rv_ceiling rv = dt_prev t"
  shows "let target = reserve_from_state live pods (in_id (rv_inner rv)) (dt_allocatable t)
           (dt_budget t) (dm_committed (rv_demand rv)) (dm_demand (rv_demand rv));
         rv2 = snd (drive_tick to_json e (snd (drive_tick to_json e rv)))
     in rv_ceiling rv2 = target \<and> reserved rv2 = target \<and> rv_task rv2 = Some (t\<lparr>dt_prev := target\<rparr>)"
proof -
  have tick: "snd (drive_tick to_json e x) = x
      \<lparr>rv_inner := (rv_inner x)\<lparr>in_beacon := (in_beacon (rv_inner x))\<lparr>b_reserve :=
         r_max (reserve_from_state live pods (in_id (rv_inner x)) (dt_allocatable u)
           (dt_budget u) (dm_committed (rv_demand x)) (dm_demand (rv_demand x))) (dt_prev u)\<rparr>\<rparr>,
       rv_ceiling := reserve_from_state live pods (in_id (rv_inner x)) (dt_allocatable u)
           (dt_budget u) (dm_committed (rv_demand x)) (dm_demand (rv_demand x)),
       rv_task := Some (u\<lparr>dt_prev := reserve_from_state live pods (in_id (rv_inner x)) (dt_allocatable u)
           (dt_budget u) (dm_committed (rv_demand x)) (dm_demand (rv_demand x))\<rparr>)\<rparr>"
    if "rv_task x = Some u" "dt_want u = Elastic" "rv_demand x \<noteq> demand_default" "rv_ceiling x = dt_prev u"
    for x u
    using that assms(4-6)
    by (simp add: drive_tick_def list_leases_def all_pods_def map_err_def inner_write_eq Let_def)
  have "r_max r r = r" for r by (simp add: r_max_def r_map2_def)
  with assms show ?thesis
    by (simp add: tick Let_def reserved_def inner_current_def)
qed

definition demo_tick :: tick_env where
  "demo_tick = \<lparr>te_now = 0, te_sweep = Inr [], te_leases = Inr [], te_pods = Inr [], te_write = Inr ()\<rparr>"

theorem drive_settles_witness:
  "let rv2 = snd (drive_tick (\<lambda>_. ''{}'') demo_tick (snd (drive_tick (\<lambda>_. ''{}'') demo_tick
       (report_demand ZERO (r_new 1 1 0 0) demo_rv))))
   in rv_ceiling rv2 = reserved rv2"
proof -
  let ?rv = "report_demand ZERO (r_new 1 1 0 0) demo_rv"
  let ?t = "\<lparr>dt_want = Elastic, dt_budget = r_new 9 9 0 0, dt_allocatable = r_new 9 9 0 0, dt_prev = r_new 4 8 0 0\<rparr>"
  have "rv_task ?rv = Some ?t" "rv_ceiling ?rv = dt_prev ?t" "rv_demand ?rv \<noteq> demand_default"
    by (simp_all add: report_demand_def demo_rv_def spawn_def demo_inner_def beacon_new_def
        inner_current_def demand_default_def ZERO_def r_new_def)
  then show ?thesis
    using drive_settles [of ?rv ?t demo_tick "[]" "[]" "\<lambda>_. ''{}''"] by (simp add: demo_tick_def Let_def)
qed

section \<open>Acquisition\<close>

definition is_claim_of :: "string \<Rightarrow> api_call \<Rightarrow> bool" where
  "is_claim_of ident c \<longleftrightarrow> (case c of
     ApplyLease l \<Rightarrow> m_name (le_meta l) = Some ident \<and> kind_of l = Claim \<and> reservation_of l = ZERO
   | _ \<Rightarrow> True)"

lemma r_new_zero [simp]: "r_new 0 0 0 0 = ZERO"
  by (simp add: r_new_def ZERO_def)

lemma ZERO_sel [simp]: "cpu_milli ZERO = 0" "mem_bytes ZERO = 0"
  by (simp_all add: ZERO_def)

lemma sweep_claims: "list_all (is_claim_of ident) (fst (sweep_expired now rep))"
  by (auto simp: sweep_expired_def is_claim_of_def list_all_iff split: sum.splits)

lemma poll_Waiting:
  assumes "acquire_poll to_json lease_id al budget want kind e i = (cs, Waiting i')"
  shows "list_all (is_claim_of (in_id i)) cs \<and> in_id i' = in_id i \<and> po_elapsed e < ACQUIRE_WAIT_TIMEOUT"
  using assms sweep_claims [of "in_id i" "po_now e" "po_sweep e"]
  by (auto simp: acquire_poll_def acquire_decide_def acquire_take_def park_as_claim_def inner_write_eq
      Let_def is_claim_of_def split: sum.splits prod.splits if_splits)

lemma poll_Acquired:
  assumes "acquire_poll to_json lease_id al budget want kind e i = (cs, Acquired rv)"
  shows "\<exists>live pods sw l. po_leases e = Inr live \<and> po_pods e = Inr pods \<and> assert_invariant live pods \<and>
    (let slc = r_min budget (headroom_of al lease_id live pods); r = reserve_amount want slc in
       fits_within (threshold want) slc \<and> cs = sw @ [ApplyLease l] \<and> list_all (is_claim_of (in_id i)) sw \<and>
       reservation_of l = r_new (cpu_milli r) (mem_bytes r) 0 0 \<and> kind_of l = kind \<and>
       m_name (le_meta l) = Some (in_id i) \<and>
       rv_ceiling rv = r \<and> reserved rv = r \<and> rv_budget rv = budget)"
  using assms sweep_claims [of "in_id i" "po_now e" "po_sweep e"]
  by (auto simp: acquire_poll_def acquire_decide_def acquire_take_def park_as_claim_def inner_write_eq
      Let_def ledger_fits_def list_leases_def all_pods_def map_err_def spawn_def reserved_def
      inner_current_def split: sum.splits prod.splits if_splits)

lemma reserve_in_slice:
  "fits_within (threshold want) slc \<Longrightarrow>
   fits_within (reserve_amount want slc) slc \<and> fits_within (threshold want) (reserve_amount want slc)"
  by (cases want) (simp_all add: threshold_def reserve_amount_def res.fits_refl)

lemma headroom_amount:
  "amount (headroom_of al ident live pods) d =
     amount al d - amount (fst (split_usage pods live)) d - amount (sum_reservations live ident) d"
  by (simp add: headroom_of_def amount_sat_sub)

text \<open>What a lease written at \<open>r\<close> has to satisfy against the cluster state it was decided on.\<close>

definition room_for :: "resources \<Rightarrow> string \<Rightarrow> k8s_lease list \<Rightarrow> pod list \<Rightarrow> resources \<Rightarrow> bool" where
  "room_for al ident live pods r \<longleftrightarrow> (\<forall>d. amount r d = 0 \<or>
     amount r d + amount (sum_reservations live ident) d + amount (fst (split_usage pods live)) d
       \<le> amount al d)"

lemma room_for_slice:
  assumes "fits_within r (r_min budget (headroom_of al ident live pods))"
  shows "room_for al ident live pods r \<and> fits_within r budget"
proof -
  have "amount r d \<le> amount budget d \<and>
      amount r d \<le> amount al d - amount (fst (split_usage pods live)) d - amount (sum_reservations live ident) d"
    for d using assms by (simp add: fits_within_iff amount_r_min headroom_amount)
  moreover have "x = 0 \<or> x + y + u \<le> a" if "x \<le> a - u - y" for x a u y :: nat
    using that by arith
  ultimately show ?thesis unfolding room_for_def fits_within_iff by blast
qed

text \<open>The poll on which a reservation was taken, and what was written by then.\<close>

definition taken_on ::
  "resources \<Rightarrow> string \<Rightarrow> resources \<Rightarrow> reserve \<Rightarrow> reservation \<Rightarrow> poll_env \<Rightarrow> bool" where
  "taken_on al lease_id budget want rv e \<longleftrightarrow>
     (\<exists>live pods. po_leases e = Inr live \<and> po_pods e = Inr pods \<and> assert_invariant live pods \<and>
        room_for al lease_id live pods (reserved rv)) \<and>
     fits_within (threshold want) (reserved rv) \<and> fits_within (reserved rv) budget \<and>
     rv_ceiling rv = reserved rv"

definition written_last :: "lease_kind \<Rightarrow> string \<Rightarrow> reservation \<Rightarrow> api_call list \<Rightarrow> bool" where
  "written_last kind ident rv cs \<longleftrightarrow>
     (\<exists>cs0 l. cs = cs0 @ [ApplyLease l] \<and> list_all (is_claim_of ident) cs0 \<and> kind_of l = kind \<and>
        reservation_of l = r_new (cpu_milli (reserved rv)) (mem_bytes (reserved rv)) 0 0)"

lemma written_last_append:
  "list_all (is_claim_of ident) c1 \<Longrightarrow> written_last kind ident rv c2 \<Longrightarrow> written_last kind ident rv (c1 @ c2)"
  unfolding written_last_def by (metis append.assoc list_all_append)

lemma poll_taken:
  assumes "acquire_poll to_json lease_id al budget want kind e i = (cs, Acquired rv)"
  shows "taken_on al lease_id budget want rv e \<and> written_last kind (in_id i) rv cs"
proof -
  from poll_Acquired [OF assms] obtain live pods sw l where
    a: "po_leases e = Inr live" "po_pods e = Inr pods" "assert_invariant live pods"
    and f: "fits_within (threshold want) (r_min budget (headroom_of al lease_id live pods))"
    and r: "reserved rv = reserve_amount want (r_min budget (headroom_of al lease_id live pods))"
    and b: "cs = sw @ [ApplyLease l]" "list_all (is_claim_of (in_id i)) sw" "kind_of l = kind"
      "rv_ceiling rv = reserved rv"
      "reservation_of l = r_new (cpu_milli (reserved rv)) (mem_bytes (reserved rv)) 0 0"
    unfolding Let_def by metis
  from reserve_in_slice [OF f] r
  have s: "fits_within (reserved rv) (r_min budget (headroom_of al lease_id live pods))"
    and t: "fits_within (threshold want) (reserved rv)"
    by simp_all
  show ?thesis
    using a b t room_for_slice [OF s] unfolding taken_on_def written_last_def by blast
qed

text \<open>
  C9. An acquired reservation fits next to everything else. When acquisition succeeds, one of
  its polls saw leases and pods obeying the ledger invariant, on which the amount taken
  reaches the caller's threshold, is within the identity's budget, and, in every dimension
  where it is not zero, fits in what is allocatable together with the other leases and the
  pods no lease covers. That amount is the initial ceiling and is on the lease written last;
  everything written before is a claim that reserves nothing.
\<close>

theorem acquire_fits_headroom:
  assumes "acquire_loop to_json lease_id al budget want kind es i = (cs, Acquired rv)"
  shows "(\<exists>e\<in>set es. taken_on al lease_id budget want rv e) \<and> written_last kind (in_id i) rv cs"
  using assms
proof (induction es arbitrary: i cs)
  case (Cons e es)
  obtain c1 r1 where p: "acquire_poll to_json lease_id al budget want kind e i = (c1, r1)" by fastforce
  show ?case
  proof (cases r1)
    case (Waiting i')
    with Cons.prems p obtain c2 where
      "acquire_loop to_json lease_id al budget want kind es i' = (c2, Acquired rv)" and cs: "cs = c1 @ c2"
      by (auto split: prod.splits)
    from Cons.IH [OF this(1)] poll_Waiting [OF p [unfolded Waiting]] cs
    show ?thesis by (auto intro: written_last_append)
  next
    case (Acquired rv1)
    with Cons.prems p have "rv1 = rv" "c1 = cs" by auto
    with poll_taken [OF p [unfolded Acquired]] show ?thesis by auto
  qed (use Cons.prems p in auto)
qed simp

definition demo_poll :: "duration \<Rightarrow> k8s_lease list \<Rightarrow> poll_env" where
  "demo_poll t ls = \<lparr>po_now = 0, po_sweep = Inr [], po_leases = Inr ls, po_pods = Inr [],
     po_write = Inr (), po_elapsed = t, po_waited = t\<rparr>"

lemma assert_invariant_no_pods [simp]: "assert_invariant ls []"
  by (simp add: assert_invariant_def split_usage_def)

lemma demo_poll_headroom:
  "headroom_of (r_new 9 0 0 0) ''r2'' [] [] = r_new 9 0 0 0"
  "headroom_of (r_new 9 0 0 0) ''r2'' [demo_ledger_lease 6] [] = r_new 3 0 0 0"
proof -
  have "m_name (le_meta (demo_ledger_lease c)) = Some ''r1''" for c by (simp add: demo_ledger_lease_def)
  then show "headroom_of (r_new 9 0 0 0) ''r2'' [] [] = r_new 9 0 0 0"
    "headroom_of (r_new 9 0 0 0) ''r2'' [demo_ledger_lease 6] [] = r_new 3 0 0 0"
    by (simp_all add: headroom_of_def split_usage_def sum_reservations_def)
      (simp_all add: r_saturating_sub_def r_map2_def r_new_def ZERO_def sat_sub_def
        r_saturating_add_def sat_add_def)
qed

text \<open>A peer holds 6 of 9 units on the first poll and is gone on the second.\<close>

theorem acquire_fits_headroom_witness:
  "\<exists>cs rv. acquire_loop (\<lambda>_. ''{}'') ''r2'' (r_new 9 0 0 0) (r_new 9 0 0 0) (Fixed (r_new 4 0 0 0)) Build
      [demo_poll 0 [demo_ledger_lease 6], demo_poll 5 []] demo_inner = (cs, Acquired rv) \<and>
    written_last Build ''r1'' rv cs"
proof -
  let ?loop = "acquire_loop (\<lambda>_. ''{}'') ''r2'' (r_new 9 0 0 0) (r_new 9 0 0 0) (Fixed (r_new 4 0 0 0)) Build
      [demo_poll 0 [demo_ledger_lease 6], demo_poll 5 []] demo_inner"
  have m: "r_min (r_new 9 0 0 0) (r_new c 0 0 0) = r_new (min 9 c) 0 0 0" for c
    by (simp add: r_min_def r_map2_def r_new_def)
  have f: "fits_within (r_new 4 0 0 0) (r_new c 0 0 0) \<longleftrightarrow> 4 \<le> c" for c
    by (simp add: fits_within_def r_new_def)
  have "\<exists>cs rv. ?loop = (cs, Acquired rv)"
    by (simp add: demo_poll_def acquire_poll_def acquire_decide_def acquire_take_def park_as_claim_def
        inner_write_eq sweep_expired_def list_leases_def all_pods_def map_err_def demo_poll_headroom m f
        ledger_fits_def threshold_def ACQUIRE_WAIT_TIMEOUT_def min_def Let_def)
  moreover have "in_id demo_inner = ''r1''" by (simp add: demo_inner_def)
  ultimately show ?thesis using acquire_fits_headroom by metis
qed

text \<open>
  C24. Acquisition ends. A poll at or past the ten-minute limit is the last one, whatever the
  server answers: the loop never goes on waiting after it.
\<close>

theorem acquire_ends:
  assumes "e \<in> set es" and "ACQUIRE_WAIT_TIMEOUT \<le> po_elapsed e"
  shows "snd (acquire_loop to_json lease_id al budget want kind es i) \<noteq> Waiting i'"
  using assms(1)
proof (induction es arbitrary: i)
  case (Cons e' es)
  obtain c1 r1 where p: "acquire_poll to_json lease_id al budget want kind e' i = (c1, r1)" by fastforce
  show ?case
  proof (cases r1)
    case (Waiting i1)
    then have "e \<noteq> e'" using poll_Waiting [OF p [unfolded Waiting]] assms(2) by auto
    with Cons.prems Cons.IH [of i1] show ?thesis
      by (cases "acquire_loop to_json lease_id al budget want kind es i1") (simp add: p Waiting)
  qed (simp_all add: p)
qed simp

theorem acquire_ends_witness:
  "snd (acquire_loop (\<lambda>_. ''{}'') ''r2'' ZERO ZERO Elastic Run [demo_poll (secs 600) []] demo_inner)
     \<noteq> Waiting demo_inner"
  using acquire_ends [of "demo_poll (secs 600) []" "[demo_poll (secs 600) []]" "\<lambda>_. ''{}''" "''r2''"
      ZERO ZERO Elastic Run demo_inner demo_inner]
  by (simp add: demo_poll_def ACQUIRE_WAIT_TIMEOUT_def)

text \<open>
  A parked claim is invisible to its peers. The lease a waiting run keeps alive changes no
  other run's fair share, nor the sum anyone subtracts, as long as the waiting run has no
  pods.
\<close>

theorem claim_invisible_to_peers:
  assumes "park_as_claim to_json now rep want i = ([ApplyLease l], i')"
    and "\<And>p. p \<in> set pods \<Longrightarrow> run_id_of p \<noteq> Some (in_id i)"
  shows "sum_reservations (l # ls) peer = sum_reservations ls peer \<and>
    reserve_from_state (l # ls) pods peer al budget committed demand =
      reserve_from_state ls pods peer al budget committed demand"
proof -
  have l: "reservation_of l = ZERO" "kind_of l = Claim" "m_name (le_meta l) = Some (in_id i)"
    using assms(1) by (auto simp: park_as_claim_def inner_write_eq Let_def)
  have s: "sum_reservations (l # ls) peer = sum_reservations ls peer"
    by (simp add: sum_reservations_def l)
  have "usage_where (\<lambda>p. pod_holds_capacity p \<and> covering_run (leased_names (l # ls)) p = None) pods =
        usage_where (\<lambda>p. pod_holds_capacity p \<and> covering_run (leased_names ls) p = None) pods"
    unfolding usage_where_def using assms(2)
    by (intro arg_cong [where f = "\<lambda>x. total (map pod_footprint x)"] filter_cong)
      (auto simp: covering_run_def leased_names_def List.map_filter_simps l split: option.splits)
  then show ?thesis
    using s by (simp add: reserve_from_state_def split_usage_unreserved l)
qed

theorem claim_invisible_to_peers_witness:
  "\<exists>l i'. park_as_claim (\<lambda>_. ''{}'') 0 (Inr ()) Elastic demo_inner = ([ApplyLease l], i') \<and>
     sum_reservations [l] ''r2'' = sum_reservations [] ''r2''"
proof -
  obtain l i' where p: "park_as_claim (\<lambda>_. ''{}'') 0 (Inr ()) Elastic demo_inner = ([ApplyLease l], i')"
    by (simp add: park_as_claim_def inner_write_eq Let_def)
  from claim_invisible_to_peers [OF p, of "[]" "[]" "''r2''" ZERO ZERO ZERO ZERO] p show ?thesis
    by auto
qed

section \<open>Hand-off\<close>

lemma adopt_ok:
  assumes "decode from_json now l = Some b"
  shows "adopt to_json from_json now ident holder (Inr (Some l)) (Inr ()) =
    ([ApplyLease (lease_object to_json now ident (b_user b) holder b)],
     Some (Inr (spawn \<lparr>in_id = ident, in_user = b_user b, in_holder = holder, in_beacon = b\<rparr>
       (Fixed (b_reserve b)) (b_reserve b) (b_reserve b) (b_reserve b))))"
  using assms by (simp add: adopt_def inner_write_eq map_err_def Let_def)

text \<open>
  A lease passes from one process to another without changing. Adopting the lease a giver
  wrote yields a fixed reservation with the giver's user, kind and reserved cpu and memory,
  writes the same amount and kind back at once, and seeing that write ends the giver's
  hand-off exactly when the adopter's holder name differs; the giver's own heartbeats, read
  before it, do not.
\<close>

theorem adopt_preserves_lease:
  assumes codec: "from_json (to_json (wire (in_beacon (rv_inner g)))) = Some (wire (in_beacon (rv_inner g)))"
    and l: "l = lease_object to_json t (in_id (rv_inner g)) (in_user (rv_inner g))
       (in_holder (rv_inner g)) (in_beacon (rv_inner g))"
  shows "\<exists>l' rv. adopt to_json from_json now (in_id (rv_inner g)) holder (Inr (Some l)) (Inr ()) =
      ([ApplyLease l'], Some (Inr rv)) \<and>
    reserved rv = reservation_of l \<and> rv_ceiling rv = reservation_of l \<and> in_user (rv_inner rv) = in_user (rv_inner g) \<and>
    reservation_of l' = reservation_of l \<and> kind_of l' = kind_of l \<and>
    hand_off g (replicate n (Observed (Some l)) @ [Observed (Some l')]) =
      (if holder = in_holder (rv_inner g) then None else Some (Inr ()))"
proof -
  have own: "adopted_elsewhere h (Some (lease_object to_json t' r u h b)) \<longleftrightarrow> False" for t' r u h b
    by (simp add: adopted_elsewhere_def lease_object_def)
  have other: "adopted_elsewhere h (Some (lease_object to_json t' r u h' b)) \<longleftrightarrow> h' \<noteq> h" for t' r u h h' b
    by (simp add: adopted_elsewhere_def lease_object_def)
  have skip: "hand_off g (replicate n (Observed (Some l)) @ es) = hand_off g es" for es
    by (induction n) (simp_all add: l own)
  let ?i = "rv_inner g"
  let ?b = "(wire (in_beacon ?i))\<lparr>b_run_id := in_id ?i, b_user := in_user ?i,
       b_reserve := r_new (cpu_milli (b_reserve (in_beacon ?i))) (mem_bytes (b_reserve (in_beacon ?i))) 0 0\<rparr>"
  have "decode from_json now l = Some ?b"
    unfolding l by (rule decode_lease_object [of from_json to_json "in_beacon ?i", OF codec])
  from adopt_ok [OF this, of to_json "in_id ?i" holder] show ?thesis
    unfolding skip
    by (intro exI conjI, assumption)
      (simp_all add: l spawn_def reserved_def inner_current_def other wire_def)
qed

theorem adopt_preserves_lease_witness:
  "\<exists>l' rv. adopt (\<lambda>_. ''{}'') (\<lambda>_. Some (wire (in_beacon demo_inner))) 9 ''r1'' ''pod'' (Inr (Some demo_written)) (Inr ()) =
      ([ApplyLease l'], Some (Inr rv)) \<and> hand_off demo_rv [Observed (Some l')] = Some (Inr ())"
proof -
  have i: "rv_inner demo_rv = demo_inner" by (simp add: demo_rv_def spawn_def)
  have n: "in_id demo_inner = ''r1''" "in_user demo_inner = ''ada''" "in_holder demo_inner = ''r1''"
    by (simp_all add: demo_inner_def)
  have w: "demo_written = lease_object (\<lambda>_. ''{}'') 0 (in_id (rv_inner demo_rv)) (in_user (rv_inner demo_rv))
      (in_holder (rv_inner demo_rv)) (in_beacon (rv_inner demo_rv))"
    unfolding i n by (rule demo_written_def)
  show ?thesis
    using adopt_preserves_lease [of "\<lambda>_. Some (wire (in_beacon demo_inner))" "\<lambda>_. ''{}''" demo_rv,
        OF _ w, where now = 9 and holder = "''pod''" and n = 0, unfolded i n]
    by (simp del: hand_off.simps) blast
qed

end
