(* ===== verification/Resource_Graph.thy ===== *)
theory Resource_Graph
  imports Ztest_Prelude
begin

text \<open>
  The resource graph: identities (\<open>src/src/resource/provider.rs\<close>), node states
  (\<open>src/src/resource/state.rs\<close>) and the executor (\<open>src/src/resource/graph.rs\<close>). The hash map of
  providers is an association list in its (arbitrary) iteration order. A provider is what
  its methods answer during one run. Futures complete in any order: \<open>pick\<close> chooses the next
  one from the history so far, and every theorem is for all \<open>pick\<close>. The \<open>on_change\<close> callback is
  the log. The locale \<open>dependency_graph\<close> is what a checked graph offers to the executor.
\<close>

section \<open>Identities and states\<close>

datatype node_id =
    Image string
  | Seed string
  | Namespace string
  | NodeLabel string
  | RunIdentity
  | Buildkit
  | Observability
  | MetricsApi

definition is_optional :: "node_id \<Rightarrow> bool" where
  "is_optional n \<longleftrightarrow> (case n of Observability \<Rightarrow> True | MetricsApi \<Rightarrow> True | _ \<Rightarrow> False)"

definition display_label :: "node_id \<Rightarrow> string" where
  "display_label n = (case n of
     Image tag \<Rightarrow> tag
   | Seed name \<Rightarrow> name
   | Namespace ns \<Rightarrow> ''ns/'' @ ns
   | NodeLabel k \<Rightarrow> ''label/'' @ k
   | RunIdentity \<Rightarrow> ''run-identity''
   | Buildkit \<Rightarrow> ''buildkit''
   | Observability \<Rightarrow> ''metrics-stack''
   | MetricsApi \<Rightarrow> ''metrics-api'')"

datatype node_state = Pending | Acquiring | Ready | Failed string | Blocked

fun is_ready :: "node_state \<Rightarrow> bool" where
  "is_ready Ready = True"
| "is_ready _ = False"

fun is_terminal :: "node_state \<Rightarrow> bool" where
  "is_terminal Ready = True"
| "is_terminal (Failed _) = True"
| "is_terminal Blocked = True"
| "is_terminal _ = False"

fun is_unavailable :: "node_state \<Rightarrow> bool" where
  "is_unavailable (Failed _) = True"
| "is_unavailable Blocked = True"
| "is_unavailable _ = False"

datatype lifetime = Cached | RunScoped

definition is_reaped :: "lifetime \<Rightarrow> bool" where
  "is_reaped l \<longleftrightarrow> l \<noteq> Cached"

datatype readiness = ReadyAlready | Absent

datatype resource_error = Provision string | Teardown string

definition resource_error_show :: "resource_error \<Rightarrow> string" where
  "resource_error_show e = (case e of
     Provision s \<Rightarrow> ''provision: '' @ s
   | Teardown s \<Rightarrow> ''teardown: '' @ s)"

record provider =
  p_id :: node_id
  p_deps :: "node_id list"
  p_lifetime :: lifetime
  p_probe :: readiness
  p_provision :: "resource_error + unit"
  p_teardown :: "resource_error + unit"

type_synonym graph = "(node_id \<times> provider) list"

datatype graph_error = Duplicate node_id | MissingDep node_id node_id | Cycle nat

section \<open>Building and validating\<close>

definition graph_add :: "provider \<Rightarrow> graph \<Rightarrow> graph_error + graph" where
  "graph_add p g = (if map_of g (p_id p) \<noteq> None then Inl (Duplicate (p_id p))
     else Inr (alist_insert (p_id p) p g))"

definition graph_add_dedup :: "provider \<Rightarrow> graph \<Rightarrow> graph" where
  "graph_add_dedup p g = (if map_of g (p_id p) \<noteq> None then g else alist_insert (p_id p) p g)"

fun missing_dep :: "graph \<Rightarrow> graph \<Rightarrow> graph_error option" where
  "missing_dep g [] = None"
| "missing_dep g ((n, p) # rest) = (case filter (\<lambda>d. map_of g d = None) (p_deps p) of
     d # _ \<Rightarrow> Some (MissingDep n d)
   | [] \<Rightarrow> missing_dep g rest)"

text \<open>Peeling one node: \<open>None\<close> is a panic (an unseeded entry, or an underflow).\<close>

fun kahn_relax ::
  "node_id \<Rightarrow> graph \<Rightarrow> (node_id \<times> nat) list \<Rightarrow> node_id list \<Rightarrow>
   ((node_id \<times> nat) list \<times> node_id list) option" where
  "kahn_relax n [] ind q = Some (ind, q)"
| "kahn_relax n ((m, p) # rest) ind q =
     (if n \<in> set (p_deps p) then
        (case map_of ind m of
           None \<Rightarrow> None
         | Some d \<Rightarrow>
             if d = 0 then None
             else kahn_relax n rest (AList.update m (d - 1) ind) (if d - 1 = 0 then q @ [m] else q))
      else kahn_relax n rest ind q)"

definition open_count :: "(node_id \<times> nat) list \<Rightarrow> nat" where
  "open_count ind = length (filter (\<lambda>(_, d). d > 0) ind)"

lemma open_count_update:
  "map_of ind m = Some d \<Longrightarrow> d > 0 \<Longrightarrow>
   open_count (AList.update m (d - 1) ind) + (if d - 1 = 0 then 1 else 0) = open_count ind"
  by (induction ind) (auto simp: open_count_def)

lemma kahn_relax_measure:
  "kahn_relax n ms ind q = Some (ind', q') \<Longrightarrow>
   length q' + open_count ind' = length q + open_count ind"
proof (induction n ms ind q rule: kahn_relax.induct)
  case (2 n m p rest ind q)
  show ?case
  proof (cases "n \<in> set (p_deps p)")
    case True
    then obtain d where d: "map_of ind m = Some d" "d > 0"
      using "2.prems" by (auto split: option.splits if_splits)
    with True 2 have "length q' + open_count ind' =
        length (if d - 1 = 0 then q @ [m] else q) + open_count (AList.update m (d - 1) ind)"
      by (auto split: if_splits)
    with open_count_update [OF d] show ?thesis by (auto split: if_splits)
  qed (use 2 in auto)
qed simp

function kahn :: "graph \<Rightarrow> (node_id \<times> nat) list \<Rightarrow> node_id list \<Rightarrow> nat \<Rightarrow> nat option" where
  "kahn g ind [] peeled = Some peeled"
| "kahn g ind (n # q) peeled = (case kahn_relax n g ind q of
     None \<Rightarrow> None
   | Some (ind', q') \<Rightarrow> kahn g ind' q' (peeled + 1))"
  by pat_completeness auto

termination
  by (relation "measure (\<lambda>(g, ind, q, k). length q + open_count ind)")
    (auto dest: kahn_relax_measure [symmetric])

definition indegrees :: "graph \<Rightarrow> (node_id \<times> nat) list" where
  "indegrees g = map (\<lambda>(n, p). (n, length (p_deps p))) g"

text \<open>The outer \<open>None\<close> is a panic.\<close>

definition validate :: "graph \<Rightarrow> (graph_error + unit) option" where
  "validate g = (case missing_dep g g of
     Some e \<Rightarrow> Some (Inl e)
   | None \<Rightarrow>
       (let ind = indegrees g; q = map fst (filter (\<lambda>(_, d). d = 0) ind)
        in map_option (\<lambda>peeled. if peeled \<noteq> length g then Inl (Cycle (length g - peeled)) else Inr ())
             (kahn g ind q 0)))"

section \<open>Provisioning\<close>

definition run_one :: "provider \<Rightarrow> node_state" where
  "run_one p = (case p_probe p of
     ReadyAlready \<Rightarrow> Ready
   | Absent \<Rightarrow> (case p_provision p of
       Inr _ \<Rightarrow> Ready
     | Inl e \<Rightarrow> Failed (resource_error_show e)))"

type_synonym states = "(node_id \<times> node_state) list"

record prov =
  pv_states :: states
  pv_inflight :: "(node_id \<times> node_state) list"
  pv_log :: "(node_id \<times> node_state) list"

definition has_state :: "states \<Rightarrow> (node_state \<Rightarrow> bool) \<Rightarrow> node_id \<Rightarrow> bool" where
  "has_state st P n = (case map_of st n of Some s \<Rightarrow> P s | None \<Rightarrow> False)"

definition to_block :: "graph \<Rightarrow> states \<Rightarrow> graph" where
  "to_block g st = filter (\<lambda>(n, p). map_of st n = Some Pending \<and>
     list_ex (has_state st is_unavailable) (p_deps p)) g"

definition to_run :: "graph \<Rightarrow> states \<Rightarrow> graph" where
  "to_run g st = filter (\<lambda>(n, p). map_of st n = Some Pending \<and>
     \<not> list_ex (has_state st is_unavailable) (p_deps p) \<and>
     list_all (has_state st is_ready) (p_deps p)) g"

definition set_state :: "node_id \<Rightarrow> node_state \<Rightarrow> prov \<Rightarrow> prov" where
  "set_state n s c = c\<lparr>pv_states := AList.update n s (pv_states c), pv_log := pv_log c @ [(n, s)]\<rparr>"

definition block_all :: "graph \<Rightarrow> prov \<Rightarrow> prov" where
  "block_all ns c = foldl (\<lambda>c (n, p). set_state n Blocked c) c ns"

definition launch_all :: "graph \<Rightarrow> prov \<Rightarrow> prov" where
  "launch_all ns c = foldl (\<lambda>c (n, p).
     (set_state n Acquiring c)\<lparr>pv_inflight := pv_inflight c @ [(n, run_one p)]\<rparr>) c ns"

text \<open>One pass of the loop up to the wait; the flag is \<open>blocked_any\<close>.\<close>

definition provision_round :: "graph \<Rightarrow> nat \<Rightarrow> prov \<Rightarrow> bool \<times> prov" where
  "provision_round g cap c =
     (let b = to_block g (pv_states c); r = to_run g (pv_states c); c1 = block_all b c;
          free = cap - length (pv_inflight c1)
      in (b \<noteq> [], launch_all (take free r) c1))"

definition complete :: "node_id \<times> node_state \<Rightarrow> prov \<Rightarrow> prov" where
  "complete x c = (set_state (fst x) (snd x) c)\<lparr>pv_inflight := remove1 x (pv_inflight c)\<rparr>"

definition pending_count :: "states \<Rightarrow> nat" where
  "pending_count st = length (filter (\<lambda>(_, s). s = Pending) st)"

partial_function (option) provision_loop ::
  "graph \<Rightarrow> nat \<Rightarrow> ((node_id \<times> node_state) list \<Rightarrow> nat) \<Rightarrow> prov \<Rightarrow> prov option" where
  "provision_loop g cap pick c =
     (let (blocked_any, c1) = provision_round g cap c in
      if pv_inflight c1 = [] then
        (if blocked_any then provision_loop g cap pick c1 else Some c1)
      else
        provision_loop g cap pick
          (complete (pv_inflight c1 ! (pick (pv_log c1) mod length (pv_inflight c1))) c1))"

definition prov_start :: "graph \<Rightarrow> prov" where
  "prov_start g = \<lparr>pv_states = map (\<lambda>(n, _). (n, Pending)) g, pv_inflight = [], pv_log = []\<rparr>"

definition provision ::
  "graph \<Rightarrow> nat \<Rightarrow> ((node_id \<times> node_state) list \<Rightarrow> nat) \<Rightarrow> prov option" where
  "provision g max_concurrent pick = provision_loop g (max max_concurrent 1) pick (prov_start g)"

section \<open>Teardown\<close>

record tear =
  td_remaining :: "node_id list"
  td_gone :: "node_id list"
  td_launched :: "node_id list"
  td_inflight :: "(node_id \<times> (resource_error + unit)) list"
  td_results :: "(node_id \<times> (resource_error + unit)) list"

definition dependents :: "graph \<Rightarrow> node_id \<Rightarrow> node_id list" where
  "dependents g x = map fst (filter (\<lambda>(n, p). x \<in> set (p_deps p)) g)"

definition teardown_start :: "graph \<Rightarrow> states \<Rightarrow> tear" where
  "teardown_start g st =
     (let remaining = map fst (filter (\<lambda>(n, p). has_state st is_ready n \<and> is_reaped (p_lifetime p)) g)
      in \<lparr>td_remaining = remaining, td_gone = filter (\<lambda>n. n \<notin> set remaining) (map fst g),
          td_launched = [], td_inflight = [], td_results = []\<rparr>)"

definition teardown_ready :: "graph \<Rightarrow> tear \<Rightarrow> node_id list" where
  "teardown_ready g t = filter (\<lambda>n. n \<notin> set (td_launched t) \<and>
     list_all (\<lambda>d. d \<in> set (td_gone t)) (dependents g n)) (td_remaining t)"

definition teardown_launch :: "graph \<Rightarrow> tear \<Rightarrow> tear option" where
  "teardown_launch g t =
     (let ready = teardown_ready g t
      in if list_all (\<lambda>n. map_of g n \<noteq> None) ready
         then Some (t\<lparr>td_launched := td_launched t @ ready,
                td_inflight := td_inflight t @ map (\<lambda>n. (n, p_teardown (the (map_of g n)))) ready\<rparr>)
         else None)"

definition teardown_done :: "node_id \<times> (resource_error + unit) \<Rightarrow> tear \<Rightarrow> tear" where
  "teardown_done x t = t\<lparr>td_remaining := remove1 (fst x) (td_remaining t),
     td_gone := td_gone t @ [fst x], td_inflight := remove1 x (td_inflight t),
     td_results := td_results t @ [x]\<rparr>"

partial_function (option) teardown_loop ::
  "graph \<Rightarrow> ((node_id \<times> (resource_error + unit)) list \<Rightarrow> nat) \<Rightarrow> tear \<Rightarrow> tear option" where
  "teardown_loop g pick t =
     Option.bind (teardown_launch g t) (\<lambda>t1.
       if td_inflight t1 = [] then Some t1
       else teardown_loop g pick
         (teardown_done (td_inflight t1 ! (pick (td_results t1) mod length (td_inflight t1))) t1))"

definition teardown ::
  "graph \<Rightarrow> ((node_id \<times> (resource_error + unit)) list \<Rightarrow> nat) \<Rightarrow> states \<Rightarrow>
   (node_id \<times> (resource_error + unit)) list option" where
  "teardown g pick st = map_option td_results (teardown_loop g pick (teardown_start g st))"

section \<open>What a checked graph offers\<close>

locale dependency_graph =
  fixes nodes :: "'n set"
    and deps :: "'n \<Rightarrow> 'n set"
  assumes finite_nodes: "finite nodes"
    and deps_in: "n \<in> nodes \<Longrightarrow> deps n \<subseteq> nodes"
    and acyclic_deps: "acyclic {(d, n). n \<in> nodes \<and> d \<in> deps n}"
begin

lemma wf_deps: "wf {(d, n). n \<in> nodes \<and> d \<in> deps n}"
proof -
  have "{(d, n). n \<in> nodes \<and> d \<in> deps n} \<subseteq> nodes \<times> nodes" using deps_in by auto
  then have "finite {(d, n). n \<in> nodes \<and> d \<in> deps n}"
    using finite_nodes by (meson finite_SigmaI finite_subset)
  then show ?thesis using acyclic_deps by (rule finite_acyclic_wf)
qed

lemma wf_dependents: "wf ({(d, n). n \<in> nodes \<and> d \<in> deps n}\<inverse>)"
proof -
  have "{(d, n). n \<in> nodes \<and> d \<in> deps n} \<subseteq> nodes \<times> nodes" using deps_in by auto
  then have "finite {(d, n). n \<in> nodes \<and> d \<in> deps n}"
    using finite_nodes by (meson finite_SigmaI finite_subset)
  then show ?thesis using acyclic_deps by (rule finite_acyclic_wf_converse)
qed

lemma first_of:
  assumes "n \<in> R" and "R \<subseteq> nodes"
  shows "\<exists>m\<in>R. deps m \<inter> R = {}"
proof -
  obtain m where m: "m \<in> R" and l: "\<And>k. (k, m) \<in> {(d, n). n \<in> nodes \<and> d \<in> deps n} \<Longrightarrow> k \<notin> R"
    using wfE_min [OF wf_deps assms(1)] by metis
  have "m \<in> nodes" using m assms(2) by blast
  then have "k \<notin> R" if "k \<in> deps m" for k using l [of k] that by simp
  with m show ?thesis by blast
qed

lemma last_of:
  assumes "n \<in> R" and "R \<subseteq> nodes"
  shows "\<exists>m\<in>R. \<forall>k\<in>R. m \<notin> deps k"
proof -
  obtain m where m: "m \<in> R" and l: "\<And>k. (k, m) \<in> {(d, n). n \<in> nodes \<and> d \<in> deps n}\<inverse> \<Longrightarrow> k \<notin> R"
    using wfE_min [OF wf_dependents assms(1)] by metis
  have "m \<notin> deps k" if "k \<in> R" for k using l [of k] that assms(2) by auto
  with m show ?thesis by blast
qed

end

section \<open>Kahn's check\<close>

definition node_deps :: "graph \<Rightarrow> node_id \<Rightarrow> node_id set" where
  "node_deps g n = (case map_of g n of Some p \<Rightarrow> set (p_deps p) | None \<Rightarrow> {})"

definition dep_rel :: "graph \<Rightarrow> (node_id \<times> node_id) set" where
  "dep_rel g = {(d, n). n \<in> fst ` set g \<and> d \<in> node_deps g n}"

definition well_keyed :: "graph \<Rightarrow> bool" where
  "well_keyed g \<longleftrightarrow> distinct (map fst g) \<and> list_all (\<lambda>(n, p). distinct (p_deps p)) g"

lemma map_of_graph: "distinct (map fst g) \<Longrightarrow> (n, p) \<in> set g \<longleftrightarrow> map_of g n = Some p"
  by (simp add: map_of_eq_Some_iff)

lemma missing_dep_None:
  "missing_dep g ms = None \<longleftrightarrow> (\<forall>(n, p) \<in> set ms. set (p_deps p) \<subseteq> fst ` set g)"
proof (induction g ms rule: missing_dep.induct)
  case (2 g n p rest)
  have "filter (\<lambda>d. map_of g d = None) (p_deps p) = [] \<longleftrightarrow> set (p_deps p) \<subseteq> fst ` set g"
    by (auto simp: filter_empty_conv map_of_eq_None_iff)
  with 2 show ?case by (auto split: list.splits)
qed simp

definition newly_free :: "node_id \<Rightarrow> graph \<Rightarrow> (node_id \<times> nat) list \<Rightarrow> node_id list" where
  "newly_free x ms ind = map fst (filter (\<lambda>(m, p). x \<in> set (p_deps p) \<and> map_of ind m = Some 1) ms)"

lemma kahn_relax_spec:
  assumes "distinct (map fst ms)"
    and "\<And>m p. (m, p) \<in> set ms \<Longrightarrow> x \<in> set (p_deps p) \<Longrightarrow> \<exists>d>0. map_of ind m = Some d"
  shows "\<exists>ind'. kahn_relax x ms ind q = Some (ind', q @ newly_free x ms ind) \<and>
    (\<forall>m. map_of ind' m = (if \<exists>p. (m, p) \<in> set ms \<and> x \<in> set (p_deps p)
       then map_option (\<lambda>d. d - 1) (map_of ind m) else map_of ind m))"
  using assms
proof (induction ms arbitrary: ind q)
  case (Cons mp ms)
  obtain m p where mp: "mp = (m, p)" by (cases mp)
  have m: "m \<notin> fst ` set ms" and dist: "distinct (map fst ms)" using Cons.prems(1) mp by auto
  show ?case
  proof (cases "x \<in> set (p_deps p)")
    case False
    obtain ind' where "kahn_relax x ms ind q = Some (ind', q @ newly_free x ms ind)"
      and l: "\<forall>k. map_of ind' k = (if \<exists>p. (k, p) \<in> set ms \<and> x \<in> set (p_deps p)
        then map_option (\<lambda>d. d - 1) (map_of ind k) else map_of ind k)"
      using Cons.IH [OF dist, of ind q] Cons.prems(2) mp by (metis list.set_intros(2))
    moreover have "\<forall>k. (\<exists>p. (k, p) \<in> set (mp # ms) \<and> x \<in> set (p_deps p)) \<longleftrightarrow>
        (\<exists>p. (k, p) \<in> set ms \<and> x \<in> set (p_deps p))"
      using False mp by auto
    ultimately show ?thesis
      using False by (simp add: mp newly_free_def)
  next
    case True
    then obtain d where d: "d > 0" "map_of ind m = Some d" using Cons.prems(2) mp by auto
    let ?ind = "AList.update m (d - 1) ind"
    have same: "map_of ?ind k = map_of ind k" if "(k, r) \<in> set ms" for k r
    proof -
      have "k \<noteq> m" using that m by force
      then show ?thesis by (simp add: AList.update_conv')
    qed
    have nf: "newly_free x ms ?ind = newly_free x ms ind"
      unfolding newly_free_def
      by (intro arg_cong [where f = "map fst"] filter_cong) (auto simp: same simp del: One_nat_def)
    have pos: "\<exists>d>0. map_of ?ind k = Some d" if "(k, r) \<in> set ms" "x \<in> set (p_deps r)" for k r
      unfolding same [OF that(1)] using Cons.prems(2) [of k r] that by simp
    let ?q = "if d - 1 = 0 then q @ [m] else q"
    have "\<exists>ind'. kahn_relax x ms ?ind ?q = Some (ind', ?q @ newly_free x ms ?ind) \<and>
      (\<forall>k. map_of ind' k = (if \<exists>p. (k, p) \<in> set ms \<and> x \<in> set (p_deps p)
         then map_option (\<lambda>d. d - 1) (map_of ?ind k) else map_of ?ind k))"
      by (rule Cons.IH [OF dist]) (rule pos)
    then obtain ind' where r: "kahn_relax x ms ?ind ?q = Some (ind', ?q @ newly_free x ms ind)"
      and l: "\<And>k. map_of ind' k = (if \<exists>p. (k, p) \<in> set ms \<and> x \<in> set (p_deps p)
        then map_option (\<lambda>d. d - 1) (map_of ?ind k) else map_of ?ind k)"
      unfolding nf by blast
    have "map_of ind' k = (if \<exists>p. (k, p) \<in> set (mp # ms) \<and> x \<in> set (p_deps p)
       then map_option (\<lambda>d. d - 1) (map_of ind k) else map_of ind k)" for k
    proof (cases "k = m")
      case True
      then have "\<not> (\<exists>p. (k, p) \<in> set ms \<and> x \<in> set (p_deps p))" using m by force
      then show ?thesis using \<open>x \<in> set (p_deps p)\<close> True d mp by (auto simp: l AList.update_conv')
    next
      case False
      then show ?thesis by (auto simp: l AList.update_conv' mp)
    qed
    moreover have "q @ newly_free x (mp # ms) ind = (if d - 1 = 0 then q @ [m] else q) @ newly_free x ms ind"
      using True d by (auto simp: newly_free_def mp)
    ultimately show ?thesis using True d r by (simp add: mp)
  qed
qed (simp add: newly_free_def)

definition kahn_inv :: "graph \<Rightarrow> node_id list \<Rightarrow> (node_id \<times> nat) list \<Rightarrow> node_id list \<Rightarrow> bool" where
  "kahn_inv g P ind q \<longleftrightarrow> distinct (P @ q) \<and> set (P @ q) \<subseteq> fst ` set g \<and>
     (\<forall>n\<in>fst ` set g. map_of ind n = Some (card (node_deps g n - set P)) \<and>
        (n \<in> set (P @ q) \<longleftrightarrow> node_deps g n \<subseteq> set P)) \<and>
     (\<forall>n\<in>set P. node_deps g n \<subseteq> set P) \<and> acyclic {(d, n). n \<in> set P \<and> d \<in> node_deps g n}"

lemma finite_node_deps [simp]: "finite (node_deps g n)"
  by (simp add: node_deps_def split: option.split)

lemma acyclic_snoc:
  assumes "acyclic {(d, n). n \<in> P \<and> d \<in> D n}" and "\<forall>n\<in>P. D n \<subseteq> P" and "D x \<subseteq> P" and "x \<notin> P"
  shows "acyclic {(d, n). n \<in> insert x P \<and> d \<in> D n}"
proof -
  let ?r = "{(d, n). n \<in> P \<and> d \<in> D n}"
  have s: "(a, b) \<in> ({(d, n). n \<in> insert x P \<and> d \<in> D n})\<^sup>+ \<Longrightarrow> a \<in> P \<and> (b = x \<or> (b \<in> P \<and> (a, b) \<in> ?r\<^sup>+))" for a b
  proof (induction rule: trancl_induct)
    case (base y)
    then show ?case using assms(2,3,4) by auto
  next
    case (step y z)
    then have y: "y \<in> P" using assms(2,3) by auto
    with step assms(4) have "(a, y) \<in> ?r\<^sup>+" by auto
    with step y show ?case by (auto intro: trancl_into_trancl)
  qed
  have "(a, a) \<notin> {(d, n). n \<in> insert x P \<and> d \<in> D n}\<^sup>+" for a
  proof
    assume "(a, a) \<in> {(d, n). n \<in> insert x P \<and> d \<in> D n}\<^sup>+"
    from s [OF this] assms(4) have "(a, a) \<in> ?r\<^sup>+" by blast
    with assms(1) show False unfolding acyclic_def by blast
  qed
  then show ?thesis unfolding acyclic_def by blast
qed

lemma well_keyed_deps: "well_keyed g \<Longrightarrow> (n, p) \<in> set g \<Longrightarrow> node_deps g n = set (p_deps p) \<and> distinct (p_deps p)"
  unfolding well_keyed_def node_deps_def list_all_iff by (auto dest: map_of_is_SomeI)

lemma deps_pairs:
  "well_keyed g \<Longrightarrow> (\<exists>p. (m, p) \<in> set g \<and> x \<in> set (p_deps p)) \<longleftrightarrow> m \<in> fst ` set g \<and> x \<in> node_deps g m"
  using well_keyed_deps by (force simp: image_iff)

lemma newly_free_iff:
  "well_keyed g \<Longrightarrow> m \<in> set (newly_free x g ind) \<longleftrightarrow>
   m \<in> fst ` set g \<and> x \<in> node_deps g m \<and> map_of ind m = Some 1"
  using well_keyed_deps unfolding newly_free_def by (force simp: image_iff)

lemma kahn_inv_step:
  assumes wk: "well_keyed g" and inv: "kahn_inv g P ind (x # q)"
  shows "\<exists>ind' q'. kahn_relax x g ind q = Some (ind', q') \<and> kahn_inv g (P @ [x]) ind' q'"
proof -
  let ?N = "fst ` set g" and ?new = "newly_free x g ind"
  have x: "x \<notin> set P" "x \<notin> set q" "x \<in> ?N" and ind: "\<And>n. n \<in> ?N \<Longrightarrow> map_of ind n = Some (card (node_deps g n - set P))"
    and iff: "\<And>n. n \<in> ?N \<Longrightarrow> n \<in> set (P @ x # q) \<longleftrightarrow> node_deps g n \<subseteq> set P"
    and closed: "\<forall>n\<in>set P. node_deps g n \<subseteq> set P" and ac: "acyclic {(d, n). n \<in> set P \<and> d \<in> node_deps g n}"
    using inv by (auto simp: kahn_inv_def)
  have xP: "node_deps g x \<subseteq> set P" using iff [OF x(3)] by simp
  have pos: "card (node_deps g n - set P) > 0" if "x \<in> node_deps g n" for n
    using that x(1) by (auto simp: card_gt_0_iff)
  have "\<exists>d>0. map_of ind m = Some d" if "(m, p) \<in> set g" "x \<in> set (p_deps p)" for m p
  proof -
    have "m \<in> ?N" using that(1) by force
    moreover have "x \<in> node_deps g m" using that well_keyed_deps [OF wk] by auto
    ultimately show ?thesis using ind pos by simp
  qed
  moreover have "distinct (map fst g)" using wk by (simp add: well_keyed_def)
  ultimately obtain ind' where r: "kahn_relax x g ind q = Some (ind', q @ ?new)"
    and l: "\<And>m. map_of ind' m = (if m \<in> ?N \<and> x \<in> node_deps g m
       then map_option (\<lambda>d. d - 1) (map_of ind m) else map_of ind m)"
    using kahn_relax_spec [of g x ind q] unfolding deps_pairs [OF wk] by blast
  have new: "m \<in> set ?new \<longleftrightarrow> m \<in> ?N \<and> node_deps g m \<subseteq> set (P @ [x]) \<and> \<not> node_deps g m \<subseteq> set P" for m
  proof -
    have "card (node_deps g m - set P) = 1 \<longleftrightarrow> node_deps g m - set P = {x}" if "x \<in> node_deps g m"
    proof
      have "x \<in> node_deps g m - set P" using that x(1) by simp
      then show "node_deps g m - set P = {x}" if "card (node_deps g m - set P) = 1"
        using that by (metis card_1_singletonE singletonD)
    qed simp
    then have "x \<in> node_deps g m \<and> card (node_deps g m - set P) = 1 \<longleftrightarrow> node_deps g m - set P = {x}"
      by blast
    moreover have "node_deps g m - set P = {x} \<longleftrightarrow> node_deps g m \<subseteq> set (P @ [x]) \<and> \<not> node_deps g m \<subseteq> set P"
      using x(1) by auto
    ultimately show ?thesis
      using ind [of m] by (cases "m \<in> ?N") (simp_all add: newly_free_iff [OF wk] del: One_nat_def)
  qed
  have "distinct ?new"
    using wk unfolding newly_free_def well_keyed_def by (simp add: distinct_map_filter)
  moreover have "set ?new \<inter> set (P @ x # q) = {}" using new iff by blast
  moreover have "distinct (P @ x # q)" "set (P @ x # q) \<subseteq> ?N" using inv by (auto simp: kahn_inv_def)
  ultimately have d: "distinct ((P @ [x]) @ q @ ?new)" "set ((P @ [x]) @ q @ ?new) \<subseteq> ?N"
    using new by auto
  have card: "map_of ind' n = Some (card (node_deps g n - set (P @ [x])))" if n: "n \<in> ?N" for n
  proof (cases "x \<in> node_deps g n")
    case True
    have "node_deps g n - set (P @ [x]) = node_deps g n - set P - {x}" by auto
    then have "card (node_deps g n - set (P @ [x])) = card (node_deps g n - set P) - 1"
      using True x(1) by simp
    then show ?thesis using True n ind by (simp add: l)
  next
    case False
    then have "node_deps g n - set (P @ [x]) = node_deps g n - set P" by auto
    then show ?thesis using False n ind by (simp add: l)
  qed
  have mem: "n \<in> set ((P @ [x]) @ q @ ?new) \<longleftrightarrow> node_deps g n \<subseteq> set (P @ [x])" if n: "n \<in> ?N" for n
  proof -
    have "n \<in> set ((P @ [x]) @ q @ ?new) \<longleftrightarrow> n \<in> set (P @ x # q) \<or> n \<in> set ?new" by auto
    then show ?thesis using iff [OF n] new [of n] n by auto
  qed
  have "acyclic {(d, n). n \<in> set (P @ [x]) \<and> d \<in> node_deps g n}"
    using acyclic_snoc [OF ac closed xP x(1)] by simp
  moreover have "\<forall>n\<in>set (P @ [x]). node_deps g n \<subseteq> set (P @ [x])" using closed xP by auto
  ultimately have "kahn_inv g (P @ [x]) ind' (q @ ?new)"
    unfolding kahn_inv_def using d card mem by blast
  with r show ?thesis by blast
qed

lemma kahn_result:
  assumes "well_keyed g" and "kahn_inv g P ind q"
  shows "\<exists>P' ind'. kahn g ind q (length P) = Some (length P') \<and> kahn_inv g P' ind' []"
  using assms
proof (induction g ind q "length P" arbitrary: P rule: kahn.induct)
  case (2 g ind x q)
  from kahn_inv_step [OF 2(2,3)] obtain ind' q' where
    r: "kahn_relax x g ind q = Some (ind', q')" and i: "kahn_inv g (P @ [x]) ind' q'"
    by blast
  from 2(1) [OF r refl, of "P @ [x]", OF _ 2(2) i] show ?case by (simp add: r)
qed auto

lemma map_of_indegrees: "map_of (indegrees g) n = map_option (\<lambda>p. length (p_deps p)) (map_of g n)"
  by (induction g) (auto simp: indegrees_def)

lemma kahn_inv_start:
  assumes "well_keyed g"
  shows "kahn_inv g [] (indegrees g) (map fst (filter (\<lambda>(_, d). d = 0) (indegrees g)))"
proof -
  let ?q = "map fst (filter (\<lambda>(_, d). d = 0) (indegrees g))"
  have k: "map fst (indegrees g) = map fst g" by (simp add: indegrees_def case_prod_beta comp_def)
  have dg: "distinct (map fst g)" using assms by (simp add: well_keyed_def)
  then have "distinct ?q" using k distinct_map_filter [of fst "indegrees g"] by simp
  moreover have "set ?q \<subseteq> fst ` set g" by (auto simp: indegrees_def image_iff) (metis fst_conv)+
  moreover have "map_of (indegrees g) n = Some (card (node_deps g n)) \<and>
      (n \<in> set ?q \<longleftrightarrow> node_deps g n = {})" if n: "n \<in> fst ` set g" for n
  proof -
    obtain p where p: "(n, p) \<in> set g" using n by auto
    note d = well_keyed_deps [OF assms p] map_of_is_SomeI [OF dg p]
    then have i: "map_of (indegrees g) n = Some (card (node_deps g n))"
      by (simp add: map_of_indegrees distinct_card)
    have "distinct (map fst (indegrees g))" using dg k by simp
    then have "n \<in> set ?q \<longleftrightarrow> map_of (indegrees g) n = Some 0"
      by (force simp: map_of_eq_Some_iff image_iff)
    with i show ?thesis by (auto simp: card_eq_0_iff)
  qed
  ultimately show ?thesis by (simp add: kahn_inv_def acyclic_def)
qed

lemma acyclic_dep_rel_min:
  assumes "acyclic (dep_rel g)" and "\<forall>n\<in>fst ` set g. node_deps g n \<subseteq> fst ` set g"
  shows "dependency_graph (fst ` set g) (node_deps g)"
  using assms by unfold_locales (auto simp: dep_rel_def)

lemma peeled_all_iff:
  assumes inv: "kahn_inv g P ind []" and ex: "\<forall>n\<in>fst ` set g. node_deps g n \<subseteq> fst ` set g"
  shows "set P = fst ` set g \<longleftrightarrow> acyclic (dep_rel g)"
proof
  assume "set P = fst ` set g"
  with inv show "acyclic (dep_rel g)" by (simp add: kahn_inv_def dep_rel_def)
next
  assume ac: "acyclic (dep_rel g)"
  show "set P = fst ` set g"
  proof (rule ccontr)
    assume "set P \<noteq> fst ` set g"
    then obtain n where n: "n \<in> fst ` set g - set P" using inv by (auto simp: kahn_inv_def)
    from dependency_graph.first_of [OF acyclic_dep_rel_min [OF ac ex] this]
    obtain m where m: "m \<in> fst ` set g - set P" "node_deps g m \<inter> (fst ` set g - set P) = {}" by auto
    then have "node_deps g m \<subseteq> set P" using ex by blast
    with m inv show False by (auto simp: kahn_inv_def)
  qed
qed

lemma deps_exist_iff:
  "well_keyed g \<Longrightarrow> missing_dep g g = None \<longleftrightarrow> (\<forall>n\<in>fst ` set g. node_deps g n \<subseteq> fst ` set g)"
  unfolding missing_dep_None using well_keyed_deps by fastforce

lemma validate_spec:
  assumes "well_keyed g"
  shows "\<exists>r. validate g = Some r \<and> (r = Inr () \<longleftrightarrow>
    (\<forall>n\<in>fst ` set g. node_deps g n \<subseteq> fst ` set g) \<and> acyclic (dep_rel g))"
proof (cases "missing_dep g g")
  case None
  from kahn_result [OF assms kahn_inv_start [OF assms]] obtain P ind where
    k: "kahn g (indegrees g) (map fst (filter (\<lambda>(_, d). d = 0) (indegrees g))) 0 = Some (length P)"
    and i: "kahn_inv g P ind []"
    by auto
  have ex: "\<forall>n\<in>fst ` set g. node_deps g n \<subseteq> fst ` set g" using None deps_exist_iff [OF assms] by simp
  have "length g = card (fst ` set g)"
    using assms by (metis well_keyed_def distinct_card length_map set_map)
  moreover have "length P = card (set P)" "set P \<subseteq> fst ` set g"
    using i by (auto simp: kahn_inv_def distinct_card)
  ultimately have "length P = length g \<longleftrightarrow> set P = fst ` set g"
    by (metis List.finite_set card_subset_eq finite_imageI)
  with peeled_all_iff [OF i ex] ex show ?thesis
    by (auto simp: validate_def None k Let_def)
next
  case (Some e)
  then have "\<not> (\<forall>n\<in>fst ` set g. node_deps g n \<subseteq> fst ` set g)" using deps_exist_iff [OF assms] by simp
  then show ?thesis by (auto simp: validate_def Some)
qed

text \<open>The nodes of a graph that passes the check, none otherwise.\<close>

definition checked_nodes :: "graph \<Rightarrow> node_id set" where
  "checked_nodes g = (if well_keyed g \<and> validate g = Some (Inr ()) then fst ` set g else {})"

interpretation checked: dependency_graph "checked_nodes g" "node_deps g" for g
proof unfold_locales
  show "finite (checked_nodes g)" by (simp add: checked_nodes_def)
  show "n \<in> checked_nodes g \<Longrightarrow> node_deps g n \<subseteq> checked_nodes g" for n
    using validate_spec [of g] by (auto simp: checked_nodes_def split: if_splits)
  show "acyclic {(d, n). n \<in> checked_nodes g \<and> d \<in> node_deps g n}"
    using validate_spec [of g] by (auto simp: checked_nodes_def dep_rel_def acyclic_def)
qed

text \<open>
  C17. Validation accepts exactly the well-formed graphs. For a graph whose nodes list each
  dependency once, the check returns (it neither panics nor loops), and it returns success
  iff every declared dependency is a node and the dependency relation has no cycle.
\<close>

theorem validate_iff_dag:
  assumes "distinct (map fst g)" and "list_all (\<lambda>(n, p). distinct (p_deps p)) g"
  shows "\<exists>r. validate g = Some r \<and> (r = Inr () \<longleftrightarrow>
    (\<forall>(n, p) \<in> set g. set (p_deps p) \<subseteq> fst ` set g) \<and> acyclic {(d, n). \<exists>p. (n, p) \<in> set g \<and> d \<in> set (p_deps p)})"
proof -
  have wk: "well_keyed g" using assms by (simp add: well_keyed_def)
  have "dep_rel g = {(d, n). \<exists>p. (n, p) \<in> set g \<and> d \<in> set (p_deps p)}"
    by (auto simp: dep_rel_def deps_pairs [OF wk])
  moreover have "(\<forall>n\<in>fst ` set g. node_deps g n \<subseteq> fst ` set g) \<longleftrightarrow>
      (\<forall>(n, p) \<in> set g. set (p_deps p) \<subseteq> fst ` set g)"
    using deps_exist_iff [OF wk] missing_dep_None [of g g] by simp
  ultimately show ?thesis using validate_spec [OF wk] by simp
qed

definition demo_provider :: "string \<Rightarrow> node_id list \<Rightarrow> (resource_error + unit) \<Rightarrow> node_id \<times> provider" where
  "demo_provider s ds r = (Image s, \<lparr>p_id = Image s, p_deps = ds, p_lifetime = RunScoped,
     p_probe = Absent, p_provision = r, p_teardown = Inr ()\<rparr>)"

definition demo_graph :: graph where
  "demo_graph = [demo_provider ''c'' [Image ''b'', Image ''a''] (Inr ()), demo_provider ''a'' [] (Inr ()),
     demo_provider ''b'' [Image ''a''] (Inl (Provision ''no''))]"

lemma demo_graph_valid: "validate demo_graph = Some (Inr ())" "well_keyed demo_graph"
  by code_simp+

theorem validate_iff_dag_witness:
  "validate demo_graph = Some (Inr ()) \<and>
   acyclic {(d, n). \<exists>p. (n, p) \<in> set demo_graph \<and> d \<in> set (p_deps p)}"
  using validate_iff_dag [of demo_graph] demo_graph_valid by (auto simp: well_keyed_def)

text \<open>
  A repeated dependency is reported as a cycle: the in-degree counts it twice and peeling
  takes it off once.
\<close>

theorem validate_repeated_dep:
  "validate [demo_provider ''a'' [] (Inr ()), demo_provider ''b'' [Image ''a'', Image ''a''] (Inr ())] =
     Some (Inl (Cycle 1))"
  by code_simp

section \<open>Provisioning: the atomic steps\<close>

inductive prov_step :: "graph \<Rightarrow> nat \<Rightarrow> prov \<Rightarrow> prov \<Rightarrow> bool" for g cap where
  block: "map_of g n = Some p \<Longrightarrow> map_of (pv_states c) n = Some Pending \<Longrightarrow>
     list_ex (has_state (pv_states c) is_unavailable) (p_deps p) \<Longrightarrow>
     prov_step g cap c (set_state n Blocked c)"
| launch: "map_of g n = Some p \<Longrightarrow> map_of (pv_states c) n = Some Pending \<Longrightarrow>
     list_all (has_state (pv_states c) is_ready) (p_deps p) \<Longrightarrow> length (pv_inflight c) < cap \<Longrightarrow>
     prov_step g cap c ((set_state n Acquiring c)\<lparr>pv_inflight := pv_inflight c @ [(n, run_one p)]\<rparr>)"
| finish: "x \<in> set (pv_inflight c) \<Longrightarrow> prov_step g cap c (complete x c)"

definition node_ok :: "graph \<Rightarrow> states \<Rightarrow> node_id \<Rightarrow> bool" where
  "node_ok g st n = (case map_of g n of None \<Rightarrow> map_of st n = None | Some p \<Rightarrow>
     (case map_of st n of
        None \<Rightarrow> False
      | Some Pending \<Rightarrow> True
      | Some Acquiring \<Rightarrow> list_all (has_state st is_ready) (p_deps p)
      | Some Blocked \<Rightarrow> list_ex (has_state st is_unavailable) (p_deps p)
      | Some s \<Rightarrow> list_all (has_state st is_ready) (p_deps p) \<and> run_one p = s))"

definition starts :: "(node_id \<times> node_state) list \<Rightarrow> nat" where
  "starts log = length (filter (\<lambda>(_, s). s = Acquiring) log)"

definition ends :: "(node_id \<times> node_state) list \<Rightarrow> nat" where
  "ends log = length (filter (\<lambda>(_, s). s \<noteq> Acquiring \<and> s \<noteq> Blocked) log)"

text \<open>What the log shows: launches after their dependencies, once each, under the cap.\<close>

definition log_ok :: "graph \<Rightarrow> nat \<Rightarrow> (node_id \<times> node_state) list \<Rightarrow> bool" where
  "log_ok g cap log \<longleftrightarrow> distinct log \<and>
     (\<forall>pre n post. log = pre @ (n, Acquiring) # post \<longrightarrow>
        (\<exists>p. map_of g n = Some p \<and> (\<forall>d\<in>set (p_deps p). (d, Ready) \<in> set pre))) \<and>
     (\<forall>pre post. log = pre @ post \<longrightarrow> starts pre \<le> ends pre + cap)"

definition prov_ok :: "graph \<Rightarrow> nat \<Rightarrow> prov \<Rightarrow> bool" where
  "prov_ok g cap c \<longleftrightarrow> (\<forall>n. node_ok g (pv_states c) n) \<and>
     distinct (map fst (pv_inflight c)) \<and>
     (\<forall>n s. (n, s) \<in> set (pv_inflight c) \<longleftrightarrow>
        map_of (pv_states c) n = Some Acquiring \<and> (\<exists>p. map_of g n = Some p \<and> s = run_one p)) \<and>
     length (pv_inflight c) \<le> cap \<and>
     (\<forall>n s. (n, s) \<in> set (pv_log c) \<longrightarrow> s \<noteq> Pending \<and> (map_of (pv_states c) n = Some s \<or>
        s = Acquiring \<and> has_state (pv_states c) is_terminal n)) \<and>
     (\<forall>n. has_state (pv_states c) is_ready n \<longrightarrow> (n, Ready) \<in> set (pv_log c)) \<and>
     log_ok g cap (pv_log c) \<and> starts (pv_log c) = ends (pv_log c) + length (pv_inflight c)"

lemma has_state_update:
  "has_state (AList.update n s st) P m = (if m = n then P s else has_state st P m)"
  by (simp add: has_state_def AList.update_conv')

lemma has_state_keep:
  assumes "map_of st n = Some s0" and "s0 = Pending \<or> s0 = Acquiring"
  shows "has_state st is_ready m \<Longrightarrow> has_state (AList.update n s st) is_ready m"
    and "has_state st is_unavailable m \<Longrightarrow> has_state (AList.update n s st) is_unavailable m"
proof -
  have "\<not> has_state st is_ready n" "\<not> has_state st is_unavailable n"
    using assms by (auto simp: has_state_def)
  then show "has_state st is_ready m \<Longrightarrow> has_state (AList.update n s st) is_ready m"
    "has_state st is_unavailable m \<Longrightarrow> has_state (AList.update n s st) is_unavailable m"
    by (auto simp: has_state_update)
qed

lemma node_ok_update:
  assumes "node_ok g st m" and "m \<noteq> n" and "map_of st n = Some s0" and "s0 = Pending \<or> s0 = Acquiring"
  shows "node_ok g (AList.update n s st) m"
proof -
  have r: "list_all (has_state st is_ready) ds \<Longrightarrow> list_all (has_state (AList.update n s st) is_ready) ds"
    and u: "list_ex (has_state st is_unavailable) ds \<Longrightarrow> list_ex (has_state (AList.update n s st) is_unavailable) ds"
    for ds
    using has_state_keep [OF assms(3,4)] unfolding list_all_iff list_ex_iff by blast+
  show ?thesis
    using assms(1,2) r u
    by (auto simp: node_ok_def AList.update_conv' split: option.splits node_state.splits)
qed

lemma log_ok_snoc:
  assumes "log_ok g cap log" and "(n, s) \<notin> set log"
    and "s = Acquiring \<Longrightarrow> \<exists>p. map_of g n = Some p \<and> (\<forall>d\<in>set (p_deps p). (d, Ready) \<in> set log)"
    and "starts (log @ [(n, s)]) \<le> ends (log @ [(n, s)]) + cap"
  shows "log_ok g cap (log @ [(n, s)])"
  unfolding log_ok_def
proof (intro conjI allI impI)
  show "distinct (log @ [(n, s)])" using assms(1,2) by (simp add: log_ok_def)
next
  fix pre m post
  assume "log @ [(n, s)] = pre @ (m, Acquiring) # post"
  then show "\<exists>p. map_of g m = Some p \<and> (\<forall>d\<in>set (p_deps p). (d, Ready) \<in> set pre)"
    using assms(1,3) by (cases post rule: rev_cases) (auto simp: log_ok_def)
next
  fix pre post
  assume "log @ [(n, s)] = pre @ post"
  then show "starts pre \<le> ends pre + cap"
    using assms(1,4) by (cases post rule: rev_cases) (auto simp: log_ok_def)
qed

lemma run_one_terminal: "run_one p = Ready \<or> (\<exists>e. run_one p = Failed e)"
  by (simp add: run_one_def split: readiness.split sum.split)

lemma run_one_not [simp]: "run_one p \<noteq> Acquiring" "run_one p \<noteq> Blocked" "run_one p \<noteq> Pending"
  "is_terminal (run_one p)"
  using run_one_terminal [of p] by auto

lemmas run_one_not_sym [simp] = run_one_not(1-3) [symmetric]

lemma starts_ends_snoc [simp]:
  "starts (log @ [(n, s)]) = starts log + (if s = Acquiring then 1 else 0)"
  "ends (log @ [(n, s)]) = ends log + (if s \<noteq> Acquiring \<and> s \<noteq> Blocked then 1 else 0)"
  by (simp_all add: starts_def ends_def)

lemma prov_okD:
  assumes "prov_ok g cap c"
  shows "node_ok g (pv_states c) n"
    and "distinct (map fst (pv_inflight c))"
    and "(n, s) \<in> set (pv_inflight c) \<longleftrightarrow>
        map_of (pv_states c) n = Some Acquiring \<and> (\<exists>p. map_of g n = Some p \<and> s = run_one p)"
    and "length (pv_inflight c) \<le> cap"
    and "(n, s) \<in> set (pv_log c) \<Longrightarrow> s \<noteq> Pending \<and> (map_of (pv_states c) n = Some s \<or>
        s = Acquiring \<and> has_state (pv_states c) is_terminal n)"
    and "has_state (pv_states c) is_ready n \<Longrightarrow> (n, Ready) \<in> set (pv_log c)"
    and "log_ok g cap (pv_log c)"
    and "starts (pv_log c) = ends (pv_log c) + length (pv_inflight c)"
  using assms by (simp_all add: prov_ok_def)

lemma distinct_map_remove1: "distinct (map f xs) \<Longrightarrow> distinct (map f (remove1 x xs))"
  by (induction xs) (auto dest: set_mp [OF set_remove1_subset])

lemma pending_not_logged:
  assumes "prov_ok g cap c" and "map_of (pv_states c) n = Some Pending"
  shows "(n, s) \<notin> set (pv_log c)"
  using prov_okD(5) [OF assms(1), of n s] assms(2) by (auto simp: has_state_def)

lemma block_ok:
  assumes ok: "prov_ok g cap c" and n: "map_of g n = Some p" "map_of (pv_states c) n = Some Pending"
    and dep: "list_ex (has_state (pv_states c) is_unavailable) (p_deps p)"
  shows "prov_ok g cap (set_state n Blocked c)"
proof -
  let ?st = "pv_states c" and ?st' = "AList.update n Blocked (pv_states c)"
  have "node_ok g ?st' m" for m
  proof (cases "m = n")
    case True
    have "list_ex (has_state ?st' is_unavailable) (p_deps p)"
      using dep has_state_keep(2) [OF n(2)] unfolding list_ex_iff by blast
    then show ?thesis using n by (simp add: True node_ok_def AList.update_conv')
  qed (use node_ok_update [OF prov_okD(1) [OF ok] _ n(2)] in simp)
  moreover have "log_ok g cap (pv_log c @ [(n, Blocked)])"
    by (rule log_ok_snoc [OF prov_okD(7) [OF ok] pending_not_logged [OF ok n(2)]])
      (use prov_okD(4,8) [OF ok] in simp_all)
  moreover have "s \<noteq> Pending \<and> (map_of ?st' m = Some s \<or> s = Acquiring \<and> has_state ?st' is_terminal m)"
    if "(m, s) \<in> set (pv_log c)" for m s
    using prov_okD(5) [OF ok that] pending_not_logged [OF ok n(2), of s] that
    by (auto simp: AList.update_conv' has_state_update)
  ultimately show ?thesis
    using prov_okD(2-4,6,8) [OF ok] n
    by (simp add: prov_ok_def set_state_def AList.update_conv' has_state_update)
qed

lemma launch_ok:
  assumes ok: "prov_ok g cap c" and n: "map_of g n = Some p" "map_of (pv_states c) n = Some Pending"
    and dep: "list_all (has_state (pv_states c) is_ready) (p_deps p)" and cap: "length (pv_inflight c) < cap"
  shows "prov_ok g cap ((set_state n Acquiring c)\<lparr>pv_inflight := pv_inflight c @ [(n, run_one p)]\<rparr>)"
proof -
  let ?st = "pv_states c" and ?st' = "AList.update n Acquiring (pv_states c)"
  have "node_ok g ?st' m" for m
  proof (cases "m = n")
    case True
    have "list_all (has_state ?st' is_ready) (p_deps p)"
      using dep has_state_keep(1) [OF n(2)] unfolding list_all_iff by blast
    then show ?thesis using n by (simp add: True node_ok_def AList.update_conv')
  qed (use node_ok_update [OF prov_okD(1) [OF ok] _ n(2)] in simp)
  moreover have "log_ok g cap (pv_log c @ [(n, Acquiring)])"
    by (rule log_ok_snoc [OF prov_okD(7) [OF ok] pending_not_logged [OF ok n(2)]])
      (use prov_okD(6,8) [OF ok] n(1) dep cap in \<open>simp_all add: list_all_iff\<close>)
  moreover have "s \<noteq> Pending \<and> (map_of ?st' m = Some s \<or> s = Acquiring \<and> has_state ?st' is_terminal m)"
    if "(m, s) \<in> set (pv_log c)" for m s
    using prov_okD(5) [OF ok that] pending_not_logged [OF ok n(2), of s] that
    by (auto simp: AList.update_conv' has_state_update)
  moreover have "n \<notin> fst ` set (pv_inflight c)" using prov_okD(3) [OF ok] n(2) by auto
  moreover have "(m, s) \<in> set (pv_inflight c @ [(n, run_one p)]) \<longleftrightarrow>
      map_of ?st' m = Some Acquiring \<and> (\<exists>p. map_of g m = Some p \<and> s = run_one p)" for m s
    using prov_okD(3) [OF ok, of m s] n by (auto simp: AList.update_conv')
  moreover have "map_of ?st' n = Some Acquiring" by (simp add: AList.update_conv')
  ultimately show ?thesis
    using prov_okD(2,6,8) [OF ok] cap
    by (simp add: prov_ok_def set_state_def has_state_update)
qed

lemma finish_ok:
  assumes ok: "prov_ok g cap c" and x: "x \<in> set (pv_inflight c)"
  shows "prov_ok g cap (complete x c)"
proof -
  obtain n s where xs: "x = (n, s)" by (cases x)
  then obtain p where n: "map_of (pv_states c) n = Some Acquiring" "map_of g n = Some p" "s = run_one p"
    using prov_okD(3) [OF ok, of n s] x by auto
  let ?st = "pv_states c" and ?st' = "AList.update n s (pv_states c)"
  have "node_ok g ?st' m" for m
  proof (cases "m = n")
    case True
    have "list_all (has_state ?st is_ready) (p_deps p)"
      using prov_okD(1) [OF ok, of n] n by (simp add: node_ok_def)
    then have "list_all (has_state ?st' is_ready) (p_deps p)"
      using has_state_keep(1) [OF n(1)] unfolding list_all_iff by blast
    then show ?thesis using n run_one_terminal [of p] by (auto simp: True node_ok_def AList.update_conv')
  qed (use node_ok_update [OF prov_okD(1) [OF ok] _ n(1)] in simp)
  moreover have fresh: "(n, s) \<notin> set (pv_log c)"
    using prov_okD(5) [OF ok, of n s] n by (auto simp: has_state_def)
  moreover have "log_ok g cap (pv_log c @ [(n, s)])"
    by (rule log_ok_snoc [OF prov_okD(7) [OF ok] fresh]) (use prov_okD(4,8) [OF ok] n in simp_all)
  moreover have "t \<noteq> Pending \<and> (map_of ?st' m = Some t \<or> t = Acquiring \<and> has_state ?st' is_terminal m)"
    if "(m, t) \<in> set (pv_log c)" for m t
    using prov_okD(5) [OF ok that] n by (auto simp: AList.update_conv' has_state_update)
  moreover have "distinct (map fst (remove1 x (pv_inflight c)))"
    using prov_okD(2) [OF ok] by (rule distinct_map_remove1)
  moreover have "(m, t) \<in> set (remove1 x (pv_inflight c)) \<longleftrightarrow>
      map_of ?st' m = Some Acquiring \<and> (\<exists>p. map_of g m = Some p \<and> t = run_one p)" for m t
  proof -
    have "distinct (pv_inflight c)" using prov_okD(2) [OF ok] distinct_map by blast
    then have "(m, t) \<in> set (remove1 x (pv_inflight c)) \<longleftrightarrow> (m, t) \<in> set (pv_inflight c) \<and> (m, t) \<noteq> x"
      by (auto simp: set_remove1_eq)
    then show ?thesis using prov_okD(3) [OF ok, of m t] n by (auto simp: xs AList.update_conv')
  qed
  moreover have "length (pv_inflight c) = Suc (length (remove1 x (pv_inflight c)))"
    using x by (simp add: length_remove1) (metis Suc_pred length_pos_if_in_set)
  moreover have "map_of ?st' n = Some s" "s \<noteq> Acquiring" "s \<noteq> Blocked" "s \<noteq> Pending"
    using n by (simp_all add: AList.update_conv')
  moreover have "(m, Ready) \<in> set (pv_log c @ [(n, s)])" if "has_state ?st' is_ready m" for m
    using that prov_okD(6) [OF ok, of m] run_one_terminal [of p] n
    by (auto simp: has_state_update split: if_splits)
  ultimately show ?thesis
    using prov_okD(4,8) [OF ok]
    by (simp add: prov_ok_def set_state_def complete_def xs)
qed

interpretation provisioning: step_system
  "\<lambda>c. c = prov_start g \<and> distinct (map fst g)" "prov_step g cap" "prov_ok g cap" for g cap
proof unfold_locales
  fix c assume "c = prov_start g \<and> distinct (map fst g)"
  moreover have "map_of (map (\<lambda>(n, _). (n, Pending)) g) n = map_option (\<lambda>_. Pending) (map_of g n)" for n
    by (induction g) auto
  ultimately show "prov_ok g cap c"
    by (auto simp: prov_ok_def prov_start_def node_ok_def has_state_def log_ok_def starts_def ends_def
        split: option.splits)
next
  fix c c' assume "prov_ok g cap c" "prov_step g cap c c'"
  then show "prov_ok g cap c'"
    by (auto elim!: prov_step.cases intro: block_ok launch_ok finish_ok)
qed

section \<open>Provisioning: the loop\<close>

definition prov_measure :: "prov \<Rightarrow> nat" where
  "prov_measure c = 2 * pending_count (pv_states c) + length (pv_inflight c)"

lemma pending_count_update:
  "s \<noteq> Pending \<Longrightarrow> pending_count (AList.update n s st) \<le> pending_count st"
  "s \<noteq> Pending \<Longrightarrow> map_of st n = Some Pending \<Longrightarrow> Suc (pending_count (AList.update n s st)) = pending_count st"
  by (induction st) (auto simp: pending_count_def)

lemma prov_step_measure:
  assumes "prov_ok g cap c" and "prov_step g cap c c'"
  shows "prov_measure c' < prov_measure c"
  using assms(2)
proof cases
  case (finish x)
  then have "snd x \<noteq> Pending" using prov_okD(3) [OF assms(1), of "fst x" "snd x"] by auto
  from pending_count_update(1) [OF this, of "fst x" "pv_states c"] finish show ?thesis
    using length_pos_if_in_set [OF finish(2)]
    by (simp add: prov_measure_def complete_def set_state_def length_remove1 del: length_greater_0_conv)
qed (use pending_count_update(2) [of _ "pv_states c"] in \<open>fastforce simp: prov_measure_def set_state_def\<close>)+

lemma prov_steps_ok: "(prov_step g cap)\<^sup>*\<^sup>* c c' \<Longrightarrow> prov_ok g cap c \<Longrightarrow> prov_ok g cap c'"
  by (rule provisioning.steps_invar)

lemma prov_steps_measure:
  "(prov_step g cap ^^ k) c c' \<Longrightarrow> prov_ok g cap c \<Longrightarrow> prov_measure c' + k \<le> prov_measure c"
proof (induction k arbitrary: c')
  case (Suc k)
  then obtain c1 where c1: "(prov_step g cap ^^ k) c c1" "prov_step g cap c1 c'" by auto
  then have "prov_ok g cap c1" using Suc.prems(2) prov_steps_ok relpowp_imp_rtranclp by metis
  from prov_step_measure [OF this c1(2)] Suc.IH [OF c1(1) Suc.prems(2)] show ?case by simp
qed simp

lemma block_all_steps:
  assumes "distinct (map fst ns)"
    and "\<And>n p. (n, p) \<in> set ns \<Longrightarrow> map_of g n = Some p \<and> map_of (pv_states c) n = Some Pending \<and>
      list_ex (has_state (pv_states c) is_unavailable) (p_deps p)"
  shows "(prov_step g cap ^^ length ns) c (block_all ns c) \<and> pv_inflight (block_all ns c) = pv_inflight c \<and>
    (\<forall>m. map_of (pv_states (block_all ns c)) m =
       (if m \<in> fst ` set ns then Some Blocked else map_of (pv_states c) m))"
  using assms
proof (induction ns arbitrary: c)
  case Nil
  then show ?case by (simp add: block_all_def)
next
  case (Cons x ns)
  obtain n p where x: "x = (n, p)" by (cases x)
  let ?c = "set_state n Blocked c"
  have n: "map_of g n = Some p" "map_of (pv_states c) n = Some Pending"
    "list_ex (has_state (pv_states c) is_unavailable) (p_deps p)"
    using Cons.prems(2) x by auto
  have "map_of g m = Some q \<and> map_of (pv_states ?c) m = Some Pending \<and>
      list_ex (has_state (pv_states ?c) is_unavailable) (p_deps q)" if mq: "(m, q) \<in> set ns" for m q
  proof -
    have "m \<noteq> n" using Cons.prems(1) mq x by (auto simp: rev_image_eqI)
    moreover have "list_ex (has_state (pv_states ?c) is_unavailable) (p_deps q)"
      using Cons.prems(2) [of m q] mq has_state_keep(2) [OF n(2)]
      by (fastforce simp: set_state_def list_ex_iff)
    ultimately show ?thesis
      using Cons.prems(2) [of m q] mq by (simp add: set_state_def AList.update_conv')
  qed
  moreover have "distinct (map fst ns)" using Cons.prems(1) by simp
  ultimately have IH: "(prov_step g cap ^^ length ns) ?c (block_all ns ?c) \<and>
      pv_inflight (block_all ns ?c) = pv_inflight ?c \<and>
      (\<forall>m. map_of (pv_states (block_all ns ?c)) m =
         (if m \<in> fst ` set ns then Some Blocked else map_of (pv_states ?c) m))"
    using Cons.IH by blast
  have "prov_step g cap c ?c" using n by (rule prov_step.block)
  then have "(prov_step g cap ^^ length (x # ns)) c (block_all ns ?c)"
    using IH by (metis length_Cons relpowp_Suc_I2)
  with IH show ?case by (auto simp: block_all_def x set_state_def AList.update_conv')
qed

lemma launch_all_steps:
  assumes "distinct (map fst ns)" and "length (pv_inflight c) + length ns \<le> cap"
    and "\<And>n p. (n, p) \<in> set ns \<Longrightarrow> map_of g n = Some p \<and> map_of (pv_states c) n = Some Pending \<and>
      list_all (has_state (pv_states c) is_ready) (p_deps p)"
  shows "(prov_step g cap ^^ length ns) c (launch_all ns c) \<and>
    length (pv_inflight (launch_all ns c)) = length (pv_inflight c) + length ns"
  using assms
proof (induction ns arbitrary: c)
  case Nil
  then show ?case by (simp add: launch_all_def)
next
  case (Cons x ns)
  obtain n p where x: "x = (n, p)" by (cases x)
  let ?c = "(set_state n Acquiring c)\<lparr>pv_inflight := pv_inflight c @ [(n, run_one p)]\<rparr>"
  have n: "map_of g n = Some p" "map_of (pv_states c) n = Some Pending"
    "list_all (has_state (pv_states c) is_ready) (p_deps p)"
    using Cons.prems(3) x by auto
  have "map_of g m = Some q \<and> map_of (pv_states ?c) m = Some Pending \<and>
      list_all (has_state (pv_states ?c) is_ready) (p_deps q)" if mq: "(m, q) \<in> set ns" for m q
  proof -
    have "m \<noteq> n" using Cons.prems(1) mq x by (auto simp: rev_image_eqI)
    moreover have "list_all (has_state (pv_states ?c) is_ready) (p_deps q)"
      using Cons.prems(3) [of m q] mq has_state_keep(1) [OF n(2)]
      by (fastforce simp: set_state_def list_all_iff)
    ultimately show ?thesis
      using Cons.prems(3) [of m q] mq by (simp add: set_state_def AList.update_conv')
  qed
  moreover have "distinct (map fst ns)" "length (pv_inflight ?c) + length ns \<le> cap"
    using Cons.prems(1,2) by simp_all
  ultimately have IH: "(prov_step g cap ^^ length ns) ?c (launch_all ns ?c) \<and>
      length (pv_inflight (launch_all ns ?c)) = length (pv_inflight ?c) + length ns"
    using Cons.IH by blast
  have "prov_step g cap c ?c" using n Cons.prems(2) by (intro prov_step.launch) simp_all
  then have "(prov_step g cap ^^ length (x # ns)) c (launch_all ns ?c)"
    using IH by (metis length_Cons relpowp_Suc_I2)
  with IH show ?case by (simp add: launch_all_def x)
qed

lemma provision_round_steps:
  assumes "distinct (map fst g)" and "provision_round g cap c = (b, c1)" and "length (pv_inflight c) \<le> cap"
  shows "\<exists>k. (prov_step g cap ^^ k) c c1 \<and> (b \<longrightarrow> k > 0) \<and>
    (\<not> b \<and> pv_inflight c1 = [] \<and> cap > 0 \<longrightarrow> c1 = c \<and> to_block g (pv_states c) = [] \<and> to_run g (pv_states c) = [])"
proof -
  let ?b = "to_block g (pv_states c)" and ?r = "to_run g (pv_states c)"
  let ?cb = "block_all ?b c" and ?l = "take (cap - length (pv_inflight c)) ?r"
  have d: "distinct (map fst ?b)" "distinct (map fst ?l)"
    using assms(1) by (simp_all add: to_block_def to_run_def distinct_map_filter flip: take_map)
  have "map_of g n = Some p \<and> map_of (pv_states c) n = Some Pending \<and>
      list_ex (has_state (pv_states c) is_unavailable) (p_deps p)" if "(n, p) \<in> set ?b" for n p
    using that assms(1) by (auto simp: to_block_def)
  from block_all_steps [OF d(1) this, of cap]
  have s1: "(prov_step g cap ^^ length ?b) c ?cb" and i: "pv_inflight ?cb = pv_inflight c"
    and st: "\<And>m. map_of (pv_states ?cb) m = (if m \<in> fst ` set ?b then Some Blocked else map_of (pv_states c) m)"
    by blast+
  have "map_of g n = Some p \<and> map_of (pv_states ?cb) n = Some Pending \<and>
      list_all (has_state (pv_states ?cb) is_ready) (p_deps p)" if np: "(n, p) \<in> set ?l" for n p
  proof -
    have r: "map_of g n = Some p" "map_of (pv_states c) n = Some Pending"
      "\<not> list_ex (has_state (pv_states c) is_unavailable) (p_deps p)"
      "list_all (has_state (pv_states c) is_ready) (p_deps p)"
      using in_set_takeD [OF np] assms(1) by (auto simp: to_run_def)
    have nb: "n \<notin> fst ` set ?b" using r assms(1) by (auto simp: to_block_def dest: eq_key_imp_eq_value)
    have "has_state (pv_states ?cb) is_ready m" if "has_state (pv_states c) is_ready m" for m
    proof -
      have "m \<notin> fst ` set ?b" using that by (auto simp: to_block_def has_state_def)
      with that show ?thesis by (simp add: has_state_def st)
    qed
    with r(4) have "list_all (has_state (pv_states ?cb) is_ready) (p_deps p)" by (simp add: list_all_iff)
    with r nb show ?thesis by (simp add: st)
  qed
  from launch_all_steps [OF d(2) _ this, of cap] i assms(3)
  have s2: "(prov_step g cap ^^ length ?l) ?cb (launch_all ?l ?cb)"
    and len: "length (pv_inflight (launch_all ?l ?cb)) = length (pv_inflight c) + length ?l"
    by simp_all
  have eq: "b \<longleftrightarrow> ?b \<noteq> []" "c1 = launch_all ?l ?cb"
    using assms(2) by (auto simp: provision_round_def Let_def i)
  have steps: "(prov_step g cap ^^ (length ?b + length ?l)) c c1"
    unfolding relpowp_add eq(2) using s1 s2 by blast
  have fin: "c1 = c \<and> ?b = [] \<and> ?r = []" if "\<not> b" "pv_inflight c1 = []" "cap > 0"
  proof -
    have "length (pv_inflight c1) = length (pv_inflight c) + length ?l" using len by (simp only: eq(2))
    then have l: "?l = []" and "pv_inflight c = []" using that(2) by (metis add_is_0 length_0_conv)+
    then have "?r = []" using that(3) by simp
    moreover have b: "?b = []" using that(1) eq(1) by simp
    moreover have "c1 = c" unfolding eq(2) l b by (simp add: launch_all_def block_all_def)
    ultimately show ?thesis by simp
  qed
  have pos: "0 < length ?b + length ?l" if b using that eq(1) by simp
  show ?thesis using steps fin pos by blast
qed

lemma provision_loop_returns:
  assumes "distinct (map fst g)" and "cap > 0" and "prov_ok g cap c"
  shows "\<exists>c'. provision_loop g cap pick c = Some c' \<and> (prov_step g cap)\<^sup>*\<^sup>* c c' \<and> pv_inflight c' = [] \<and>
    to_block g (pv_states c') = [] \<and> to_run g (pv_states c') = []"
  using assms(3)
proof (induction "prov_measure c" arbitrary: c rule: less_induct)
  case less
  obtain b c1 where r: "provision_round g cap c = (b, c1)" by fastforce
  from provision_round_steps [OF assms(1) r prov_okD(4) [OF less.prems]] obtain k where
    k: "(prov_step g cap ^^ k) c c1" "b \<longrightarrow> k > 0"
    and fin: "\<not> b \<and> pv_inflight c1 = [] \<longrightarrow> c1 = c \<and> to_block g (pv_states c) = [] \<and> to_run g (pv_states c) = []"
    using assms(2) by blast
  have s: "(prov_step g cap)\<^sup>*\<^sup>* c c1" using k(1) by (rule relpowp_imp_rtranclp)
  note ok1 = prov_steps_ok [OF s less.prems] and m1 = prov_steps_measure [OF k(1) less.prems]
  let ?x = "pv_inflight c1 ! (pick (pv_log c1) mod length (pv_inflight c1))"
  consider (over) "pv_inflight c1 = []" "\<not> b" | (again) "pv_inflight c1 = []" b | (wait) "pv_inflight c1 \<noteq> []"
    by blast
  then show ?case
  proof cases
    case over
    with fin r show ?thesis by (subst provision_loop.simps) auto
  next
    case again
    with k m1 have "prov_measure c1 < prov_measure c" by simp
    from less.hyps [OF this ok1] again r s show ?thesis
      by (subst provision_loop.simps) (auto intro: rtranclp_trans)
  next
    case wait
    then have "?x \<in> set (pv_inflight c1)" by simp
    then have step: "prov_step g cap c1 (complete ?x c1)" by (rule prov_step.finish)
    have "prov_measure (complete ?x c1) < prov_measure c"
      using prov_step_measure [OF ok1 step] m1 by simp
    from less.hyps [OF this provisioning.step_invar [OF ok1 step]] obtain c' where
      "provision_loop g cap pick (complete ?x c1) = Some c'" "(prov_step g cap)\<^sup>*\<^sup>* (complete ?x c1) c'"
      "pv_inflight c' = [] \<and> to_block g (pv_states c') = [] \<and> to_run g (pv_states c') = []"
      by blast
    with wait r s step show ?thesis
      by (subst provision_loop.simps) (auto intro: rtranclp_trans converse_rtranclp_into_rtranclp)
  qed
qed

definition settled :: "graph \<Rightarrow> states \<Rightarrow> bool" where
  "settled g st \<longleftrightarrow> (\<forall>n p. map_of g n = Some p \<longrightarrow>
     map_of st n = Some (if list_all (has_state st is_ready) (p_deps p) then run_one p else Blocked))"

lemma settledI:
  assumes valid: "well_keyed g" "validate g = Some (Inr ())" and ok: "prov_ok g cap c"
    and fin: "pv_inflight c = []" "to_block g (pv_states c) = []" "to_run g (pv_states c) = []"
  shows "settled g (pv_states c)"
proof -
  let ?st = "pv_states c" and ?N = "checked_nodes g"
  have N: "?N = fst ` set g" using valid by (simp add: checked_nodes_def)
  have in_g: "(n, p) \<in> set g \<longleftrightarrow> map_of g n = Some p" for n p
    by (rule map_of_graph) (use valid(1) in \<open>simp add: well_keyed_def\<close>)
  have known: "\<exists>s. map_of ?st n = Some s \<and> s \<noteq> Acquiring" if "n \<in> ?N" for n
  proof -
    have "\<exists>p. (n, p) \<in> set g" using that by (auto simp: N)
    then obtain p where p: "map_of g n = Some p" using in_g by blast
    then have "map_of ?st n \<noteq> None" using prov_okD(1) [OF ok, of n]
      by (auto simp: node_ok_def split: option.splits)
    moreover have "map_of ?st n \<noteq> Some Acquiring" using prov_okD(3) [OF ok, of n "run_one p"] fin(1) p by auto
    ultimately show ?thesis by auto
  qed
  have no_pending: "map_of ?st n \<noteq> Some Pending" if "n \<in> ?N" for n
  proof
    assume "map_of ?st n = Some Pending"
    with that obtain m where m: "m \<in> ?N" "map_of ?st m = Some Pending"
      and first: "node_deps g m \<inter> {n \<in> ?N. map_of ?st n = Some Pending} = {}"
      using checked.first_of [of n "{n \<in> ?N. map_of ?st n = Some Pending}" g] by auto
    have "\<exists>p. (m, p) \<in> set g" using m(1) by (auto simp: N)
    then obtain p where p: "map_of g m = Some p" using in_g by blast
    have settles: "has_state ?st is_ready d \<or> has_state ?st is_unavailable d" if "d \<in> set (p_deps p)" for d
    proof -
      have "d \<in> node_deps g m" using that p by (simp add: node_deps_def)
      moreover from this have "d \<in> ?N" using checked.deps_in [OF m(1)] by blast
      moreover from this obtain s where "map_of ?st d = Some s" "s \<noteq> Acquiring" using known by blast
      ultimately have s: "map_of ?st d = Some s" "s \<noteq> Acquiring" "s \<noteq> Pending" using first by auto
      then show ?thesis by (cases s) (simp_all add: has_state_def)
    qed
    have "(m, p) \<in> set (to_block g ?st) \<or> (m, p) \<in> set (to_run g ?st)"
      using m(2) p settles by (auto simp: to_block_def to_run_def in_g list_ex_iff list_all_iff)
    with fin show False by simp
  qed
  have "map_of ?st n = Some (if list_all (has_state ?st is_ready) (p_deps p) then run_one p else Blocked)"
    if p: "map_of g n = Some p" for n p
  proof -
    have "n \<in> ?N" using p in_g [of n p] by (force simp: N)
    then obtain s where "map_of ?st n = Some s" "s \<noteq> Acquiring" using known by blast
    moreover from this have "s \<noteq> Pending" using no_pending [OF \<open>n \<in> ?N\<close>] by auto
    ultimately have s: "map_of ?st n = Some s" "s \<noteq> Acquiring" "s \<noteq> Pending" by simp_all
    have "\<not> list_all (has_state ?st is_ready) ds" if un: "list_ex (has_state ?st is_unavailable) ds" for ds
    proof -
      obtain d t where d: "d \<in> set ds" "map_of ?st d = Some t" "is_unavailable t"
        using un by (auto simp: list_ex_iff has_state_def split: option.splits)
      then have "\<not> has_state ?st is_ready d" by (cases t) (simp_all add: has_state_def)
      with d(1) show ?thesis by (auto simp: list_all_iff)
    qed
    with prov_okD(1) [OF ok, of n] s p show ?thesis by (cases s) (auto simp: node_ok_def)
  qed
  then show ?thesis by (simp add: settled_def)
qed

lemma provision_final:
  assumes "well_keyed g"
  shows "\<exists>c. provision g k pick = Some c \<and> prov_ok g (max k 1) c \<and>
    (validate g = Some (Inr ()) \<longrightarrow> settled g (pv_states c))"
proof -
  have d: "distinct (map fst g)" using assms by (simp add: well_keyed_def)
  have start: "prov_ok g (max k 1) (prov_start g)" using d by (intro provisioning.start_invar) simp
  have "0 < max k 1" by simp
  from provision_loop_returns [OF d this start, of pick] obtain c where
    "provision g k pick = Some c" "(prov_step g (max k 1))\<^sup>*\<^sup>* (prov_start g) c"
    "pv_inflight c = []" "to_block g (pv_states c) = []" "to_run g (pv_states c) = []"
    by (auto simp: provision_def)
  with prov_steps_ok [OF _ start] settledI [OF assms] show ?thesis by blast
qed

text \<open>
  C12. Provisioning always finishes, and on a validated graph every node ends where it should:
  whatever the concurrency cap and the order in which providers answer, the loop returns,
  and a node is \<open>Blocked\<close> iff some dependency did not become \<open>Ready\<close>, and otherwise has the
  outcome of its own probe and provision.
\<close>

theorem provision_outcome:
  assumes "well_keyed g" and "validate g = Some (Inr ())"
  shows "\<exists>c. provision g k pick = Some c \<and> (\<forall>n p. map_of g n = Some p \<longrightarrow>
    map_of (pv_states c) n =
      Some (if list_all (has_state (pv_states c) is_ready) (p_deps p) then run_one p else Blocked))"
  using provision_final [OF assms(1), of k pick] assms(2) by (auto simp: settled_def)

theorem provision_outcome_witness:
  "\<exists>c. provision demo_graph 2 (\<lambda>_. 0) = Some c \<and> map_of (pv_states c) (Image ''c'') = Some Blocked"
proof -
  obtain c where c: "provision demo_graph 2 (\<lambda>_. 0) = Some c"
    and o: "\<And>n p. map_of demo_graph n = Some p \<Longrightarrow> map_of (pv_states c) n =
      Some (if list_all (has_state (pv_states c) is_ready) (p_deps p) then run_one p else Blocked)"
    using provision_outcome [OF demo_graph_valid(2,1), of 2 "\<lambda>_. 0"] by blast
  have g: "map_of demo_graph (Image ''a'') = Some (snd (demo_provider ''a'' [] (Inr ())))"
    "map_of demo_graph (Image ''b'') = Some (snd (demo_provider ''b'' [Image ''a''] (Inl (Provision ''no''))))"
    "map_of demo_graph (Image ''c'') = Some (snd (demo_provider ''c'' [Image ''b'', Image ''a''] (Inr ())))"
    by (simp_all add: demo_graph_def demo_provider_def)
  have "map_of (pv_states c) (Image ''a'') = Some Ready"
    using o [OF g(1)] by (simp add: demo_provider_def run_one_def)
  then have "map_of (pv_states c) (Image ''b'') = Some (Failed (resource_error_show (Provision ''no'')))"
    using o [OF g(2)] by (simp add: demo_provider_def run_one_def has_state_def)
  then have "map_of (pv_states c) (Image ''c'') = Some Blocked"
    using o [OF g(3)] by (simp add: demo_provider_def has_state_def)
  with c show ?thesis by blast
qed

text \<open>
  The result does not depend on the schedule. Two provisions of one validated graph, with any
  caps and any completion orders, leave every node in the same state.
\<close>

theorem provision_schedule_independent:
  assumes "well_keyed g" and "validate g = Some (Inr ())"
    and "provision g k pick = Some c" and "provision g k' pick' = Some c'"
  shows "map_of (pv_states c) n = map_of (pv_states c') n"
proof (cases "n \<in> checked_nodes g")
  case False
  then have n: "map_of g n = None" using assms(1,2) by (simp add: checked_nodes_def map_of_eq_None_iff)
  have "node_ok g (pv_states c) n" "node_ok g (pv_states c') n"
    using provision_final [OF assms(1), of k pick] provision_final [OF assms(1), of k' pick'] assms(3,4)
      prov_okD(1) by fastforce+
  with n show ?thesis by (simp add: node_ok_def)
next
  case True
  have s: "settled g (pv_states c)" "settled g (pv_states c')"
    using provision_final [OF assms(1), of k pick] provision_final [OF assms(1), of k' pick'] assms by auto
  let ?R = "{n \<in> checked_nodes g. map_of (pv_states c) n \<noteq> map_of (pv_states c') n}"
  show ?thesis
  proof (rule ccontr)
    assume "map_of (pv_states c) n \<noteq> map_of (pv_states c') n"
    with True obtain m where m: "m \<in> ?R" and d: "node_deps g m \<inter> ?R = {}"
      using checked.first_of [of n ?R g] by auto
    then obtain p where p: "map_of g m = Some p"
      using assms(1,2) by (auto simp: checked_nodes_def well_keyed_def)
    have "has_state (pv_states c) is_ready e = has_state (pv_states c') is_ready e" if "e \<in> set (p_deps p)" for e
    proof -
      have "e \<in> node_deps g m" using that p by (simp add: node_deps_def)
      moreover from this have "e \<in> checked_nodes g" using checked.deps_in m by blast
      ultimately show ?thesis using d by (auto simp: has_state_def)
    qed
    then have "list_all (has_state (pv_states c) is_ready) (p_deps p) =
        list_all (has_state (pv_states c') is_ready) (p_deps p)"
      by (simp add: list_all_iff)
    with s p m show False by (simp add: settled_def)
  qed
qed

theorem provision_schedule_independent_witness:
  "\<exists>c c'. provision demo_graph 0 (\<lambda>_. 0) = Some c \<and> provision demo_graph 5 length = Some c' \<and>
     map_of (pv_states c) (Image ''c'') = map_of (pv_states c') (Image ''c'')"
proof -
  obtain c c' where c: "provision demo_graph 0 (\<lambda>_. 0) = Some c" "provision demo_graph 5 length = Some c'"
    using provision_final [OF demo_graph_valid(2)] by blast
  from provision_schedule_independent [OF demo_graph_valid(2,1) this] c show ?thesis by blast
qed

text \<open>
  C18. Provisioning is orderly. In the sequence of reported changes every launch comes after the
  report that each dependency is ready, no change is reported twice (so no node is launched
  twice), and at every moment at most the cap, at least one, is in flight.
\<close>

theorem provision_orderly:
  assumes "well_keyed g" and "provision g k pick = Some c"
  shows "distinct (pv_log c) \<and>
    (\<forall>pre n post. pv_log c = pre @ (n, Acquiring) # post \<longrightarrow>
       (\<exists>p. map_of g n = Some p \<and> (\<forall>d\<in>set (p_deps p). (d, Ready) \<in> set pre))) \<and>
    (\<forall>pre post. pv_log c = pre @ post \<longrightarrow> starts pre \<le> ends pre + max k 1)"
proof -
  have "prov_ok g (max k 1) c" using provision_final [OF assms(1), of k pick] assms(2) by auto
  from prov_okD(7) [OF this] show ?thesis unfolding log_ok_def .
qed

theorem provision_orderly_witness:
  "\<exists>c. provision demo_graph 2 (\<lambda>_. 0) = Some c \<and> distinct (pv_log c)"
proof -
  obtain c where c: "provision demo_graph 2 (\<lambda>_. 0) = Some c"
    using provision_final [OF demo_graph_valid(2)] by blast
  with provision_orderly [OF demo_graph_valid(2) c] show ?thesis by blast
qed

section \<open>Teardown\<close>

definition reapable :: "graph \<Rightarrow> states \<Rightarrow> node_id set" where
  "reapable g st = {n. \<exists>p. map_of g n = Some p \<and> has_state st is_ready n \<and> is_reaped (p_lifetime p)}"

definition in_order :: "graph \<Rightarrow> node_id set \<Rightarrow> node_id list \<Rightarrow> bool" where
  "in_order g C ns \<longleftrightarrow> (\<forall>pre n post. ns = pre @ n # post \<longrightarrow>
     (\<forall>d\<in>C. n \<in> node_deps g d \<longrightarrow> d \<in> set pre))"

definition tear_ok :: "graph \<Rightarrow> node_id set \<Rightarrow> tear \<Rightarrow> bool" where
  "tear_ok g C t \<longleftrightarrow> distinct (td_remaining t) \<and> distinct (map fst (td_results t)) \<and>
     set (td_remaining t) = C - fst ` set (td_results t) \<and> fst ` set (td_results t) \<subseteq> C \<and>
     set (td_gone t) = (fst ` set g - C) \<union> fst ` set (td_results t) \<and>
     distinct (map fst (td_inflight t)) \<and> fst ` set (td_inflight t) \<subseteq> set (td_remaining t) \<and>
     set (td_launched t) = fst ` set (td_inflight t) \<union> fst ` set (td_results t) \<and>
     (\<forall>(n, r) \<in> set (td_inflight t). set (dependents g n) \<subseteq> set (td_gone t)) \<and>
     (\<forall>(n, r) \<in> set (td_inflight t) \<union> set (td_results t). \<exists>p. map_of g n = Some p \<and> r = p_teardown p) \<and>
     in_order g C (map fst (td_results t))"

lemma tear_okD:
  assumes "tear_ok g C t"
  shows "distinct (td_remaining t)" and "distinct (map fst (td_results t))"
    and "set (td_remaining t) = C - fst ` set (td_results t)" and "fst ` set (td_results t) \<subseteq> C"
    and "set (td_gone t) = (fst ` set g - C) \<union> fst ` set (td_results t)"
    and "distinct (map fst (td_inflight t))" and "fst ` set (td_inflight t) \<subseteq> set (td_remaining t)"
    and "set (td_launched t) = fst ` set (td_inflight t) \<union> fst ` set (td_results t)"
    and "(n, r) \<in> set (td_inflight t) \<Longrightarrow> set (dependents g n) \<subseteq> set (td_gone t)"
    and "(n, r) \<in> set (td_inflight t) \<union> set (td_results t) \<Longrightarrow> \<exists>p. map_of g n = Some p \<and> r = p_teardown p"
    and "in_order g C (map fst (td_results t))"
  by - (insert assms [unfolded tear_ok_def], (elim conjE, (assumption | (drule (1) bspec, simp only: prod.case)))+)

lemma set_dependents: "well_keyed g \<Longrightarrow> set (dependents g n) = {d \<in> fst ` set g. n \<in> node_deps g d}"
proof -
  assume wk: "well_keyed g"
  have "set (dependents g n) = {d. \<exists>p. (d, p) \<in> set g \<and> n \<in> set (p_deps p)}"
    by (force simp: dependents_def)
  also have "\<dots> = {d \<in> fst ` set g. n \<in> node_deps g d}" unfolding deps_pairs [OF wk] ..
  finally show ?thesis .
qed

lemma in_order_snoc:
  assumes "in_order g C ns" and "\<forall>d\<in>C. n \<in> node_deps g d \<longrightarrow> d \<in> set ns"
  shows "in_order g C (ns @ [n])"
  unfolding in_order_def
proof (intro allI impI)
  fix pre m post assume "ns @ [n] = pre @ m # post"
  then show "\<forall>d\<in>C. m \<in> node_deps g d \<longrightarrow> d \<in> set pre"
    using assms by (cases post rule: rev_cases) (auto simp: in_order_def)
qed

lemma teardown_start_ok:
  assumes "well_keyed g"
  shows "tear_ok g (reapable g st) (teardown_start g st)"
proof -
  have d: "distinct (map fst g)" using assms by (simp add: well_keyed_def)
  then have "fst ` {x \<in> set g. has_state st is_ready (fst x) \<and> is_reaped (p_lifetime (snd x))} = reapable g st"
    by (force simp: reapable_def image_iff)
  with d show ?thesis
    by (auto simp: tear_ok_def teardown_start_def Let_def in_order_def case_prod_beta distinct_map_filter)
qed

lemma teardown_launch_ok:
  assumes ok: "tear_ok g C t" and C: "C \<subseteq> fst ` set g"
  shows "\<exists>t1. teardown_launch g t = Some t1 \<and> tear_ok g C t1 \<and> td_remaining t1 = td_remaining t \<and>
    (td_inflight t1 = [] \<longrightarrow> teardown_ready g t = [] \<and> td_launched t1 = td_launched t \<and> td_gone t1 = td_gone t)"
proof -
  let ?r = "teardown_ready g t"
  have r: "set ?r \<subseteq> set (td_remaining t)" "set ?r \<inter> set (td_launched t) = {}" "distinct ?r"
    "\<And>n. n \<in> set ?r \<Longrightarrow> set (dependents g n) \<subseteq> set (td_gone t)"
    using ok by (auto simp: teardown_ready_def tear_ok_def list_all_iff)
  have known: "\<exists>p. map_of g n = Some p" if "n \<in> set ?r" for n
  proof -
    have "n \<in> fst ` set g" using that r(1) ok C by (auto simp: tear_ok_def)
    then show ?thesis by (metis map_of_eq_None_iff not_None_eq)
  qed
  let ?t = "t\<lparr>td_launched := td_launched t @ ?r,
      td_inflight := td_inflight t @ map (\<lambda>n. (n, p_teardown (the (map_of g n)))) ?r\<rparr>"
  have "teardown_launch g t = Some ?t"
    using known by (auto simp: teardown_launch_def Let_def list_all_iff)
  moreover have "tear_ok g C ?t"
  proof -
    have fl: "set (td_launched t) = fst ` set (td_inflight t) \<union> fst ` set (td_results t)"
      and fi: "distinct (map fst (td_inflight t))" "fst ` set (td_inflight t) \<subseteq> set (td_remaining t)"
      by (fact tear_okD [OF ok])+
    have keys: "map fst (td_inflight ?t) = map fst (td_inflight t) @ ?r" by (simp add: comp_def)
    have "distinct (map fst (td_inflight ?t))" unfolding keys using fi(1) r(2,3) fl by auto
    moreover have img: "fst ` set (td_inflight ?t) = fst ` set (td_inflight t) \<union> set ?r"
      by (simp add: image_Un image_image)
    moreover have "set (td_launched ?t) = fst ` set (td_inflight ?t) \<union> fst ` set (td_results ?t)"
      unfolding img using fl by auto
    moreover have "\<forall>(n, r) \<in> set (td_inflight ?t). set (dependents g n) \<subseteq> set (td_gone ?t)"
      using tear_okD(9) [OF ok] r(4) by auto
    moreover have "\<forall>(n, r) \<in> set (td_inflight ?t) \<union> set (td_results ?t). \<exists>p. map_of g n = Some p \<and> r = p_teardown p"
    proof -
      have "\<exists>p. map_of g n = Some p \<and> p_teardown (the (map_of g n)) = p_teardown p" if "n \<in> set ?r" for n
        using known [OF that] by auto
      then show ?thesis using tear_okD(10) [OF ok] by auto
    qed
    moreover have "fst ` set (td_inflight ?t) \<subseteq> set (td_remaining ?t)" unfolding img using fi(2) r(1) by simp
    ultimately show ?thesis unfolding tear_ok_def using tear_okD(1-5,11) [OF ok] by (intro conjI) simp_all
  qed
  ultimately show ?thesis by auto
qed

lemma teardown_done_ok:
  assumes wk: "well_keyed g" and ok: "tear_ok g C t" and C: "C \<subseteq> fst ` set g" and x: "x \<in> set (td_inflight t)"
  shows "tear_ok g C (teardown_done x t) \<and> length (td_remaining (teardown_done x t)) < length (td_remaining t)"
proof -
  obtain n r where nr: "x = (n, r)" by (cases x)
  note rem = tear_okD(1,3) [OF ok] and res = tear_okD(2,4) [OF ok] and gone = tear_okD(5) [OF ok]
    and infl = tear_okD(6,7) [OF ok] and launched = tear_okD(8) [OF ok] and dep = tear_okD(9) [OF ok]
    and ans = tear_okD(10) [OF ok] and ord = tear_okD(11) [OF ok]
  have n: "n \<in> set (td_remaining t)" using infl(2) x nr by force
  have fst_rem: "fst ` set (remove1 x (td_inflight t)) = fst ` set (td_inflight t) - {n}"
  proof -
    have "distinct (td_inflight t)" using infl(1) distinct_map by blast
    moreover have "inj_on fst (set (td_inflight t))" using infl(1) by (simp add: distinct_map)
    ultimately show ?thesis using x nr inj_on_image_set_diff [of fst "set (td_inflight t)" "set (td_inflight t)" "{x}"]
      by (simp add: set_remove1_eq)
  qed
  let ?t = "teardown_done x t"
  have flds: "td_remaining ?t = remove1 n (td_remaining t)" "td_gone ?t = td_gone t @ [n]"
    "td_inflight ?t = remove1 x (td_inflight t)" "td_results ?t = td_results t @ [x]"
    "td_launched ?t = td_launched t"
    by (simp_all add: teardown_done_def nr)
  have "\<forall>d\<in>C. n \<in> node_deps g d \<longrightarrow> d \<in> set (map fst (td_results t))"
    using dep [of n r] x nr gone C unfolding set_dependents [OF wk] by auto
  then have "in_order g C (map fst (td_results ?t))"
    unfolding flds using in_order_snoc [OF ord] by (simp add: nr)
  moreover have "set (td_launched ?t) = fst ` set (td_inflight ?t) \<union> fst ` set (td_results ?t)"
    unfolding flds fst_rem using launched x nr by force
  moreover have "set (td_remaining ?t) = C - fst ` set (td_results ?t)"
    unfolding flds using rem nr by (auto simp: set_remove1_eq)
  moreover have "fst ` set (td_inflight ?t) \<subseteq> set (td_remaining ?t)"
    unfolding flds fst_rem using infl(2) rem(1) by (auto simp: set_remove1_eq)
  moreover have "\<forall>(n, r) \<in> set (td_inflight ?t). set (dependents g n) \<subseteq> set (td_gone ?t)"
    unfolding flds using dep by (auto dest: set_mp [OF set_remove1_subset])
  moreover have "\<forall>(n, r) \<in> set (td_inflight ?t) \<union> set (td_results ?t). \<exists>p. map_of g n = Some p \<and> r = p_teardown p"
    unfolding flds using ans x by (auto dest: set_mp [OF set_remove1_subset])
  moreover have "distinct (map fst (td_results ?t))" "fst ` set (td_results ?t) \<subseteq> C"
    unfolding flds using res n rem nr by auto
  moreover have "set (td_gone ?t) = (fst ` set g - C) \<union> fst ` set (td_results ?t)"
    unfolding flds using gone nr by auto
  moreover have "distinct (map fst (td_inflight ?t))" "distinct (td_remaining ?t)"
    unfolding flds using infl(1) rem(1) by (simp_all add: distinct_map_remove1)
  ultimately have "tear_ok g C ?t" unfolding tear_ok_def by blast
  moreover have "length (td_remaining ?t) < length (td_remaining t)"
    unfolding flds using n length_pos_if_in_set [OF n] by (simp add: length_remove1 del: length_greater_0_conv)
  ultimately show ?thesis by blast
qed

lemma teardown_loop_returns:
  assumes wk: "well_keyed g" and valid: "validate g = Some (Inr ())" and C: "C \<subseteq> fst ` set g"
    and "tear_ok g C t"
  shows "\<exists>t'. teardown_loop g pick t = Some t' \<and> tear_ok g C t' \<and> td_remaining t' = []"
  using assms(4)
proof (induction "length (td_remaining t)" arbitrary: t rule: less_induct)
  case less
  obtain t1 where t1: "teardown_launch g t = Some t1" "tear_ok g C t1" "td_remaining t1 = td_remaining t"
    and fin: "td_inflight t1 = [] \<longrightarrow> teardown_ready g t = [] \<and> td_launched t1 = td_launched t \<and> td_gone t1 = td_gone t"
    using teardown_launch_ok [OF less.prems C] by blast
  show ?case
  proof (cases "td_inflight t1 = []")
    case True
    have "td_remaining t1 = []"
    proof (rule ccontr)
      assume "td_remaining t1 \<noteq> []"
      then obtain n where n: "n \<in> set (td_remaining t)" using t1(3) by (cases "td_remaining t") auto
      have sub: "set (td_remaining t) \<subseteq> C" "set (td_remaining t) \<inter> set (td_launched t) = {}"
        and gone: "set (td_gone t) = (fst ` set g - C) \<union> fst ` set (td_results t)"
          "set (td_remaining t) = C - fst ` set (td_results t)"
        using tear_okD(3,5) [OF less.prems] tear_okD(3,8) [OF t1(2)] t1(3) True fin by auto
      have "set (td_remaining t) \<subseteq> checked_nodes g" using sub(1) C wk valid by (auto simp: checked_nodes_def)
      from checked.last_of [OF n this] obtain m where m: "m \<in> set (td_remaining t)"
        "\<forall>k\<in>set (td_remaining t). m \<notin> node_deps g k" by blast
      then have "m \<in> set (teardown_ready g t)"
        using sub(2) gone by (auto simp: teardown_ready_def list_all_iff set_dependents [OF wk])
      with True fin show False by simp
    qed
    with t1 True show ?thesis by (subst teardown_loop.simps) auto
  next
    case False
    let ?x = "td_inflight t1 ! (pick (td_results t1) mod length (td_inflight t1))"
    have x: "?x \<in> set (td_inflight t1)" using False by simp
    note d = teardown_done_ok [OF wk t1(2) C x]
    then have "length (td_remaining (teardown_done ?x t1)) < length (td_remaining t)" using t1(3) by simp
    from less.hyps [OF this] d obtain t' where
      "teardown_loop g pick (teardown_done ?x t1) = Some t' \<and> tear_ok g C t' \<and> td_remaining t' = []" by blast
    with t1 False show ?thesis by (subst teardown_loop.simps) auto
  qed
qed

text \<open>
  C19. Teardown reaps exactly what it should, dependents first. On a validated graph, whatever the
  completion order, it returns; its results name each node that is \<open>Ready\<close> and not cached
  once, with that provider's own answer; and every reaped node comes after all reaped nodes
  that depend on it.
\<close>

theorem teardown_complete_in_order:
  assumes "well_keyed g" and "validate g = Some (Inr ())"
  shows "\<exists>rs. teardown g pick st = Some rs \<and> distinct (map fst rs) \<and> fst ` set rs = reapable g st \<and>
    (\<forall>(n, r) \<in> set rs. \<exists>p. map_of g n = Some p \<and> r = p_teardown p) \<and>
    in_order g (reapable g st) (map fst rs)"
proof -
  have C: "reapable g st \<subseteq> fst ` set g"
    by (force simp: reapable_def dest: map_of_SomeD)
  from teardown_loop_returns [OF assms C teardown_start_ok [OF assms(1)], of pick] obtain t where
    "teardown_loop g pick (teardown_start g st) = Some t" "tear_ok g (reapable g st) t" "td_remaining t = []"
    by blast
  then show ?thesis by (auto simp: teardown_def tear_ok_def)
qed

theorem teardown_complete_in_order_witness:
  "\<exists>rs. teardown demo_graph (\<lambda>_. 0) [(Image ''a'', Ready), (Image ''c'', Ready)] = Some rs \<and>
     fst ` set rs = reapable demo_graph [(Image ''a'', Ready), (Image ''c'', Ready)]"
  using teardown_complete_in_order [OF demo_graph_valid(2,1), of "\<lambda>_. 0" "[(Image ''a'', Ready), (Image ''c'', Ready)]"]
  by blast

end
