(* ===== verification/Engine_Plan.thy ===== *)
theory Engine_Plan
  imports Qos_Resources Resource_Graph "HOL-Library.List_Lexorder" "HOL-Library.Char_ord"
    "HOL-Library.Product_Lexorder"
begin

text \<open>
  The work list of a run, \<open>src/src/engine/plan.rs\<close>, with the declarations it joins
  (\<open>src/src/inventory.rs\<close>, \<open>src/src/pipeline/build.rs\<close>). A hash map collected from a list is a
  map in which the last entry of a key wins. \<open>None\<close> is the panic of a tier without a footprint.
  Strings are compared byte by byte. The lemmas show that planning neither loses nor invents a
  test, and that no detached-sync test reaches the run.
\<close>

section \<open>Data\<close>

record qos_entry =
  qe_test_id :: string
  qe_class :: qos_class
  qe_footprint :: "resources option"

definition qe_profile :: "qos_entry \<Rightarrow> qos_profile option" where
  "qe_profile e = profile_with (qe_class e) (qe_footprint e)"

record sync_test_entry =
  se_test_id :: string
  se_name :: string
  se_description :: string
  se_subject :: string
  se_timeout :: string
  se_qos :: string
  se_footprint :: "resources option"
  se_runner :: "resources option"
  se_tags :: "string list"

record selected_binary =
  sb_binary_path :: string
  sb_cwd :: string
  sb_binary_id :: string
  sb_selected_tests :: "string list"

record work_item =
  wi_binary_id :: string
  wi_test_name :: string
  wi_binary_path :: string
  wi_cwd :: string
  wi_class :: qos_class
  wi_footprint :: resources
  wi_hard_cap :: nat
  wi_retries :: nat
  wi_deps :: "node_id list"

record resource_deps =
  images_by_binary :: "string \<rightharpoonup> node_id list"
  seeds_by_test :: "string \<times> string \<rightharpoonup> node_id list"

definition deps_for_item :: "resource_deps \<Rightarrow> string \<Rightarrow> string \<Rightarrow> node_id list" where
  "deps_for_item d binary_id test_name =
     (case images_by_binary d binary_id of Some i \<Rightarrow> i | None \<Rightarrow> []) @
     (case seeds_by_test d (binary_id, test_name) of Some s \<Rightarrow> s | None \<Rightarrow> [])"

section \<open>Declared tiers\<close>

definition libtest_name :: "string \<Rightarrow> string" where
  "libtest_name test_id = (case split_once ''::'' test_id of Some (_, rest) \<Rightarrow> rest | None \<Rightarrow> test_id)"

lemma rsplit_once_shorter:
  "rsplit_once pat s = Some (a, b) \<Longrightarrow> pat \<noteq> [] \<Longrightarrow> length a < length s"
  by (drule rsplit_once_Some) simp

function declared_walk :: "(string \<rightharpoonup> 'e) \<Rightarrow> string \<Rightarrow> 'e option" where
  "declared_walk by_name rest = (case rsplit_once ''::'' rest of
     None \<Rightarrow> None
   | Some (parent, _) \<Rightarrow>
       (case by_name parent of Some e \<Rightarrow> Some e | None \<Rightarrow> declared_walk by_name parent))"
  by pat_completeness auto

termination
  by (relation "measure (\<lambda>(_, s). length s)") (auto dest: rsplit_once_shorter)

declare declared_walk.simps [simp del]

definition declared_qos :: "(string \<rightharpoonup> 'e) \<Rightarrow> string \<Rightarrow> 'e option" where
  "declared_qos by_name test_name = (case by_name test_name of
     Some e \<Rightarrow> Some e
   | None \<Rightarrow> declared_walk by_name test_name)"

definition collect_map :: "('k \<times> 'v) list \<Rightarrow> ('k \<rightharpoonup> 'v)" where
  "collect_map xs = map_of (rev xs)"

definition tiers_by_binary ::
  "(string \<times> qos_entry list) list \<Rightarrow> (string \<rightharpoonup> (string \<rightharpoonup> qos_entry))" where
  "tiers_by_binary qos = collect_map
     (map (\<lambda>(b, es). (b, collect_map (map (\<lambda>e. (libtest_name (qe_test_id e), e)) es))) qos)"

section \<open>Leaving out detached syncs\<close>

datatype sync_exclusion = Profile string | TierOnly

record excluded_sync =
  es_binary_id :: string
  es_test_name :: string
  es_reason :: sync_exclusion

definition profiles_by_binary ::
  "(string \<times> sync_test_entry list) list \<Rightarrow> (string \<rightharpoonup> (string \<rightharpoonup> string))" where
  "profiles_by_binary syncs = collect_map
     (map (\<lambda>(b, es). (b, collect_map (map (\<lambda>e. (libtest_name (se_test_id e), se_name e)) es))) syncs)"

definition exclusion ::
  "(string \<rightharpoonup> (string \<rightharpoonup> string)) \<Rightarrow> (string \<rightharpoonup> (string \<rightharpoonup> qos_entry)) \<Rightarrow> string \<Rightarrow> string \<Rightarrow>
   sync_exclusion option" where
  "exclusion profiles tiers binary_id test_name =
     (case Option.bind (profiles binary_id) (\<lambda>p. p test_name) of
        Some nm \<Rightarrow> Some (Profile nm)
      | None \<Rightarrow> (case Option.bind (tiers binary_id) (\<lambda>t. declared_qos t test_name) of
          Some e \<Rightarrow> if qe_class e = Sync then Some TierOnly else None
        | None \<Rightarrow> None))"

fun retain_tests ::
  "(string \<Rightarrow> sync_exclusion option) \<Rightarrow> string \<Rightarrow> string list \<Rightarrow> string list \<times> excluded_sync list" where
  "retain_tests why b [] = ([], [])"
| "retain_tests why b (t # ts) = (let (keep, out) = retain_tests why b ts in
     case why t of
       Some r \<Rightarrow> (keep, \<lparr>es_binary_id = b, es_test_name = t, es_reason = r\<rparr> # out)
     | None \<Rightarrow> (t # keep, out))"

definition drop_sync_tests ::
  "selected_binary list \<Rightarrow> (string \<times> sync_test_entry list) list \<Rightarrow> (string \<times> qos_entry list) list \<Rightarrow>
   selected_binary list \<times> excluded_sync list" where
  "drop_sync_tests selected syncs qos =
     (let why = exclusion (profiles_by_binary syncs) (tiers_by_binary qos);
          parts = map (\<lambda>bin. (bin, retain_tests (why (sb_binary_id bin)) (sb_binary_id bin)
                                     (sb_selected_tests bin))) selected
      in (filter (\<lambda>bin. sb_selected_tests bin \<noteq> [])
            (map (\<lambda>(bin, keep, out). bin\<lparr>sb_selected_tests := keep\<rparr>) parts),
          concat (map (\<lambda>(bin, keep, out). out) parts)))"

section \<open>The work list\<close>

definition work_item_of ::
  "(string \<rightharpoonup> (string \<rightharpoonup> qos_entry)) \<Rightarrow> nat \<Rightarrow> resource_deps \<Rightarrow> selected_binary \<Rightarrow> string \<Rightarrow> work_item option" where
  "work_item_of tiers retries deps bin test_name =
     (let declared = Option.bind (tiers (sb_binary_id bin)) (\<lambda>m. declared_qos m test_name);
          class = (case declared of Some e \<Rightarrow> qe_class e | None \<Rightarrow> default_class);
          prof = (case declared of Some e \<Rightarrow> qe_profile e | None \<Rightarrow> Some (profile default_class))
      in map_option (\<lambda>p. \<lparr>wi_binary_id = sb_binary_id bin, wi_test_name = test_name,
             wi_binary_path = sb_binary_path bin, wi_cwd = sb_cwd bin, wi_class = class,
             wi_footprint = admitted p, wi_hard_cap = pf_hard_cap p, wi_retries = retries,
             wi_deps = deps_for_item deps (sb_binary_id bin) test_name\<rparr>) prof)"

fun traverse :: "('a \<Rightarrow> 'b option) \<Rightarrow> 'a list \<Rightarrow> 'b list option" where
  "traverse f [] = Some []"
| "traverse f (x # xs) = Option.bind (f x) (\<lambda>y. map_option (\<lambda>ys. y # ys) (traverse f xs))"

definition item_key :: "work_item \<Rightarrow> string \<times> string" where
  "item_key i = (wi_binary_id i, wi_test_name i)"

definition sort_for_admission :: "work_item list \<Rightarrow> work_item list" where
  "sort_for_admission items = sort_key item_key items"

definition selected_pairs :: "selected_binary list \<Rightarrow> (selected_binary \<times> string) list" where
  "selected_pairs bins = concat (map (\<lambda>bin. map (Pair bin) (sb_selected_tests bin)) bins)"

definition build_work_list ::
  "selected_binary list \<Rightarrow> (string \<times> qos_entry list) list \<Rightarrow> nat \<Rightarrow> resource_deps \<Rightarrow> work_item list option" where
  "build_work_list bins qos retries deps =
     map_option sort_for_admission
       (traverse (\<lambda>(bin, t). work_item_of (tiers_by_binary qos) retries deps bin t) (selected_pairs bins))"

section \<open>Nearest declaration\<close>

text \<open>The test and its ancestors, nearest first.\<close>

function ancestors :: "string \<Rightarrow> string list" where
  "ancestors s = s # (case rsplit_once ''::'' s of None \<Rightarrow> [] | Some (parent, _) \<Rightarrow> ancestors parent)"
  by pat_completeness auto

termination
  by (relation "measure length") (auto dest: rsplit_once_shorter)

declare ancestors.simps [simp del]

lemma declared_walk_ancestors:
  "declared_walk m s = (case map_option fst (rsplit_once ''::'' s) of None \<Rightarrow> None
     | Some p \<Rightarrow> (case List.find (\<lambda>a. m a \<noteq> None) (ancestors p) of None \<Rightarrow> None | Some a \<Rightarrow> m a))"
proof (induction m s rule: declared_walk.induct)
  case (1 m s)
  show ?case
  proof (cases "rsplit_once ''::'' s")
    case None
    then show ?thesis by (simp add: declared_walk.simps)
  next
    case (Some pb)
    obtain p b where pb: "pb = (p, b)" by (cases pb)
    show ?thesis
    proof (cases "m p")
      case (Some e)
      then show ?thesis using \<open>rsplit_once ''::'' s = Some pb\<close>
        by (simp add: declared_walk.simps [of m s] pb ancestors.simps [of p])
    next
      case None
      have "declared_walk m s = declared_walk m p"
        using \<open>rsplit_once ''::'' s = Some pb\<close> None by (simp add: declared_walk.simps [of m s] pb)
      also have "\<dots> = (case map_option fst (rsplit_once ''::'' p) of None \<Rightarrow> None
         | Some q \<Rightarrow> (case List.find (\<lambda>a. m a \<noteq> None) (ancestors q) of None \<Rightarrow> None | Some a \<Rightarrow> m a))"
        using 1 \<open>rsplit_once ''::'' s = Some pb\<close> None by (simp add: pb)
      finally show ?thesis
        using \<open>rsplit_once ''::'' s = Some pb\<close> None
        by (simp add: pb ancestors.simps [of p] split: option.splits)
    qed
  qed
qed

lemma declared_qos_nearest:
  "declared_qos m t = (case List.find (\<lambda>a. m a \<noteq> None) (ancestors t) of None \<Rightarrow> None | Some a \<Rightarrow> m a)"
  by (cases "m t") (auto simp: declared_qos_def declared_walk_ancestors ancestors.simps [of t] split: option.splits)

section \<open>Planning loses nothing\<close>

lemma traverse_Some_iff:
  "traverse f xs = Some ys \<longleftrightarrow> list_all2 (\<lambda>x y. f x = Some y) xs ys"
proof (induction xs arbitrary: ys)
  case (Cons x xs)
  show ?case by (cases ys) (auto simp: bind_eq_Some_conv Cons.IH)
qed auto

lemma traverse_mem: "traverse f xs = Some ys \<Longrightarrow> y \<in> set ys \<Longrightarrow> \<exists>x\<in>set xs. f x = Some y"
  by (induction xs arbitrary: ys) (auto simp: bind_eq_Some_conv)

lemma traverse_total: "(\<And>x. x \<in> set xs \<Longrightarrow> f x \<noteq> None) \<Longrightarrow> \<exists>ys. traverse f xs = Some ys"
  by (induction xs) fastforce+

lemma work_item_of_facts:
  assumes "work_item_of tiers retries deps bin t = Some i"
  shows "item_key i = (sb_binary_id bin, t)" and "wi_retries i = retries"
    and "wi_class i = (case Option.bind (tiers (sb_binary_id bin)) (\<lambda>m. declared_qos m t) of
       Some e \<Rightarrow> qe_class e | None \<Rightarrow> default_class)"
    and "wi_deps i = deps_for_item deps (sb_binary_id bin) t"
  using assms by (auto simp: work_item_of_def item_key_def Let_def)

definition pair_key :: "selected_binary \<times> string \<Rightarrow> string \<times> string" where
  "pair_key x = (sb_binary_id (fst x), snd x)"

lemma traverse_keys:
  "traverse (\<lambda>(bin, t). work_item_of tiers retries deps bin t) ps = Some is \<Longrightarrow>
   map item_key is = map pair_key ps"
  unfolding traverse_Some_iff
  by (induction ps "is" rule: list_all2_induct) (auto simp: pair_key_def work_item_of_facts)

text \<open>
  Planning is a permutation of the selection. When it does not panic, the work list has one
  item per selected test and none besides, in increasing order of binary and test; each item
  carries the tier of the nearest ancestor of its name that declares one, the default tier
  otherwise, and the dependencies of its binary and test.
\<close>

theorem work_list_permutes_selection:
  assumes "build_work_list bins qos retries deps = Some is"
  shows "mset (map item_key is) = mset (map pair_key (selected_pairs bins)) \<and>
    sorted (map item_key is) \<and>
    (\<forall>i\<in>set is. wi_retries i = retries \<and> wi_deps i = deps_for_item deps (wi_binary_id i) (wi_test_name i) \<and>
       wi_class i = (case Option.bind (tiers_by_binary qos (wi_binary_id i)) (\<lambda>m.
          case List.find (\<lambda>a. m a \<noteq> None) (ancestors (wi_test_name i)) of None \<Rightarrow> None | Some a \<Rightarrow> m a) of
         Some e \<Rightarrow> qe_class e | None \<Rightarrow> default_class))"
proof -
  let ?f = "\<lambda>(bin, t). work_item_of (tiers_by_binary qos) retries deps bin t"
  obtain js where js: "traverse ?f (selected_pairs bins) = Some js" and "is": "is = sort_key item_key js"
    using assms by (auto simp: build_work_list_def sort_for_admission_def)
  have m: "mset is = mset js" by (simp add: "is")
  have "mset (map item_key is) = image_mset item_key (mset js)" by (simp add: m)
  also have "\<dots> = mset (map pair_key (selected_pairs bins))"
    using traverse_keys [OF js] by (metis mset_map)
  finally have keys: "mset (map item_key is) = mset (map pair_key (selected_pairs bins))" .
  have "wi_retries i = retries \<and> wi_deps i = deps_for_item deps (wi_binary_id i) (wi_test_name i) \<and>
       wi_class i = (case Option.bind (tiers_by_binary qos (wi_binary_id i)) (\<lambda>m. declared_qos m (wi_test_name i)) of
         Some e \<Rightarrow> qe_class e | None \<Rightarrow> default_class)" if "i \<in> set is" for i
  proof -
    have "i \<in> set js" using that m by (metis mset_eq_setD)
    from traverse_mem [OF js this]
    obtain bin t where "work_item_of (tiers_by_binary qos) retries deps bin t = Some i" by auto
    note w = work_item_of_facts [OF this]
    moreover from w(1) have "wi_binary_id i = sb_binary_id bin" "wi_test_name i = t" by (auto simp: item_key_def)
    ultimately show ?thesis by simp
  qed
  with keys show ?thesis unfolding "is" declared_qos_nearest by simp
qed

definition demo_bins :: "selected_binary list" where
  "demo_bins = [\<lparr>sb_binary_path = ''/b'', sb_cwd = ''/'', sb_binary_id = ''b'', sb_selected_tests = [''m::z::case_1'', ''a'']\<rparr>]"

definition demo_deps :: resource_deps where
  "demo_deps = \<lparr>images_by_binary = Map.empty, seeds_by_test = Map.empty\<rparr>"

lemma build_work_list_default: "\<exists>is. build_work_list bins [] retries deps = Some is"
  using traverse_total [of "selected_pairs bins"
      "\<lambda>(bin, t). work_item_of (tiers_by_binary []) retries deps bin t"]
  by (auto simp: build_work_list_def work_item_of_def tiers_by_binary_def collect_map_def Let_def)

theorem work_list_permutes_selection_witness:
  "\<exists>is. build_work_list demo_bins [] 1 demo_deps = Some is \<and> sorted (map item_key is) \<and>
     mset (map item_key is) = {#(''b'', ''m::z::case_1''), (''b'', ''a'')#}"
proof -
  obtain "is" where i: "build_work_list demo_bins [] 1 demo_deps = Some is"
    using build_work_list_default by blast
  have "mset (map pair_key (selected_pairs demo_bins)) = {#(''b'', ''m::z::case_1''), (''b'', ''a'')#}"
    by (simp add: demo_bins_def selected_pairs_def pair_key_def)
  with i work_list_permutes_selection [OF i] show ?thesis by simp
qed

lemma retain_tests_spec:
  "retain_tests why b ts = (filter (\<lambda>t. why t = None) ts,
     map (\<lambda>t. \<lparr>es_binary_id = b, es_test_name = t, es_reason = the (why t)\<rparr>) (filter (\<lambda>t. why t \<noteq> None) ts))"
  by (induction ts) (auto split: option.splits)

lemma mset_filter_split: "mset xs = mset (filter P xs) + mset (filter (\<lambda>x. \<not> P x) xs)"
  by simp

text \<open>
  Detached syncs are set apart. The tests kept and the tests excluded are together the
  selection; what is kept declares no sync profile of its own and no declaring ancestor in
  the sync tier, so no item of a work list built from it is of that tier; and no binary is
  left without tests.
\<close>

theorem sync_tests_excluded:
  assumes "drop_sync_tests bins syncs qos = (kept, out)"
  shows "mset (map pair_key (selected_pairs bins)) =
      mset (map pair_key (selected_pairs kept)) + mset (map (\<lambda>x. (es_binary_id x, es_test_name x)) out) \<and>
    (\<forall>(bin, t) \<in> set (selected_pairs kept). exclusion (profiles_by_binary syncs) (tiers_by_binary qos) (sb_binary_id bin) t = None) \<and>
    (\<forall>bin\<in>set kept. sb_selected_tests bin \<noteq> []) \<and>
    (\<forall>is retries deps. build_work_list kept qos retries deps = Some is \<longrightarrow> (\<forall>i\<in>set is. wi_class i \<noteq> Sync))"
proof -
  define why where "why = exclusion (profiles_by_binary syncs) (tiers_by_binary qos)"
  define part where "part = (\<lambda>bin :: selected_binary. bin\<lparr>sb_selected_tests := filter (\<lambda>t. why (sb_binary_id bin) t = None) (sb_selected_tests bin)\<rparr>)"
  have kept: "kept = filter (\<lambda>bin. sb_selected_tests bin \<noteq> []) (map part bins)"
    and out: "out = concat (map (\<lambda>bin. map (\<lambda>t. \<lparr>es_binary_id = sb_binary_id bin, es_test_name = t,
        es_reason = the (why (sb_binary_id bin) t)\<rparr>) (filter (\<lambda>t. why (sb_binary_id bin) t \<noteq> None) (sb_selected_tests bin))) bins)"
    using assms by (auto simp: drop_sync_tests_def why_def part_def retain_tests_spec Let_def comp_def)
  have empty: "selected_pairs (filter (\<lambda>bin. sb_selected_tests bin \<noteq> []) xs) = selected_pairs xs" for xs
    by (induction xs) (auto simp: selected_pairs_def)
  have part_id: "sb_binary_id (part bin) = sb_binary_id bin" for bin by (simp add: part_def)
  have keys: "mset (map pair_key (selected_pairs bins)) =
      mset (map pair_key (selected_pairs kept)) + mset (map (\<lambda>x. (es_binary_id x, es_test_name x)) out)"
    unfolding kept empty out
  proof (induction bins)
    case (Cons bin bins)
    let ?P = "\<lambda>t. why (sb_binary_id bin) t = None" and ?k = "\<lambda>t. (sb_binary_id bin, t)"
    have "mset (map ?k (sb_selected_tests bin)) =
        mset (map ?k (filter ?P (sb_selected_tests bin))) + mset (map ?k (filter (\<lambda>t. \<not> ?P t) (sb_selected_tests bin)))"
      by (metis image_mset_union mset_filter_split mset_map)
    with Cons show ?case
      by (simp add: selected_pairs_def pair_key_def part_def comp_def)
  qed (simp add: selected_pairs_def)
  have clean: "why (sb_binary_id bin) t = None" if "(bin, t) \<in> set (selected_pairs kept)" for bin t
    using that unfolding kept empty by (auto simp: selected_pairs_def part_def)
  have "wi_class i \<noteq> Sync" if w: "build_work_list kept qos retries deps = Some is" "i \<in> set is" for "is" retries deps i
  proof -
    obtain js where js: "traverse (\<lambda>(bin, t). work_item_of (tiers_by_binary qos) retries deps bin t) (selected_pairs kept) = Some js"
      and "is = sort_key item_key js"
      using w(1) by (auto simp: build_work_list_def sort_for_admission_def)
    then have "i \<in> set js" using w(2) by simp
    from traverse_mem [OF js this] obtain bin t where p: "(bin, t) \<in> set (selected_pairs kept)"
      and "work_item_of (tiers_by_binary qos) retries deps bin t = Some i" by auto
    from work_item_of_facts(3) [OF this(2)] clean [OF p] show ?thesis
      by (auto simp: why_def exclusion_def default_class_def split: option.splits if_splits)
  qed
  with keys clean show ?thesis unfolding why_def by (auto simp: kept)
qed

definition demo_syncs :: "(string \<times> qos_entry list) list" where
  "demo_syncs = [(''b'', [\<lparr>qe_test_id = ''cr::a'', qe_class = Sync, qe_footprint = None\<rparr>])]"

theorem sync_tests_excluded_witness:
  "snd (drop_sync_tests demo_bins [] demo_syncs) \<noteq> [] \<and>
   mset (map pair_key (selected_pairs demo_bins)) =
     mset (map pair_key (selected_pairs (fst (drop_sync_tests demo_bins [] demo_syncs)))) +
     mset (map (\<lambda>x. (es_binary_id x, es_test_name x)) (snd (drop_sync_tests demo_bins [] demo_syncs)))"
proof -
  have "snd (drop_sync_tests demo_bins [] demo_syncs) \<noteq> []" by code_simp
  moreover have "drop_sync_tests demo_bins [] demo_syncs =
      (fst (drop_sync_tests demo_bins [] demo_syncs), snd (drop_sync_tests demo_bins [] demo_syncs))" by simp
  from sync_tests_excluded [OF this]
  have "mset (map pair_key (selected_pairs demo_bins)) =
     mset (map pair_key (selected_pairs (fst (drop_sync_tests demo_bins [] demo_syncs)))) +
     mset (map (\<lambda>x. (es_binary_id x, es_test_name x)) (snd (drop_sync_tests demo_bins [] demo_syncs)))" by blast
  ultimately show ?thesis by blast
qed

end
