(* ===== verification/Engine_Run.thy ===== *)
theory Engine_Run
  imports Engine_Plan Qos_Scheduler Qos_Beacon
begin

text \<open>
  The run loop, \<open>src/src/engine/schedule.rs\<close>, with its events (\<open>src/src/engine/events.rs\<close>) and
  panel inputs (\<open>src/src/engine/panel.rs\<close>). One pass of the \<open>select!\<close> is \<open>loop_iter\<close>, driven by the
  event that won it. The cancellation watch is a latch: an iteration says at which of its
  reads the latch is first seen set. Clock readings are nanoseconds given with each iteration.
  Reported events are the log, in order. Counters and attempts are naturals. A panic is
  \<open>None\<close>. The locale \<open>admission\<close> is what the loop relies on of the scheduler.
\<close>

section \<open>Events and tallies\<close>

datatype verdict = Pass | Fail int | Timeout | SpawnError | Terminated

datatype cancel_reason = Interrupt

definition cancel_as_str :: "cancel_reason \<Rightarrow> string" where
  "cancel_as_str r = (case r of Interrupt \<Rightarrow> ''interrupt'')"

definition is_pass :: "verdict \<Rightarrow> bool" where
  "is_pass v \<longleftrightarrow> v = Pass"

datatype skip_reason =
    SkipExceedsClusterCapacity
  | SkipExceedsSaBudget
  | DependencyUnavailable string

record run_stats =
  st_passed :: nat
  st_failed :: nat
  st_terminated :: nat
  st_skipped :: nat
  st_total :: nat

definition stats_ran :: "run_stats \<Rightarrow> nat" where
  "stats_ran s = st_passed s + st_failed s + st_terminated s"

definition stats_finished :: "run_stats \<Rightarrow> nat" where
  "stats_finished s = stats_ran s + st_skipped s"

definition stats_not_run :: "run_stats \<Rightarrow> nat" where
  "stats_not_run s = st_total s - stats_finished s"

definition stats_any_failed :: "run_stats \<Rightarrow> bool" where
  "stats_any_failed s \<longleftrightarrow> st_failed s > 0 \<or> st_terminated s > 0"

definition stats_tally :: "run_stats \<Rightarrow> (nat \<times> string) list" where
  "stats_tally s = [(st_passed s, ''passed'')] @
     (if st_failed s > 0 then [(st_failed s, ''failed'')] else []) @
     (if st_terminated s > 0 then [(st_terminated s, ''sigkilled'')] else []) @
     [(st_skipped s, ''skipped'')]"

record test_outcome =
  oc_verdict :: verdict
  oc_output :: string
  oc_components :: string
  oc_duration :: duration

datatype test_event =
    RunStarted nat string
  | TestStarted string string qos_class nat
  | TestSlow string string duration bool nat
  | TestRetrying string string nat duration verdict duration
  | TestFinished string string verdict duration nat string string
  | TestSkipped string string skip_reason
  | RunCancelling cancel_reason nat
  | RunFinished run_stats duration

section \<open>Panel inputs\<close>

record live_snapshot =
  sn_running :: u32
  sn_queued :: u32
  sn_committed :: resources
  sn_limit :: resources

definition live_snapshot_of :: "nat \<Rightarrow> run_stats \<Rightarrow> resources \<Rightarrow> resources \<Rightarrow> live_snapshot" where
  "live_snapshot_of running stats com limit =
     (let r = of_nat running :: u32;
          q = sat_sub (sat_sub (of_nat (st_total stats)) (of_nat (stats_finished stats))) r
      in \<lparr>sn_running = r, sn_queued = q, sn_committed = com, sn_limit = limit\<rparr>)"

record running_view =
  rv_binary_id :: string
  rv_test_name :: string
  rv_elapsed :: duration
  rv_slow :: bool

record run_progress =
  rp_elapsed :: duration
  rp_passed :: nat
  rp_failed :: nat
  rp_total :: u32

definition run_progress_of :: "run_stats \<Rightarrow> duration \<Rightarrow> run_progress" where
  "run_progress_of stats elapsed = \<lparr>rp_elapsed = elapsed, rp_passed = st_passed stats,
     rp_failed = st_failed stats, rp_total = of_nat (st_total stats)\<rparr>"

definition progress_done :: "run_progress \<Rightarrow> nat" where
  "progress_done p = rp_passed p + rp_failed p"

record panel_frame =
  pf_snapshot :: live_snapshot
  pf_progress :: run_progress
  pf_running :: "running_view list"

section \<open>Configuration and state\<close>

record loop_config =
  lc_fail_fast :: bool
  lc_slow_after :: "duration option"
  lc_sa :: string
  lc_run_id :: string
  lc_resources :: "node_id \<rightharpoonup> node_state"
  lc_max_inflight :: "nat option"
  lc_reservation :: bool

record running =
  rn_item :: work_item
  rn_attempt :: nat
  rn_started :: nat
  rn_slow_emitted :: bool

type_synonym test_key = "string \<times> string"

text \<open>
  \<open>lp_futs\<close> are the futures of running tests, by slot; \<open>lp_cancel\<close> is the latch as last read;
  \<open>lp_published\<close> is what was last reported to the reservation.
\<close>

record loop_state =
  lp_sched :: scheduler
  lp_inflight :: "(slot_id \<times> running) list"
  lp_parked :: "(test_key \<times> (work_item \<times> nat)) list"
  lp_ready :: "(slot_id \<times> work_item \<times> nat) list"
  lp_futs :: "slot_id list"
  lp_stats :: run_stats
  lp_fail_fast :: bool
  lp_cancelled :: "cancel_reason option"
  lp_cancel :: bool
  lp_log :: "test_event list"
  lp_start :: nat
  lp_start_wall :: instant
  lp_published :: "(resources \<times> resources \<times> progress) option"

definition retryable :: "verdict \<Rightarrow> bool" where
  "retryable v \<longleftrightarrow> (case v of Fail _ \<Rightarrow> True | Timeout \<Rightarrow> True | _ \<Rightarrow> False)"

definition to_request :: "work_item \<Rightarrow> string \<Rightarrow> request" where
  "to_request i sa = \<lparr>rq_binary_id = wi_binary_id i, rq_test_name = wi_test_name i, rq_sa = sa,
     rq_footprint = wi_footprint i\<rparr>"

definition skip_reason_of :: "reject_reason \<Rightarrow> skip_reason" where
  "skip_reason_of r = (case r of
     ExceedsClusterCapacity \<Rightarrow> SkipExceedsClusterCapacity
   | ExceedsSaBudget \<Rightarrow> SkipExceedsSaBudget)"

text \<open>The debug rendering of a node id is a parameter.\<close>

fun unmet_dep :: "(node_id \<Rightarrow> string) \<Rightarrow> node_id list \<Rightarrow> (node_id \<rightharpoonup> node_state) \<Rightarrow> skip_reason option" where
  "unmet_dep show_node [] res = None"
| "unmet_dep show_node (d # ds) res = (case res d of
     Some (Failed detail) \<Rightarrow> Some (DependencyUnavailable (show_node d @ '': '' @ detail))
   | Some Blocked \<Rightarrow> Some (DependencyUnavailable (show_node d @ '': blocked by a failed dependency''))
   | _ \<Rightarrow> unmet_dep show_node ds res)"

definition emit :: "test_event \<Rightarrow> loop_state \<Rightarrow> loop_state" where
  "emit e s = s\<lparr>lp_log := lp_log s @ [e]\<rparr>"

definition skip_test :: "work_item \<Rightarrow> skip_reason \<Rightarrow> loop_state \<Rightarrow> loop_state" where
  "skip_test i why s = (emit (TestSkipped (wi_binary_id i) (wi_test_name i) why) s)
     \<lparr>lp_stats := (lp_stats s)\<lparr>st_skipped := st_skipped (lp_stats s) + 1\<rparr>\<rparr>"

definition emit_finished :: "running \<Rightarrow> test_outcome \<Rightarrow> loop_state \<Rightarrow> loop_state" where
  "emit_finished r oc s = emit (TestFinished (wi_binary_id (rn_item r)) (wi_test_name (rn_item r))
     (oc_verdict oc) (oc_duration oc) (rn_attempt r) (oc_output oc) (oc_components oc)) s"

definition under_cap :: "loop_config \<Rightarrow> nat \<Rightarrow> bool" where
  "under_cap cfg n \<longleftrightarrow> (case lc_max_inflight cfg of None \<Rightarrow> True | Some cap \<Rightarrow> n < cap)"

section \<open>Spawning\<close>

definition spawn_granted :: "nat \<Rightarrow> slot_id \<Rightarrow> work_item \<Rightarrow> nat \<Rightarrow> loop_state \<Rightarrow> loop_state" where
  "spawn_granted now slot i attempt s =
     (emit (TestStarted (wi_binary_id i) (wi_test_name i) (wi_class i) attempt) s)
       \<lparr>lp_futs := lp_futs s @ [slot],
        lp_inflight := alist_insert slot \<lparr>rn_item = i, rn_attempt = attempt, rn_started = now,
          rn_slow_emitted = False\<rparr> (lp_inflight s)\<rparr>"

fun pump_from :: "loop_config \<Rightarrow> nat \<Rightarrow> (slot_id \<times> work_item \<times> nat) list \<Rightarrow> loop_state \<Rightarrow> loop_state" where
  "pump_from cfg now [] s = s\<lparr>lp_ready := []\<rparr>"
| "pump_from cfg now ((slot, i, attempt) # rest) s =
     (if under_cap cfg (length (lp_inflight s))
      then pump_from cfg now rest (spawn_granted now slot i attempt s)
      else s\<lparr>lp_ready := (slot, i, attempt) # rest\<rparr>)"

definition pump :: "loop_config \<Rightarrow> nat \<Rightarrow> loop_state \<Rightarrow> loop_state" where
  "pump cfg now s = pump_from cfg now (lp_ready s) s"

definition progress_of :: "loop_state \<Rightarrow> progress" where
  "progress_of s =
     (let running = sort_key (\<lambda>r. - rt_started_at r)
            (map (\<lambda>(_, r). \<lparr>rt_name = wi_test_name (rn_item r), rt_footprint = wi_footprint (rn_item r),
               rt_started_at = lp_start_wall s + int (rn_started r - lp_start s)\<rparr>) (lp_inflight s));
          total = of_nat (st_total (lp_stats s)) :: u32
      in \<lparr>pr_total = total,
          pr_queued = sat_sub (sat_sub total (of_nat (stats_finished (lp_stats s)))) (of_nat (length running)),
          pr_failed = of_nat (st_failed (lp_stats s)), pr_running = running, pr_eta_override = None\<rparr>)"

definition publish_demand :: "loop_config \<Rightarrow> loop_state \<Rightarrow> loop_state" where
  "publish_demand cfg s = (if lc_reservation cfg
     then s\<lparr>lp_published := Some (committed (lp_sched s), sched_demand (lp_sched s), progress_of s)\<rparr>
     else s)"

section \<open>Admission\<close>

definition submit :: "loop_config \<Rightarrow> work_item \<Rightarrow> nat \<Rightarrow> loop_state \<Rightarrow> loop_state option" where
  "submit cfg i attempt s = (case sched_request (to_request i (lc_sa cfg)) (lp_sched s) of
     None \<Rightarrow> None
   | Some (sc, Granted slot) \<Rightarrow> Some (s\<lparr>lp_sched := sc, lp_ready := lp_ready s @ [(slot, i, attempt)]\<rparr>)
   | Some (sc, Queued) \<Rightarrow> Some (s\<lparr>lp_sched := sc,
       lp_parked := alist_insert (item_key i) (i, attempt) (lp_parked s)\<rparr>)
   | Some (sc, Rejected why) \<Rightarrow> Some (skip_test i (skip_reason_of why) (s\<lparr>lp_sched := sc\<rparr>)))"

definition sweep_item :: "(node_id \<Rightarrow> string) \<Rightarrow> loop_config \<Rightarrow> work_item \<Rightarrow> loop_state \<Rightarrow> loop_state option" where
  "sweep_item show_node cfg i s = (case unmet_dep show_node (wi_deps i) (lc_resources cfg) of
     Some why \<Rightarrow> Some (skip_test i why s)
   | None \<Rightarrow> submit cfg i 1 s)"

fun sweep :: "(node_id \<Rightarrow> string) \<Rightarrow> loop_config \<Rightarrow> work_item list \<Rightarrow> loop_state \<Rightarrow> loop_state option" where
  "sweep show_node cfg [] s = Some s"
| "sweep show_node cfg (i # is) s = Option.bind (sweep_item show_node cfg i s) (sweep show_node cfg is)"

definition loop_init :: "loop_config \<Rightarrow> resources \<Rightarrow> nat \<Rightarrow> nat \<Rightarrow> instant \<Rightarrow> loop_state" where
  "loop_init cfg ceil0 count0 start wall = \<lparr>lp_sched = sched_new ceil0, lp_inflight = [], lp_parked = [],
     lp_ready = [], lp_futs = [],
     lp_stats = \<lparr>st_passed = 0, st_failed = 0, st_terminated = 0, st_skipped = 0, st_total = count0\<rparr>,
     lp_fail_fast = False, lp_cancelled = None, lp_cancel = False, lp_log = [RunStarted count0 (lc_run_id cfg)],
     lp_start = start, lp_start_wall = wall, lp_published = None\<rparr>"

definition run_start ::
  "(node_id \<Rightarrow> string) \<Rightarrow> loop_config \<Rightarrow> resources \<Rightarrow> work_item list \<Rightarrow> nat \<Rightarrow> instant \<Rightarrow> loop_state option" where
  "run_start show_node cfg ceil0 is now wall =
     map_option (\<lambda>s. publish_demand cfg (pump cfg now s))
       (sweep show_node cfg is (loop_init cfg ceil0 (length is) now wall))"

section \<open>One iteration\<close>

text \<open>Where, among its reads in one iteration, the cancellation latch is first seen set.\<close>

datatype cancel_seen = NotSeen | SeenAtTop | SeenAtRetry | SeenAtAdmit

datatype loop_event =
    Woken
  | Done slot_id test_outcome
  | NewCeiling resources
  | Tick

record iter_env =
  ie_now :: nat
  ie_cancel :: cancel_seen

definition cancelled_top :: "iter_env \<Rightarrow> loop_state \<Rightarrow> bool" where
  "cancelled_top e s \<longleftrightarrow> lp_cancel s \<or> ie_cancel e = SeenAtTop"

definition cancelled_retry :: "iter_env \<Rightarrow> loop_state \<Rightarrow> bool" where
  "cancelled_retry e s \<longleftrightarrow> cancelled_top e s \<or> ie_cancel e = SeenAtRetry"

definition cancelled_admit :: "iter_env \<Rightarrow> loop_state \<Rightarrow> bool" where
  "cancelled_admit e s \<longleftrightarrow> cancelled_retry e s \<or> ie_cancel e = SeenAtAdmit"

definition top_check :: "iter_env \<Rightarrow> loop_state \<Rightarrow> loop_state" where
  "top_check e s = (if lp_cancelled s = None \<and> cancelled_top e s
     then (emit (RunCancelling Interrupt (length (lp_inflight s))) s)\<lparr>lp_cancelled := Some Interrupt\<rparr>
     else s)"

fun take_grants :: "admitted_test list \<Rightarrow> loop_state \<Rightarrow> loop_state" where
  "take_grants [] s = s"
| "take_grants (g # gs) s =
     (case map_of (lp_parked s) (ad_binary_id g, ad_test_name g) of
        None \<Rightarrow> take_grants gs s
      | Some (i, attempt) \<Rightarrow> take_grants gs
          (s\<lparr>lp_parked := AList.delete (ad_binary_id g, ad_test_name g) (lp_parked s),
             lp_ready := lp_ready s @ [(ad_slot_id g, i, attempt)]\<rparr>))"

text \<open>The gate on admitting into freed or new capacity; the flag is the latch as read there.\<close>

definition admit_grants ::
  "loop_config \<Rightarrow> nat \<Rightarrow> bool \<Rightarrow> admitted_test list \<Rightarrow> loop_state \<Rightarrow> loop_state" where
  "admit_grants cfg now cancel grants s =
     (let s1 = s\<lparr>lp_cancel := cancel\<rparr>
      in if \<not> lp_fail_fast s1 \<and> \<not> cancel then pump cfg now (take_grants grants s1) else s1)"

definition settle_outcome ::
  "loop_config \<Rightarrow> bool \<Rightarrow> running \<Rightarrow> test_outcome \<Rightarrow> loop_state \<Rightarrow> loop_state option" where
  "settle_outcome cfg cancel r oc s =
     (let st = lp_stats s in
      if is_pass (oc_verdict oc)
      then Some ((emit_finished r oc s)\<lparr>lp_stats := st\<lparr>st_passed := st_passed st + 1\<rparr>\<rparr>)
      else if retryable (oc_verdict oc) \<and> rn_attempt r \<le> wi_retries (rn_item r) \<and> \<not> lp_fail_fast s \<and> \<not> cancel
      then submit cfg (rn_item r) (rn_attempt r + 1)
             (emit (TestRetrying (wi_binary_id (rn_item r)) (wi_test_name (rn_item r)) (rn_attempt r + 1) 0
                (oc_verdict oc) (oc_duration oc)) s)
      else if oc_verdict oc = Terminated
      then Some ((emit_finished r oc s)\<lparr>lp_stats := st\<lparr>st_terminated := st_terminated st + 1\<rparr>\<rparr>)
      else Some ((emit_finished r oc s)\<lparr>lp_stats := st\<lparr>st_failed := st_failed st + 1\<rparr>,
                   lp_fail_fast := lc_fail_fast cfg \<or> lp_fail_fast s\<rparr>))"

definition on_done :: "loop_config \<Rightarrow> iter_env \<Rightarrow> slot_id \<Rightarrow> test_outcome \<Rightarrow> loop_state \<Rightarrow> loop_state option" where
  "on_done cfg e slot oc s = (case map_of (lp_inflight s) slot of
     None \<Rightarrow> None
   | Some r \<Rightarrow> (case sched_release slot (lp_sched s) of
       None \<Rightarrow> None
     | Some (sc, grants) \<Rightarrow>
         map_option (\<lambda>s2. publish_demand cfg (admit_grants cfg (ie_now e) (cancelled_admit e s) grants s2))
           (settle_outcome cfg (cancelled_retry e s) r oc
              (s\<lparr>lp_futs := remove1 slot (lp_futs s), lp_inflight := AList.delete slot (lp_inflight s),
                 lp_sched := sc\<rparr>))))"

definition on_ceiling :: "loop_config \<Rightarrow> iter_env \<Rightarrow> resources \<Rightarrow> loop_state \<Rightarrow> loop_state option" where
  "on_ceiling cfg e c s = (case sched_reconcile c (lp_sched s) of
     None \<Rightarrow> None
   | Some (sc, grants) \<Rightarrow>
       Some (publish_demand cfg (admit_grants cfg (ie_now e) (cancelled_admit e s) grants (s\<lparr>lp_sched := sc\<rparr>))))"

definition mark_slow :: "nat \<Rightarrow> duration \<Rightarrow> running \<Rightarrow> running" where
  "mark_slow now after r = (if \<not> rn_slow_emitted r \<and> now - rn_started r \<ge> after
     then r\<lparr>rn_slow_emitted := True\<rparr> else r)"

definition emit_slows :: "nat \<Rightarrow> duration \<Rightarrow> loop_state \<Rightarrow> loop_state" where
  "emit_slows now after s = s\<lparr>lp_log := lp_log s @
     map (\<lambda>(_, r). TestSlow (wi_binary_id (rn_item r)) (wi_test_name (rn_item r)) (now - rn_started r) False
            (rn_attempt r))
       (filter (\<lambda>(_, r). rn_slow_emitted r \<and> now - rn_started r \<ge> after) (lp_inflight s))\<rparr>"

definition on_tick :: "loop_config \<Rightarrow> iter_env \<Rightarrow> loop_state \<Rightarrow> loop_state" where
  "on_tick cfg e s = (case lc_slow_after cfg of
     None \<Rightarrow> s
   | Some after \<Rightarrow> emit_slows (ie_now e) after
       (s\<lparr>lp_inflight := map (\<lambda>(k, r). (k, mark_slow (ie_now e) after r)) (lp_inflight s)\<rparr>))"

text \<open>The frame handed to the panel after a completion, a new ceiling or a tick; it reads the state only.\<close>

definition render_tick :: "nat \<Rightarrow> loop_state \<Rightarrow> panel_frame" where
  "render_tick now s = \<lparr>
     pf_snapshot = live_snapshot_of (length (lp_inflight s)) (lp_stats s) (committed (lp_sched s)) (sched_ceiling (lp_sched s)),
     pf_progress = run_progress_of (lp_stats s) (now - lp_start s),
     pf_running = map (\<lambda>r. \<lparr>rv_binary_id = wi_binary_id (rn_item r), rv_test_name = wi_test_name (rn_item r),
         rv_elapsed = now - rn_started r, rv_slow = rn_slow_emitted r\<rparr>)
       (sort_key (\<lambda>r. (rn_started r, wi_binary_id (rn_item r), wi_test_name (rn_item r))) (map snd (lp_inflight s)))\<rparr>"

definition loop_iter :: "loop_config \<Rightarrow> iter_env \<Rightarrow> loop_event \<Rightarrow> loop_state \<Rightarrow> loop_state option" where
  "loop_iter cfg e ev s =
     (let s1 = (top_check e s)\<lparr>lp_cancel := cancelled_top e s\<rparr> in
      case ev of
        Woken \<Rightarrow> Some s1
      | Done slot oc \<Rightarrow> on_done cfg e slot oc s1
      | NewCeiling c \<Rightarrow> on_ceiling cfg e c s1
      | Tick \<Rightarrow> Some (on_tick cfg e s1))"

fun run_events :: "loop_config \<Rightarrow> (iter_env \<times> loop_event) list \<Rightarrow> loop_state \<Rightarrow> loop_state option" where
  "run_events cfg [] s = Some s"
| "run_events cfg ((e, ev) # es) s =
     (if lp_futs s = [] then Some s else Option.bind (loop_iter cfg e ev s) (run_events cfg es))"

definition run_finish :: "nat \<Rightarrow> loop_state \<Rightarrow> loop_state" where
  "run_finish now s = emit (RunFinished (lp_stats s) (now - lp_start s)) s"

definition run_loop ::
  "(node_id \<Rightarrow> string) \<Rightarrow> loop_config \<Rightarrow> resources \<Rightarrow> work_item list \<Rightarrow> nat \<Rightarrow> instant \<Rightarrow>
   (iter_env \<times> loop_event) list \<Rightarrow> nat \<Rightarrow> loop_state option" where
  "run_loop show_node cfg ceil0 is now wall es fin =
     Option.bind (run_start show_node cfg ceil0 is now wall) (\<lambda>s.
     Option.bind (run_events cfg es s) (\<lambda>t. if lp_futs t = [] then Some (run_finish fin t) else None))"

end
