(* ===== verification/Engine_Admission.thy ===== *)
theory Engine_Admission
  imports Qos_Scheduler
begin

text \<open>
  What the run loop relies on of admission, as an interface: every operation answers, a grant
  is a slot nobody holds, and whatever waits is either granted or still waits. The scheduler
  of \<open>src/src/qos/scheduler.rs\<close> provides it.
\<close>

locale admission =
  fixes ready :: "'s \<Rightarrow> bool"
    and held :: "'s \<Rightarrow> nat set"
    and waiting :: "'s \<Rightarrow> 'k multiset"
    and req :: "'r \<Rightarrow> 's \<Rightarrow> ('s \<times> nat admission) option"
    and req_key :: "'r \<Rightarrow> 'k"
    and rel :: "nat \<Rightarrow> 's \<Rightarrow> ('s \<times> 'g list) option"
    and recon :: "'c \<Rightarrow> 's \<Rightarrow> ('s \<times> 'g list) option"
    and g_slot :: "'g \<Rightarrow> nat"
    and g_key :: "'g \<Rightarrow> 'k"
  assumes request_law: "ready s \<Longrightarrow> \<exists>t a. req r s = Some (t, a) \<and> ready t \<and>
      held t = (case a of Granted k \<Rightarrow> insert k (held s) | _ \<Rightarrow> held s) \<and>
      waiting t = (case a of Queued \<Rightarrow> add_mset (req_key r) (waiting s) | _ \<Rightarrow> waiting s) \<and>
      (\<forall>k. a = Granted k \<longrightarrow> k \<notin> held s)"
    and release_law: "ready s \<Longrightarrow> \<exists>t gs. rel k s = Some (t, gs) \<and> ready t \<and>
      held t = (held s - {k}) \<union> g_slot ` set gs \<and> waiting s = mset (map g_key gs) + waiting t \<and>
      distinct (map g_slot gs) \<and> g_slot ` set gs \<inter> held s = {}"
    and reconcile_law: "ready s \<Longrightarrow> \<exists>t gs. recon c s = Some (t, gs) \<and> ready t \<and>
      held t = held s \<union> g_slot ` set gs \<and> waiting s = mset (map g_key gs) + waiting t \<and>
      distinct (map g_slot gs) \<and> g_slot ` set gs \<inter> held s = {}"
begin

text \<open>
  A client that tracks the slots it uses keeps them distinct and held, and if it used every
  held slot it still does.
\<close>

definition tracked :: "nat list \<Rightarrow> 's \<Rightarrow> bool \<Rightarrow> bool" where
  "tracked us s all \<longleftrightarrow> distinct us \<and> set us \<subseteq> held s \<and> (all \<longrightarrow> set us = held s)"

lemma request_tracks:
  assumes "ready s" and "tracked us s all"
  obtains (granted) t k where "req r s = Some (t, Granted k)" "ready t" "tracked (us @ [k]) t all"
      "waiting t = waiting s"
  | (queued) t where "req r s = Some (t, Queued)" "ready t" "tracked us t all"
      "waiting t = add_mset (req_key r) (waiting s)"
  | (rejected) t w where "req r s = Some (t, Rejected w)" "ready t" "tracked us t all"
      "waiting t = waiting s"
proof -
  obtain t a where a: "req r s = Some (t, a)" "ready t"
    "held t = (case a of Granted k \<Rightarrow> insert k (held s) | _ \<Rightarrow> held s)"
    "waiting t = (case a of Queued \<Rightarrow> add_mset (req_key r) (waiting s) | _ \<Rightarrow> waiting s)"
    "\<forall>k. a = Granted k \<longrightarrow> k \<notin> held s"
    using request_law [OF assms(1), of r] by blast
  show thesis
  proof (cases a)
    case (Granted k)
    then show ?thesis using a assms(2) by (intro granted [of t k]) (auto simp: tracked_def)
  next
    case Queued
    then show ?thesis using a assms(2) by (intro queued [of t]) (auto simp: tracked_def)
  next
    case (Rejected w)
    then show ?thesis using a assms(2) by (intro rejected [of t w]) (auto simp: tracked_def)
  qed
qed

lemma release_tracks:
  assumes "ready s" and "tracked us s all" and "k \<in> set us"
  obtains t gs where "rel k s = Some (t, gs)" "ready t" "tracked (remove1 k us @ map g_slot gs) t all"
    "waiting s = mset (map g_key gs) + waiting t"
proof -
  obtain t gs where "rel k s = Some (t, gs)" "ready t" "held t = (held s - {k}) \<union> g_slot ` set gs"
    "waiting s = mset (map g_key gs) + waiting t" "distinct (map g_slot gs)" "g_slot ` set gs \<inter> held s = {}"
    using release_law [OF assms(1), of k] by blast
  then show thesis using assms(2,3) by (intro that [of t gs]) (auto simp: tracked_def)
qed

lemma reconcile_tracks:
  assumes "ready s" and "tracked us s all"
  obtains t gs where "recon c s = Some (t, gs)" "ready t" "tracked (us @ map g_slot gs) t all"
    "waiting s = mset (map g_key gs) + waiting t"
proof -
  obtain t gs where "recon c s = Some (t, gs)" "ready t" "held t = held s \<union> g_slot ` set gs"
    "waiting s = mset (map g_key gs) + waiting t" "distinct (map g_slot gs)" "g_slot ` set gs \<inter> held s = {}"
    using reconcile_law [OF assms(1), of c] by blast
  then show thesis using assms(2) by (intro that [of t gs]) (auto simp: tracked_def)
qed

end

text \<open>
  Under a ceiling that has room for every waiting request, and that no reconcile moves,
  admission drains: with nothing held nothing waits.
\<close>

locale draining_admission = admission +
  fixes roomy :: "'a \<Rightarrow> bool"
  assumes request_roomy: "ready s \<Longrightarrow> roomy s \<Longrightarrow> req r s = Some (t, a) \<Longrightarrow> roomy t"
    and release_roomy: "ready s \<Longrightarrow> roomy s \<Longrightarrow> rel k s = Some (t, gs) \<Longrightarrow> roomy t"
    and idle_law: "ready s \<Longrightarrow> roomy s \<Longrightarrow> held s = {} \<Longrightarrow> waiting s = {#}"
begin

lemma untracked_idle: "ready s \<Longrightarrow> roomy s \<Longrightarrow> tracked [] s True \<Longrightarrow> waiting s = {#}"
  by (rule idle_law) (auto simp: tracked_def)

end

section \<open>The scheduler provides it\<close>

definition held_slots :: "scheduler \<Rightarrow> nat set" where
  "held_slots s = fst ` set (leases s)"

definition req_ident :: "request \<Rightarrow> string \<times> string" where
  "req_ident r = (rq_binary_id r, rq_test_name r)"

definition grant_ident :: "admitted_test \<Rightarrow> string \<times> string" where
  "grant_ident g = (ad_binary_id g, ad_test_name g)"

definition waiting_keys :: "scheduler \<Rightarrow> (string \<times> string) multiset" where
  "waiting_keys s = mset (map (\<lambda>p. req_ident (p_req p)) (queue s))"

text \<open>The loop's scheduler: reachable, and without per-identity budgets.\<close>

definition unbudgeted :: "scheduler \<Rightarrow> bool" where
  "unbudgeted s \<longleftrightarrow> sched_ready s \<and> sa_budgets s = Map.empty"

lemma pass_tracks:
  assumes "sched_inv s"
  obtains t gs where "schedule_pass s = Some (t, gs)" "sched_ready t" "sa_budgets t = sa_budgets s"
    "held_slots t = held_slots s \<union> ad_slot_id ` set gs"
    "waiting_keys s = mset (map grant_ident gs) + waiting_keys t"
    "distinct (map ad_slot_id gs)" "ad_slot_id ` set gs \<inter> held_slots s = {}"
    "available t = available s" "subseq (queue t) (queue s)"
proof -
  from assms obtain t gs where p: "schedule_pass s = Some (t, gs)" "sched_inv t" "quiescent t"
    "sa_budgets t = sa_budgets s" "map ad_slot_id gs = [next_slot_id s ..< next_slot_id t]"
    "available t = available s" "subseq (queue t) (queue s)"
    by (rule schedule_pass_facts) blast
  then obtain u where l: "pass_loop (s\<lparr>queue := []\<rparr>) (queue s) = Some (u, gs, queue t)" "t = u\<lparr>queue := queue t\<rparr>"
    by (auto simp: schedule_pass_def split: if_splits option.splits)
  have c: "core_inv (s\<lparr>queue := []\<rparr>)" using assms by (simp add: sched_inv_def)
  have "leases t = leases u" by (subst l(2)) simp
  then have "held_slots t = held_slots s \<union> ad_slot_id ` set gs"
    using pass_loop_leases [OF l(1) c] by (simp add: held_slots_def)
  moreover have "waiting_keys s = mset (map grant_ident gs) + waiting_keys t"
    using pass_loop_idents [OF l(1) c]
    by (simp add: waiting_keys_def req_ident_def grant_ident_def [abs_def] comp_def)
  moreover have "ad_slot_id ` set gs = {next_slot_id s ..< next_slot_id t}"
    using p(5) by (metis atLeastLessThan_upt set_map)
  moreover have "\<forall>k\<in>held_slots s. k < next_slot_id s"
    using assms by (simp add: held_slots_def sched_inv_defs)
  ultimately show thesis using p by (intro that [of t gs]) (auto simp: sched_ready_def)
qed

interpretation adm: admission unbudgeted held_slots waiting_keys sched_request req_ident
  sched_release sched_reconcile ad_slot_id grant_ident
proof unfold_locales
  fix s r
  assume u: "unbudgeted s"
  then have i: "sched_inv s" "quiescent s" and b: "sa_budgets s = Map.empty"
    by (auto simp: unbudgeted_def sched_ready_def)
  from i obtain t a where ta: "sched_request r s = Some (t, a)" "sched_inv t" "quiescent t" "sa_budgets t = sa_budgets s"
    by (rule request_inv [of s r]) blast
  have "held_slots t = (case a of Granted k \<Rightarrow> insert k (held_slots s) | _ \<Rightarrow> held_slots s) \<and>
      waiting_keys t = (case a of Queued \<Rightarrow> add_mset (req_ident r) (waiting_keys s) | _ \<Rightarrow> waiting_keys s) \<and>
      (\<forall>k. a = Granted k \<longrightarrow> k \<notin> held_slots s)"
  proof (cases rule: decide_for_cases [of s r])
    case (rejected w)
    then show ?thesis using ta(1) request_rejected by auto
  next
    case queued
    then show ?thesis using ta(1) request_queued [OF i queued(1)] by (auto simp: held_slots_def waiting_keys_def)
  next
    case granted
    from i granted(1) obtain v g where v: "admit (s\<lparr>next_seq := Suc (next_seq s), queue := []\<rparr>) r = Some (v, g)"
      "sched_request r s = Some (v\<lparr>queue := queue s\<rparr>, Granted (next_slot_id s))"
      by (rule request_granted [of s r]) blast
    have "fst ` set (leases v) = insert (next_slot_id s) (held_slots s)"
      unfolding admit_frame(9) [OF v(1)] keys_insert by (simp add: held_slots_def)
    moreover have "next_slot_id s \<notin> held_slots s"
      using fresh_slot [of s] i(1) by (simp add: held_slots_def sched_inv_def core_inv_def)
    moreover have "t = v\<lparr>queue := queue s\<rparr>" "a = Granted (next_slot_id s)" using ta(1) v(2) by simp_all
    ultimately show ?thesis by (simp add: held_slots_def waiting_keys_def)
  qed
  with ta b show "\<exists>t a. sched_request r s = Some (t, a) \<and> unbudgeted t \<and>
      held_slots t = (case a of Granted k \<Rightarrow> insert k (held_slots s) | _ \<Rightarrow> held_slots s) \<and>
      waiting_keys t = (case a of Queued \<Rightarrow> add_mset (req_ident r) (waiting_keys s) | _ \<Rightarrow> waiting_keys s) \<and>
      (\<forall>k. a = Granted k \<longrightarrow> k \<notin> held_slots s)"
    by (auto simp: unbudgeted_def sched_ready_def)
next
  fix s k
  assume u: "unbudgeted s"
  then have i: "sched_inv s" "quiescent s" and b: "sa_budgets s = Map.empty"
    by (auto simp: unbudgeted_def sched_ready_def)
  show "\<exists>t gs. sched_release k s = Some (t, gs) \<and> unbudgeted t \<and>
      held_slots t = (held_slots s - {k}) \<union> ad_slot_id ` set gs \<and>
      waiting_keys s = mset (map grant_ident gs) + waiting_keys t \<and>
      distinct (map ad_slot_id gs) \<and> ad_slot_id ` set gs \<inter> held_slots s = {}"
  proof (cases "map_of (leases s) k")
    case None
    then have "k \<notin> held_slots s" by (simp add: held_slots_def map_of_eq_None_iff)
    then show ?thesis using u None by (auto simp: sched_release_def)
  next
    case (Some l)
    let ?s = "s\<lparr>leases := AList.delete k (leases s), committed := r_saturating_sub (committed s) (l_footprint l),
       sa_usage := release_usage s l\<rparr>"
    have h: "held_slots ?s = held_slots s - {k}" by (simp add: held_slots_def keys_delete)
    have w: "waiting_keys ?s = waiting_keys s" by (simp add: waiting_keys_def)
    have inv: "sched_inv ?s" by (rule release_sched_inv [OF i(1) Some])
    then obtain t gs where t: "schedule_pass ?s = Some (t, gs)" "sched_ready t" "sa_budgets t = sa_budgets ?s"
      "held_slots t = held_slots ?s \<union> ad_slot_id ` set gs"
      "waiting_keys ?s = mset (map grant_ident gs) + waiting_keys t"
      "distinct (map ad_slot_id gs)" "ad_slot_id ` set gs \<inter> held_slots ?s = {}"
      by (rule pass_tracks) blast
    have "map ad_slot_id gs = [next_slot_id ?s ..< next_slot_id t]"
      using inv by (rule schedule_pass_facts) (use t(1) in auto)
    then have "set (map ad_slot_id gs) = {next_slot_id s ..< next_slot_id t}" by (simp del: set_map)
    moreover have "\<forall>j\<in>held_slots s. j < next_slot_id s" using i(1) by (simp add: held_slots_def sched_inv_defs)
    ultimately have "ad_slot_id ` set gs \<inter> held_slots s = {}" by auto
    with t b Some show ?thesis by (auto simp: sched_release_def unbudgeted_def h w)
  qed
next
  fix s c
  assume u: "unbudgeted s"
  then have "sched_inv (s\<lparr>available := c\<rparr>)" by (simp add: unbudgeted_def sched_ready_def reconcile_sched_inv)
  then obtain t gs where "schedule_pass (s\<lparr>available := c\<rparr>) = Some (t, gs)" "sched_ready t"
    "sa_budgets t = sa_budgets (s\<lparr>available := c\<rparr>)"
    "held_slots t = held_slots (s\<lparr>available := c\<rparr>) \<union> ad_slot_id ` set gs"
    "waiting_keys (s\<lparr>available := c\<rparr>) = mset (map grant_ident gs) + waiting_keys t"
    "distinct (map ad_slot_id gs)" "ad_slot_id ` set gs \<inter> held_slots (s\<lparr>available := c\<rparr>) = {}"
    by (rule pass_tracks) blast
  with u show "\<exists>t gs. sched_reconcile c s = Some (t, gs) \<and> unbudgeted t \<and>
      held_slots t = held_slots s \<union> ad_slot_id ` set gs \<and>
      waiting_keys s = mset (map grant_ident gs) + waiting_keys t \<and>
      distinct (map ad_slot_id gs) \<and> ad_slot_id ` set gs \<inter> held_slots s = {}"
    by (auto simp: sched_reconcile_def unbudgeted_def held_slots_def waiting_keys_def)
qed

text \<open>With nothing held, what still waits exceeds the ceiling on its own.\<close>

lemma idle_oversized:
  assumes u: "unbudgeted s" and h: "held_slots s = {}" and p: "p \<in> set (queue s)"
  shows "\<not> fits_within (rq_footprint (p_req p)) (available s)"
proof -
  have i: "sched_inv s" "quiescent s" "sa_budgets s = Map.empty" using u by (auto simp: unbudgeted_def sched_ready_def)
  have "leases s = []" using h by (simp add: held_slots_def)
  then have "committed s = ZERO" using i(1) by (simp add: sched_inv_defs resources_eq_iff lease_total_def)
  moreover have "r_saturating_sub x ZERO = x" for x by (simp add: resources_eq_iff amount_sat_sub)
  ultimately show ?thesis using i(2,3) p by (auto simp: quiescent_def fits_now_iff)
qed

text \<open>The queue holds requests that were made, and no others.\<close>

lemma request_asked:
  assumes u: "unbudgeted s" and t: "sched_request r s = Some (t, a)"
  shows "p_req ` set (queue t) \<subseteq> insert r (p_req ` set (queue s))"
proof (cases rule: decide_for_cases [of s r])
  case (rejected w)
  then show ?thesis using t request_rejected by auto
next
  case queued
  then show ?thesis using t u request_queued [of s r] by (auto simp: unbudgeted_def sched_ready_def)
next
  case granted
  from u have i: "sched_inv s" "quiescent s" by (auto simp: unbudgeted_def sched_ready_def)
  from i granted(1) obtain v where "sched_request r s = Some (v\<lparr>queue := queue s\<rparr>, Granted (next_slot_id s))"
    by (rule request_granted [of s r]) blast
  then show ?thesis using t by auto
qed

lemma release_queue:
  assumes u: "unbudgeted s" and t: "sched_release k s = Some (t, gs)"
  shows "available t = available s" and "set (queue t) \<subseteq> set (queue s)"
proof -
  have "available t = available s \<and> set (queue t) \<subseteq> set (queue s)"
  proof (cases "map_of (leases s) k")
    case None
    then show ?thesis using t by (simp add: sched_release_def)
  next
    case (Some l)
    let ?s = "s\<lparr>leases := AList.delete k (leases s), committed := r_saturating_sub (committed s) (l_footprint l),
       sa_usage := release_usage s l\<rparr>"
    have "sched_inv ?s" using u by (intro release_sched_inv [OF _ Some]) (simp add: unbudgeted_def sched_ready_def)
    then obtain v vs where "schedule_pass ?s = Some (v, vs)" "available v = available ?s" "subseq (queue v) (queue ?s)"
      by (rule pass_tracks) blast
    then show ?thesis using t Some by (auto simp: sched_release_def dest!: subseq_set)
  qed
  then show "available t = available s" and "set (queue t) \<subseteq> set (queue s)" by simp_all
qed

lemma reconcile_queue:
  assumes u: "unbudgeted s" and t: "sched_reconcile c s = Some (t, gs)"
  shows "available t = c" and "set (queue t) \<subseteq> set (queue s)"
proof -
  have "sched_inv (s\<lparr>available := c\<rparr>)" using u by (simp add: unbudgeted_def sched_ready_def reconcile_sched_inv)
  then obtain v vs where v: "schedule_pass (s\<lparr>available := c\<rparr>) = Some (v, vs)"
    "available v = available (s\<lparr>available := c\<rparr>)" "subseq (queue v) (queue (s\<lparr>available := c\<rparr>))"
    by (rule pass_tracks) blast
  show "available t = c" using t v(1,2) by (auto simp: sched_reconcile_def)
  show "set (queue t) \<subseteq> set (queue s)" using t v(1,3) by (auto simp: sched_reconcile_def dest!: subseq_set)
qed

text \<open>The ceiling has room for everything queued.\<close>

definition queue_fits :: "scheduler \<Rightarrow> bool" where
  "queue_fits s \<longleftrightarrow> (\<forall>p \<in> set (queue s). fits_within (rq_footprint (p_req p)) (available s))"

interpretation drain: draining_admission unbudgeted held_slots waiting_keys sched_request req_ident
  sched_release sched_reconcile ad_slot_id grant_ident queue_fits
proof unfold_locales
  fix s r t a
  assume u: "unbudgeted s" and q: "queue_fits s" and t: "sched_request r s = Some (t, a)"
  from u have i: "sched_inv s" "quiescent s" by (auto simp: unbudgeted_def sched_ready_def)
  show "queue_fits t"
  proof (cases rule: decide_for_cases [of s r])
    case (rejected w)
    then show ?thesis using t q request_rejected by auto
  next
    case queued
    then have "fits_within (rq_footprint r) (available s)"
      by (auto simp: decide_for_def decide_def split: if_splits)
    then show ?thesis using t q request_queued [OF i queued(1)] by (auto simp: queue_fits_def)
  next
    case granted
    from i granted(1) obtain v g where v: "admit (s\<lparr>next_seq := Suc (next_seq s), queue := []\<rparr>) r = Some (v, g)"
      "sched_request r s = Some (v\<lparr>queue := queue s\<rparr>, Granted (next_slot_id s))"
      by (rule request_granted [of s r]) blast
    then show ?thesis using t q admit_frame [OF v(1)] by (auto simp: queue_fits_def)
  qed
next
  fix s k t gs
  assume u: "unbudgeted s" and q: "queue_fits s" and t: "sched_release k s = Some (t, gs)"
  show "queue_fits t" using release_queue [OF u t] q by (auto simp: queue_fits_def)
next
  fix s
  assume u: "unbudgeted s" and q: "queue_fits s" and h: "held_slots s = {}"
  have "queue s = []" using idle_oversized [OF u h] q by (cases "queue s") (auto simp: queue_fits_def)
  then show "waiting_keys s = {#}" by (simp add: waiting_keys_def)
qed

end
