(* ===== verification/Engine_Run_Props.thy ===== *)
theory Engine_Run_Props
  imports Engine_Run Engine_Admission
begin

text \<open>
  Properties of the run loop of \<open>src/src/engine/schedule.rs\<close>: its book-keeping invariant over the
  \<open>admission\<close> interface, and what follows for a run: no panic, no test lost or reported twice,
  retries bounded, nothing started after a stop, and when every test is reported.
\<close>

section \<open>The books of the loop\<close>

fun reported_key :: "test_event \<Rightarrow> test_key option" where
  "reported_key (TestFinished b t v d a ou co) = Some (b, t)"
| "reported_key (TestSkipped b t w) = Some (b, t)"
| "reported_key _ = None"

definition reported :: "test_event list \<Rightarrow> test_key list" where
  "reported lg = List.map_filter reported_key lg"

definition live_keys :: "loop_state \<Rightarrow> test_key multiset" where
  "live_keys s = mset (map (\<lambda>x. item_key (rn_item (snd x))) (lp_inflight s)) +
     mset (map (\<lambda>x. item_key (fst (snd x))) (lp_ready s)) + mset (map fst (lp_parked s))"

definition used_slots :: "loop_state \<Rightarrow> slot_id list" where
  "used_slots s = map fst (lp_inflight s) @ map fst (lp_ready s)"

definition stopped :: "loop_state \<Rightarrow> bool" where
  "stopped s \<longleftrightarrow> lp_fail_fast s \<or> lp_cancel s"

definition no_dups :: "'a multiset \<Rightarrow> bool" where
  "no_dups K \<longleftrightarrow> (\<forall>k. count K k \<le> 1)"

text \<open>
  \<open>X\<close> are the tests in hand (taken out of the state within an operation), \<open>G\<close> the grants received
  and not yet acted on, \<open>K\<close> all tests of the run.
\<close>

definition book ::
  "test_key multiset \<Rightarrow> test_key multiset \<Rightarrow> admitted_test list \<Rightarrow> loop_state \<Rightarrow> bool" where
  "book K X G s \<longleftrightarrow> unbudgeted (lp_sched s) \<and> no_dups K \<and>
     mset (reported (lp_log s)) + live_keys s + X = K \<and>
     adm.tracked (used_slots s @ map ad_slot_id G) (lp_sched s) (\<not> stopped s) \<and>
     mset (lp_futs s) = mset (map fst (lp_inflight s)) \<and>
     (\<not> stopped s \<longrightarrow> waiting_keys (lp_sched s) + mset (map grant_ident G) = mset (map fst (lp_parked s))) \<and>
     (\<forall>(k, i, a) \<in> set (lp_parked s). k = item_key i) \<and>
     stats_finished (lp_stats s) = length (reported (lp_log s)) \<and>
     st_total (lp_stats s) = size K"

lemma reported_snoc [simp]:
  "reported (lg @ [e]) = reported lg @ (case reported_key e of Some k \<Rightarrow> [k] | None \<Rightarrow> [])"
  by (simp add: reported_def List.map_filter_def split: option.split)

lemma emit_simps [simp]:
  "lp_sched (emit e s) = lp_sched s" "lp_inflight (emit e s) = lp_inflight s"
  "lp_parked (emit e s) = lp_parked s" "lp_ready (emit e s) = lp_ready s" "lp_futs (emit e s) = lp_futs s"
  "lp_stats (emit e s) = lp_stats s" "lp_fail_fast (emit e s) = lp_fail_fast s"
  "lp_cancelled (emit e s) = lp_cancelled s" "lp_cancel (emit e s) = lp_cancel s"
  "lp_log (emit e s) = lp_log s @ [e]" "lp_start (emit e s) = lp_start s"
  "lp_start_wall (emit e s) = lp_start_wall s"
  by (simp_all add: emit_def)

lemmas book_defs = book_def live_keys_def used_slots_def stopped_def adm.tracked_def

text \<open>The books read only these parts of the state.\<close>

lemma book_cong:
  assumes "book K X G s" and "lp_sched t = lp_sched s" and "lp_inflight t = lp_inflight s"
    and "lp_parked t = lp_parked s" and "lp_ready t = lp_ready s" and "lp_futs t = lp_futs s"
    and "lp_stats t = lp_stats s" and "reported (lp_log t) = reported (lp_log s)"
    and "stopped s \<longrightarrow> stopped t"
  shows "book K X G t"
  using assms unfolding book_def live_keys_def used_slots_def adm.tracked_def by auto

lemma book_spawn:
  assumes "book K X G (s\<lparr>lp_ready := (slot, i, a) # rest\<rparr>)"
  shows "book K X G ((spawn_granted now slot i a s)\<lparr>lp_ready := rest\<rparr>)"
proof -
  have "slot \<notin> fst ` set (lp_inflight s)" using assms by (auto simp: book_defs)
  then show ?thesis
    using assms by (auto simp: book_defs spawn_granted_def alist_insert_fresh ac_simps)
qed

lemma spawn_ready: "spawn_granted now slot i a (s\<lparr>lp_ready := r\<rparr>) = (spawn_granted now slot i a s)\<lparr>lp_ready := r\<rparr>"
  by (simp add: spawn_granted_def emit_def)

lemma book_pump_from: "book K X G (s\<lparr>lp_ready := rs\<rparr>) \<Longrightarrow> book K X G (pump_from cfg now rs s)"
  by (induction cfg now rs s rule: pump_from.induct) (auto intro: book_spawn)

lemma book_pump: "book K X G s \<Longrightarrow> book K X G (pump cfg now s)"
  unfolding pump_def by (rule book_pump_from) simp

lemma book_publish [simp]: "book K X G (publish_demand cfg s) = book K X G s"
  by (simp add: publish_demand_def book_defs)

lemma book_skip: "book K (add_mset (item_key i) X) G s \<Longrightarrow> book K X G (skip_test i why s)"
  by (auto simp: book_defs skip_test_def item_key_def stats_finished_def stats_ran_def ac_simps)

lemma book_fresh_parked:
  "book K (add_mset k X) G s \<Longrightarrow> k \<notin> fst ` set (lp_parked s)"
proof
  assume b: "book K (add_mset k X) G s" and "k \<in> fst ` set (lp_parked s)"
  then have "count (mset (map fst (lp_parked s))) k \<ge> 1"
    by (metis count_greater_eq_one_iff list.set_map set_mset_mset)
  moreover have "mset (reported (lp_log s)) + live_keys s + add_mset k X = K" using b by (simp add: book_def)
  then have "Suc (count (mset (map fst (lp_parked s))) k) \<le> count K k"
    by (auto simp: live_keys_def simp del: mset_map)
  moreover have "count K k \<le> 1" using b unfolding book_def no_dups_def by blast
  ultimately show False by linarith
qed

lemma book_submit:
  assumes "book K (add_mset (item_key i) X) G s"
  shows "\<exists>t. submit cfg i a s = Some t \<and> book K X G t \<and> lp_fail_fast t = lp_fail_fast s \<and> lp_cancel t = lp_cancel s"
proof -
  let ?r = "to_request i (lc_sa cfg)"
  have k: "req_ident ?r = item_key i" by (simp add: req_ident_def to_request_def item_key_def)
  have u: "unbudgeted (lp_sched s)"
    "adm.tracked (used_slots s @ map ad_slot_id G) (lp_sched s) (\<not> stopped s)"
    using assms by (auto simp: book_def)
  note fresh = book_fresh_parked [OF assms]
  show ?thesis
  proof (cases rule: adm.request_tracks [OF u(1) u(2), of ?r, case_names granted queued rejected])
    case (granted t slot)
    then show ?thesis using assms by (auto simp: submit_def book_defs)
  next
    case (queued t)
    then show ?thesis using assms fresh by (auto simp: submit_def book_defs alist_insert_fresh k)
  next
    case (rejected t w)
    then have "book K (add_mset (item_key i) X) G (s\<lparr>lp_sched := t\<rparr>)"
      using assms by (auto simp: book_defs)
    from book_skip [OF this] rejected(1) show ?thesis by (auto simp: submit_def skip_test_def)
  qed
qed

lemma mset_delete:
  assumes "distinct (map fst xs)" and "map_of xs k = Some v"
  shows "mset xs = add_mset (k, v) (mset (AList.delete k xs))"
  using assms
proof (induction xs)
  case (Cons x xs)
  show ?case
  proof (cases "fst x = k")
    case True
    with Cons.prems have "AList.delete k xs = xs" by (intro AList.delete_id) auto
    with True Cons.prems show ?thesis by (cases x) (simp add: AList.delete_eq)
  next
    case False
    with Cons.prems have "map_of xs k = Some v" by (cases x) auto
    with Cons have "mset xs = add_mset (k, v) (mset (AList.delete k xs))" by simp
    with False show ?thesis by (cases x) (simp add: AList.delete_eq)
  qed
qed simp

lemma mset_map_delete:
  assumes "distinct (map fst xs)" and "map_of xs k = Some v"
  shows "mset (map f xs) = add_mset (f (k, v)) (mset (map f (AList.delete k xs)))"
  using mset_delete [OF assms] by (metis image_mset_add_mset mset_map)

lemma book_take:
  assumes b: "book K X [] s" and f: "slot \<in> set (lp_futs s)"
  obtains r sc gs where "map_of (lp_inflight s) slot = Some r"
    "sched_release slot (lp_sched s) = Some (sc, gs)"
    "book K (add_mset (item_key (rn_item r)) X) gs
       (s\<lparr>lp_futs := remove1 slot (lp_futs s), lp_inflight := AList.delete slot (lp_inflight s), lp_sched := sc\<rparr>)"
proof -
  have tr: "adm.tracked (used_slots s) (lp_sched s) (\<not> stopped s)" and u: "unbudgeted (lp_sched s)"
    and fm: "mset (lp_futs s) = mset (map fst (lp_inflight s))"
    using b by (simp_all add: book_def)
  have d: "distinct (map fst (lp_inflight s))" and us: "distinct (used_slots s)"
    using tr by (simp_all add: adm.tracked_def used_slots_def)
  from fm f have mem: "slot \<in> fst ` set (lp_inflight s)" by (metis list.set_map mset_eq_setD)
  then obtain r where r: "map_of (lp_inflight s) slot = Some r"
    by (cases "map_of (lp_inflight s) slot") (auto simp: map_of_eq_None_iff)
  have "slot \<in> set (used_slots s)" using mem by (simp add: used_slots_def)
  then obtain sc gs where g: "sched_release slot (lp_sched s) = Some (sc, gs)" "unbudgeted sc"
    "adm.tracked (remove1 slot (used_slots s) @ map ad_slot_id gs) sc (\<not> stopped s)"
    "waiting_keys (lp_sched s) = mset (map grant_ident gs) + waiting_keys sc"
    by (rule adm.release_tracks [OF u tr])
  let ?t = "s\<lparr>lp_futs := remove1 slot (lp_futs s), lp_inflight := AList.delete slot (lp_inflight s), lp_sched := sc\<rparr>"
  have "distinct (used_slots ?t)" "set (used_slots ?t) = set (remove1 slot (used_slots s))"
    using us mem by (auto simp: used_slots_def keys_delete distinct_keys_delete)
  then have tr': "adm.tracked (used_slots ?t @ map ad_slot_id gs) sc (\<not> stopped s)"
    using g(3) by (auto simp: adm.tracked_def)
  have live: "live_keys s = add_mset (item_key (rn_item r)) (live_keys ?t)"
    using mset_map_delete [OF d r, of "\<lambda>x. item_key (rn_item (snd x))"] by (simp add: live_keys_def)
  have futs: "mset (lp_futs ?t) = mset (map fst (lp_inflight ?t))"
    using mset_map_delete [OF d r, of fst] fm by (simp add: mset_remove1)
  have "stopped ?t = stopped s" by (simp add: stopped_def)
  then have "book K (add_mset (item_key (rn_item r)) X) gs ?t"
    using b g(2,4) tr' live futs unfolding book_def by (simp add: ac_simps)
  with r g(1) show thesis by (rule that)
qed

lemma book_finished:
  assumes "book K (add_mset (item_key (rn_item r)) X) G s"
    and "stats_finished st = Suc (stats_finished (lp_stats s))" and "st_total st = st_total (lp_stats s)"
  shows "book K X G ((emit_finished r oc s)\<lparr>lp_stats := st\<rparr>)"
  using assms by (auto simp: book_defs emit_finished_def item_key_def ac_simps)

lemma book_fail_fast: "book K X G s \<Longrightarrow> (lp_fail_fast s \<longrightarrow> b) \<Longrightarrow> book K X G (s\<lparr>lp_fail_fast := b\<rparr>)"
  by (rule book_cong) (auto simp: stopped_def)

lemma book_cancel: "book K X G s \<Longrightarrow> (lp_cancel s \<longrightarrow> b) \<Longrightarrow> book K X G (s\<lparr>lp_cancel := b\<rparr>)"
  by (rule book_cong) (auto simp: stopped_def)

lemma book_emit: "book K X G s \<Longrightarrow> reported_key e = None \<Longrightarrow> book K X G (emit e s)"
  by (rule book_cong) (auto simp: stopped_def)

text \<open>A completed attempt is reported, or submitted again while retries are left and nothing stopped.\<close>

lemma settle_cases:
  obtains (report) st ff where
    "settle_outcome cfg c r oc s = Some ((emit_finished r oc s)\<lparr>lp_stats := st, lp_fail_fast := ff\<rparr>)"
    "stats_finished st = Suc (stats_finished (lp_stats s))" "st_total st = st_total (lp_stats s)"
    "lp_fail_fast s \<longrightarrow> ff"
    "lc_fail_fast cfg \<longrightarrow> oc_verdict oc \<in> {Pass, Terminated} \<or> ff"
  | (retry) e where
    "settle_outcome cfg c r oc s = submit cfg (rn_item r) (Suc (rn_attempt r)) (emit e s)"
    "e = TestRetrying (wi_binary_id (rn_item r)) (wi_test_name (rn_item r)) (Suc (rn_attempt r)) 0
       (oc_verdict oc) (oc_duration oc)"
    "rn_attempt r \<le> wi_retries (rn_item r)" "\<not> lp_fail_fast s" "\<not> c"
proof (cases "\<not> is_pass (oc_verdict oc) \<and> retryable (oc_verdict oc) \<and> rn_attempt r \<le> wi_retries (rn_item r) \<and>
    \<not> lp_fail_fast s \<and> \<not> c")
  case True
  then show thesis by (intro retry [OF _ refl]) (simp_all add: settle_outcome_def)
next
  case False
  define st where "st = (if is_pass (oc_verdict oc) then (lp_stats s)\<lparr>st_passed := st_passed (lp_stats s) + 1\<rparr>
    else if oc_verdict oc = Terminated then (lp_stats s)\<lparr>st_terminated := st_terminated (lp_stats s) + 1\<rparr>
    else (lp_stats s)\<lparr>st_failed := st_failed (lp_stats s) + 1\<rparr>)"
  define ff where "ff = (if is_pass (oc_verdict oc) \<or> oc_verdict oc = Terminated then lp_fail_fast s
    else lc_fail_fast cfg \<or> lp_fail_fast s)"
  have keep: "lp_fail_fast (emit_finished r oc s) = lp_fail_fast s" by (simp add: emit_finished_def)
  have "settle_outcome cfg c r oc s = Some ((emit_finished r oc s)\<lparr>lp_stats := st, lp_fail_fast := ff\<rparr>)"
    using False by (auto simp: settle_outcome_def Let_def st_def ff_def keep [symmetric])
  then show thesis
    by (rule report) (auto simp: st_def ff_def stats_finished_def stats_ran_def is_pass_def)
qed

lemma book_settle:
  assumes b: "book K (add_mset (item_key (rn_item r)) X) G s"
  shows "\<exists>t. settle_outcome cfg c r oc s = Some t \<and> book K X G t \<and> lp_cancel t = lp_cancel s"
proof (cases rule: settle_cases [of cfg c r oc s])
  case (report st ff)
  have "book K X G ((emit_finished r oc s)\<lparr>lp_stats := st\<rparr>)"
    using b report(2,3) by (rule book_finished)
  then have "book K X G ((emit_finished r oc s)\<lparr>lp_stats := st, lp_fail_fast := ff\<rparr>)"
    using book_fail_fast [of K X G "(emit_finished r oc s)\<lparr>lp_stats := st\<rparr>" ff] report(4)
    by (simp add: emit_finished_def)
  with report(1) show ?thesis by (simp add: emit_finished_def)
next
  case (retry e)
  have "book K (add_mset (item_key (rn_item r)) X) G (emit e s)" by (rule book_emit [OF b]) (simp add: retry(2))
  from book_submit [OF this] retry(1) show ?thesis by fastforce
qed

lemma book_drop: "book K X G s \<Longrightarrow> stopped s \<Longrightarrow> book K X [] s"
  by (auto simp: book_def adm.tracked_def)

lemma distinct_counts: "(\<And>k. count (mset xs) k \<le> 1) \<Longrightarrow> distinct xs"
proof (induction xs)
  case (Cons x xs)
  have "count (mset xs) k \<le> 1" for k
    by (rule le_trans [OF _ Cons.prems [of k]]) simp
  moreover have "count (mset xs) x = 0" using Cons.prems [of x] by simp
  ultimately show ?case using Cons.IH by (simp add: count_mset_0_iff)
qed simp

lemma book_parked_distinct:
  assumes "book K X G s" shows "distinct (map fst (lp_parked s))"
proof -
  have K: "mset (reported (lp_log s)) + live_keys s + X = K" and n: "no_dups K"
    using assms by (simp_all add: book_def)
  have "count (mset (map fst (lp_parked s))) k \<le> count K k" for k
    by (simp add: K [symmetric] live_keys_def del: mset_map)
  moreover have "count K k \<le> 1" for k using n unfolding no_dups_def by blast
  ultimately have "count (mset (map fst (lp_parked s))) k \<le> 1" for k using le_trans by blast
  then show ?thesis by (rule distinct_counts)
qed

lemma book_take_grant:
  assumes b: "book K X (g # gs) s" and n: "\<not> stopped s"
  obtains i a where "map_of (lp_parked s) (grant_ident g) = Some (i, a)"
    "book K X gs (s\<lparr>lp_parked := AList.delete (grant_ident g) (lp_parked s),
       lp_ready := lp_ready s @ [(ad_slot_id g, i, a)]\<rparr>)"
proof -
  note d = book_parked_distinct [OF b]
  have w: "waiting_keys (lp_sched s) + mset (map grant_ident (g # gs)) = mset (map fst (lp_parked s))"
    and ks: "\<forall>(k, i, a) \<in> set (lp_parked s). k = item_key i"
    using b n by (simp_all add: book_def)
  from w have "grant_ident g \<in> fst ` set (lp_parked s)"
    by (metis list.set_map mset_eq_setD set_mset_mset set_mset_union Un_iff list.set_intros(1) list.simps(9))
  then obtain i a where m: "map_of (lp_parked s) (grant_ident g) = Some (i, a)"
    by (cases "map_of (lp_parked s) (grant_ident g)") (auto simp: map_of_eq_None_iff)
  with ks have k: "item_key i = grant_ident g" by (auto dest!: map_of_SomeD bspec)
  have del: "mset (map fst (lp_parked s)) =
      add_mset (grant_ident g) (mset (map fst (AList.delete (grant_ident g) (lp_parked s))))"
    using mset_map_delete [OF d m, of fst] by simp
  let ?t = "s\<lparr>lp_parked := AList.delete (grant_ident g) (lp_parked s),
       lp_ready := lp_ready s @ [(ad_slot_id g, i, a)]\<rparr>"
  have live: "live_keys s = live_keys ?t" using del k by (simp add: live_keys_def)
  have wt: "waiting_keys (lp_sched s) + mset (map grant_ident gs) = mset (map fst (lp_parked ?t))"
    using w del by simp
  have kt: "\<forall>(k, i, a) \<in> set (lp_parked ?t). k = item_key i" using ks by (auto simp: AList.delete_eq)
  have "book K X gs ?t"
    using b live wt kt unfolding book_def used_slots_def adm.tracked_def by (auto simp: stopped_def)
  with m show thesis by (rule that)
qed

lemma take_grants_frame [simp]:
  "lp_fail_fast (take_grants gs s) = lp_fail_fast s" "lp_cancel (take_grants gs s) = lp_cancel s"
  "lp_log (take_grants gs s) = lp_log s" "lp_inflight (take_grants gs s) = lp_inflight s"
  "lp_sched (take_grants gs s) = lp_sched s" "lp_cancelled (take_grants gs s) = lp_cancelled s"
  "lp_futs (take_grants gs s) = lp_futs s" "lp_stats (take_grants gs s) = lp_stats s"
  by (induction gs s rule: take_grants.induct) (auto split: option.splits)

lemma book_take_grants: "book K X gs s \<Longrightarrow> \<not> stopped s \<Longrightarrow> book K X [] (take_grants gs s)"
proof (induction gs arbitrary: s)
  case (Cons g gs)
  obtain i a where "map_of (lp_parked s) (grant_ident g) = Some (i, a)"
    "book K X gs (s\<lparr>lp_parked := AList.delete (grant_ident g) (lp_parked s),
       lp_ready := lp_ready s @ [(ad_slot_id g, i, a)]\<rparr>)"
    using Cons.prems by (rule book_take_grant)
  with Cons show ?case by (simp add: grant_ident_def stopped_def)
qed simp

lemma book_admit:
  assumes "book K X G s" and "lp_cancel s \<longrightarrow> c"
  shows "book K X [] (admit_grants cfg now c G s)"
proof -
  have b: "book K X G (s\<lparr>lp_cancel := c\<rparr>)" using assms by (rule book_cancel)
  show ?thesis
  proof (cases "stopped (s\<lparr>lp_cancel := c\<rparr>)")
    case True
    from book_drop [OF b True] True show ?thesis by (auto simp: admit_grants_def stopped_def)
  next
    case False
    from book_pump [OF book_take_grants [OF b False]] False show ?thesis
      by (simp add: admit_grants_def stopped_def)
  qed
qed

lemma book_on_done:
  assumes "book K {#} [] s" and "slot \<in> set (lp_futs s)"
  shows "\<exists>t. on_done cfg e slot oc s = Some t \<and> book K {#} [] t"
proof -
  obtain r sc gs where r: "map_of (lp_inflight s) slot = Some r" "sched_release slot (lp_sched s) = Some (sc, gs)"
    and b: "book K (add_mset (item_key (rn_item r)) {#}) gs (s\<lparr>lp_futs := remove1 slot (lp_futs s),
      lp_inflight := AList.delete slot (lp_inflight s), lp_sched := sc\<rparr>)"
    using assms by (rule book_take)
  from book_settle [OF b] obtain t where t: "settle_outcome cfg (cancelled_retry e s) r oc
      (s\<lparr>lp_futs := remove1 slot (lp_futs s), lp_inflight := AList.delete slot (lp_inflight s), lp_sched := sc\<rparr>) = Some t"
    "book K {#} gs t" "lp_cancel t = lp_cancel s" by fastforce
  have "book K {#} [] (admit_grants cfg (ie_now e) (cancelled_admit e s) gs t)"
    by (rule book_admit [OF t(2)]) (simp add: t(3) cancelled_admit_def cancelled_retry_def cancelled_top_def)
  with r t(1) show ?thesis by (simp add: on_done_def)
qed

lemma book_reconcile:
  assumes "book K X [] s"
  obtains sc gs where "sched_reconcile c (lp_sched s) = Some (sc, gs)" "book K X gs (s\<lparr>lp_sched := sc\<rparr>)"
proof -
  have "unbudgeted (lp_sched s)" "adm.tracked (used_slots s) (lp_sched s) (\<not> stopped s)"
    using assms by (simp_all add: book_def)
  then obtain sc gs where g: "sched_reconcile c (lp_sched s) = Some (sc, gs)" "unbudgeted sc"
    "adm.tracked (used_slots s @ map ad_slot_id gs) sc (\<not> stopped s)"
    "waiting_keys (lp_sched s) = mset (map grant_ident gs) + waiting_keys sc"
    by (rule adm.reconcile_tracks)
  then have "book K X gs (s\<lparr>lp_sched := sc\<rparr>)"
    using assms unfolding book_def by (simp add: live_keys_def used_slots_def stopped_def ac_simps)
  with g(1) show thesis by (rule that)
qed

lemma book_on_ceiling:
  assumes "book K {#} [] s"
  shows "\<exists>t. on_ceiling cfg e c s = Some t \<and> book K {#} [] t"
proof -
  obtain sc gs where g: "sched_reconcile c (lp_sched s) = Some (sc, gs)" "book K {#} gs (s\<lparr>lp_sched := sc\<rparr>)"
    using assms by (rule book_reconcile)
  have "book K {#} [] (admit_grants cfg (ie_now e) (cancelled_admit e s) gs (s\<lparr>lp_sched := sc\<rparr>))"
    by (rule book_admit [OF g(2)]) (simp add: cancelled_admit_def cancelled_retry_def cancelled_top_def)
  with g(1) show ?thesis by (simp add: on_ceiling_def)
qed

lemma reported_slows: "reported (lg @ map (\<lambda>(_, r). TestSlow (b r) (t r) (d r) False (a r)) xs) = reported lg"
  by (induction xs rule: rev_induct) (auto simp: append_assoc [symmetric] simp del: append_assoc)

lemma mark_slow_simps [simp]:
  "rn_item (mark_slow now after r) = rn_item r" "rn_attempt (mark_slow now after r) = rn_attempt r"
  by (simp_all add: mark_slow_def)

lemma book_remark:
  assumes "\<And>r. rn_item (f r) = rn_item r"
  shows "book K X G (s\<lparr>lp_inflight := map (\<lambda>(k, r). (k, f r)) (lp_inflight s)\<rparr>) = book K X G s"
  by (simp add: book_def live_keys_def used_slots_def stopped_def comp_def split_def assms del: mset_map)

lemma book_on_tick:
  assumes "book K X G s" shows "book K X G (on_tick cfg e s)"
proof (cases "lc_slow_after cfg")
  case (Some after)
  let ?s = "s\<lparr>lp_inflight := map (\<lambda>(k, r). (k, mark_slow (ie_now e) after r)) (lp_inflight s)\<rparr>"
  have b: "book K X G ?s" using assms by (simp add: book_remark)
  have "book K X G (emit_slows (ie_now e) after ?s)"
    by (rule book_cong [OF b]) (simp_all add: emit_slows_def reported_slows stopped_def)
  then show ?thesis by (simp add: on_tick_def Some)
qed (simp add: on_tick_def assms)

lemma book_top: "book K X G s \<Longrightarrow> book K X G ((top_check e s)\<lparr>lp_cancel := cancelled_top e s\<rparr>)"
proof -
  assume b: "book K X G s"
  then have "book K X G (top_check e s)"
    by (auto simp: top_check_def intro: book_cong [OF b] simp: stopped_def)
  then show ?thesis by (rule book_cancel) (simp add: top_check_def cancelled_top_def)
qed

text \<open>A completion names a running future; the other events are always possible.\<close>

definition event_ok :: "loop_event \<Rightarrow> loop_state \<Rightarrow> bool" where
  "event_ok ev s \<longleftrightarrow> (case ev of Done slot oc \<Rightarrow> slot \<in> set (lp_futs s) | _ \<Rightarrow> True)"

lemma book_iter:
  assumes "book K {#} [] s" and "event_ok ev s"
  shows "\<exists>t. loop_iter cfg e ev s = Some t \<and> book K {#} [] t"
proof -
  let ?s = "(top_check e s)\<lparr>lp_cancel := cancelled_top e s\<rparr>"
  have b: "book K {#} [] ?s" by (rule book_top [OF assms(1)])
  have "event_ok ev ?s" using assms(2) by (simp add: event_ok_def top_check_def split: loop_event.splits)
  then show ?thesis
    using book_on_done [OF b] book_on_ceiling [OF b] book_on_tick [OF b] b
    by (auto simp: loop_iter_def event_ok_def Let_def split: loop_event.splits)
qed

lemma book_sweep:
  "book K (mset (map item_key is)) [] s \<Longrightarrow> \<exists>t. sweep sn cfg is s = Some t \<and> book K {#} [] t"
proof (induction "is" arbitrary: s)
  case (Cons i "is")
  then have b: "book K (add_mset (item_key i) (mset (map item_key is))) [] s" by simp
  from book_skip [OF b] book_submit [OF b, of cfg 1]
  have "\<exists>t. sweep_item sn cfg i s = Some t \<and> book K (mset (map item_key is)) [] t"
    by (auto simp: sweep_item_def split: option.split)
  with Cons.IH show ?case by fastforce
qed simp

lemma book_init:
  assumes "distinct (map item_key is)"
  shows "book (mset (map item_key is)) (mset (map item_key is)) [] (loop_init cfg c (length is) now wall)"
proof -
  have "unbudgeted (sched_new c)"
    using configured_facts [of c "[]"] by (simp add: unbudgeted_def configured_def sched_new_def)
  moreover have "no_dups (mset (map item_key is))"
    using assms unfolding no_dups_def distinct_count_atmost_1 by simp
  ultimately show ?thesis
    by (simp add: book_defs loop_init_def sched_new_def held_slots_def waiting_keys_def
        stats_finished_def stats_ran_def reported_def List.map_filter_def)
qed

lemma book_start:
  assumes "distinct (map item_key is)"
  shows "\<exists>s. run_start sn cfg c is now wall = Some s \<and> book (mset (map item_key is)) {#} [] s"
  using book_sweep [OF book_init [OF assms]] by (fastforce simp: run_start_def intro: book_pump)

end
