(* ===== verification/Engine_Run_Trace.thy ===== *)
theory Engine_Run_Trace
  imports Engine_Run_Props
begin

text \<open>
  Runs of the loop of \<open>src/src/engine/schedule.rs\<close>, as reachability under a step relation: the
  cap on running tests, the number of attempts, what a stop means for the reported events,
  and when a finished loop has accounted for every test.
\<close>

section \<open>Steps\<close>

text \<open>One pass of the loop, on an event from a given class.\<close>

inductive loop_step :: "(loop_event \<Rightarrow> bool) \<Rightarrow> loop_config \<Rightarrow> loop_state \<Rightarrow> loop_state \<Rightarrow> bool"
  for P cfg where
  step: "lp_futs s \<noteq> [] \<Longrightarrow> P ev \<Longrightarrow> event_ok ev s \<Longrightarrow> loop_iter cfg e ev s = Some t \<Longrightarrow> loop_step P cfg s t"

inductive_cases loop_stepE: "loop_step P cfg s t"

abbreviation any_event :: "loop_event \<Rightarrow> bool" where
  "any_event ev \<equiv> True"

text \<open>The ceiling stays as it is.\<close>

definition steady :: "loop_event \<Rightarrow> bool" where
  "steady ev \<longleftrightarrow> (case ev of NewCeiling c \<Rightarrow> False | _ \<Rightarrow> True)"

text \<open>An iteration, piece by piece: a completion, a new ceiling, or a pass that spawns nothing.\<close>

definition topped :: "iter_env \<Rightarrow> loop_state \<Rightarrow> loop_state" where
  "topped e s = (top_check e s)\<lparr>lp_cancel := cancelled_top e s\<rparr>"

definition taken :: "slot_id \<Rightarrow> scheduler \<Rightarrow> loop_state \<Rightarrow> loop_state" where
  "taken slot sc s = s\<lparr>lp_futs := remove1 slot (lp_futs s), lp_inflight := AList.delete slot (lp_inflight s),
     lp_sched := sc\<rparr>"

lemma iter_cases:
  assumes "loop_iter cfg e ev s = Some u"
  obtains (woken) "u = topped e s"
  | (completed) slot oc r sc gs t where "ev = Done slot oc" "map_of (lp_inflight (topped e s)) slot = Some r"
      "sched_release slot (lp_sched (topped e s)) = Some (sc, gs)"
      "settle_outcome cfg (cancelled_retry e (topped e s)) r oc (taken slot sc (topped e s)) = Some t"
      "u = publish_demand cfg (admit_grants cfg (ie_now e) (cancelled_admit e (topped e s)) gs t)"
  | (ceiling) c sc gs where "ev = NewCeiling c" "sched_reconcile c (lp_sched (topped e s)) = Some (sc, gs)"
      "u = publish_demand cfg (admit_grants cfg (ie_now e) (cancelled_admit e (topped e s)) gs
         ((topped e s)\<lparr>lp_sched := sc\<rparr>))"
  | (tick) "u = on_tick cfg e (topped e s)"
  using assms
  by (auto simp: loop_iter_def on_done_def on_ceiling_def Let_def topped_def taken_def
      split: loop_event.splits option.splits)

lemma topped_frame [simp]:
  "lp_sched (topped e s) = lp_sched s" "lp_inflight (topped e s) = lp_inflight s"
  "lp_parked (topped e s) = lp_parked s" "lp_ready (topped e s) = lp_ready s" "lp_futs (topped e s) = lp_futs s"
  "lp_stats (topped e s) = lp_stats s" "lp_fail_fast (topped e s) = lp_fail_fast s"
  "lp_cancel (topped e s) = cancelled_top e s"
  by (simp_all add: topped_def top_check_def)

lemma taken_frame [simp]:
  "lp_sched (taken slot sc s) = sc" "lp_inflight (taken slot sc s) = AList.delete slot (lp_inflight s)"
  "lp_parked (taken slot sc s) = lp_parked s" "lp_ready (taken slot sc s) = lp_ready s"
  "lp_fail_fast (taken slot sc s) = lp_fail_fast s" "lp_cancel (taken slot sc s) = lp_cancel s"
  "lp_log (taken slot sc s) = lp_log s"
  by (simp_all add: taken_def)

lemma submit_cases:
  assumes "submit cfg i a s = Some t"
  obtains (granted) sc slot where "sched_request (to_request i (lc_sa cfg)) (lp_sched s) = Some (sc, Granted slot)"
      "t = s\<lparr>lp_sched := sc, lp_ready := lp_ready s @ [(slot, i, a)]\<rparr>"
  | (queued) sc where "sched_request (to_request i (lc_sa cfg)) (lp_sched s) = Some (sc, Queued)"
      "t = s\<lparr>lp_sched := sc, lp_parked := alist_insert (item_key i) (i, a) (lp_parked s)\<rparr>"
  | (rejected) sc w where "sched_request (to_request i (lc_sa cfg)) (lp_sched s) = Some (sc, Rejected w)"
      "t = skip_test i (skip_reason_of w) (s\<lparr>lp_sched := sc\<rparr>)"
  using assms by (auto simp: submit_def split: option.splits admission.splits)

lemma publish_frame [simp]:
  "lp_sched (publish_demand cfg s) = lp_sched s" "lp_inflight (publish_demand cfg s) = lp_inflight s"
  "lp_parked (publish_demand cfg s) = lp_parked s" "lp_ready (publish_demand cfg s) = lp_ready s"
  "lp_futs (publish_demand cfg s) = lp_futs s" "lp_stats (publish_demand cfg s) = lp_stats s"
  "lp_fail_fast (publish_demand cfg s) = lp_fail_fast s" "lp_cancelled (publish_demand cfg s) = lp_cancelled s"
  "lp_cancel (publish_demand cfg s) = lp_cancel s" "lp_log (publish_demand cfg s) = lp_log s"
  by (simp_all add: publish_demand_def)

lemma skip_frame [simp]:
  "lp_sched (skip_test i w s) = lp_sched s" "lp_inflight (skip_test i w s) = lp_inflight s"
  "lp_parked (skip_test i w s) = lp_parked s" "lp_ready (skip_test i w s) = lp_ready s"
  "lp_futs (skip_test i w s) = lp_futs s" "lp_fail_fast (skip_test i w s) = lp_fail_fast s"
  "lp_cancelled (skip_test i w s) = lp_cancelled s" "lp_cancel (skip_test i w s) = lp_cancel s"
  "lp_log (skip_test i w s) = lp_log s @ [TestSkipped (wi_binary_id i) (wi_test_name i) w]"
  by (simp_all add: skip_test_def)

lemma finished_frame [simp]:
  "lp_sched (emit_finished r oc s) = lp_sched s" "lp_inflight (emit_finished r oc s) = lp_inflight s"
  "lp_parked (emit_finished r oc s) = lp_parked s" "lp_ready (emit_finished r oc s) = lp_ready s"
  "lp_fail_fast (emit_finished r oc s) = lp_fail_fast s" "lp_cancel (emit_finished r oc s) = lp_cancel s"
  "lp_log (emit_finished r oc s) = lp_log s @ [TestFinished (wi_binary_id (rn_item r)) (wi_test_name (rn_item r))
     (oc_verdict oc) (oc_duration oc) (rn_attempt r) (oc_output oc) (oc_components oc)]"
  by (simp_all add: emit_finished_def)

lemma spawn_frame [simp]:
  "lp_sched (spawn_granted now slot i a s) = lp_sched s" "lp_parked (spawn_granted now slot i a s) = lp_parked s"
  "lp_ready (spawn_granted now slot i a s) = lp_ready s" "lp_fail_fast (spawn_granted now slot i a s) = lp_fail_fast s"
  "lp_cancel (spawn_granted now slot i a s) = lp_cancel s"
  "lp_log (spawn_granted now slot i a s) = lp_log s @ [TestStarted (wi_binary_id i) (wi_test_name i) (wi_class i) a]"
  by (simp_all add: spawn_granted_def)

lemma pump_from_frame [simp]:
  "lp_sched (pump_from cfg now rs s) = lp_sched s" "lp_parked (pump_from cfg now rs s) = lp_parked s"
  "lp_fail_fast (pump_from cfg now rs s) = lp_fail_fast s" "lp_cancel (pump_from cfg now rs s) = lp_cancel s"
  by (induction cfg now rs s rule: pump_from.induct) auto

lemma pump_frame [simp]:
  "lp_sched (pump cfg now s) = lp_sched s" "lp_parked (pump cfg now s) = lp_parked s"
  "lp_fail_fast (pump cfg now s) = lp_fail_fast s" "lp_cancel (pump cfg now s) = lp_cancel s"
  by (simp_all add: pump_def)

lemma submit_frame:
  assumes "submit cfg i a s = Some t"
  shows "lp_inflight t = lp_inflight s" "lp_fail_fast t = lp_fail_fast s" "lp_cancel t = lp_cancel s"
  using assms by (auto elim: submit_cases)

lemma settle_frame:
  assumes "settle_outcome cfg c r oc s = Some t"
  shows "lp_inflight t = lp_inflight s \<and> lp_cancel t = lp_cancel s \<and> (lp_fail_fast s \<longrightarrow> lp_fail_fast t)"
proof (cases rule: settle_cases [of cfg c r oc s])
  case (report st ff)
  with assms have "t = (emit_finished r oc s)\<lparr>lp_stats := st, lp_fail_fast := ff\<rparr>" by simp
  with report(4) show ?thesis by simp
next
  case (retry e)
  with assms have "submit cfg (rn_item r) (Suc (rn_attempt r)) (emit e s) = Some t" by simp
  from submit_frame [OF this] show ?thesis by simp
qed

lemma tick_frame [simp]:
  "lp_sched (on_tick cfg e s) = lp_sched s" "lp_parked (on_tick cfg e s) = lp_parked s"
  "lp_ready (on_tick cfg e s) = lp_ready s" "lp_fail_fast (on_tick cfg e s) = lp_fail_fast s"
  "lp_cancel (on_tick cfg e s) = lp_cancel s" "length (lp_inflight (on_tick cfg e s)) = length (lp_inflight s)"
  by (simp_all add: on_tick_def emit_slows_def split: option.splits)

section \<open>The cap\<close>

definition capped :: "loop_config \<Rightarrow> nat \<Rightarrow> bool" where
  "capped cfg n \<longleftrightarrow> (case lc_max_inflight cfg of None \<Rightarrow> True | Some cap \<Rightarrow> n \<le> cap)"

lemma capped_Suc: "under_cap cfg n \<Longrightarrow> capped cfg (Suc n)"
  by (simp add: under_cap_def capped_def split: option.splits)

lemma capped_mono: "capped cfg n \<Longrightarrow> m \<le> n \<Longrightarrow> capped cfg m"
  by (simp add: capped_def split: option.splits)

lemma length_delete: "length (AList.delete k xs) \<le> length xs"
  by (simp add: AList.delete_eq)

lemma pump_capped: "capped cfg (length (lp_inflight s)) \<Longrightarrow> capped cfg (length (lp_inflight (pump_from cfg now rs s)))"
proof (induction cfg now rs s rule: pump_from.induct)
  case (2 cfg now slot i a rest s)
  have "capped cfg (length (lp_inflight (spawn_granted now slot i a s)))" if "under_cap cfg (length (lp_inflight s))"
    using capped_mono [OF capped_Suc [OF that]] length_delete [of slot "lp_inflight s"]
    by (simp add: spawn_granted_def alist_insert_def)
  with 2 show ?case by simp
qed simp

lemma admit_capped:
  "capped cfg (length (lp_inflight s)) \<Longrightarrow> capped cfg (length (lp_inflight (admit_grants cfg now c gs s)))"
  by (simp add: admit_grants_def Let_def pump_def pump_capped)

lemma iter_capped:
  assumes "capped cfg (length (lp_inflight s))" and "loop_iter cfg e ev s = Some t"
  shows "capped cfg (length (lp_inflight t))"
  using assms(2)
proof (cases rule: iter_cases)
  case (completed slot oc r sc gs u)
  have "length (lp_inflight u) \<le> length (lp_inflight s)"
    using settle_frame [OF completed(4)] length_delete by simp
  with assms(1) completed(5) show ?thesis by (simp add: admit_capped capped_mono)
qed (use assms(1) in \<open>simp_all add: admit_capped\<close>)

section \<open>Nothing starts after a stop\<close>

fun is_start :: "test_event \<Rightarrow> bool" where
  "is_start (TestStarted b t c a) \<longleftrightarrow> True"
| "is_start _ \<longleftrightarrow> False"

text \<open>The cancellation announcement, and under fail-fast a test that failed for good.\<close>

fun stop_event :: "loop_config \<Rightarrow> test_event \<Rightarrow> bool" where
  "stop_event cfg (RunCancelling r n) \<longleftrightarrow> True"
| "stop_event cfg (TestFinished b t v d a ou co) \<longleftrightarrow> lc_fail_fast cfg \<and> v \<noteq> Pass \<and> v \<noteq> Terminated"
| "stop_event cfg _ \<longleftrightarrow> False"

definition after_stop :: "loop_config \<Rightarrow> test_event list \<Rightarrow> test_event list" where
  "after_stop cfg lg = dropWhile (\<lambda>e. \<not> stop_event cfg e) lg"

definition quiet :: "loop_config \<Rightarrow> loop_state \<Rightarrow> bool" where
  "quiet cfg s \<longleftrightarrow> (stopped s \<or> (\<forall>e \<in> set (lp_log s). \<not> stop_event cfg e)) \<and>
     (\<forall>x \<in> set (after_stop cfg (lp_log s)). \<not> is_start x)"

lemma start_no_stop: "is_start e \<Longrightarrow> \<not> stop_event cfg e"
  by (cases e) auto

lemma quiet_snoc:
  assumes "quiet cfg s" and "lp_log t = lp_log s @ [e]" and "stopped s \<longrightarrow> stopped t"
    and "is_start e \<longrightarrow> \<not> stopped s" and "stop_event cfg e \<longrightarrow> stopped t"
  shows "quiet cfg t"
proof (cases "stopped s")
  case True
  then show ?thesis using assms by (auto simp: quiet_def after_stop_def dropWhile_append)
next
  case False
  then have "\<forall>e \<in> set (lp_log s). \<not> stop_event cfg e" using assms(1) by (simp add: quiet_def)
  then have "after_stop cfg (lp_log t) = (if stop_event cfg e then [e] else [])"
    by (simp add: assms(2) after_stop_def dropWhile_append3)
  moreover have "stop_event cfg e \<longrightarrow> \<not> is_start e" using start_no_stop by blast
  moreover have "stopped t \<or> (\<forall>e \<in> set (lp_log t). \<not> stop_event cfg e)"
    using \<open>\<forall>e \<in> set (lp_log s). \<not> stop_event cfg e\<close> assms(2,5) by auto
  ultimately show ?thesis by (simp add: quiet_def)
qed

lemma quiet_ext:
  assumes "quiet cfg s" and "lp_log t = lp_log s @ es" and "\<forall>e \<in> set es. \<not> is_start e \<and> \<not> stop_event cfg e"
    and "stopped s \<longrightarrow> stopped t"
  shows "quiet cfg t"
proof -
  have "set (after_stop cfg (lp_log s @ es)) \<subseteq> set (after_stop cfg (lp_log s)) \<union> set es"
    by (auto simp: after_stop_def dropWhile_append dest: set_dropWhileD)
  then show ?thesis using assms by (auto simp: quiet_def)
qed

lemma quiet_frame: "quiet cfg s \<Longrightarrow> lp_log t = lp_log s \<Longrightarrow> stopped s \<longrightarrow> stopped t \<Longrightarrow> quiet cfg t"
  by (rule quiet_ext [where es = "[]"]) auto

lemma quiet_pump_from: "quiet cfg s \<Longrightarrow> \<not> stopped s \<Longrightarrow> quiet cfg (pump_from cfg now rs s)"
proof (induction cfg now rs s rule: pump_from.induct)
  case (1 cfg now s)
  then show ?case by (auto intro: quiet_frame simp: stopped_def)
next
  case (2 cfg now slot i a rest s)
  have "quiet cfg (spawn_granted now slot i a s)" using 2(3)
    by (intro quiet_snoc [OF 2(2), where e = "TestStarted (wi_binary_id i) (wi_test_name i) (wi_class i) a"])
      (auto simp: stopped_def)
  with 2 show ?case by (auto intro: quiet_frame [OF 2(2)] simp: stopped_def)
qed

lemma quiet_admit:
  assumes "quiet cfg s" and "lp_cancel s \<longrightarrow> c"
  shows "quiet cfg (admit_grants cfg now c gs s)"
proof -
  have q: "quiet cfg (s\<lparr>lp_cancel := c\<rparr>)" using assms by (auto intro: quiet_frame simp: stopped_def)
  then have "quiet cfg (take_grants gs (s\<lparr>lp_cancel := c\<rparr>))" by (rule quiet_frame) (auto simp: stopped_def)
  then show ?thesis using q by (auto simp: admit_grants_def Let_def pump_def stopped_def intro: quiet_pump_from)
qed

lemma quiet_submit:
  assumes "quiet cfg s" and "submit cfg i a s = Some t" shows "quiet cfg t"
  using assms(2)
proof (cases rule: submit_cases)
  case (rejected sc w)
  show ?thesis by (rule quiet_snoc [OF assms(1), where e = "TestSkipped (wi_binary_id i) (wi_test_name i) (skip_reason_of w)"])
      (simp_all add: rejected(2) stopped_def)
qed (use assms(1) in \<open>auto intro: quiet_frame simp: stopped_def\<close>)

lemma quiet_settle:
  assumes "quiet cfg s" and "settle_outcome cfg c r oc s = Some t" shows "quiet cfg t"
proof (cases rule: settle_cases [of cfg c r oc s])
  case (report st ff)
  with assms(2) have "t = (emit_finished r oc s)\<lparr>lp_stats := st, lp_fail_fast := ff\<rparr>" by simp
  then show ?thesis using report(4,5)
    by (intro quiet_snoc [OF assms(1), where e = "TestFinished (wi_binary_id (rn_item r)) (wi_test_name (rn_item r))
      (oc_verdict oc) (oc_duration oc) (rn_attempt r) (oc_output oc) (oc_components oc)"]) (auto simp: stopped_def)
next
  case (retry e)
  have "quiet cfg (emit e s)" by (rule quiet_snoc [OF assms(1), where e = e]) (simp_all add: retry(2) stopped_def)
  with retry(1) assms(2) show ?thesis by (metis quiet_submit)
qed

lemma quiet_topped: "quiet cfg s \<Longrightarrow> quiet cfg (topped e s)"
proof (cases "lp_cancelled s = None \<and> cancelled_top e s")
  case True
  assume "quiet cfg s"
  then show ?thesis by (rule quiet_snoc [where e = "RunCancelling Interrupt (length (lp_inflight s))"])
      (use True in \<open>auto simp: topped_def top_check_def stopped_def\<close>)
next
  case False
  assume "quiet cfg s"
  then show ?thesis
    by (rule quiet_frame) (use False in \<open>auto simp: topped_def top_check_def stopped_def cancelled_top_def\<close>)
qed

lemma quiet_tick: "quiet cfg s \<Longrightarrow> quiet cfg (on_tick cfg e s)"
proof (cases "lc_slow_after cfg")
  case (Some after)
  assume q: "quiet cfg s"
  show ?thesis
    unfolding on_tick_def Some option.case
    by (rule quiet_ext [OF q], simp add: emit_slows_def, auto simp: emit_slows_def stopped_def)
qed (simp add: on_tick_def)

lemma iter_quiet:
  assumes "quiet cfg s" and "loop_iter cfg e ev s = Some t" shows "quiet cfg t"
  using assms(2)
proof (cases rule: iter_cases)
  case (completed slot oc r sc gs u)
  have "quiet cfg (taken slot sc (topped e s))"
    using quiet_topped [OF assms(1)] by (rule quiet_frame) (auto simp: stopped_def)
  then have q: "quiet cfg u" using completed(4) by (rule quiet_settle)
  have "lp_cancel u \<longrightarrow> cancelled_admit e (topped e s)"
    using settle_frame [OF completed(4)] by (simp add: cancelled_admit_def cancelled_retry_def cancelled_top_def)
  from quiet_admit [OF q this] show ?thesis
    unfolding completed(5) by (rule quiet_frame) (auto simp: stopped_def)
next
  case (ceiling c sc gs)
  have q: "quiet cfg ((topped e s)\<lparr>lp_sched := sc\<rparr>)"
    using quiet_topped [OF assms(1)] by (rule quiet_frame) (auto simp: stopped_def)
  have "lp_cancel ((topped e s)\<lparr>lp_sched := sc\<rparr>) \<longrightarrow> cancelled_admit e (topped e s)"
    by (simp add: cancelled_admit_def cancelled_retry_def cancelled_top_def)
  from quiet_admit [OF q this] show ?thesis
    unfolding ceiling(3) by (rule quiet_frame) (auto simp: stopped_def)
qed (use quiet_topped [OF assms(1)] in \<open>auto intro: quiet_tick\<close>)

section \<open>The cancellation is announced once\<close>

fun is_cancelling :: "test_event \<Rightarrow> bool" where
  "is_cancelling (RunCancelling r n) \<longleftrightarrow> True"
| "is_cancelling _ \<longleftrightarrow> False"

definition announced :: "loop_state \<Rightarrow> bool" where
  "announced s \<longleftrightarrow> length (filter is_cancelling (lp_log s)) = (if lp_cancelled s = None then 0 else 1)"

lemma announced_ext:
  assumes "announced s" and "lp_cancelled t = lp_cancelled s" and "lp_log t = lp_log s @ es"
    and "\<forall>e \<in> set es. \<not> is_cancelling e"
  shows "announced t"
  using assms by (simp add: announced_def filter_empty_conv)

lemma announced_pump_from: "announced s \<Longrightarrow> announced (pump_from cfg now rs s)"
proof (induction cfg now rs s rule: pump_from.induct)
  case (2 cfg now slot i a rest s)
  have "announced (spawn_granted now slot i a s)"
    using 2(2) by (simp add: announced_def spawn_granted_def)
  moreover have "announced (s\<lparr>lp_ready := (slot, i, a) # rest\<rparr>)" using 2(2) by (simp add: announced_def)
  ultimately show ?case using 2(1) by simp
qed (simp add: announced_def)

lemma announced_admit: "announced s \<Longrightarrow> announced (admit_grants cfg now c gs s)"
proof -
  assume "announced s"
  then have "announced (s\<lparr>lp_cancel := b\<rparr>)" "announced (take_grants gs (s\<lparr>lp_cancel := b\<rparr>))" for b
    by (simp_all add: announced_def)
  then show ?thesis by (simp add: admit_grants_def Let_def pump_def announced_pump_from)
qed

lemma announced_submit: "announced s \<Longrightarrow> submit cfg i a s = Some t \<Longrightarrow> announced t"
  by (erule submit_cases) (simp_all add: announced_def)

lemma announced_settle:
  assumes "announced s" and "settle_outcome cfg c r oc s = Some t" shows "announced t"
proof (cases rule: settle_cases [of cfg c r oc s])
  case (report st ff)
  with assms(2) have "t = (emit_finished r oc s)\<lparr>lp_stats := st, lp_fail_fast := ff\<rparr>" by simp
  with assms(1) show ?thesis by (simp add: announced_def emit_finished_def)
next
  case (retry e)
  have "announced (emit e s)" using assms(1) by (simp add: announced_def retry(2))
  with retry(1) assms(2) show ?thesis by (metis announced_submit)
qed

lemma announced_topped: "announced s \<Longrightarrow> announced (topped e s)"
  by (auto simp: announced_def topped_def top_check_def)

lemma announced_tick: "announced s \<Longrightarrow> announced (on_tick cfg e s)"
  by (cases "lc_slow_after cfg") (auto simp: on_tick_def emit_slows_def intro!: announced_ext [of s])

lemma iter_announced:
  assumes "announced s" and "loop_iter cfg e ev s = Some t" shows "announced t"
proof -
  note tt = announced_topped [OF assms(1), of e]
  have publish: "announced (publish_demand cfg v) = announced v" for v by (simp add: announced_def)
  show ?thesis using assms(2)
  proof (cases rule: iter_cases)
    case (completed slot oc r sc gs u)
    have "announced (taken slot sc (topped e s))" using tt by (simp add: announced_def taken_def)
    then have "announced u" using completed(4) by (rule announced_settle)
    then show ?thesis by (simp add: completed(5) publish announced_admit)
  next
    case (ceiling c sc gs)
    have "announced ((topped e s)\<lparr>lp_sched := sc\<rparr>)" using tt by (simp add: announced_def)
    then show ?thesis by (simp add: ceiling(3) publish announced_admit)
  qed (use tt in \<open>auto intro: announced_tick\<close>)
qed

section \<open>Attempts\<close>

fun attempt_of :: "test_key \<Rightarrow> test_event \<Rightarrow> nat option" where
  "attempt_of k (TestStarted b t c a) = (if k = (b, t) then Some a else None)"
| "attempt_of k _ = None"

text \<open>The attempt numbers under which a test was started, in order.\<close>

definition attempts :: "test_key \<Rightarrow> test_event list \<Rightarrow> nat list" where
  "attempts k lg = List.map_filter (attempt_of k) lg"

lemma attempts_snoc [simp]:
  "attempts k (lg @ [e]) = attempts k lg @ (case attempt_of k e of Some a \<Rightarrow> [a] | None \<Rightarrow> [])"
  by (simp add: attempts_def List.map_filter_def split: option.split)

lemma attempts_ext: "\<forall>e \<in> set es. \<not> is_start e \<Longrightarrow> attempts k (lg @ es) = attempts k lg"
proof (induction es rule: rev_induct)
  case (snoc e es)
  then have "attempt_of k e = None" by (cases e) auto
  with snoc show ?case by (simp del: append_assoc add: append_assoc [symmetric])
qed simp

text \<open>\<open>a\<close> is the next attempt of \<open>i\<close>, within its retries.\<close>

definition due :: "(test_key \<Rightarrow> nat) \<Rightarrow> test_event list \<Rightarrow> work_item \<Rightarrow> nat \<Rightarrow> bool" where
  "due R lg i a \<longleftrightarrow> a = Suc (length (attempts (item_key i) lg)) \<and> a \<le> Suc (wi_retries i) \<and> wi_retries i = R (item_key i)"

definition on_attempt :: "(test_key \<Rightarrow> nat) \<Rightarrow> test_event list \<Rightarrow> work_item \<Rightarrow> nat \<Rightarrow> bool" where
  "on_attempt R lg i a \<longleftrightarrow> a = length (attempts (item_key i) lg) \<and> wi_retries i = R (item_key i)"

text \<open>Started as attempt 1, 2, and so on, at most once more than its retries.\<close>

definition numbered :: "(test_key \<Rightarrow> nat) \<Rightarrow> test_event list \<Rightarrow> bool" where
  "numbered R lg \<longleftrightarrow> (\<forall>k. \<exists>n \<le> Suc (R k). attempts k lg = [1..<Suc n])"

definition tries :: "(test_key \<Rightarrow> nat) \<Rightarrow> loop_state \<Rightarrow> bool" where
  "tries R s \<longleftrightarrow> (\<forall>x \<in> set (lp_inflight s). on_attempt R (lp_log s) (rn_item (snd x)) (rn_attempt (snd x))) \<and>
     (\<forall>x \<in> set (lp_ready s). due R (lp_log s) (fst (snd x)) (snd (snd x))) \<and>
     (\<forall>x \<in> set (lp_parked s). due R (lp_log s) (fst (snd x)) (snd (snd x))) \<and>
     numbered R (lp_log s)"

lemma due_cong: "(\<And>k. attempts k lg' = attempts k lg) \<Longrightarrow> due R lg' i a = due R lg i a"
  by (simp add: due_def)

lemma on_attempt_cong: "(\<And>k. attempts k lg' = attempts k lg) \<Longrightarrow> on_attempt R lg' i a = on_attempt R lg i a"
  by (simp add: on_attempt_def)

text \<open>Without a start, the invariant is about fewer or equal entries.\<close>

lemma tries_less:
  assumes "tries R s" and "\<And>k. attempts k (lp_log t) = attempts k (lp_log s)"
    and "set (lp_inflight t) \<subseteq> set (lp_inflight s)" and "set (lp_ready t) \<subseteq> set (lp_ready s)"
    and "set (lp_parked t) \<subseteq> set (lp_parked s)"
  shows "tries R t"
proof -
  have "numbered R (lp_log t) = numbered R (lp_log s)" by (simp only: numbered_def assms(2))
  with assms(1,3-5) show ?thesis unfolding tries_def due_cong [OF assms(2)] on_attempt_cong [OF assms(2)] by blast
qed

lemma book_live_distinct:
  assumes "book K X G s"
  shows "distinct (map (\<lambda>x. item_key (rn_item (snd x))) (lp_inflight s) @
    map (\<lambda>x. item_key (fst (snd x))) (lp_ready s) @ map fst (lp_parked s))" (is "distinct ?ks")
proof -
  have K: "mset (reported (lp_log s)) + live_keys s + X = K" and n: "no_dups K"
    using assms by (simp_all add: book_def)
  have "live_keys s = mset ?ks" by (simp add: live_keys_def)
  then have "count (mset ?ks) k \<le> count K k" for k by (simp only: K [symmetric] count_union)
  moreover have "count K k \<le> 1" for k using n unfolding no_dups_def by blast
  ultimately have "count (mset ?ks) k \<le> 1" for k using le_trans by blast
  then show ?thesis by (rule distinct_counts)
qed

lemma attempts_start:
  "attempts k (lg @ [TestStarted (wi_binary_id i) (wi_test_name i) c a]) =
     attempts k lg @ (if k = item_key i then [a] else [])"
  by (auto simp: item_key_def)

lemma tries_spawn:
  assumes b: "book K X G (s\<lparr>lp_ready := (slot, i, a) # rest\<rparr>)" and t: "tries R (s\<lparr>lp_ready := (slot, i, a) # rest\<rparr>)"
  shows "tries R ((spawn_granted now slot i a s)\<lparr>lp_ready := rest\<rparr>)"
proof -
  let ?k = "item_key i"
  let ?lg = "lp_log s @ [TestStarted (wi_binary_id i) (wi_test_name i) (wi_class i) a]"
  note d = book_live_distinct [OF b, simplified]
  have fresh: "slot \<notin> fst ` set (lp_inflight s)" using b by (auto simp: book_defs)
  have du: "due R (lp_log s) i a" using t by (simp add: tries_def)
  then have now: "on_attempt R ?lg i a" by (simp add: due_def on_attempt_def attempts_start del: attempts_snoc)
  have keep: "on_attempt R ?lg j c = on_attempt R (lp_log s) j c" "due R ?lg j c = due R (lp_log s) j c"
    if "item_key j \<noteq> ?k" for j c
    using that by (simp_all add: on_attempt_def due_def attempts_start del: attempts_snoc)
  have pk: "fst x = item_key (fst (snd x))" if "x \<in> set (lp_parked s)" for x
    using b that by (auto simp: book_def)
  have out: "?k \<notin> (\<lambda>x. item_key (rn_item (snd x))) ` set (lp_inflight s)"
    "?k \<notin> (\<lambda>x. item_key (fst (snd x))) ` set rest" "?k \<notin> fst ` set (lp_parked s)"
    using d by auto
  have "x \<in> set (lp_inflight s) \<Longrightarrow> item_key (rn_item (snd x)) \<noteq> ?k" for x
    using out(1) by (metis (no_types, lifting) image_eqI)
  moreover have "x \<in> set rest \<Longrightarrow> item_key (fst (snd x)) \<noteq> ?k" for x
    using out(2) by (metis (no_types, lifting) image_eqI)
  moreover have "x \<in> set (lp_parked s) \<Longrightarrow> item_key (fst (snd x)) \<noteq> ?k" for x
    using out(3) pk by (metis (no_types, lifting) image_eqI)
  moreover have "numbered R ?lg"
    unfolding numbered_def
  proof
    fix k
    have "numbered R (lp_log s)" using t by (simp add: tries_def)
    then obtain n where n: "n \<le> Suc (R k)" "attempts k (lp_log s) = [1..<Suc n]"
      unfolding numbered_def by blast
    show "\<exists>n \<le> Suc (R k). attempts k ?lg = [1..<Suc n]"
    proof (cases "k = ?k")
      case True
      have len: "length (attempts k (lp_log s)) = n" by (simp only: n(2) length_upt diff_Suc_1 One_nat_def)
      then have a: "a = Suc n" "Suc n \<le> Suc (R k)" using du by (simp_all add: due_def True)
      have "attempts k ?lg = [1..<Suc n] @ [Suc n]" by (simp only: attempts_start n(2) if_P [OF True] a(1))
      with a(2) show ?thesis by (intro exI [of _ "Suc n"]) simp
    qed (use n in \<open>auto simp: attempts_start simp del: attempts_snoc\<close>)
  qed
  ultimately show ?thesis
    using t now keep fresh unfolding tries_def by (auto simp: spawn_granted_def alist_insert_fresh)
qed

lemma tries_pump_from:
  "book K X G (s\<lparr>lp_ready := rs\<rparr>) \<Longrightarrow> tries R (s\<lparr>lp_ready := rs\<rparr>) \<Longrightarrow> tries R (pump_from cfg now rs s)"
  by (induction cfg now rs s rule: pump_from.induct) (auto intro: book_spawn tries_spawn)

lemma tries_take_grants:
  "book K X gs s \<Longrightarrow> \<not> stopped s \<Longrightarrow> tries R s \<Longrightarrow> tries R (take_grants gs s)"
proof (induction gs arbitrary: s)
  case (Cons g gs)
  obtain i a where m: "map_of (lp_parked s) (grant_ident g) = Some (i, a)"
    and b: "book K X gs (s\<lparr>lp_parked := AList.delete (grant_ident g) (lp_parked s),
       lp_ready := lp_ready s @ [(ad_slot_id g, i, a)]\<rparr>)"
    using Cons.prems(1,2) by (rule book_take_grant)
  have "due R (lp_log s) i a" using Cons.prems(3) map_of_SomeD [OF m] by (force simp: tries_def)
  then have "tries R (s\<lparr>lp_parked := AList.delete (grant_ident g) (lp_parked s),
       lp_ready := lp_ready s @ [(ad_slot_id g, i, a)]\<rparr>)"
    using Cons.prems(3) by (auto simp: tries_def AList.delete_eq)
  with Cons.IH [OF b] Cons.prems(2) m show ?case by (simp add: grant_ident_def stopped_def)
qed simp

lemma tries_admit:
  assumes "book K X G s" and "lp_cancel s \<longrightarrow> c" and "tries R s"
  shows "tries R (admit_grants cfg now c G s)"
proof -
  let ?s = "s\<lparr>lp_cancel := c\<rparr>"
  have b: "book K X G ?s" using assms(1,2) by (rule book_cancel)
  have t: "tries R ?s" using assms(3) by (simp add: tries_def)
  show ?thesis
  proof (cases "stopped ?s")
    case False
    have "tries R (pump cfg now (take_grants G ?s))"
      unfolding pump_def
      using book_take_grants [OF b False] tries_take_grants [OF b False t] by (intro tries_pump_from) simp_all
    with False show ?thesis by (simp add: admit_grants_def stopped_def)
  qed (use t in \<open>auto simp: admit_grants_def stopped_def\<close>)
qed

lemma tries_submit:
  assumes t: "tries R s" and d: "due R (lp_log s) i a" and "submit cfg i a s = Some u"
  shows "tries R u"
  using assms(3)
proof (cases rule: submit_cases)
  case (rejected sc w)
  have "attempts k (lp_log u) = attempts k (lp_log s)" for k by (simp add: rejected(2))
  then show ?thesis by (rule tries_less [OF t]) (simp_all add: rejected(2))
qed (use t d in \<open>auto simp: tries_def alist_insert_def AList.delete_eq\<close>)

lemma tries_settle:
  assumes t: "tries R s" and on: "on_attempt R (lp_log s) (rn_item r) (rn_attempt r)"
    and u: "settle_outcome cfg c r oc s = Some u"
  shows "tries R u"
proof (cases rule: settle_cases [of cfg c r oc s])
  case (report st ff)
  with u have eq: "u = (emit_finished r oc s)\<lparr>lp_stats := st, lp_fail_fast := ff\<rparr>" by simp
  have "attempts k (lp_log u) = attempts k (lp_log s)" for k by (simp add: eq)
  then show ?thesis by (rule tries_less [OF t]) (simp_all add: eq)
next
  case (retry e)
  have same: "attempts k (lp_log (emit e s)) = attempts k (lp_log s)" for k by (simp add: retry(2))
  then have "tries R (emit e s)" by (rule tries_less [OF t]) simp_all
  moreover have "due R (lp_log (emit e s)) (rn_item r) (Suc (rn_attempt r))"
    unfolding due_cong [OF same] using on retry(3) by (simp add: due_def on_attempt_def)
  ultimately show ?thesis using retry(1) u by (metis tries_submit)
qed

lemma tries_topped: "tries R s \<Longrightarrow> tries R (topped e s)"
proof -
  assume t: "tries R s"
  have "attempts k (lp_log (topped e s)) = attempts k (lp_log s)" for k by (simp add: topped_def top_check_def)
  then show ?thesis by (rule tries_less [OF t]) simp_all
qed

lemma tries_tick:
  assumes "tries R s" shows "tries R (on_tick cfg e s)"
proof (cases "lc_slow_after cfg")
  case (Some after)
  have same: "attempts k (lp_log (on_tick cfg e s)) = attempts k (lp_log s)" for k
    unfolding on_tick_def Some option.case emit_slows_def by (auto intro!: attempts_ext)
  have "numbered R (lp_log (on_tick cfg e s)) = numbered R (lp_log s)" by (simp only: numbered_def same)
  with assms show ?thesis unfolding tries_def due_cong [OF same] on_attempt_cong [OF same] tick_frame
    by (auto simp: on_tick_def Some emit_slows_def)
qed (simp add: on_tick_def assms)

lemma iter_tries:
  assumes b: "book K {#} [] s" and t: "tries R s" and ok: "event_ok ev s" and u: "loop_iter cfg e ev s = Some u"
  shows "tries R u"
proof -
  have bt: "book K {#} [] (topped e s)" unfolding topped_def by (rule book_top [OF b])
  note tt = tries_topped [OF t, of e]
  have publish: "tries R (publish_demand cfg v) = tries R v" for v by (simp add: tries_def)
  have cm: "lp_cancel (topped e s) \<longrightarrow> cancelled_admit e (topped e s)"
    by (simp add: cancelled_admit_def cancelled_retry_def cancelled_top_def)
  show ?thesis using u
  proof (cases rule: iter_cases)
    case (completed slot oc r sc gs v)
    have "slot \<in> set (lp_futs (topped e s))" using ok completed(1) by (simp add: event_ok_def)
    with bt obtain r' sc' gs' where r': "map_of (lp_inflight (topped e s)) slot = Some r'"
      "sched_release slot (lp_sched (topped e s)) = Some (sc', gs')"
      "book K (add_mset (item_key (rn_item r')) {#}) gs' (taken slot sc' (topped e s))"
      unfolding taken_def by (rule book_take)
    then have bk: "book K (add_mset (item_key (rn_item r)) {#}) gs (taken slot sc (topped e s))"
      using completed(2,3) by simp
    have bv: "book K {#} gs v"
      using book_settle [OF bk, of cfg "cancelled_retry e (topped e s)" oc] completed(4) by auto
    have tk: "tries R (taken slot sc (topped e s))" by (rule tries_less [OF tt]) (auto simp: AList.delete_eq)
    have "on_attempt R (lp_log (topped e s)) (rn_item r) (rn_attempt r)"
      using tt map_of_SomeD [OF completed(2)] by (force simp: tries_def)
    then have tv: "tries R v" using completed(4) by (intro tries_settle [OF tk]) simp_all
    have "lp_cancel v \<longrightarrow> cancelled_admit e (topped e s)" using settle_frame [OF completed(4)] cm by simp
    from tries_admit [OF bv this tv] show ?thesis unfolding completed(5) publish .
  next
    case (ceiling c sc gs)
    have "book K {#} gs ((topped e s)\<lparr>lp_sched := sc\<rparr>)"
      using bt by (rule book_reconcile [of K "{#}" "topped e s" c]) (use ceiling(2) in simp)
    moreover have "tries R ((topped e s)\<lparr>lp_sched := sc\<rparr>)" using tt by (simp add: tries_def)
    ultimately show ?thesis unfolding ceiling(3) publish using cm by (intro tries_admit) simp_all
  qed (use tt in \<open>auto intro: tries_tick\<close>)
qed

end
