(* ===== verification/Engine_Run_Claims.thy ===== *)
theory Engine_Run_Claims
  imports Engine_Run_Trace
begin

text \<open>
  What a run of \<open>run_loop\<close> (\<open>src/src/engine/schedule.rs\<close>) guarantees, from the invariants of its
  states: the start-up sweep establishes them, every pass of the loop keeps them.
\<close>

section \<open>Start-up\<close>

lemma sweep_invar:
  assumes "sweep sn cfg is s = Some t" and "I s"
    and "\<And>i s w. i \<in> set is \<Longrightarrow> I s \<Longrightarrow> I (skip_test i w s)"
    and "\<And>i s t. i \<in> set is \<Longrightarrow> I s \<Longrightarrow> submit cfg i 1 s = Some t \<Longrightarrow> I t"
  shows "I t"
  using assms
proof (induction "is" arbitrary: s)
  case (Cons i "is")
  from Cons.prems(1) obtain u where u: "sweep_item sn cfg i s = Some u" "sweep sn cfg is u = Some t"
    by (auto simp: bind_eq_Some_conv)
  have "I (skip_test i w s)" for w by (rule Cons.prems(3)) (simp_all add: Cons.prems(2))
  moreover have "submit cfg i 1 s = Some v \<Longrightarrow> I v" for v
    by (rule Cons.prems(4)) (simp_all add: Cons.prems(2))
  moreover note u(1)
  ultimately have "I u" by (auto simp: sweep_item_def split: option.splits)
  then show ?case
    by (rule Cons.IH [OF u(2)]) (auto intro: Cons.prems(3) Cons.prems(4) [unfolded One_nat_def])
qed simp

text \<open>Nothing runs and nothing was started or stopped during the sweep.\<close>

definition unstarted :: "test_event list \<Rightarrow> bool" where
  "unstarted lg \<longleftrightarrow> (\<forall>k. attempts k lg = [])"

lemma unstarted_snoc: "unstarted lg \<Longrightarrow> \<not> is_start e \<Longrightarrow> unstarted (lg @ [e])"
  unfolding unstarted_def using attempts_ext [of "[e]"] by auto

definition sweeping :: "loop_config \<Rightarrow> (test_key \<Rightarrow> nat) \<Rightarrow> loop_state \<Rightarrow> bool" where
  "sweeping cfg R s \<longleftrightarrow> lp_inflight s = [] \<and> \<not> stopped s \<and> quiet cfg s \<and> announced s \<and> tries R s \<and>
     unstarted (lp_log s) \<and> unbudgeted (lp_sched s) \<and> queue_fits (lp_sched s)"

lemma sweeping_submit:
  assumes "sweeping cfg R s" and "submit cfg i 1 s = Some t" and "wi_retries i = R (item_key i)"
  shows "sweeping cfg R t"
proof -
  have "quiet cfg t" using quiet_submit [OF _ assms(2)] assms(1) by (simp add: sweeping_def)
  moreover have "announced t" using announced_submit [OF _ assms(2)] assms(1) by (simp add: sweeping_def)
  moreover have "tries R t"
  proof (rule tries_submit [OF _ _ assms(2)])
    show "tries R s" using assms(1) by (simp add: sweeping_def)
    have "attempts (item_key i) (lp_log s) = []" using assms(1) unfolding sweeping_def unstarted_def by blast
    then show "due R (lp_log s) i 1" using assms(3) by (simp add: due_def)
  qed
  moreover have "unstarted (lp_log t)"
    using assms(2) by (rule submit_cases) (use assms(1) in \<open>auto simp: sweeping_def intro: unstarted_snoc\<close>)
  moreover have "unbudgeted (lp_sched t) \<and> queue_fits (lp_sched t)"
  proof -
    obtain a where a: "sched_request (to_request i (lc_sa cfg)) (lp_sched s) = Some (lp_sched t, a)"
      using assms(2) by (rule submit_cases) auto
    have ub: "unbudgeted (lp_sched s)" and qf: "queue_fits (lp_sched s)" using assms(1) by (simp_all add: sweeping_def)
    have "unbudgeted (lp_sched t)" using adm.request_law [OF ub, of "to_request i (lc_sa cfg)"] a by auto
    with drain.request_roomy [OF ub qf a] show ?thesis by blast
  qed
  ultimately show ?thesis using assms(1) submit_frame [OF assms(2)] by (simp add: sweeping_def stopped_def)
qed

lemma sweeping_skip: "sweeping cfg R s \<Longrightarrow> sweeping cfg R (skip_test i w s)"
proof -
  assume s: "sweeping cfg R s"
  then have "quiet cfg s" by (simp add: sweeping_def)
  then have "quiet cfg (skip_test i w s)"
    by (rule quiet_snoc [where s = s and e = "TestSkipped (wi_binary_id i) (wi_test_name i) w"])
      (simp_all add: stopped_def)
  moreover have "announced (skip_test i w s)" using s by (simp add: sweeping_def announced_def)
  moreover have "attempts k (lp_log (skip_test i w s)) = attempts k (lp_log s)" for k by simp
  then have "tries R (skip_test i w s)" by (rule tries_less [rotated]) (use s in \<open>simp_all add: sweeping_def\<close>)
  ultimately show ?thesis using s by (simp add: sweeping_def stopped_def unstarted_snoc)
qed

lemma sweeping_init: "sweeping cfg R (loop_init cfg c n now wall)"
proof -
  have "unbudgeted (sched_new c)"
    using configured_facts [of c "[]"] by (simp add: unbudgeted_def configured_def sched_new_def)
  moreover have "queue_fits (sched_new c)" by (simp add: queue_fits_def sched_new_def)
  moreover have un: "unstarted [RunStarted n r]" for r by (simp add: unstarted_def attempts_def List.map_filter_def)
  moreover have "quiet cfg (loop_init cfg c n now wall)" by (simp add: quiet_def loop_init_def after_stop_def)
  moreover have "announced (loop_init cfg c n now wall)" by (simp add: announced_def loop_init_def)
  moreover have "numbered R [RunStarted n r]" for r
    using un [of r] unfolding numbered_def unstarted_def by (auto intro: exI [of _ 0])
  then have "tries R (loop_init cfg c n now wall)" by (simp add: tries_def loop_init_def)
  ultimately show ?thesis by (simp add: sweeping_def loop_init_def stopped_def)
qed

section \<open>Spawned as far as the cap allows\<close>

definition pumped :: "loop_config \<Rightarrow> loop_state \<Rightarrow> bool" where
  "pumped cfg s \<longleftrightarrow> stopped s \<or> lp_ready s = [] \<or> \<not> under_cap cfg (length (lp_inflight s))"

lemma pump_from_pumped:
  "lp_ready (pump_from cfg now rs s) = [] \<or> \<not> under_cap cfg (length (lp_inflight (pump_from cfg now rs s)))"
  by (induction cfg now rs s rule: pump_from.induct) auto

lemma admit_pumped: "pumped cfg (admit_grants cfg now c gs s)"
  using pump_from_pumped by (auto simp: admit_grants_def Let_def pump_def pumped_def stopped_def)

lemma iter_pumped:
  assumes "pumped cfg s" and "loop_iter cfg e ev s = Some t" shows "pumped cfg t"
  using assms(2)
proof (cases rule: iter_cases)
  case (completed slot oc r sc gs u)
  show ?thesis using admit_pumped unfolding completed(5) pumped_def stopped_def publish_frame .
next
  case (ceiling c sc gs)
  show ?thesis using admit_pumped unfolding ceiling(3) pumped_def stopped_def publish_frame .
qed (use assms(1) in \<open>auto simp: pumped_def stopped_def cancelled_top_def\<close>)

section \<open>A steady ceiling keeps room for the queue\<close>

lemma settle_sched:
  assumes "settle_outcome cfg c r oc s = Some t" and "unbudgeted (lp_sched s)" and "queue_fits (lp_sched s)"
  shows "queue_fits (lp_sched t)"
proof (cases rule: settle_cases [of cfg c r oc s])
  case (report st ff)
  with assms(1) have "lp_sched t = lp_sched s" by auto
  with assms(3) show ?thesis by simp
next
  case (retry e)
  with assms(1) have "submit cfg (rn_item r) (Suc (rn_attempt r)) (emit e s) = Some t" by simp
  then show ?thesis by (rule submit_cases) (use assms(2,3) drain.request_roomy in auto)
qed

lemma admit_sched [simp]: "lp_sched (admit_grants cfg now c gs s) = lp_sched s"
  by (simp add: admit_grants_def Let_def)

lemma iter_fits:
  assumes "unbudgeted (lp_sched s)" and "queue_fits (lp_sched s)" and "steady ev" and "loop_iter cfg e ev s = Some t"
  shows "queue_fits (lp_sched t)"
  using assms(4)
proof (cases rule: iter_cases)
  case (completed slot oc r sc gs u)
  have rel: "sched_release slot (lp_sched s) = Some (sc, gs)" using completed(3) by simp
  have "unbudgeted sc" using adm.release_law [OF assms(1), of slot] rel by auto
  moreover have "queue_fits sc" using assms(1,2) rel by (rule drain.release_roomy)
  ultimately show ?thesis using settle_sched [OF completed(4)] by (simp add: completed(5))
qed (use assms(2,3) in \<open>auto simp: steady_def\<close>)

section \<open>Everything in the loop is a test of the run\<close>

text \<open>
  What runs, is granted or parked is an item of the run, and what the scheduler has queued is the
  request of one.\<close>

definition drawn :: "loop_config \<Rightarrow> work_item set \<Rightarrow> loop_state \<Rightarrow> bool" where
  "drawn cfg S s \<longleftrightarrow> p_req ` set (queue (lp_sched s)) \<subseteq> (\<lambda>i. to_request i (lc_sa cfg)) ` S \<and>
     (\<forall>x \<in> set (lp_inflight s). rn_item (snd x) \<in> S) \<and> (\<forall>x \<in> set (lp_ready s). fst (snd x) \<in> S) \<and>
     (\<forall>x \<in> set (lp_parked s). fst (snd x) \<in> S)"

lemma drawn_cong:
  assumes "drawn cfg S s" and "set (queue (lp_sched t)) \<subseteq> set (queue (lp_sched s))"
    and "set (lp_inflight t) \<subseteq> set (lp_inflight s)" and "set (lp_ready t) \<subseteq> set (lp_ready s)"
    and "set (lp_parked t) \<subseteq> set (lp_parked s)"
  shows "drawn cfg S t"
  using assms unfolding drawn_def by blast

lemma drawn_skip [simp]: "drawn cfg S (skip_test i w s) = drawn cfg S s"
  by (simp add: drawn_def)

lemma delete_set: "set (AList.delete k xs) \<subseteq> set xs"
  by (auto simp: AList.delete_eq)

lemma alist_insert_set: "set (alist_insert k v xs) \<subseteq> insert (k, v) (set xs)"
  using delete_set [of k xs] by (auto simp: alist_insert_def)

lemma drawn_submit:
  assumes d: "drawn cfg S s" and u: "unbudgeted (lp_sched s)" and i: "i \<in> S" and t: "submit cfg i a s = Some t"
  shows "drawn cfg S t"
proof -
  obtain sc x where sc: "sched_request (to_request i (lc_sa cfg)) (lp_sched s) = Some (sc, x)" "lp_sched t = sc"
    using t by (rule submit_cases) auto
  have "p_req ` set (queue (lp_sched t)) \<subseteq> (\<lambda>i. to_request i (lc_sa cfg)) ` S"
    unfolding sc(2) by (rule subset_trans [OF request_asked [OF u sc(1)]]) (use d i in \<open>simp add: drawn_def\<close>)
  moreover have "(\<forall>x \<in> set (lp_inflight t). rn_item (snd x) \<in> S) \<and> (\<forall>x \<in> set (lp_ready t). fst (snd x) \<in> S) \<and>
      (\<forall>x \<in> set (lp_parked t). fst (snd x) \<in> S)"
    using t by (rule submit_cases)
      (use d i alist_insert_set [of "item_key i" "(i, a)" "lp_parked s"] in \<open>auto simp: drawn_def\<close>)
  ultimately show ?thesis by (simp add: drawn_def)
qed

lemma drawn_pump_from:
  "drawn cfg S (s\<lparr>lp_ready := rs\<rparr>) \<Longrightarrow> drawn cfg S (pump_from cfg' now rs s)"
proof (induction cfg' now rs s rule: pump_from.induct)
  case (2 cfg' now slot i a rest s)
  have "drawn cfg S ((spawn_granted now slot i a s)\<lparr>lp_ready := rest\<rparr>)"
    using 2(2) alist_insert_set [of slot _ "lp_inflight s"] by (fastforce simp: drawn_def spawn_granted_def)
  with 2 show ?case by simp
qed simp

lemma drawn_pump: "drawn cfg S s \<Longrightarrow> drawn cfg S (pump cfg' now s)"
  unfolding pump_def by (rule drawn_pump_from) simp

lemma drawn_take: "drawn cfg S s \<Longrightarrow> drawn cfg S (take_grants gs s)"
proof (induction gs s rule: take_grants.induct)
  case (2 g gs s)
  show ?case
  proof (cases "map_of (lp_parked s) (ad_binary_id g, ad_test_name g)")
    case None
    with 2 show ?thesis by simp
  next
    case (Some x)
    have "fst x \<in> S" using Some 2(3) unfolding drawn_def by (metis map_of_SomeD snd_conv)
    then have "drawn cfg S (s\<lparr>lp_parked := AList.delete (ad_binary_id g, ad_test_name g) (lp_parked s),
        lp_ready := lp_ready s @ [(ad_slot_id g, x)]\<rparr>)"
      using 2(3) delete_set [of "(ad_binary_id g, ad_test_name g)" "lp_parked s"] by (auto simp: drawn_def)
    with 2(2) Some show ?thesis by (cases x) simp
  qed
qed simp

lemma drawn_admit: "drawn cfg S s \<Longrightarrow> drawn cfg S (admit_grants cfg' now c gs s)"
proof -
  assume "drawn cfg S s"
  then have "drawn cfg S (s\<lparr>lp_cancel := x\<rparr>)" for x by (simp add: drawn_def)
  then show ?thesis by (simp add: admit_grants_def Let_def drawn_pump drawn_take)
qed

lemma iter_drawn:
  assumes d: "drawn cfg S s" and u: "unbudgeted (lp_sched s)" and t: "loop_iter cfg e ev s = Some t"
  shows "drawn cfg S t"
  using t
proof (cases rule: iter_cases)
  case woken
  then show ?thesis using d by (auto intro: drawn_cong)
next
  case (completed slot oc r sc gs v)
  have rel: "sched_release slot (lp_sched s) = Some (sc, gs)" using completed(3) by simp
  have sc: "unbudgeted sc" using adm.release_law [OF u, of slot] rel by auto
  have taken: "drawn cfg S (taken slot sc (topped e s))"
    using release_queue(2) [OF u rel] delete_set [of slot "lp_inflight s"] by (intro drawn_cong [OF d]) auto
  have "rn_item r \<in> S" using completed(2) d by (auto simp: drawn_def dest!: map_of_SomeD)
  have "drawn cfg S v"
  proof (cases rule: settle_cases [of cfg "cancelled_retry e (topped e s)" r oc "taken slot sc (topped e s)"])
    case (report st ff)
    with completed(4) taken show ?thesis by (auto intro: drawn_cong)
  next
    case (retry x)
    have "drawn cfg S (emit x (taken slot sc (topped e s)))" using taken by (auto intro: drawn_cong)
    with retry completed(4) \<open>rn_item r \<in> S\<close> sc show ?thesis by (auto intro: drawn_submit)
  qed
  then have "drawn cfg S (admit_grants cfg (ie_now e) (cancelled_admit e (topped e s)) gs v)" by (rule drawn_admit)
  then show ?thesis by (auto simp: completed(5) intro: drawn_cong)
next
  case (ceiling c sc gs)
  have "sched_reconcile c (lp_sched s) = Some (sc, gs)" using ceiling(2) by simp
  from reconcile_queue(2) [OF u this] have "drawn cfg S ((topped e s)\<lparr>lp_sched := sc\<rparr>)"
    by (intro drawn_cong [OF d]) auto
  then have "drawn cfg S (admit_grants cfg (ie_now e) (cancelled_admit e (topped e s)) gs ((topped e s)\<lparr>lp_sched := sc\<rparr>))"
    by (rule drawn_admit)
  then show ?thesis by (auto simp: ceiling(3) intro: drawn_cong)
next
  case tick
  have "rn_item (mark_slow n a x) = rn_item x" for n a x by (simp add: mark_slow_def)
  with d show ?thesis by (auto simp: tick drawn_def on_tick_def emit_slows_def split: option.splits)
qed

lemma run_start_drawn:
  assumes "run_start sn cfg c is now wall = Some s" shows "drawn cfg (set is) s"
proof -
  obtain u where u: "sweep sn cfg is (loop_init cfg c (length is) now wall) = Some u"
    "s = publish_demand cfg (pump cfg now u)"
    using assms by (auto simp: run_start_def)
  have "unbudgeted (lp_sched u) \<and> drawn cfg (set is) u"
    using u(1)
  proof (rule sweep_invar)
    have "unbudgeted (sched_new c)"
      using configured_facts [of c "[]"] by (simp add: unbudgeted_def configured_def sched_new_def)
    then show "unbudgeted (lp_sched (loop_init cfg c (length is) now wall)) \<and>
        drawn cfg (set is) (loop_init cfg c (length is) now wall)"
      by (simp add: loop_init_def drawn_def sched_new_def)
    fix i v t assume "i \<in> set is" and v: "unbudgeted (lp_sched v) \<and> drawn cfg (set is) v"
    then show "unbudgeted (lp_sched (skip_test i w v)) \<and> drawn cfg (set is) (skip_test i w v)" for w by simp
    assume t: "submit cfg i 1 v = Some t"
    obtain a where "sched_request (to_request i (lc_sa cfg)) (lp_sched v) = Some (lp_sched t, a)"
      using t by (rule submit_cases) auto
    with v have "unbudgeted (lp_sched t)" using adm.request_law [of "lp_sched v" "to_request i (lc_sa cfg)"] by auto
    with v t \<open>i \<in> set is\<close> show "unbudgeted (lp_sched t) \<and> drawn cfg (set is) t" by (auto intro: drawn_submit)
  qed
  then have "drawn cfg (set is) (pump cfg now u)" by (simp add: drawn_pump)
  then show ?thesis by (auto simp: u(2) intro: drawn_cong)
qed

section \<open>The invariant of a run\<close>

definition retries_of :: "work_item list \<Rightarrow> test_key \<Rightarrow> nat" where
  "retries_of is k = (case find (\<lambda>i. item_key i = k) is of Some i \<Rightarrow> wi_retries i | None \<Rightarrow> 0)"

lemma retries_of_item:
  assumes "distinct (map item_key is)" and "i \<in> set is"
  shows "retries_of is (item_key i) = wi_retries i"
proof -
  have "find (\<lambda>j. item_key j = item_key i) is = Some i"
    using assms by (induction "is") (auto simp: image_iff)
  then show ?thesis by (simp add: retries_of_def)
qed

definition run_inv :: "loop_config \<Rightarrow> work_item list \<Rightarrow> loop_state \<Rightarrow> bool" where
  "run_inv cfg is s \<longleftrightarrow> book (mset (map item_key is)) {#} [] s \<and> capped cfg (length (lp_inflight s)) \<and>
     quiet cfg s \<and> announced s \<and> tries (retries_of is) s \<and> pumped cfg s"

lemma run_start_inv:
  assumes d: "distinct (map item_key is)" and s: "run_start sn cfg c is now wall = Some s"
  shows "run_inv cfg is s" and "queue_fits (lp_sched s)"
proof -
  let ?R = "retries_of is" and ?K = "mset (map item_key is)"
  obtain u where u: "sweep sn cfg is (loop_init cfg c (length is) now wall) = Some u"
    "s = publish_demand cfg (pump cfg now u)"
    using s by (auto simp: run_start_def)
  have b: "book ?K {#} [] u" using book_sweep [OF book_init [OF d], of sn cfg cfg c now wall] u(1) by auto
  have sw: "sweeping cfg ?R u"
    using u(1) sweeping_init
    by (rule sweep_invar) (auto intro: sweeping_skip sweeping_submit simp: retries_of_item [OF d])
  have "quiet cfg (pump cfg now u)" using sw by (simp add: pump_def sweeping_def quiet_pump_from)
  moreover have "announced (pump cfg now u)" using sw by (simp add: pump_def sweeping_def announced_pump_from)
  moreover have "tries ?R (pump cfg now u)"
    unfolding pump_def using b sw by (intro tries_pump_from) (simp_all add: sweeping_def)
  moreover have "capped cfg (length (lp_inflight (pump cfg now u)))"
    unfolding pump_def using sw by (intro pump_capped) (simp add: sweeping_def capped_def split: option.split)
  moreover have "pumped cfg (pump cfg now u)" using pump_from_pumped by (auto simp: pumped_def pump_def)
  ultimately show "run_inv cfg is s"
    using book_pump [OF b] by (simp add: u(2) run_inv_def quiet_def announced_def tries_def pumped_def stopped_def)
  show "queue_fits (lp_sched s)" using sw by (simp add: u(2) sweeping_def)
qed

lemma run_iter_inv:
  assumes "run_inv cfg is s" and "event_ok ev s" and "loop_iter cfg e ev s = Some t"
  shows "run_inv cfg is t"
proof -
  have "book (mset (map item_key is)) {#} [] t"
    using book_iter [of "mset (map item_key is)" s ev cfg e] assms by (auto simp: run_inv_def)
  then show ?thesis using assms
    by (auto simp: run_inv_def intro: iter_capped iter_quiet iter_announced iter_tries iter_pumped)
qed

definition started :: "loop_config \<Rightarrow> work_item list \<Rightarrow> loop_state \<Rightarrow> bool" where
  "started cfg is s \<longleftrightarrow> distinct (map item_key is) \<and> (\<exists>sn c now wall. run_start sn cfg c is now wall = Some s)"

interpretation run: step_system "started cfg is" "loop_step any_event cfg" "run_inv cfg is" for cfg "is"
  by unfold_locales (auto simp: started_def elim!: loop_stepE intro: run_start_inv run_iter_inv)

lemma run_inv_sched: "run_inv cfg is s \<Longrightarrow> unbudgeted (lp_sched s)"
  by (simp add: run_inv_def book_def)

interpretation calm: step_system "started cfg is" "loop_step steady cfg"
  "\<lambda>s. run_inv cfg is s \<and> queue_fits (lp_sched s)" for cfg "is"
  by unfold_locales
    (auto simp: started_def elim!: loop_stepE intro: run_start_inv run_iter_inv iter_fits run_inv_sched)

lemma run_reach:
  assumes "distinct (map item_key is)" and "run_start sn cfg c is now wall = Some s"
    and "(loop_step any_event cfg)\<^sup>*\<^sup>* s t"
  shows "run_inv cfg is t"
  by (rule run.reach_invar [of cfg "is" s]) (use assms in \<open>auto simp: started_def\<close>)

interpretation sourced: step_system "started cfg is" "loop_step any_event cfg"
  "\<lambda>s. run_inv cfg is s \<and> drawn cfg (set is) s" for cfg "is"
  by unfold_locales
    (auto simp: started_def elim!: loop_stepE intro: run_start_inv run_iter_inv run_start_drawn iter_drawn run_inv_sched)

section \<open>What a run guarantees\<close>

text \<open>
  C6. The loop loses no test and reports none twice. At every point of a run, whatever
  completes, is cancelled, fails fast or moves the ceiling, the tests reported as finished or
  skipped together with those running, granted and parked are exactly the tests of the run.
\<close>

theorem run_conserves_tests:
  assumes "distinct (map item_key is)" and "run_start sn cfg c is now wall = Some s"
    and "(loop_step any_event cfg)\<^sup>*\<^sup>* s t"
  shows "mset (reported (lp_log t)) + live_keys t = mset (map item_key is)"
proof -
  have "run_inv cfg is t" using assms(1-3) by (rule run_reach)
  then show ?thesis by (simp add: run_inv_def book_def)
qed

text \<open>
  The loop does not panic: the start-up sweep answers, and on every state a run reaches,
  each completion of a running test, each new ceiling and each tick is processed. In
  particular a completed future always has its inflight entry.
\<close>

theorem run_never_panics:
  assumes "distinct (map item_key is)"
  shows "\<exists>s. run_start sn cfg c is now wall = Some s \<and>
    (\<forall>t ev e. (loop_step any_event cfg)\<^sup>*\<^sup>* s t \<longrightarrow> event_ok ev t \<longrightarrow> loop_iter cfg e ev t \<noteq> None)"
proof -
  obtain s where s: "run_start sn cfg c is now wall = Some s" using book_start [OF assms] by blast
  have "loop_iter cfg e ev t \<noteq> None" if t: "(loop_step any_event cfg)\<^sup>*\<^sup>* s t" "event_ok ev t" for t ev e
  proof -
    have "run_inv cfg is t" using assms s t(1) by (rule run_reach)
    then have "book (mset (map item_key is)) {#} [] t" by (simp add: run_inv_def)
    from book_iter [OF this t(2), of cfg e] show ?thesis by auto
  qed
  with s show ?thesis by blast
qed

text \<open>
  A configured cap on running tests holds at every point of a run.
\<close>

theorem run_within_cap:
  assumes "distinct (map item_key is)" and "run_start sn cfg c is now wall = Some s"
    and "(loop_step any_event cfg)\<^sup>*\<^sup>* s t" and "lc_max_inflight cfg = Some cap"
  shows "length (lp_inflight t) \<le> cap"
proof -
  have "run_inv cfg is t" using assms(1-3) by (rule run_reach)
  then show ?thesis using assms(4) by (simp add: run_inv_def capped_def)
qed

text \<open>
  C10. Retries are bounded and numbered: the starts of a test in the reported events carry the
  attempt numbers 1, 2, up to at most its retries plus one, also when a retry waits in the
  queue or behind the cap in between.
\<close>

theorem run_attempts_bounded:
  assumes "distinct (map item_key is)" and "run_start sn cfg c is now wall = Some s"
    and "(loop_step any_event cfg)\<^sup>*\<^sup>* s t" and "i \<in> set is"
  shows "\<exists>n \<le> Suc (wi_retries i). attempts (item_key i) (lp_log t) = [1..<Suc n]"
proof -
  have "run_inv cfg is t" using assms(1-3) by (rule run_reach)
  then have "numbered (retries_of is) (lp_log t)" by (simp add: run_inv_def tries_def)
  then show ?thesis unfolding numbered_def retries_of_item [OF assms(1,4), symmetric] by blast
qed

text \<open>
  C11. Nothing starts after a stop: in the events of a run, once the cancellation is announced,
  or under fail-fast a test failed for good, no test is started.
\<close>

theorem run_quiet_after_stop:
  assumes "distinct (map item_key is)" and "run_start sn cfg c is now wall = Some s"
    and "(loop_step any_event cfg)\<^sup>*\<^sup>* s t" and "x \<in> set (after_stop cfg (lp_log t))"
  shows "\<not> is_start x"
proof -
  have "run_inv cfg is t" using assms(1-3) by (rule run_reach)
  then show ?thesis using assms(4) by (simp add: run_inv_def quiet_def)
qed

text \<open>
  The cancellation is announced at most once, also when it is noticed again on every
  later pass.
\<close>

theorem run_cancelling_once:
  assumes "distinct (map item_key is)" and "run_start sn cfg c is now wall = Some s"
    and "(loop_step any_event cfg)\<^sup>*\<^sup>* s t"
  shows "length (filter is_cancelling (lp_log t)) \<le> 1"
proof -
  have "run_inv cfg is t" using assms(1-3) by (rule run_reach)
  then show ?thesis by (simp add: run_inv_def announced_def)
qed

text \<open>
  C8. Under a ceiling that does not move, a loop that ends without a stop has reported every
  test: with nothing running, nothing can be left granted or parked.
\<close>

theorem run_end_reports_all:
  assumes "distinct (map item_key is)" and "run_start sn cfg c is now wall = Some s"
    and "(loop_step steady cfg)\<^sup>*\<^sup>* s t" and "lp_futs t = []" and "\<not> stopped t"
    and "lc_max_inflight cfg \<noteq> Some 0"
  shows "mset (reported (lp_log t)) = mset (map item_key is)"
proof -
  have inv: "run_inv cfg is t" and q: "queue_fits (lp_sched t)"
    using calm.reach_invar [of cfg "is" s t] assms by (auto simp: started_def)
  then have b: "book (mset (map item_key is)) {#} [] t" and p: "pumped cfg t" by (simp_all add: run_inv_def)
  have i: "lp_inflight t = []" using b assms(4) by (simp add: book_def)
  have r: "lp_ready t = []"
    using p assms(5,6) i by (auto simp: pumped_def under_cap_def split: option.splits)
  have "waiting_keys (lp_sched t) = {#}"
    by (rule drain.untracked_idle) (use b i r q assms(5) in \<open>auto simp: book_def used_slots_def\<close>)
  then have "lp_parked t = []" using b assms(5) by (simp add: book_def)
  then show ?thesis using b i r by (simp add: book_def live_keys_def)
qed

text \<open>Sorting by keys that are all different does not depend on the order of the input.\<close>

lemma sort_key_mset_cong:
  assumes "mset xs = mset ys" and "inj_on f (set xs)" and "distinct xs"
  shows "sort_key f xs = sort_key f ys"
proof (rule properties_for_sort_key)
  show m: "mset (sort_key f ys) = mset xs" using assms(1) by simp
  show "sorted (map f (sort_key f ys))" by simp
  have d: "distinct (sort_key f ys)" using assms(3) m by (metis mset_eq_imp_distinct_iff)
  fix k assume "k \<in> set (sort_key f ys)"
  then have k: "k \<in> set xs" using m by (metis mset_eq_setD)
  have one: "filter (\<lambda>x. f k = f x) zs = [k]" if "distinct zs" "set zs = set xs" for zs
  proof -
    have "filter (\<lambda>x. f k = f x) zs = filter (\<lambda>x. x = k) zs"
      using that(2) k assms(2) by (auto simp: inj_on_def intro!: filter_cong)
    also have "\<dots> = [k]"
    proof -
      have "k \<in> set zs" using that(2) k by simp
      with that(1) show ?thesis by (induction zs) (auto simp: filter_empty_conv)
    qed
    finally show ?thesis .
  qed
  from one [OF d] one [OF assms(3)] m show "filter (\<lambda>x. f k = f x) (sort_key f ys) = filter (\<lambda>x. f k = f x) xs"
    by (metis mset_eq_setD)
qed

text \<open>
  The running rows do not flicker: on every state a run reaches, two frames rendered for
  the same running tests list them alike, in whatever order the hash map yields them.
\<close>

theorem frame_order_stable:
  assumes "distinct (map item_key is)" and "run_start sn cfg c is now wall = Some s"
    and "(loop_step any_event cfg)\<^sup>*\<^sup>* s t" and "mset xs = mset (lp_inflight t)"
  shows "render_tick n (t\<lparr>lp_inflight := xs\<rparr>) = render_tick n t"
proof -
  have "run_inv cfg is t" using assms(1-3) by (rule run_reach)
  then have "distinct (map (\<lambda>x. item_key (rn_item (snd x))) (lp_inflight t))"
    using book_live_distinct [of "mset (map item_key is)" "{#}" "[]" t] by (simp add: run_inv_def)
  then have d: "distinct (map (\<lambda>r. item_key (rn_item r)) (map snd (lp_inflight t)))" by (simp add: comp_def)
  have m: "mset (map snd (lp_inflight t)) = mset (map snd xs)" using assms(4) by simp
  have "inj_on (\<lambda>r. item_key (rn_item r)) (set (map snd (lp_inflight t)))" using d by (simp only: distinct_map)
  then have "inj_on (\<lambda>r. (rn_started r, wi_binary_id (rn_item r), wi_test_name (rn_item r))) (set (map snd (lp_inflight t)))"
    by (auto simp: inj_on_def item_key_def)
  moreover have "distinct (map snd (lp_inflight t))" using d by (simp only: distinct_map)
  ultimately have "sort_key (\<lambda>r. (rn_started r, wi_binary_id (rn_item r), wi_test_name (rn_item r))) (map snd (lp_inflight t)) =
      sort_key (\<lambda>r. (rn_started r, wi_binary_id (rn_item r), wi_test_name (rn_item r))) (map snd xs)"
    by (rule sort_key_mset_cong [OF m])
  then show ?thesis using mset_eq_length [OF assms(4)] by (simp add: render_tick_def)
qed

section \<open>A run with two tests\<close>

definition demo_item :: "string \<Rightarrow> nat \<Rightarrow> work_item" where
  "demo_item name retries = \<lparr>wi_binary_id = ''b'', wi_test_name = name, wi_binary_path = ''/b'', wi_cwd = ''/'',
     wi_class = Integration, wi_footprint = r_new 5 1 0 0, wi_hard_cap = 9, wi_retries = retries, wi_deps = []\<rparr>"

definition demo_items :: "work_item list" where
  "demo_items = [demo_item ''x'' 1, demo_item ''y'' 0]"

definition demo_cfg :: loop_config where
  "demo_cfg = \<lparr>lc_fail_fast = True, lc_slow_after = Some 3, lc_sa = ''sa'', lc_run_id = ''r'',
     lc_resources = Map.empty, lc_max_inflight = Some 1, lc_reservation = False\<rparr>"

definition demo_outcome :: "verdict \<Rightarrow> test_outcome" where
  "demo_outcome v = \<lparr>oc_verdict = v, oc_output = '''', oc_components = '''', oc_duration = 4\<rparr>"

definition at_time :: "nat \<Rightarrow> iter_env" where
  "at_time n = \<lparr>ie_now = n, ie_cancel = NotSeen\<rparr>"

definition demo_start :: "loop_state option" where
  "demo_start = run_start (\<lambda>_. '''') demo_cfg (r_new 8 8 8 8) demo_items 0 0"

text \<open>A sequence of events a run from \<open>s\<close> can take, each from the class \<open>P\<close>.\<close>

fun events_ok :: "(loop_event \<Rightarrow> bool) \<Rightarrow> loop_config \<Rightarrow> (iter_env \<times> loop_event) list \<Rightarrow> loop_state \<Rightarrow> bool" where
  "events_ok P cfg [] s \<longleftrightarrow> True"
| "events_ok P cfg ((e, ev) # es) s \<longleftrightarrow> lp_futs s \<noteq> [] \<and> P ev \<and> event_ok ev s \<and>
     (case loop_iter cfg e ev s of None \<Rightarrow> False | Some t \<Rightarrow> events_ok P cfg es t)"

lemma events_steps:
  "events_ok P cfg es s \<Longrightarrow> \<exists>t. run_events cfg es s = Some t \<and> (loop_step P cfg)\<^sup>*\<^sup>* s t"
proof (induction es arbitrary: s)
  case (Cons x es)
  obtain e ev where x: "x = (e, ev)" by force
  with Cons.prems obtain u where u: "loop_iter cfg e ev s = Some u" "events_ok P cfg es u" "lp_futs s \<noteq> []" "P ev" "event_ok ev s"
    by (auto split: option.splits)
  then have "loop_step P cfg s u" by (intro step)
  with Cons.IH [OF u(2)] u(1,3) x show ?case by (auto intro: converse_rtranclp_into_rtranclp)
qed auto

lemma demo_distinct: "distinct (map item_key demo_items)"
  by code_simp

lemma demo_reach:
  assumes "(case demo_start of None \<Rightarrow> False | Some s \<Rightarrow> events_ok P demo_cfg es s)"
    and "map_option f (Option.bind demo_start (run_events demo_cfg es)) = Some v"
  obtains s t where "run_start (\<lambda>_. '''') demo_cfg (r_new 8 8 8 8) demo_items 0 0 = Some s"
    "(loop_step P demo_cfg)\<^sup>*\<^sup>* s t" "f t = v"
proof -
  from assms(1) obtain s where s: "demo_start = Some s" "events_ok P demo_cfg es s" by (auto split: option.splits)
  from events_steps [OF s(2)] obtain t where t: "run_events demo_cfg es s = Some t" "(loop_step P demo_cfg)\<^sup>*\<^sup>* s t" by blast
  show thesis by (rule that [of s t]) (use s(1) t assms(2) in \<open>simp_all add: demo_start_def\<close>)
qed

text \<open>The first attempt of \<open>x\<close> fails and is retried behind \<open>y\<close>, which passes.\<close>

definition demo_retry :: "(iter_env \<times> loop_event) list" where
  "demo_retry = [(at_time 1, Done 0 (demo_outcome (Fail 1))), (at_time 2, Done 1 (demo_outcome Pass))]"

lemma demo_retry_runs:
  obtains s t where "run_start (\<lambda>_. '''') demo_cfg (r_new 8 8 8 8) demo_items 0 0 = Some s"
    "(loop_step any_event demo_cfg)\<^sup>*\<^sup>* s t"
    "(attempts (''b'', ''x'') (lp_log t), reported (lp_log t)) = ([1, 2], [(''b'', ''y'')])"
proof (rule demo_reach [where P = any_event and es = demo_retry and
      f = "\<lambda>t. (attempts (''b'', ''x'') (lp_log t), reported (lp_log t))" and v = "([1, 2], [(''b'', ''y'')])"])
  show "case demo_start of None \<Rightarrow> False | Some s \<Rightarrow> events_ok any_event demo_cfg demo_retry s" by code_simp
  show "map_option (\<lambda>t. (attempts (''b'', ''x'') (lp_log t), reported (lp_log t)))
    (Option.bind demo_start (run_events demo_cfg demo_retry)) = Some ([1, 2], [(''b'', ''y'')])" by code_simp
qed (rule that)

theorem run_conserves_tests_witness:
  "\<exists>s t. run_start (\<lambda>_. '''') demo_cfg (r_new 8 8 8 8) demo_items 0 0 = Some s \<and>
     (loop_step any_event demo_cfg)\<^sup>*\<^sup>* s t \<and> reported (lp_log t) = [(''b'', ''y'')] \<and>
     mset (reported (lp_log t)) + live_keys t = mset (map item_key demo_items)"
proof -
  obtain s t where r: "run_start (\<lambda>_. '''') demo_cfg (r_new 8 8 8 8) demo_items 0 0 = Some s"
    "(loop_step any_event demo_cfg)\<^sup>*\<^sup>* s t"
    "(attempts (''b'', ''x'') (lp_log t), reported (lp_log t)) = ([1, 2], [(''b'', ''y'')])"
    by (rule demo_retry_runs)
  with run_conserves_tests [OF demo_distinct r(1,2)] show ?thesis by blast
qed

theorem run_never_panics_witness:
  "\<exists>s. run_start (\<lambda>_. '''') demo_cfg (r_new 8 8 8 8) demo_items 0 0 = Some s \<and>
     loop_iter demo_cfg (at_time 4) Tick s \<noteq> None"
proof -
  have "event_ok Tick s" for s by (simp add: event_ok_def)
  with run_never_panics [OF demo_distinct, of "\<lambda>_. ''''" demo_cfg "r_new 8 8 8 8" 0 0] show ?thesis by blast
qed

theorem run_within_cap_witness:
  "\<exists>s t. run_start (\<lambda>_. '''') demo_cfg (r_new 8 8 8 8) demo_items 0 0 = Some s \<and>
     (loop_step any_event demo_cfg)\<^sup>*\<^sup>* s t \<and> reported (lp_log t) = [(''b'', ''y'')] \<and> length (lp_inflight t) \<le> 1"
proof -
  obtain s t where r: "run_start (\<lambda>_. '''') demo_cfg (r_new 8 8 8 8) demo_items 0 0 = Some s"
    "(loop_step any_event demo_cfg)\<^sup>*\<^sup>* s t"
    "(attempts (''b'', ''x'') (lp_log t), reported (lp_log t)) = ([1, 2], [(''b'', ''y'')])"
    by (rule demo_retry_runs)
  have "lc_max_inflight demo_cfg = Some 1" by (simp add: demo_cfg_def)
  from run_within_cap [OF demo_distinct r(1,2) this] r show ?thesis by blast
qed

theorem run_attempts_bounded_witness:
  "\<exists>s t. run_start (\<lambda>_. '''') demo_cfg (r_new 8 8 8 8) demo_items 0 0 = Some s \<and>
     (loop_step any_event demo_cfg)\<^sup>*\<^sup>* s t \<and> attempts (''b'', ''x'') (lp_log t) = [1, 2] \<and>
     (\<exists>n. n \<le> Suc (wi_retries (demo_item ''x'' 1)) \<and>
       attempts (item_key (demo_item ''x'' 1)) (lp_log t) = [1..<Suc n])"
proof -
  obtain s t where r: "run_start (\<lambda>_. '''') demo_cfg (r_new 8 8 8 8) demo_items 0 0 = Some s"
    "(loop_step any_event demo_cfg)\<^sup>*\<^sup>* s t"
    "(attempts (''b'', ''x'') (lp_log t), reported (lp_log t)) = ([1, 2], [(''b'', ''y'')])"
    by (rule demo_retry_runs)
  have "demo_item ''x'' 1 \<in> set demo_items" by (simp add: demo_items_def)
  from run_attempts_bounded [OF demo_distinct r(1,2) this] r show ?thesis by blast
qed

theorem frame_order_stable_witness:
  "\<exists>s t. run_start (\<lambda>_. '''') demo_cfg (r_new 8 8 8 8) demo_items 0 0 = Some s \<and>
     (loop_step any_event demo_cfg)\<^sup>*\<^sup>* s t \<and> reported (lp_log t) = [(''b'', ''y'')] \<and>
     render_tick 7 (t\<lparr>lp_inflight := rev (lp_inflight t)\<rparr>) = render_tick 7 t"
proof -
  obtain s t where r: "run_start (\<lambda>_. '''') demo_cfg (r_new 8 8 8 8) demo_items 0 0 = Some s"
    "(loop_step any_event demo_cfg)\<^sup>*\<^sup>* s t"
    "(attempts (''b'', ''x'') (lp_log t), reported (lp_log t)) = ([1, 2], [(''b'', ''y'')])"
    by (rule demo_retry_runs)
  have "mset (rev (lp_inflight t)) = mset (lp_inflight t)" by simp
  from frame_order_stable [OF demo_distinct r(1,2) this, of 7] r show ?thesis by blast
qed

text \<open>Then \<open>y\<close> fails for good while \<open>x\<close> waits for its retry.\<close>

theorem run_quiet_after_stop_witness:
  "\<exists>s t x. run_start (\<lambda>_. '''') demo_cfg (r_new 8 8 8 8) demo_items 0 0 = Some s \<and>
     (loop_step any_event demo_cfg)\<^sup>*\<^sup>* s t \<and> x \<in> set (after_stop demo_cfg (lp_log t)) \<and> \<not> is_start x"
proof -
  let ?es = "[(at_time 1, Done 0 (demo_outcome (Fail 1))), (at_time 2, Done 1 (demo_outcome (Fail 1)))]"
  obtain s t where r: "run_start (\<lambda>_. '''') demo_cfg (r_new 8 8 8 8) demo_items 0 0 = Some s"
    "(loop_step any_event demo_cfg)\<^sup>*\<^sup>* s t" "(after_stop demo_cfg (lp_log t) = []) = False"
  proof (rule demo_reach [where P = any_event and es = ?es and
        f = "\<lambda>t. after_stop demo_cfg (lp_log t) = []" and v = False])
    show "case demo_start of None \<Rightarrow> False | Some s \<Rightarrow> events_ok any_event demo_cfg ?es s" by code_simp
    show "map_option (\<lambda>t. after_stop demo_cfg (lp_log t) = []) (Option.bind demo_start (run_events demo_cfg ?es)) = Some False"
      by code_simp
  qed
  then obtain x where "x \<in> set (after_stop demo_cfg (lp_log t))" by (cases "after_stop demo_cfg (lp_log t)") auto
  with run_quiet_after_stop [OF demo_distinct r(1,2) this] r show ?thesis by blast
qed

theorem run_cancelling_once_witness:
  "\<exists>s t. run_start (\<lambda>_. '''') demo_cfg (r_new 8 8 8 8) demo_items 0 0 = Some s \<and>
     (loop_step any_event demo_cfg)\<^sup>*\<^sup>* s t \<and> filter is_cancelling (lp_log t) = [RunCancelling Interrupt 1] \<and>
     length (filter is_cancelling (lp_log t)) \<le> 1"
proof -
  let ?es = "[(\<lparr>ie_now = 1, ie_cancel = SeenAtTop\<rparr>, Woken), (at_time 2, Done 0 (demo_outcome Terminated))]"
  obtain s t where r: "run_start (\<lambda>_. '''') demo_cfg (r_new 8 8 8 8) demo_items 0 0 = Some s"
    "(loop_step any_event demo_cfg)\<^sup>*\<^sup>* s t" "filter is_cancelling (lp_log t) = [RunCancelling Interrupt 1]"
  proof (rule demo_reach [where P = any_event and es = ?es and
        f = "\<lambda>t. filter is_cancelling (lp_log t)" and v = "[RunCancelling Interrupt 1]"])
    show "case demo_start of None \<Rightarrow> False | Some s \<Rightarrow> events_ok any_event demo_cfg ?es s" by code_simp
    show "map_option (\<lambda>t. filter is_cancelling (lp_log t)) (Option.bind demo_start (run_events demo_cfg ?es)) =
        Some [RunCancelling Interrupt 1]" by code_simp
  qed
  with run_cancelling_once [OF demo_distinct r(1,2)] show ?thesis by blast
qed

theorem run_end_reports_all_witness:
  "\<exists>s t. run_start (\<lambda>_. '''') demo_cfg (r_new 8 8 8 8) demo_items 0 0 = Some s \<and>
     (loop_step steady demo_cfg)\<^sup>*\<^sup>* s t \<and> lp_futs t = [] \<and> \<not> stopped t \<and>
     mset (reported (lp_log t)) = mset (map item_key demo_items)"
proof -
  let ?es = "demo_retry @ [(at_time 3, Done 2 (demo_outcome Pass))]"
  obtain s t where r: "run_start (\<lambda>_. '''') demo_cfg (r_new 8 8 8 8) demo_items 0 0 = Some s"
    "(loop_step steady demo_cfg)\<^sup>*\<^sup>* s t" "(lp_futs t, stopped t) = ([], False)"
  proof (rule demo_reach [where P = steady and es = ?es and f = "\<lambda>t. (lp_futs t, stopped t)" and v = "([], False)"])
    show "case demo_start of None \<Rightarrow> False | Some s \<Rightarrow> events_ok steady demo_cfg ?es s" by code_simp
    show "map_option (\<lambda>t. (lp_futs t, stopped t)) (Option.bind demo_start (run_events demo_cfg ?es)) = Some ([], False)"
      by code_simp
  qed
  have "lc_max_inflight demo_cfg \<noteq> Some 0" by (simp add: demo_cfg_def)
  with run_end_reports_all [OF demo_distinct r(1,2) _ _ this] r show ?thesis by auto
qed

section \<open>Where the loop falls short\<close>

text \<open>
  C37. A ceiling that shrinks strands tests, and only those it has no room for. However the
  ceiling moved, when the loop ends with nothing cancelled and no fail-fast, the tests it never
  reported are those still parked, which the tally counts as not run, and the footprint of each
  exceeds the ceiling then in force. The concrete run below ends so, with a tally that shows no
  failure.
\<close>

theorem shrunk_ceiling_strands_oversized:
  assumes "distinct (map item_key is)" and "run_start sn cfg c is now wall = Some s"
    and "(loop_step any_event cfg)\<^sup>*\<^sup>* s t" and "lp_futs t = []" and "\<not> stopped t"
    and "lc_max_inflight cfg \<noteq> Some 0"
  shows "mset (reported (lp_log t)) + waiting_keys (lp_sched t) = mset (map item_key is) \<and>
     stats_not_run (lp_stats t) = size (waiting_keys (lp_sched t)) \<and>
     (\<forall>i \<in> set is. item_key i \<notin> set (reported (lp_log t)) \<longrightarrow>
        \<not> fits_within (wi_footprint i) (available (lp_sched t)))"
proof (intro conjI ballI impI)
  have inv: "run_inv cfg is t" and d: "drawn cfg (set is) t"
    using sourced.reach_invar [of cfg "is" s t] assms by (auto simp: started_def)
  then have b: "book (mset (map item_key is)) {#} [] t" and p: "pumped cfg t" by (simp_all add: run_inv_def)
  have i: "lp_inflight t = []" using b assms(4) by (simp add: book_def)
  have r: "lp_ready t = []"
    using p assms(5,6) i by (auto simp: pumped_def under_cap_def split: option.splits)
  show keys: "mset (reported (lp_log t)) + waiting_keys (lp_sched t) = mset (map item_key is)"
    using b i r assms(5) by (simp add: book_def live_keys_def)
  have "length (reported (lp_log t)) + size (waiting_keys (lp_sched t)) = length is"
    using arg_cong [OF keys, of size] by simp
  then show "stats_not_run (lp_stats t) = size (waiting_keys (lp_sched t))"
    using b by (simp add: stats_not_run_def book_def)
  fix j assume j: "j \<in> set is" and "item_key j \<notin> set (reported (lp_log t))"
  then have "item_key j \<in># waiting_keys (lp_sched t)"
    using keys by (metis imageI set_map set_mset_mset union_iff)
  then obtain q where q: "q \<in> set (queue (lp_sched t))" "req_ident (p_req q) = item_key j"
    by (auto simp: waiting_keys_def)
  with d obtain k where k: "k \<in> set is" "p_req q = to_request k (lc_sa cfg)" by (auto simp: drawn_def)
  with q(2) have "item_key k = item_key j" by (simp add: req_ident_def to_request_def item_key_def)
  with k(1) j assms(1) have "k = j" by (simp add: distinct_map inj_on_def)
  moreover have "held_slots (lp_sched t) = {}" "unbudgeted (lp_sched t)"
    using b i r assms(5) by (auto simp: book_def adm.tracked_def used_slots_def)
  ultimately show "\<not> fits_within (wi_footprint j) (available (lp_sched t))"
    using idle_oversized q(1) k(2) by (fastforce simp: to_request_def)
qed

text \<open>The second test is parked when the ceiling shrinks, and the first then passes.\<close>

theorem shrunk_ceiling_strands_oversized_witness:
  "\<exists>s t. run_start (\<lambda>_. '''') demo_cfg (r_new 8 8 8 8) demo_items 0 0 = Some s \<and>
     (loop_step any_event demo_cfg)\<^sup>*\<^sup>* s t \<and> lp_futs t = [] \<and> \<not> stopped t \<and> \<not> stats_any_failed (lp_stats t) \<and>
     reported (lp_log t) = [(''b'', ''x'')] \<and> waiting_keys (lp_sched t) = {#(''b'', ''y'')#} \<and>
     stats_not_run (lp_stats t) = 1 \<and> \<not> fits_within (r_new 5 1 0 0) (available (lp_sched t))"
proof -
  let ?es = "[(at_time 1, NewCeiling (r_new 4 4 4 4)), (at_time 2, Done 0 (demo_outcome Pass))]"
  let ?f = "\<lambda>t. (lp_futs t, stopped t, stats_any_failed (lp_stats t), reported (lp_log t))"
  obtain s t where r: "run_start (\<lambda>_. '''') demo_cfg (r_new 8 8 8 8) demo_items 0 0 = Some s"
    "(loop_step any_event demo_cfg)\<^sup>*\<^sup>* s t" "?f t = ([], False, False, [(''b'', ''x'')])"
  proof (rule demo_reach [where P = any_event and es = ?es and f = ?f and v = "([], False, False, [(''b'', ''x'')])"])
    show "case demo_start of None \<Rightarrow> False | Some s \<Rightarrow> events_ok any_event demo_cfg ?es s" by code_simp
    show "map_option ?f (Option.bind demo_start (run_events demo_cfg ?es)) = Some ([], False, False, [(''b'', ''x'')])"
      by code_simp
  qed
  have "lc_max_inflight demo_cfg \<noteq> Some 0" by (simp add: demo_cfg_def)
  with shrunk_ceiling_strands_oversized [OF demo_distinct r(1,2)] r(3) have
    w: "mset (reported (lp_log t)) + waiting_keys (lp_sched t) = mset (map item_key demo_items)"
      "stats_not_run (lp_stats t) = size (waiting_keys (lp_sched t))"
      "\<forall>i \<in> set demo_items. item_key i \<notin> set (reported (lp_log t)) \<longrightarrow>
        \<not> fits_within (wi_footprint i) (available (lp_sched t))"
    by simp_all
  from w(1) r(3) have "waiting_keys (lp_sched t) = {#(''b'', ''y'')#}"
    by (simp add: demo_items_def demo_item_def item_key_def)
  moreover from w(3) r(3) have "\<not> fits_within (r_new 5 1 0 0) (available (lp_sched t))"
    by (simp add: demo_items_def demo_item_def item_key_def)
  ultimately show ?thesis using r w(2) by auto
qed

text \<open>
  A rejected retry hides the failure: the ceiling shrinks below the footprint of a running
  test with a retry left, the attempt fails, and the scheduler rejects the retry. The test is
  reported as skipped, a verdict for tests that never ran, and the tally shows no failure.
\<close>

theorem rejected_retry_hides_failure:
  "map_option (\<lambda>t. (drop 2 (lp_log t), stats_any_failed (lp_stats t)))
     (run_loop (\<lambda>_. '''') demo_cfg (r_new 8 8 8 8) [demo_item ''x'' 1] 0 0
        [(at_time 1, NewCeiling (r_new 4 4 4 4)), (at_time 2, Done 0 (demo_outcome (Fail 1)))] 9) =
   Some ([TestRetrying ''b'' ''x'' 2 0 (Fail 1) 4, TestSkipped ''b'' ''x'' SkipExceedsClusterCapacity,
     RunFinished \<lparr>st_passed = 0, st_failed = 0, st_terminated = 0, st_skipped = 1, st_total = 1\<rparr> 9], False)"
  by code_simp

text \<open>Every tick past the threshold reports the same attempt as slow again.\<close>

lemma slow_reported_every_tick:
  "map_option (\<lambda>t. drop 2 (lp_log t)) (Option.bind demo_start (run_events demo_cfg [(at_time 4, Tick), (at_time 5, Tick)])) =
   Some [TestSlow ''b'' ''x'' 4 False 1, TestSlow ''b'' ''x'' 5 False 1]"
  by code_simp

end
