(* ===== verification/Naming.thy ===== *)
theory Naming
  imports Qos_Beacon
begin

text \<open>
  Names and printed figures: \<open>src/src/naming.rs\<close> (slugs, namespaces, run coordinates, profile
  tenants, TTL values), \<open>src/src/fmt.rs\<close> (ages, spans, grouped counts) and the names, selectors
  and status of detached syncs from \<open>src/src/sync/detached.rs\<close>. The environment is a map, a
  random suffix is an argument; one element of a string is one character.
\<close>

section \<open>Slugs\<close>

definition is_upper :: "char \<Rightarrow> bool" where
  "is_upper c = (let n = of_char c :: nat in 65 \<le> n \<and> n \<le> 90)"

definition is_lower_digit :: "char \<Rightarrow> bool" where
  "is_lower_digit c = (let n = of_char c :: nat in (97 \<le> n \<and> n \<le> 122) \<or> (48 \<le> n \<and> n \<le> 57))"

definition is_alnum :: "char \<Rightarrow> bool" where
  "is_alnum c \<longleftrightarrow> is_upper c \<or> is_lower_digit c"

definition to_lower :: "char \<Rightarrow> char" where
  "to_lower c = (if is_upper c then char_of ((of_char c :: nat) + 32) else c)"

definition dash :: char where "dash = CHR ''-''"

fun slug_loop :: "nat \<Rightarrow> string \<Rightarrow> bool \<Rightarrow> string \<Rightarrow> string" where
  "slug_loop cap out pending [] = out"
| "slug_loop cap out pending (c # cs) =
     (if \<not> is_alnum c then slug_loop cap out True cs
      else let needed = (if pending \<and> out \<noteq> [] then 2 else 1) in
           if length out + needed > cap then out
           else slug_loop cap (out @ (if needed = 2 then [dash] else []) @ [to_lower c]) False cs)"

definition slug :: "string \<Rightarrow> nat \<Rightarrow> string" where
  "slug s cap = (let out = slug_loop cap [] False s in if out = [] then ''x'' else out)"

definition DNS_LABEL_MAX :: nat where "DNS_LABEL_MAX = 63"

text \<open>A DNS-1123 label: lower case, digits and inner dashes.\<close>

definition dns_label :: "string \<Rightarrow> bool" where
  "dns_label s \<longleftrightarrow> s \<noteq> [] \<and> (\<forall>c \<in> set s. is_lower_digit c \<or> c = dash) \<and> hd s \<noteq> dash \<and> last s \<noteq> dash"

lemma to_lower_lower: "is_alnum c \<Longrightarrow> is_lower_digit (to_lower c)"
  by (auto simp: is_alnum_def to_lower_def is_upper_def is_lower_digit_def Let_def)

lemma lower_not_dash: "is_lower_digit c \<Longrightarrow> c \<noteq> dash"
  by (auto simp: is_lower_digit_def dash_def)

lemma slug_loop_label:
  "out = [] \<or> dns_label out \<Longrightarrow> length out \<le> cap \<Longrightarrow>
   (slug_loop cap out pending s = [] \<or> dns_label (slug_loop cap out pending s)) \<and>
   length (slug_loop cap out pending s) \<le> cap"
proof (induction cap out pending s rule: slug_loop.induct)
  case (2 cap out pending c cs)
  have l: "is_alnum c \<Longrightarrow> is_lower_digit (to_lower c) \<and> to_lower c \<noteq> dash"
    using to_lower_lower lower_not_dash by blast
  show ?case
  proof (cases "is_alnum c")
    case True
    let ?o = "out @ (if pending \<and> out \<noteq> [] then [dash] else []) @ [to_lower c]"
    have "dns_label ?o" using 2(3) l [OF True] by (auto simp: dns_label_def hd_append)
    then show ?thesis using 2(2-4) True by (auto simp: Let_def)
  qed (use 2 in simp)
qed simp

text \<open>
  C33. A slug is a valid label within its cap: for any input and any cap of at least one byte
  it is non-empty, lower case, never starts or ends with a dash and never exceeds the cap.
\<close>

theorem slug_is_bounded_label:
  assumes "1 \<le> cap" shows "dns_label (slug s cap) \<and> length (slug s cap) \<le> cap"
proof -
  have "dns_label ''x''" by code_simp
  then show ?thesis using slug_loop_label [of "[]" cap False s] assms by (auto simp: slug_def Let_def)
qed

theorem slug_is_bounded_label_witness:
  "slug ''::Foo__Bar::'' 6 = ''foo-ba'' \<and> dns_label (slug ''::Foo__Bar::'' 6) \<and> length (slug ''::Foo__Bar::'' 6) \<le> 6"
proof -
  have "slug ''::Foo__Bar::'' 6 = ''foo-ba''" by code_simp
  with slug_is_bounded_label [of 6 "''::Foo__Bar::''"] show ?thesis by simp
qed

section \<open>Run and namespace names\<close>

definition RUN_ID_ENV :: string where "RUN_ID_ENV = ''ZTEST_RUN_ID''"
definition TEST_NAMESPACE_ENV :: string where "TEST_NAMESPACE_ENV = ''ZTEST_TEST_NAMESPACE''"
definition RUN_NAMESPACE :: string where "RUN_NAMESPACE = ''ztest''"
definition BUILD_NAMESPACE :: string where "BUILD_NAMESPACE = ''ztest-build''"
definition SYNC_NAMESPACE :: string where "SYNC_NAMESPACE = ''ztest-sync''"
definition OBS_NAMESPACE :: string where "OBS_NAMESPACE = ''ztest-obs''"

definition hex_digit :: "nat \<Rightarrow> char" where
  "hex_digit d = (if d < 10 then char_of (48 + d) else char_of (87 + d))"

definition test_suffix :: "u32 \<Rightarrow> string" where
  "test_suffix v = map (\<lambda>i. hex_digit (unat v div 16 ^ (7 - i) mod 16)) [0..<8]"

definition current_user :: "str_map \<Rightarrow> string" where
  "current_user env = slug (or_default (env ''USER'') ''anon'') DNS_LABEL_MAX"

record run_coords =
  rc_run_id :: string
  rc_user :: string

definition coords_mint :: "str_map \<Rightarrow> u32 \<Rightarrow> run_coords" where
  "coords_mint env v = (let user = current_user env in
     \<lparr>rc_run_id = user @ ''-'' @ test_suffix v, rc_user = user\<rparr>)"

datatype naming_error = NotUnderZtest string

definition coords_from_env :: "str_map \<Rightarrow> string \<Rightarrow> naming_error + run_coords" where
  "coords_from_env env test_name = (case env RUN_ID_ENV of
     Some r \<Rightarrow> if r \<noteq> [] then Inr \<lparr>rc_run_id = r, rc_user = current_user env\<rparr> else Inl (NotUnderZtest test_name)
   | None \<Rightarrow> Inl (NotUnderZtest test_name))"

record sentinel =
  sn_namespace :: string
  sn_coords :: run_coords

definition sentinel_from_env :: "str_map \<Rightarrow> string \<Rightarrow> naming_error + sentinel" where
  "sentinel_from_env env test_name = (case coords_from_env env test_name of
     Inl e \<Rightarrow> Inl e
   | Inr c \<Rightarrow> (case env TEST_NAMESPACE_ENV of
       Some ns \<Rightarrow> if ns \<noteq> [] then Inr \<lparr>sn_namespace = ns, sn_coords = c\<rparr> else Inl (NotUnderZtest test_name)
     | None \<Rightarrow> Inl (NotUnderZtest test_name)))"

definition namespace_for :: "string \<Rightarrow> string \<Rightarrow> string \<Rightarrow> string" where
  "namespace_for package test sfx = ''ztest-'' @ slug package 16 @ ''-'' @ slug test 24 @ ''-'' @ sfx"

definition TENANT_PREFIX :: string where "TENANT_PREFIX = ''ztest''"
definition TENANT_MAX :: nat where "TENANT_MAX = 150"

definition tenant_part :: "string \<Rightarrow> string" where
  "tenant_part s = map (\<lambda>c. if is_alnum c \<or> c = dash \<or> c = CHR ''_'' then c else CHR ''_'') s"

definition profile_tenant :: "string \<Rightarrow> string \<Rightarrow> string" where
  "profile_tenant user sync_id =
     take TENANT_MAX (TENANT_PREFIX @ ''.'' @ tenant_part user @ ''.'' @ tenant_part sync_id)"

definition ttl_value :: "duration \<Rightarrow> string" where
  "ttl_value ttl = (let s = ttl div 1000000000 in
     if s mod 3600 = 0 \<and> s > 0 then show_nat (s div 3600) @ ''h'' else show_nat (max (s div 60) 1) @ ''m'')"

lemma hex_digit_lower: "d < 16 \<Longrightarrow> is_lower_digit (hex_digit d)"
  by (auto simp: hex_digit_def is_lower_digit_def Let_def)

lemma test_suffix_chars: "c \<in> set (test_suffix v) \<Longrightarrow> is_lower_digit c"
  by (auto simp: test_suffix_def intro!: hex_digit_lower)

text \<open>
  A minted test namespace is a valid name: a DNS-1123 label of at most 56 bytes, whatever
  the package and test are called.
\<close>

theorem namespace_is_label:
  "dns_label (namespace_for package test (test_suffix v)) \<and>
   length (namespace_for package test (test_suffix v)) \<le> 56"
proof -
  have p: "dns_label (slug package 16)" "length (slug package 16) \<le> 16"
    and t: "dns_label (slug test 24)" "length (slug test 24) \<le> 24"
    using slug_loop_label [of "[]" 16 False package] slug_loop_label [of "[]" 24 False test]
    by (auto simp: slug_def Let_def dns_label_def is_lower_digit_def dash_def)
  have len: "length (test_suffix v) = 8" by (simp add: test_suffix_def)
  then have ne: "test_suffix v \<noteq> []" by auto
  then have "last (test_suffix v) \<noteq> dash" using test_suffix_chars lower_not_dash last_in_set by blast
  moreover have "\<forall>c \<in> set ''ztest-''. is_lower_digit c \<or> c = dash" by code_simp
  ultimately have "dns_label (namespace_for package test (test_suffix v))"
    using p(1) t(1) test_suffix_chars ne by (auto simp: namespace_for_def dns_label_def dash_def)
  then show ?thesis using p t len by (simp add: namespace_for_def)
qed

lemma tenant_part_id: "\<forall>c \<in> set s. is_alnum c \<or> c = dash \<or> c = CHR ''_'' \<Longrightarrow> tenant_part s = s"
  by (induction s) (auto simp: tenant_part_def)

lemma first_dot_unique:
  assumes "x @ d # a = y @ d # b" and "d \<notin> set x" and "d \<notin> set y"
  shows "x = y \<and> a = b"
  using assms
proof (induction x arbitrary: y)
  case Nil
  then show ?case by (cases y) auto
next
  case (Cons c x)
  then show ?case by (cases y) auto
qed

definition tenant_safe :: "string \<Rightarrow> bool" where
  "tenant_safe s \<longleftrightarrow> (\<forall>c \<in> set s. is_alnum c \<or> c = dash \<or> c = CHR ''_'')"

text \<open>
  Profile tenants do not collide: two (user, id) pairs over letters, digits, dashes and
  underscores that stay within the cap share a tenant only if they are the same pair.
\<close>

theorem tenants_distinct:
  assumes "tenant_safe u" "tenant_safe i" "tenant_safe u'" "tenant_safe i'"
    and "length u + length i \<le> 143" "length u' + length i' \<le> 143"
    and "profile_tenant u i = profile_tenant u' i'"
  shows "u = u' \<and> i = i'"
proof -
  have full: "profile_tenant v j = TENANT_PREFIX @ ''.'' @ v @ CHR ''.'' # j"
    if "tenant_safe v" "tenant_safe j" "length v + length j \<le> 143" for v j
    using that tenant_part_id by (simp add: profile_tenant_def tenant_safe_def TENANT_MAX_def TENANT_PREFIX_def)
  have nd: "CHR ''.'' \<notin> set v" if "tenant_safe v" for v
    using that by (auto simp: tenant_safe_def is_alnum_def is_upper_def is_lower_digit_def dash_def)
  have "u @ CHR ''.'' # i = u' @ CHR ''.'' # i'" using assms full by (simp add: TENANT_PREFIX_def)
  then show ?thesis by (rule first_dot_unique) (use nd assms in auto)
qed

theorem tenants_distinct_witness:
  "tenant_safe ''eli-b'' \<and> profile_tenant ''eli-b'' ''zingod-a52f'' = ''ztest.eli-b.zingod-a52f'' \<and>
   profile_tenant ''eli-b'' ''zingod-a52f'' \<noteq> profile_tenant ''eli'' ''b-zingod-a52f''"
proof -
  have s: "tenant_safe ''eli-b''" "tenant_safe ''zingod-a52f''" "tenant_safe ''eli''" "tenant_safe ''b-zingod-a52f''"
    "profile_tenant ''eli-b'' ''zingod-a52f'' = ''ztest.eli-b.zingod-a52f''" by code_simp+
  have "profile_tenant ''eli-b'' ''zingod-a52f'' \<noteq> profile_tenant ''eli'' ''b-zingod-a52f''"
    using tenants_distinct [OF s(1-4)] by auto
  with s show ?thesis by simp
qed

section \<open>Printed durations and counts\<close>

definition pad2 :: "nat \<Rightarrow> string" where
  "pad2 n = (if n < 10 then ''0'' @ show_nat n else show_nat n)"

definition as_secs :: "duration \<Rightarrow> nat" where
  "as_secs d = d div 1000000000"

definition format_elapsed :: "duration \<Rightarrow> string" where
  "format_elapsed d = (let s = as_secs d in
     if s < 60 then show_nat s @ ''s'' else show_nat (s div 60) @ ''m'' @ pad2 (s mod 60) @ ''s'')"

definition format_age :: "duration \<Rightarrow> string" where
  "format_age d = (let s = as_secs d in
     if s < 60 then show_nat s @ ''s''
     else if s < 3600 then show_nat (s div 60) @ ''m'' @ pad2 (s mod 60) @ ''s''
     else show_nat (s div 3600) @ ''h'' @ pad2 (s mod 3600 div 60) @ ''m'')"

definition format_span :: "duration \<Rightarrow> string" where
  "format_span d = (let s = as_secs d in
     if s < 60 then show_nat s @ ''s''
     else if s < 3600 then show_nat (s div 60) @ ''m''
     else if s mod 3600 = 0 then show_nat (s div 3600) @ ''h''
     else show_nat (s div 3600) @ ''h'' @ pad2 (s mod 3600 div 60) @ ''m'')"

definition thousands :: "u64 \<Rightarrow> string" where
  "thousands n = (let ds = show_u64 n in
     concat (map (\<lambda>(i, c). (if i > 0 \<and> (length ds - i) mod 3 = 0 then '','' else []) @ [c]) (enumerate 0 ds)))"

text \<open>\<open>usize::clamp\<close> panics on an empty range.\<close>

definition column_width :: "string list \<Rightarrow> nat \<Rightarrow> nat \<Rightarrow> nat option" where
  "column_width names lo hi = (if lo \<le> hi
     then Some (max lo (min hi (foldr (\<lambda>n w. max (length n) w) names 0))) else None)"

lemma filter_grouped:
  assumes "\<forall>c \<in> set cs. c \<noteq> CHR '',''"
  shows "filter (\<lambda>c. c \<noteq> CHR '','') (concat (map (\<lambda>(i, c). (if P i then '','' else []) @ [c]) (enumerate k cs))) = cs"
  using assms by (induction cs arbitrary: k) auto

text \<open>Dropping the separators reads the count back.\<close>

lemma thousands_roundtrip:
  "parse_u64 (filter (\<lambda>c. c \<noteq> CHR '','') (thousands n)) = Some n"
proof -
  have "c \<noteq> CHR '',''" if "c \<in> set (show_u64 n)" for c
  proof -
    from that obtain d where "d < 10" "c = digit_char d" unfolding show_u64_def using show_nat_digits by blast
    then have "(of_char c :: nat) = 48 + d" by simp
    then show ?thesis by auto
  qed
  then have "filter (\<lambda>c. c \<noteq> CHR '','') (thousands n) = show_u64 n"
    unfolding thousands_def Let_def by (intro filter_grouped) blast
  then show ?thesis by (simp add: parse_show_u64)
qed

section \<open>Detached syncs\<close>

definition KIND_LABEL_KEY :: string where "KIND_LABEL_KEY = ''ztest.io/kind''"
definition KIND_LABEL_VALUE :: string where "KIND_LABEL_VALUE = ''sync''"
definition SYNC_ID_KEY :: string where "SYNC_ID_KEY = ''ztest.io/sync-id''"

definition kind_selector :: string where
  "kind_selector = KIND_LABEL_KEY @ ''='' @ KIND_LABEL_VALUE"

definition sync_namespace_for :: "string \<Rightarrow> string" where
  "sync_namespace_for sync_id = ''ztest-sync-'' @ sync_id"

definition driver_pod_for :: "string \<Rightarrow> string" where
  "driver_pod_for sync_id = ''ztest-sync-'' @ sync_id"

definition profiler_config_name :: "string \<Rightarrow> string" where
  "profiler_config_name sync_id = driver_pod_for sync_id @ ''-profiler''"

definition report_cm_name :: "string \<Rightarrow> string" where
  "report_cm_name sync_id = ''ztest-sync-report-'' @ sync_id"

definition report_cm_namespace :: string where
  "report_cm_namespace = OBS_NAMESPACE"

text \<open>The answer of the driver-pod lookup: an error, no pod, or a pod with its phase.\<close>

definition driver_is_live :: "'e + string option option \<Rightarrow> bool" where
  "driver_is_live answer = (case answer of
     Inr (Some phase) \<Rightarrow> \<not> (phase = Some ''Succeeded'' \<or> phase = Some ''Failed'')
   | _ \<Rightarrow> False)"

datatype sync_verdict = VPassed | VFailed | VCancelled | VTimedOut | VErrored

definition verdict_is_pass :: "sync_verdict \<Rightarrow> bool" where
  "verdict_is_pass v \<longleftrightarrow> v = VPassed"

definition show_verdict :: "sync_verdict \<Rightarrow> string" where
  "show_verdict v = (case v of VPassed \<Rightarrow> ''Passed'' | VFailed \<Rightarrow> ''Failed'' | VCancelled \<Rightarrow> ''Cancelled''
     | VTimedOut \<Rightarrow> ''TimedOut'' | VErrored \<Rightarrow> ''Errored'')"

datatype sync_status = SPending | SRunning | SFinished sync_verdict | SUnresolved

text \<open>The mirror is read for its verdict only.\<close>

definition status_observe :: "string option \<Rightarrow> sync_verdict option \<Rightarrow> sync_status" where
  "status_observe phase mirror = (case mirror of
     Some v \<Rightarrow> SFinished v
   | None \<Rightarrow> if phase = Some ''Pending'' then SPending
             else if phase = Some ''Running'' then SRunning else SUnresolved)"

definition status_is_live :: "sync_status \<Rightarrow> bool" where
  "status_is_live s \<longleftrightarrow> s = SPending \<or> s = SRunning"

definition status_is_pass :: "sync_status \<Rightarrow> bool" where
  "status_is_pass s = (case s of SFinished v \<Rightarrow> verdict_is_pass v | _ \<Rightarrow> False)"

definition show_status :: "sync_status \<Rightarrow> string" where
  "show_status s = (case s of SFinished v \<Rightarrow> show_verdict v | SPending \<Rightarrow> ''Pending'' | SRunning \<Rightarrow> ''Running''
     | SUnresolved \<Rightarrow> ''Unresolved'')"

end
