(* ===== verification/Resource_Reclaim.thy ===== *)
theory Resource_Reclaim
  imports Qos_Ledger Naming "HOL-Library.List_Lexorder" "HOL-Library.Char_ord" "HOL-Library.Product_Lexorder"
    "HOL-Library.Multiset"
begin

text \<open>
  \<open>ztest cleanup\<close>, \<open>src/src/resource/reclaim.rs\<close>: discovery of what ztest owns on a cluster, the
  triage by liveness, and the pass that deletes. What the cluster answers is an argument: to a
  list by its label selector, to a delete by resource and name, with the clock readings the
  code takes. The calls of a pass that change anything are its log, in order.
\<close>

section \<open>Vocabulary\<close>

datatype scope = User string | AllUsers

datatype kind = KTestEnv | KSync | KRunPod | KSeedBinding | KReservation

fun kind_rank :: "kind \<Rightarrow> nat" where
  "kind_rank KTestEnv = 0"
| "kind_rank KSync = 1"
| "kind_rank KRunPod = 2"
| "kind_rank KSeedBinding = 3"
| "kind_rank KReservation = 4"

lemma kind_rank_inj: "kind_rank a = kind_rank b \<Longrightarrow> a = b"
  by (cases a; cases b) auto

text \<open>The derived order: deletion order.\<close>

instantiation kind :: linorder
begin

definition less_eq_kind :: "kind \<Rightarrow> kind \<Rightarrow> bool" where
  "less_eq_kind a b \<longleftrightarrow> kind_rank a \<le> kind_rank b"

definition less_kind :: "kind \<Rightarrow> kind \<Rightarrow> bool" where
  "less_kind a b \<longleftrightarrow> kind_rank a < kind_rank b"

instance
  by standard (auto simp: less_eq_kind_def less_kind_def intro: kind_rank_inj)

end

definition noun :: "kind \<Rightarrow> string" where
  "noun k = (case k of KTestEnv \<Rightarrow> ''test namespace'' | KSync \<Rightarrow> ''sync'' | KRunPod \<Rightarrow> ''run pod''
     | KSeedBinding \<Rightarrow> ''seed binding'' | KReservation \<Rightarrow> ''reservation'')"

datatype liveness = LFinished | LTerminating string | LLive string

definition is_live :: "liveness \<Rightarrow> bool" where
  "is_live l = (case l of LLive _ \<Rightarrow> True | _ \<Rightarrow> False)"

definition reason :: "liveness \<Rightarrow> string option" where
  "reason l = (case l of LFinished \<Rightarrow> None | LTerminating w \<Rightarrow> Some w | LLive w \<Rightarrow> Some w)"

record target =
  tg_kind :: kind
  tg_name :: string
  tg_namespace :: "string option"
  tg_id :: "string option"
  tg_owner :: "string option"
  tg_detail :: string
  tg_liveness :: liveness

definition tg_matches :: "target \<Rightarrow> string \<Rightarrow> bool" where
  "tg_matches t token \<longleftrightarrow> tg_name t = token \<or> tg_id t = Some token"

definition quoted :: "string \<Rightarrow> string \<Rightarrow> string" where
  "quoted key v = ''{'' @ key @ ''=\"'' @ v @ ''\"}''"

definition metric_selectors :: "target \<Rightarrow> string list" where
  "metric_selectors t = (case (tg_kind t, tg_id t) of
     (KSync, Some i) \<Rightarrow> [quoted ''namespace'' (tg_name t), quoted ''sync_id'' i, quoted ''pod'' (driver_pod_for i)]
   | _ \<Rightarrow> [])"

definition report_cm :: "target \<Rightarrow> string option" where
  "report_cm t = (case (tg_kind t, tg_id t) of (KSync, Some i) \<Rightarrow> Some (report_cm_name i) | _ \<Rightarrow> None)"

definition tg_profile_tenant :: "target \<Rightarrow> string option" where
  "tg_profile_tenant t = (if tg_kind t \<notin> {KSync, KTestEnv, KRunPod} then None
     else (case (tg_id t, tg_owner t) of (Some i, Some w) \<Rightarrow> Some (profile_tenant w i) | _ \<Rightarrow> None))"

record plan =
  pl_targets :: "target list"
  pl_errors :: "string list"

definition plan_error :: "string \<Rightarrow> plan \<Rightarrow> plan" where
  "plan_error e p = p\<lparr>pl_errors := pl_errors p @ [e]\<rparr>"

definition add_targets :: "target list \<Rightarrow> plan \<Rightarrow> plan" where
  "add_targets ts p = p\<lparr>pl_targets := pl_targets p @ ts\<rparr>"

definition restrict_to :: "string list \<Rightarrow> plan \<Rightarrow> plan" where
  "restrict_to tokens p = (if tokens = [] then p else
     p\<lparr>pl_errors := pl_errors p @ map (\<lambda>k. ''no reclaimable resource matches `'' @ k @ ''`'')
         (filter (\<lambda>k. \<not> list_ex (\<lambda>t. tg_matches t k) (pl_targets p)) tokens),
       pl_targets := filter (\<lambda>t. list_ex (tg_matches t) tokens) (pl_targets p)\<rparr>)"

record outcome =
  ou_deleted :: "target list"
  ou_terminating :: "target list"
  ou_skipped :: "target list"
  ou_errors :: "string list"
  ou_purged :: "string list"
  ou_retired :: "string list"
  ou_reports :: "string list"

definition outcome_new :: "string list \<Rightarrow> outcome" where
  "outcome_new es = \<lparr>ou_deleted = [], ou_terminating = [], ou_skipped = [], ou_errors = es, ou_purged = [],
     ou_retired = [], ou_reports = []\<rparr>"

section \<open>Cluster objects and errors\<close>

text \<open>A failed call, with how it prints; \<open>KubeApi\<close> is a status answer of the apiserver.\<close>

datatype kube_error = KubeApi nat string | KubeOther string

definition show_kube :: "kube_error \<Rightarrow> string" where
  "show_kube e = (case e of KubeApi _ s \<Rightarrow> s | KubeOther s \<Rightarrow> s)"

definition str_contains :: "string \<Rightarrow> string \<Rightarrow> bool" where
  "str_contains pat s \<longleftrightarrow> split_once pat s \<noteq> None"

definition is_not_found :: "kube_error \<Rightarrow> bool" where
  "is_not_found e = (case e of KubeApi code _ \<Rightarrow> code = 404
     | KubeOther s \<Rightarrow> str_contains ''not found'' s \<or> str_contains ''404'' s)"

record ns_condition =
  nc_type :: string
  nc_status :: string
  nc_message :: "string option"

record k8s_namespace =
  ns_meta :: object_meta
  ns_conditions :: "ns_condition list option"

definition label_of :: "object_meta \<Rightarrow> string \<Rightarrow> string option" where
  "label_of m key = Option.bind (m_labels m) (\<lambda>l. l key)"

definition name_any :: "object_meta \<Rightarrow> string" where
  "name_any m = or_default (m_name m) []"

definition finalizer_blocker :: "object_meta \<Rightarrow> string option" where
  "finalizer_blocker m = Option.bind (m_finalizers m) (\<lambda>fs.
     let names = map (\<lambda>f. last (split_on (CHR ''/'') f)) fs in
     if names = [] then None else Some (''finalizer: '' @ join '', '' names))"

fun find_map :: "('a \<Rightarrow> 'b option) \<Rightarrow> 'a list \<Rightarrow> 'b option" where
  "find_map f [] = None"
| "find_map f (x # xs) = (case f x of Some y \<Rightarrow> Some y | None \<Rightarrow> find_map f xs)"

definition ns_blocker :: "k8s_namespace \<Rightarrow> string option" where
  "ns_blocker ns = Option.bind (ns_conditions ns) (\<lambda>cs.
     find_map (\<lambda>want. Option.bind (find (\<lambda>c. nc_status c = ''True'' \<and> nc_type c = want) cs) nc_message)
       [''NamespaceFinalizersRemaining'', ''NamespaceContentRemaining''])"

text \<open>The separator dot, as its UTF-8 bytes between spaces.\<close>

definition mid_dot :: string where
  "mid_dot = [CHR '' '', CHR 0xC2, CHR 0xB7, CHR '' '']"

definition terminating_reason :: "duration option \<Rightarrow> string option \<Rightarrow> string" where
  "terminating_reason age blocker =
     (let head = (case age of Some a \<Rightarrow> ''terminating '' @ format_age a | None \<Rightarrow> ''delete accepted, draining'')
      in case blocker of Some why \<Rightarrow> head @ mid_dot @ why | None \<Rightarrow> head)"

definition terminating :: "instant \<Rightarrow> object_meta \<Rightarrow> string option \<Rightarrow> liveness option" where
  "terminating now m blocker = (case m_deletion m of
     None \<Rightarrow> None
   | Some since \<Rightarrow> Some (LTerminating (terminating_reason (Some (nat (now - since))) blocker)))"

section \<open>Discovery\<close>

text \<open>What the list calls answer, by selector, and the clock readings next to them.\<close>

record cluster_view =
  cv_leases :: "string \<Rightarrow> kube_error + k8s_lease list"
  cv_namespaces :: "string \<Rightarrow> kube_error + k8s_namespace list"
  cv_all_pods :: "string \<Rightarrow> kube_error + pod list"
  cv_pods :: "string \<Rightarrow> string \<Rightarrow> kube_error + pod list"
  cv_records :: "string \<Rightarrow> kube_error + object_meta list"
  cv_vscs :: "string \<Rightarrow> kube_error + object_meta list"
  cv_live_now :: instant
  cv_age_now :: instant
  cv_res_now :: instant

definition LABEL_ROLE :: string where "LABEL_ROLE = ''ztest.io/role''"
definition ROLE_TEST_ENV :: string where "ROLE_TEST_ENV = ''test-env''"

definition live_run_ids :: "cluster_view \<Rightarrow> plan \<Rightarrow> string list \<times> plan" where
  "live_run_ids v p = (case cv_leases v [] of
     Inr ls \<Rightarrow> (List.map_filter (\<lambda>l. label_of (le_meta l) LABEL_RUN_ID) (filter (\<lambda>l. \<not> is_expired l (cv_live_now v)) ls), p)
   | Inl e \<Rightarrow> ([], plan_error (''list reservations in '' @ META_NAMESPACE @ '': '' @ show_kube e) p))"

definition test_env_selector :: string where
  "test_env_selector = LABEL_ROLE @ ''='' @ ROLE_TEST_ENV @ '',!'' @ KIND_LABEL_KEY"

definition classify_test_env :: "string \<Rightarrow> string list \<Rightarrow> liveness" where
  "classify_test_env run_id live = (if list_ex (\<lambda>r. r = run_id) live
     then LLive (''run '' @ run_id @ '' in flight'') else LFinished)"

definition test_env_target :: "cluster_view \<Rightarrow> string list \<Rightarrow> k8s_namespace \<Rightarrow> target" where
  "test_env_target v live ns =
     (let m = ns_meta ns; run_id = or_default (label_of m LABEL_RUN_ID) ''?'' in
      \<lparr>tg_kind = KTestEnv, tg_name = name_any m, tg_namespace = None, tg_id = Some run_id,
       tg_owner = label_of m LABEL_USER, tg_detail = ''run-id '' @ run_id,
       tg_liveness = or_default (terminating (cv_age_now v) m (ns_blocker ns)) (classify_test_env run_id live)\<rparr>)"

definition discover_test_envs :: "cluster_view \<Rightarrow> scope \<Rightarrow> string list \<Rightarrow> plan \<Rightarrow> plan" where
  "discover_test_envs v sc live p =
     (let selector = (case sc of User u \<Rightarrow> LABEL_USER @ ''='' @ u @ '','' @ test_env_selector
                       | AllUsers \<Rightarrow> test_env_selector) in
      case cv_namespaces v selector of
        Inl e \<Rightarrow> plan_error (''list test namespaces: '' @ show_kube e) p
      | Inr nss \<Rightarrow> add_targets (map (test_env_target v live) nss) p)"

record sync_parts =
  sp_namespace :: "k8s_namespace option"
  sp_pod :: "pod option"
  sp_record :: "object_meta option"

definition no_parts :: sync_parts where
  "no_parts = \<lparr>sp_namespace = None, sp_pod = None, sp_record = None\<rparr>"

definition with_part :: "string \<Rightarrow> (sync_parts \<Rightarrow> sync_parts) \<Rightarrow> (string \<times> sync_parts) list \<Rightarrow> (string \<times> sync_parts) list" where
  "with_part k f h = AList.update k (f (or_default (map_of h k) no_parts)) h"

text \<open>\<open>phase\<close>: no answer to the pod list, no such pod (or no phase on it), or its phase.\<close>

definition classify_sync :: "string \<Rightarrow> string option option \<Rightarrow> liveness" where
  "classify_sync sync_id phase = (case phase of
     None \<Rightarrow> LLive ''driver pod phase unreadable; re-run once the cluster answers''
   | Some ph \<Rightarrow> (let status = status_observe ph None in
       if status_is_live status
       then LLive (show_status status @ ''; `ztest sync stop '' @ sync_id @ ''` checkpoints it first'')
       else LFinished))"

definition sync_key :: "object_meta \<Rightarrow> string" where
  "sync_key m = or_default (label_of m SYNC_ID_KEY) (name_any m)"

definition part_label :: "sync_parts \<Rightarrow> string \<Rightarrow> string option" where
  "part_label sp key = (case Option.bind (sp_namespace sp) (\<lambda>n. label_of (ns_meta n) key) of
     Some x \<Rightarrow> Some x
   | None \<Rightarrow> (case Option.bind (sp_pod sp) (\<lambda>q. label_of (pod_meta q) key) of
       Some x \<Rightarrow> Some x
     | None \<Rightarrow> Option.bind (sp_record sp) (\<lambda>r. label_of r key)))"

definition sync_target :: "instant \<Rightarrow> bool \<Rightarrow> sync_parts \<Rightarrow> target" where
  "sync_target now pods_read sp =
     (let anchor = map_option (\<lambda>n. name_any (ns_meta n)) (sp_namespace sp);
          sync_id = part_label sp SYNC_ID_KEY;
          phase = (if pods_read then Some (Option.bind (sp_pod sp) pod_phase) else None);
          i = or_default sync_id ''?'';
          shown = (case phase of Some (Some ph) \<Rightarrow> ph | Some None \<Rightarrow> ''no driver pod'' | None \<Rightarrow> ''phase unknown'')
      in \<lparr>tg_kind = KSync,
          tg_name = (case anchor of Some a \<Rightarrow> a
            | None \<Rightarrow> (case sp_pod sp of Some q \<Rightarrow> name_any (pod_meta q) | None \<Rightarrow> driver_pod_for i)),
          tg_namespace = None, tg_id = sync_id, tg_owner = part_label sp LABEL_USER,
          tg_detail = (case anchor of Some _ \<Rightarrow> i @ mid_dot @ shown | None \<Rightarrow> i @ mid_dot @ shown @ mid_dot @ ''no namespace''),
          tg_liveness = (case Option.bind (sp_namespace sp) (\<lambda>n. terminating now (ns_meta n) (ns_blocker n)) of
              Some l \<Rightarrow> l
            | None \<Rightarrow> (case Option.bind (sp_pod sp) (\<lambda>q. terminating now (pod_meta q) (finalizer_blocker (pod_meta q))) of
                Some l \<Rightarrow> l | None \<Rightarrow> classify_sync i phase))\<rparr>)"

definition sync_halves :: "k8s_namespace list \<Rightarrow> pod list \<Rightarrow> object_meta list \<Rightarrow> (string \<times> sync_parts) list" where
  "sync_halves nss pods records =
     (let h1 = fold (\<lambda>n. with_part (sync_key (ns_meta n)) (\<lambda>s. s\<lparr>sp_namespace := Some n\<rparr>)) nss [];
          h2 = fold (\<lambda>q. with_part (sync_key (pod_meta q)) (\<lambda>s. s\<lparr>sp_pod := Some q\<rparr>)) pods h1
      in fold (\<lambda>r h. case label_of r SYNC_ID_KEY of
            Some i \<Rightarrow> with_part i (\<lambda>s. s\<lparr>sp_record := Some r\<rparr>) h | None \<Rightarrow> h) records h2)"

definition sync_targets :: "instant \<Rightarrow> k8s_namespace list \<Rightarrow> pod list option \<Rightarrow> object_meta list \<Rightarrow> target list" where
  "sync_targets now nss pods records =
     map (\<lambda>(_, sp). sync_target now (pods \<noteq> None) sp) (sort_key fst (sync_halves nss (or_default pods []) records))"

definition discover_syncs :: "cluster_view \<Rightarrow> scope \<Rightarrow> plan \<Rightarrow> plan" where
  "discover_syncs v sc p =
     (let selector = (case sc of User u \<Rightarrow> KIND_LABEL_KEY @ ''='' @ KIND_LABEL_VALUE @ '','' @ LABEL_USER @ ''='' @ u
                       | AllUsers \<Rightarrow> KIND_LABEL_KEY @ ''='' @ KIND_LABEL_VALUE);
          (pods, p1) = (case cv_all_pods v selector of
             Inr ps \<Rightarrow> (Some ps, p)
           | Inl e \<Rightarrow> (None, plan_error (''list sync driver pods: '' @ show_kube e) p))
      in case cv_namespaces v selector of
           Inl e \<Rightarrow> plan_error (''list sync namespaces: '' @ show_kube e) p1
         | Inr nss \<Rightarrow> (case cv_records v selector of
             Inl e \<Rightarrow> plan_error (''list sync records: '' @ show_kube e) p1
           | Inr rs \<Rightarrow> add_targets (sync_targets (cv_age_now v) nss pods rs) p1))"

definition run_pod_target :: "cluster_view \<Rightarrow> string list \<Rightarrow> string \<Rightarrow> pod \<Rightarrow> target" where
  "run_pod_target v live ns q =
     (let m = pod_meta q; run_id = or_default (label_of m LABEL_RUN_ID) ''?'';
          phase = or_default (pod_phase q) ''Unknown'' in
      \<lparr>tg_kind = KRunPod, tg_name = name_any m, tg_namespace = Some ns, tg_id = Some run_id,
       tg_owner = label_of m LABEL_USER, tg_detail = ''run-id '' @ run_id @ mid_dot @ phase,
       tg_liveness = or_default (terminating (cv_age_now v) m (finalizer_blocker m))
         (if phase = ''Succeeded'' \<or> phase = ''Failed'' then LFinished else classify_test_env run_id live)\<rparr>)"

definition discover_run_pods :: "cluster_view \<Rightarrow> scope \<Rightarrow> string list \<Rightarrow> plan \<Rightarrow> plan" where
  "discover_run_pods v sc live p =
     (let selector = (case sc of User u \<Rightarrow> LABEL_USER @ ''='' @ u @ '',!'' @ KIND_LABEL_KEY
                       | AllUsers \<Rightarrow> LABEL_RUN_ID @ '',!'' @ KIND_LABEL_KEY)
      in fold (\<lambda>ns p. case cv_pods v ns selector of
            Inl e \<Rightarrow> plan_error (''list pods in '' @ ns @ '': '' @ show_kube e) p
          | Inr ps \<Rightarrow> add_targets (map (run_pod_target v live ns) ps) p) [RUN_NAMESPACE, BUILD_NAMESPACE] p)"

definition owned_selector :: "scope \<Rightarrow> string" where
  "owned_selector sc = (case sc of User u \<Rightarrow> LABEL_USER @ ''='' @ u | AllUsers \<Rightarrow> LABEL_RUN_ID)"

definition seed_binding_target :: "cluster_view \<Rightarrow> string list \<Rightarrow> object_meta \<Rightarrow> target" where
  "seed_binding_target v live m =
     (let run_id = or_default (label_of m LABEL_RUN_ID) ''?'' in
      \<lparr>tg_kind = KSeedBinding, tg_name = name_any m, tg_namespace = None, tg_id = Some run_id,
       tg_owner = label_of m LABEL_USER, tg_detail = ''run-id '' @ run_id,
       tg_liveness = or_default (terminating (cv_age_now v) m (finalizer_blocker m)) (classify_test_env run_id live)\<rparr>)"

definition discover_seed_bindings :: "cluster_view \<Rightarrow> scope \<Rightarrow> string list \<Rightarrow> plan \<Rightarrow> plan" where
  "discover_seed_bindings v sc live p = (case cv_vscs v (owned_selector sc) of
     Inr ms \<Rightarrow> add_targets (map (seed_binding_target v live) ms) p
   | Inl e \<Rightarrow> if is_not_found e then p else plan_error (''list seed bindings: '' @ show_kube e) p)"

definition reservation_target :: "cluster_view \<Rightarrow> k8s_lease \<Rightarrow> target" where
  "reservation_target v l =
     (let m = le_meta l; expired = is_expired l (cv_res_now v) in
      \<lparr>tg_kind = KReservation, tg_name = name_any m, tg_namespace = Some META_NAMESPACE, tg_id = Some (name_any m),
       tg_owner = label_of m LABEL_USER, tg_detail = (if expired then ''expired'' else ''renewing''),
       tg_liveness = or_default (terminating (cv_age_now v) m (finalizer_blocker m))
         (if expired then LFinished else LLive ''reservation still being renewed'')\<rparr>)"

definition discover_reservations :: "cluster_view \<Rightarrow> scope \<Rightarrow> plan \<Rightarrow> plan" where
  "discover_reservations v sc p = (case cv_leases v (owned_selector sc) of
     Inr ls \<Rightarrow> add_targets (map (reservation_target v) ls) p
   | Inl e \<Rightarrow> if is_not_found e then p else plan_error (''list reservations: '' @ show_kube e) p)"

definition discover :: "cluster_view \<Rightarrow> scope \<Rightarrow> plan" where
  "discover v sc =
     (let (live, p0) = live_run_ids v \<lparr>pl_targets = [], pl_errors = []\<rparr>;
          p = discover_reservations v sc (discover_seed_bindings v sc live (discover_run_pods v sc live
                (discover_syncs v sc (discover_test_envs v sc live p0))))
      in p\<lparr>pl_targets := sort_key (\<lambda>t. (tg_kind t, tg_name t)) (pl_targets p)\<rparr>)"

section \<open>The pass\<close>

text \<open>Calls that change the cluster or its stores.\<close>

datatype api_resource = RNamespace | RPod string | RVsc | RLease string

datatype reclaim_call =
    CallPurge "string list"
  | CallRetire "string list"
  | CallDeleteReport string
  | CallDelete api_resource string

text \<open>
  What those calls answer. A delete answers an error, or the object echoed back, or only a
  status (\<open>Inr None\<close>); the profile store is the trait's implementor.
\<close>

record reclaim_env =
  re_metrics_deployed :: bool
  re_purge :: "string list \<Rightarrow> string + unit"
  re_profiles_deployed :: bool
  re_schedule :: "string list \<Rightarrow> string + unit"
  re_report :: "string \<Rightarrow> kube_error + unit"
  re_delete :: "api_resource \<Rightarrow> string \<Rightarrow> kube_error + object_meta option"

datatype removal = Gone | RTerminating "string option"

fun removal_and :: "removal \<Rightarrow> removal \<Rightarrow> removal" where
  "removal_and Gone other = other"
| "removal_and (RTerminating None) (RTerminating (Some w)) = RTerminating (Some w)"
| "removal_and this _ = this"

definition removal_of :: "object_meta option \<Rightarrow> removal" where
  "removal_of returned = (case returned of
     Some m \<Rightarrow> if m_deletion m \<noteq> None then RTerminating (finalizer_blocker m) else Gone
   | None \<Rightarrow> Gone)"

definition delete_one :: "reclaim_env \<Rightarrow> api_resource \<Rightarrow> string \<Rightarrow> kube_error + removal" where
  "delete_one e r name = (case re_delete e r name of
     Inr returned \<Rightarrow> Inr (removal_of returned)
   | Inl err \<Rightarrow> if is_not_found err then Inr Gone else Inl err)"

definition driver_pod_of :: "target \<Rightarrow> string" where
  "driver_pod_of t = (case tg_id t of Some i \<Rightarrow> driver_pod_for i | None \<Rightarrow> tg_name t)"

text \<open>The delete calls of one target, in order, and what they amount to.\<close>

definition delete_calls :: "target \<Rightarrow> (api_resource \<times> string) list" where
  "delete_calls t = (case tg_kind t of
     KTestEnv \<Rightarrow> [(RNamespace, tg_name t)]
   | KSync \<Rightarrow> [(RNamespace, tg_name t), (RPod SYNC_NAMESPACE, driver_pod_of t)]
   | KRunPod \<Rightarrow> [(RPod (or_default (tg_namespace t) RUN_NAMESPACE), tg_name t)]
   | KSeedBinding \<Rightarrow> [(RVsc, tg_name t)]
   | KReservation \<Rightarrow> [(RLease META_NAMESPACE, tg_name t)])"

fun combine_removals :: "(kube_error + removal) list \<Rightarrow> kube_error + removal" where
  "combine_removals [] = Inr Gone"
| "combine_removals [r] = r"
| "combine_removals (Inl e # rs) = Inl e"
| "combine_removals (Inr r # rs) = (case combine_removals rs of Inl e \<Rightarrow> Inl e | Inr q \<Rightarrow> Inr (removal_and r q))"

definition delete_target :: "reclaim_env \<Rightarrow> target \<Rightarrow> kube_error + removal" where
  "delete_target e t = combine_removals (map (\<lambda>(r, n). delete_one e r n) (delete_calls t))"

fun triage :: "target list \<Rightarrow> bool \<Rightarrow> outcome \<Rightarrow> target list \<times> outcome" where
  "triage [] force ou = ([], ou)"
| "triage (t # ts) force ou = (case tg_liveness t of
     LTerminating _ \<Rightarrow> triage ts force (ou\<lparr>ou_terminating := ou_terminating ou @ [t]\<rparr>)
   | LLive _ \<Rightarrow> if \<not> force then triage ts force (ou\<lparr>ou_skipped := ou_skipped ou @ [t]\<rparr>)
                else (let (rs, ou') = triage ts force ou in (t # rs, ou'))
   | LFinished \<Rightarrow> (let (rs, ou') = triage ts force ou in (t # rs, ou')))"

record obs_record =
  or_selectors :: "string list"
  or_tenants :: "string list"
  or_reports :: "string list"

definition observability_of :: "target list \<Rightarrow> target list \<Rightarrow> obs_record" where
  "observability_of reclaimable term =
     (let addressed = reclaimable @ term in
      \<lparr>or_selectors = concat (map metric_selectors addressed),
       or_tenants = remdups_adj (sort (List.map_filter tg_profile_tenant addressed)),
       or_reports = List.map_filter report_cm addressed\<rparr>)"

definition purge_metrics ::
  "reclaim_env \<Rightarrow> string list \<Rightarrow> reclaim_call list \<times> outcome \<Rightarrow> reclaim_call list \<times> outcome" where
  "purge_metrics e sels = (\<lambda>(cs, ou). if sels = [] \<or> \<not> re_metrics_deployed e then (cs, ou)
     else (cs @ [CallPurge sels], case re_purge e sels of
        Inr _ \<Rightarrow> ou\<lparr>ou_purged := sels\<rparr>
      | Inl err \<Rightarrow> ou\<lparr>ou_errors := ou_errors ou @ [''purge metrics: '' @ err]\<rparr>))"

definition retire_profiles ::
  "reclaim_env \<Rightarrow> string list \<Rightarrow> reclaim_call list \<times> outcome \<Rightarrow> reclaim_call list \<times> outcome" where
  "retire_profiles e tenants = (\<lambda>(cs, ou). if tenants = [] \<or> \<not> re_profiles_deployed e then (cs, ou)
     else (cs @ [CallRetire tenants], case re_schedule e tenants of
        Inr _ \<Rightarrow> ou\<lparr>ou_retired := tenants\<rparr>
      | Inl err \<Rightarrow> ou\<lparr>ou_errors := ou_errors ou @ [''retire profiles: '' @ err]\<rparr>))"

definition is_404 :: "kube_error \<Rightarrow> bool" where
  "is_404 e = (case e of KubeApi c _ \<Rightarrow> c = 404 | _ \<Rightarrow> False)"

definition delete_report :: "reclaim_env \<Rightarrow> string \<Rightarrow> reclaim_call list \<times> outcome \<Rightarrow> reclaim_call list \<times> outcome" where
  "delete_report e name = (\<lambda>(cs, ou). (cs @ [CallDeleteReport name],
     case re_report e name of
       Inr _ \<Rightarrow> ou\<lparr>ou_reports := ou_reports ou @ [name]\<rparr>
     | Inl err \<Rightarrow> if is_404 err then ou\<lparr>ou_reports := ou_reports ou @ [name]\<rparr>
         else ou\<lparr>ou_errors := ou_errors ou @ [''delete report '' @ name @ '': '' @ show_kube err]\<rparr>))"

definition delete_reports :: "reclaim_env \<Rightarrow> string list \<Rightarrow> reclaim_call list \<times> outcome \<Rightarrow> reclaim_call list \<times> outcome" where
  "delete_reports e names s = fold (delete_report e) names s"

definition reap :: "reclaim_env \<Rightarrow> target \<Rightarrow> reclaim_call list \<times> outcome \<Rightarrow> reclaim_call list \<times> outcome" where
  "reap e t = (\<lambda>(cs, ou). (cs @ map (\<lambda>(r, n). CallDelete r n) (delete_calls t),
     case delete_target e t of
       Inr Gone \<Rightarrow> ou\<lparr>ou_deleted := ou_deleted ou @ [t]\<rparr>
     | Inr (RTerminating b) \<Rightarrow> ou\<lparr>ou_terminating := ou_terminating ou @
         [t\<lparr>tg_liveness := LTerminating (terminating_reason None b)\<rparr>]\<rparr>
     | Inl err \<Rightarrow> ou\<lparr>ou_errors := ou_errors ou @ [noun (tg_kind t) @ '' '' @ tg_name t @ '': '' @ show_kube err]\<rparr>))"

definition reclaim :: "reclaim_env \<Rightarrow> plan \<Rightarrow> bool \<Rightarrow> bool \<Rightarrow> reclaim_call list \<times> outcome" where
  "reclaim e p force dry_run =
     (let (reclaimable, ou) = triage (pl_targets p) force (outcome_new (pl_errors p));
          rec = observability_of reclaimable (ou_terminating ou)
      in if dry_run
         then ([], ou\<lparr>ou_purged := or_selectors rec, ou_retired := or_tenants rec, ou_reports := or_reports rec,
                      ou_deleted := reclaimable\<rparr>)
         else fold (reap e) reclaimable (delete_reports e (or_reports rec)
                (retire_profiles e (or_tenants rec) (purge_metrics e (or_selectors rec) ([], ou)))))"

end
