(* ===== verification/Resource_Reclaim_Props.thy ===== *)
theory Resource_Reclaim_Props
  imports Resource_Reclaim
begin

text \<open>
  Properties of \<open>ztest cleanup\<close> (\<open>src/src/resource/reclaim.rs\<close>): what a pass may touch, in which
  order, how every target is accounted for, and that a dry run names exactly what a pass does.
\<close>

section \<open>Triage and deletion in closed form\<close>

definition deletable :: "bool \<Rightarrow> target \<Rightarrow> bool" where
  "deletable force t = (case tg_liveness t of LFinished \<Rightarrow> True | LLive _ \<Rightarrow> force | LTerminating _ \<Rightarrow> False)"

definition draining :: "target \<Rightarrow> bool" where
  "draining t = (case tg_liveness t of LTerminating _ \<Rightarrow> True | _ \<Rightarrow> False)"

lemma triage_spec:
  "triage ts force ou = (filter (deletable force) ts,
     ou\<lparr>ou_terminating := ou_terminating ou @ filter draining ts,
        ou_skipped := ou_skipped ou @ filter (\<lambda>t. \<not> deletable force t \<and> \<not> draining t) ts\<rparr>)"
  by (induction ts force ou rule: triage.induct) (auto simp: deletable_def draining_def split: liveness.splits)

definition failed :: "reclaim_env \<Rightarrow> target \<Rightarrow> bool" where
  "failed e t = (case delete_target e t of Inl _ \<Rightarrow> True | Inr _ \<Rightarrow> False)"

definition gone :: "reclaim_env \<Rightarrow> target \<Rightarrow> bool" where
  "gone e t \<longleftrightarrow> delete_target e t = Inr Gone"

definition drained :: "reclaim_env \<Rightarrow> target \<Rightarrow> target" where
  "drained e t = (case delete_target e t of
     Inr (RTerminating b) \<Rightarrow> t\<lparr>tg_liveness := LTerminating (terminating_reason None b)\<rparr> | _ \<Rightarrow> t)"

definition target_calls :: "target \<Rightarrow> reclaim_call list" where
  "target_calls t = map (\<lambda>(r, n). CallDelete r n) (delete_calls t)"

lemma reap_facts:
  "fst (reap e t s) = fst s @ target_calls t"
  "ou_deleted (snd (reap e t s)) = ou_deleted (snd s) @ (if gone e t then [t] else [])"
  "ou_terminating (snd (reap e t s)) = ou_terminating (snd s) @ (if gone e t \<or> failed e t then [] else [drained e t])"
  "ou_skipped (snd (reap e t s)) = ou_skipped (snd s)"
  "length (ou_errors (snd (reap e t s))) = length (ou_errors (snd s)) + (if failed e t then 1 else 0)"
  by (auto simp: reap_def target_calls_def gone_def failed_def drained_def split: prod.splits sum.splits removal.splits)

lemma fold_reap_facts:
  "fst (fold (reap e) ts s) = fst s @ concat (map target_calls ts)"
  "ou_deleted (snd (fold (reap e) ts s)) = ou_deleted (snd s) @ filter (gone e) ts"
  "ou_terminating (snd (fold (reap e) ts s)) = ou_terminating (snd s) @
     map (drained e) (filter (\<lambda>t. \<not> gone e t \<and> \<not> failed e t) ts)"
  "ou_skipped (snd (fold (reap e) ts s)) = ou_skipped (snd s)"
  "length (ou_errors (snd (fold (reap e) ts s))) = length (ou_errors (snd s)) + length (filter (failed e) ts)"
  by (induction ts arbitrary: s) (simp_all add: reap_facts)

text \<open>The record's calls come before, and touch no target list.\<close>

definition is_delete :: "reclaim_call \<Rightarrow> bool" where
  "is_delete c = (case c of CallDelete _ _ \<Rightarrow> True | _ \<Rightarrow> False)"

definition deletes :: "reclaim_call list \<Rightarrow> (api_resource \<times> string) list" where
  "deletes cs = List.map_filter (\<lambda>c. case c of CallDelete r n \<Rightarrow> Some (r, n) | _ \<Rightarrow> None) cs"

lemma deletes_append [simp]: "deletes (xs @ ys) = deletes xs @ deletes ys"
  by (simp add: deletes_def List.map_filter_def)

lemma deletes_Nil [simp]: "deletes [] = []"
  by (simp add: deletes_def List.map_filter_def)

lemma deletes_target [simp]: "deletes (target_calls t) = delete_calls t"
  by (simp add: deletes_def target_calls_def List.map_filter_def comp_def split_def)

lemma deletes_concat [simp]: "deletes (concat (map target_calls ts)) = concat (map delete_calls ts)"
  by (induction ts) simp_all

lemma deletes_set: "CallDelete r n \<in> set cs \<longleftrightarrow> (r, n) \<in> set (deletes cs)"
  by (induction cs) (auto simp: deletes_def List.map_filter_def split: reclaim_call.splits)

text \<open>What an effect on the record leaves alone.\<close>

definition keeps :: "reclaim_call list \<times> outcome \<Rightarrow> reclaim_call list \<times> outcome \<Rightarrow> bool" where
  "keeps s t \<longleftrightarrow> deletes (fst t) = deletes (fst s) \<and> ou_deleted (snd t) = ou_deleted (snd s) \<and>
     ou_terminating (snd t) = ou_terminating (snd s) \<and> ou_skipped (snd t) = ou_skipped (snd s)"

lemma keeps_trans: "keeps s t \<Longrightarrow> keeps t u \<Longrightarrow> keeps s u"
  by (simp add: keeps_def)

lemma keeps_purge: "keeps s (purge_metrics e sels s)"
  by (cases s) (simp add: keeps_def purge_metrics_def deletes_def List.map_filter_def split: sum.split)

lemma keeps_retire: "keeps s (retire_profiles e ts s)"
  by (cases s) (simp add: keeps_def retire_profiles_def deletes_def List.map_filter_def split: sum.split)

lemma keeps_reports: "keeps s (delete_reports e names s)"
proof (induction names arbitrary: s)
  case (Cons n names)
  have "keeps s (delete_report e n s)"
    by (cases s) (simp add: keeps_def delete_report_def deletes_def List.map_filter_def split: sum.split)
  then show ?case using Cons [of "delete_report e n s"] by (auto simp: delete_reports_def intro: keeps_trans)
qed (simp add: delete_reports_def keeps_def)

lemma reclaim_cases:
  obtains (dry) "dry_run" "reclaim e p force dry_run = ([], snd (reclaim e p force dry_run))"
      "ou_deleted (snd (reclaim e p force dry_run)) = filter (deletable force) (pl_targets p)"
  | (pass) s where "\<not> dry_run" "reclaim e p force dry_run = fold (reap e) (filter (deletable force) (pl_targets p)) s"
      "deletes (fst s) = []" "ou_deleted (snd s) = []" "ou_terminating (snd s) = filter draining (pl_targets p)"
      "ou_skipped (snd s) = filter (\<lambda>t. \<not> deletable force t \<and> \<not> draining t) (pl_targets p)"
proof (cases dry_run)
  case True
  then show thesis by (intro dry) (simp_all add: reclaim_def triage_spec Let_def)
next
  case False
  let ?ts = "filter (deletable force) (pl_targets p)"
  let ?ou = "snd (triage (pl_targets p) force (outcome_new (pl_errors p)))"
  let ?rec = "observability_of ?ts (ou_terminating ?ou)"
  let ?s = "delete_reports e (or_reports ?rec)
    (retire_profiles e (or_tenants ?rec) (purge_metrics e (or_selectors ?rec) ([], ?ou)))"
  have "keeps ([], ?ou) ?s"
    by (rule keeps_trans [OF keeps_trans [OF keeps_purge keeps_retire] keeps_reports])
  then show thesis using False
    by (intro pass [of ?s]) (simp_all add: reclaim_def triage_spec Let_def keeps_def outcome_new_def deletes_def
        List.map_filter_def)
qed

section \<open>Where the targets come from\<close>

lemma add_targets_simps [simp]:
  "pl_targets (add_targets ts p) = pl_targets p @ ts" "pl_targets (plan_error x p) = pl_targets p"
  by (simp_all add: add_targets_def plan_error_def)

lemma restrict_targets: "t \<in> set (pl_targets (restrict_to tokens p)) \<Longrightarrow> t \<in> set (pl_targets p)"
  by (auto simp: restrict_to_def split: if_splits)

definition live_of :: "cluster_view \<Rightarrow> string list" where
  "live_of v = fst (live_run_ids v \<lparr>pl_targets = [], pl_errors = []\<rparr>)"

lemma live_run_ids_targets [simp]: "pl_targets (snd (live_run_ids v p)) = pl_targets p"
  by (simp add: live_run_ids_def split: sum.split)

lemma discover_syncs_origin:
  assumes "t \<in> set (pl_targets (discover_syncs v sc p))"
  obtains "t \<in> set (pl_targets p)"
  | sel nss pods rs where "t \<in> set (sync_targets (cv_age_now v) nss pods rs)"
      "pods = (case cv_all_pods v sel of Inr ps \<Rightarrow> Some ps | Inl _ \<Rightarrow> None)"
proof -
  define sel where "sel = (case sc of User u \<Rightarrow> KIND_LABEL_KEY @ ''='' @ KIND_LABEL_VALUE @ '','' @ LABEL_USER @ ''='' @ u
    | AllUsers \<Rightarrow> KIND_LABEL_KEY @ ''='' @ KIND_LABEL_VALUE)"
  have "t \<in> set (pl_targets p) \<or> (\<exists>nss rs. t \<in> set (sync_targets (cv_age_now v) nss
      (case cv_all_pods v sel of Inr ps \<Rightarrow> Some ps | Inl _ \<Rightarrow> None) rs))"
    using assms unfolding discover_syncs_def sel_def [symmetric] Let_def
    by (auto split: sum.splits)
  then show thesis using that by blast
qed

lemma discover_origin:
  assumes "t \<in> set (pl_targets (discover v sc))"
  obtains (env) ns nss sel where "t = test_env_target v (live_of v) ns" "cv_namespaces v sel = Inr nss" "ns \<in> set nss"
      "sel = (case sc of User u \<Rightarrow> LABEL_USER @ ''='' @ u @ '','' @ test_env_selector | AllUsers \<Rightarrow> test_env_selector)"
  | (sync) sel nss pods rs where "t \<in> set (sync_targets (cv_age_now v) nss pods rs)"
      "pods = (case cv_all_pods v sel of Inr ps \<Rightarrow> Some ps | Inl _ \<Rightarrow> None)"
  | (pod) ns q where "t = run_pod_target v (live_of v) ns q"
  | (seed) m where "t = seed_binding_target v (live_of v) m"
  | (res) l where "t = reservation_target v l"
proof -
  let ?p0 = "\<lparr>pl_targets = [], pl_errors = []\<rparr> :: plan"
  let ?p1 = "discover_test_envs v sc (live_of v) (snd (live_run_ids v ?p0))"
  let ?p2 = "discover_syncs v sc ?p1"
  let ?p3 = "discover_run_pods v sc (live_of v) ?p2"
  let ?p4 = "discover_seed_bindings v sc (live_of v) ?p3"
  have "t \<in> set (pl_targets (discover_reservations v sc ?p4))"
    using assms by (simp add: discover_def live_of_def split_def Let_def)
  then consider "t \<in> set (pl_targets ?p4)" | l where "t = reservation_target v l"
    by (auto simp: discover_reservations_def split: sum.splits if_splits)
  then show thesis
  proof cases
    case 1
    then consider "t \<in> set (pl_targets ?p3)" | m where "t = seed_binding_target v (live_of v) m"
      by (auto simp: discover_seed_bindings_def split: sum.splits if_splits)
    then show thesis
    proof cases
      case 1
      then consider "t \<in> set (pl_targets ?p2)" | ns q where "t = run_pod_target v (live_of v) ns q"
        by (auto simp: discover_run_pods_def Let_def split: sum.splits)
      then show thesis
      proof cases
        case 1
        then consider "t \<in> set (pl_targets ?p1)" | sel nss pods rs where
            "t \<in> set (sync_targets (cv_age_now v) nss pods rs)"
            "pods = (case cv_all_pods v sel of Inr ps \<Rightarrow> Some ps | Inl _ \<Rightarrow> None)"
          by (rule discover_syncs_origin)
        then show thesis
        proof cases
          case 1
          then show thesis
            by (auto simp: discover_test_envs_def Let_def split: sum.splits intro: env)
        qed (rule sync)
      qed (rule pod)
    qed (rule seed)
  qed (rule res)
qed

section \<open>What a pass may touch\<close>

lemma classify_live: "run_id \<in> set live \<Longrightarrow> classify_test_env run_id live \<noteq> LFinished"
  by (auto simp: classify_test_env_def list_ex_iff)

lemma run_liveness:
  "run_id \<in> set live \<Longrightarrow> or_default (terminating now m b) (classify_test_env run_id live) \<noteq> LFinished"
  using classify_live [of run_id live] by (auto simp: terminating_def or_default_def split: option.splits)

lemma live_of_mem:
  assumes "cv_leases v [] = Inr ls" and "l \<in> set ls" and "\<not> is_expired l (cv_live_now v)"
    and "label_of (le_meta l) LABEL_RUN_ID = Some r"
  shows "r \<in> set (live_of v)"
proof -
  have "l \<in> set (filter (\<lambda>l. \<not> is_expired l (cv_live_now v)) ls)" using assms(2,3) by simp
  then show ?thesis using assms(1,4) by (force simp: live_of_def live_run_ids_def List.map_filter_def)
qed

lemma run_target_liveness:
  assumes "t \<in> set (pl_targets (discover v sc))" and "tg_kind t \<in> {KTestEnv, KSeedBinding}"
    and "tg_id t = Some r" and "r \<in> set (live_of v)"
  shows "tg_liveness t \<noteq> LFinished"
  using assms(1)
proof (cases rule: discover_origin)
  case (env ns nss sel)
  then show ?thesis using assms(3,4)
    by (simp add: test_env_target_def Let_def) (blast dest: run_liveness)
next
  case (sync sel nss pods rs)
  then have "tg_kind t = KSync" by (auto simp: sync_targets_def sync_target_def Let_def)
  then show ?thesis using assms(2) by simp
next
  case (seed m)
  then show ?thesis using assms(3,4)
    by (simp add: seed_binding_target_def Let_def) (blast dest: run_liveness)
qed (use assms(2) in \<open>auto simp: run_pod_target_def reservation_target_def Let_def\<close>)

lemma deleted_deletable:
  "t \<in> set (ou_deleted (snd (reclaim e p force dry_run))) \<Longrightarrow> t \<in> set (pl_targets p) \<and> deletable force t"
  by (cases rule: reclaim_cases [of dry_run e p force]) (auto simp: fold_reap_facts)

text \<open>
  C13. A running run keeps its environments: when the reservation ledger is readable and shows
  an unexpired lease of a run, an unforced cleanup, real or dry, over any scope and selection,
  reports no test namespace and no seed binding of that run as deleted.
\<close>

theorem cleanup_spares_running_runs:
  assumes "cv_leases v [] = Inr ls" and "l \<in> set ls" and "\<not> is_expired l (cv_live_now v)"
    and "label_of (le_meta l) LABEL_RUN_ID = Some r"
    and "t \<in> set (ou_deleted (snd (reclaim e (restrict_to tokens (discover v sc)) False dry_run)))"
    and "tg_kind t \<in> {KTestEnv, KSeedBinding}"
  shows "tg_id t \<noteq> Some r"
proof
  assume "tg_id t = Some r"
  have "t \<in> set (pl_targets (discover v sc))" and d: "deletable False t"
    using deleted_deletable [OF assms(5)] restrict_targets by auto
  then have "tg_liveness t \<noteq> LFinished"
    using run_target_liveness assms(6) \<open>tg_id t = Some r\<close> live_of_mem [OF assms(1-4)] by blast
  then show False using d by (simp add: deletable_def split: liveness.splits)
qed

text \<open>
  An unforced pass deletes finished objects only: every delete call it makes belongs to a
  target of the plan that was classified as finished, never to a live or a terminating one.
\<close>

theorem unforced_deletes_finished_only:
  assumes "CallDelete r n \<in> set (fst (reclaim e p False dry_run))"
  shows "\<exists>t. t \<in> set (pl_targets p) \<and> tg_liveness t = LFinished \<and> (r, n) \<in> set (delete_calls t)"
proof (cases rule: reclaim_cases [of dry_run e p False])
  case dry
  then have "fst (reclaim e p False dry_run) = []" by (metis fst_conv)
  with assms show ?thesis by simp
next
  case (pass s)
  have "(r, n) \<in> set (concat (map delete_calls (filter (deletable False) (pl_targets p))))"
    using assms pass(2,3) by (simp add: deletes_set fold_reap_facts)
  then obtain t where t: "t \<in> set (pl_targets p)" "deletable False t" "(r, n) \<in> set (delete_calls t)" by auto
  from t(2) have "tg_liveness t = LFinished" by (simp add: deletable_def split: liveness.splits)
  with t show ?thesis by blast
qed

text \<open>
  A dry run is exact: it makes no call, and the targets it names as deleted are, in order,
  those whose delete calls a real pass on the same plan makes.
\<close>

theorem dry_run_exact:
  "fst (reclaim e p force True) = [] \<and>
   deletes (fst (reclaim e p force False)) = concat (map delete_calls (ou_deleted (snd (reclaim e p force True))))"
proof -
  have d: "fst (reclaim e p force True) = []"
    "ou_deleted (snd (reclaim e p force True)) = filter (deletable force) (pl_targets p)"
    by (simp_all add: reclaim_def triage_spec Let_def)
  show ?thesis
  proof (cases rule: reclaim_cases [of False e p force])
    case (pass s)
    with d show ?thesis by (simp add: fold_reap_facts)
  qed simp
qed

definition tg_ident :: "target \<Rightarrow> kind \<times> string \<times> string option" where
  "tg_ident t = (tg_kind t, tg_name t, tg_id t)"

lemma tg_ident_drained [simp]: "tg_ident (drained e t) = tg_ident t"
  by (simp add: drained_def tg_ident_def split: sum.split removal.split)

lemma fates_partition:
  "mset (map tg_ident (filter (\<lambda>t. deletable force t \<and> gone e t) xs)) + mset (map tg_ident (filter draining xs)) +
   mset (map tg_ident (filter (\<lambda>t. deletable force t \<and> \<not> gone e t \<and> \<not> failed e t) xs)) +
   mset (map tg_ident (filter (\<lambda>t. \<not> deletable force t \<and> \<not> draining t) xs)) +
   mset (map tg_ident (filter (\<lambda>t. deletable force t \<and> failed e t) xs)) = mset (map tg_ident xs)"
proof (induction xs)
  case (Cons t xs)
  have "\<not> (failed e t \<and> gone e t)" "\<not> (draining t \<and> deletable force t)"
    by (auto simp: gone_def failed_def draining_def deletable_def split: liveness.splits)
  with Cons.IH [symmetric] show ?case by auto
qed simp

text \<open>
  A pass accounts for every target: the targets reported deleted, terminating and skipped,
  with those whose delete failed (each adding an error), are exactly the plan's targets.
\<close>

theorem pass_accounts_for_targets:
  assumes "reclaim e p force False = (cs, ou)"
  shows "mset (map tg_ident (ou_deleted ou @ ou_terminating ou @ ou_skipped ou)) +
    mset (map tg_ident (filter (\<lambda>t. deletable force t \<and> failed e t) (pl_targets p))) = mset (map tg_ident (pl_targets p))"
proof (cases rule: reclaim_cases [of False e p force])
  case (pass s)
  let ?d = "filter (deletable force) (pl_targets p)"
  have "ou_deleted ou = filter (gone e) ?d"
    "ou_terminating ou = filter draining (pl_targets p) @ map (drained e) (filter (\<lambda>t. \<not> gone e t \<and> \<not> failed e t) ?d)"
    "ou_skipped ou = filter (\<lambda>t. \<not> deletable force t \<and> \<not> draining t) (pl_targets p)"
    using assms pass fold_reap_facts [of e ?d s] by simp_all
  then show ?thesis
    using fates_partition [of force e "pl_targets p"] by (simp add: comp_def ac_simps)
qed simp

section \<open>The order of deletions\<close>

lemma sorted_kinds: "sorted (map (\<lambda>t. (tg_kind t, tg_name t)) ts) \<Longrightarrow> sorted (map tg_kind ts)"
  by (induction ts) (auto simp: less_eq_prod_def)

lemma plan_sorted: "sorted (map tg_kind (pl_targets (restrict_to tokens (discover v sc))))"
proof -
  have "sorted (map (\<lambda>t. (tg_kind t, tg_name t)) (pl_targets (discover v sc)))"
    by (simp add: discover_def split_def Let_def)
  then have "sorted (map tg_kind (pl_targets (discover v sc)))" by (rule sorted_kinds)
  then show ?thesis by (simp add: restrict_to_def sorted_filter)
qed

lemma lease_calls:
  "c \<in> set (delete_calls t) \<Longrightarrow> tg_kind t = KReservation \<Longrightarrow> fst c = RLease META_NAMESPACE"
  "c \<in> set (delete_calls t) \<Longrightarrow> tg_kind t \<noteq> KReservation \<Longrightarrow> fst c \<noteq> RLease m"
  by (auto simp: delete_calls_def split: kind.splits)

lemma sorted_reservations_last:
  assumes "sorted (map tg_kind ts)"
  shows "\<exists>cs rs. ts = cs @ rs \<and> (\<forall>t \<in> set cs. tg_kind t \<noteq> KReservation) \<and> (\<forall>t \<in> set rs. tg_kind t = KReservation)"
  using assms
proof (induction ts)
  case (Cons t ts)
  show ?case
  proof (cases "tg_kind t = KReservation")
    case True
    have "tg_kind u = KReservation" if "u \<in> set ts" for u
      using Cons.prems that True by (cases "tg_kind u") (auto simp: less_eq_kind_def)
    then show ?thesis using True by (intro exI [of _ "[]"] exI [of _ "t # ts"]) simp
  next
    case False
    from Cons obtain cs rs where "ts = cs @ rs" "\<forall>t \<in> set cs. tg_kind t \<noteq> KReservation" "\<forall>t \<in> set rs. tg_kind t = KReservation"
      by auto
    with False show ?thesis by (intro exI [of _ "t # cs"] exI [of _ rs]) simp
  qed
qed simp

lemma split_after: "P @ Q = xs @ x # ys \<Longrightarrow> x \<notin> set P \<Longrightarrow> \<exists>zs. Q = zs @ x # ys"
  by (auto simp: append_eq_append_conv2 append_eq_Cons_conv)

text \<open>
  C20. Reservations are released last: once a pass over a discovered plan has asked for the
  deletion of a reservation lease, every later delete is a reservation's too, so the capacity
  of environments, syncs, pods and seed bindings is never offered while they still hold it.
\<close>

theorem reservations_deleted_last:
  assumes "deletes (fst (reclaim e (restrict_to tokens (discover v sc)) force dry_run)) = xs @ (RLease m, n) # ys"
    and "c \<in> set ys"
  shows "fst c = RLease META_NAMESPACE"
proof -
  let ?p = "restrict_to tokens (discover v sc)"
  let ?d = "filter (deletable force) (pl_targets ?p)"
  have eq: "concat (map delete_calls ?d) = xs @ (RLease m, n) # ys"
  proof (cases rule: reclaim_cases [of dry_run e ?p force])
    case dry
    from dry(2) have "fst (reclaim e ?p force dry_run) = []" by (metis fst_conv)
    with assms(1) show ?thesis by simp
  next
    case (pass s)
    with assms(1) show ?thesis by (simp add: fold_reap_facts)
  qed
  have "sorted (map tg_kind ?d)" using plan_sorted by (rule sorted_filter)
  then obtain cs rs where d: "?d = cs @ rs" "\<forall>t \<in> set cs. tg_kind t \<noteq> KReservation" "\<forall>t \<in> set rs. tg_kind t = KReservation"
    using sorted_reservations_last by blast
  let ?P = "concat (map delete_calls cs)" and ?Q = "concat (map delete_calls rs)"
  have Q: "\<forall>c \<in> set ?Q. fst c = RLease META_NAMESPACE" using d(3) lease_calls(1) by auto
  have PQ: "?P @ ?Q = xs @ (RLease m, n) # ys" using eq by (simp add: d(1))
  have "(RLease m, n) \<notin> set ?P" using d(2) lease_calls(2) by fastforce
  then obtain zs where "?Q = zs @ (RLease m, n) # ys" using split_after [OF PQ] by (metis (no_types))
  then have "c \<in> set ?Q" using assms(2) by (simp del: set_concat)
  with Q show ?thesis by blast
qed

section \<open>Unreadable answers\<close>

text \<open>
  Syncs fail shut: when the list of driver pods cannot be read, an unforced cleanup reports
  no sync as deleted, whatever else the cluster answers.
\<close>

theorem unreadable_drivers_spare_syncs:
  assumes "\<forall>sel. isl (cv_all_pods v sel)"
    and "t \<in> set (ou_deleted (snd (reclaim e (restrict_to tokens (discover v sc)) False dry_run)))"
  shows "tg_kind t \<noteq> KSync"
proof
  assume k: "tg_kind t = KSync"
  have t: "t \<in> set (pl_targets (discover v sc))" and d: "deletable False t"
    using deleted_deletable [OF assms(2)] restrict_targets by auto
  have "tg_liveness t \<noteq> LFinished" using t
  proof (cases rule: discover_origin)
    case (sync sel nss pods rs)
    have "pods = None" using sync(2) assms(1) [rule_format, of sel] by (auto simp: isl_def)
    with sync(1) obtain sp where "t = sync_target (cv_age_now v) False sp" by (auto simp: sync_targets_def)
    then show ?thesis
      by (auto simp: sync_target_def Let_def classify_sync_def terminating_def bind_eq_Some_conv split: option.splits)
  qed (use k in \<open>auto simp: test_env_target_def run_pod_target_def seed_binding_target_def reservation_target_def Let_def\<close>)
  then show False using d by (simp add: deletable_def split: liveness.splits)
qed

text \<open>
  A sync whose driver pod is in the phase \<open>Unknown\<close>, as on an unreachable node, is classified
  as finished and so reclaimed unforced, although the driver lookup counts that very pod as
  live.
\<close>

theorem unknown_phase_sync_finished:
  "driver_is_live (Inr (Some (Some ''Unknown''))) \<and> classify_sync i (Some (Some ''Unknown'')) = LFinished"
  by (simp add: driver_is_live_def classify_sync_def status_observe_def status_is_live_def)

text \<open>Without a readable ledger nothing counts as in flight: every test environment is finished or draining.\<close>

lemma unreadable_ledger_finishes_all:
  assumes "cv_leases v [] = Inl err" and "t \<in> set (pl_targets (discover v sc))" and "tg_kind t = KTestEnv"
  shows "tg_liveness t = LFinished \<or> draining t"
  using assms(2)
proof (cases rule: discover_origin)
  case (env ns nss sel)
  have "live_of v = []" using assms(1) by (simp add: live_of_def live_run_ids_def)
  with env show ?thesis
    by (auto simp: test_env_target_def Let_def draining_def classify_test_env_def terminating_def or_default_def
        split: option.splits)
next
  case (sync sel nss pods rs)
  then show ?thesis using assms(3) by (auto simp: sync_targets_def sync_target_def Let_def)
qed (use assms(3) in \<open>auto simp: run_pod_target_def reservation_target_def seed_binding_target_def Let_def\<close>)

section \<open>Selectors\<close>

text \<open>
  What a label selector means to the apiserver: a comma-separated conjunction of \<open>!key\<close>
  (absent), \<open>key=value\<close> and \<open>key\<close> (present). The list calls are assumed to honour it.
\<close>

definition requirement_holds :: "str_map \<Rightarrow> string \<Rightarrow> bool" where
  "requirement_holds m r = (if prefix ''!'' r then m (tl r) = None
     else (case split_once ''='' r of Some (k, x) \<Rightarrow> m k = Some x | None \<Rightarrow> m r \<noteq> None))"

definition selects :: "string \<Rightarrow> object_meta \<Rightarrow> bool" where
  "selects sel m = list_all (requirement_holds (or_default (m_labels m) Map.empty)) (split_on (CHR '','') sel)"

definition honours_selectors :: "cluster_view \<Rightarrow> bool" where
  "honours_selectors v \<longleftrightarrow> (\<forall>sel nss. cv_namespaces v sel = Inr nss \<longrightarrow> (\<forall>ns \<in> set nss. selects sel (ns_meta ns)))"

lemma split_on_comma: "split_on d (a @ d # b) = split_on d a @ split_on d b"
  by (induction a) (auto split: list.splits)

lemma label_of_default: "or_default (m_labels m) Map.empty k = label_of m k"
  by (cases "m_labels m") (simp_all add: label_of_def)

lemma test_env_selected:
  assumes "selects test_env_selector m"
  shows "label_of m LABEL_ROLE = Some ROLE_TEST_ENV \<and> label_of m KIND_LABEL_KEY = None"
proof -
  have "split_on (CHR '','') test_env_selector = [''ztest.io/role=test-env'', ''!ztest.io/kind'']" by code_simp
  moreover have "split_once ''='' ''ztest.io/role=test-env'' = Some (''ztest.io/role'', ''test-env'')" by code_simp
  ultimately show ?thesis using assms
    by (simp add: selects_def requirement_holds_def label_of_default LABEL_ROLE_def ROLE_TEST_ENV_def KIND_LABEL_KEY_def)
qed

lemma selects_suffix: "selects (a @ '','' @ b) m \<Longrightarrow> selects b m"
  by (simp add: selects_def split_on_comma)

text \<open>
  Test-environment discovery leaves syncs alone: under an apiserver that honours label
  selectors, every namespace it targets, in either scope, has the test-environment role and
  carries no \<open>kind\<close> label, which a sync's namespace always has.
\<close>

theorem test_envs_are_not_syncs:
  assumes "honours_selectors v" and "t \<in> set (pl_targets (discover v sc))" and "tg_kind t = KTestEnv"
  shows "\<exists>ns. t = test_env_target v (live_of v) ns \<and> label_of (ns_meta ns) LABEL_ROLE = Some ROLE_TEST_ENV \<and>
    label_of (ns_meta ns) KIND_LABEL_KEY = None"
  using assms(2)
proof (cases rule: discover_origin)
  case (env ns nss sel)
  then have "selects sel (ns_meta ns)" using assms(1) by (auto simp: honours_selectors_def)
  then have "selects test_env_selector (ns_meta ns)"
    using env(4) selects_suffix [of "LABEL_USER @ ''='' @ u" test_env_selector "ns_meta ns" for u]
    by (auto split: scope.splits)
  with env(1) show ?thesis using test_env_selected by blast
next
  case (sync sel nss pods rs)
  then show ?thesis using assms(3) by (auto simp: sync_targets_def sync_target_def Let_def)
qed (use assms(3) in \<open>auto simp: run_pod_target_def reservation_target_def seed_binding_target_def Let_def\<close>)

section \<open>A cluster with a running and a finished run\<close>

definition demo_meta :: "string \<Rightarrow> (string \<times> string) list \<Rightarrow> object_meta" where
  "demo_meta name ls = \<lparr>m_name = Some name, m_namespace = None, m_labels = Some (map_of ls), m_annotations = None,
     m_creation = None, m_deletion = None, m_finalizers = None\<rparr>"

definition demo_lease :: "string \<Rightarrow> instant \<Rightarrow> k8s_lease" where
  "demo_lease run renewed = \<lparr>le_meta = demo_meta run [(LABEL_RUN_ID, run)],
     le_spec = Some \<lparr>ls_holder = None, ls_duration_secs = Some 60, ls_renew_time = Some renewed\<rparr>\<rparr>"

definition demo_ns :: "string \<Rightarrow> string \<Rightarrow> k8s_namespace" where
  "demo_ns name run = \<lparr>ns_meta = demo_meta name [(LABEL_RUN_ID, run), (LABEL_ROLE, ROLE_TEST_ENV)], ns_conditions = None\<rparr>"

definition demo_sync_ns :: k8s_namespace where
  "demo_sync_ns = \<lparr>ns_meta = demo_meta ''ztest-sync-z'' [(KIND_LABEL_KEY, KIND_LABEL_VALUE), (SYNC_ID_KEY, ''z'')], ns_conditions = None\<rparr>"

text \<open>Run \<open>r1\<close> renews its lease, \<open>r2\<close> has stopped, a sync's driver pods cannot be listed.\<close>

definition demo_view :: cluster_view where
  "demo_view = \<lparr>cv_leases = (\<lambda>_. Inr [demo_lease ''r1'' 0, demo_lease ''r2'' (- 90000000000)]),
     cv_namespaces = (\<lambda>sel. Inr (filter (\<lambda>n. selects sel (ns_meta n)) [demo_ns ''ns1'' ''r1'', demo_ns ''ns2'' ''r2'', demo_sync_ns])),
     cv_all_pods = (\<lambda>_. Inl (KubeOther ''timeout'')), cv_pods = (\<lambda>_ _. Inr []), cv_records = (\<lambda>_. Inr []),
     cv_vscs = (\<lambda>_. Inl (KubeApi 404 ''no CRD'')), cv_live_now = 0, cv_age_now = 0, cv_res_now = 0\<rparr>"

definition demo_env :: reclaim_env where
  "demo_env = \<lparr>re_metrics_deployed = False, re_purge = (\<lambda>_. Inr ()), re_profiles_deployed = False, re_schedule = (\<lambda>_. Inr ()),
     re_report = (\<lambda>_. Inr ()), re_delete = (\<lambda>_ _. Inr None)\<rparr>"

abbreviation demo_pass :: "reclaim_call list \<times> outcome" where
  "demo_pass \<equiv> reclaim demo_env (restrict_to [] (discover demo_view AllUsers)) False False"

lemma demo_pass_calls:
  "fst demo_pass = [CallDelete RNamespace ''ns2'', CallDelete (RLease META_NAMESPACE) ''r2'']"
  by code_simp

lemma demo_pass_deleted:
  "ou_deleted (snd demo_pass) = [test_env_target demo_view [''r1''] (demo_ns ''ns2'' ''r2''),
     reservation_target demo_view (demo_lease ''r2'' (- 90000000000))]"
  by code_simp

theorem cleanup_spares_running_runs_witness:
  "\<exists>t. t \<in> set (ou_deleted (snd demo_pass)) \<and> tg_kind t = KTestEnv \<and> tg_id t \<noteq> Some ''r1''"
proof -
  let ?t = "test_env_target demo_view [''r1''] (demo_ns ''ns2'' ''r2'')"
  have l: "cv_leases demo_view [] = Inr [demo_lease ''r1'' 0, demo_lease ''r2'' (- 90000000000)]" by (simp add: demo_view_def)
  have x: "\<not> is_expired (demo_lease ''r1'' 0) (cv_live_now demo_view)"
    "label_of (le_meta (demo_lease ''r1'' 0)) LABEL_RUN_ID = Some ''r1''" "tg_kind ?t = KTestEnv" by code_simp+
  have d: "?t \<in> set (ou_deleted (snd demo_pass))" by (simp add: demo_pass_deleted)
  from cleanup_spares_running_runs [OF l _ x(1,2) d] x(3) d show ?thesis by auto
qed

theorem unforced_deletes_finished_only_witness:
  "\<exists>t. t \<in> set (pl_targets (restrict_to [] (discover demo_view AllUsers))) \<and> tg_liveness t = LFinished \<and>
     (RNamespace, ''ns2'') \<in> set (delete_calls t)"
proof -
  have "CallDelete RNamespace ''ns2'' \<in> set (fst demo_pass)" by (simp add: demo_pass_calls)
  then show ?thesis by (rule unforced_deletes_finished_only)
qed

theorem pass_accounts_for_targets_witness:
  "mset (map tg_ident (ou_deleted (snd demo_pass) @ ou_terminating (snd demo_pass) @ ou_skipped (snd demo_pass))) +
     mset (map tg_ident (filter (\<lambda>t. deletable False t \<and> failed demo_env t) (pl_targets (restrict_to [] (discover demo_view AllUsers))))) =
   mset (map tg_ident (pl_targets (restrict_to [] (discover demo_view AllUsers)))) \<and>
   length (pl_targets (restrict_to [] (discover demo_view AllUsers))) = 5"
proof -
  have "length (pl_targets (restrict_to [] (discover demo_view AllUsers))) = 5" by code_simp
  with pass_accounts_for_targets [of demo_env "restrict_to [] (discover demo_view AllUsers)" False "fst demo_pass" "snd demo_pass"]
  show ?thesis by simp
qed

text \<open>Forced, the pass goes on to the live lease of \<open>r1\<close>.\<close>

abbreviation demo_forced :: "reclaim_call list \<times> outcome" where
  "demo_forced \<equiv> reclaim demo_env (restrict_to [] (discover demo_view AllUsers)) True False"

lemma demo_forced_deletes:
  "deletes (fst demo_forced) = [(RNamespace, ''ns1''), (RNamespace, ''ns2''), (RNamespace, ''ztest-sync-z''),
     (RPod SYNC_NAMESPACE, ''ztest-sync-z'')] @ (RLease META_NAMESPACE, ''r1'') # [(RLease META_NAMESPACE, ''r2'')]"
  by code_simp

theorem reservations_deleted_last_witness:
  "(RLease META_NAMESPACE, ''r2'') \<in> set (deletes (fst demo_forced)) \<and>
   fst (RLease META_NAMESPACE, ''r2'' :: string) = RLease META_NAMESPACE"
  using reservations_deleted_last [OF demo_forced_deletes, of "(RLease META_NAMESPACE, ''r2'')"]
  by (simp add: demo_forced_deletes)

theorem unreadable_drivers_spare_syncs_witness:
  "\<exists>t. t \<in> set (ou_deleted (snd demo_pass)) \<and> tg_kind t \<noteq> KSync"
proof -
  let ?t = "test_env_target demo_view [''r1''] (demo_ns ''ns2'' ''r2'')"
  have u: "\<forall>sel. isl (cv_all_pods demo_view sel)" by (simp add: demo_view_def)
  have d: "?t \<in> set (ou_deleted (snd demo_pass))" by (simp add: demo_pass_deleted)
  from unreadable_drivers_spare_syncs [OF u d] d show ?thesis by blast
qed

theorem test_envs_are_not_syncs_witness:
  "\<exists>t ns. t \<in> set (pl_targets (discover demo_view AllUsers)) \<and> tg_name t = ''ns1'' \<and>
     t = test_env_target demo_view (live_of demo_view) ns \<and> label_of (ns_meta ns) KIND_LABEL_KEY = None"
proof -
  let ?t = "test_env_target demo_view [''r1''] (demo_ns ''ns1'' ''r1'')"
  have h: "honours_selectors demo_view" by (auto simp: honours_selectors_def demo_view_def)
  have "pl_targets (discover demo_view AllUsers) ! 0 = ?t" "0 < length (pl_targets (discover demo_view AllUsers))"
    by code_simp+
  then have t: "?t \<in> set (pl_targets (discover demo_view AllUsers))" by (metis nth_mem)
  have k: "tg_kind ?t = KTestEnv" "tg_name ?t = ''ns1''" by code_simp+
  from test_envs_are_not_syncs [OF h t k(1)] t k(2) show ?thesis by blast
qed

end
