(* ===== verification/Sync_Work.thy ===== *)
theory Sync_Work
  imports Naming Std_F64
begin

text \<open>
  Protocol work of a sync, \<open>src/src/sync/work.rs\<close>, and its derivation from blocks,
  \<open>src/src/sync/chainwork.rs\<close>. A work vector is the source's array of counters with the bit set
  of the measured operations. Sums are \<open>u64\<close> sums, wrapping as an optimised build does.
  Reading an unmeasured operation with \<open>require\<close> panics: the value \<open>None\<close>.
  The lemmas show that unmeasured never turns into zero, that the per-tick differences of a
  run add up to the work of its whole span, that a report read back is the vector written,
  and what one server's blocks prove about its tree sizes.
\<close>

unbundle bit_operations_syntax

section \<open>Operations and channels\<close>

datatype sync_op = TransparentIn | TransparentOut | SproutJoinSplit | SaplingSpend | SaplingOutput
  | OrchardAction | IronwoodAction

datatype channel = ChTransparent | ChSprout | ChSapling | ChOrchard | ChIronwood

definition channel_ALL :: "channel list" where
  "channel_ALL = [ChTransparent, ChSprout, ChSapling, ChOrchard, ChIronwood]"

definition channel_name :: "channel \<Rightarrow> string" where
  "channel_name c = (case c of ChTransparent \<Rightarrow> ''transparent'' | ChSprout \<Rightarrow> ''sprout'' | ChSapling \<Rightarrow> ''sapling''
     | ChOrchard \<Rightarrow> ''orchard'' | ChIronwood \<Rightarrow> ''ironwood'')"

definition channel_tag :: "channel \<Rightarrow> string" where
  "channel_tag c = (case c of ChTransparent \<Rightarrow> ''tsp'' | ChSprout \<Rightarrow> ''spr'' | ChSapling \<Rightarrow> ''sap''
     | ChOrchard \<Rightarrow> ''orc'' | ChIronwood \<Rightarrow> ''iro'')"

definition channel_ops :: "channel \<Rightarrow> sync_op list" where
  "channel_ops c = (case c of ChTransparent \<Rightarrow> [TransparentIn, TransparentOut] | ChSprout \<Rightarrow> [SproutJoinSplit]
     | ChSapling \<Rightarrow> [SaplingSpend, SaplingOutput] | ChOrchard \<Rightarrow> [OrchardAction] | ChIronwood \<Rightarrow> [IronwoodAction])"

definition op_ALL :: "sync_op list" where
  "op_ALL = [TransparentIn, TransparentOut, SproutJoinSplit, SaplingSpend, SaplingOutput, OrchardAction, IronwoodAction]"

definition op_COUNT :: nat where
  "op_COUNT = length op_ALL"

fun op_index :: "sync_op \<Rightarrow> nat" where
  "op_index TransparentIn = 0"
| "op_index TransparentOut = 1"
| "op_index SproutJoinSplit = 2"
| "op_index SaplingSpend = 3"
| "op_index SaplingOutput = 4"
| "op_index OrchardAction = 5"
| "op_index IronwoodAction = 6"

definition op_channel :: "sync_op \<Rightarrow> channel" where
  "op_channel x = (case x of TransparentIn \<Rightarrow> ChTransparent | TransparentOut \<Rightarrow> ChTransparent
     | SproutJoinSplit \<Rightarrow> ChSprout | SaplingSpend \<Rightarrow> ChSapling | SaplingOutput \<Rightarrow> ChSapling
     | OrchardAction \<Rightarrow> ChOrchard | IronwoodAction \<Rightarrow> ChIronwood)"

definition op_label :: "sync_op \<Rightarrow> string" where
  "op_label x = (case x of TransparentIn \<Rightarrow> ''transparent-in'' | TransparentOut \<Rightarrow> ''transparent-out''
     | SproutJoinSplit \<Rightarrow> ''sprout-joinsplit'' | SaplingSpend \<Rightarrow> ''sapling-spend'' | SaplingOutput \<Rightarrow> ''sapling-output''
     | OrchardAction \<Rightarrow> ''orchard-action'' | IronwoodAction \<Rightarrow> ''ironwood-action'')"

section \<open>Bit sets of operations\<close>

datatype op_set = OpSet (op_bits: u8)

definition os_NONE :: op_set where "os_NONE = OpSet 0"

definition op_bit :: "sync_op \<Rightarrow> u8" where
  "op_bit x = push_bit (op_index x) 1"

fun os_of_loop :: "u8 \<Rightarrow> sync_op list \<Rightarrow> u8" where
  "os_of_loop bits [] = bits"
| "os_of_loop bits (x # xs) = os_of_loop (bits OR op_bit x) xs"

definition os_of :: "sync_op list \<Rightarrow> op_set" where
  "os_of ops = OpSet (os_of_loop 0 ops)"

definition os_has :: "op_set \<Rightarrow> sync_op \<Rightarrow> bool" where
  "os_has s x \<longleftrightarrow> op_bits s AND op_bit x \<noteq> 0"

definition os_with :: "op_set \<Rightarrow> sync_op \<Rightarrow> op_set" where
  "os_with s x = OpSet (op_bits s OR op_bit x)"

definition os_intersect :: "op_set \<Rightarrow> op_set \<Rightarrow> op_set" where
  "os_intersect s t = OpSet (op_bits s AND op_bits t)"

definition os_is_empty :: "op_set \<Rightarrow> bool" where
  "os_is_empty s \<longleftrightarrow> op_bits s = 0"

section \<open>Work vectors\<close>

record sync_work =
  wk_counts :: "u64 list"
  wk_known :: op_set

definition wk_ZERO :: sync_work where
  "wk_ZERO = \<lparr>wk_counts = replicate op_COUNT 0, wk_known = os_NONE\<rparr>"

definition wk_set :: "sync_op \<Rightarrow> u64 \<Rightarrow> sync_work \<Rightarrow> sync_work" where
  "wk_set x n w = \<lparr>wk_counts = (wk_counts w)[op_index x := n], wk_known = os_with (wk_known w) x\<rparr>"

definition wk_get :: "sync_work \<Rightarrow> sync_op \<Rightarrow> u64 option" where
  "wk_get w x = (if os_has (wk_known w) x then Some (wk_counts w ! op_index x) else None)"

definition wk_require :: "sync_work \<Rightarrow> sync_op \<Rightarrow> u64 option" where
  "wk_require w x = (case wk_get w x of Some n \<Rightarrow> Some n | None \<Rightarrow> None)"

definition wk_total :: "sync_work \<Rightarrow> u64 option" where
  "wk_total w = (if os_is_empty (wk_known w) then None else Some (sum_list (List.map_filter (wk_get w) op_ALL)))"

fun wk_delta_loop :: "sync_work \<Rightarrow> sync_work \<Rightarrow> op_set \<Rightarrow> sync_op list \<Rightarrow> u64 list \<Rightarrow> u64 list" where
  "wk_delta_loop w e known [] out = out"
| "wk_delta_loop w e known (x # xs) out = wk_delta_loop w e known xs
     (if os_has known x then out[op_index x := sat_sub (wk_counts w ! op_index x) (wk_counts e ! op_index x)] else out)"

definition wk_delta :: "sync_work \<Rightarrow> sync_work \<Rightarrow> sync_work" where
  "wk_delta w earlier = (let known = os_intersect (wk_known w) (wk_known earlier) in
     \<lparr>wk_counts = wk_delta_loop w earlier known op_ALL (replicate op_COUNT 0), wk_known = known\<rparr>)"

text \<open>Sum of the measured entries, none when none is.\<close>

definition sum_measured :: "u64 option list \<Rightarrow> u64 option" where
  "sum_measured vals = fold (\<lambda>v acc. case v of None \<Rightarrow> acc | Some n \<Rightarrow> Some ((case acc of Some a \<Rightarrow> a | None \<Rightarrow> 0) + n)) vals None"

definition wk_channels :: "sync_work \<Rightarrow> (channel \<times> u64 option) list" where
  "wk_channels w = map (\<lambda>c. (c, sum_measured (map (wk_get w) (channel_ops c)))) channel_ALL"

text \<open>\<open>n as f64\<close>, and division of finite doubles.\<close>

definition u64_as_f64 :: "u64 \<Rightarrow> f64" where
  "u64_as_f64 n = f64_of_rat (of_nat (unat n))"

definition wk_composition :: "sync_work \<Rightarrow> (channel \<times> f64 option) list" where
  "wk_composition w = (let total = u64_as_f64 (case wk_total w of Some t \<Rightarrow> t | None \<Rightarrow> 0) in
     map (\<lambda>(c, n). (c, case (n, total) of
         (Some k, Fin t) \<Rightarrow> if 0 < t then Some (f64_mul (f64_div_pos (u64_as_f64 k) t) (Fin 100)) else None
       | _ \<Rightarrow> None)) (wk_channels w))"

record sync_rate =
  rt_per_sec :: "f64 list"
  rt_known :: op_set

definition rt_default :: sync_rate where
  "rt_default = \<lparr>rt_per_sec = replicate op_COUNT (Fin 0), rt_known = os_NONE\<rparr>"

fun wk_rate_loop :: "sync_work \<Rightarrow> rat \<Rightarrow> sync_op list \<Rightarrow> f64 list \<Rightarrow> f64 list" where
  "wk_rate_loop w s [] out = out"
| "wk_rate_loop w s (x # xs) out = wk_rate_loop w s xs
     (if os_has (wk_known w) x then out[op_index x := f64_div_pos (u64_as_f64 (wk_counts w ! op_index x)) s] else out)"

definition wk_rate :: "sync_work \<Rightarrow> duration \<Rightarrow> sync_rate" where
  "wk_rate w elapsed = (case as_secs_f64 elapsed of
     Fin s \<Rightarrow> if s \<le> 0 then rt_default
       else \<lparr>rt_per_sec = wk_rate_loop w s op_ALL (replicate op_COUNT (Fin 0)), rt_known = wk_known w\<rparr>
   | _ \<Rightarrow> rt_default)"

definition rt_get :: "sync_rate \<Rightarrow> sync_op \<Rightarrow> f64 option" where
  "rt_get r x = (if os_has (rt_known r) x then Some (rt_per_sec r ! op_index x) else None)"

text \<open>The label-keyed form of a vector, and reading it back from any map of labels.\<close>

definition wk_serialize :: "'a list \<Rightarrow> op_set \<Rightarrow> (string \<times> 'a) list" where
  "wk_serialize values known = map (\<lambda>x. (op_label x, values ! op_index x)) (filter (os_has known) op_ALL)"

fun wk_deserialize_loop :: "(string \<rightharpoonup> 'a) \<Rightarrow> sync_op list \<Rightarrow> 'a list \<times> op_set \<Rightarrow> 'a list \<times> op_set" where
  "wk_deserialize_loop raw [] acc = acc"
| "wk_deserialize_loop raw (x # xs) (values, known) = wk_deserialize_loop raw xs
     (case raw (op_label x) of Some v \<Rightarrow> (values[op_index x := v], os_with known x) | None \<Rightarrow> (values, known))"

definition wk_deserialize :: "'a \<Rightarrow> (string \<rightharpoonup> 'a) \<Rightarrow> 'a list \<times> op_set" where
  "wk_deserialize dflt raw = wk_deserialize_loop raw op_ALL (replicate op_COUNT dflt, os_NONE)"

definition work_to_map :: "sync_work \<Rightarrow> (string \<times> u64) list" where
  "work_to_map w = wk_serialize (wk_counts w) (wk_known w)"

definition work_of_map :: "(string \<rightharpoonup> u64) \<Rightarrow> sync_work" where
  "work_of_map raw = (let (counts, known) = wk_deserialize 0 raw in \<lparr>wk_counts = counts, wk_known = known\<rparr>)"

section \<open>Segments\<close>

record segment =
  sg_network :: "string option"
  sg_from :: u32
  sg_to :: u32
  sg_work :: sync_work
  sg_elapsed_ms :: u64
  sg_started_ms :: u64

datatype mismatch =
    MmNetwork "string option" "string option"
  | MmRange string string

definition sg_describe :: "segment \<Rightarrow> string" where
  "sg_describe s = (case sg_network s of Some n \<Rightarrow> n | None \<Rightarrow> ''unknown-network'') @ '' '' @
     thousands (ucast (sg_from s)) @ ''..'' @ thousands (ucast (sg_to s))"

text \<open>\<open>self\<close> is the head run, \<open>other\<close> the base; no error is \<open>Inr\<close>.\<close>

definition comparable_with :: "segment \<Rightarrow> segment \<Rightarrow> mismatch + unit" where
  "comparable_with self other = (case (sg_network self, sg_network other) of
     (Some hn, Some bn) \<Rightarrow>
        if hn \<noteq> bn then Inl (MmNetwork (Some bn) (Some hn))
        else if (sg_from self, sg_to self) \<noteq> (sg_from other, sg_to other)
        then Inl (MmRange (sg_describe other) (sg_describe self)) else Inr ()
   | _ \<Rightarrow> Inl (MmNetwork (sg_network other) (sg_network self)))"

definition sg_elapsed :: "segment \<Rightarrow> duration" where
  "sg_elapsed s = unat (sg_elapsed_ms s) * 1000000"

definition sg_rate :: "segment \<Rightarrow> sync_rate" where
  "sg_rate s = wk_rate (sg_work s) (sg_elapsed s)"

section \<open>Work from blocks\<close>

text \<open>The fields of the protocol's compact block that are read.\<close>

record chain_metadata =
  cm_sapling :: u32
  cm_orchard :: u32
  cm_ironwood :: u32

record compact_tx =
  ct_outputs :: "string list"
  ct_actions :: "string list"
  ct_ironwood_actions :: "string list"

record compact_block =
  cb_metadata :: "chain_metadata option"
  cb_vtx :: "compact_tx list"

datatype support = Unproven | Populated | Unpopulated

record reading =
  rd_tree_size :: u32
  rd_items :: nat

definition support_update :: "support \<Rightarrow> reading \<Rightarrow> support" where
  "support_update s r = (if s = Unpopulated then Unpopulated
     else if rd_tree_size r > 0 then Populated
     else if s = Populated then Populated
     else if rd_items r > 0 then Unpopulated else Unproven)"

record chain_work =
  cw_sapling :: support
  cw_orchard :: support
  cw_ironwood :: support

definition cw_new :: chain_work where
  "cw_new = \<lparr>cw_sapling = Unproven, cw_orchard = Unproven, cw_ironwood = Unproven\<rparr>"

definition block_reading :: "(chain_metadata \<Rightarrow> u32) \<Rightarrow> (compact_tx \<Rightarrow> string list) \<Rightarrow> compact_block \<Rightarrow> reading" where
  "block_reading szf items b =
     \<lparr>rd_tree_size = (case cb_metadata b of Some m \<Rightarrow> szf m | None \<Rightarrow> 0),
      rd_items = sum_list (map (\<lambda>tx. length (items tx)) (cb_vtx b))\<rparr>"

definition readings :: "compact_block \<Rightarrow> reading \<times> reading \<times> reading" where
  "readings b = (block_reading cm_sapling ct_outputs b, block_reading cm_orchard ct_actions b,
     block_reading cm_ironwood ct_ironwood_actions b)"

definition report_size :: "support \<Rightarrow> reading \<Rightarrow> sync_op \<Rightarrow> sync_work \<Rightarrow> sync_work" where
  "report_size s r x w = (if s = Unpopulated then w else wk_set x (ucast (rd_tree_size r)) w)"

definition cw_observe :: "compact_block \<Rightarrow> chain_work \<Rightarrow> chain_work \<times> sync_work" where
  "cw_observe b cw =
     (let (sa, oc, ir) = readings b;
          s1 = support_update (cw_sapling cw) sa;
          s2 = support_update (cw_orchard cw) oc;
          s3 = support_update (cw_ironwood cw) ir
      in (\<lparr>cw_sapling = s1, cw_orchard = s2, cw_ironwood = s3\<rparr>,
          report_size s3 ir IronwoodAction (report_size s2 oc OrchardAction (report_size s1 sa SaplingOutput wk_ZERO))))"

text \<open>The indexer's answer to \<open>get_block\<close> at the height, folded in; an error changes nothing.\<close>

definition cw_observe_at :: "'e + compact_block \<Rightarrow> chain_work \<Rightarrow> chain_work \<times> ('e + sync_work)" where
  "cw_observe_at answer cw = (case answer of
     Inl e \<Rightarrow> (cw, Inl e)
   | Inr b \<Rightarrow> (let (cw', w) = cw_observe b cw in (cw', Inr w)))"

definition cw_support :: "chain_work \<Rightarrow> sync_op \<Rightarrow> support" where
  "cw_support cw x = (case x of SaplingOutput \<Rightarrow> cw_sapling cw | OrchardAction \<Rightarrow> cw_orchard cw
     | IronwoodAction \<Rightarrow> cw_ironwood cw | _ \<Rightarrow> Unpopulated)"

definition cw_unpopulated :: "chain_work \<Rightarrow> sync_op list" where
  "cw_unpopulated cw = filter (\<lambda>x. cw_support cw x = Unpopulated) [SaplingOutput, OrchardAction, IronwoodAction]"

section \<open>Sets and vectors in terms of operations\<close>

lemma op_index_inj [simp]: "op_index x = op_index y \<longleftrightarrow> x = y"
  by (cases x; cases y) auto

lemma op_index_less [simp]: "op_index x < 7"
  by (cases x) auto

lemma op_index_bounds [simp]: "op_index x < 8" "op_index x \<noteq> 7"
  by (cases x; simp)+

lemma op_ALL_all [simp]: "x \<in> set op_ALL"
  by (cases x) (simp_all add: op_ALL_def)

lemma op_ALL_distinct [simp]: "distinct op_ALL"
  by (simp add: op_ALL_def)

lemma op_COUNT_eq [simp]: "op_COUNT = 7"
  by (simp add: op_COUNT_def op_ALL_def)

lemma op_label_inj [simp]: "op_label x = op_label y \<longleftrightarrow> x = y"
  by (cases x; cases y) (simp_all add: op_label_def)

lemma os_has_bit: "os_has s x \<longleftrightarrow> bit (op_bits s) (op_index x)"
  by (simp add: os_has_def op_bit_def push_bit_eq_mult and_exp_eq_0_iff_not_bit)

lemma os_has_NONE [simp]: "\<not> os_has os_NONE x"
  by (simp add: os_has_bit os_NONE_def)

lemma os_has_with [simp]: "os_has (os_with s x) y \<longleftrightarrow> y = x \<or> os_has s y"
  by (auto simp: os_has_bit os_with_def op_bit_def push_bit_eq_mult bit_or_iff bit_exp_iff)

lemma os_has_intersect [simp]: "os_has (os_intersect s t) x \<longleftrightarrow> os_has s x \<and> os_has t x"
  by (simp add: os_has_bit os_intersect_def bit_and_iff)

text \<open>The sets the source builds use the seven low bits only, and are then their members.\<close>

definition os_wf :: "op_set \<Rightarrow> bool" where
  "os_wf s \<longleftrightarrow> \<not> bit (op_bits s) 7"

lemma index_hit: "n < 7 \<Longrightarrow> \<exists>x. op_index x = n"
proof -
  assume "n < 7"
  then consider "n = 0" | "n = 1" | "n = 2" | "n = 3" | "n = 4" | "n = 5" | "n = 6" by linarith
  then show ?thesis by cases (metis op_index.simps)+
qed

lemma os_eqI:
  assumes "os_wf s" "os_wf t" and "\<And>x. os_has s x \<longleftrightarrow> os_has t x"
  shows "s = t"
proof -
  have "bit (op_bits s) n \<longleftrightarrow> bit (op_bits t) n" if "n < 8" for n
  proof (cases "n = 7")
    case False
    with that index_hit [of n] obtain x where "op_index x = n" by auto
    with assms(3) [of x] show ?thesis by (simp add: os_has_bit)
  qed (use assms in \<open>simp add: os_wf_def\<close>)
  then have "op_bits s = op_bits t" by (intro bit_word_eqI) simp
  then show ?thesis by (cases s; cases t) simp
qed

lemma os_wf_simps [simp]:
  "os_wf os_NONE" "os_wf (os_with s x) \<longleftrightarrow> os_wf s" "os_wf s \<Longrightarrow> os_wf (os_intersect s t)"
  by (auto simp: os_wf_def os_NONE_def os_with_def os_intersect_def op_bit_def push_bit_eq_mult bit_or_iff bit_and_iff bit_exp_iff)

lemma os_is_empty_iff: "os_wf s \<Longrightarrow> os_is_empty s \<longleftrightarrow> (\<forall>x. \<not> os_has s x)"
proof
  assume w: "os_wf s" and "\<forall>x. \<not> os_has s x"
  then have "s = os_NONE" by (intro os_eqI) simp_all
  then show "os_is_empty s" by (simp add: os_is_empty_def os_NONE_def)
qed (auto simp: os_is_empty_def os_has_bit)

text \<open>A proper vector: seven counters, zero where nothing was measured.\<close>

definition wk_wf :: "sync_work \<Rightarrow> bool" where
  "wk_wf w \<longleftrightarrow> length (wk_counts w) = 7 \<and> os_wf (wk_known w) \<and>
     (\<forall>x. \<not> os_has (wk_known w) x \<longrightarrow> wk_counts w ! op_index x = 0)"

lemma wk_wf_length: "wk_wf w \<Longrightarrow> length (wk_counts w) = 7"
  by (simp add: wk_wf_def)

lemma wk_eqI:
  assumes "wk_wf v" "wk_wf w" and get: "\<And>x. wk_get v x = wk_get w x"
  shows "v = w"
proof -
  have known: "os_has (wk_known v) x \<longleftrightarrow> os_has (wk_known w) x" for x
    using get [of x] by (auto simp: wk_get_def split: if_splits)
  then have k: "wk_known v = wk_known w" using assms(1,2) by (intro os_eqI) (simp_all add: wk_wf_def)
  have "wk_counts v = wk_counts w"
  proof (rule nth_equalityI)
    fix i assume "i < length (wk_counts v)"
    with assms(1) index_hit obtain x where i: "i = op_index x" by (auto simp: wk_wf_def)
    show "wk_counts v ! i = wk_counts w ! i"
      using get [of x] known [of x] assms(1,2) unfolding i by (cases "os_has (wk_known w) x") (auto simp: wk_get_def wk_wf_def)
  qed (use assms in \<open>simp add: wk_wf_def\<close>)
  with k show ?thesis by simp
qed

lemma wk_get_ZERO [simp]: "wk_get wk_ZERO x = None"
  by (simp add: wk_get_def wk_ZERO_def)

lemma wk_wf_ZERO [simp]: "wk_wf wk_ZERO"
  using op_index_less by (auto simp: wk_wf_def wk_ZERO_def)

lemma wk_get_set [simp]: "wk_wf w \<Longrightarrow> wk_get (wk_set x n w) y = (if y = x then Some n else wk_get w y)"
  using op_index_less [of x] by (auto simp: wk_get_def wk_set_def wk_wf_def nth_list_update)

lemma wk_wf_set [simp]: "wk_wf w \<Longrightarrow> wk_wf (wk_set x n w)"
  by (auto simp: wk_wf_def wk_set_def nth_list_update)

lemma delta_loop_spec:
  assumes "length out = 7" "distinct xs"
  shows "length (wk_delta_loop w e known xs out) = 7 \<and>
    wk_delta_loop w e known xs out ! op_index y = (if y \<in> set xs \<and> os_has known y
      then sat_sub (wk_counts w ! op_index y) (wk_counts e ! op_index y) else out ! op_index y)"
  using assms op_index_less [of y] by (induction xs arbitrary: out) (auto simp: nth_list_update)

lemma wk_get_delta [simp]:
  "wk_get (wk_delta w e) x = (case (wk_get w x, wk_get e x) of (Some a, Some b) \<Rightarrow> Some (sat_sub a b) | _ \<Rightarrow> None)"
  using delta_loop_spec [of "replicate 7 0" op_ALL w e "os_intersect (wk_known w) (wk_known e)" x]
  by (auto simp: wk_get_def wk_delta_def Let_def)

lemma wk_wf_delta [simp]: "wk_wf w \<Longrightarrow> wk_wf (wk_delta w e)"
  using delta_loop_spec [of "replicate 7 0" op_ALL w e "os_intersect (wk_known w) (wk_known e)"] op_index_less
  by (auto simp: wk_wf_def wk_delta_def Let_def)

section \<open>Reports\<close>

lemma deserialize_loop_spec:
  assumes "length vs = 7" "distinct xs"
  shows "length (fst (wk_deserialize_loop raw xs (vs, k))) = 7 \<and>
    (os_wf (snd (wk_deserialize_loop raw xs (vs, k))) \<longleftrightarrow> os_wf k) \<and>
    (os_has (snd (wk_deserialize_loop raw xs (vs, k))) y \<longleftrightarrow> os_has k y \<or> y \<in> set xs \<and> raw (op_label y) \<noteq> None) \<and>
    fst (wk_deserialize_loop raw xs (vs, k)) ! op_index y =
      (case raw (op_label y) of Some v \<Rightarrow> if y \<in> set xs then v else vs ! op_index y | None \<Rightarrow> vs ! op_index y)"
  using assms
proof (induction xs arbitrary: vs k)
  case (Cons x xs)
  have "length (fst (case raw (op_label x) of Some v \<Rightarrow> (vs[op_index x := v], os_with k x) | None \<Rightarrow> (vs, k))) = 7"
    using Cons.prems by (simp split: option.split)
  with Cons show ?case
    by (auto simp: nth_list_update split: option.splits)
qed (simp split: option.split)

lemma work_of_map_get [simp]: "wk_get (work_of_map raw) x = raw (op_label x)"
  using deserialize_loop_spec [of "replicate 7 0" op_ALL raw os_NONE x]
  by (auto simp: work_of_map_def wk_deserialize_def wk_get_def split: prod.splits option.splits)

lemma work_of_map_wf [simp]: "wk_wf (work_of_map raw)"
  using deserialize_loop_spec [of "replicate 7 0" op_ALL raw os_NONE]
  by (auto simp: work_of_map_def wk_deserialize_def wk_wf_def split: prod.splits option.splits)

lemma map_of_work: "map_of (work_to_map w) (op_label x) = wk_get w x"
proof -
  have "map_of (map (\<lambda>y. (op_label y, f y)) ys) (op_label x) = (if x \<in> set ys then Some (f x) else None)"
    for f :: "sync_op \<Rightarrow> u64" and ys
    by (induction ys) auto
  then show ?thesis by (simp add: work_to_map_def wk_serialize_def wk_get_def)
qed

text \<open>A report read back is the vector that was written, measured operations and all.\<close>

lemma work_roundtrip: "wk_wf w \<Longrightarrow> work_of_map (map_of (work_to_map w)) = w"
  by (rule wk_eqI) (simp_all add: map_of_work)

section \<open>Totals\<close>

lemma sum_measured_fold:
  "fold (\<lambda>v acc. case v of None \<Rightarrow> acc | Some n \<Rightarrow> Some ((case acc of Some a \<Rightarrow> a | None \<Rightarrow> 0) + n)) vals acc =
   (if \<forall>v \<in> set vals. v = None then acc
    else Some ((case acc of Some a \<Rightarrow> a | None \<Rightarrow> 0) + sum_list (List.map_filter (\<lambda>v. v) vals)))"
proof (induction vals arbitrary: acc)
  case (Cons v vals)
  have "\<forall>v \<in> set vals. v = None \<Longrightarrow> List.map_filter (\<lambda>v. v) vals = []" by (induction vals) (auto simp: map_filter_simps)
  then show ?case by (cases v) (auto simp: Cons map_filter_simps add.assoc)
qed (simp add: map_filter_simps)

lemma sum_measured_eq:
  "sum_measured vals = (if \<forall>v \<in> set vals. v = None then None else Some (sum_list (List.map_filter (\<lambda>v. v) vals)))"
  unfolding sum_measured_def sum_measured_fold by simp

lemma map_filter_id_map: "List.map_filter (\<lambda>v. v) (map f xs) = List.map_filter f xs"
  by (induction xs) (simp_all add: map_filter_simps split: option.split)

lemma sum_list_neutral: "\<forall>x \<in> set xs. f x = None \<Longrightarrow> (\<Sum>x\<leftarrow>xs. case f x of None \<Rightarrow> 0 | Some n \<Rightarrow> n) = 0"
  for f :: "'a \<Rightarrow> 'b::monoid_add option"
  by (induction xs) auto

lemma sum_map_filter: "sum_list (List.map_filter f xs) = sum_list (map (\<lambda>x. case f x of Some n \<Rightarrow> n | None \<Rightarrow> 0) xs)"
  for f :: "'a \<Rightarrow> 'b::monoid_add option"
  by (induction xs) (auto simp: map_filter_simps split: option.split)

text \<open>The channels split the total: their measured sums add up to it, and it is absent exactly when they all are.\<close>

lemma wk_total_channels:
  assumes "wk_wf w"
  shows "sum_measured (map snd (wk_channels w)) = wk_total w"
proof -
  let ?v = "\<lambda>x. case wk_get w x of Some n \<Rightarrow> n | None \<Rightarrow> 0"
  let ?ch = "\<lambda>c. sum_measured (map (wk_get w) (channel_ops c))"
  have ch: "(case ?ch c of Some n \<Rightarrow> n | None \<Rightarrow> 0) = sum_list (map ?v (channel_ops c))" for c
    by (auto simp: sum_measured_eq map_filter_id_map sum_map_filter sum_list_neutral)
  have "(\<forall>c. ?ch c = None) \<longleftrightarrow> (\<forall>x. wk_get w x = None)"
  proof
    assume none: "\<forall>c. ?ch c = None"
    show "\<forall>x. wk_get w x = None"
    proof
      fix x
      have "x \<in> set (channel_ops (op_channel x))" by (cases x) (simp_all add: op_channel_def channel_ops_def)
      with none show "wk_get w x = None" by (auto simp: sum_measured_eq split: if_splits)
    qed
  qed (simp add: sum_measured_eq)
  moreover have "os_is_empty (wk_known w) \<longleftrightarrow> (\<forall>x. wk_get w x = None)"
    using assms by (auto simp: os_is_empty_iff wk_wf_def wk_get_def)
  moreover have "(\<forall>c \<in> set channel_ALL. P c) \<longleftrightarrow> (\<forall>c. P c)" for P
    by (auto simp: channel_ALL_def) (metis channel.exhaust)
  moreover have "sum_list (map ?v op_ALL) = sum_list (map (\<lambda>c. sum_list (map ?v (channel_ops c))) channel_ALL)"
    by (simp add: op_ALL_def channel_ALL_def channel_ops_def add.assoc)
  ultimately have "sum_measured (map ?ch channel_ALL) =
      (if os_is_empty (wk_known w) then None else Some (sum_list (map ?v op_ALL)))"
    unfolding sum_measured_eq [of "map ?ch channel_ALL"] map_filter_id_map sum_map_filter ch by simp
  then show ?thesis by (simp add: wk_total_def wk_channels_def comp_def sum_map_filter)
qed

section \<open>Work over a run\<close>

text \<open>The work of each step of a sequence of cumulative readings.\<close>

fun step_works :: "sync_work list \<Rightarrow> sync_work list" where
  "step_works (v # w # ws) = wk_delta w v # step_works (w # ws)"
| "step_works _ = []"

definition measured :: "sync_op \<Rightarrow> sync_work \<Rightarrow> nat" where
  "measured x w = (case wk_get w x of Some n \<Rightarrow> unat n | None \<Rightarrow> 0)"

lemma measured_delta:
  assumes "wk_get w x \<noteq> None" "wk_get v x \<noteq> None"
  shows "measured x (wk_delta w v) = measured x w - measured x v"
  using assms by (auto simp: measured_def unat_sat_sub)

text \<open>
  The work of a segment is the sum of the work of its ticks: when an operation is measured
  at every reading and no reading goes back, the per-tick differences add up, without
  wrapping, to the difference between the last reading and the first.
\<close>

theorem work_steps_add_up:
  assumes "\<forall>w \<in> set (v # ws). wk_get w x \<noteq> None"
    and "sorted (map (measured x) (v # ws))"
  shows "sum_list (map (measured x) (step_works (v # ws))) = measured x (wk_delta (last (v # ws)) v)"
  using assms
proof (induction ws arbitrary: v)
  case Nil
  then show ?case by (simp add: measured_delta)
next
  case (Cons w ws)
  have "measured x w \<le> measured x (last (w # ws))"
    using Cons.prems(2) by (cases ws) auto
  with Cons show ?case by (auto simp: measured_delta)
qed

definition demo_reading :: "u64 \<Rightarrow> u64 \<Rightarrow> sync_work" where
  "demo_reading sapling orchard = wk_set OrchardAction orchard (wk_set SaplingOutput sapling wk_ZERO)"

theorem work_steps_add_up_witness:
  "sum_list (map (measured SaplingOutput) (step_works [demo_reading 100 5, demo_reading 130 5, demo_reading 190 7])) = 90"
proof -
  let ?rs = "[demo_reading 130 5, demo_reading 190 7]"
  have g: "wk_get (demo_reading a b) SaplingOutput = Some a" for a b by (simp add: demo_reading_def)
  have "sum_list (map (measured SaplingOutput) (step_works (demo_reading 100 5 # ?rs))) =
      measured SaplingOutput (wk_delta (last (demo_reading 100 5 # ?rs)) (demo_reading 100 5))"
    by (rule work_steps_add_up) (simp_all add: g measured_def)
  then show ?thesis by (simp add: measured_delta g) (simp add: measured_def g)
qed

text \<open>Two runs compare exactly when they name the same chain and cover the same span.\<close>

lemma comparable_iff:
  "comparable_with a b = Inr () \<longleftrightarrow> (\<exists>n. sg_network a = Some n \<and> sg_network b = Some n) \<and>
     sg_from a = sg_from b \<and> sg_to a = sg_to b"
  by (auto simp: comparable_with_def split: option.splits)

lemma comparable_sym: "comparable_with a b = Inr () \<Longrightarrow> comparable_with b a = Inr ()"
  by (auto simp: comparable_iff)

lemma comparable_trans: "comparable_with a b = Inr () \<Longrightarrow> comparable_with b c = Inr () \<Longrightarrow> comparable_with a c = Inr ()"
  by (auto simp: comparable_iff)

section \<open>What the blocks prove\<close>

text \<open>
  The first block that says anything about a pool decides: a tree size proves the field is
  populated, items under a tree size of zero prove it is not.
\<close>

definition evidence :: "reading \<Rightarrow> bool" where
  "evidence r \<longleftrightarrow> rd_tree_size r > 0 \<or> rd_items r > 0"

lemma support_latched: "s \<noteq> Unproven \<Longrightarrow> fold (\<lambda>r s. support_update s r) rs s = s"
  by (induction rs) (cases s; simp add: support_update_def)+

lemma support_first_evidence:
  "fold (\<lambda>r s. support_update s r) rs Unproven = (case find evidence rs of
     None \<Rightarrow> Unproven | Some r \<Rightarrow> if rd_tree_size r > 0 then Populated else Unpopulated)"
proof (induction rs)
  case (Cons r rs)
  have "support_update Unproven r = (if rd_tree_size r > 0 then Populated else if rd_items r > 0 then Unpopulated else Unproven)"
    by (simp add: support_update_def)
  then show ?case by (auto simp: Cons evidence_def support_latched)
qed simp

definition pool_reading :: "sync_op \<Rightarrow> compact_block \<Rightarrow> reading" where
  "pool_reading x b = (case (readings b, x) of
     ((sa, oc, ir), OrchardAction) \<Rightarrow> oc | ((sa, oc, ir), IronwoodAction) \<Rightarrow> ir | ((sa, oc, ir), _) \<Rightarrow> sa)"

definition cw_after :: "compact_block list \<Rightarrow> chain_work" where
  "cw_after bs = fold (\<lambda>b cw. fst (cw_observe b cw)) bs cw_new"

lemma observe_support:
  "x \<in> {SaplingOutput, OrchardAction, IronwoodAction} \<Longrightarrow>
   cw_support (fst (cw_observe b cw)) x = support_update (cw_support cw x) (pool_reading x b)"
  by (auto simp: cw_observe_def cw_support_def pool_reading_def Let_def split: prod.split)

lemma cw_after_support:
  assumes "x \<in> {SaplingOutput, OrchardAction, IronwoodAction}"
  shows "cw_support (fold (\<lambda>b cw. fst (cw_observe b cw)) bs cw) x =
    fold (\<lambda>r s. support_update s r) (map (pool_reading x) bs) (cw_support cw x)"
  using assms by (induction bs arbitrary: cw) (simp_all add: observe_support)

lemma report_size_get: "wk_wf w \<Longrightarrow> wk_wf (report_size s r x w) \<and>
  wk_get (report_size s r x w) y = (if y = x \<and> s \<noteq> Unpopulated then Some (ucast (rd_tree_size r)) else wk_get w y)"
  by (simp add: report_size_def)

lemma observe_get:
  assumes "x \<in> {SaplingOutput, OrchardAction, IronwoodAction}"
  shows "wk_get (snd (cw_observe b cw)) x = (if cw_support (fst (cw_observe b cw)) x = Unpopulated then None
    else Some (ucast (rd_tree_size (pool_reading x b))))"
  using assms by (auto simp: cw_observe_def cw_support_def pool_reading_def Let_def report_size_get split: prod.split)

text \<open>
  A server that does not populate a pool's tree size is found out and stays found out: once
  a block carries items of the pool under a tree size of zero, with nothing before it that
  proved otherwise, every later block reports the operation as unmeasured, never as zero;
  and a pool whose first evidence is a tree size is measured at every block.
\<close>

theorem unpopulated_pool_unmeasured:
  assumes "x \<in> {SaplingOutput, OrchardAction, IronwoodAction}"
    and "find evidence (map (pool_reading x) (bs @ [b])) = Some r"
  shows "wk_get (snd (cw_observe b (cw_after bs))) x =
    (if rd_tree_size r = 0 then None else Some (ucast (rd_tree_size (pool_reading x b))))"
proof -
  have "cw_support (fst (cw_observe b (cw_after bs))) x =
      fold (\<lambda>r s. support_update s r) (map (pool_reading x) (bs @ [b])) (cw_support cw_new x)"
    using cw_after_support [OF assms(1), of "bs @ [b]" cw_new] by (simp add: cw_after_def)
  also have "cw_support cw_new x = Unproven" using assms(1) by (auto simp: cw_support_def cw_new_def)
  finally have "cw_support (fst (cw_observe b (cw_after bs))) x = (if rd_tree_size r = 0 then Unpopulated else Populated)"
    using assms(2) unfolding support_first_evidence by (simp add: word_gt_0)
  then show ?thesis by (simp add: observe_get [OF assms(1)])
qed

definition demo_block :: "u32 \<Rightarrow> nat \<Rightarrow> compact_block" where
  "demo_block n k = \<lparr>cb_metadata = Some \<lparr>cm_sapling = n, cm_orchard = 0, cm_ironwood = 0\<rparr>,
     cb_vtx = [\<lparr>ct_outputs = replicate k ''out'', ct_actions = [], ct_ironwood_actions = []\<rparr>]\<rparr>"

theorem unpopulated_pool_unmeasured_witness:
  "wk_get (snd (cw_observe (demo_block 7 1) (cw_after [demo_block 0 0, demo_block 0 2]))) SaplingOutput = None"
  using unpopulated_pool_unmeasured [of SaplingOutput "[demo_block 0 0, demo_block 0 2]" "demo_block 7 1" "\<lparr>rd_tree_size = 0, rd_items = 2\<rparr>"]
  by (simp add: demo_block_def pool_reading_def readings_def block_reading_def evidence_def)

end
