(* ===== verification/Metrics_Catalogue.thy ===== *)
theory Metrics_Catalogue
  imports Sync_Work
begin

text \<open>
  The metric catalogue and what is read from one scrape, \<open>src/src/metrics/mod.rs\<close>. Parsing the
  exposition text is the \<open>prometheus_parse\<close> crate's; an exposition is what \<open>absorb\<close> keeps of it:
  scalar samples and histograms by family name, each with its labels.
\<close>

section \<open>Catalogue\<close>

datatype dimension = DSeconds | DBytes | DRatio | DCount

datatype metric_unit = UCount | UPerSec | UFraction | UBytes | UBytesPerSec | UMillis | UCores

datatype phi = P50 | P99

definition phi_value :: "phi \<Rightarrow> f64" where
  "phi_value p = (case p of P50 \<Rightarrow> Fin (1 / 2) | P99 \<Rightarrow> f64_of_rat (99 / 100))"

record label_select =
  sel_label :: string
  sel_value :: string

record family =
  fam_name :: string
  fam_select :: "label_select option"
  fam_dim :: dimension
  fam_ready :: duration

definition DEFAULT_READY :: duration where
  "DEFAULT_READY = secs 60"

definition family_is :: "family \<Rightarrow> family \<Rightarrow> bool" where
  "family_is f g \<longleftrightarrow> fam_name f = fam_name g \<and> fam_select f = fam_select g"

definition show_family :: "family \<Rightarrow> string" where
  "show_family f = (case fam_select f of
     None \<Rightarrow> fam_name f
   | Some s \<Rightarrow> fam_name f @ ''{'' @ sel_label s @ ''=\"'' @ sel_value s @ ''\"}'')"

datatype metric_reading = Rate family | Slope family | Level family | Progress family | Mean family | Quantile family phi

definition reading_family :: "metric_reading \<Rightarrow> family" where
  "reading_family r = (case r of Rate f \<Rightarrow> f | Slope f \<Rightarrow> f | Level f \<Rightarrow> f | Progress f \<Rightarrow> f | Mean f \<Rightarrow> f | Quantile f _ \<Rightarrow> f)"

definition reading_cumulative :: "metric_reading \<Rightarrow> bool" where
  "reading_cumulative r = (case r of Rate _ \<Rightarrow> True | Mean _ \<Rightarrow> True | Quantile _ _ \<Rightarrow> True | _ \<Rightarrow> False)"

definition reading_totalled :: "metric_reading \<Rightarrow> bool" where
  "reading_totalled r = (case r of Rate _ \<Rightarrow> True | Slope _ \<Rightarrow> True | Progress _ \<Rightarrow> True | _ \<Rightarrow> False)"

definition flow_unit :: "dimension \<Rightarrow> metric_unit" where
  "flow_unit d = (case d of DBytes \<Rightarrow> UBytesPerSec | DSeconds \<Rightarrow> UCores | DRatio \<Rightarrow> UFraction | DCount \<Rightarrow> UPerSec)"

definition level_unit :: "dimension \<Rightarrow> metric_unit" where
  "level_unit d = (case d of DBytes \<Rightarrow> UBytes | DSeconds \<Rightarrow> UMillis | DRatio \<Rightarrow> UFraction | DCount \<Rightarrow> UCount)"

definition reading_unit :: "metric_reading \<Rightarrow> metric_unit" where
  "reading_unit r = (case r of
     Rate f \<Rightarrow> flow_unit (fam_dim f) | Slope f \<Rightarrow> flow_unit (fam_dim f)
   | Mean _ \<Rightarrow> UMillis | Quantile _ _ \<Rightarrow> UMillis
   | Level f \<Rightarrow> level_unit (fam_dim f) | Progress f \<Rightarrow> level_unit (fam_dim f))"

datatype facet = FTransparent | FShielded | FBlocks | FThroughput | FWritePath | FProgress | FStore

record metric_row =
  row_label :: string
  row_reading :: metric_reading
  row_facet :: facet
  row_channel :: "channel option"

definition metric_row_new :: "string \<Rightarrow> metric_reading \<Rightarrow> facet \<Rightarrow> metric_row" where
  "metric_row_new l r f = \<lparr>row_label = l, row_reading = r, row_facet = f, row_channel = None\<rparr>"

definition row_pool :: "channel \<Rightarrow> metric_row \<Rightarrow> metric_row" where
  "row_pool c r = r\<lparr>row_channel := Some c\<rparr>"

definition family_new :: "string \<Rightarrow> dimension \<Rightarrow> family" where
  "family_new n d = \<lparr>fam_name = n, fam_select = None, fam_dim = d, fam_ready = DEFAULT_READY\<rparr>"

definition family_where :: "string \<Rightarrow> dimension \<Rightarrow> string \<Rightarrow> string \<Rightarrow> family" where
  "family_where n d l v = (family_new n d)\<lparr>fam_select := Some \<lparr>sel_label = l, sel_value = v\<rparr>\<rparr>"

definition family_ready_within :: "duration \<Rightarrow> family \<Rightarrow> family" where
  "family_ready_within d f = f\<lparr>fam_ready := d\<rparr>"

definition row_family :: "metric_row \<Rightarrow> family" where
  "row_family r = reading_family (row_reading r)"

definition row_unit :: "metric_row \<Rightarrow> metric_unit" where
  "row_unit r = reading_unit (row_reading r)"

section \<open>One scrape\<close>

record metric_point =
  mp_value :: f64
  mp_labels :: str_map

record bucket_set =
  bs_labels :: str_map
  bs_le :: "(f64 \<times> f64) list"

record exposition =
  ex_by_name :: "string \<rightharpoonup> metric_point list"
  ex_by_histogram :: "string \<rightharpoonup> bucket_set list"

definition admits :: "label_select option \<Rightarrow> str_map \<Rightarrow> bool" where
  "admits sel labels = (case sel of None \<Rightarrow> True | Some s \<Rightarrow> labels (sel_label s) = Some (sel_value s))"

definition ex_part :: "exposition \<Rightarrow> family \<Rightarrow> string \<Rightarrow> f64 list option" where
  "ex_part e f sfx = map_option (\<lambda>ps. map mp_value (filter (\<lambda>p. admits (fam_select f) (mp_labels p)) ps))
     (ex_by_name e (fam_name f @ sfx))"

definition ex_values :: "exposition \<Rightarrow> family \<Rightarrow> f64 list option" where
  "ex_values e f = ex_part e f []"

definition f64_sum :: "f64 list \<Rightarrow> f64" where
  "f64_sum xs = fold (\<lambda>x a. f64_add a x) xs (Fin 0)"

record tally =
  ty_sum :: f64
  ty_count :: f64

text \<open>Comparison, negation and division of doubles, as far as the readings use them.\<close>

fun f64_less :: "f64 \<Rightarrow> f64 \<Rightarrow> bool" where
  "f64_less (Fin x) (Fin y) \<longleftrightarrow> x < y"
| "f64_less (Inf s) (Fin y) \<longleftrightarrow> s"
| "f64_less (Fin x) (Inf s) \<longleftrightarrow> \<not> s"
| "f64_less (Inf s) (Inf t) \<longleftrightarrow> s \<and> \<not> t"
| "f64_less _ _ \<longleftrightarrow> False"

definition f64_eq :: "f64 \<Rightarrow> f64 \<Rightarrow> bool" where
  "f64_eq x y \<longleftrightarrow> x = y \<and> x \<noteq> NaN"

definition f64_le :: "f64 \<Rightarrow> f64 \<Rightarrow> bool" where
  "f64_le x y \<longleftrightarrow> f64_less x y \<or> f64_eq x y"

fun f64_neg :: "f64 \<Rightarrow> f64" where
  "f64_neg NaN = NaN"
| "f64_neg (Inf s) = Inf (\<not> s)"
| "f64_neg (Fin x) = Fin (- x)"

definition f64_sub :: "f64 \<Rightarrow> f64 \<Rightarrow> f64" where
  "f64_sub x y = f64_add x (f64_neg y)"

text \<open>Division by a double above zero.\<close>

definition f64_div_above :: "f64 \<Rightarrow> f64 \<Rightarrow> f64" where
  "f64_div_above x y = (case y of
     Fin c \<Rightarrow> f64_div_pos x c
   | Inf _ \<Rightarrow> (case x of Fin _ \<Rightarrow> Fin 0 | _ \<Rightarrow> NaN)
   | NaN \<Rightarrow> NaN)"

definition mean_ms :: "tally \<Rightarrow> tally \<Rightarrow> f64 option" where
  "mean_ms before after = (let s = f64_sub (ty_sum after) (ty_sum before); c = f64_sub (ty_count after) (ty_count before) in
     if f64_less (Fin 0) c \<and> f64_le (Fin 0) s then Some (f64_mul (f64_div_above s c) (Fin 1000)) else None)"

text \<open>
  What the parser makes of the exposition text: one sample per family and label set. Scalars
  of the three kinds are kept, a histogram with its buckets, a summary not at all.
\<close>

datatype scraped =
    ScCounter f64
  | ScGauge f64
  | ScUntyped f64
  | ScHistogram "(f64 \<times> f64) list"
  | ScSummary

record scrape_sample =
  sa_metric :: string
  sa_labels :: str_map
  sa_value :: scraped

definition push_at :: "string \<Rightarrow> 'a \<Rightarrow> (string \<rightharpoonup> 'a list) \<Rightarrow> (string \<rightharpoonup> 'a list)" where
  "push_at k x m = m(k \<mapsto> (case m k of Some xs \<Rightarrow> xs | None \<Rightarrow> []) @ [x])"

definition keep_scalar :: "scrape_sample \<Rightarrow> f64 \<Rightarrow> exposition \<Rightarrow> exposition" where
  "keep_scalar sa v e = e\<lparr>ex_by_name := push_at (sa_metric sa) \<lparr>mp_value = v, mp_labels = sa_labels sa\<rparr> (ex_by_name e)\<rparr>"

definition absorb_sample :: "scrape_sample \<Rightarrow> exposition \<Rightarrow> exposition" where
  "absorb_sample sa e = (case sa_value sa of
     ScCounter v \<Rightarrow> keep_scalar sa v e
   | ScGauge v \<Rightarrow> keep_scalar sa v e
   | ScUntyped v \<Rightarrow> keep_scalar sa v e
   | ScHistogram le \<Rightarrow> e\<lparr>ex_by_histogram := push_at (sa_metric sa) \<lparr>bs_labels = sa_labels sa, bs_le = le\<rparr> (ex_by_histogram e)\<rparr>
   | ScSummary \<Rightarrow> e)"

definition absorb :: "(string \<Rightarrow> scrape_sample list option) \<Rightarrow> string \<Rightarrow> exposition \<Rightarrow> exposition" where
  "absorb parse text e = (case parse text of None \<Rightarrow> e | Some samples \<Rightarrow> fold absorb_sample samples e)"

definition ex_tally :: "exposition \<Rightarrow> family \<Rightarrow> tally option" where
  "ex_tally e f = (case (ex_part e f ''_sum'', ex_part e f ''_count'') of
     (Some s, Some c) \<Rightarrow> Some \<lparr>ty_sum = f64_sum s, ty_count = f64_sum c\<rparr> | _ \<Rightarrow> None)"

text \<open>
  The order of the bit patterns of doubles: from zero up to infinity, the undefined value, then
  below zero downwards.
\<close>

definition bits_rank :: "f64 \<Rightarrow> nat \<times> rat" where
  "bits_rank v = (case v of Fin x \<Rightarrow> if 0 \<le> x then (0, x) else (3, - x) | Inf neg \<Rightarrow> if neg then (4, 0) else (1, 0) | NaN \<Rightarrow> (2, 0))"

definition bits_less :: "f64 \<Rightarrow> f64 \<Rightarrow> bool" where
  "bits_less v w \<longleftrightarrow> fst (bits_rank v) < fst (bits_rank w) \<or>
     (fst (bits_rank v) = fst (bits_rank w) \<and> snd (bits_rank v) < snd (bits_rank w))"

fun bucket_insert :: "f64 \<times> f64 \<Rightarrow> (f64 \<times> f64) list \<Rightarrow> (f64 \<times> f64) list" where
  "bucket_insert (le, c) [] = [(le, f64_add (Fin 0) c)]"
| "bucket_insert (le, c) ((l, d) # ladder) =
     (if le = l then (l, f64_add d c) # ladder
      else if bits_less le l then (le, f64_add (Fin 0) c) # (l, d) # ladder
      else (l, d) # bucket_insert (le, c) ladder)"

definition ex_buckets :: "exposition \<Rightarrow> family \<Rightarrow> (f64 \<times> f64) list option" where
  "ex_buckets e f = (case ex_by_histogram e (fam_name f) of
     None \<Rightarrow> None
   | Some sets \<Rightarrow> (let ms = filter (\<lambda>s. admits (fam_select f) (bs_labels s)) sets
       in if ms = [] then None else Some (fold bucket_insert (concat (map bs_le ms)) [])))"

definition ex_timing :: "exposition \<Rightarrow> family \<Rightarrow> (tally \<times> (f64 \<times> f64) list) option" where
  "ex_timing e f = map_option (\<lambda>t. (t, case ex_buckets e f of Some b \<Rightarrow> b | None \<Rightarrow> [])) (ex_tally e f)"

section \<open>Windowed reductions\<close>

definition is_infinite :: "f64 \<Rightarrow> bool" where
  "is_infinite v = (case v of Inf _ \<Rightarrow> True | _ \<Rightarrow> False)"

definition is_finite :: "f64 \<Rightarrow> bool" where
  "is_finite v = (case v of Fin _ \<Rightarrow> True | _ \<Rightarrow> False)"

fun quantile_scan :: "f64 \<Rightarrow> f64 \<times> f64 \<Rightarrow> ((f64 \<times> f64) \<times> (f64 \<times> f64)) list \<Rightarrow> f64 option" where
  "quantile_scan rank prev [] = None"
| "quantile_scan rank prev (((le, b), (le_after, a)) # rest) =
     (if \<not> f64_eq le le_after then None
      else let count = f64_max_zero (f64_sub a b) in
        if f64_less count rank then quantile_scan rank (le, count) rest
        else let width = f64_sub count (snd prev);
                 frac = (if f64_less (Fin 0) width then f64_div_above (f64_sub rank (snd prev)) width else Fin 0);
                 pos = (if is_infinite le then fst prev else f64_add (fst prev) (f64_mul (f64_sub le (fst prev)) frac))
             in Some (f64_mul pos (Fin 1000)))"

definition windowed_quantile :: "(f64 \<times> f64) list \<Rightarrow> (f64 \<times> f64) list \<Rightarrow> phi \<Rightarrow> f64 option" where
  "windowed_quantile before after p = (if after = [] \<or> before = [] then None
     else if length before \<noteq> length after \<or> \<not> is_infinite (fst (last after)) then None
     else let rank = f64_mul (phi_value p) (f64_sub (snd (last after)) (snd (last before)))
       in if f64_le rank (Fin 0) then None else quantile_scan rank (Fin 0, Fin 0) (zip before after))"

definition count_above :: "(f64 \<times> f64) list \<Rightarrow> f64 \<Rightarrow> f64 option" where
  "count_above ladder v = (if ladder = [] then None
     else case find (\<lambda>(le, _). is_finite le \<and> f64_le v le) ladder of
       None \<Rightarrow> None
     | Some (_, inside) \<Rightarrow> if is_infinite (fst (last ladder)) then Some (f64_sub (snd (last ladder)) inside) else None)"

section \<open>Readings of one scrape\<close>

definition ex_resolves :: "exposition \<Rightarrow> metric_row \<Rightarrow> bool" where
  "ex_resolves e r = (case row_reading r of
     Mean _ \<Rightarrow> ex_tally e (row_family r) \<noteq> None
   | Quantile _ _ \<Rightarrow> (case ex_buckets e (row_family r) of Some b \<Rightarrow> b \<noteq> [] | None \<Rightarrow> False)
   | _ \<Rightarrow> ex_values e (row_family r) \<noteq> None)"

definition ex_publishes :: "exposition \<Rightarrow> family \<Rightarrow> bool" where
  "ex_publishes e f =
     (let seen = (\<lambda>sfx. case ex_part e f sfx of Some v \<Rightarrow> v \<noteq> [] | None \<Rightarrow> False)
      in seen [] \<or> seen ''_count'' \<or> ex_buckets e f \<noteq> None)"

definition ex_total :: "exposition \<Rightarrow> family \<Rightarrow> f64 option" where
  "ex_total e f = map_option f64_sum (ex_values e f)"

fun f64_max :: "f64 \<Rightarrow> f64 \<Rightarrow> f64" where
  "f64_max NaN y = y"
| "f64_max x NaN = x"
| "f64_max (Inf s) y = (if s then y else Inf s)"
| "f64_max x (Inf s) = (if s then x else Inf s)"
| "f64_max (Fin x) (Fin y) = Fin (max x y)"

definition ex_level :: "exposition \<Rightarrow> family \<Rightarrow> f64 option" where
  "ex_level e f = Option.bind (ex_values e f)
     (\<lambda>vs. fold (\<lambda>v acc. Some (case acc of None \<Rightarrow> v | Some a \<Rightarrow> f64_max a v)) vs None)"

text \<open>The truncating, saturating cast of a finite non-negative double.\<close>

definition finite_as_word :: "f64 \<Rightarrow> 'a::len word option" where
  "finite_as_word v = (case v of
     Fin x \<Rightarrow> if 0 \<le> x then Some (if \<lfloor>x\<rfloor> \<ge> 2 ^ LENGTH('a) then - 1 else word_of_int \<lfloor>x\<rfloor>) else None
   | _ \<Rightarrow> None)"

definition ex_height :: "exposition \<Rightarrow> family \<Rightarrow> u32 option" where
  "ex_height e f = Option.bind (ex_level e f) finite_as_word"

definition ex_counter_total :: "exposition \<Rightarrow> family \<Rightarrow> u64 option" where
  "ex_counter_total e f = Option.bind (ex_total e f) finite_as_word"

text \<open>A row that resolves has its family in the scrape, under one of its names.\<close>

lemma resolves_named:
  assumes "ex_resolves e r"
  shows "ex_by_name e (fam_name (row_family r)) \<noteq> None \<or> ex_by_name e (fam_name (row_family r) @ ''_count'') \<noteq> None
    \<or> ex_by_histogram e (fam_name (row_family r)) \<noteq> None"
  using assms
  by (auto simp: ex_resolves_def ex_tally_def ex_part_def ex_values_def ex_buckets_def split: metric_reading.splits option.splits)

text \<open>The bounds of the folded ladder ascend in the order of their bit patterns, each once.\<close>

lemma bits_less_trans: "bits_less u v \<Longrightarrow> bits_less v w \<Longrightarrow> bits_less u w"
  unfolding bits_less_def by linarith

lemma bits_less_total: "bits_less v w \<or> v = w \<or> bits_less w v"
  by (cases v; cases w) (auto simp: bits_less_def bits_rank_def)

lemma bucket_insert_bounds: "set (map fst (bucket_insert (le, c) ladder)) = insert le (fst ` set ladder)"
proof (induction ladder)
  case (Cons x ladder)
  obtain l d where x: "x = (l, d)" by fastforce
  show ?case
  proof (cases "le = l")
    case False
    with Cons show ?thesis by (cases "bits_less le l") (simp_all add: x insert_commute)
  qed (simp add: x)
qed simp

lemma bucket_insert_sorted:
  "sorted_wrt bits_less (map fst ladder) \<Longrightarrow> sorted_wrt bits_less (map fst (bucket_insert (le, c) ladder))"
proof (induction ladder)
  case (Cons x ladder)
  obtain l d where x: "x = (l, d)" by fastforce
  show ?case
  proof (cases "le = l \<or> bits_less le l")
    case True
    with Cons.prems show ?thesis by (auto simp: x intro: bits_less_trans)
  next
    case False
    with bits_less_total [of le l] have "bits_less l le" by blast
    with Cons False show ?thesis by (auto simp: x bucket_insert_bounds simp flip: set_map)
  qed
qed simp

lemma buckets_ascend:
  assumes "ex_buckets e f = Some ladder"
  shows "sorted_wrt bits_less (map fst ladder)"
proof -
  have "sorted_wrt bits_less (map fst (fold bucket_insert es ladder'))" if "sorted_wrt bits_less (map fst ladder')" for es ladder'
    using that by (induction es arbitrary: ladder') (auto intro!: bucket_insert_sorted)
  from this [of "[]"] assms show ?thesis by (auto simp: ex_buckets_def Let_def split: option.splits if_splits)
qed

end
