(* ===== verification/Sync_Probe.thy ===== *)
theory Sync_Probe
  imports Metrics_Catalogue
begin

text \<open>
  The vocabulary of a sync run: snapshots (\<open>src/src/sync/snapshot.rs\<close>, \<open>tree.rs\<close>, the progress
  columns of \<open>subject.rs\<close>), the restart window (\<open>restart.rs\<close>), the fault schedule (\<open>nemesis.rs\<close>
  and the \<open>Chaos\<close> clock of \<open>runner.rs\<close>), probes (\<open>probe.rs\<close>) and phases (\<open>phase.rs\<close>).
  Instants of the monotonic clock are nanoseconds, so \<open>duration_since\<close> is the truncating
  difference. A tree root is a string of 32 bytes. An \<open>f32\<close> is the double of its value. The
  body of a probe is code of a test: what it answers is an argument.
\<close>

section \<open>Progress and snapshots\<close>

datatype value_pool = PoolOrchard | PoolIronwood | PoolSapling | PoolTransparent

record pool_balances =
  pb_orchard :: u64
  pb_ironwood :: u64
  pb_sapling :: u64
  pb_transparent :: u64

definition pb_get :: "pool_balances \<Rightarrow> value_pool \<Rightarrow> u64" where
  "pb_get b p = (case p of PoolOrchard \<Rightarrow> pb_orchard b | PoolIronwood \<Rightarrow> pb_ironwood b | PoolSapling \<Rightarrow> pb_sapling b
     | PoolTransparent \<Rightarrow> pb_transparent b)"

record note_counts =
  nt_sapling :: nat
  nt_orchard :: nat
  nt_ironwood :: nat
  nt_transparent :: nat

record scan_totals =
  st_start_height :: u32
  st_end_height :: u32
  st_blocks_scanned :: u32
  st_sapling_outputs :: u32
  st_orchard_outputs :: u32
  st_ironwood_outputs :: u32

definition TREE_POOLS :: "value_pool list" where
  "TREE_POOLS = [PoolOrchard, PoolIronwood, PoolSapling]"

fun position :: "'a \<Rightarrow> 'a list \<Rightarrow> nat option" where
  "position x [] = None"
| "position x (y # ys) = (if y = x then Some 0 else map_option Suc (position x ys))"

definition tree_slot :: "value_pool \<Rightarrow> nat option" where
  "tree_slot p = position p TREE_POOLS"

record tree_roots =
  tr_per_pool :: "string option list option"

definition tr_UNREPORTED :: tree_roots where
  "tr_UNREPORTED = \<lparr>tr_per_pool = None\<rparr>"

definition tr_reported :: tree_roots where
  "tr_reported = \<lparr>tr_per_pool = Some (replicate (length TREE_POOLS) None)\<rparr>"

text \<open>\<open>None\<close> is the panic on a pool without a tree.\<close>

definition tr_with :: "value_pool \<Rightarrow> string option \<Rightarrow> tree_roots \<Rightarrow> tree_roots option" where
  "tr_with p r t = map_option (\<lambda>i. \<lparr>tr_per_pool = Some ((case tr_per_pool t of Some rs \<Rightarrow> rs
     | None \<Rightarrow> replicate (length TREE_POOLS) None)[i := r])\<rparr>) (tree_slot p)"

definition tr_is_reported :: "tree_roots \<Rightarrow> bool" where
  "tr_is_reported t \<longleftrightarrow> tr_per_pool t \<noteq> None"

definition tr_get :: "tree_roots \<Rightarrow> value_pool \<Rightarrow> string option" where
  "tr_get t p = (case tree_slot p of None \<Rightarrow> None
     | Some i \<Rightarrow> (case tr_per_pool t of Some rs \<Rightarrow> rs ! i | None \<Rightarrow> None))"

definition tr_require :: "tree_roots \<Rightarrow> value_pool \<Rightarrow> string option option" where
  "tr_require t p = (case tree_slot p of None \<Rightarrow> None
     | Some i \<Rightarrow> map_option (\<lambda>rs. rs ! i) (tr_per_pool t))"

record progress_view =
  pv_height :: u32
  pv_target :: "u32 option"
  pv_pct :: f64
  pv_work :: "sync_work option"
  pv_balances :: "pool_balances option"
  pv_tree_roots :: tree_roots
  pv_notes :: "note_counts option"
  pv_scan :: "scan_totals option"

record snapshot =
  sn_seq :: nat
  sn_at :: nat
  sn_height :: u32
  sn_prev_height :: u32
  sn_target :: "u32 option"
  sn_pct :: f64
  sn_work :: sync_work
  sn_prev_work :: sync_work
  sn_since_prev :: duration
  sn_balances :: "pool_balances option"
  sn_prev_balances :: "pool_balances option"
  sn_tree_roots :: tree_roots
  sn_notes :: "note_counts option"
  sn_scan :: "scan_totals option"
  sn_max_height_seen :: u32
  sn_last_progress_at :: nat
  sn_observed_reorg :: bool
  sn_observed_reconnect :: bool
  sn_last_fault_at :: "nat option"
  sn_restarts :: u32
  sn_restarting :: bool

definition sn_reorg_depth :: "snapshot \<Rightarrow> u32" where
  "sn_reorg_depth s = sat_sub (sn_max_height_seen s) (sn_height s)"

definition sn_work_done :: "snapshot \<Rightarrow> sync_work" where
  "sn_work_done s = wk_delta (sn_work s) (sn_prev_work s)"

definition sn_rate :: "snapshot \<Rightarrow> sync_rate" where
  "sn_rate s = wk_rate (sn_work_done s) (sn_since_prev s)"

definition sn_progressed_within :: "duration \<Rightarrow> snapshot \<Rightarrow> bool" where
  "sn_progressed_within window s \<longleftrightarrow> sn_at s - sn_last_progress_at s \<le> window"

definition sn_progressed_since_fault :: "snapshot \<Rightarrow> bool" where
  "sn_progressed_since_fault s = (case sn_last_fault_at s of
     Some f \<Rightarrow> sn_last_progress_at s \<ge> f | None \<Rightarrow> True)"

definition sn_observed_restart :: "snapshot \<Rightarrow> bool" where
  "sn_observed_restart s \<longleftrightarrow> sn_restarts s > 0"

record tick_events =
  te_last_fault_at :: "nat option"
  te_restarts :: u32
  te_restarting :: bool

definition te_default :: tick_events where
  "te_default = \<lparr>te_last_fault_at = None, te_restarts = 0, te_restarting = False\<rparr>"

record snapshot_builder =
  sb_seq :: nat
  sb_prev_height :: u32
  sb_prev_work :: sync_work
  sb_prev_balances :: "pool_balances option"
  sb_prev_at :: nat
  sb_max_height_seen :: u32
  sb_last_progress_at :: nat
  sb_observed_reorg :: bool
  sb_observed_reconnect :: bool

definition sb_new :: "nat \<Rightarrow> snapshot_builder" where
  "sb_new started_at = \<lparr>sb_seq = 0, sb_prev_height = 0, sb_prev_work = wk_ZERO, sb_prev_balances = None,
     sb_prev_at = started_at, sb_max_height_seen = 0, sb_last_progress_at = started_at,
     sb_observed_reorg = False, sb_observed_reconnect = False\<rparr>"

text \<open>The opening readings are baselines.\<close>

definition sb_open :: "progress_view \<Rightarrow> nat \<Rightarrow> sync_work \<Rightarrow> snapshot_builder \<Rightarrow> snapshot_builder" where
  "sb_open p now work b = (if sb_seq b = 0 then
     b\<lparr>sb_prev_height := pv_height p, sb_prev_balances := pv_balances p, sb_prev_work := work, sb_prev_at := now,
       sb_max_height_seen := pv_height p, sb_last_progress_at := now\<rparr> else b)"

definition sb_fold :: "progress_view \<Rightarrow> nat \<Rightarrow> snapshot_builder \<Rightarrow> snapshot_builder" where
  "sb_fold p now b =
     (let b1 = (if pv_height p > sb_prev_height b then b\<lparr>sb_last_progress_at := now\<rparr> else b)
      in if pv_height p < sb_max_height_seen b1 then b1\<lparr>sb_observed_reorg := True\<rparr> else b1)"

definition sb_build ::
  "progress_view \<Rightarrow> nat \<Rightarrow> sync_work \<Rightarrow> tick_events \<Rightarrow> snapshot_builder \<Rightarrow> snapshot \<times> snapshot_builder" where
  "sb_build p now work ev b0 =
     (let height = pv_height p;
          b = sb_fold p now (sb_open p now work b0)
      in (\<lparr>sn_seq = sb_seq b, sn_at = now, sn_height = height, sn_prev_height = sb_prev_height b,
           sn_target = pv_target p, sn_pct = pv_pct p, sn_work = work, sn_prev_work = sb_prev_work b,
           sn_since_prev = now - sb_prev_at b, sn_balances = pv_balances p, sn_prev_balances = sb_prev_balances b,
           sn_tree_roots = pv_tree_roots p, sn_notes = pv_notes p, sn_scan = pv_scan p,
           sn_max_height_seen = max (sb_max_height_seen b) height, sn_last_progress_at = sb_last_progress_at b,
           sn_observed_reorg = sb_observed_reorg b, sn_observed_reconnect = sb_observed_reconnect b,
           sn_last_fault_at = te_last_fault_at ev, sn_restarts = te_restarts ev, sn_restarting = te_restarting ev\<rparr>,
          b\<lparr>sb_seq := sb_seq b + 1, sb_prev_height := height, sb_prev_work := work, sb_prev_balances := pv_balances p,
            sb_prev_at := now, sb_max_height_seen := max (sb_max_height_seen b) height\<rparr>))"

record history =
  hi_buf :: "snapshot list"
  hi_cap :: nat
  hi_dropped :: nat

definition hi_new :: "nat \<Rightarrow> history" where
  "hi_new cap = \<lparr>hi_buf = [], hi_cap = cap, hi_dropped = 0\<rparr>"

definition hi_push :: "snapshot \<Rightarrow> history \<Rightarrow> history" where
  "hi_push s h = (let h' = (if length (hi_buf h) = hi_cap h
       then h\<lparr>hi_buf := tl (hi_buf h), hi_dropped := hi_dropped h + 1\<rparr> else h)
     in h'\<lparr>hi_buf := hi_buf h' @ [s]\<rparr>)"

definition hi_latest :: "history \<Rightarrow> snapshot option" where
  "hi_latest h = (if hi_buf h = [] then None else Some (last (hi_buf h)))"

section \<open>Restart windows\<close>

record container_sample =
  cs_restarts :: u32
  cs_ready :: bool

record restart_watch =
  rw_baseline :: "u32 option list"
  rw_seen :: u32
  rw_holding :: bool

definition rw_default :: restart_watch where
  "rw_default = \<lparr>rw_baseline = [], rw_seen = 0, rw_holding = False\<rparr>"

definition rw_open :: "restart_watch \<Rightarrow> restart_watch" where
  "rw_open w = w\<lparr>rw_holding := True\<rparr>"

text \<open>\<open>Vec::resize\<close> with \<open>None\<close>.\<close>

definition rw_resize :: "nat \<Rightarrow> u32 option list \<Rightarrow> u32 option list" where
  "rw_resize n bs = take n bs @ replicate (n - length bs) None"

text \<open>
  One tick over the watched containers. The sum of their restarts is a \<open>u32\<close> that wraps, as in a
  release build; a build with overflow checks would panic where it passes the range.\<close>

fun rw_loop :: "u32 option list \<Rightarrow> container_sample option list \<Rightarrow> u32 \<Rightarrow> bool \<Rightarrow> u32 option list \<times> u32 \<times> bool" where
  "rw_loop (b # bs) (s # ss) restarts down = (case s of
     None \<Rightarrow> (let (bs', r, d) = rw_loop bs ss restarts down in (b # bs', r, d))
   | Some c \<Rightarrow> (let base = (case b of Some v \<Rightarrow> v | None \<Rightarrow> cs_restarts c);
                   (bs', r, d) = rw_loop bs ss (restarts + sat_sub (cs_restarts c) base) (down \<or> \<not> cs_ready c)
               in (Some base # bs', r, d)))"
| "rw_loop bs _ restarts down = (bs, restarts, down)"

definition rw_observe :: "container_sample option list \<Rightarrow> bool \<Rightarrow> restart_watch \<Rightarrow> restart_watch" where
  "rw_observe samples answered w =
     (let (bs, restarts, down) = rw_loop (rw_resize (length samples) (rw_baseline w)) samples 0 False;
          h1 = (if restarts > rw_seen w \<or> down then True else rw_holding w);
          seen = max (rw_seen w) restarts
      in \<lparr>rw_baseline = bs, rw_seen = seen, rw_holding = (if h1 \<and> \<not> down \<and> answered then False else h1)\<rparr>)"

section \<open>Faults\<close>

datatype rpc_fault = DropConnection | SlowResponse duration

record netem_spec =
  ne_delay_ms :: u32
  ne_jitter_ms :: u32
  ne_loss :: f64

definition netem_jitter :: "u32 \<Rightarrow> netem_spec \<Rightarrow> netem_spec" where
  "netem_jitter j s = s\<lparr>ne_jitter_ms := j\<rparr>"

definition netem_loss :: "f64 \<Rightarrow> netem_spec \<Rightarrow> netem_spec" where
  "netem_loss l s = s\<lparr>ne_loss := l\<rparr>"

definition netem_delay :: "u32 \<Rightarrow> netem_spec" where
  "netem_delay d = \<lparr>ne_delay_ms = d, ne_jitter_ms = 0, ne_loss = Fin 0\<rparr>"

datatype fault_kind = Partition string string | Netem string netem_spec | IsolateP2p string | Kill string

record scheduled_fault =
  sf_name :: "string option"
  sf_at :: duration
  sf_duration :: "duration option"
  sf_kind :: fault_kind

record buggify_rule =
  br_prob :: f64
  br_fault :: rpc_fault

record nemesis =
  nm_seed :: u64
  nm_buggify :: "buggify_rule list"
  nm_scheduled :: "scheduled_fault list"
  nm_heal_on_drop :: bool

record nemesis_builder =
  nb_nemesis :: nemesis
  nb_name :: "string option"
  nb_at :: "duration option"
  nb_for :: "duration option"
  nb_channel :: bool

definition nemesis_builder_of :: "nemesis \<Rightarrow> nemesis_builder" where
  "nemesis_builder_of n = \<lparr>nb_nemesis = n, nb_name = None, nb_at = None, nb_for = None, nb_channel = False\<rparr>"

definition push_scheduled :: "fault_kind \<Rightarrow> nemesis_builder \<Rightarrow> nemesis_builder" where
  "push_scheduled k b = (let n = nb_nemesis b in
     b\<lparr>nb_nemesis := n\<lparr>nm_scheduled := nm_scheduled n @ [\<lparr>sf_name = nb_name b,
         sf_at = (case nb_at b of Some d \<Rightarrow> d | None \<Rightarrow> 0), sf_duration = nb_for b, sf_kind = k\<rparr>]\<rparr>,
       nb_name := None, nb_at := None, nb_for := None\<rparr>)"

definition fault_named :: "string \<Rightarrow> nemesis_builder \<Rightarrow> nemesis_builder" where
  "fault_named n b = b\<lparr>nb_name := Some n\<rparr>"

definition fault_at :: "duration \<Rightarrow> nemesis_builder \<Rightarrow> nemesis_builder" where
  "fault_at d b = b\<lparr>nb_at := Some d\<rparr>"

definition fault_for :: "duration \<Rightarrow> nemesis_builder \<Rightarrow> nemesis_builder" where
  "fault_for d b = b\<lparr>nb_for := Some d\<rparr>"

definition fault_partition :: "string \<Rightarrow> string \<Rightarrow> nemesis_builder \<Rightarrow> nemesis_builder" where
  "fault_partition x y b = push_scheduled (Partition x y) b"

definition fault_netem :: "string \<Rightarrow> netem_spec \<Rightarrow> nemesis_builder \<Rightarrow> nemesis_builder" where
  "fault_netem node spec b = push_scheduled (Netem node spec) b"

definition fault_isolate_p2p :: "string \<Rightarrow> nemesis_builder \<Rightarrow> nemesis_builder" where
  "fault_isolate_p2p node b = push_scheduled (IsolateP2p node) b"

definition fault_kill :: "string \<Rightarrow> nemesis_builder \<Rightarrow> nemesis_builder" where
  "fault_kill component b = push_scheduled (Kill component) b"

definition fault_channel :: "nemesis_builder \<Rightarrow> nemesis_builder" where
  "fault_channel b = b\<lparr>nb_channel := True\<rparr>"

definition nemesis_seed :: "u64 \<Rightarrow> nemesis_builder \<Rightarrow> nemesis_builder" where
  "nemesis_seed sd b = b\<lparr>nb_nemesis := (nb_nemesis b)\<lparr>nm_seed := sd\<rparr>\<rparr>"

definition heal_all_on_drop :: "nemesis_builder \<Rightarrow> nemesis_builder" where
  "heal_all_on_drop b = b\<lparr>nb_nemesis := (nb_nemesis b)\<lparr>nm_heal_on_drop := True\<rparr>\<rparr>"

text \<open>\<open>None\<close> is the debug assertion that a channel was selected.\<close>

definition nb_buggify :: "f64 \<Rightarrow> rpc_fault \<Rightarrow> nemesis_builder \<Rightarrow> nemesis_builder option" where
  "nb_buggify p f b = (if nb_channel b then (let n = nb_nemesis b in
     Some (b\<lparr>nb_nemesis := n\<lparr>nm_buggify := nm_buggify n @ [\<lparr>br_prob = p, br_fault = f\<rparr>]\<rparr>\<rparr>)) else None)"

text \<open>\<open>draw\<close> is the random generator of the \<open>rand\<close> crate.\<close>

fun next_fault :: "('r \<Rightarrow> f64 \<times> 'r) \<Rightarrow> buggify_rule list \<Rightarrow> 'r \<Rightarrow> rpc_fault option \<times> 'r" where
  "next_fault draw [] rng = (None, rng)"
| "next_fault draw (r # rs) rng = (let (x, rng') = draw rng in
     if f64_less x (br_prob r) then (Some (br_fault r), rng') else next_fault draw rs rng')"

record chaos =
  ch_origin :: nat
  ch_pending :: "scheduled_fault list"
  ch_fired :: "(string \<times> nat) list"
  ch_last_fault_at :: "nat option"

definition is_kill :: "scheduled_fault \<Rightarrow> bool" where
  "is_kill f = (case sf_kind f of Kill _ \<Rightarrow> True | _ \<Rightarrow> False)"

definition chaos_new :: "scheduled_fault list \<Rightarrow> nat \<Rightarrow> chaos" where
  "chaos_new faults origin = \<lparr>ch_origin = origin, ch_pending = sort_key sf_at (filter is_kill faults),
     ch_fired = [], ch_last_fault_at = None\<rparr>"

definition take_due :: "nat \<Rightarrow> chaos \<Rightarrow> scheduled_fault list \<times> chaos" where
  "take_due now c = (let split = length (takeWhile (\<lambda>f. ch_origin c + sf_at f \<le> now) (ch_pending c)) in
     (take split (ch_pending c), c\<lparr>ch_pending := drop split (ch_pending c)\<rparr>))"

definition chaos_record :: "scheduled_fault \<Rightarrow> nat \<Rightarrow> chaos \<Rightarrow> chaos" where
  "chaos_record f t c = (case sf_name f of
     Some n \<Rightarrow> c\<lparr>ch_fired := ch_fired c @ [(n, t)], ch_last_fault_at := Some t\<rparr>
   | None \<Rightarrow> c\<lparr>ch_last_fault_at := Some t\<rparr>)"

definition chaos_fired :: "chaos \<Rightarrow> string \<Rightarrow> bool" where
  "chaos_fired c name = list_ex (\<lambda>(n, _). n = name) (ch_fired c)"

section \<open>Probes\<close>

record violation =
  vi_probe :: string
  vi_height :: "u32 option"
  vi_detail :: string

definition violation_new :: "u32 option \<Rightarrow> string \<Rightarrow> violation" where
  "violation_new h d = \<lparr>vi_probe = [], vi_height = h, vi_detail = d\<rparr>"

datatype probe_verdict = Satisfied | Pending | Violated violation | ProbeError string

datatype severity = Fatal | Recorded

datatype probe_class = Always | Eventually | Sometimes | AtCompletion

datatype cadence = EachTick | Every duration | EveryBlocks u32 | Window duration

text \<open>A body's failure: a violation it raised, or any other error, as it prints.\<close>

datatype body_error = BodyViolation violation | BodyError string

definition probe_failed :: "body_error \<Rightarrow> probe_verdict" where
  "probe_failed e = (case e of BodyViolation v \<Rightarrow> Violated v | BodyError s \<Rightarrow> ProbeError s)"

definition answer_unit :: "body_error + unit \<Rightarrow> probe_verdict" where
  "answer_unit a = (case a of Inl e \<Rightarrow> probe_failed e | Inr _ \<Rightarrow> Satisfied)"

definition answer_bool :: "body_error + bool \<Rightarrow> probe_verdict" where
  "answer_bool a = (case a of Inl e \<Rightarrow> probe_failed e | Inr b \<Rightarrow> if b then Satisfied else Pending)"

text \<open>The answer type follows the class: an always or completion probe answers nothing but \<open>()\<close>.\<close>

definition judge_answer :: "probe_class \<Rightarrow> body_error + bool \<Rightarrow> probe_verdict" where
  "judge_answer c a = (case c of
     Always \<Rightarrow> answer_unit (map_sum id (\<lambda>_. ()) a) | AtCompletion \<Rightarrow> answer_unit (map_sum id (\<lambda>_. ()) a)
   | _ \<Rightarrow> answer_bool a)"

record probe_spec =
  pr_name :: string
  pr_class :: probe_class
  pr_severity :: severity
  pr_cadence :: cadence
  pr_after :: "string option"
  pr_hold_for :: "duration option"
  pr_within :: "duration option"
  pr_last_fired_seq :: "nat option"
  pr_last_fired_height :: u32
  pr_next_due :: "nat option"
  pr_violation_streak :: nat
  pr_last_satisfied :: "nat option"
  pr_ever_satisfied :: bool

definition pr_fresh :: "probe_spec \<Rightarrow> probe_spec" where
  "pr_fresh p = p\<lparr>pr_last_fired_seq := None, pr_last_fired_height := 0, pr_next_due := None,
     pr_violation_streak := 0, pr_last_satisfied := None, pr_ever_satisfied := False\<rparr>"

definition pr_due :: "probe_spec \<Rightarrow> u32 \<Rightarrow> nat \<Rightarrow> bool" where
  "pr_due p height now = (case pr_class p of
     Sometimes \<Rightarrow> False | AtCompletion \<Rightarrow> False
   | _ \<Rightarrow> (case pr_cadence p of
       EachTick \<Rightarrow> True | Window _ \<Rightarrow> True
     | Every _ \<Rightarrow> (case pr_next_due p of None \<Rightarrow> True | Some due \<Rightarrow> now \<ge> due)
     | EveryBlocks n \<Rightarrow> pr_last_fired_seq p = None \<or> sat_sub height (pr_last_fired_height p) \<ge> n))"

definition pr_mark_fired :: "nat \<Rightarrow> u32 \<Rightarrow> nat \<Rightarrow> probe_spec \<Rightarrow> probe_spec" where
  "pr_mark_fired seq height now p =
     (let q = p\<lparr>pr_last_fired_seq := Some seq, pr_last_fired_height := height\<rparr>
      in case pr_cadence q of Every d \<Rightarrow> q\<lparr>pr_next_due := Some (now + d)\<rparr> | _ \<Rightarrow> q)"

text \<open>\<open>f64::ceil\<close> and the saturating cast \<open>as u32\<close>.\<close>

definition ceil_as_u32 :: "f64 \<Rightarrow> nat" where
  "ceil_as_u32 v = (case v of
     Fin x \<Rightarrow> if x \<le> 0 then 0 else min (nat \<lceil>x\<rceil>) (2 ^ 32 - 1)
   | Inf neg \<Rightarrow> if neg then 0 else 2 ^ 32 - 1 | NaN \<Rightarrow> 0)"

definition pr_violation_threshold :: "probe_spec \<Rightarrow> nat" where
  "pr_violation_threshold p = (case (pr_hold_for p, pr_cadence p) of
     (Some hold, Every d) \<Rightarrow> if d \<noteq> 0
       then ceil_as_u32 (case as_secs_f64 d of Fin s \<Rightarrow> f64_div_pos (as_secs_f64 hold) s | _ \<Rightarrow> NaN) else 1
   | _ \<Rightarrow> 1)"

definition DURATION_MAX :: duration where
  "DURATION_MAX = secs (2 ^ 64 - 1) + 999999999"

record probe_builder =
  bd_name :: string
  bd_class :: probe_class
  bd_severity :: severity
  bd_cadence :: cadence
  bd_after :: "string option"
  bd_hold_for :: "duration option"
  bd_within :: "duration option"

definition bd_new :: "probe_class \<Rightarrow> string \<Rightarrow> severity \<Rightarrow> probe_builder" where
  "bd_new c name sev = \<lparr>bd_name = name, bd_class = c, bd_severity = sev,
     bd_cadence = (case c of Eventually \<Rightarrow> Window DURATION_MAX | _ \<Rightarrow> EachTick),
     bd_after = None, bd_hold_for = None, bd_within = None\<rparr>"

definition bd_every :: "duration \<Rightarrow> probe_builder \<Rightarrow> probe_builder" where
  "bd_every d b = b\<lparr>bd_cadence := Every d\<rparr>"

definition bd_every_blocks :: "u32 \<Rightarrow> probe_builder \<Rightarrow> probe_builder" where
  "bd_every_blocks n b = b\<lparr>bd_cadence := EveryBlocks n\<rparr>"

definition bd_each_tick :: "probe_builder \<Rightarrow> probe_builder" where
  "bd_each_tick b = b\<lparr>bd_cadence := EachTick\<rparr>"

definition bd_hold :: "duration \<Rightarrow> probe_builder \<Rightarrow> probe_builder" where
  "bd_hold d b = b\<lparr>bd_hold_for := Some d\<rparr>"

definition bd_window :: "duration \<Rightarrow> probe_builder \<Rightarrow> probe_builder" where
  "bd_window d b = b\<lparr>bd_cadence := Window d\<rparr>"

definition bd_after_fault :: "string \<Rightarrow> probe_builder \<Rightarrow> probe_builder" where
  "bd_after_fault f b = b\<lparr>bd_after := Some f\<rparr>"

definition bd_within_span :: "duration \<Rightarrow> probe_builder \<Rightarrow> probe_builder" where
  "bd_within_span d b = b\<lparr>bd_within := Some d\<rparr>"

definition bd_check :: "probe_builder \<Rightarrow> probe_spec list \<Rightarrow> probe_spec list" where
  "bd_check b sink = sink @ [\<lparr>pr_name = bd_name b, pr_class = bd_class b, pr_severity = bd_severity b,
     pr_cadence = bd_cadence b, pr_after = bd_after b, pr_hold_for = bd_hold_for b, pr_within = bd_within b,
     pr_last_fired_seq = None, pr_last_fired_height = 0, pr_next_due = None, pr_violation_streak = 0,
     pr_last_satisfied = None, pr_ever_satisfied = False\<rparr>]"

section \<open>Phases\<close>

definition DEFAULT_TICK :: duration where
  "DEFAULT_TICK = secs 5"

text \<open>Whether the subject's source is still there: a phase runs once.\<close>

record sync_phase =
  ph_name :: string
  ph_source :: bool
  ph_probes :: "probe_spec list"
  ph_tick :: duration
  ph_timeout :: "duration option"
  ph_stop_height :: "u32 option"
  ph_stop_after :: "u32 option"
  ph_required_work :: op_set
  ph_ready :: "family list"

definition ph_with_source :: "string \<Rightarrow> sync_phase" where
  "ph_with_source name = \<lparr>ph_name = name, ph_source = True, ph_probes = [], ph_tick = DEFAULT_TICK, ph_timeout = None,
     ph_stop_height = None, ph_stop_after = None, ph_required_work = os_NONE, ph_ready = []\<rparr>"

definition ph_set_tick :: "duration \<Rightarrow> sync_phase \<Rightarrow> sync_phase" where
  "ph_set_tick d p = p\<lparr>ph_tick := d\<rparr>"

definition ph_set_timeout :: "duration \<Rightarrow> sync_phase \<Rightarrow> sync_phase" where
  "ph_set_timeout d p = p\<lparr>ph_timeout := Some d\<rparr>"

definition ph_requires_work :: "op_set \<Rightarrow> sync_phase \<Rightarrow> sync_phase" where
  "ph_requires_work ops p = p\<lparr>ph_required_work := ops\<rparr>"

text \<open>The registrations: a builder of the class, finalized into the phase's probes.\<close>

definition ph_always :: "string \<Rightarrow> severity \<Rightarrow> (probe_builder \<Rightarrow> probe_builder) \<Rightarrow> sync_phase \<Rightarrow> sync_phase" where
  "ph_always name sev build p = p\<lparr>ph_probes := bd_check (build (bd_new Always name sev)) (ph_probes p)\<rparr>"

definition ph_eventually :: "string \<Rightarrow> severity \<Rightarrow> (probe_builder \<Rightarrow> probe_builder) \<Rightarrow> sync_phase \<Rightarrow> sync_phase" where
  "ph_eventually name sev build p = p\<lparr>ph_probes := bd_check (build (bd_new Eventually name sev)) (ph_probes p)\<rparr>"

definition ph_sometimes :: "string \<Rightarrow> (probe_builder \<Rightarrow> probe_builder) \<Rightarrow> sync_phase \<Rightarrow> sync_phase" where
  "ph_sometimes name build p = p\<lparr>ph_probes := bd_check (build (bd_new Sometimes name Fatal)) (ph_probes p)\<rparr>"

definition ph_at_completion :: "string \<Rightarrow> severity \<Rightarrow> (probe_builder \<Rightarrow> probe_builder) \<Rightarrow> sync_phase \<Rightarrow> sync_phase" where
  "ph_at_completion name sev build p = p\<lparr>ph_probes := bd_check (build (bd_new AtCompletion name sev)) (ph_probes p)\<rparr>"

definition ph_until_height :: "u32 \<Rightarrow> sync_phase \<Rightarrow> sync_phase" where
  "ph_until_height h p = p\<lparr>ph_stop_height := Some h, ph_stop_after := None\<rparr>"

definition ph_for_blocks :: "u32 \<Rightarrow> sync_phase \<Rightarrow> sync_phase" where
  "ph_for_blocks n p = p\<lparr>ph_stop_height := None, ph_stop_after := Some n\<rparr>"

definition ph_ready_within :: "family \<Rightarrow> duration \<Rightarrow> sync_phase \<Rightarrow> sync_phase" where
  "ph_ready_within f ready p = (let g = f\<lparr>fam_ready := ready\<rparr> in
     p\<lparr>ph_ready := filter (\<lambda>x. \<not> family_is x g) (ph_ready p) @ [g]\<rparr>)"

definition ph_ready_for :: "sync_phase \<Rightarrow> family \<Rightarrow> duration" where
  "ph_ready_for p f = (case find (\<lambda>x. family_is x f) (ph_ready p) of Some g \<Rightarrow> fam_ready g | None \<Rightarrow> fam_ready f)"

record phase_outcome =
  po_name :: string
  po_verdict :: sync_verdict
  po_started_ms :: u64
  po_elapsed_ms :: u64
  po_ticks :: nat
  po_violations :: nat
  po_coverage_gaps :: "string list"
  po_error :: "string option"
  po_restarts :: u32

text \<open>The dash between spaces, as UTF-8.\<close>

definition em_dash :: string where
  "em_dash = [CHR '' '', CHR 0xE2, CHR 0x80, CHR 0x94, CHR '' '']"

definition po_describe :: "phase_outcome \<Rightarrow> string" where
  "po_describe o1 =
     po_name o1 @ '': '' @ show_verdict (po_verdict o1) @ '' in '' @ format_span (unat (po_elapsed_ms o1) * 1000000) @
     '' ('' @ show_nat (po_ticks o1) @ '' ticks, '' @ show_nat (po_violations o1) @ '' violations'' @
     (if po_restarts o1 > 0 then '', '' @ show_nat (unat (po_restarts o1)) @ '' restarts'' else []) @
     (if po_coverage_gaps o1 \<noteq> [] then '', gaps: '' @ join '', '' (po_coverage_gaps o1) else []) @ '')'' @
     (case po_error o1 of Some e \<Rightarrow> em_dash @ e | None \<Rightarrow> [])"

end
