(* ===== verification/Sync_Observe.thy ===== *)
theory Sync_Observe
  imports Sync_Probe
begin

text \<open>
  Watching a component from outside: the trailing window over sampled counters with its rate
  estimator, \<open>src/src/rate.rs\<close>, and the live columns of one scrape, \<open>src/src/sync/observe.rs\<close>.
  Both kinds of stamp are nanoseconds, so \<open>since\<close> is the truncating difference. What a
  component publishes (its heights and counters) is an argument; the per-component parts of
  an observation are its backend's.
\<close>

section \<open>Square roots of doubles\<close>

function isqrt :: "nat \<Rightarrow> nat" where
  "isqrt n = (if n = 0 then 0 else let r = 2 * isqrt (n div 4) in if (r + 1) * (r + 1) \<le> n then r + 1 else r)"
  by pat_completeness auto
termination
  by (relation "measure id") auto

declare isqrt.simps [simp del]

lemma isqrt_bounds: "isqrt n * isqrt n \<le> n \<and> n < (isqrt n + 1) * (isqrt n + 1)"
proof (induction n rule: isqrt.induct)
  case (1 n)
  show ?case
  proof (cases "n = 0")
    case False
    let ?q = "isqrt (n div 4)"
    have q: "?q * ?q \<le> n div 4" "n div 4 < (?q + 1) * (?q + 1)" using 1 False by auto
    have lo: "(2 * ?q) * (2 * ?q) \<le> n" using q(1) by linarith
    have "n div 4 + 1 \<le> (?q + 1) * (?q + 1)" using q(2) by linarith
    then have "4 * (n div 4 + 1) \<le> (2 * ?q + 2) * (2 * ?q + 2)" by (simp add: algebra_simps)
    moreover have "n < 4 * (n div 4 + 1)" by presburger
    ultimately have hi: "n < (2 * ?q + 2) * (2 * ?q + 2)" by (rule less_le_trans [rotated])
    show ?thesis
    proof (cases "(2 * ?q + 1) * (2 * ?q + 1) \<le> n")
      case True
      with False have "isqrt n = 2 * ?q + 1" by (subst isqrt.simps) (simp add: Let_def)
      with True hi show ?thesis by simp
    next
      case smaller: False
      with False have "isqrt n = 2 * ?q" by (subst isqrt.simps) (simp add: Let_def)
      with lo smaller show ?thesis by simp
    qed
  qed (simp add: isqrt.simps)
qed

text \<open>The root of a finite double is a normal double: the nearest one is between two multiples of its last place.\<close>

definition floor_log2 :: "rat \<Rightarrow> int" where
  "floor_log2 x = (let (n, d) = quotient_of x; k = ilog2 n - ilog2 d in if pow2 k \<le> x then k else k - 1)"

fun f64_sqrt :: "f64 \<Rightarrow> f64" where
  "f64_sqrt (Fin x) = (if x < 0 then NaN else if x = 0 then Fin 0
     else let e = floor_log2 x div 2 - 52; q = x / pow2 (2 * e); s = of_nat (isqrt (nat \<lfloor>q\<rfloor>)) :: rat
       in Fin ((if q \<le> (s + 1 / 2) * (s + 1 / 2) then s else s + 1) * pow2 e))"
| "f64_sqrt (Inf neg) = (if neg then NaN else Inf False)"
| "f64_sqrt NaN = NaN"

section \<open>The trailing window\<close>

definition WINDOW_SAMPLES :: nat where
  "WINDOW_SAMPLES = 4"

definition STEADY_INTERVALS :: nat where
  "STEADY_INTERVALS = 3"

definition STEADY_COV :: f64 where
  "STEADY_COV = f64_of_rat (35 / 100)"

definition since :: "nat \<Rightarrow> nat \<Rightarrow> duration" where
  "since now earlier = now - earlier"

record pace =
  pc_per_sec :: f64
  pc_eta :: "duration option"

record 'a window =
  wd_span :: duration
  wd_ring :: "(nat \<times> 'a) list"

definition wd_new :: "duration \<Rightarrow> 'a window" where
  "wd_new interval = \<lparr>wd_span = interval * WINDOW_SAMPLES, wd_ring = []\<rparr>"

definition wd_push :: "nat \<Rightarrow> 'a \<Rightarrow> 'a window \<Rightarrow> 'a window" where
  "wd_push now x w =
     (let ring = (if wd_ring w \<noteq> [] \<and> since now (fst (last (wd_ring w))) > wd_span w then [] else wd_ring w)
      in w\<lparr>wd_ring := dropWhile (\<lambda>(t, _). \<not> since now t \<le> wd_span w) ring @ [(now, x)]\<rparr>)"

definition wd_latest :: "'a window \<Rightarrow> 'a option" where
  "wd_latest w = (if wd_ring w = [] then None else Some (snd (last (wd_ring w))))"

definition wd_endpoints :: "'a window \<Rightarrow> ('a \<times> 'a \<times> duration) option" where
  "wd_endpoints w = (if wd_ring w = [] then None
     else let (t0, x0) = hd (wd_ring w); (t1, x1) = last (wd_ring w)
       in if since t1 t0 \<noteq> 0 then Some (x0, x1, since t1 t0) else None)"

text \<open>The rates of the intervals that advance, from one reading to the next.\<close>

fun interval_rates :: "(nat \<times> f64) list \<Rightarrow> f64 list" where
  "interval_rates ((t0, x0) # (t1, x1) # rest) =
     (let dt = as_secs_f64 (since t1 t0); rs = interval_rates ((t1, x1) # rest)
      in if f64_less (Fin 0) dt \<and> f64_le x0 x1 then f64_div_above (f64_sub x1 x0) dt # rs else rs)"
| "interval_rates _ = []"

definition f64_mean :: "f64 list \<Rightarrow> f64" where
  "f64_mean xs = f64_div_above (f64_sum xs) (f64_of_rat (of_nat (length xs)))"

definition steady_rates :: "(nat \<times> f64) list \<Rightarrow> bool" where
  "steady_rates series = (let rates = interval_rates series in
     if length rates < STEADY_INTERVALS then False
     else let mean = f64_mean rates in
       if f64_le mean (Fin 0) then False
       else let variance = f64_mean (map (\<lambda>r. f64_mul (f64_sub r mean) (f64_sub r mean)) rates)
         in f64_le (f64_div_above (f64_sqrt variance) mean) STEADY_COV)"

definition wd_series :: "('a \<Rightarrow> f64 option) \<Rightarrow> 'a window \<Rightarrow> (nat \<times> f64) list" where
  "wd_series read w = List.map_filter (\<lambda>(t, x). map_option (\<lambda>v. (t, v)) (read x)) (wd_ring w)"

text \<open>The outer option is the panic of a projection past the largest duration.\<close>

definition pace_by :: "('a \<Rightarrow> f64 option) \<Rightarrow> f64 option \<Rightarrow> 'a window \<Rightarrow> pace option option" where
  "pace_by read remaining w = (let series = wd_series read w in
     if series = [] then Some None
     else let (t0, x0) = hd series; (t1, x1) = last series; elapsed = since t1 t0 in
       if elapsed = 0 \<or> f64_less x1 x0 then Some None
       else let per_sec = f64_div_above (f64_sub x1 x0) (as_secs_f64 elapsed) in
         case (if f64_less (Fin 0) per_sec \<and> steady_rates series then remaining else None) of
           None \<Rightarrow> Some (Some \<lparr>pc_per_sec = per_sec, pc_eta = None\<rparr>)
         | Some left \<Rightarrow> map_option (\<lambda>d. Some \<lparr>pc_per_sec = per_sec, pc_eta = Some d\<rparr>)
             (from_secs_f64 (f64_div_above left per_sec)))"

definition wd_pace :: "f64 option \<Rightarrow> u64 window \<Rightarrow> pace option option" where
  "wd_pace remaining w = pace_by (\<lambda>c. Some (u64_as_f64 c)) remaining w"

definition wd_per_sec :: "u64 window \<Rightarrow> f64 option option" where
  "wd_per_sec w = map_option (map_option pc_per_sec) (wd_pace None w)"

section \<open>Observations\<close>

record timing =
  tm_tally :: tally
  tm_buckets :: "(f64 \<times> f64) list"

record latency =
  la_mean_ms :: "f64 option"
  la_p99_ms :: "f64 option"

record sync_cost =
  co_fetch :: "timing option"
  co_treestate :: "timing option"
  co_assemble :: "timing option"
  co_grpc :: "timing option"

record cost_ms =
  cm_fetch :: latency
  cm_treestate :: latency
  cm_assemble :: latency
  cm_grpc :: latency

definition timing_over :: "timing option \<Rightarrow> timing option \<Rightarrow> latency" where
  "timing_over before after = (case (before, after) of
     (Some b, Some a) \<Rightarrow> \<lparr>la_mean_ms = mean_ms (tm_tally b) (tm_tally a), la_p99_ms = windowed_quantile (tm_buckets b) (tm_buckets a) P99\<rparr>
   | _ \<Rightarrow> \<lparr>la_mean_ms = None, la_p99_ms = None\<rparr>)"

definition cost_over :: "sync_cost \<Rightarrow> sync_cost \<Rightarrow> cost_ms" where
  "cost_over before after = \<lparr>cm_fetch = timing_over (co_fetch before) (co_fetch after),
     cm_treestate = timing_over (co_treestate before) (co_treestate after),
     cm_assemble = timing_over (co_assemble before) (co_assemble after), cm_grpc = timing_over (co_grpc before) (co_grpc after)\<rparr>"

record observation =
  ob_height :: "u32 option"
  ob_target :: "u32 option"
  ob_reported_pct :: "f64 option"
  ob_transactions :: "u64 option"
  ob_work :: sync_work
  ob_cost :: sync_cost

definition u32_as_f64 :: "u32 \<Rightarrow> f64" where
  "u32_as_f64 n = Fin (of_nat (unat n))"

definition no_cost :: sync_cost where
  "no_cost = \<lparr>co_fetch = None, co_treestate = None, co_assemble = None, co_grpc = None\<rparr>"

definition observation_of :: "snapshot \<Rightarrow> observation" where
  "observation_of s = \<lparr>ob_height = Some (sn_height s), ob_target = sn_target s, ob_reported_pct = Some (sn_pct s),
     ob_transactions = None, ob_work = sn_work s, ob_cost = no_cost\<rparr>"

record heights =
  hs_height :: family
  hs_target :: "family option"
  hs_tip :: "family option"

datatype observed_source = DriverTicks | Exporter string

record observed =
  os_name :: string
  os_source :: observed_source

definition observed_ticks :: "string \<Rightarrow> observed" where
  "observed_ticks name = \<lparr>os_name = name, os_source = DriverTicks\<rparr>"

definition observed_exporter :: "string \<Rightarrow> string \<Rightarrow> observed" where
  "observed_exporter name component = \<lparr>os_name = name, os_source = Exporter component\<rparr>"

fun work_of :: "(sync_op \<times> family) list \<Rightarrow> exposition \<Rightarrow> sync_work \<Rightarrow> sync_work" where
  "work_of [] e w = w"
| "work_of ((x, f) # ops) e w = work_of ops e (case ex_counter_total e f of Some n \<Rightarrow> wk_set x n w | None \<Rightarrow> w)"

definition work_source :: "(sync_op \<times> family) list \<Rightarrow> sync_op \<Rightarrow> family option" where
  "work_source ops x = map_option snd (find (\<lambda>(y, _). y = x) ops)"

definition target_of :: "heights \<Rightarrow> exposition \<Rightarrow> u32 option" where
  "target_of h e = (case Option.bind (hs_target h) (ex_height e) of Some t \<Rightarrow> if t > 0 then Some t else None | None \<Rightarrow> None)"

definition height_of :: "heights \<Rightarrow> exposition \<Rightarrow> u32 option" where
  "height_of h e = ex_height e (hs_height h)"

definition block_pace :: "observation window \<Rightarrow> pace option option" where
  "block_pace w = pace_by (\<lambda>x. map_option u32_as_f64 (ob_height x))
     (Option.bind (wd_latest w) (\<lambda>x. map_option (\<lambda>t. u32_as_f64 (sat_sub t (case ob_height x of Some h \<Rightarrow> h | None \<Rightarrow> 0))) (ob_target x))) w"

definition tx_rate :: "observation window \<Rightarrow> f64 option option" where
  "tx_rate w = map_option (map_option pc_per_sec) (pace_by (\<lambda>x. map_option u64_as_f64 (ob_transactions x)) None w)"

definition work_rate :: "observation window \<Rightarrow> sync_rate option" where
  "work_rate w = map_option (\<lambda>(a, b, elapsed). wk_rate (wk_delta (ob_work b) (ob_work a)) elapsed) (wd_endpoints w)"

section \<open>What a window keeps\<close>

lemma dropWhile_sorted_stamps:
  "sorted (map fst xs) \<Longrightarrow> dropWhile (\<lambda>(t, _). \<not> now - t \<le> (n :: nat)) xs = filter (\<lambda>(t, _). now - t \<le> n) xs"
proof (induction xs)
  case (Cons x xs)
  have "filter (\<lambda>(t, _). now - t \<le> n) xs = xs" if "now - fst x \<le> n"
    using Cons.prems that by (intro filter_True) (force dest: diff_le_mono2 [of "fst x" _ now] intro: order_trans)
  with Cons show ?case by (auto split: prod.splits)
qed simp

lemma stamps_below_last: "sorted (map fst xs) \<Longrightarrow> p \<in> set xs \<Longrightarrow> fst p \<le> fst (last xs)" for xs :: "(nat \<times> 'a) list"
  by (induction xs) auto

definition pushed :: "(nat \<times> 'a) list \<Rightarrow> 'a window \<Rightarrow> 'a window" where
  "pushed samples w = fold (\<lambda>(t, x). wd_push t x) samples w"

lemma pushed_snoc: "pushed (xs @ [(t, x)]) w = wd_push t x (pushed xs w)"
  by (simp add: pushed_def)

lemma pushed_span [simp]: "wd_span (pushed samples w) = wd_span w"
  unfolding pushed_def by (induction samples arbitrary: w) (auto simp: wd_push_def Let_def)

text \<open>
  A window holds exactly the samples no older than four sampling intervals at its latest
  one: pushing samples whose stamps never step back leaves, in order, those within the span
  of the last stamp, whatever gaps there were between them.
\<close>

theorem window_keeps_span:
  assumes "sorted (map fst samples)" and "samples \<noteq> []"
  shows "wd_ring (pushed samples (wd_new interval)) = filter (\<lambda>(t, _). fst (last samples) - t \<le> interval * WINDOW_SAMPLES) samples"
  using assms
proof (induction samples rule: rev_induct)
  case (snoc y xs)
  obtain t x where y: "y = (t, x)" by fastforce
  let ?n = "interval * WINDOW_SAMPLES" and ?w = "pushed xs (wd_new interval)"
  have span: "wd_span (wd_new interval :: 'a window) = ?n" by (simp add: wd_new_def)
  have below: "fst p \<le> t" if "p \<in> set xs" for p using snoc.prems(1) that by (force simp: y sorted_append)
  show ?case
  proof (cases "xs = []")
    case True
    then show ?thesis by (simp add: y pushed_def wd_push_def wd_new_def Let_def)
  next
    case False
    have "sorted (map fst xs)" using snoc.prems(1) by (simp add: sorted_append)
    with snoc.IH False have ring: "wd_ring ?w = filter (\<lambda>(s, _). fst (last xs) - s \<le> ?n) xs" by simp
    have kept: "filter (\<lambda>(s, _). t - s \<le> ?n) (wd_ring ?w) = filter (\<lambda>(s, _). t - s \<le> ?n) xs"
      unfolding ring filter_filter by (rule filter_cong) (use below [of "last xs"] False in auto)
    have ordered: "sorted (map fst (wd_ring ?w))" unfolding ring using \<open>sorted (map fst xs)\<close> by (rule sorted_filter)
    have "wd_ring (wd_push t x ?w) = filter (\<lambda>(s, _). t - s \<le> ?n) (wd_ring ?w) @ [(t, x)]"
    proof (cases "wd_ring ?w \<noteq> [] \<and> t - fst (last (wd_ring ?w)) > ?n")
      case True
      have "t - fst (last (wd_ring ?w)) \<le> t - fst p" if "p \<in> set (wd_ring ?w)" for p
        using stamps_below_last [OF ordered that] by (rule diff_le_mono2)
      with True have "filter (\<lambda>(s, _). t - s \<le> ?n) (wd_ring ?w) = []" by (force simp: filter_empty_conv)
      with True show ?thesis by (simp add: wd_push_def since_def span Let_def)
    next
      case False
      with ordered show ?thesis by (auto simp: wd_push_def since_def span dropWhile_sorted_stamps Let_def)
    qed
    then show ?thesis using kept by (simp add: y pushed_snoc)
  qed
qed simp

theorem window_keeps_span_witness:
  "wd_ring (pushed [(0, ''a''), (7, ''b''), (30, ''c''), (34, ''d'')] (wd_new 5)) = [(30, ''c''), (34, ''d'')]"
  using window_keeps_span [of "[(0, ''a''), (7, ''b''), (30, ''c''), (34, ''d'')]" 5] by (simp add: WINDOW_SAMPLES_def)

section \<open>What a pace may say\<close>

abbreviation f64_nonneg :: "f64 \<Rightarrow> bool" where
  "f64_nonneg v \<equiv> \<not> f64_less v (Fin 0)"

lemma round_even_nonneg: "0 \<le> x \<Longrightarrow> 0 \<le> round_even x"
  by (simp add: round_even_def Let_def)

lemma pow2_pos: "0 < pow2 e"
  by (simp add: pow2_def)

lemma f64_of_rat_nonneg: "0 \<le> x \<Longrightarrow> f64_nonneg (f64_of_rat x)"
  using round_even_nonneg [of "x / pow2 (f64_exp x)"] pow2_pos [of "f64_exp x"]
  by (simp add: f64_of_rat_def Let_def sgn_if not_less)

lemma f64_sub_nonneg: "\<not> f64_less x y \<Longrightarrow> f64_nonneg (f64_sub x y)"
  by (cases x; cases y) (auto simp: f64_sub_def f64_of_rat_nonneg)

lemma f64_div_above_nonneg: "f64_nonneg x \<Longrightarrow> f64_nonneg y \<Longrightarrow> f64_nonneg (f64_div_above x y)"
  by (cases x; cases y) (auto simp: f64_div_above_def f64_of_rat_nonneg)

lemma f64_add_nonneg: "f64_nonneg x \<Longrightarrow> f64_nonneg y \<Longrightarrow> f64_nonneg (f64_add x y)"
  by (cases x; cases y) (auto simp: f64_of_rat_nonneg)

lemma f64_div_pos_nonneg: "f64_nonneg x \<Longrightarrow> 0 \<le> c \<Longrightarrow> f64_nonneg (f64_div_pos x c)"
  by (cases x) (auto simp: f64_of_rat_nonneg)

lemma as_secs_nonneg: "f64_nonneg (as_secs_f64 ns)"
  unfolding as_secs_f64_def by (intro f64_add_nonneg f64_div_pos_nonneg f64_of_rat_nonneg) simp_all

lemma interval_rates_length: "length (interval_rates series) \<le> length series - 1"
  by (induction series rule: interval_rates.induct) (auto simp: Let_def)

lemma steady_rates_length: "steady_rates series \<Longrightarrow> 4 \<le> length series"
  using interval_rates_length [of series] by (auto simp: steady_rates_def Let_def STEADY_INTERVALS_def split: if_splits)

text \<open>
  A pace is a rate and a projection is earned: whatever was sampled, a pace is never below
  zero, and it carries a time to completion only when there was something left to project
  over, the rate is above zero and at least four readings were in the window.
\<close>

theorem pace_sound:
  assumes "pace_by read remaining w = Some (Some p)"
  shows "\<not> f64_less (pc_per_sec p) (Fin 0) \<and>
    (pc_eta p \<noteq> None \<longrightarrow> remaining \<noteq> None \<and> f64_less (Fin 0) (pc_per_sec p) \<and> 4 \<le> length (wd_series read w))"
proof -
  obtain t0 x0 t1 x1 where ends: "hd (wd_series read w) = (t0, x0)" "last (wd_series read w) = (t1, x1)" by fastforce
  let ?r = "f64_div_above (f64_sub x1 x0) (as_secs_f64 (since t1 t0))"
  have up: "\<not> f64_less x1 x0" and p: "pc_per_sec p = ?r"
    and eta: "pc_eta p \<noteq> None \<longrightarrow> remaining \<noteq> None \<and> f64_less (Fin 0) ?r \<and> steady_rates (wd_series read w)"
    using assms by (auto simp: pace_by_def ends Let_def split: if_splits option.splits)
  have "f64_nonneg ?r" by (intro f64_div_above_nonneg f64_sub_nonneg as_secs_nonneg up)
  with p eta steady_rates_length show ?thesis by auto
qed

theorem pace_sound_witness:
  "\<exists>p. wd_pace (Some (Fin 100)) (pushed [(0, 10), (5000000000, 20)] (wd_new 5000000000)) = Some (Some p) \<and>
     \<not> f64_less (pc_per_sec p) (Fin 0) \<and> pc_eta p = None"
proof -
  let ?w = "pushed [(0, 10 :: u64), (5000000000, 20)] (wd_new 5000000000)"
  have ring: "wd_ring ?w = [(0, 10), (5000000000, 20)]"
    using window_keeps_span [of "[(0, 10 :: u64), (5000000000, 20)]" 5000000000] by (simp add: WINDOW_SAMPLES_def)
  have counts: "u64_as_f64 10 = Fin 10" "u64_as_f64 20 = Fin 20"
    using f64_of_rat_int [of 10] f64_of_rat_int [of 20] by (simp_all add: u64_as_f64_def)
  have short: "\<not> steady_rates [(0, Fin 10), (5000000000, Fin 20)]"
    using steady_rates_length [of "[(0, Fin 10), (5000000000, Fin 20)]"] by auto
  obtain p where p: "pace_by (\<lambda>c. Some (u64_as_f64 c)) (Some (Fin 100)) ?w = Some (Some p)"
    using short counts by (auto simp: pace_by_def wd_series_def ring since_def)
  with pace_sound [OF p] show ?thesis by (auto simp: wd_pace_def wd_series_def ring)
qed

text \<open>The work read from a scrape is measured in exactly the operations whose counter it has.\<close>

lemma work_of_known:
  "os_has (wk_known (work_of ops e w)) x \<longleftrightarrow> os_has (wk_known w) x \<or> (\<exists>f. (x, f) \<in> set ops \<and> ex_counter_total e f \<noteq> None)"
proof (induction ops e w rule: work_of.induct)
  case (2 y f ops e w)
  then show ?case by (cases "ex_counter_total e f") (auto simp: wk_set_def)
qed simp

lemma target_positive: "target_of h e = Some t \<Longrightarrow> 0 < t"
  by (auto simp: target_of_def split: option.splits if_splits)

end
