(* ===== verification/Sync_Runner.thy ===== *)
theory Sync_Runner
  imports Sync_Probe
begin

text \<open>
  The sync engine, \<open>src/src/sync/runner.rs\<close>. Everything the engine awaits is an input: the
  subject's answers, the scrapes, the container samples, the indexer's blocks, what the
  probes' bodies answer (by the position of the probe in its phase), where the cancellation
  is seen, and the readings of the monotonic clock (nanoseconds) and of the wall clock
  (nanoseconds since the epoch). The calls it makes and the events it reports are the log, in
  order; diagnostics of \<open>tracing\<close> are not logged. One pass of the tick loop is \<open>sync_tick\<close>. A
  phase that is still running when its inputs end has the value \<open>None\<close>.
\<close>

section \<open>Inputs, state and results\<close>

datatype sync_call =
    CallLaunch
  | CallStop
  | CallKill string
  | ReportPhaseStart string
  | ReportTick snapshot nat
  | ReportProbe string violation
  | ReportPhase phase_outcome
  | ReportFinish

record watched =
  wt_name :: string
  wt_container :: string

definition answers_to :: "watched \<Rightarrow> string \<Rightarrow> bool" where
  "answers_to w name \<longleftrightarrow> wt_name w = name \<or> wt_container w = name"

record attempt =
  at_answer :: "body_error + bool"
  at_now :: nat
  at_cancelled :: bool

record final_input =
  fi_progress :: "string + progress_view"
  fi_block :: "string + compact_block"
  fi_at :: nat
  fi_wall :: nat
  fi_judge :: "nat \<Rightarrow> body_error + bool"
  fi_begun :: "nat \<Rightarrow> nat"
  fi_attempts :: "nat \<Rightarrow> attempt list"

record tick_input =
  ti_cancelled :: bool
  ti_now :: nat
  ti_kills :: "nat \<Rightarrow> string + unit"
  ti_elapsed :: duration
  ti_exposition :: "exposition option"
  ti_samples :: "container_sample option list"
  ti_progress :: "string + progress_view"
  ti_failure :: "string option"
  ti_block :: "string + compact_block"
  ti_wall :: nat
  ti_judge :: "nat \<Rightarrow> body_error + bool"
  ti_complete :: bool
  ti_final :: final_input

record sync_mark =
  mk_height :: u32
  mk_work :: sync_work
  mk_at :: nat
  mk_wall :: nat

datatype flow = Continue | FailFast | Abort string

record ending =
  en_verdict :: sync_verdict
  en_error :: "string option"
  en_completed :: bool

definition ending_cut :: "sync_verdict \<Rightarrow> string option \<Rightarrow> ending" where
  "ending_cut v e = \<lparr>en_verdict = v, en_error = e, en_completed = False\<rparr>"

record phase_env =
  pe_deadline :: "nat option"
  pe_watched :: "watched list"
  pe_indexer :: bool

record phase_state =
  ps_phase :: sync_phase
  ps_builder :: snapshot_builder
  ps_history :: history
  ps_violations :: "violation list"
  ps_fatal :: bool
  ps_chain_work :: chain_work
  ps_last_work :: sync_work
  ps_events :: tick_events
  ps_origin :: "sync_mark option"
  ps_head :: "sync_mark option"
  ps_restart :: restart_watch
  ps_chaos :: chaos
  ps_pending :: "metric_row list"
  ps_unpublished :: "string list"
  ps_progress_errors :: nat
  ps_run_origin :: "nat option"
  ps_log :: "sync_call list"

abbreviation logged :: "sync_call list \<Rightarrow> phase_state \<Rightarrow> phase_state" where
  "logged cs s \<equiv> s\<lparr>ps_log := ps_log s @ cs\<rparr>"

abbreviation set_probes :: "probe_spec list \<Rightarrow> phase_state \<Rightarrow> phase_state" where
  "set_probes ps s \<equiv> s\<lparr>ps_phase := (ps_phase s)\<lparr>ph_probes := ps\<rparr>\<rparr>"

section \<open>Faults\<close>

definition kill_target :: "watched list \<Rightarrow> string \<Rightarrow> string + watched" where
  "kill_target ws component = (case filter (\<lambda>w. answers_to w component) ws of
     [w] \<Rightarrow> Inr w
   | [] \<Rightarrow> Inl (''nemesis kill: no component named \"'' @ component @ ''\"'')
   | _ \<Rightarrow> Inl (''nemesis kill: \"'' @ component @ ''\" names several pods''))"

text \<open>The faults due at a tick, in order; the first failure ends them.\<close>

fun apply_due :: "watched list \<Rightarrow> (nat \<Rightarrow> string + unit) \<Rightarrow> nat \<Rightarrow> nat \<Rightarrow> scheduled_fault list \<Rightarrow> phase_state \<Rightarrow>
    phase_state \<times> string option" where
  "apply_due ws kills now i [] s = (s, None)"
| "apply_due ws kills now i (f # fs) s = (case sf_kind f of
     Kill component \<Rightarrow> (case kill_target ws component of
        Inl e \<Rightarrow> (s, Some e)
      | Inr w \<Rightarrow> (case kills i of
          Inl e \<Rightarrow> (logged [CallKill (wt_name w)] s, Some (''nemesis kill '' @ component @ '': '' @ e))
        | Inr _ \<Rightarrow> apply_due ws kills now (Suc i) fs
            ((logged [CallKill (wt_name w)] s)\<lparr>ps_restart := rw_open (ps_restart s), ps_chaos := chaos_record f now (ps_chaos s)\<rparr>)))
   | _ \<Rightarrow> apply_due ws kills now (Suc i) fs s)"

definition apply_faults :: "phase_env \<Rightarrow> tick_input \<Rightarrow> phase_state \<Rightarrow> phase_state \<times> string option" where
  "apply_faults env ti s = (let (due, c) = take_due (ti_now ti) (ps_chaos s) in
     apply_due (pe_watched env) (ti_kills ti) (ti_now ti) 0 due (s\<lparr>ps_chaos := c\<rparr>))"

section \<open>Rows and work\<close>

fun retain_rows :: "sync_phase \<Rightarrow> duration \<Rightarrow> exposition \<Rightarrow> metric_row list \<Rightarrow> metric_row list \<times> string list" where
  "retain_rows ph elapsed ex [] = ([], [])"
| "retain_rows ph elapsed ex (r # rs) = (let (keep, un) = retain_rows ph elapsed ex rs in
     if ex_resolves ex r then (keep, un)
     else if elapsed < ph_ready_for ph (row_family r) then (r # keep, un)
     else (keep, (row_label r @ '' <- '' @ show_family (row_family r)) # un))"

definition settle_rows :: "tick_input \<Rightarrow> phase_state \<Rightarrow> phase_state" where
  "settle_rows ti s =
     (let elapsed = ti_elapsed ti; ph = ps_phase s in
      if \<not> list_ex (\<lambda>r. elapsed \<ge> ph_ready_for ph (row_family r)) (ps_pending s) then s
      else (case ti_exposition ti of
              None \<Rightarrow> s
            | Some ex \<Rightarrow> (let (keep, un) = retain_rows ph elapsed ex (ps_pending s)
                in s\<lparr>ps_pending := keep, ps_unpublished := ps_unpublished s @ un\<rparr>)))"

definition read_work :: "bool \<Rightarrow> string + compact_block \<Rightarrow> progress_view \<Rightarrow> sync_work \<Rightarrow> chain_work \<Rightarrow> chain_work \<times> sync_work" where
  "read_work indexer block p prior cw = (case pv_work p of
     Some own \<Rightarrow> (cw, own)
   | None \<Rightarrow> if \<not> indexer then (cw, prior)
       else (case cw_observe_at block cw of (cw', Inr w) \<Rightarrow> (cw', w) | (cw', Inl _) \<Rightarrow> (cw', prior)))"

section \<open>Evaluation\<close>

text \<open>\<open>Duration\<close> as \<open>{:?}\<close> prints it.\<close>

definition zero_padded :: "nat \<Rightarrow> nat \<Rightarrow> string" where
  "zero_padded k n = (let ds = show_nat n in replicate (k - length ds) CHR ''0'' @ ds)"

definition drop_zeros :: "string \<Rightarrow> string" where
  "drop_zeros s = rev (dropWhile (\<lambda>c. c = CHR ''0'') (rev s))"

definition show_decimal :: "nat \<Rightarrow> nat \<Rightarrow> nat \<Rightarrow> string" where
  "show_decimal k i f = show_nat i @ (if f = 0 then [] else CHR ''.'' # drop_zeros (zero_padded k f))"

definition debug_duration :: "duration \<Rightarrow> string" where
  "debug_duration d = (let s = d div 1000000000; n = d mod 1000000000 in
     if s > 0 then show_decimal 9 s n @ ''s''
     else if n \<ge> 1000000 then show_decimal 6 (n div 1000000) (n mod 1000000) @ ''ms''
     else if n \<ge> 1000 then show_decimal 3 (n div 1000) (n mod 1000) @ [CHR 0xC2, CHR 0xB5, CHR ''s'']
     else show_nat n @ ''ns'')"

fun eval_sometimes :: "(nat \<Rightarrow> body_error + bool) \<Rightarrow> nat \<Rightarrow> probe_spec list \<Rightarrow> probe_spec list \<times> string option" where
  "eval_sometimes judge i [] = ([], None)"
| "eval_sometimes judge i (p # ps) =
     (if pr_class p = Sometimes \<and> \<not> pr_ever_satisfied p
      then (case judge_answer (pr_class p) (judge i) of
              ProbeError e \<Rightarrow> (p # ps, Some (pr_name p @ '': '' @ e))
            | Satisfied \<Rightarrow> (let (qs, r) = eval_sometimes judge (Suc i) ps in (p\<lparr>pr_ever_satisfied := True\<rparr> # qs, r))
            | _ \<Rightarrow> (let (qs, r) = eval_sometimes judge (Suc i) ps in (p # qs, r)))
      else (let (qs, r) = eval_sometimes judge (Suc i) ps in (p # qs, r)))"

text \<open>One probe at a tick: its next state, the violation it records, and whether the loop goes on.\<close>

definition eval_always ::
  "snapshot \<Rightarrow> nat \<Rightarrow> body_error + bool \<Rightarrow> probe_spec \<Rightarrow> probe_spec \<times> violation option \<times> flow" where
  "eval_always snap now a p =
     (if \<not> pr_due p (sn_height snap) now then (p, None, Continue)
      else (let q = pr_mark_fired (sn_seq snap) (sn_height snap) now p in
        case judge_answer (pr_class p) a of
          Violated v \<Rightarrow>
            (let q' = q\<lparr>pr_violation_streak := pr_violation_streak q + 1\<rparr> in
             if pr_violation_streak q' \<ge> pr_violation_threshold q'
             then (q', Some (v\<lparr>vi_probe := pr_name p\<rparr>), if pr_severity p = Fatal then FailFast else Continue)
             else (q', None, Continue))
        | ProbeError e \<Rightarrow> (q, None, Abort (pr_name p @ '': '' @ e))
        | _ \<Rightarrow> (q\<lparr>pr_violation_streak := 0\<rparr>, None, Continue)))"

definition stall_violation :: "snapshot \<Rightarrow> duration \<Rightarrow> duration \<Rightarrow> probe_spec \<Rightarrow> violation" where
  "stall_violation snap since window p = \<lparr>vi_probe = pr_name p, vi_height = Some (sn_height snap),
     vi_detail = ''liveness stall: not satisfied for '' @ debug_duration since @ '' (window '' @ debug_duration window @ '')''\<rparr>"

definition armed :: "chaos \<Rightarrow> probe_spec \<Rightarrow> bool" where
  "armed c p = (case pr_after p of None \<Rightarrow> True | Some f \<Rightarrow> chaos_fired c f)"

definition pr_window :: "probe_spec \<Rightarrow> duration" where
  "pr_window p = (case pr_cadence p of Window d \<Rightarrow> d | _ \<Rightarrow> DURATION_MAX)"

definition eval_eventually ::
  "chaos \<Rightarrow> snapshot \<Rightarrow> nat \<Rightarrow> body_error + bool \<Rightarrow> probe_spec \<Rightarrow> probe_spec \<times> violation option \<times> flow" where
  "eval_eventually c snap now a p =
     (let paused = sn_restarting snap \<or> \<not> armed c p;
          q = (if paused \<or> pr_last_satisfied p = None then p\<lparr>pr_last_satisfied := Some now\<rparr> else p)
      in if paused then (q, None, Continue)
         else (case judge_answer (pr_class p) a of
           Satisfied \<Rightarrow> (q\<lparr>pr_last_satisfied := Some now\<rparr>, None, Continue)
         | ProbeError e \<Rightarrow> (q, None, Abort (pr_name p @ '': '' @ e))
         | _ \<Rightarrow> (let since = now - (case pr_last_satisfied q of Some t \<Rightarrow> t | None \<Rightarrow> now) in
             if since > pr_window p
             then (q, Some (stall_violation snap since (pr_window p) p), if pr_severity p = Fatal then FailFast else Continue)
             else (q, None, Continue))))"

definition eval_probe ::
  "chaos \<Rightarrow> snapshot \<Rightarrow> nat \<Rightarrow> body_error + bool \<Rightarrow> probe_spec \<Rightarrow> probe_spec \<times> violation option \<times> flow" where
  "eval_probe c snap now a p = (case pr_class p of
     Always \<Rightarrow> eval_always snap now a p
   | Eventually \<Rightarrow> eval_eventually c snap now a p
   | _ \<Rightarrow> (p, None, Continue))"

fun eval_probes :: "chaos \<Rightarrow> snapshot \<Rightarrow> nat \<Rightarrow> (nat \<Rightarrow> body_error + bool) \<Rightarrow> nat \<Rightarrow> probe_spec list \<Rightarrow>
    probe_spec list \<times> violation list \<times> flow" where
  "eval_probes c snap now judge i [] = ([], [], Continue)"
| "eval_probes c snap now judge i (p # ps) =
     (case eval_probe c snap now (judge i) p of (q, v, fl) \<Rightarrow>
        let vs = (case v of Some x \<Rightarrow> [x] | None \<Rightarrow> []) in
        if fl = Continue
        then (let (qs, ws, fl') = eval_probes c snap now judge (Suc i) ps in (q # qs, vs @ ws, fl'))
        else (q # ps, vs, fl))"

definition eval_tick :: "snapshot \<Rightarrow> tick_input \<Rightarrow> phase_state \<Rightarrow> phase_state \<times> flow" where
  "eval_tick snap ti s = (case eval_sometimes (ti_judge ti) 0 (ph_probes (ps_phase s)) of
     (ps, Some msg) \<Rightarrow> (set_probes ps s, Abort msg)
   | (ps, None) \<Rightarrow> (let (qs, vs, fl) = eval_probes (ps_chaos s) snap (ti_now ti) (ti_judge ti) 0 ps
       in (logged (map (\<lambda>v. ReportProbe (vi_probe v) v) vs) ((set_probes qs s)\<lparr>ps_violations := ps_violations s @ vs\<rparr>), fl)))"

text \<open>A completion probe is judged again while it is violated, its span lasts and nothing cancels.\<close>

fun retry_loop :: "nat option \<Rightarrow> attempt list \<Rightarrow> probe_verdict option" where
  "retry_loop deadline [] = None"
| "retry_loop deadline (a # as) = (let v = judge_answer AtCompletion (at_answer a);
       again = (case v of Violated _ \<Rightarrow> (case deadline of Some t \<Rightarrow> at_now a < t | None \<Rightarrow> False) | _ \<Rightarrow> False)
     in if \<not> again \<or> at_cancelled a then Some v else retry_loop deadline as)"

text \<open>The completion probes in order: the violations they record, whether one is fatal, and an error.\<close>

fun eval_at_completion :: "(nat \<Rightarrow> nat) \<Rightarrow> (nat \<Rightarrow> attempt list) \<Rightarrow> nat \<Rightarrow> probe_spec list \<Rightarrow>
    (violation list \<times> (string + bool)) option" where
  "eval_at_completion begun attempts i [] = Some ([], Inr False)"
| "eval_at_completion begun attempts i (p # ps) =
     (if pr_class p \<noteq> AtCompletion then eval_at_completion begun attempts (Suc i) ps
      else (case retry_loop (map_option (\<lambda>span. begun i + span) (pr_within p)) (attempts i) of
        None \<Rightarrow> None
      | Some (ProbeError e) \<Rightarrow> Some ([], Inl (pr_name p @ '': '' @ e))
      | Some (Violated v) \<Rightarrow> map_option (\<lambda>(vs, r). (v\<lparr>vi_probe := pr_name p\<rparr> # vs,
            map_sum id (\<lambda>f. pr_severity p = Fatal \<or> f) r)) (eval_at_completion begun attempts (Suc i) ps)
      | Some _ \<Rightarrow> eval_at_completion begun attempts (Suc i) ps))"

definition credit_liveness :: "nat \<Rightarrow> probe_spec list \<Rightarrow> probe_spec list" where
  "credit_liveness now ps = map (\<lambda>p. if pr_class p = Eventually then p\<lparr>pr_last_satisfied := Some now\<rparr> else p) ps"

definition coverage_gaps :: "probe_spec list \<Rightarrow> string list" where
  "coverage_gaps ps = map pr_name (filter (\<lambda>p. pr_class p = Sometimes \<and> \<not> pr_ever_satisfied p) ps)"

section \<open>The tick loop\<close>

definition halted :: "phase_state \<Rightarrow> phase_state" where
  "halted s = logged [CallStop] s"

text \<open>What a tick with a reading does before its probes are judged.\<close>

definition observe_tick :: "phase_env \<Rightarrow> tick_input \<Rightarrow> progress_view \<Rightarrow> phase_state \<Rightarrow> snapshot \<times> phase_state" where
  "observe_tick env ti p s =
     (let w = rw_observe (ti_samples ti) True (ps_restart s);
          ev = \<lparr>te_last_fault_at = ch_last_fault_at (ps_chaos s), te_restarts = rw_seen w, te_restarting = rw_holding w\<rparr>;
          (cw, work) = read_work (pe_indexer env) (ti_block ti) p (ps_last_work s) (ps_chain_work s);
          (snap, b) = sb_build p (ti_now ti) work ev (ps_builder s);
          ph = ps_phase s;
          ph' = (case ph_stop_after ph of
             Some blocks \<Rightarrow> ph\<lparr>ph_stop_height := Some (sat_add (sn_height snap) blocks), ph_stop_after := None\<rparr>
           | None \<Rightarrow> ph);
          m = \<lparr>mk_height = sn_height snap, mk_work = work, mk_at = ti_now ti, mk_wall = ti_wall ti\<rparr>;
          ro = (case ps_run_origin s of Some t \<Rightarrow> t | None \<Rightarrow> ti_wall ti)
      in (snap, logged [ReportTick snap ro] (s\<lparr>ps_restart := w, ps_events := ev, ps_chain_work := cw, ps_last_work := work,
            ps_builder := b, ps_phase := ph',
            ps_origin := (case ps_origin s of Some o1 \<Rightarrow> Some o1 | None \<Rightarrow> Some m), ps_head := Some m,
            ps_history := hi_push snap (ps_history s), ps_run_origin := Some ro\<rparr>)))"

text \<open>The completion snapshot and the probes judged on it; \<open>None\<close> while one is still retried.\<close>

definition complete_phase :: "phase_env \<Rightarrow> final_input \<Rightarrow> phase_state \<Rightarrow> (phase_state \<times> string option) option" where
  "complete_phase env fi s = (case fi_progress fi of
     Inl _ \<Rightarrow> Some (s, None)
   | Inr p \<Rightarrow>
      (let (cw, work) = read_work (pe_indexer env) (fi_block fi) p (ps_last_work s) (ps_chain_work s);
           (snap, b) = sb_build p (fi_at fi) work (ps_events s) (ps_builder s);
           s1 = s\<lparr>ps_chain_work := cw, ps_builder := b,
                 ps_head := Some \<lparr>mk_height = sn_height snap, mk_work = work, mk_at = fi_at fi, mk_wall = fi_wall fi\<rparr>\<rparr>
       in case eval_sometimes (fi_judge fi) 0 (ph_probes (ps_phase s1)) of
            (ps, Some msg) \<Rightarrow> Some (set_probes ps s1, Some msg)
          | (ps, None) \<Rightarrow> map_option (\<lambda>(vs, r).
               let s2 = logged (map (\<lambda>v. ReportProbe (vi_probe v) v) vs)
                     ((set_probes ps s1)\<lparr>ps_violations := ps_violations s1 @ vs\<rparr>)
               in case r of Inl msg \<Rightarrow> (s2, Some msg) | Inr f \<Rightarrow> (s2\<lparr>ps_fatal := ps_fatal s2 \<or> f\<rparr>, None))
             (eval_at_completion (fi_begun fi) (fi_attempts fi) 0 ps)))"

definition completed_verdict :: "string option \<Rightarrow> violation list \<Rightarrow> string list \<Rightarrow> sync_verdict" where
  "completed_verdict err vs gaps = (if err \<noteq> None then VErrored
     else if vs = [] \<and> gaps = [] then VPassed else VFailed)"

definition finish_phase :: "phase_env \<Rightarrow> final_input \<Rightarrow> phase_state \<Rightarrow> (phase_state \<times> ending) option" where
  "finish_phase env fi s = map_option (\<lambda>(t, err).
     let gaps = coverage_gaps (ph_probes (ps_phase t))
     in (t\<lparr>ps_fatal := ps_fatal t \<or> gaps \<noteq> []\<rparr>,
         \<lparr>en_verdict = completed_verdict err (ps_violations t) gaps, en_error = err, en_completed = True\<rparr>))
   (complete_phase env fi s)"

definition reached_stop :: "snapshot \<Rightarrow> phase_state \<Rightarrow> bool" where
  "reached_stop snap s = (case ph_stop_height (ps_phase s) of Some h \<Rightarrow> sn_height snap \<ge> h | None \<Rightarrow> False)"

definition judge_tick :: "phase_env \<Rightarrow> tick_input \<Rightarrow> progress_view \<Rightarrow> phase_state \<Rightarrow> (phase_state \<times> ending option) option" where
  "judge_tick env ti p s =
     (let (snap, s1) = observe_tick env ti p s; (s2, fl) = eval_tick snap ti s1 in
      case fl of
        FailFast \<Rightarrow> Some ((halted s2)\<lparr>ps_fatal := True\<rparr>, Some (ending_cut VFailed None))
      | Abort msg \<Rightarrow> Some (halted s2, Some (ending_cut VErrored (Some msg)))
      | Continue \<Rightarrow> if reached_stop snap s2 \<or> ti_complete ti
          then map_option (\<lambda>(t, e). (t, Some e)) (finish_phase env (ti_final ti) s2)
          else Some (s2, None))"

definition missed_reading :: "tick_input \<Rightarrow> phase_state \<Rightarrow> phase_state" where
  "missed_reading ti s =
     (let w = rw_observe (ti_samples ti) False (ps_restart s);
          s1 = s\<lparr>ps_progress_errors := ps_progress_errors s + 1, ps_restart := w\<rparr>
      in if rw_holding w then set_probes (credit_liveness (ti_now ti) (ph_probes (ps_phase s1))) s1 else s1)"

definition past_deadline :: "phase_env \<Rightarrow> nat \<Rightarrow> bool" where
  "past_deadline env now = (case pe_deadline env of Some d \<Rightarrow> now \<ge> d | None \<Rightarrow> False)"

definition sync_tick :: "phase_env \<Rightarrow> tick_input \<Rightarrow> phase_state \<Rightarrow> (phase_state \<times> ending option) option" where
  "sync_tick env ti s =
     (if ti_cancelled ti then Some (halted s, Some (ending_cut VCancelled None))
      else if past_deadline env (ti_now ti) then Some (halted s, Some (ending_cut VTimedOut None))
      else (case apply_faults env ti s of
        (s1, Some e) \<Rightarrow> Some (halted s1, Some (ending_cut VErrored (Some e)))
      | (s1, None) \<Rightarrow>
         (let s2 = settle_rows ti s1 in
          case ti_failure ti of
            Some msg \<Rightarrow> Some (halted s2, Some (ending_cut VFailed (Some msg)))
          | None \<Rightarrow> (case ti_progress ti of
              Inl _ \<Rightarrow> Some (missed_reading ti s2, None)
            | Inr p \<Rightarrow> judge_tick env ti p (s2\<lparr>ps_progress_errors := 0\<rparr>)))))"

fun sync_ticks :: "phase_env \<Rightarrow> tick_input list \<Rightarrow> phase_state \<Rightarrow> (phase_state \<times> ending) option" where
  "sync_ticks env [] s = None"
| "sync_ticks env (ti # tis) s = (case sync_tick env ti s of
     None \<Rightarrow> None
   | Some (t, Some e) \<Rightarrow> Some (t, e)
   | Some (t, None) \<Rightarrow> sync_ticks env tis t)"

section \<open>Phases\<close>

record phase_result =
  rs_summary :: phase_outcome
  rs_violations :: "violation list"
  rs_dropped :: nat
  rs_segment :: "segment option"
  rs_target :: "u32 option"
  rs_unpublished :: "string list"
  rs_proceed :: bool

definition millis :: "nat \<Rightarrow> u64" where
  "millis ns = of_nat (ns div 1000000)"

definition phase_early :: "sync_phase \<Rightarrow> sync_verdict \<Rightarrow> string option \<Rightarrow> nat \<Rightarrow> duration \<Rightarrow> phase_result" where
  "phase_early ph v err started_wall elapsed =
     \<lparr>rs_summary = \<lparr>po_name = ph_name ph, po_verdict = v, po_started_ms = millis started_wall,
        po_elapsed_ms = millis elapsed, po_ticks = 0, po_violations = 0, po_coverage_gaps = [], po_error = err, po_restarts = 0\<rparr>,
      rs_violations = [], rs_dropped = 0, rs_segment = None, rs_target = ph_stop_height ph, rs_unpublished = [], rs_proceed = False\<rparr>"

definition segment_of :: "string option \<Rightarrow> sync_mark option \<Rightarrow> sync_mark option \<Rightarrow> segment option" where
  "segment_of network origin hd1 = (case (origin, hd1) of
     (Some a, Some b) \<Rightarrow> if mk_height b > mk_height a
       then Some \<lparr>sg_network = network, sg_from = mk_height a, sg_to = mk_height b, sg_work = wk_delta (mk_work b) (mk_work a),
         sg_elapsed_ms = millis (mk_at b - mk_at a), sg_started_ms = millis (mk_wall a)\<rparr> else None
   | _ \<Rightarrow> None)"

definition phase_result_of :: "string option \<Rightarrow> nat \<Rightarrow> duration \<Rightarrow> phase_state \<Rightarrow> ending \<Rightarrow> phase_result" where
  "phase_result_of network started_wall elapsed s e =
     \<lparr>rs_summary = \<lparr>po_name = ph_name (ps_phase s), po_verdict = en_verdict e, po_started_ms = millis started_wall,
        po_elapsed_ms = millis elapsed, po_ticks = sb_seq (ps_builder s), po_violations = length (ps_violations s),
        po_coverage_gaps = coverage_gaps (ph_probes (ps_phase s)), po_error = en_error e, po_restarts = te_restarts (ps_events s)\<rparr>,
      rs_violations = ps_violations s, rs_dropped = hi_dropped (ps_history s),
      rs_segment = segment_of network (ps_origin s) (ps_head s),
      rs_target = (case ph_stop_height (ps_phase s) of Some h \<Rightarrow> Some h
        | None \<Rightarrow> Option.bind (hi_latest (ps_history s)) sn_target),
      rs_unpublished = ps_unpublished s,
      rs_proceed = (en_completed e \<and> \<not> ps_fatal s \<and> en_error e = None)\<rparr>"

text \<open>The wait for the gate families: a scrape and the time since launch, then a sleep or a cancellation.\<close>

record wait_input =
  wi_exposition :: "exposition option"
  wi_elapsed :: duration
  wi_cancelled :: bool

datatype gate_readiness = Ready | ReadyCancelled | Late string

definition missing_gates :: "family list \<Rightarrow> exposition option \<Rightarrow> family list" where
  "missing_gates gates ex = (case ex of Some e \<Rightarrow> filter (\<lambda>f. \<not> ex_publishes e f) gates | None \<Rightarrow> gates)"

definition late_gates :: "sync_phase \<Rightarrow> duration \<Rightarrow> family list \<Rightarrow> string list" where
  "late_gates ph elapsed missing = map (\<lambda>f. show_family f @ '' (ready within '' @ format_span (ph_ready_for ph f) @ '')'')
     (filter (\<lambda>f. elapsed \<ge> ph_ready_for ph f) missing)"

fun await_ready :: "sync_phase \<Rightarrow> family list \<Rightarrow> wait_input list \<Rightarrow> gate_readiness option" where
  "await_ready ph gates [] = (if gates = [] then Some Ready else None)"
| "await_ready ph gates (w # ws) = (if gates = [] then Some Ready
     else (let missing = missing_gates gates (wi_exposition w); late = late_gates ph (wi_elapsed w) missing in
       if missing = [] then Some Ready
       else if late \<noteq> [] then Some (Late (''not published within its ready window: '' @ join '', '' late @ em_dash @
              ''widen one with `run.ready_within(family, d)`''))
       else if wi_cancelled w then Some ReadyCancelled
       else await_ready ph gates ws))"

definition WORK_PREFLIGHT_ATTEMPTS :: nat where
  "WORK_PREFLIGHT_ATTEMPTS = 3"

definition missing_work :: "op_set \<Rightarrow> progress_view \<Rightarrow> sync_op list" where
  "missing_work required p = (let known = (case pv_work p of Some w \<Rightarrow> wk_known w | None \<Rightarrow> os_NONE) in
     filter (\<lambda>x. os_has required x \<and> \<not> os_has known x) op_ALL)"

definition unmeasured_work_error :: "(sync_op \<Rightarrow> string option) \<Rightarrow> sync_op list \<Rightarrow> op_set \<Rightarrow> string" where
  "unmeasured_work_error source missing known =
     ''the subject does not measure '' @ show_nat (length missing) @ '' op(s) this profile requires:'' @ [CHR 0x0A] @
     join [CHR 0x0A] (map (\<lambda>x. ''  '' @ op_label x @ '' <- '' @ (case source x of Some series \<Rightarrow> series
        | None \<Rightarrow> ''(no series declared by this subject)'')) missing) @ [CHR 0x0A] @ ''it measures: '' @
     (let ms = map op_label (filter (os_has known) op_ALL) in if ms = [] then ''nothing'' else join '', '' ms) @ [CHR 0x0A] @
     ''A probe reading an unmeasured op panics mid-run, so the run is refused here instead. Either the component '' @
     ''does not publish the series (check its /metrics against the name above), or the profile should not have '' @
     ''required the op.''"

fun preflight_reads :: "(sync_op \<Rightarrow> string option) \<Rightarrow> op_set \<Rightarrow> (string + progress_view) list \<Rightarrow> string option \<Rightarrow> string + unit" where
  "preflight_reads source required [] prior = Inl (''work counters unreadable in '' @ show_nat WORK_PREFLIGHT_ATTEMPTS @
     '' attempts: '' @ (case prior of Some e \<Rightarrow> e | None \<Rightarrow> ''no error reported''))"
| "preflight_reads source required (Inl e # rs) prior = preflight_reads source required rs (Some e)"
| "preflight_reads source required (Inr p # rs) prior = (let missing = missing_work required p in
     if missing = [] then Inr ()
     else Inl (unmeasured_work_error source missing (case pv_work p of Some w \<Rightarrow> wk_known w | None \<Rightarrow> os_NONE)))"

definition check_required_work :: "(sync_op \<Rightarrow> string option) \<Rightarrow> op_set \<Rightarrow> (nat \<Rightarrow> string + progress_view) \<Rightarrow> string + unit" where
  "check_required_work source required reads = (if os_is_empty required then Inr ()
     else preflight_reads source required (map reads [0..<WORK_PREFLIGHT_ATTEMPTS]) None)"

datatype build_answer = BuildCancelled | BuildTimedOut | Built "string + unit"

record phase_input =
  pi_started :: nat
  pi_started_wall :: nat
  pi_build :: build_answer
  pi_launch :: "string + unit"
  pi_gates :: "family list"
  pi_waits :: "wait_input list"
  pi_work_source :: "sync_op \<Rightarrow> string option"
  pi_work_reads :: "nat \<Rightarrow> string + progress_view"
  pi_rows :: "metric_row list"
  pi_opened :: nat
  pi_network :: "string + string"
  pi_ticks :: "tick_input list"
  pi_elapsed :: duration

record engine_config =
  ec_indexer :: bool
  ec_history_cap :: nat
  ec_watched :: "watched list"

record run_shared =
  sh_chaos :: chaos
  sh_run_origin :: "nat option"
  sh_log :: "sync_call list"

definition phase_network :: "engine_config \<Rightarrow> phase_input \<Rightarrow> string option" where
  "phase_network cfg i = (if \<not> ec_indexer cfg then None
     else (case pi_network i of Inr name \<Rightarrow> if name = [] then None else Some name | Inl _ \<Rightarrow> None))"

definition phase_start :: "engine_config \<Rightarrow> run_shared \<Rightarrow> phase_input \<Rightarrow> sync_phase \<Rightarrow> phase_state" where
  "phase_start cfg sh i ph = \<lparr>ps_phase = ph, ps_builder = sb_new (pi_opened i), ps_history = hi_new (ec_history_cap cfg),
     ps_violations = [], ps_fatal = False, ps_chain_work = cw_new, ps_last_work = wk_ZERO, ps_events = te_default,
     ps_origin = None, ps_head = None, ps_restart = rw_default, ps_chaos = sh_chaos sh, ps_pending = pi_rows i,
     ps_unpublished = [], ps_progress_errors = 0, ps_run_origin = sh_run_origin sh, ps_log = sh_log sh\<rparr>"

definition phase_env_of :: "engine_config \<Rightarrow> phase_input \<Rightarrow> sync_phase \<Rightarrow> phase_env" where
  "phase_env_of cfg i ph = \<lparr>pe_deadline = map_option (\<lambda>t. pi_started i + t) (ph_timeout ph),
     pe_watched = ec_watched cfg, pe_indexer = ec_indexer cfg\<rparr>"

definition phase_run :: "engine_config \<Rightarrow> phase_input \<Rightarrow> sync_phase \<Rightarrow> run_shared \<Rightarrow> (phase_result \<times> run_shared) option" where
  "phase_run cfg i ph sh =
     (let early = (\<lambda>v err calls. Some (phase_early ph v err (pi_started_wall i) (pi_elapsed i), sh\<lparr>sh_log := sh_log sh @ calls\<rparr>))
      in case pi_launch i of
        Inl e \<Rightarrow> early VErrored (Some (''launch: '' @ e)) [CallLaunch]
      | Inr _ \<Rightarrow> (case await_ready ph (pi_gates i) (pi_waits i) of
          None \<Rightarrow> None
        | Some ReadyCancelled \<Rightarrow> early VCancelled None [CallLaunch, CallStop]
        | Some (Late e) \<Rightarrow> early VErrored (Some e) [CallLaunch, CallStop]
        | Some Ready \<Rightarrow> (case check_required_work (pi_work_source i) (ph_required_work ph) (pi_work_reads i) of
            Inl e \<Rightarrow> early VErrored (Some e) [CallLaunch, CallStop]
          | Inr _ \<Rightarrow> map_option (\<lambda>(s, e). (phase_result_of (phase_network cfg i) (pi_started_wall i) (pi_elapsed i) s e,
                \<lparr>sh_chaos = ps_chaos s, sh_run_origin = ps_run_origin s, sh_log = ps_log s\<rparr>))
              (sync_ticks (phase_env_of cfg i ph) (pi_ticks i)
                (phase_start cfg (sh\<lparr>sh_log := sh_log sh @ [CallLaunch]\<rparr>) i ph)))))"

definition run_phase :: "engine_config \<Rightarrow> phase_input \<Rightarrow> sync_phase \<Rightarrow> run_shared \<Rightarrow> (phase_result \<times> run_shared) option" where
  "run_phase cfg i ph sh =
     (let early = (\<lambda>v err. Some (phase_early ph v err (pi_started_wall i) (pi_elapsed i), sh))
      in if \<not> ph_source ph then early VErrored (Some ''phase already ran'')
         else (case pi_build i of
           BuildCancelled \<Rightarrow> early VCancelled None
         | BuildTimedOut \<Rightarrow> early VTimedOut None
         | Built (Inl e) \<Rightarrow> early VErrored (Some (''build subject: '' @ e))
         | Built (Inr _) \<Rightarrow> phase_run cfg i (ph\<lparr>ph_source := False\<rparr>) sh))"

section \<open>Runs\<close>

record sync_outcome =
  so_verdict :: sync_verdict
  so_violations :: "violation list"
  so_coverage_gaps :: "string list"
  so_error :: "string option"
  so_ticks :: nat
  so_dropped_snapshots :: nat
  so_segment :: "segment option"
  so_target :: "u32 option"
  so_unpublished :: "string list"
  so_phases :: "phase_outcome list"

definition error_outcome :: "string \<Rightarrow> sync_outcome" where
  "error_outcome msg = \<lparr>so_verdict = VErrored, so_violations = [], so_coverage_gaps = [], so_error = Some msg, so_ticks = 0,
     so_dropped_snapshots = 0, so_segment = None, so_target = None, so_unpublished = [], so_phases = []\<rparr>"

definition first_failure :: "phase_result list \<Rightarrow> sync_verdict" where
  "first_failure rs = (case find (\<lambda>v. \<not> verdict_is_pass v) (map (\<lambda>r. po_verdict (rs_summary r)) rs) of
     Some v \<Rightarrow> v | None \<Rightarrow> VPassed)"

definition fold_result :: "phase_result \<Rightarrow> sync_outcome \<Rightarrow> sync_outcome" where
  "fold_result r ou = ou\<lparr>so_violations := so_violations ou @ rs_violations r,
     so_coverage_gaps := so_coverage_gaps ou @ po_coverage_gaps (rs_summary r),
     so_error := (case so_error ou of Some e \<Rightarrow> Some e | None \<Rightarrow> po_error (rs_summary r)),
     so_ticks := so_ticks ou + po_ticks (rs_summary r), so_dropped_snapshots := so_dropped_snapshots ou + rs_dropped r,
     so_unpublished := so_unpublished ou @ rs_unpublished r, so_phases := so_phases ou @ [rs_summary r]\<rparr>"

text \<open>\<open>None\<close> is the panic on an empty list.\<close>

definition fold_results :: "phase_result list \<Rightarrow> sync_outcome option" where
  "fold_results rs = (case rs of [] \<Rightarrow> None
   | r # _ \<Rightarrow> Some (fold fold_result rs \<lparr>so_verdict = first_failure rs, so_violations = [], so_coverage_gaps = [],
       so_error = None, so_ticks = 0, so_dropped_snapshots = 0, so_segment = rs_segment r, so_target = rs_target r,
       so_unpublished = [], so_phases = []\<rparr>))"

definition with_throughout :: "probe_spec list \<Rightarrow> sync_phase \<Rightarrow> sync_phase" where
  "with_throughout throughout ph = ph\<lparr>ph_probes := map pr_fresh throughout @ ph_probes ph\<rparr>"

fun run_phases :: "engine_config \<Rightarrow> probe_spec list \<Rightarrow> (sync_phase \<times> phase_input) list \<Rightarrow> run_shared \<Rightarrow>
    (phase_result list \<times> run_shared) option" where
  "run_phases cfg thr [] sh = Some ([], sh)"
| "run_phases cfg thr ((ph, i) # phs) sh =
     (case run_phase cfg i (with_throughout thr ph) (sh\<lparr>sh_log := sh_log sh @ [ReportPhaseStart (ph_name ph)]\<rparr>) of
        None \<Rightarrow> None
      | Some (r, sh1) \<Rightarrow> (let sh2 = sh1\<lparr>sh_log := sh_log sh1 @ [ReportPhase (rs_summary r)]\<rparr> in
          if rs_proceed r then map_option (\<lambda>(rs, sh3). (r # rs, sh3)) (run_phases cfg thr phs sh2)
          else Some ([r], sh2)))"

text \<open>Every scheduled kill must name one component, which answers that it can be restarted.\<close>

fun preflight_faults :: "watched list \<Rightarrow> (watched \<Rightarrow> string + unit) \<Rightarrow> scheduled_fault list \<Rightarrow> string + unit" where
  "preflight_faults ws restartable [] = Inr ()"
| "preflight_faults ws restartable (f # fs) = (case sf_kind f of
     Kill component \<Rightarrow> (case kill_target ws component of
        Inl e \<Rightarrow> Inl e
      | Inr w \<Rightarrow> (case restartable w of Inl e \<Rightarrow> Inl (''nemesis kill: '' @ e) | Inr _ \<Rightarrow> preflight_faults ws restartable fs))
   | _ \<Rightarrow> preflight_faults ws restartable fs)"

definition sync_run :: "engine_config \<Rightarrow> scheduled_fault list \<Rightarrow> nat \<Rightarrow> (watched \<Rightarrow> string + unit) \<Rightarrow> probe_spec list \<Rightarrow>
    (sync_phase \<times> phase_input) list \<Rightarrow> (sync_outcome \<times> sync_call list) option" where
  "sync_run cfg faults origin restartable thr phs =
     (let c = chaos_new faults origin in
      case preflight_faults (ec_watched cfg) restartable (ch_pending c) of
        Inl e \<Rightarrow> Some (error_outcome e, [ReportFinish])
      | Inr _ \<Rightarrow> Option.bind (run_phases cfg thr phs \<lparr>sh_chaos = c, sh_run_origin = None, sh_log = []\<rparr>)
          (\<lambda>(rs, sh). map_option (\<lambda>ou. (ou, sh_log sh @ [ReportFinish])) (fold_results rs)))"

end
