(* ===== verification/Sync_Probe_Props.thy ===== *)
theory Sync_Probe_Props
  imports Sync_Runner
begin

text \<open>
  What the parts of a sync run guarantee one by one (\<open>src/src/sync/\<close>): snapshots and their
  history against the readings they were folded from, the restart window, the debounce of
  safety probes and the stall clock of liveness probes against their definition on the whole
  sequence of evaluations, and the fault schedule.
\<close>

section \<open>Snapshots\<close>

type_synonym tick_reading = "progress_view \<times> nat \<times> sync_work \<times> tick_events"

definition build_reading :: "tick_reading \<Rightarrow> snapshot_builder \<Rightarrow> snapshot \<times> snapshot_builder" where
  "build_reading r b = (case r of (p, now, work, ev) \<Rightarrow> sb_build p now work ev b)"

definition reading_height :: "tick_reading \<Rightarrow> u32" where
  "reading_height r = pv_height (fst r)"

definition builder_after :: "nat \<Rightarrow> tick_reading list \<Rightarrow> snapshot_builder" where
  "builder_after t0 rs = fold (\<lambda>r b. snd (build_reading r b)) rs (sb_new t0)"

lemma builder_after_snoc: "builder_after t0 (rs @ [r]) = snd (build_reading r (builder_after t0 rs))"
  by (simp add: builder_after_def)

lemma sorted_snoc_max: "xs \<noteq> [] \<Longrightarrow> sorted (xs @ [x]) \<longleftrightarrow> sorted xs \<and> Max (set xs) \<le> (x :: 'a::linorder)"
  by (auto simp: sorted_append)

lemma heights_snoc:
  assumes "rs \<noteq> []"
  shows "sorted (map reading_height (rs @ [r])) \<longleftrightarrow> sorted (map reading_height rs) \<and> Max (set (map reading_height rs)) \<le> reading_height r"
    and "Max (set (map reading_height (rs @ [r]))) = max (Max (set (map reading_height rs))) (reading_height r)"
  using assms sorted_snoc_max [of "map reading_height rs" "reading_height r"] by (simp_all add: max.commute)

lemma builder_facts:
  "sb_seq (builder_after t0 rs) = length rs \<and> \<not> sb_observed_reconnect (builder_after t0 rs) \<and>
   (rs \<noteq> [] \<longrightarrow> sb_prev_height (builder_after t0 rs) = reading_height (last rs) \<and>
      sb_prev_work (builder_after t0 rs) = fst (snd (snd (last rs))) \<and>
      sb_max_height_seen (builder_after t0 rs) = Max (set (map reading_height rs)) \<and>
      (sb_observed_reorg (builder_after t0 rs) \<longleftrightarrow> \<not> sorted (map reading_height rs)))"
proof (induction rs rule: rev_induct)
  case Nil
  then show ?case by (simp add: builder_after_def sb_new_def)
next
  case (snoc r rs)
  obtain p now work ev where r: "r = (p, now, work, ev)" by (metis prod_cases4)
  show ?case
  proof (cases "rs = []")
    case True
    then show ?thesis
      by (simp add: builder_after_def r build_reading_def sb_build_def sb_fold_def sb_open_def sb_new_def reading_height_def Let_def)
  next
    case False
    define M where "M = Max (set (map reading_height rs))"
    define S where "S = sorted (map reading_height rs)"
    have b: "sb_seq (builder_after t0 rs) = length rs" "sb_prev_height (builder_after t0 rs) = reading_height (last rs)"
      "sb_prev_work (builder_after t0 rs) = fst (snd (snd (last rs)))" "sb_max_height_seen (builder_after t0 rs) = M"
      "sb_observed_reorg (builder_after t0 rs) \<longleftrightarrow> \<not> S" "\<not> sb_observed_reconnect (builder_after t0 rs)"
      using snoc.IH False unfolding M_def S_def by blast+
    note sm = heights_snoc [OF False, of r, folded M_def S_def]
    have p: "reading_height r = pv_height p" by (simp add: r reading_height_def)
    from False show ?thesis unfolding builder_after_snoc sm p
      by (auto simp: b reading_height_def [of "(p, now, work, ev)"] r build_reading_def sb_build_def sb_fold_def sb_open_def Let_def not_le)
  qed
qed

text \<open>
  A snapshot is exactly what the readings say: after any earlier readings, the snapshot of
  the next one numbers it, compares it with the reading just before (with itself when it is
  the first, so an opening balance of work is no progress), holds the deepest height of all
  readings so far, and has seen a reorg exactly when the heights so far, this one included,
  ever went down. Its reorg depth is the distance to the deepest height.
\<close>

theorem snapshot_exact:
  "case build_reading r (builder_after t0 rs) of (sn, _) \<Rightarrow>
     sn_seq sn = length rs \<and> sn_height sn = reading_height r \<and>
     sn_prev_height sn = reading_height (last (r # rs)) \<and>
     sn_prev_work sn = fst (snd (snd (last (r # rs)))) \<and>
     sn_max_height_seen sn = Max (set (map reading_height (rs @ [r]))) \<and>
     (sn_observed_reorg sn \<longleftrightarrow> \<not> sorted (map reading_height (rs @ [r]))) \<and>
     unat (sn_reorg_depth sn) = unat (Max (set (map reading_height (rs @ [r])))) - unat (reading_height r)"
proof -
  obtain p now work ev where r: "r = (p, now, work, ev)" by (metis prod_cases4)
  let ?sn = "fst (build_reading r (builder_after t0 rs))"
  have h: "sn_height ?sn = reading_height r"
    by (simp add: r build_reading_def sb_build_def Let_def reading_height_def)
  have "sn_seq ?sn = length rs \<and> sn_prev_height ?sn = reading_height (last (r # rs)) \<and>
     sn_prev_work ?sn = fst (snd (snd (last (r # rs)))) \<and> sn_max_height_seen ?sn = Max (set (map reading_height (rs @ [r]))) \<and>
     (sn_observed_reorg ?sn \<longleftrightarrow> \<not> sorted (map reading_height (rs @ [r])))"
  proof (cases "rs = []")
    case True
    then show ?thesis
      by (simp add: builder_after_def r build_reading_def sb_build_def sb_fold_def sb_open_def sb_new_def reading_height_def Let_def)
  next
    case False
    define M where "M = Max (set (map reading_height rs))"
    define S where "S = sorted (map reading_height rs)"
    have b: "sb_seq (builder_after t0 rs) = length rs" "sb_prev_height (builder_after t0 rs) = reading_height (last rs)"
      "sb_prev_work (builder_after t0 rs) = fst (snd (snd (last rs)))" "sb_max_height_seen (builder_after t0 rs) = M"
      "sb_observed_reorg (builder_after t0 rs) \<longleftrightarrow> \<not> S" "\<not> sb_observed_reconnect (builder_after t0 rs)"
      using builder_facts [of t0 rs] False unfolding M_def S_def by blast+
    note sm = heights_snoc [OF False, of r, folded M_def S_def]
    have p: "reading_height r = pv_height p" by (simp add: r reading_height_def)
    from False show ?thesis unfolding sm p
      by (auto simp: b r build_reading_def sb_build_def sb_fold_def sb_open_def Let_def not_le)
  qed
  with h have "unat (sn_reorg_depth ?sn) = unat (Max (set (map reading_height (rs @ [r])))) - unat (reading_height r)"
    by (simp only: sn_reorg_depth_def unat_sat_sub)
  with h \<open>sn_seq ?sn = length rs \<and> _\<close> show ?thesis by (simp add: split_beta)
qed

text \<open>
  No snapshot ever observes a reconnect: the flag a coverage probe would wait for is never
  set, whatever is read.
\<close>

theorem reconnect_never_observed:
  "\<not> sn_observed_reconnect (fst (build_reading r (builder_after t0 rs)))"
  using builder_facts [of t0 rs]
  by (cases r) (auto simp: build_reading_def sb_build_def sb_fold_def sb_open_def Let_def)

section \<open>History\<close>

lemma history_step:
  assumes "0 < cap"
  shows "hi_push s \<lparr>hi_buf = drop (length ss - cap) ss, hi_cap = cap, hi_dropped = length ss - cap\<rparr> =
    \<lparr>hi_buf = drop (length (ss @ [s]) - cap) (ss @ [s]), hi_cap = cap, hi_dropped = length (ss @ [s]) - cap\<rparr>"
proof (cases "cap \<le> length ss")
  case True
  then have "length (ss @ [s]) - cap = Suc (length ss - cap)" by simp
  with True assms show ?thesis by (simp add: hi_push_def drop_Suc tl_drop)
next
  case False
  then show ?thesis by (simp add: hi_push_def)
qed

text \<open>
  The history is bounded and loses the oldest only: with a positive cap it holds the latest
  snapshots in order, at most as many as the cap, and counts exactly those it dropped.
\<close>

theorem history_keeps_latest:
  assumes "0 < cap"
  shows "fold hi_push ss (hi_new cap) =
    \<lparr>hi_buf = drop (length ss - cap) ss, hi_cap = cap, hi_dropped = length ss - cap\<rparr>"
proof (induction ss rule: rev_induct)
  case Nil
  then show ?case by (simp add: hi_new_def)
next
  case (snoc s ss)
  then show ?case using history_step [OF assms] by simp
qed

definition demo_progress :: "u32 \<Rightarrow> progress_view" where
  "demo_progress h = \<lparr>pv_height = h, pv_target = Some 100, pv_pct = Fin 0, pv_work = None, pv_balances = None,
     pv_tree_roots = tr_UNREPORTED, pv_notes = None, pv_scan = None\<rparr>"

definition demo_snapshot :: "nat \<Rightarrow> u32 \<Rightarrow> snapshot" where
  "demo_snapshot t h = fst (sb_build (demo_progress h) t wk_ZERO te_default (sb_new 0))"

theorem history_keeps_latest_witness:
  "map sn_height (hi_buf (fold hi_push [demo_snapshot 0 7, demo_snapshot 5 8, demo_snapshot 10 9] (hi_new 2))) = [8, 9]"
  using history_keeps_latest [of 2 "[demo_snapshot 0 7, demo_snapshot 5 8, demo_snapshot 10 9]"]
  by (simp add: demo_snapshot_def demo_progress_def sb_build_def Let_def)

text \<open>A cap of zero bounds nothing: every snapshot is kept.\<close>

lemma push_cap_zero: "hi_cap h = 0 \<Longrightarrow> hi_cap (hi_push s h) = 0 \<and> hi_buf (hi_push s h) = hi_buf h @ [s]"
  by (simp add: hi_push_def Let_def)

lemma history_cap_zero: "hi_buf (fold hi_push ss (hi_new 0)) = ss"
proof -
  have "hi_cap (fold hi_push ss (hi_new 0)) = 0 \<and> hi_buf (fold hi_push ss (hi_new 0)) = ss"
    by (induction ss rule: rev_induct) (simp_all add: push_cap_zero, simp_all add: hi_new_def)
  then show ?thesis ..
qed

section \<open>Restart windows\<close>

definition any_down :: "container_sample option list \<Rightarrow> bool" where
  "any_down ss \<longleftrightarrow> (\<exists>c \<in> set ss. \<exists>x. c = Some x \<and> \<not> cs_ready x)"

lemma rw_loop_down:
  "length bs = length ss \<Longrightarrow> snd (snd (rw_loop bs ss r d)) \<longleftrightarrow> d \<or> any_down ss"
proof (induction bs ss r d rule: rw_loop.induct)
  case (1 b bs s ss r d)
  show ?case
  proof (cases s)
    case None
    with 1 show ?thesis by (simp add: any_down_def split_beta)
  next
    case (Some c)
    from 1 Some have "snd (snd (rw_loop bs ss (r + sat_sub (cs_restarts c) (case b of Some v \<Rightarrow> v | None \<Rightarrow> cs_restarts c)) (d \<or> \<not> cs_ready c))) \<longleftrightarrow>
        (d \<or> \<not> cs_ready c) \<or> any_down ss" by simp
    with Some show ?thesis by (auto simp: any_down_def Let_def split_beta)
  qed
qed (auto simp: any_down_def)

lemma rw_resize_length [simp]: "length (rw_resize n bs) = n"
  by (simp add: rw_resize_def)

text \<open>
  The window is open after an observation exactly when a container is down, or the subject has
  not answered and the window was open or a new restart was counted; the count never goes back.
\<close>

lemma restart_window:
  "rw_holding (rw_observe ss answered w) \<longleftrightarrow> any_down ss \<or>
     (\<not> answered \<and> (rw_holding w \<or> rw_seen w < rw_seen (rw_observe ss answered w)))"
  "rw_seen w \<le> rw_seen (rw_observe ss answered w)"
  using rw_loop_down [of "rw_resize (length ss) (rw_baseline w)" ss 0 False]
  by (auto simp: rw_observe_def Let_def max_def split: prod.splits)

section \<open>Safety probes\<close>

text \<open>A sequence of evaluations of one safety probe, and the verdicts of those that were due.\<close>

type_synonym evaluation = "snapshot \<times> nat \<times> (body_error + bool)"

definition always_step :: "evaluation \<Rightarrow> probe_spec \<Rightarrow> probe_spec" where
  "always_step e p = (case e of (snap, now, a) \<Rightarrow> fst (eval_always snap now a p))"

definition is_due :: "evaluation \<Rightarrow> probe_spec \<Rightarrow> bool" where
  "is_due e p = (case e of (snap, now, a) \<Rightarrow> pr_due p (sn_height snap) now)"

definition is_violated :: "probe_spec \<Rightarrow> evaluation \<Rightarrow> bool" where
  "is_violated p e = (case e of (snap, now, a) \<Rightarrow> (\<exists>v. judge_answer (pr_class p) a = Violated v))"

text \<open>The judged evaluations, latest first.\<close>

fun judged :: "probe_spec \<Rightarrow> evaluation list \<Rightarrow> evaluation list" where
  "judged p [] = []"
| "judged p (e # es) = judged (always_step e p) es @ (if is_due e p then [e] else [])"

definition errored :: "probe_spec \<Rightarrow> evaluation \<Rightarrow> bool" where
  "errored p e = (case e of (snap, now, a) \<Rightarrow> (\<exists>m. judge_answer (pr_class p) a = ProbeError m))"

lemma mark_fired_frame:
  "pr_violation_streak (pr_mark_fired q h n p) = pr_violation_streak p" "pr_class (pr_mark_fired q h n p) = pr_class p"
  "pr_hold_for (pr_mark_fired q h n p) = pr_hold_for p" "pr_cadence (pr_mark_fired q h n p) = pr_cadence p"
  "pr_severity (pr_mark_fired q h n p) = pr_severity p"
  by (simp_all add: pr_mark_fired_def Let_def split: cadence.split)

lemma threshold_cong:
  "pr_hold_for q = pr_hold_for p \<Longrightarrow> pr_cadence q = pr_cadence p \<Longrightarrow> pr_violation_threshold q = pr_violation_threshold p"
  by (simp add: pr_violation_threshold_def)

lemma eval_always_frame:
  "pr_class (fst (eval_always snap now a p)) = pr_class p" "pr_hold_for (fst (eval_always snap now a p)) = pr_hold_for p"
  "pr_cadence (fst (eval_always snap now a p)) = pr_cadence p"
  by (simp_all add: eval_always_def mark_fired_frame Let_def split: probe_verdict.split)

lemma always_step_frame:
  "pr_class (always_step e p) = pr_class p" "pr_violation_threshold (always_step e p) = pr_violation_threshold p"
  by (auto simp: always_step_def eval_always_frame intro: threshold_cong split: prod.split)

lemma always_step_cadence: "pr_cadence (always_step e p) = pr_cadence p"
  by (simp add: always_step_def eval_always_frame split: prod.split)

lemma always_step_next_due:
  "pr_cadence p = Every d \<Longrightarrow> is_due e p \<Longrightarrow> pr_next_due (always_step e p) = Some (fst (snd e) + d)"
  by (auto simp: always_step_def eval_always_def is_due_def pr_mark_fired_def Let_def split: prod.splits probe_verdict.split)

lemma always_step_streak:
  "\<not> errored p e \<Longrightarrow> pr_violation_streak (always_step e p) =
     (if \<not> is_due e p then pr_violation_streak p else if is_violated p e then pr_violation_streak p + 1 else 0)"
  by (auto simp: always_step_def errored_def is_due_def is_violated_def eval_always_def mark_fired_frame Let_def
      split: prod.splits probe_verdict.splits)

lemma is_violated_step [simp]: "is_violated (always_step e p) = is_violated p"
  by (simp add: is_violated_def always_step_frame fun_eq_iff)

lemma errored_step [simp]: "errored (always_step e p) = errored p"
  by (simp add: errored_def always_step_frame fun_eq_iff)

lemma streak_is_trailing_run:
  assumes "\<forall>e \<in> set es. \<not> errored p e"
  shows "pr_violation_streak (fold always_step es p) = (let run = length (takeWhile (is_violated p) (judged p es)) in
    if run = length (judged p es) then run + pr_violation_streak p else run)"
  using assms
proof (induction es arbitrary: p)
  case (Cons e es)
  let ?q = "always_step e p"
  have IH: "pr_violation_streak (fold always_step es ?q) = (let run = length (takeWhile (is_violated p) (judged ?q es)) in
      if run = length (judged ?q es) then run + pr_violation_streak ?q else run)"
    using Cons by simp
  have tw: "length (takeWhile P xs) = length xs \<longleftrightarrow> (\<forall>x \<in> set xs. P x)" for P and xs :: "evaluation list"
    by (metis takeWhile_eq_all_conv nth_equalityI length_takeWhile_le takeWhile_eq_take take_all_iff order_refl)
  show ?case
    using IH always_step_streak [of p e] Cons.prems length_takeWhile_le [of "is_violated p" "judged ?q es"]
    by (auto simp: Let_def tw takeWhile_append split: if_splits)
qed simp

lemma threshold_frame: "pr_violation_threshold (fold always_step es p) = pr_violation_threshold p \<and>
    pr_class (fold always_step es p) = pr_class p"
  by (induction es arbitrary: p) (simp_all add: always_step_frame)

text \<open>
  Debouncing counts consecutive violations: after any evaluations without a probe error, a
  safety probe that was registered afresh reports a violation at its next evaluation exactly
  when it is due there, is violated there, and the violations among its judged evaluations
  up to and including this one run back without a break for at least its threshold.
\<close>

theorem debounce_exact:
  assumes "pr_violation_streak p = 0" and "\<forall>e \<in> set es. \<not> errored p e"
  shows "fst (snd (eval_always snap now a (fold always_step es p))) \<noteq> None \<longleftrightarrow>
    is_due (snap, now, a) (fold always_step es p) \<and> is_violated p (snap, now, a) \<and>
    pr_violation_threshold p \<le> Suc (length (takeWhile (is_violated p) (judged p es)))"
proof -
  let ?q = "fold always_step es p"
  have st: "pr_violation_streak ?q = length (takeWhile (is_violated p) (judged p es))"
    using streak_is_trailing_run [OF assms(2)] assms(1) by (simp add: Let_def)
  have thr: "pr_violation_threshold (pr_mark_fired x y z ?q\<lparr>pr_violation_streak := n\<rparr>) = pr_violation_threshold p" for x y z n
    using threshold_frame [of es p] by (simp add: pr_violation_threshold_def mark_fired_frame)
  show ?thesis
    using st thr threshold_frame [of es p]
    by (auto simp: eval_always_def is_due_def is_violated_def mark_fired_frame Let_def split: probe_verdict.splits)
qed

text \<open>With whole seconds the threshold is the number of periods in the hold.\<close>

lemma f64_of_rat_nat: "n < 2 ^ 53 \<Longrightarrow> f64_of_rat (of_nat n) = Fin (of_nat n)"
proof -
  assume "n < 2 ^ 53"
  then have "int n < 2 ^ 53" by (metis of_nat_less_iff of_nat_numeral of_nat_power)
  with f64_of_rat_int [of "int n"] show ?thesis by simp
qed

lemma as_secs_whole: "n < 2 ^ 53 \<Longrightarrow> as_secs_f64 (secs n) = Fin (of_nat n)"
  using f64_of_rat_nat [of n] f64_of_rat_nat [of 0] by (simp add: as_secs_f64_def)

lemma threshold_whole_seconds:
  assumes "0 < d" "k * d < 2 ^ 53" "k < 2 ^ 32" and "pr_hold_for p = Some (secs (k * d))" "pr_cadence p = Every (secs d)"
  shows "pr_violation_threshold p = k"
proof -
  have "k < 2 ^ 53" "d < 2 ^ 53 \<or> k = 0"
    using assms(1-3) by (auto simp: mult_less_cancel2) (metis dual_order.strict_trans2 less_one linorder_not_less mult_le_mono1 nat_mult_1 not_less0)
  have "ceil_as_u32 (Fin (of_nat k)) = k" using assms(3) by (simp add: ceil_as_u32_def)
  show ?thesis
  proof (cases "k = 0")
    case False
    with \<open>d < 2 ^ 53 \<or> k = 0\<close> have d: "as_secs_f64 (secs d) = Fin (of_nat d)" by (simp add: as_secs_whole)
    have "(of_nat (k * d) :: rat) / of_nat d = of_nat k" using assms(1) by simp
    with d show ?thesis
      using assms as_secs_whole [OF assms(2)] f64_of_rat_nat [OF \<open>k < 2 ^ 53\<close>] \<open>ceil_as_u32 (Fin (of_nat k)) = k\<close>
      by (simp add: pr_violation_threshold_def)
  qed (use assms in \<open>auto simp: pr_violation_threshold_def ceil_as_u32_def as_secs_f64_def f64_of_rat_def split: f64.split\<close>)
qed

text \<open>
  A hold without a period is no hold: for a probe judged at each tick or every so many
  blocks the threshold is one, whatever its \<open>hold_for\<close> says, so the first violation is reported.
\<close>

theorem hold_ignored_without_period:
  assumes "\<And>d. pr_cadence p \<noteq> Every d"
  shows "pr_violation_threshold p = 1"
  using assms by (auto simp: pr_violation_threshold_def split: option.split cadence.split)

definition demo_probe :: "probe_class \<Rightarrow> cadence \<Rightarrow> duration option \<Rightarrow> probe_spec" where
  "demo_probe c cad hold = hd (bd_check ((bd_new c ''p'' Fatal)\<lparr>bd_cadence := cad, bd_hold_for := hold\<rparr>) [])"

lemma demo_probe_sel [simp]:
  "pr_violation_streak (demo_probe c cad hold) = 0" "pr_class (demo_probe c cad hold) = c" "pr_cadence (demo_probe c cad hold) = cad"
  "pr_hold_for (demo_probe c cad hold) = hold" "pr_next_due (demo_probe c cad hold) = None" "pr_last_satisfied (demo_probe c cad hold) = None"
  "pr_after (demo_probe c cad hold) = None" "pr_severity (demo_probe c cad hold) = Fatal"
  by (simp_all add: demo_probe_def bd_check_def bd_new_def)

theorem hold_ignored_without_period_witness:
  "pr_violation_threshold (demo_probe Always EachTick (Some (secs 60))) = 1"
  by (rule hold_ignored_without_period) simp

definition demo_violation :: "body_error + bool" where
  "demo_violation = Inl (BodyViolation (violation_new (Some 7) ''height went back''))"

theorem debounce_exact_witness:
  "fst (snd (eval_always (demo_snapshot (secs 10) 7) (secs 10) demo_violation
     (fold always_step [(demo_snapshot 0 7, 0, demo_violation)] (demo_probe Always (Every (secs 10)) (Some (secs 20)))))) \<noteq> None"
proof -
  let ?p = "demo_probe Always (Every (secs 10)) (Some (secs 20))"
  let ?e = "(demo_snapshot 0 7, 0, demo_violation)"
  have v: "judge_answer Always demo_violation = Violated (violation_new (Some 7) ''height went back'')"
    by (simp add: judge_answer_def demo_violation_def answer_unit_def probe_failed_def)
  have t: "pr_violation_threshold ?p = 2" by (rule threshold_whole_seconds [where d = 10]) simp_all
  have n: "\<forall>e \<in> set [?e]. \<not> errored ?p e" by (simp add: errored_def v)
  have due: "is_due ?e ?p" by (simp add: is_due_def pr_due_def)
  have viol: "is_violated ?p (s, t, demo_violation)" for s t by (simp add: is_violated_def v)
  have q: "pr_next_due (always_step ?e ?p) = Some (secs 10)" "pr_cadence (always_step ?e ?p) = Every (secs 10)"
    using always_step_next_due [OF _ due, of "secs 10"] by (simp_all add: always_step_cadence)
  then have "is_due (demo_snapshot (secs 10) 7, secs 10, demo_violation) (fold always_step [?e] ?p)"
    by (simp add: is_due_def pr_due_def always_step_frame)
  then show ?thesis
    using debounce_exact [of ?p "[?e]" "demo_snapshot (secs 10) 7" "secs 10" demo_violation, OF _ n] due viol t by simp
qed

section \<open>Liveness probes\<close>

text \<open>
  What happens to a liveness probe at a tick: it is judged on a snapshot, or there was no
  reading and an open restart window credits it.
\<close>

datatype live_event = Judged chaos snapshot nat "body_error + bool" | Held nat

fun event_time :: "live_event \<Rightarrow> nat" where
  "event_time (Judged c snap now a) = now"
| "event_time (Held now) = now"

fun live_step :: "live_event \<Rightarrow> probe_spec \<Rightarrow> probe_spec" where
  "live_step (Judged c snap now a) p = fst (eval_eventually c snap now a p)"
| "live_step (Held now) p = hd (credit_liveness now [p])"

text \<open>Excused by a restart or a fault that has not fired, or satisfied.\<close>

fun credited :: "probe_spec \<Rightarrow> live_event \<Rightarrow> bool" where
  "credited p (Judged c snap now a) \<longleftrightarrow> sn_restarting snap \<or> \<not> armed c p \<or> judge_answer Eventually a = Satisfied"
| "credited p (Held now) \<longleftrightarrow> True"

definition clock_start :: "probe_spec \<Rightarrow> live_event list \<Rightarrow> nat option" where
  "clock_start p es = (case find (credited p) (rev es) of
     Some e \<Rightarrow> Some (event_time e) | None \<Rightarrow> if es = [] then None else Some (event_time (hd es)))"

lemma live_step_frame:
  assumes "pr_class p = Eventually"
  shows "pr_class (live_step e p) = Eventually" "pr_after (live_step e p) = pr_after p" "pr_cadence (live_step e p) = pr_cadence p"
  using assms by (cases e; simp add: eval_eventually_def credit_liveness_def Let_def split: probe_verdict.split)+

lemma live_step_clock:
  assumes "pr_class p = Eventually"
  shows "pr_last_satisfied (live_step e p) = (if credited p e then Some (event_time e)
    else (case pr_last_satisfied p of Some t \<Rightarrow> Some t | None \<Rightarrow> Some (event_time e)))"
proof (cases e)
  case (Judged c snap now a)
  with assms show ?thesis by (cases "judge_answer Eventually a") (auto simp: eval_eventually_def Let_def split: option.split)
qed (simp add: credit_liveness_def assms)

lemma live_steps:
  assumes "pr_class p = Eventually" "pr_last_satisfied p = None"
  shows "pr_last_satisfied (fold live_step es p) = clock_start p es \<and> pr_class (fold live_step es p) = Eventually \<and>
    pr_after (fold live_step es p) = pr_after p \<and> pr_cadence (fold live_step es p) = pr_cadence p"
proof (induction es rule: rev_induct)
  case Nil
  then show ?case using assms by (simp add: clock_start_def)
next
  case (snoc e es)
  let ?q = "fold live_step es p"
  have c: "credited ?q e = credited p e" using snoc by (cases e) (simp_all add: armed_def)
  have "pr_last_satisfied (live_step e ?q) = clock_start p (es @ [e])"
    using snoc c live_step_clock [of ?q e]
    by (cases es) (auto simp: clock_start_def split: option.splits)
  with snoc live_step_frame [of ?q e] show ?case by simp
qed

text \<open>
  C21. A stall is reported exactly when nothing has satisfied or excused a liveness probe for
  longer than its window: at an evaluation outside restart windows, with its fault fired, that
  does not satisfy it, more than the window after the last evaluation at which it was
  satisfied, at which a restart was in progress or at which its fault had still to fire, and
  if there was none after its first evaluation.
\<close>

theorem stall_reported_iff:
  assumes "pr_class p = Eventually" and "pr_last_satisfied p = None"
  shows "(\<exists>v. fst (snd (eval_eventually c snap now a (fold live_step es p))) = Some v) \<longleftrightarrow>
      \<not> sn_restarting snap \<and> armed c p \<and> judge_answer Eventually a \<noteq> Satisfied \<and>
      (\<forall>m. judge_answer Eventually a \<noteq> ProbeError m) \<and>
      (\<exists>t. clock_start p es = Some t \<and> pr_window p < now - t)"
proof -
  let ?q = "fold live_step es p"
  note q = live_steps [OF assms, of es]
  then have "armed c ?q = armed c p" "pr_window ?q = pr_window p" by (simp_all add: armed_def pr_window_def)
  with q show ?thesis
    by (cases "judge_answer Eventually a") (auto simp: eval_eventually_def Let_def split: option.splits)
qed

definition no_chaos :: chaos where
  "no_chaos = chaos_new [] 0"

theorem stall_reported_iff_witness:
  "\<exists>v. fst (snd (eval_eventually no_chaos (demo_snapshot 70 7) 70 (Inr False)
     (fold live_step [Judged no_chaos (demo_snapshot 0 7) 0 (Inr True), Judged no_chaos (demo_snapshot 5 7) 5 (Inr False)]
       (demo_probe Eventually (Window 60) None)))) = Some v"
proof -
  let ?p = "demo_probe Eventually (Window 60) None"
  let ?es = "[Judged no_chaos (demo_snapshot 0 7) 0 (Inr True), Judged no_chaos (demo_snapshot 5 7) 5 (Inr False)]"
  have r: "\<not> sn_restarting (demo_snapshot t h)" for t h by (simp add: demo_snapshot_def sb_build_def te_default_def Let_def)
  have "clock_start ?p ?es = Some 0" by (simp add: clock_start_def r armed_def judge_answer_def answer_bool_def)
  then show ?thesis
    using stall_reported_iff [of ?p no_chaos "demo_snapshot 70 7" 70 "Inr False" ?es]
    by (simp add: r armed_def judge_answer_def answer_bool_def pr_window_def)
qed

end
