(* ===== verification/Sync_Runner_Props.thy ===== *)
theory Sync_Runner_Props
  imports Sync_Probe_Props
begin

text \<open>
  What a sync run of \<open>src/src/sync/runner.rs\<close> guarantees: when it passes, in which order its
  phases run, when its subject is stopped, when probes report, when kills fire, and what its
  snapshots and its history hold.
\<close>

section \<open>The registered probes\<close>

text \<open>What a probe was registered as never changes.\<close>

definition probe_id :: "probe_spec \<Rightarrow> string \<times> probe_class \<times> severity" where
  "probe_id p = (pr_name p, pr_class p, pr_severity p)"

abbreviation probe_ids :: "phase_state \<Rightarrow> (string \<times> probe_class \<times> severity) list" where
  "probe_ids s \<equiv> map probe_id (ph_probes (ps_phase s))"

definition of_severity :: "severity \<Rightarrow> (string \<times> probe_class \<times> severity) list \<Rightarrow> violation \<Rightarrow> bool" where
  "of_severity sev ids v \<longleftrightarrow> (\<exists>c. (vi_probe v, c, sev) \<in> set ids)"

lemma mark_fired_id [simp]: "probe_id (pr_mark_fired seq h now p) = probe_id p"
  by (simp add: pr_mark_fired_def probe_id_def Let_def split: cadence.split)

lemma probe_id_update [simp]:
  "probe_id (p\<lparr>pr_violation_streak := n\<rparr>) = probe_id p" "probe_id (p\<lparr>pr_last_satisfied := t\<rparr>) = probe_id p"
  "probe_id (p\<lparr>pr_ever_satisfied := b\<rparr>) = probe_id p"
  by (simp_all add: probe_id_def)

lemma sometimes_ids: "map probe_id (fst (eval_sometimes judge i ps)) = map probe_id ps"
  by (induction judge i ps rule: eval_sometimes.induct) (auto simp: Let_def split: probe_verdict.split prod.split)

lemma credit_ids [simp]: "map probe_id (credit_liveness now ps) = map probe_id ps"
  by (simp add: credit_liveness_def)

text \<open>A probe's violation carries its name, and ends the loop exactly when the probe is fatal.\<close>

lemma eval_always_result:
  assumes "eval_always snap now a p = (q, v, fl)"
  shows "probe_id q = probe_id p \<and> (fl = FailFast \<longleftrightarrow> v \<noteq> None \<and> pr_severity p = Fatal) \<and> (\<forall>x. v = Some x \<longrightarrow> vi_probe x = pr_name p)"
  using assms by (auto simp: eval_always_def Let_def split: if_splits probe_verdict.splits)

lemma eval_eventually_result:
  assumes "eval_eventually c snap now a p = (q, v, fl)"
  shows "probe_id q = probe_id p \<and> (fl = FailFast \<longleftrightarrow> v \<noteq> None \<and> pr_severity p = Fatal) \<and> (\<forall>x. v = Some x \<longrightarrow> vi_probe x = pr_name p)"
  using assms by (auto simp: eval_eventually_def stall_violation_def Let_def split: if_splits probe_verdict.splits)

lemma eval_probe_result:
  assumes "eval_probe c snap now a p = (q, v, fl)"
  shows "probe_id q = probe_id p \<and> (fl = FailFast \<longleftrightarrow> v \<noteq> None \<and> pr_severity p = Fatal) \<and> (\<forall>x. v = Some x \<longrightarrow> vi_probe x = pr_name p)"
  using assms eval_always_result eval_eventually_result by (auto simp: eval_probe_def split: probe_class.splits)

lemma of_severity_Cons: "of_severity sev (probe_id p # ids) v \<longleftrightarrow>
    (vi_probe v = pr_name p \<and> pr_severity p = sev) \<or> of_severity sev ids v"
  by (auto simp: of_severity_def probe_id_def)

lemma eval_probes_result:
  assumes "eval_probes c snap now judge i ps = (qs, vs, fl)"
  shows "map probe_id qs = map probe_id ps \<and> (fl \<noteq> FailFast \<longrightarrow> (\<forall>v \<in> set vs. of_severity Recorded (map probe_id ps) v))"
  using assms
proof (induction c snap now judge i ps arbitrary: qs vs fl rule: eval_probes.induct)
  case (2 c snap now judge i p ps)
  obtain q v fl1 where e: "eval_probe c snap now (judge i) p = (q, v, fl1)" by (metis prod_cases3)
  obtain qs2 vs2 fl2 where r: "eval_probes c snap now judge (Suc i) ps = (qs2, vs2, fl2)" by (metis prod_cases3)
  note ep = eval_probe_result [OF e]
  have rec: "\<forall>x. v = Some x \<and> fl1 \<noteq> FailFast \<longrightarrow> vi_probe x = pr_name p \<and> pr_severity p = Recorded"
    using ep by (metis option.distinct(1) severity.exhaust)
  show ?case
  proof (cases "fl1 = Continue")
    case True
    note IH = "2.IH" [OF e [symmetric] refl refl True r]
    from "2.prems" e r True have "qs = q # qs2" "vs = (case v of Some x \<Rightarrow> [x] | None \<Rightarrow> []) @ vs2" "fl = fl2" by auto
    with IH ep rec True show ?thesis by (auto simp: of_severity_Cons split: option.splits)
  next
    case False
    with "2.prems" e have "qs = q # ps" "vs = (case v of Some x \<Rightarrow> [x] | None \<Rightarrow> [])" "fl = fl1" by auto
    with ep rec show ?thesis by (auto simp: of_severity_Cons split: option.splits)
  qed
qed simp

lemma at_completion_result:
  assumes "eval_at_completion begun attempts i ps = Some (vs, r)"
  shows "\<forall>f. r = Inr f \<longrightarrow> (\<not> f \<longrightarrow> (\<forall>v \<in> set vs. of_severity Recorded (map probe_id ps) v)) \<and> (f \<longrightarrow> vs \<noteq> [])"
  using assms
proof (induction begun attempts i ps arbitrary: vs r rule: eval_at_completion.induct)
  case (2 begun attempts i p ps)
  show ?case
  proof (cases "pr_class p = AtCompletion")
    case False
    with "2.IH"(1) "2.prems" show ?thesis by (auto simp: of_severity_Cons)
  next
    case True
    with "2.prems" obtain w where w: "retry_loop (map_option (\<lambda>span. begun i + span) (pr_within p)) (attempts i) = Some w"
      by (auto split: option.splits)
    note IH = "2.IH"(2-) [OF _ w]
    show ?thesis
    proof (cases w)
      case (Violated v)
      with "2.prems" w True obtain vs' r' where
        "eval_at_completion begun attempts (Suc i) ps = Some (vs', r')" "vs = v\<lparr>vi_probe := pr_name p\<rparr> # vs'"
        "r = map_sum id (\<lambda>f. pr_severity p = Fatal \<or> f) r'" by auto
      with "2.IH" True w Violated show ?thesis
        by (cases r') (auto simp: of_severity_Cons, (metis severity.exhaust)+)
    qed (use "2.prems" "2.IH" True w in \<open>auto simp: of_severity_Cons\<close>)
  qed
qed simp

section \<open>One tick\<close>

text \<open>What a tick leaves alone before the probes are judged.\<close>

definition same_books :: "phase_state \<Rightarrow> phase_state \<Rightarrow> bool" where
  "same_books s t \<longleftrightarrow> probe_ids t = probe_ids s \<and> ps_violations t = ps_violations s \<and> ps_fatal t = ps_fatal s"

lemma same_books_refl [simp]: "same_books s s"
  by (simp add: same_books_def)

lemma same_books_trans: "same_books s t \<Longrightarrow> same_books t u \<Longrightarrow> same_books s u"
  by (simp add: same_books_def)

lemma apply_due_books: "apply_due ws kills now i fs s = (t, r) \<Longrightarrow> same_books s t"
  by (induction ws kills now i fs s arbitrary: t r rule: apply_due.induct)
    (auto simp: same_books_def split: fault_kind.splits sum.splits)

lemma apply_faults_books: "apply_faults env ti s = (t, r) \<Longrightarrow> same_books s t"
  by (auto simp: apply_faults_def Let_def take_due_def dest!: apply_due_books simp: same_books_def)

lemma settle_rows_books [simp]: "same_books s (settle_rows ti s)"
  by (auto simp: settle_rows_def same_books_def Let_def split: option.split prod.split)

lemma missed_reading_books [simp]: "same_books s (missed_reading ti s)"
  by (simp add: missed_reading_def same_books_def Let_def)

lemma observe_tick_books: "observe_tick env ti p s = (snap, t) \<Longrightarrow> same_books s t"
  by (auto simp: observe_tick_def same_books_def Let_def split: prod.splits option.splits)

lemma eval_tick_result:
  assumes "eval_tick snap ti s = (t, fl)"
  shows "probe_ids t = probe_ids s \<and> ps_fatal t = ps_fatal s \<and>
    (\<exists>vs. ps_violations t = ps_violations s @ vs \<and> (fl \<noteq> FailFast \<longrightarrow> (\<forall>v \<in> set vs. of_severity Recorded (probe_ids s) v)))"
proof -
  obtain ps r where e: "eval_sometimes (ti_judge ti) 0 (ph_probes (ps_phase s)) = (ps, r)" by (metis surj_pair)
  with sometimes_ids [of "ti_judge ti" 0 "ph_probes (ps_phase s)"] have ids: "map probe_id ps = probe_ids s" by simp
  obtain qs vs fl1 where q: "eval_probes (ps_chaos s) snap (ti_now ti) (ti_judge ti) 0 ps = (qs, vs, fl1)" by (metis prod_cases3)
  from eval_probes_result [OF q] ids e q assms show ?thesis
    by (cases r) (auto simp: eval_tick_def)
qed

lemma completion_result:
  assumes "complete_phase env fi s = Some (t, err)"
  shows "probe_ids t = probe_ids s \<and> (\<exists>vs. ps_violations t = ps_violations s @ vs \<and>
    (err = None \<longrightarrow> (ps_fatal t \<longrightarrow> ps_fatal s \<or> vs \<noteq> []) \<and>
      (\<not> ps_fatal t \<longrightarrow> \<not> ps_fatal s \<and> (\<forall>v \<in> set vs. of_severity Recorded (probe_ids s) v))))"
proof (cases "fi_progress fi")
  case (Inl e)
  with assms show ?thesis by (auto simp: complete_phase_def)
next
  case (Inr p)
  obtain ps r where e: "eval_sometimes (fi_judge fi) 0 (ph_probes (ps_phase s)) = (ps, r)" by (metis surj_pair)
  with sometimes_ids [of "fi_judge fi" 0 "ph_probes (ps_phase s)"] have ids: "map probe_id ps = probe_ids s" by simp
  show ?thesis
  proof (cases r)
    case (Some msg)
    with assms e Inr ids show ?thesis by (auto simp: complete_phase_def Let_def split: prod.splits)
  next
    case None
    with assms e Inr obtain vs r' where ac: "eval_at_completion (fi_begun fi) (fi_attempts fi) 0 ps = Some (vs, r')"
      by (auto simp: complete_phase_def Let_def split: prod.splits)
    note res = at_completion_result [OF ac]
    with assms e Inr ids None ac show ?thesis
      by (cases r') (auto simp: complete_phase_def Let_def split: prod.splits)
  qed
qed

text \<open>A phase in progress: nothing fatal has happened, and what is recorded comes from recording probes.\<close>

definition in_progress :: "(string \<times> probe_class \<times> severity) list \<Rightarrow> phase_state \<Rightarrow> bool" where
  "in_progress ids s \<longleftrightarrow> probe_ids s = ids \<and> \<not> ps_fatal s \<and> (\<forall>v \<in> set (ps_violations s). of_severity Recorded ids v)"

text \<open>How a phase can end.\<close>

definition sound_end :: "(string \<times> probe_class \<times> severity) list \<Rightarrow> phase_state \<Rightarrow> ending \<Rightarrow> bool" where
  "sound_end ids s e \<longleftrightarrow> probe_ids s = ids \<and>
     (\<not> en_completed e \<longrightarrow> en_verdict e \<noteq> VPassed) \<and>
     (en_completed e \<longrightarrow> en_verdict e = completed_verdict (en_error e) (ps_violations s) (coverage_gaps (ph_probes (ps_phase s))) \<and>
       (en_error e = None \<longrightarrow>
         (ps_fatal s \<longrightarrow> ps_violations s \<noteq> [] \<or> coverage_gaps (ph_probes (ps_phase s)) \<noteq> []) \<and>
         (\<not> ps_fatal s \<longrightarrow> coverage_gaps (ph_probes (ps_phase s)) = [] \<and> (\<forall>v \<in> set (ps_violations s). of_severity Recorded ids v))))"

lemma in_progress_books: "in_progress ids s \<Longrightarrow> same_books s t \<Longrightarrow> in_progress ids t"
  by (simp add: in_progress_def same_books_def)

lemma stopped_books [simp]: "same_books s (halted s)"
  by (simp add: same_books_def halted_def)

lemma cut_sound: "in_progress ids s \<Longrightarrow> v \<noteq> VPassed \<Longrightarrow> sound_end ids s (ending_cut v err)"
  by (simp add: in_progress_def sound_end_def ending_cut_def)

lemma finish_sound:
  assumes "finish_phase env fi s = Some (t, e)" and "in_progress ids s"
  shows "sound_end ids t e"
proof -
  from assms(1) obtain u err where c: "complete_phase env fi s = Some (u, err)"
    and t: "t = u\<lparr>ps_fatal := ps_fatal u \<or> coverage_gaps (ph_probes (ps_phase u)) \<noteq> []\<rparr>"
    and e: "e = \<lparr>en_verdict = completed_verdict err (ps_violations u) (coverage_gaps (ph_probes (ps_phase u))), en_error = err, en_completed = True\<rparr>"
    by (auto simp: finish_phase_def Let_def)
  from completion_result [OF c] assms(2) show ?thesis unfolding t e by (auto simp: sound_end_def in_progress_def)
qed

text \<open>The ways a judged tick and a tick can go.\<close>

lemma judge_tick_cases:
  assumes "judge_tick env ti p s = Some (t, r)"
  obtains (failfast) snap s1 s2 where "observe_tick env ti p s = (snap, s1)" "eval_tick snap ti s1 = (s2, FailFast)"
      "t = (halted s2)\<lparr>ps_fatal := True\<rparr>" "r = Some (ending_cut VFailed None)"
  | (abort) snap s1 s2 msg where "observe_tick env ti p s = (snap, s1)" "eval_tick snap ti s1 = (s2, Abort msg)"
      "t = halted s2" "r = Some (ending_cut VErrored (Some msg))"
  | (finished) snap s1 s2 e where "observe_tick env ti p s = (snap, s1)" "eval_tick snap ti s1 = (s2, Continue)"
      "finish_phase env (ti_final ti) s2 = Some (t, e)" "r = Some e" "reached_stop snap s2 \<or> ti_complete ti"
  | (going) snap s1 s2 where "observe_tick env ti p s = (snap, s1)" "eval_tick snap ti s1 = (s2, Continue)"
      "t = s2" "r = None" "\<not> reached_stop snap s2" "\<not> ti_complete ti"
proof -
  obtain snap s1 where o: "observe_tick env ti p s = (snap, s1)" by (metis surj_pair)
  obtain s2 fl where v: "eval_tick snap ti s1 = (s2, fl)" by (metis surj_pair)
  show thesis
    using assms o v by (cases fl) (auto simp: judge_tick_def intro: that split: if_splits)
qed

lemma sync_tick_cases:
  assumes "sync_tick env ti s = Some (t, r)"
  obtains (cut) u v err where "u \<in> {s, fst (apply_faults env ti s), settle_rows ti (fst (apply_faults env ti s))}"
      "t = halted u" "r = Some (ending_cut v err)" "v \<noteq> VPassed"
  | (missed) e where "\<not> past_deadline env (ti_now ti)" "snd (apply_faults env ti s) = None" "ti_progress ti = Inl e"
      "t = missed_reading ti (settle_rows ti (fst (apply_faults env ti s)))" "r = None"
  | (judged) p where "\<not> past_deadline env (ti_now ti)" "snd (apply_faults env ti s) = None" "ti_progress ti = Inr p"
      "judge_tick env ti p ((settle_rows ti (fst (apply_faults env ti s)))\<lparr>ps_progress_errors := 0\<rparr>) = Some (t, r)"
proof -
  obtain s1 f where a: "apply_faults env ti s = (s1, f)" by (metis surj_pair)
  consider "ti_cancelled ti" | "\<not> ti_cancelled ti" "past_deadline env (ti_now ti)"
    | e where "\<not> ti_cancelled ti" "\<not> past_deadline env (ti_now ti)" "f = Some e"
    | msg where "\<not> ti_cancelled ti" "\<not> past_deadline env (ti_now ti)" "f = None" "ti_failure ti = Some msg"
    | "\<not> ti_cancelled ti" "\<not> past_deadline env (ti_now ti)" "f = None" "ti_failure ti = None"
    by fastforce
  then show thesis
  proof cases
    case 5
    then show ?thesis
    proof (cases "ti_progress ti")
      case (Inl e)
      with 5 assms a show ?thesis by (intro missed) (auto simp: sync_tick_def Let_def)
    next
      case (Inr p)
      with 5 assms a show ?thesis by (intro judged) (auto simp: sync_tick_def Let_def)
    qed
  next
    case 1
    with assms show ?thesis by (intro cut [of s VCancelled None]) (auto simp: sync_tick_def)
  next
    case 2
    with assms show ?thesis by (intro cut [of s VTimedOut None]) (auto simp: sync_tick_def)
  next
    case (3 e)
    with assms a show ?thesis by (intro cut [of s1 VErrored "Some e"]) (auto simp: sync_tick_def)
  next
    case (4 msg)
    with assms a show ?thesis by (intro cut [of "settle_rows ti s1" VFailed "Some msg"]) (auto simp: sync_tick_def Let_def)
  qed
qed

lemma judge_tick_sound:
  assumes "judge_tick env ti p s = Some (t, r)" and "in_progress ids s"
  shows "case r of None \<Rightarrow> in_progress ids t | Some e \<Rightarrow> sound_end ids t e"
  using assms(1)
proof (cases rule: judge_tick_cases)
  case (failfast snap s1 s2)
  with eval_tick_result [OF failfast(2)] in_progress_books [OF assms(2) observe_tick_books [OF failfast(1)]] show ?thesis
    by (auto simp: sound_end_def ending_cut_def halted_def in_progress_def)
next
  case (abort snap s1 s2 msg)
  have "in_progress ids s2"
    using eval_tick_result [OF abort(2)] in_progress_books [OF assms(2) observe_tick_books [OF abort(1)]]
    by (auto simp: in_progress_def)
  with abort show ?thesis by (auto intro: cut_sound in_progress_books [OF _ stopped_books])
next
  case (finished snap s1 s2 e)
  have "in_progress ids s2"
    using eval_tick_result [OF finished(2)] in_progress_books [OF assms(2) observe_tick_books [OF finished(1)]]
    by (auto simp: in_progress_def)
  with finished show ?thesis by (auto intro: finish_sound)
next
  case (going snap s1 s2)
  with eval_tick_result [OF going(2)] in_progress_books [OF assms(2) observe_tick_books [OF going(1)]] show ?thesis
    by (auto simp: in_progress_def)
qed

lemma sync_tick_sound:
  assumes "sync_tick env ti s = Some (t, r)" and "in_progress ids s"
  shows "case r of None \<Rightarrow> in_progress ids t | Some e \<Rightarrow> sound_end ids t e"
proof -
  let ?s1 = "fst (apply_faults env ti s)"
  have i1: "in_progress ids ?s1" using in_progress_books [OF assms(2) apply_faults_books [OF prod.collapse [symmetric]]] .
  have i2: "in_progress ids (settle_rows ti ?s1)" using in_progress_books [OF i1 settle_rows_books] .
  from assms(1) show ?thesis
  proof (cases rule: sync_tick_cases)
    case (cut u v err)
    with assms(2) i1 i2 show ?thesis by (auto intro: cut_sound in_progress_books [OF _ stopped_books])
  next
    case missed
    with i2 show ?thesis by (auto intro: in_progress_books [OF _ missed_reading_books])
  next
    case (judged p)
    from i2 have "in_progress ids ((settle_rows ti ?s1)\<lparr>ps_progress_errors := 0\<rparr>)" by (simp add: in_progress_def)
    with judged(4) show ?thesis by (rule judge_tick_sound)
  qed
qed

lemma sync_ticks_sound:
  "sync_ticks env tis s = Some (t, e) \<Longrightarrow> in_progress ids s \<Longrightarrow> sound_end ids t e"
proof (induction tis arbitrary: s)
  case (Cons ti tis)
  then obtain u r where u: "sync_tick env ti s = Some (u, r)" by (auto split: option.splits)
  with sync_tick_sound [OF u Cons.prems(2)] Cons show ?case by (cases r) auto
qed simp

section \<open>Phases and runs\<close>

abbreviation registered :: "sync_phase \<Rightarrow> (string \<times> probe_class \<times> severity) list" where
  "registered ph \<equiv> map probe_id (ph_probes ph)"

definition earned :: "phase_result \<Rightarrow> bool" where
  "earned r \<longleftrightarrow> rs_violations r = [] \<and> po_coverage_gaps (rs_summary r) = [] \<and> po_error (rs_summary r) = None \<and> rs_proceed r"

definition unharmed :: "(string \<times> probe_class \<times> severity) list \<Rightarrow> phase_result \<Rightarrow> bool" where
  "unharmed ids r \<longleftrightarrow> po_error (rs_summary r) = None \<and> po_coverage_gaps (rs_summary r) = [] \<and>
     (\<forall>v \<in> set (rs_violations r). of_severity Recorded ids v)"

definition sound_result :: "(string \<times> probe_class \<times> severity) list \<Rightarrow> phase_result \<Rightarrow> bool" where
  "sound_result ids r \<longleftrightarrow> (po_verdict (rs_summary r) = VPassed \<longrightarrow> earned r) \<and> (rs_proceed r \<longrightarrow> unharmed ids r)"

lemma early_sound: "v \<noteq> VPassed \<Longrightarrow> sound_result ids (phase_early ph v err w el)"
  by (simp add: sound_result_def phase_early_def)

lemma result_sound: "sound_end ids s e \<Longrightarrow> sound_result ids (phase_result_of net w el s e)"
  by (auto simp: sound_result_def sound_end_def earned_def unharmed_def phase_result_of_def completed_verdict_def split: if_splits)

lemma start_in_progress: "in_progress (registered ph) (phase_start cfg sh i ph)"
  by (simp add: in_progress_def phase_start_def)

lemma phase_run_sound: "phase_run cfg i ph sh = Some (r, sh') \<Longrightarrow> sound_result (registered ph) r"
  by (auto simp: phase_run_def Let_def intro: early_sound result_sound sync_ticks_sound start_in_progress
      split: sum.splits option.splits gate_readiness.splits)

lemma run_phase_sound: "run_phase cfg i ph sh = Some (r, sh') \<Longrightarrow> sound_result (registered ph) r"
  by (auto simp: run_phase_def Let_def intro: early_sound dest: phase_run_sound split: if_splits build_answer.splits sum.splits)

lemma registered_throughout: "registered (with_throughout thr ph) = map probe_id thr @ registered ph"
  by (simp add: with_throughout_def pr_fresh_def probe_id_def)

lemma run_phases_step:
  assumes "run_phases cfg thr ((ph, i) # phs) sh = Some (rs, sh')"
  obtains r sh1 rs' where "rs = r # rs'" "sound_result (map probe_id thr @ registered ph) r"
    "if rs_proceed r then run_phases cfg thr phs sh1 = Some (rs', sh') else rs' = []"
proof -
  from assms obtain r sh0 where r: "run_phase cfg i (with_throughout thr ph) (sh\<lparr>sh_log := sh_log sh @ [ReportPhaseStart (ph_name ph)]\<rparr>) = Some (r, sh0)"
    by (auto split: option.splits)
  note snd_r = run_phase_sound [OF r, unfolded registered_throughout]
  let ?sh1 = "sh0\<lparr>sh_log := sh_log sh0 @ [ReportPhase (rs_summary r)]\<rparr>"
  show thesis
  proof (cases "rs_proceed r")
    case True
    with assms r obtain rs' where "rs = r # rs'" "run_phases cfg thr phs ?sh1 = Some (rs', sh')" by auto
    with True snd_r show ?thesis by (intro that [of r rs' ?sh1]) auto
  next
    case False
    with assms r snd_r show ?thesis by (intro that [of r "[]" ?sh1]) auto
  qed
qed

text \<open>
  C15. Phases are gated: in any run, each attempted phase but the last completed without error,
  without coverage gap and with violations of recording probes only, registered for the phase
  or for the whole run; and when phases are left unattempted, the last attempted one did not
  proceed.
\<close>

theorem phases_gated:
  assumes "run_phases cfg thr phs sh = Some (rs, sh')"
  shows "length rs \<le> length phs \<and>
    (\<forall>k. Suc k < length rs \<longrightarrow> rs_proceed (rs ! k) \<and> unharmed (map probe_id thr @ registered (fst (phs ! k))) (rs ! k)) \<and>
    (length rs < length phs \<longrightarrow> rs \<noteq> [] \<and> \<not> rs_proceed (last rs))"
  using assms
proof (induction phs arbitrary: rs sh)
  case (Cons x phs)
  obtain ph i where x: "x = (ph, i)" by fastforce
  from Cons.prems[unfolded x] show ?case
  proof (rule run_phases_step)
    fix r sh1 rs'
    assume rs: "rs = r # rs'" and s: "sound_result (map probe_id thr @ registered ph) r"
      and rest: "if rs_proceed r then run_phases cfg thr phs sh1 = Some (rs', sh') else rs' = []"
    show ?case
    proof (cases "rs_proceed r")
      case False
      with rest rs show ?thesis by auto
    next
      case True
      with rest Cons.IH have IH: "length rs' \<le> length phs \<and>
          (\<forall>k. Suc k < length rs' \<longrightarrow> rs_proceed (rs' ! k) \<and> unharmed (map probe_id thr @ registered (fst (phs ! k))) (rs' ! k)) \<and>
          (length rs' < length phs \<longrightarrow> rs' \<noteq> [] \<and> \<not> rs_proceed (last rs'))" by simp
      have "rs_proceed (rs ! k) \<and> unharmed (map probe_id thr @ registered (fst ((x # phs) ! k))) (rs ! k)" if "Suc k < length rs" for k
        using that IH s True by (cases k) (auto simp: rs x sound_result_def)
      with IH show ?thesis by (auto simp: rs)
    qed
  qed
qed simp

lemma run_phases_earned:
  assumes "run_phases cfg thr phs sh = Some (rs, sh')" and "\<forall>r \<in> set rs. po_verdict (rs_summary r) = VPassed"
  shows "length rs = length phs \<and> (\<forall>r \<in> set rs. earned r)"
  using assms
proof (induction phs arbitrary: rs sh)
  case (Cons x phs)
  obtain ph i where x: "x = (ph, i)" by fastforce
  from Cons.prems(1)[unfolded x] show ?case
  proof (rule run_phases_step)
    fix r sh1 rs'
    assume rs: "rs = r # rs'" and s: "sound_result (map probe_id thr @ registered ph) r"
      and rest: "if rs_proceed r then run_phases cfg thr phs sh1 = Some (rs', sh') else rs' = []"
    from s rs Cons.prems(2) have "earned r" by (simp add: sound_result_def)
    with rest have "run_phases cfg thr phs sh1 = Some (rs', sh')" by (simp add: earned_def)
    moreover have "\<forall>r \<in> set rs'. po_verdict (rs_summary r) = VPassed" using Cons.prems(2) rs by simp
    ultimately have "length rs' = length phs \<and> (\<forall>r \<in> set rs'. earned r)" by (rule Cons.IH)
    with \<open>earned r\<close> show ?case unfolding rs by simp
  qed
qed simp

lemma fold_result_facts:
  "so_verdict (fold fold_result rs ou) = so_verdict ou"
  "so_violations (fold fold_result rs ou) = so_violations ou @ concat (map rs_violations rs)"
  "so_coverage_gaps (fold fold_result rs ou) = so_coverage_gaps ou @ concat (map (\<lambda>r. po_coverage_gaps (rs_summary r)) rs)"
  "so_phases (fold fold_result rs ou) = so_phases ou @ map rs_summary rs"
  "so_error (fold fold_result rs ou) = None \<longleftrightarrow> so_error ou = None \<and> (\<forall>r \<in> set rs. po_error (rs_summary r) = None)"
  by (induction rs arbitrary: ou) (auto simp: fold_result_def split: option.split)

lemma fold_results_facts:
  assumes "fold_results rs = Some ou"
  shows "so_verdict ou = first_failure rs" and "so_violations ou = concat (map rs_violations rs)"
    and "so_coverage_gaps ou = concat (map (\<lambda>r. po_coverage_gaps (rs_summary r)) rs)"
    and "so_phases ou = map rs_summary rs"
    and "so_error ou = None \<longleftrightarrow> (\<forall>r \<in> set rs. po_error (rs_summary r) = None)"
  using assms by (auto simp: fold_results_def fold_result_facts fold_result_def split: list.splits)

lemma first_failure_passed: "first_failure rs = VPassed \<longleftrightarrow> (\<forall>r \<in> set rs. po_verdict (rs_summary r) = VPassed)"
  by (induction rs) (auto simp: first_failure_def verdict_is_pass_def split: if_splits)

text \<open>
  C14. A pass is earned: when a run's verdict is \<open>Passed\<close>, every phase was attempted, every phase
  passed, no probe recorded a violation in any of them, not even a recording one, every
  coverage probe was satisfied, and nothing errored.
\<close>

theorem pass_is_earned:
  assumes "sync_run cfg faults origin restartable thr phs = Some (ou, calls)" and "so_verdict ou = VPassed"
  shows "length (so_phases ou) = length phs \<and> (\<forall>p \<in> set (so_phases ou). po_verdict p = VPassed) \<and>
    so_violations ou = [] \<and> so_coverage_gaps ou = [] \<and> so_error ou = None"
proof -
  from assms obtain rs sh where r: "run_phases cfg thr phs \<lparr>sh_chaos = chaos_new faults origin, sh_run_origin = None, sh_log = []\<rparr> = Some (rs, sh)"
    and f: "fold_results rs = Some ou"
    by (auto simp: sync_run_def Let_def error_outcome_def bind_eq_Some_conv split: sum.splits)
  note ou = fold_results_facts [OF f]
  with assms(2) have p: "\<forall>r \<in> set rs. po_verdict (rs_summary r) = VPassed" by (simp add: first_failure_passed)
  from run_phases_earned [OF r p] p ou show ?thesis by (auto simp: earned_def)
qed

section \<open>The life of a subject\<close>

text \<open>A stretch of the log in which the subject is neither launched nor stopped.\<close>

definition calm_calls :: "sync_call list \<Rightarrow> bool" where
  "calm_calls cs \<longleftrightarrow> CallLaunch \<notin> set cs \<and> CallStop \<notin> set cs"

definition calm_ext :: "phase_state \<Rightarrow> phase_state \<Rightarrow> bool" where
  "calm_ext s t \<longleftrightarrow> (\<exists>cs. ps_log t = ps_log s @ cs \<and> calm_calls cs)"

lemma calm_refl [simp]: "calm_ext s s"
  by (simp add: calm_ext_def calm_calls_def)

lemma calm_trans: "calm_ext s t \<Longrightarrow> calm_ext t u \<Longrightarrow> calm_ext s u"
  by (auto simp: calm_ext_def calm_calls_def)

lemma calm_same_log: "ps_log t = ps_log s \<Longrightarrow> calm_ext s t"
  by (simp add: calm_ext_def calm_calls_def)

definition killed :: "watched \<Rightarrow> scheduled_fault \<Rightarrow> nat \<Rightarrow> phase_state \<Rightarrow> phase_state" where
  "killed w f now s = (logged [CallKill (wt_name w)] s)\<lparr>ps_restart := rw_open (ps_restart s), ps_chaos := chaos_record f now (ps_chaos s)\<rparr>"

lemma apply_due_Cons:
  assumes "apply_due ws kills now i (f # fs) s = (t, r)"
  obtains (other) "\<not> is_kill f" "apply_due ws kills now (Suc i) fs s = (t, r)"
  | (refused) e where "t = s" "r = Some e"
  | (failed) w :: watched and e where "t = logged [CallKill (wt_name w)] s" "r = Some e"
  | (killed) c w where "sf_kind f = Kill c" "kill_target ws c = Inr w" "kills i = Inr ()"
      "apply_due ws kills now (Suc i) fs (killed w f now s) = (t, r)"
proof (cases "sf_kind f")
  case (Kill c)
  show thesis
  proof (cases "kill_target ws c")
    case (Inl e)
    with assms Kill show ?thesis by (intro refused) auto
  next
    case (Inr w)
    show ?thesis
    proof (cases "kills i")
      case (Inl e)
      with assms Kill Inr show ?thesis by (intro failed [of w]) auto
    next
      case (Inr u)
      with assms Kill \<open>kill_target ws c = Inr w\<close> show ?thesis by (intro killed) (auto simp: killed_def)
    qed
  qed
qed (use assms in \<open>auto simp: is_kill_def intro: other\<close>)

lemma calm_killed: "calm_ext s (killed w f now s)"
  by (auto simp: calm_ext_def calm_calls_def killed_def)

lemma calm_apply_due: "apply_due ws kills now i fs s = (t, r) \<Longrightarrow> calm_ext s t"
proof (induction fs arbitrary: i s)
  case (Cons f fs)
  from Cons.prems show ?case
  proof (cases rule: apply_due_Cons)
    case (failed w e)
    then show ?thesis by (auto simp: calm_ext_def calm_calls_def)
  next
    case (killed c w)
    with Cons.IH calm_trans calm_killed show ?thesis by blast
  qed (use Cons.IH in simp_all)
qed simp

lemma calm_apply_faults: "calm_ext s (fst (apply_faults env ti s))"
proof -
  let ?s0 = "s\<lparr>ps_chaos := snd (take_due (ti_now ti) (ps_chaos s))\<rparr>"
  have "calm_ext s ?s0" by (rule calm_same_log) simp
  moreover have "apply_due (pe_watched env) (ti_kills ti) (ti_now ti) 0 (fst (take_due (ti_now ti) (ps_chaos s))) ?s0 =
      (fst (apply_faults env ti s), snd (apply_faults env ti s))"
    by (simp add: apply_faults_def Let_def split_beta)
  then have "calm_ext ?s0 (fst (apply_faults env ti s))" by (rule calm_apply_due)
  ultimately show ?thesis by (rule calm_trans)
qed

lemma calm_settle [simp]: "calm_ext s (settle_rows ti s)"
  by (rule calm_same_log) (auto simp: settle_rows_def Let_def split: option.split prod.split)

lemma calm_missed [simp]: "calm_ext s (missed_reading ti s)"
  by (rule calm_same_log) (simp add: missed_reading_def Let_def)

lemma calm_observe: "observe_tick env ti p s = (snap, t) \<Longrightarrow> calm_ext s t"
  by (auto simp: observe_tick_def calm_ext_def calm_calls_def Let_def split: prod.splits option.splits)

lemma calm_eval: "eval_tick snap ti s = (t, fl) \<Longrightarrow> calm_ext s t"
  by (auto simp: eval_tick_def calm_ext_def calm_calls_def Let_def split: prod.splits option.splits)

lemma calm_complete:
  assumes "complete_phase env fi s = Some (t, err)"
  shows "calm_ext s t"
proof -
  obtain ps r where e: "eval_sometimes (fi_judge fi) 0 (ph_probes (ps_phase s)) = (ps, r)" by (metis surj_pair)
  have "\<exists>vs. ps_log t = ps_log s @ map (\<lambda>v. ReportProbe (vi_probe v) v) vs"
  proof (cases "r = None \<and> isl (fi_progress fi) = False")
    case True
    with assms e have "eval_at_completion (fi_begun fi) (fi_attempts fi) 0 ps \<noteq> None"
      by (intro notI) (simp add: complete_phase_def Let_def split: prod.splits sum.splits)
    then obtain vs r' where "eval_at_completion (fi_begun fi) (fi_attempts fi) 0 ps = Some (vs, r')" by auto
    with assms e True have "ps_log t = ps_log s @ map (\<lambda>v. ReportProbe (vi_probe v) v) vs"
      by (cases r') (auto simp: complete_phase_def Let_def split: prod.splits sum.splits)
    then show ?thesis by blast
  next
    case False
    with assms e have "ps_log t = ps_log s"
      by (auto simp: complete_phase_def Let_def split: prod.splits sum.splits option.splits)
    then show ?thesis by simp
  qed
  then show ?thesis by (auto simp: calm_ext_def calm_calls_def)
qed

lemma completed_verdict_range: "completed_verdict err vs gaps \<in> {VPassed, VFailed, VErrored}"
  by (simp add: completed_verdict_def)

lemma calm_finish:
  assumes "finish_phase env fi s = Some (t, e)"
  shows "calm_ext s t \<and> en_completed e \<and> en_verdict e \<in> {VPassed, VFailed, VErrored}"
proof -
  from assms obtain u err where c: "complete_phase env fi s = Some (u, err)" and l: "ps_log t = ps_log u"
    and "en_verdict e = completed_verdict err (ps_violations u) (coverage_gaps (ph_probes (ps_phase u)))" "en_completed e"
    by (auto simp: finish_phase_def Let_def)
  with calm_complete [OF c] completed_verdict_range show ?thesis by (simp add: calm_ext_def)
qed

text \<open>A phase under way leaves its subject alone; one that ends has stopped it, unless it completed.\<close>

definition ended :: "phase_state \<Rightarrow> phase_state \<Rightarrow> ending \<Rightarrow> bool" where
  "ended s t e \<longleftrightarrow> (\<exists>cs. calm_calls cs \<and> ps_log t = ps_log s @ cs @ (if en_completed e then [] else [CallStop])) \<and>
     (en_completed e \<longrightarrow> en_verdict e \<in> {VPassed, VFailed, VErrored})"

lemma ended_stopped: "calm_ext s u \<Longrightarrow> ended s (halted u) (ending_cut v err)"
  by (auto simp: ended_def calm_ext_def halted_def ending_cut_def)

lemma ended_finished: "calm_ext s u \<Longrightarrow> finish_phase env fi u = Some (t, e) \<Longrightarrow> ended s t e"
  using calm_finish [of env fi u t e] by (auto simp: ended_def calm_ext_def calm_calls_def)

lemma ended_prefix: "calm_ext s u \<Longrightarrow> ended u t e \<Longrightarrow> ended s t e"
  by (fastforce simp: ended_def calm_ext_def calm_calls_def)

lemma judge_tick_life:
  assumes "judge_tick env ti p s = Some (t, r)"
  shows "case r of None \<Rightarrow> calm_ext s t | Some e \<Rightarrow> ended s t e"
  using assms
proof (cases rule: judge_tick_cases)
  case (failfast snap s1 s2)
  have "ended s (halted s2) (ending_cut VFailed None)"
    by (rule ended_stopped) (rule calm_trans [OF calm_observe [OF failfast(1)] calm_eval [OF failfast(2)]])
  with failfast show ?thesis by (simp add: ended_def)
next
  case (abort snap s1 s2 msg)
  then show ?thesis using ended_stopped [OF calm_trans [OF calm_observe [OF abort(1)] calm_eval [OF abort(2)]]] by simp
next
  case (finished snap s1 s2 e)
  then show ?thesis using ended_finished [OF calm_trans [OF calm_observe [OF finished(1)] calm_eval [OF finished(2)]]] by simp
next
  case (going snap s1 s2)
  then show ?thesis using calm_trans [OF calm_observe [OF going(1)] calm_eval [OF going(2)]] by simp
qed

lemma sync_tick_life:
  assumes "sync_tick env ti s = Some (t, r)"
  shows "case r of None \<Rightarrow> calm_ext s t | Some e \<Rightarrow> ended s t e"
proof -
  let ?s1 = "fst (apply_faults env ti s)"
  have c1: "calm_ext s ?s1" by (rule calm_apply_faults)
  have c2: "calm_ext s (settle_rows ti ?s1)" by (rule calm_trans [OF c1 calm_settle])
  from assms show ?thesis
  proof (cases rule: sync_tick_cases)
    case (cut u v err)
    with c1 c2 show ?thesis by (auto intro: ended_stopped)
  next
    case missed
    with c2 show ?thesis by (auto intro: calm_trans)
  next
    case (judged p)
    have "calm_ext s ((settle_rows ti ?s1)\<lparr>ps_progress_errors := 0\<rparr>)"
      using c2 by (simp add: calm_ext_def)
    with judge_tick_life [OF judged(4)] show ?thesis by (auto intro: calm_trans ended_prefix split: option.splits)
  qed
qed

lemma sync_ticks_life: "sync_ticks env tis s = Some (t, e) \<Longrightarrow> ended s t e"
proof (induction tis arbitrary: s)
  case (Cons ti tis)
  then obtain u r where u: "sync_tick env ti s = Some (u, r)" by (auto split: option.splits)
  with sync_tick_life [OF u] Cons show ?case by (cases r) (auto intro: ended_prefix)
qed simp

text \<open>
  A launched subject is stopped exactly once, as the last thing of its phase, unless the
  phase completed: a phase whose subject was built and launched logs the launch, then calls
  and reports in which the subject is neither launched nor stopped, and then the stop when
  the phase was cancelled, timed out, failed fast or errored on the way, and nothing more
  when it went on to proceed.
\<close>

theorem subject_stopped_once:
  assumes "run_phase cfg i ph sh = Some (r, sh')" and "ph_source ph" and "pi_build i = Built (Inr ())" and "pi_launch i = Inr ()"
  shows "\<exists>mid tail. sh_log sh' = sh_log sh @ CallLaunch # mid @ tail \<and> calm_calls mid \<and> tail \<in> {[], [CallStop]} \<and>
    (po_verdict (rs_summary r) \<in> {VCancelled, VTimedOut} \<longrightarrow> tail = [CallStop]) \<and> (rs_proceed r \<longrightarrow> tail = [])"
proof -
  let ?ph = "ph\<lparr>ph_source := False\<rparr>"
  have run: "phase_run cfg i ?ph sh = Some (r, sh')" using assms by (simp add: run_phase_def)
  have early: ?thesis if "r = phase_early ?ph v err w el" "sh' = sh\<lparr>sh_log := sh_log sh @ [CallLaunch, CallStop]\<rparr>" for v err w el
    using that by (intro exI [of _ "[]"] exI [of _ "[CallStop]"]) (simp add: calm_calls_def phase_early_def)
  show ?thesis
  proof (cases "\<exists>s e. sync_ticks (phase_env_of cfg i ?ph) (pi_ticks i) (phase_start cfg (sh\<lparr>sh_log := sh_log sh @ [CallLaunch]\<rparr>) i ?ph) = Some (s, e)
      \<and> r = phase_result_of (phase_network cfg i) (pi_started_wall i) (pi_elapsed i) s e \<and> sh_log sh' = ps_log s")
    case True
    then obtain s e where t: "sync_ticks (phase_env_of cfg i ?ph) (pi_ticks i) (phase_start cfg (sh\<lparr>sh_log := sh_log sh @ [CallLaunch]\<rparr>) i ?ph) = Some (s, e)"
      and r: "r = phase_result_of (phase_network cfg i) (pi_started_wall i) (pi_elapsed i) s e" and l: "sh_log sh' = ps_log s" by blast
    from sync_ticks_life [OF t] obtain cs where cs: "calm_calls cs"
      "ps_log s = (sh_log sh @ [CallLaunch]) @ cs @ (if en_completed e then [] else [CallStop])"
      and v: "en_completed e \<longrightarrow> en_verdict e \<in> {VPassed, VFailed, VErrored}"
      by (auto simp: ended_def phase_start_def)
    with l r show ?thesis
      by (intro exI [of _ cs] exI [of _ "if en_completed e then [] else [CallStop]"]) (auto simp: phase_result_of_def)
  next
    case False
    with run assms(4) early show ?thesis
      by (auto simp: phase_run_def Let_def split: sum.splits option.splits gate_readiness.splits)
  qed
qed

section \<open>The fault schedule\<close>

definition due_at :: "nat \<Rightarrow> chaos \<Rightarrow> scheduled_fault list" where
  "due_at now c = filter (\<lambda>f. ch_origin c + sf_at f \<le> now) (ch_pending c)"

definition later_than :: "nat \<Rightarrow> chaos \<Rightarrow> scheduled_fault list" where
  "later_than now c = filter (\<lambda>f. now < ch_origin c + sf_at f) (ch_pending c)"

definition in_schedule :: "chaos \<Rightarrow> bool" where
  "in_schedule c \<longleftrightarrow> sorted (map sf_at (ch_pending c)) \<and> (\<forall>f \<in> set (ch_pending c). is_kill f)"

lemma chaos_new_in_schedule [simp]: "in_schedule (chaos_new faults origin)"
  by (simp add: in_schedule_def chaos_new_def)

lemma take_due_split:
  assumes "sorted (map sf_at (ch_pending c))"
  shows "take_due now c = (due_at now c, c\<lparr>ch_pending := later_than now c\<rparr>)"
proof -
  have "takeWhile (\<lambda>f. o1 + sf_at f \<le> now) fs = filter (\<lambda>f. o1 + sf_at f \<le> now) fs \<and>
      dropWhile (\<lambda>f. o1 + sf_at f \<le> now) fs = filter (\<lambda>f. now < o1 + sf_at f) fs"
    if "sorted (map sf_at fs)" for o1 and fs :: "scheduled_fault list"
    using that
  proof (induction fs)
    case (Cons f fs)
    have "filter (\<lambda>f. o1 + sf_at f \<le> now) fs = []" if "\<not> o1 + sf_at f \<le> now" using Cons.prems that by (auto simp: filter_empty_conv)
    moreover have "filter (\<lambda>f. now < o1 + sf_at f) fs = fs" if "\<not> o1 + sf_at f \<le> now" using Cons.prems that by (auto intro!: filter_True)
    ultimately show ?case using Cons by auto
  qed simp
  note split = this [OF assms, of "ch_origin c"]
  have "take_due now c = (takeWhile (\<lambda>f. ch_origin c + sf_at f \<le> now) (ch_pending c),
      c\<lparr>ch_pending := dropWhile (\<lambda>f. ch_origin c + sf_at f \<le> now) (ch_pending c)\<rparr>)"
    by (simp add: take_due_def Let_def takeWhile_eq_take [symmetric] dropWhile_eq_drop [symmetric])
  then show ?thesis by (simp only: split due_at_def later_than_def)
qed

definition names_one :: "watched list \<Rightarrow> scheduled_fault \<Rightarrow> watched \<Rightarrow> bool" where
  "names_one ws f w \<longleftrightarrow> (\<exists>c. sf_kind f = Kill c \<and> filter (\<lambda>x. answers_to x c) ws = [w])"

lemma kill_target_Inr: "kill_target ws c = Inr w \<longleftrightarrow> filter (\<lambda>x. answers_to x c) ws = [w]"
  by (auto simp: kill_target_def split: list.splits)

lemma killed_facts:
  "ps_log (killed w f now s) = ps_log s @ [CallKill (wt_name w)]" "rw_holding (ps_restart (killed w f now s))"
  "ch_last_fault_at (ps_chaos (killed w f now s)) = Some now" "ch_pending (ps_chaos (killed w f now s)) = ch_pending (ps_chaos s)"
  "ch_origin (ps_chaos (killed w f now s)) = ch_origin (ps_chaos s)"
  "chaos_fired (ps_chaos (killed w f now s)) n \<longleftrightarrow> chaos_fired (ps_chaos s) n \<or> sf_name f = Some n"
  by (auto simp: killed_def rw_open_def chaos_record_def chaos_fired_def split: option.split)

lemma apply_due_result:
  assumes "apply_due ws kills now i fs s = (t, None)" and "\<forall>f \<in> set fs. is_kill f"
  shows "\<exists>ks. list_all2 (names_one ws) fs ks \<and> ps_log t = ps_log s @ map (\<lambda>w. CallKill (wt_name w)) ks \<and>
    ch_pending (ps_chaos t) = ch_pending (ps_chaos s) \<and> ch_origin (ps_chaos t) = ch_origin (ps_chaos s) \<and>
    (if fs = [] then rw_holding (ps_restart t) = rw_holding (ps_restart s)
     else rw_holding (ps_restart t) \<and> ch_last_fault_at (ps_chaos t) = Some now) \<and>
    (\<forall>n. chaos_fired (ps_chaos t) n \<longleftrightarrow> chaos_fired (ps_chaos s) n \<or> (\<exists>f \<in> set fs. sf_name f = Some n))"
  using assms
proof (induction fs arbitrary: i s)
  case (Cons f fs)
  from Cons.prems(1) show ?case
  proof (cases rule: apply_due_Cons)
    case other
    with Cons.prems(2) show ?thesis by simp
  next
    case (killed c w)
    from Cons.IH [OF killed(4)] Cons.prems(2) obtain ks where ks: "list_all2 (names_one ws) fs ks"
      "ps_log t = ps_log (killed w f now s) @ map (\<lambda>w. CallKill (wt_name w)) ks"
      "ch_pending (ps_chaos t) = ch_pending (ps_chaos s)" "ch_origin (ps_chaos t) = ch_origin (ps_chaos s)"
      "rw_holding (ps_restart t)" "fs \<noteq> [] \<longrightarrow> ch_last_fault_at (ps_chaos t) = Some now"
      "\<forall>n. chaos_fired (ps_chaos t) n \<longleftrightarrow> chaos_fired (ps_chaos (killed w f now s)) n \<or> (\<exists>f \<in> set fs. sf_name f = Some n)"
      by (auto simp: killed_facts split: if_splits)
    have "ch_last_fault_at (ps_chaos t) = Some now"
      using ks(6) killed(4) by (cases "fs = []") (auto simp: killed_facts)
    moreover have "names_one ws f w" using killed(1,2) by (simp add: names_one_def kill_target_Inr)
    ultimately show ?thesis using ks
      by (intro exI [of _ "w # ks"]) (auto simp: killed_facts)
  qed simp_all
qed simp

text \<open>
  C22. Kills fire on schedule: at a tick whose faults all succeed, exactly the pending kills whose
  offset has passed are fired, in the order of their offsets, each once and each at the one
  component it names; the others stay pending, the restart window is open as soon as one
  fired, and every liveness probe waiting for a named one is armed from this tick on.
\<close>

theorem kills_on_schedule:
  assumes "in_schedule (ps_chaos s)" and "apply_faults env ti s = (t, None)"
  shows "\<exists>ks. list_all2 (names_one (pe_watched env)) (due_at (ti_now ti) (ps_chaos s)) ks \<and>
    ps_log t = ps_log s @ map (\<lambda>w. CallKill (wt_name w)) ks \<and>
    ch_pending (ps_chaos t) = later_than (ti_now ti) (ps_chaos s) \<and> in_schedule (ps_chaos t) \<and>
    (due_at (ti_now ti) (ps_chaos s) \<noteq> [] \<longrightarrow> rw_holding (ps_restart t) \<and> ch_last_fault_at (ps_chaos t) = Some (ti_now ti)) \<and>
    (\<forall>f \<in> set (due_at (ti_now ti) (ps_chaos s)). \<forall>n. sf_name f = Some n \<longrightarrow> chaos_fired (ps_chaos t) n)"
proof -
  let ?c = "ps_chaos s" and ?s0 = "s\<lparr>ps_chaos := (ps_chaos s)\<lparr>ch_pending := later_than (ti_now ti) (ps_chaos s)\<rparr>\<rparr>"
  have k: "\<forall>f \<in> set (due_at (ti_now ti) ?c). is_kill f" using assms(1) by (simp add: in_schedule_def due_at_def)
  have "apply_due (pe_watched env) (ti_kills ti) (ti_now ti) 0 (due_at (ti_now ti) ?c) ?s0 = (t, None)"
    using assms by (simp add: apply_faults_def in_schedule_def take_due_split)
  from apply_due_result [OF this k] obtain ks where
    ks: "list_all2 (names_one (pe_watched env)) (due_at (ti_now ti) ?c) ks" "ps_log t = ps_log s @ map (\<lambda>w. CallKill (wt_name w)) ks"
      "ch_pending (ps_chaos t) = later_than (ti_now ti) ?c"
      "due_at (ti_now ti) ?c \<noteq> [] \<longrightarrow> rw_holding (ps_restart t) \<and> ch_last_fault_at (ps_chaos t) = Some (ti_now ti)"
      "\<forall>f \<in> set (due_at (ti_now ti) ?c). \<forall>n. sf_name f = Some n \<longrightarrow> chaos_fired (ps_chaos t) n"
    by (auto split: if_splits)
  have "in_schedule (ps_chaos t)"
    using assms(1) unfolding in_schedule_def ks(3) later_than_def by (auto intro: sorted_filter)
  with ks show ?thesis by blast
qed

section \<open>A subject that stops answering\<close>

text \<open>
  C36. A subject that stops answering is never judged: in a phase without a timeout, with no
  fault left, ticks whose reading fails neither end the phase nor record a violation, however
  many there are and however long they take, so that a wedged subject is no stall.
\<close>

theorem unanswering_subject_unjudged:
  assumes "pe_deadline env = None" and "ch_pending (ps_chaos s) = []" and "ps_violations s = []"
    and "\<forall>ti \<in> set tis. \<not> ti_cancelled ti \<and> ti_failure ti = None \<and> isl (ti_progress ti)"
  shows "sync_ticks env tis s = None \<and>
    (\<exists>t. fold (\<lambda>ti r. Option.bind r (\<lambda>(u, _). sync_tick env ti u)) tis (Some (s, None)) = Some (t, None) \<and> ps_violations t = [])"
  using assms
proof (induction tis arbitrary: s)
  case (Cons ti tis)
  let ?t = "missed_reading ti (settle_rows ti s)"
  obtain e where e: "ti_progress ti = Inl e" using Cons.prems(4) by (cases "ti_progress ti") auto
  have "apply_faults env ti s = (s, None)" using Cons.prems(2) by (simp add: apply_faults_def take_due_def)
  then have step: "sync_tick env ti s = Some (?t, None)"
    using Cons.prems(1,4) e by (simp add: sync_tick_def past_deadline_def)
  have "ps_violations ?t = ps_violations s" "ps_chaos ?t = ps_chaos s"
    by (auto simp: missed_reading_def settle_rows_def Let_def split: option.split prod.split)
  with Cons.IH [of ?t] Cons.prems step show ?case by simp
qed simp

section \<open>A run at work\<close>

definition demo_final :: final_input where
  "demo_final = \<lparr>fi_progress = Inr (demo_progress 100), fi_block = Inl [], fi_at = 40, fi_wall = 40,
     fi_judge = (\<lambda>_. Inr True), fi_begun = (\<lambda>_. 40), fi_attempts = (\<lambda>_. [])\<rparr>"

definition demo_sync_tick :: "nat \<Rightarrow> string + progress_view \<Rightarrow> bool \<Rightarrow> tick_input" where
  "demo_sync_tick now p done = \<lparr>ti_cancelled = False, ti_now = now, ti_kills = (\<lambda>_. Inr ()), ti_elapsed = now,
     ti_exposition = None, ti_samples = [], ti_progress = p, ti_failure = None, ti_block = Inl [], ti_wall = now,
     ti_judge = (\<lambda>_. Inr True), ti_complete = done, ti_final = demo_final\<rparr>"

definition demo_phase :: sync_phase where
  "demo_phase = (ph_with_source ''catch-up'')\<lparr>ph_probes := [demo_probe Sometimes EachTick None]\<rparr>"

definition demo_input :: "tick_input list \<Rightarrow> phase_input" where
  "demo_input tis = \<lparr>pi_started = 0, pi_started_wall = 0, pi_build = Built (Inr ()), pi_launch = Inr (), pi_gates = [],
     pi_waits = [], pi_work_source = (\<lambda>_. None), pi_work_reads = (\<lambda>_. Inl []), pi_rows = [], pi_opened = 0,
     pi_network = Inl [], pi_ticks = tis, pi_elapsed = 40\<rparr>"

definition demo_config :: engine_config where
  "demo_config = \<lparr>ec_indexer = False, ec_history_cap = 4, ec_watched = [\<lparr>wt_name = ''pod'', wt_container = ''zebrad''\<rparr>]\<rparr>"

definition demo_open :: "phase_state \<Rightarrow> bool" where
  "demo_open s \<longleftrightarrow> ph_probes (ps_phase s) = [demo_probe Sometimes EachTick None] \<and> ph_stop_after (ps_phase s) = None \<and>
     ch_pending (ps_chaos s) = [] \<and> ps_pending s = [] \<and> ps_violations s = [] \<and> \<not> ps_fatal s"

lemma demo_observed:
  assumes "demo_open s" and "observe_tick env ti p s = (snap, t)"
  shows "demo_open t \<and> ps_chaos t = ps_chaos s"
  using assms by (auto simp: demo_open_def observe_tick_def Let_def split: prod.splits)

definition demo_satisfied :: probe_spec where
  "demo_satisfied = (demo_probe Sometimes EachTick None)\<lparr>pr_ever_satisfied := True\<rparr>"

lemma demo_satisfied_sel [simp]: "pr_class demo_satisfied = Sometimes" "pr_ever_satisfied demo_satisfied"
  by (simp_all add: demo_satisfied_def)

lemma demo_judged:
  assumes "demo_open s"
  shows "eval_tick snap (demo_sync_tick now v b) s = (set_probes [demo_satisfied] s, Continue)"
proof -
  have "\<not> pr_ever_satisfied (demo_probe Sometimes EachTick None)" by (simp add: demo_probe_def bd_check_def bd_new_def)
  with assms show ?thesis
    by (simp add: eval_tick_def demo_open_def demo_sync_tick_def judge_answer_def answer_bool_def eval_probe_def demo_satisfied_def)
qed

lemma demo_finished:
  assumes "demo_open s"
  shows "\<exists>t. finish_phase env demo_final (set_probes [demo_satisfied] s) =
      Some (t, \<lparr>en_verdict = VPassed, en_error = None, en_completed = True\<rparr>) \<and> ps_chaos t = ps_chaos s \<and>
      ps_violations t = [] \<and> ph_probes (ps_phase t) = [demo_satisfied] \<and> \<not> ps_fatal t"
proof -
  have "\<exists>t. complete_phase env demo_final (set_probes [demo_satisfied] s) = Some (t, None) \<and> ps_chaos t = ps_chaos s \<and>
      ps_violations t = [] \<and> ph_probes (ps_phase t) = [demo_satisfied] \<and> \<not> ps_fatal t"
    using assms by (simp add: complete_phase_def demo_final_def Let_def demo_open_def split: prod.split)
  then obtain t where t: "complete_phase env demo_final (set_probes [demo_satisfied] s) = Some (t, None)" "ps_chaos t = ps_chaos s"
      "ps_violations t = []" "ph_probes (ps_phase t) = [demo_satisfied]" "\<not> ps_fatal t" by blast
  have "finish_phase env demo_final (set_probes [demo_satisfied] s) =
      Some (t\<lparr>ps_fatal := False\<rparr>, \<lparr>en_verdict = VPassed, en_error = None, en_completed = True\<rparr>)"
    using t by (simp add: finish_phase_def Let_def coverage_gaps_def completed_verdict_def)
  with t show ?thesis by simp
qed

lemma no_required_work [simp]: "check_required_work src os_NONE reads = Inr ()"
  by (simp add: check_required_work_def os_is_empty_def os_NONE_def)

lemma demo_ended:
  assumes "demo_open s" and "pe_deadline env = None"
  shows "\<exists>t. sync_tick env (demo_sync_tick now (Inr p) True) s =
      Some (t, Some \<lparr>en_verdict = VPassed, en_error = None, en_completed = True\<rparr>) \<and> ps_chaos t = ps_chaos s \<and>
      ps_violations t = [] \<and> ph_probes (ps_phase t) = [demo_satisfied] \<and> \<not> ps_fatal t"
proof -
  let ?ti = "demo_sync_tick now (Inr p) True" and ?s = "s\<lparr>ps_progress_errors := 0\<rparr>"
  have s: "demo_open ?s" using assms(1) by (simp add: demo_open_def)
  obtain snap t where o1: "observe_tick env ?ti p ?s = (snap, t)" by fastforce
  from demo_observed [OF s o1] have t: "demo_open t" "ps_chaos t = ps_chaos s" by simp_all
  have "apply_faults env ?ti s = (s, None)" "settle_rows ?ti s = s"
    using assms(1) by (simp_all add: demo_open_def apply_faults_def take_due_def settle_rows_def)
  then have "sync_tick env ?ti s = judge_tick env ?ti p ?s"
    using assms(2) by (simp add: sync_tick_def past_deadline_def demo_sync_tick_def)
  also have "\<dots> = map_option (\<lambda>(u, e). (u, Some e)) (finish_phase env demo_final (set_probes [demo_satisfied] t))"
    by (simp add: judge_tick_def o1 demo_judged [OF t(1)]) (simp add: demo_sync_tick_def)
  finally show ?thesis using demo_finished [OF t(1), of env] t(2) by auto
qed

lemma demo_phase_passes:
  assumes "ch_pending (sh_chaos sh) = []"
  shows "\<exists>r sh'. run_phase demo_config (demo_input [demo_sync_tick 30 (Inr (demo_progress 100)) True]) demo_phase sh = Some (r, sh') \<and>
    po_verdict (rs_summary r) = VPassed \<and> rs_proceed r \<and> sh_chaos sh' = sh_chaos sh"
proof -
  let ?i = "demo_input [demo_sync_tick 30 (Inr (demo_progress 100)) True]" and ?ph = "demo_phase\<lparr>ph_source := False\<rparr>"
  let ?s = "phase_start demo_config (sh\<lparr>sh_log := sh_log sh @ [CallLaunch]\<rparr>) ?i ?ph" and ?env = "phase_env_of demo_config ?i ?ph"
  have "demo_open ?s" using assms by (simp add: demo_open_def phase_start_def demo_input_def demo_phase_def ph_with_source_def)
  moreover have "pe_deadline ?env = None" by (simp add: phase_env_of_def demo_phase_def ph_with_source_def)
  ultimately obtain t where t: "sync_tick ?env (demo_sync_tick 30 (Inr (demo_progress 100)) True) ?s =
      Some (t, Some \<lparr>en_verdict = VPassed, en_error = None, en_completed = True\<rparr>)" "ps_chaos t = ps_chaos ?s" "\<not> ps_fatal t"
    using demo_ended by blast
  have "pi_ticks ?i = [demo_sync_tick 30 (Inr (demo_progress 100)) True]" "pi_gates ?i = []" "pi_waits ?i = []" "pi_launch ?i = Inr ()"
      "pi_build ?i = Built (Inr ())" "ph_source demo_phase" "ph_required_work ?ph = os_NONE"
    by (simp_all add: demo_input_def demo_phase_def ph_with_source_def)
  moreover have "ps_chaos ?s = sh_chaos sh" by (simp add: phase_start_def)
  ultimately show ?thesis using t
    by (simp add: run_phase_def phase_run_def Let_def phase_result_of_def)
qed

lemma demo_run_passes:
  "\<exists>rs sh'. run_phases demo_config [] [(demo_phase, demo_input [demo_sync_tick 30 (Inr (demo_progress 100)) True]),
      (demo_phase, demo_input [demo_sync_tick 30 (Inr (demo_progress 100)) True])] \<lparr>sh_chaos = chaos_new [] 0, sh_run_origin = None, sh_log = []\<rparr> =
      Some (rs, sh') \<and> length rs = 2 \<and> (\<forall>r \<in> set rs. po_verdict (rs_summary r) = VPassed)"
proof -
  let ?i = "demo_input [demo_sync_tick 30 (Inr (demo_progress 100)) True]"
  have plain: "with_throughout [] demo_phase = demo_phase" by (simp add: with_throughout_def)
  note step = demo_phase_passes [of "sh\<lparr>sh_log := sh_log sh @ [ReportPhaseStart (ph_name demo_phase)]\<rparr>" for sh :: run_shared]
  let ?sh = "\<lparr>sh_chaos = chaos_new [] 0, sh_run_origin = None, sh_log = []\<rparr>"
  obtain r sh1 where r: "run_phase demo_config ?i demo_phase (?sh\<lparr>sh_log := sh_log ?sh @ [ReportPhaseStart (ph_name demo_phase)]\<rparr>) = Some (r, sh1)"
      "po_verdict (rs_summary r) = VPassed" "rs_proceed r" "sh_chaos sh1 = chaos_new [] 0"
    using step [of ?sh] by (auto simp: chaos_new_def)
  define sh2 where "sh2 = sh1\<lparr>sh_log := sh_log sh1 @ [ReportPhase (rs_summary r)]\<rparr>"
  obtain q sh3 where q: "run_phase demo_config ?i demo_phase (sh2\<lparr>sh_log := sh_log sh2 @ [ReportPhaseStart (ph_name demo_phase)]\<rparr>) = Some (q, sh3)"
      "po_verdict (rs_summary q) = VPassed" "rs_proceed q"
    using step [of sh2] r(4) by (auto simp: chaos_new_def sh2_def)
  show ?thesis using r q by (simp add: plain Let_def sh2_def)
qed

theorem phases_gated_witness:
  "\<exists>rs sh'. run_phases demo_config [] [(demo_phase, demo_input [demo_sync_tick 30 (Inr (demo_progress 100)) True]),
      (demo_phase, demo_input [demo_sync_tick 30 (Inr (demo_progress 100)) True])] \<lparr>sh_chaos = chaos_new [] 0, sh_run_origin = None, sh_log = []\<rparr> =
      Some (rs, sh') \<and> length rs = 2 \<and> rs_proceed (rs ! 0) \<and> unharmed (registered demo_phase) (rs ! 0)"
proof -
  obtain rs sh' where r: "run_phases demo_config [] [(demo_phase, demo_input [demo_sync_tick 30 (Inr (demo_progress 100)) True]),
      (demo_phase, demo_input [demo_sync_tick 30 (Inr (demo_progress 100)) True])] \<lparr>sh_chaos = chaos_new [] 0, sh_run_origin = None, sh_log = []\<rparr> =
      Some (rs, sh')" and len: "length rs = 2" using demo_run_passes by blast
  from phases_gated [OF r] len have "rs_proceed (rs ! 0) \<and> unharmed (registered demo_phase) (rs ! 0)" by fastforce
  with r len show ?thesis by blast
qed

theorem pass_is_earned_witness:
  "\<exists>ou calls. sync_run demo_config [] 0 (\<lambda>_. Inr ()) [] [(demo_phase, demo_input [demo_sync_tick 30 (Inr (demo_progress 100)) True]),
      (demo_phase, demo_input [demo_sync_tick 30 (Inr (demo_progress 100)) True])] = Some (ou, calls) \<and> so_verdict ou = VPassed \<and>
      length (so_phases ou) = 2 \<and> so_violations ou = [] \<and> so_coverage_gaps ou = [] \<and> so_error ou = None"
proof -
  let ?phs = "[(demo_phase, demo_input [demo_sync_tick 30 (Inr (demo_progress 100)) True]),
      (demo_phase, demo_input [demo_sync_tick 30 (Inr (demo_progress 100)) True])]"
  obtain rs sh' where r: "run_phases demo_config [] ?phs \<lparr>sh_chaos = chaos_new [] 0, sh_run_origin = None, sh_log = []\<rparr> = Some (rs, sh')"
    and rs: "length rs = 2" "\<forall>r \<in> set rs. po_verdict (rs_summary r) = VPassed" using demo_run_passes by blast
  obtain ou where f: "fold_results rs = Some ou" using rs(1) by (cases rs) (auto simp: fold_results_def)
  with rs(2) have v: "so_verdict ou = VPassed" by (simp add: fold_results_facts(1) first_failure_passed)
  have "sync_run demo_config [] 0 (\<lambda>_. Inr ()) [] ?phs = Some (ou, sh_log sh' @ [ReportFinish])"
    using r f by (simp add: sync_run_def Let_def) (simp add: chaos_new_def)
  with pass_is_earned [OF this v] v show ?thesis by fastforce
qed

theorem subject_stopped_once_witness:
  "\<exists>r sh' mid. run_phase demo_config (demo_input [(demo_sync_tick 30 (Inl []) False)\<lparr>ti_cancelled := True\<rparr>]) demo_phase
      \<lparr>sh_chaos = no_chaos, sh_run_origin = None, sh_log = []\<rparr> = Some (r, sh') \<and>
      sh_log sh' = CallLaunch # mid @ [CallStop] \<and> calm_calls mid"
proof -
  let ?i = "demo_input [(demo_sync_tick 30 (Inl []) False)\<lparr>ti_cancelled := True\<rparr>]"
  have i: "ph_source demo_phase" "pi_build ?i = Built (Inr ())" "pi_launch ?i = Inr ()" "pi_gates ?i = []" "pi_waits ?i = []"
      "pi_ticks ?i = [(demo_sync_tick 30 (Inl []) False)\<lparr>ti_cancelled := True\<rparr>]" "ph_required_work demo_phase = os_NONE"
    by (simp_all add: demo_input_def demo_phase_def ph_with_source_def)
  then obtain r sh' where r: "run_phase demo_config ?i demo_phase \<lparr>sh_chaos = no_chaos, sh_run_origin = None, sh_log = []\<rparr> = Some (r, sh')"
    and "po_verdict (rs_summary r) = VCancelled"
    by (simp add: run_phase_def phase_run_def Let_def sync_tick_def phase_result_of_def ending_cut_def)
  with subject_stopped_once [OF r i(1-3)] show ?thesis by auto
qed

definition demo_kill :: "string \<Rightarrow> nat \<Rightarrow> scheduled_fault" where
  "demo_kill name t = \<lparr>sf_name = Some name, sf_at = t, sf_duration = None, sf_kind = Kill ''zebrad''\<rparr>"

definition demo_faulty :: phase_state where
  "demo_faulty = phase_start demo_config \<lparr>sh_chaos = chaos_new [demo_kill ''late'' 90, demo_kill ''early'' 10] 0, sh_run_origin = None, sh_log = []\<rparr>
     (demo_input []) demo_phase"

lemma demo_faulty_chaos:
  "ps_chaos demo_faulty = chaos_new [demo_kill ''late'' 90, demo_kill ''early'' 10] 0" "ps_log demo_faulty = []"
  "ch_pending (ps_chaos demo_faulty) = [demo_kill ''early'' 10, demo_kill ''late'' 90]" "ch_origin (ps_chaos demo_faulty) = 0"
  by (simp_all add: demo_faulty_def phase_start_def chaos_new_def demo_kill_def is_kill_def)

theorem kills_on_schedule_witness:
  "\<exists>t. apply_faults (phase_env_of demo_config (demo_input []) demo_phase) (demo_sync_tick 30 (Inl []) False) demo_faulty = (t, None) \<and>
     ps_log t = [CallKill ''pod''] \<and> ch_pending (ps_chaos t) = [demo_kill ''late'' 90] \<and> rw_holding (ps_restart t) \<and>
     chaos_fired (ps_chaos t) ''early''"
proof -
  let ?env = "phase_env_of demo_config (demo_input []) demo_phase" and ?ti = "demo_sync_tick 30 (Inl []) False"
  have ws: "pe_watched ?env = [\<lparr>wt_name = ''pod'', wt_container = ''zebrad''\<rparr>]" by (simp add: phase_env_of_def demo_config_def)
  have now: "ti_now ?ti = 30" "ti_kills ?ti = (\<lambda>_. Inr ())" by (simp_all add: demo_sync_tick_def)
  have due: "due_at 30 (ps_chaos demo_faulty) = [demo_kill ''early'' 10]" "later_than 30 (ps_chaos demo_faulty) = [demo_kill ''late'' 90]"
    by (simp_all add: due_at_def later_than_def demo_faulty_chaos(3,4)) (simp_all add: demo_kill_def)
  obtain t where t: "apply_faults ?env ?ti demo_faulty = (t, None)"
    by (simp add: apply_faults_def take_due_def demo_faulty_chaos(3,4) now ws)
       (simp add: demo_kill_def kill_target_def answers_to_def)
  have sched: "in_schedule (ps_chaos demo_faulty)" by (simp add: demo_faulty_chaos(1))
  from kills_on_schedule [OF sched t] obtain ks where
    ks: "list_all2 (names_one (pe_watched ?env)) [demo_kill ''early'' 10] ks" "ps_log t = map (\<lambda>w. CallKill (wt_name w)) ks"
      "ch_pending (ps_chaos t) = [demo_kill ''late'' 90]" "rw_holding (ps_restart t)" "chaos_fired (ps_chaos t) ''early''"
    by (auto simp: now due demo_faulty_chaos(2)) (simp add: demo_kill_def)
  from ks(1) obtain w where w: "ks = [w]" "names_one (pe_watched ?env) (demo_kill ''early'' 10) w"
    by (auto simp: list_all2_Cons1)
  then have "wt_name w = ''pod''" by (auto simp: names_one_def demo_kill_def ws answers_to_def)
  with ks w t show ?thesis by simp
qed

theorem unanswering_subject_unjudged_witness:
  "sync_ticks (phase_env_of demo_config (demo_input []) demo_phase)
     [demo_sync_tick 10 (Inl ''refused'') False, demo_sync_tick 20 (Inl ''refused'') False, demo_sync_tick 999 (Inl ''refused'') False]
     (phase_start demo_config \<lparr>sh_chaos = no_chaos, sh_run_origin = None, sh_log = []\<rparr> (demo_input []) demo_phase) = None"
proof -
  let ?env = "phase_env_of demo_config (demo_input []) demo_phase"
  let ?s = "phase_start demo_config \<lparr>sh_chaos = no_chaos, sh_run_origin = None, sh_log = []\<rparr> (demo_input []) demo_phase"
  let ?tis = "[demo_sync_tick 10 (Inl ''refused'') False, demo_sync_tick 20 (Inl ''refused'') False, demo_sync_tick 999 (Inl ''refused'') False]"
  have d: "pe_deadline ?env = None" by (simp add: phase_env_of_def demo_phase_def ph_with_source_def)
  have s: "ch_pending (ps_chaos ?s) = []" "ps_violations ?s = []" by (simp_all add: phase_start_def no_chaos_def chaos_new_def)
  have t: "\<forall>ti \<in> set ?tis. \<not> ti_cancelled ti \<and> ti_failure ti = None \<and> isl (ti_progress ti)" by (simp add: demo_sync_tick_def)
  from unanswering_subject_unjudged [OF d s t] show ?thesis by blast
qed

end
