(* ===== verification/Sync_Phase_Trace.thy ===== *)
theory Sync_Phase_Trace
  imports Sync_Runner_Props
begin

text \<open>
  A phase under way (\<open>src/src/sync/runner.rs\<close>) as a step system: the states after any ticks that
  end nothing, and the books they keep. The state the loop starts from is \<open>phase_start\<close>; a
  step is one pass of the loop on any input.
\<close>

inductive tick_step :: "phase_env \<Rightarrow> phase_state \<Rightarrow> phase_state \<Rightarrow> bool" for env where
  tick: "sync_tick env ti s = Some (t, None) \<Longrightarrow> tick_step env s t"

inductive_cases tick_stepE: "tick_step env s t"

text \<open>
  The books of the readings: what the history holds and dropped are the readings so far, the
  first mark is set with the first reading, the last mark is at the latest snapshot, and a
  stop counted from the first reading is resolved by it.
\<close>

definition read_books :: "nat \<Rightarrow> phase_state \<Rightarrow> bool" where
  "read_books cap s \<longleftrightarrow> hi_cap (ps_history s) = cap \<and>
     (0 < cap \<longrightarrow> length (hi_buf (ps_history s)) \<le> cap \<and>
        length (hi_buf (ps_history s)) + hi_dropped (ps_history s) = sb_seq (ps_builder s)) \<and>
     (hi_buf (ps_history s) = [] \<longleftrightarrow> sb_seq (ps_builder s) = 0) \<and>
     (ps_origin s = None \<longleftrightarrow> sb_seq (ps_builder s) = 0) \<and>
     map_option mk_height (ps_head s) = map_option sn_height (hi_latest (ps_history s)) \<and>
     (sb_seq (ps_builder s) \<noteq> 0 \<longrightarrow> ph_stop_after (ps_phase s) = None)"

definition same_reads :: "phase_state \<Rightarrow> phase_state \<Rightarrow> bool" where
  "same_reads s t \<longleftrightarrow> ps_history t = ps_history s \<and> ps_builder t = ps_builder s \<and> ps_origin t = ps_origin s \<and>
     ps_head t = ps_head s \<and> ph_stop_after (ps_phase t) = ph_stop_after (ps_phase s)"

lemma same_reads_books: "same_reads s t \<Longrightarrow> read_books cap s \<Longrightarrow> read_books cap t"
  by (simp add: same_reads_def read_books_def)

lemma same_reads_trans: "same_reads s t \<Longrightarrow> same_reads t u \<Longrightarrow> same_reads s u"
  by (simp add: same_reads_def)

lemma apply_due_reads: "same_reads s (fst (apply_due ws kills now i fs s))"
proof (induction ws kills now i fs s rule: apply_due.induct)
  case (2 ws kills now i f fs s)
  then show ?case by (auto simp: same_reads_def split: fault_kind.splits sum.splits)
qed (simp add: same_reads_def)

lemma apply_faults_reads: "same_reads s (fst (apply_faults env ti s))"
proof -
  obtain due c where "take_due (ti_now ti) (ps_chaos s) = (due, c)" by fastforce
  then show ?thesis
    using apply_due_reads [of "s\<lparr>ps_chaos := c\<rparr>" "pe_watched env" "ti_kills ti" "ti_now ti" 0 due]
    by (simp add: apply_faults_def same_reads_def)
qed

lemma settle_rows_reads: "same_reads s (settle_rows ti s)"
  by (auto simp: same_reads_def settle_rows_def Let_def split: option.split prod.split)

lemma missed_reading_reads: "same_reads s (missed_reading ti s)"
  by (auto simp: same_reads_def missed_reading_def Let_def)

lemma eval_tick_reads: "same_reads s (fst (eval_tick snap ti s))"
  by (auto simp: same_reads_def eval_tick_def Let_def split: option.split prod.split)

lemma push_facts:
  "hi_latest (hi_push s h) = Some s" "hi_buf (hi_push s h) \<noteq> []" "hi_cap (hi_push s h) = hi_cap h"
  "0 < hi_cap h \<Longrightarrow> length (hi_buf h) \<le> hi_cap h \<Longrightarrow> length (hi_buf (hi_push s h)) \<le> hi_cap h"
  "0 < hi_cap h \<Longrightarrow> length (hi_buf h) \<le> hi_cap h \<Longrightarrow>
     length (hi_buf (hi_push s h)) + hi_dropped (hi_push s h) = Suc (length (hi_buf h) + hi_dropped h)"
  by (auto simp: hi_push_def hi_latest_def Let_def)

lemma build_seq: "sb_build p now w ev b = (snap, b') \<Longrightarrow> sb_seq b' = Suc (sb_seq b) \<and> sn_height snap = pv_height p"
  by (auto simp: sb_build_def sb_fold_def sb_open_def Let_def)

lemma observe_facts:
  assumes "observe_tick env ti p s = (snap, t)"
  shows "ps_history t = hi_push snap (ps_history s)" and "sb_seq (ps_builder t) = Suc (sb_seq (ps_builder s))"
    and "ps_origin t \<noteq> None" and "map_option mk_height (ps_head t) = Some (sn_height snap)" and "ph_stop_after (ps_phase t) = None"
    and "ps_chaos t = ps_chaos s"
  using assms by (auto simp: observe_tick_def Let_def dest!: build_seq split: prod.splits option.splits)

lemma observe_books:
  assumes "observe_tick env ti p s = (snap, t)" and "read_books cap s"
  shows "read_books cap t"
  using assms(2) push_facts [where h = "ps_history s" and s = snap] unfolding read_books_def observe_facts [OF assms(1)]
  by (auto simp: observe_facts(3) [OF assms(1)])

section \<open>The schedule under way\<close>

lemma apply_due_pending: "ch_pending (ps_chaos (fst (apply_due ws kills now i fs s))) = ch_pending (ps_chaos s)"
proof (induction ws kills now i fs s rule: apply_due.induct)
  case (2 ws kills now i f fs s)
  then show ?case by (auto simp: chaos_record_def split: fault_kind.splits sum.splits option.splits)
qed simp

lemma apply_faults_schedule: "in_schedule (ps_chaos s) \<Longrightarrow> in_schedule (ps_chaos (fst (apply_faults env ti s)))"
  by (auto simp: apply_faults_def take_due_split in_schedule_def apply_due_pending later_than_def intro: sorted_filter)

lemma eval_tick_chaos: "ps_chaos (fst (eval_tick snap ti s)) = ps_chaos s"
  by (auto simp: eval_tick_def Let_def split: option.split prod.split)

lemma quiet_chaos [simp]: "ps_chaos (settle_rows ti s) = ps_chaos s" "ps_chaos (missed_reading ti s) = ps_chaos s"
  by (auto simp: settle_rows_def missed_reading_def Let_def split: option.split prod.split)

section \<open>The invariant of a phase\<close>

definition phase_inv :: "nat \<Rightarrow> (string \<times> probe_class \<times> severity) list \<Rightarrow> phase_state \<Rightarrow> bool" where
  "phase_inv cap ids s \<longleftrightarrow> in_progress ids s \<and> in_schedule (ps_chaos s) \<and> read_books cap s"

lemma tick_reads:
  assumes "sync_tick env ti s = Some (t, None)" and "read_books cap s" and "in_schedule (ps_chaos s)"
  shows "read_books cap t \<and> in_schedule (ps_chaos t)"
proof -
  let ?s2 = "settle_rows ti (fst (apply_faults env ti s))"
  have "same_reads s ?s2" by (rule same_reads_trans [OF apply_faults_reads settle_rows_reads])
  then have b: "read_books cap ?s2" using assms(2) by (rule same_reads_books)
  have c: "in_schedule (ps_chaos ?s2)" using apply_faults_schedule [OF assms(3)] by simp
  from assms(1) show ?thesis
  proof (cases rule: sync_tick_cases)
    case missed
    with b c same_reads_books [OF missed_reading_reads] show ?thesis by simp
  next
    case (judged p)
    from judged(4) show ?thesis
    proof (cases rule: judge_tick_cases)
      case (going snap s1 s2)
      have "read_books cap (?s2\<lparr>ps_progress_errors := 0\<rparr>)" using b by (simp add: read_books_def)
      from observe_books [OF going(1) this] have "read_books cap s1" .
      moreover have "ps_chaos s1 = ps_chaos ?s2" using observe_facts(6) [OF going(1)] by simp
      ultimately show ?thesis
        using going(2,3) c same_reads_books [OF eval_tick_reads, of cap s1 snap ti] eval_tick_chaos [of snap ti s1] by simp
    qed simp_all
  qed simp
qed

lemma tick_inv: "phase_inv cap ids s \<Longrightarrow> tick_step env s t \<Longrightarrow> phase_inv cap ids t"
  by (elim tick_stepE) (auto simp: phase_inv_def dest: tick_reads sync_tick_sound)

definition phase_opened :: "engine_config \<Rightarrow> sync_phase \<Rightarrow> phase_state \<Rightarrow> bool" where
  "phase_opened cfg ph s \<longleftrightarrow> (\<exists>sh i. in_schedule (sh_chaos sh) \<and> s = phase_start cfg sh i ph)"

lemma opened_inv: "phase_opened cfg ph s \<Longrightarrow> phase_inv (ec_history_cap cfg) (registered ph) s"
  by (auto simp: phase_opened_def phase_inv_def start_in_progress)
     (auto simp: phase_start_def read_books_def hi_new_def hi_latest_def sb_new_def)

interpretation phase: step_system "phase_opened cfg ph" "tick_step env" "phase_inv (ec_history_cap cfg) (registered ph)" for cfg ph env
  by unfold_locales (auto intro: opened_inv tick_inv)

text \<open>
  C16. At every point of a phase, whatever its ticks read, killed and judged: no violation so
  far ended it, all recorded ones are of probes registered as recording; the kills still
  pending are kills in the order of their offsets; the history holds the latest readings
  within its cap and every reading is held or counted as dropped; the span has a first mark
  from the first reading on, and its last mark is at the latest reading's height; and a stop
  counted in blocks is resolved to a height by the first reading.
\<close>

theorem phase_books:
  assumes "phase_opened cfg ph s" and "(tick_step env)\<^sup>*\<^sup>* s t"
  shows "\<not> ps_fatal t \<and> (\<forall>v \<in> set (ps_violations t). of_severity Recorded (registered ph) v) \<and>
    in_schedule (ps_chaos t) \<and> read_books (ec_history_cap cfg) t"
  using phase.reach_invar [OF assms] by (simp add: phase_inv_def in_progress_def)

theorem phase_books_witness:
  "read_books 4 (missed_reading (demo_sync_tick 10 (Inl ''refused'') False)
     (phase_start demo_config \<lparr>sh_chaos = no_chaos, sh_run_origin = None, sh_log = []\<rparr> (demo_input []) demo_phase))"
proof -
  let ?env = "phase_env_of demo_config (demo_input []) demo_phase" and ?ti = "demo_sync_tick 10 (Inl ''refused'') False"
  let ?s = "phase_start demo_config \<lparr>sh_chaos = no_chaos, sh_run_origin = None, sh_log = []\<rparr> (demo_input []) demo_phase"
  have o1: "phase_opened demo_config demo_phase ?s"
    unfolding phase_opened_def by (rule exI, rule exI, rule conjI [OF _ refl]) (simp add: no_chaos_def)
  have "ps_pending ?s = []" "ch_pending (ps_chaos ?s) = []" by (simp_all add: phase_start_def demo_input_def no_chaos_def chaos_new_def)
  then have quiet: "apply_faults ?env ?ti ?s = (?s, None)" "settle_rows ?ti ?s = ?s"
    by (simp_all add: apply_faults_def take_due_def settle_rows_def)
  have "pe_deadline ?env = None" by (simp add: phase_env_of_def demo_phase_def ph_with_source_def)
  then have "sync_tick ?env ?ti ?s = Some (missed_reading ?ti ?s, None)"
    using quiet by (simp add: sync_tick_def past_deadline_def) (simp add: demo_sync_tick_def)
  then have "(tick_step ?env)\<^sup>*\<^sup>* ?s (missed_reading ?ti ?s)" by (intro r_into_rtranclp tick)
  from phase_books [OF o1 this] show ?thesis by (simp add: demo_config_def)
qed

end
