(* ===== verification/Load_Wire.thy ===== *)
theory Load_Wire
  imports Ztest_Prelude
begin

unbundle bit_operations_syntax

text \<open>
  The raw-bytes client of the load tests (\<open>src/src/loadtest/wire.rs\<close>): gRPC messages cut out
  of HTTP/2 DATA frames, the end-of-stream rules, and the walk over the top-level protobuf
  fields of a compact block. The HTTP/2 connection and the header-to-status decoding of the
  gRPC library are inputs: the answers \<open>data()\<close> and \<open>trailers()\<close> give, in order, and a
  function from headers to a status. Lengths are those of a 64-bit target, where
  \<open>PREFIX + len\<close> cannot overflow. \<open>None\<close> as the outer result is a panic (a failed
  \<open>debug_assert\<close>, an underflow); that it never happens is a lemma, not an assumption.
\<close>

section \<open>Data\<close>

type_synonym bytes = "u8 list"

datatype grpc_code = OkCode | Cancelled | UnknownCode | Unavailable | Internal | OtherCode nat

record grpc_status =
  code :: grpc_code
  status_text :: string

abbreviation status_internal :: "string \<Rightarrow> grpc_status" where
  "status_internal t \<equiv> \<lparr>code = Internal, status_text = t\<rparr>"

datatype h2_reason = CANCEL | REFUSED_STREAM | OtherReason nat

record h2_error =
  reason :: "h2_reason option"
  h2_text :: string

record 'h recv_stream =
  data_answers :: "(h2_error + bytes) list"
  trailer_answers :: "(h2_error + 'h option) list"

record deframer =
  pending :: bytes
  partial :: bytes

record 'h messages =
  recv :: "'h recv_stream"
  frames :: deframer
  msg_status :: "grpc_status option"

record wire_head =
  head_height :: u64
  head_hash :: bytes
  head_prev_hash :: bytes

section \<open>Deframing\<close>

definition PREFIX :: nat where "PREFIX = 5"

definition from_be_bytes :: "bytes \<Rightarrow> nat" where
  "from_be_bytes bs = foldl (\<lambda>n b. 256 * n + unat b) 0 bs"

definition prefixed_len :: "bytes \<Rightarrow> grpc_status + nat option" where
  "prefixed_len bs =
     (if length bs < PREFIX then Inr None
      else let prefix = take PREFIX bs in
           if hd prefix \<noteq> 0 then Inl (status_internal ''compressed message (none negotiated)'')
           else Inr (Some (from_be_bytes (tl prefix))))"

definition push_frame :: "deframer \<Rightarrow> bytes \<Rightarrow> deframer option" where
  "push_frame d frame = (if pending d \<noteq> [] then None else Some (d\<lparr>pending := frame\<rparr>))"

definition mid_message :: "deframer \<Rightarrow> bool" where
  "mid_message d \<longleftrightarrow> partial d \<noteq> [] \<or> pending d \<noteq> []"

definition wanted :: "nat option \<Rightarrow> nat" where
  "wanted len = (case len of None \<Rightarrow> PREFIX | Some n \<Rightarrow> PREFIX + n)"

function next_spanning :: "deframer \<Rightarrow> (deframer \<times> (grpc_status + bytes option)) option" where
  "next_spanning d =
     (case prefixed_len (partial d) of
        Inl e \<Rightarrow> Some (d, Inl e)
      | Inr announced \<Rightarrow>
          let want = wanted announced in
          if PREFIX \<le> length (partial d) \<and> length (partial d) = want
          then Some (d\<lparr>partial := []\<rparr>, Inr (Some (drop PREFIX (partial d))))
          else if pending d = [] then Some (d, Inr None)
          else if want < length (partial d) then None
          else let took = min (want - length (partial d)) (length (pending d)) in
               next_spanning (d\<lparr>pending := drop took (pending d),
                                partial := partial d @ take took (pending d)\<rparr>))"
  by pat_completeness auto

termination next_spanning
proof (relation "measure (\<lambda>d. length (pending d))", goal_cases)
  case 1
  show ?case by simp
next
  case (2 d announced want took)
  have "length (partial d) < PREFIX \<Longrightarrow> announced = None"
    using 2(1) by (simp add: prefixed_len_def)
  with 2 have "0 < took" by (auto simp: wanted_def split: option.splits)
  with 2 show ?case by auto
qed

declare next_spanning.simps [simp del]

definition next_frame :: "deframer \<Rightarrow> (deframer \<times> (grpc_status + bytes option)) option" where
  "next_frame d =
     (if partial d = [] then
        (case prefixed_len (pending d) of
           Inl e \<Rightarrow> Some (d, Inl e)
         | Inr None \<Rightarrow> next_spanning d
         | Inr (Some len) \<Rightarrow>
             if PREFIX + len \<le> length (pending d)
             then Some (d\<lparr>pending := drop (PREFIX + len) (pending d)\<rparr>,
                        Inr (Some (drop PREFIX (take (PREFIX + len) (pending d)))))
             else next_spanning d)
      else next_spanning d)"

section \<open>The response body, message by message\<close>

definition transport :: "h2_error \<Rightarrow> grpc_status" where
  "transport e =
     (case reason e of
        Some CANCEL \<Rightarrow> \<lparr>code = Cancelled, status_text = h2_text e\<rparr>
      | Some REFUSED_STREAM \<Rightarrow> \<lparr>code = Unavailable, status_text = h2_text e\<rparr>
      | None \<Rightarrow> \<lparr>code = Unavailable, status_text = h2_text e\<rparr>
      | Some (OtherReason _) \<Rightarrow> \<lparr>code = Internal, status_text = h2_text e\<rparr>)"

text \<open>\<open>RecvStream::data\<close> and \<open>RecvStream::trailers\<close>: the next answer of the peer.\<close>

definition recv_trailers :: "'h recv_stream \<Rightarrow> 'h recv_stream \<times> (h2_error + 'h option)" where
  "recv_trailers r =
     (case trailer_answers r of
        [] \<Rightarrow> (r, Inr None)
      | a # as \<Rightarrow> (r\<lparr>trailer_answers := as\<rparr>, a))"

definition judge_status :: "grpc_status \<Rightarrow> grpc_status + unit" where
  "judge_status s = (if code s = OkCode then Inr () else Inl s)"

definition finish ::
  "('h \<Rightarrow> grpc_status option) \<Rightarrow> 'h messages \<Rightarrow> 'h messages \<times> (grpc_status + unit)" where
  "finish from_header_map ms =
     (case msg_status ms of
        Some s \<Rightarrow> (ms\<lparr>msg_status := None\<rparr>, judge_status s)
      | None \<Rightarrow>
          (case recv_trailers (recv ms) of (r, answer) \<Rightarrow>
             (ms\<lparr>recv := r\<rparr>,
              case answer of
                Inl e \<Rightarrow> Inl (transport e)
              | Inr trailers \<Rightarrow>
                  (case Option.bind trailers from_header_map of
                     None \<Rightarrow> Inl (status_internal ''stream ended without a grpc-status'')
                   | Some s \<Rightarrow> judge_status s))))"

function message ::
  "('h \<Rightarrow> grpc_status option) \<Rightarrow> 'h messages \<Rightarrow> ('h messages \<times> (grpc_status + bytes option)) option" where
  "message from_header_map ms =
     (case next_frame (frames ms) of
        None \<Rightarrow> None
      | Some (d, Inl e) \<Rightarrow> Some (ms\<lparr>frames := d\<rparr>, Inl e)
      | Some (d, Inr (Some m)) \<Rightarrow> Some (ms\<lparr>frames := d\<rparr>, Inr (Some m))
      | Some (d, Inr None) \<Rightarrow>
          (let ms = ms\<lparr>frames := d\<rparr> in
           case data_answers (recv ms) of
             Inl e # rest \<Rightarrow>
               Some (ms\<lparr>recv := (recv ms)\<lparr>data_answers := rest\<rparr>\<rparr>, Inl (transport e))
           | Inr chunk # rest \<Rightarrow>
               (case push_frame d chunk of
                  None \<Rightarrow> None
                | Some d' \<Rightarrow>
                    message from_header_map
                      (ms\<lparr>recv := (recv ms)\<lparr>data_answers := rest\<rparr>, frames := d'\<rparr>))
           | [] \<Rightarrow>
               if mid_message d then Some (ms, Inl (status_internal ''stream ended mid-message''))
               else (case finish from_header_map ms of
                       (ms, Inl e) \<Rightarrow> Some (ms, Inl e)
                     | (ms, Inr ()) \<Rightarrow> Some (ms, Inr None))))"
  by pat_completeness auto

termination message
  by (relation "measure (\<lambda>(_, ms). length (data_answers (recv ms)))") auto

declare message.simps [simp del]

section \<open>Requests\<close>

text \<open>\<open>put_u32\<close>: four bytes, most significant first.\<close>

definition to_be_bytes :: "u32 \<Rightarrow> bytes" where
  "to_be_bytes w = map (\<lambda>s. of_nat (unat w div 2 ^ s mod 256)) [24, 16, 8, 0]"

definition framed :: "bytes \<Rightarrow> bytes" where
  "framed request = [0] @ to_be_bytes (of_nat (length request)) @ request"

text \<open>
  What the connection answers to one request: each step of the exchange may fail, and the
  response head carries an HTTP status, here its number and the text the \<open>http\<close> crate displays
  for it, and headers.
\<close>

record 'h response =
  http_status :: nat
  status_display :: string
  headers :: 'h
  resp_body :: "'h recv_stream"

record 'h connection =
  built :: "string + unit"
  ready :: "h2_error + unit"
  sent_head :: "h2_error + unit"
  send_data :: "bytes \<Rightarrow> h2_error + unit"
  responded :: "h2_error + 'h response"

definition open_messages ::
  "('h \<Rightarrow> grpc_status option) \<Rightarrow> 'h response \<Rightarrow> grpc_status + 'h messages" where
  "open_messages from_header_map resp =
     (if http_status resp \<noteq> 200
      then Inl \<lparr>code = UnknownCode, status_text = ''HTTP '' @ status_display resp\<rparr>
      else (let s = from_header_map (headers resp);
                opened = \<lparr>recv = resp_body resp, frames = \<lparr>pending = [], partial = []\<rparr>, msg_status = s\<rparr> in
            case s of
              Some refused \<Rightarrow> if code refused \<noteq> OkCode then Inl refused else Inr opened
            | None \<Rightarrow> Inr opened))"

definition stream_req ::
  "('h \<Rightarrow> grpc_status option) \<Rightarrow> 'h connection \<Rightarrow> bytes \<Rightarrow> grpc_status + 'h messages" where
  "stream_req from_header_map c request =
     (case built c of Inl e \<Rightarrow> Inl (status_internal e) | Inr _ \<Rightarrow>
     (case ready c of Inl e \<Rightarrow> Inl (transport e) | Inr _ \<Rightarrow>
     (case sent_head c of Inl e \<Rightarrow> Inl (transport e) | Inr _ \<Rightarrow>
     (case send_data c (framed request) of Inl e \<Rightarrow> Inl (transport e) | Inr _ \<Rightarrow>
     (case responded c of Inl e \<Rightarrow> Inl (transport e) | Inr resp \<Rightarrow>
        open_messages from_header_map resp)))))"

definition unary ::
  "('h \<Rightarrow> grpc_status option) \<Rightarrow> 'h connection \<Rightarrow> bytes \<Rightarrow> (grpc_status + bytes) option" where
  "unary from_header_map c request =
     (case stream_req from_header_map c request of
        Inl e \<Rightarrow> Some (Inl e)
      | Inr answer \<Rightarrow>
          (case message from_header_map answer of
             None \<Rightarrow> None
           | Some (_, Inl e) \<Rightarrow> Some (Inl e)
           | Some (_, Inr None) \<Rightarrow> Some (Inl (status_internal ''unary answer: no message''))
           | Some (answer, Inr (Some m)) \<Rightarrow>
               (case message from_header_map answer of
                  None \<Rightarrow> None
                | Some (_, Inl e) \<Rightarrow> Some (Inl e)
                | Some (_, Inr None) \<Rightarrow> Some (Inr m)
                | Some (_, Inr (Some _)) \<Rightarrow>
                    Some (Inl (status_internal ''unary answer: a second message'')))))"

section \<open>The deframer against the bytes of the stream\<close>

text \<open>
  The reference: cut the first message off the whole remaining byte stream.
  \<open>content\<close> is the part of that stream a deframer holds.
\<close>

definition cut_message :: "bytes \<Rightarrow> grpc_status + (bytes \<times> bytes) option" where
  "cut_message bs =
     (case prefixed_len bs of
        Inl e \<Rightarrow> Inl e
      | Inr None \<Rightarrow> Inr None
      | Inr (Some len) \<Rightarrow>
          if PREFIX + len \<le> length bs
          then Inr (Some (take len (drop PREFIX bs), drop (PREFIX + len) bs)) else Inr None)"

definition content :: "deframer \<Rightarrow> bytes" where
  "content d = partial d @ pending d"

text \<open>A partial message is never whole: either its prefix or its body still misses bytes.\<close>

definition incomplete :: "bytes \<Rightarrow> bool" where
  "incomplete p \<longleftrightarrow> cut_message p = Inr None"

definition deframer_ok :: "deframer \<Rightarrow> bool" where
  "deframer_ok d \<longleftrightarrow> incomplete (partial d)"

lemma prefixed_len_append:
  "PREFIX \<le> length p \<Longrightarrow> prefixed_len (p @ q) = prefixed_len p"
  by (cases p) (auto simp: prefixed_len_def PREFIX_def)

lemma prefixed_len_short [simp]: "length p < PREFIX \<Longrightarrow> prefixed_len p = Inr None"
  by (simp add: prefixed_len_def)

lemma prefixed_len_None_iff: "prefixed_len p = Inr None \<longleftrightarrow> length p < PREFIX"
  by (auto simp: prefixed_len_def Let_def)

lemma incomplete_Nil [simp]: "incomplete []"
  by (simp add: incomplete_def cut_message_def PREFIX_def)

lemma incomplete_iff:
  "incomplete p \<longleftrightarrow> (case prefixed_len p of Inl _ \<Rightarrow> False | Inr n \<Rightarrow> length p < wanted n)"
  by (auto simp: incomplete_def cut_message_def wanted_def prefixed_len_None_iff
      split: sum.splits option.splits)

text \<open>The spanning loop, entered with at most the wanted bytes, cuts the first message.\<close>

definition spans :: "deframer \<Rightarrow> bool" where
  "spans d \<longleftrightarrow> (case prefixed_len (partial d) of
     Inl _ \<Rightarrow> True | Inr n \<Rightarrow> length (partial d) \<le> wanted n)"

lemma deframer_ok_spans: "deframer_ok d \<Longrightarrow> spans d"
  by (auto simp: deframer_ok_def spans_def incomplete_iff split: sum.splits)

text \<open>What either path of \<open>next\<close> must return, by the reference.\<close>

definition cuts :: "deframer \<Rightarrow> (deframer \<times> (grpc_status + bytes option)) option \<Rightarrow> bool" where
  "cuts d res \<longleftrightarrow>
     (case cut_message (content d) of
        Inl e \<Rightarrow> \<exists>d'. res = Some (d', Inl e)
      | Inr None \<Rightarrow> \<exists>d'. res = Some (d', Inr None) \<and> deframer_ok d' \<and> pending d' = []
                       \<and> content d' = content d
      | Inr (Some (m, rest)) \<Rightarrow> res = Some (\<lparr>pending = rest, partial = []\<rparr>, Inr (Some m)))"

lemma spans_step:
  assumes "prefixed_len (partial d) = Inr n" "length (partial d) < wanted n"
    and "took = min (wanted n - length (partial d)) (length (pending d))"
  shows "spans (d\<lparr>pending := drop took (pending d), partial := partial d @ take took (pending d)\<rparr>)"
proof (cases "PREFIX \<le> length (partial d)")
  case True
  with assms show ?thesis by (auto simp: spans_def prefixed_len_append)
next
  case False
  with assms have "n = None" by (simp add: prefixed_len_def)
  with assms have le: "length (partial d @ take took (pending d)) \<le> PREFIX"
    by (simp add: wanted_def)
  then have "length (partial d @ take took (pending d)) \<le> wanted k" for k
    by (simp add: wanted_def split: option.splits)
  then show ?thesis by (simp add: spans_def split: sum.splits)
qed

lemma next_spanning_cuts: "spans d \<Longrightarrow> cuts d (next_spanning d)"
proof (induction d rule: next_spanning.induct)
  case (1 d)
  show ?case
  proof (cases "prefixed_len (partial d)")
    case (Inl e)
    then have "\<not> length (partial d) < PREFIX" by auto
    with Inl show ?thesis
      by (auto simp: cuts_def cut_message_def content_def next_spanning.simps prefixed_len_append)
  next
    case (Inr n)
    with 1 have le: "length (partial d) \<le> wanted n" by (simp add: spans_def)
    show ?thesis
    proof (cases "PREFIX \<le> length (partial d) \<and> length (partial d) = wanted n")
      case True
      with Inr obtain len where n: "n = Some len" by (auto simp: prefixed_len_def Let_def split: if_splits)
      from True Inr n have "next_spanning d = Some (\<lparr>pending = pending d, partial = []\<rparr>, Inr (Some (drop PREFIX (partial d))))"
        by (simp add: next_spanning.simps)
      moreover from True Inr n have "cut_message (content d) = Inr (Some (drop PREFIX (partial d), pending d))"
        by (simp add: cut_message_def content_def prefixed_len_append wanted_def)
      ultimately show ?thesis by (simp add: cuts_def)
    next
      case False
      then have lt: "length (partial d) < wanted n"
        using le Inr by (auto simp: wanted_def prefixed_len_def Let_def split: if_splits)
      show ?thesis
      proof (cases "pending d = []")
        case True
        from Inr lt have inc: "cut_message (partial d) = Inr None"
          by (simp add: incomplete_def [symmetric] incomplete_iff)
        from True False Inr have "next_spanning d = Some (d, Inr None)"
          by (simp add: next_spanning.simps Let_def)
        with True inc show ?thesis by (simp add: cuts_def content_def deframer_ok_def incomplete_def)
      next
        case ne: False
        define took where "took = min (wanted n - length (partial d)) (length (pending d))"
        define d' where "d' = d\<lparr>pending := drop took (pending d), partial := partial d @ take took (pending d)\<rparr>"
        from False ne lt Inr have "next_spanning d = next_spanning d'"
          by (subst next_spanning.simps) (auto simp: d'_def took_def Let_def)
        moreover have "content d' = content d" by (simp add: d'_def content_def)
        moreover have "cuts d' (next_spanning d')"
          using 1(1) [OF Inr refl False ne _ took_def] lt spans_step [OF Inr lt took_def]
          by (simp add: d'_def)
        ultimately show ?thesis by (simp only: cuts_def)
      qed
    qed
  qed
qed

lemma next_frame_cuts:
  assumes "deframer_ok d"
  shows "cuts d (next_frame d)"
proof (cases "partial d = []")
  case False
  with assms show ?thesis by (simp add: next_frame_def next_spanning_cuts deframer_ok_spans)
next
  case True
  then have c: "content d = pending d" by (simp add: content_def)
  from assms have sp: "cuts d (next_spanning d)" by (simp add: next_spanning_cuts deframer_ok_spans)
  show ?thesis
  proof (cases "prefixed_len (pending d)")
    case (Inl e)
    with True c show ?thesis by (simp add: next_frame_def cuts_def cut_message_def)
  next
    case (Inr n)
    show ?thesis
    proof (cases "\<exists>len. n = Some len \<and> PREFIX + len \<le> length (pending d)")
      case False
      with sp True Inr show ?thesis by (auto simp: next_frame_def split: option.splits)
    next
      case whole: True
      then obtain len where n: "n = Some len" "PREFIX + len \<le> length (pending d)" by blast
      then have "cut_message (content d) = Inr (Some (take len (drop PREFIX (pending d)), drop (PREFIX + len) (pending d)))"
        using c Inr by (simp add: cut_message_def)
      moreover have "next_frame d = Some (\<lparr>pending = drop (PREFIX + len) (pending d), partial = []\<rparr>,
          Inr (Some (take len (drop PREFIX (pending d)))))"
        using True Inr n by (cases d) (simp add: next_frame_def drop_take)
      ultimately show ?thesis by (simp add: cuts_def)
    qed
  qed
qed

text \<open>
  The stream still to be read: what the deframer holds and the chunks to come, when none of
  them is a transport error.
\<close>

definition stream_bytes :: "'h messages \<Rightarrow> bytes list \<Rightarrow> bytes" where
  "stream_bytes ms chunks = content (frames ms) @ concat chunks"

definition reads :: "'h messages \<Rightarrow> bytes \<Rightarrow> bool" where
  "reads ms bs \<longleftrightarrow> deframer_ok (frames ms) \<and>
     (\<exists>chunks. data_answers (recv ms) = map Inr chunks \<and> bs = stream_bytes ms chunks)"

lemma cut_message_append:
  assumes "cut_message p \<noteq> Inr None"
  shows "cut_message (p @ q) =
     map_sum id (map_option (\<lambda>(m, rest). (m, rest @ q))) (cut_message p)"
proof -
  have "\<not> length p < PREFIX" using assms by (auto simp: cut_message_def)
  with assms show ?thesis
    by (auto simp: cut_message_def prefixed_len_append split: sum.splits option.splits if_splits)
qed

text \<open>One call of \<open>message\<close> against the bytes of the stream, whatever the chunking.\<close>

definition reads_one ::
  "('h \<Rightarrow> grpc_status option) \<Rightarrow> 'h messages \<Rightarrow> bytes \<Rightarrow>
   ('h messages \<times> (grpc_status + bytes option)) option \<Rightarrow> bool" where
  "reads_one fh ms bs res \<longleftrightarrow>
     (case cut_message bs of
        Inl e \<Rightarrow> \<exists>ms'. res = Some (ms', Inl e)
      | Inr (Some (m, rest)) \<Rightarrow> \<exists>ms'. res = Some (ms', Inr (Some m)) \<and> reads ms' rest
          \<and> trailer_answers (recv ms') = trailer_answers (recv ms) \<and> msg_status ms' = msg_status ms
      | Inr None \<Rightarrow>
          if bs \<noteq> [] then \<exists>ms'. res = Some (ms', Inl (status_internal ''stream ended mid-message''))
          else \<exists>ms'. res = Some (ms', map_sum id (\<lambda>_. None) (snd (finish fh ms))))"

lemma finish_same:
  assumes "trailer_answers (recv ms') = trailer_answers (recv ms)" "msg_status ms' = msg_status ms"
  shows "snd (finish fh ms') = snd (finish fh ms)"
  using assms by (auto simp: finish_def recv_trailers_def split: option.splits list.splits)

lemma reads_one_cong:
  assumes "trailer_answers (recv ms') = trailer_answers (recv ms)" "msg_status ms' = msg_status ms"
  shows "reads_one fh ms' bs res = reads_one fh ms bs res"
  by (simp only: reads_one_def assms finish_same [OF assms])

lemma message_reads_one:
  "deframer_ok (frames ms) \<Longrightarrow> data_answers (recv ms) = map Inr chunks \<Longrightarrow>
   reads_one fh ms (stream_bytes ms chunks) (message fh ms)"
proof (induction chunks arbitrary: ms)
  case Nil
  have bs: "stream_bytes ms [] = content (frames ms)" by (simp add: stream_bytes_def)
  from next_frame_cuts [OF Nil(1)] have cuts: "cuts (frames ms) (next_frame (frames ms))" .
  show ?case
  proof (cases "cut_message (content (frames ms))")
    case (Inl e)
    with cuts obtain d where "next_frame (frames ms) = Some (d, Inl e)" by (auto simp: cuts_def)
    with Inl bs show ?thesis by (simp add: reads_one_def message.simps)
  next
    case (Inr r)
    show ?thesis
    proof (cases r)
      case (Some mr)
      obtain m rest where mr: "mr = (m, rest)" by (cases mr)
      with cuts Inr Some have "next_frame (frames ms) = Some (\<lparr>pending = rest, partial = []\<rparr>, Inr (Some m))"
        by (simp add: cuts_def)
      with Inr Some mr bs Nil show ?thesis
        by (simp add: reads_one_def message.simps reads_def deframer_ok_def stream_bytes_def content_def)
    next
      case None
      with cuts Inr obtain d where d: "next_frame (frames ms) = Some (d, Inr None)"
        "deframer_ok d" "pending d = []" "content d = content (frames ms)" by (auto simp: cuts_def)
      then have mid: "mid_message d \<longleftrightarrow> content (frames ms) \<noteq> []"
        by (auto simp: mid_message_def content_def)
      have "snd (finish fh (ms\<lparr>frames := d\<rparr>)) = snd (finish fh ms)" by (rule finish_same) simp_all
      then obtain ms' where fin: "finish fh (ms\<lparr>frames := d\<rparr>) = (ms', snd (finish fh ms))"
        by (cases "finish fh (ms\<lparr>frames := d\<rparr>)") simp
      show ?thesis
      proof (cases "content (frames ms) = []")
        case True
        with d Nil mid fin have "message fh ms = Some (ms', map_sum id (\<lambda>_. None) (snd (finish fh ms)))"
          by (simp add: message.simps split: sum.splits unit.splits)
        with True Inr None bs show ?thesis by (simp add: reads_one_def)
      next
        case False
        with d Nil mid show ?thesis using Inr None bs by (simp add: reads_one_def message.simps)
      qed
    qed
  qed
next
  case (Cons chunk chunks)
  have bs: "stream_bytes ms (chunk # chunks) = content (frames ms) @ chunk @ concat chunks"
    by (simp add: stream_bytes_def)
  from next_frame_cuts [OF Cons(2)] have cuts: "cuts (frames ms) (next_frame (frames ms))" .
  show ?case
  proof (cases "cut_message (content (frames ms)) = Inr None")
    case False
    note app = cut_message_append [OF False, of "chunk @ concat chunks"]
    show ?thesis
    proof (cases "cut_message (content (frames ms))")
      case (Inl e)
      with cuts obtain d where "next_frame (frames ms) = Some (d, Inl e)" by (auto simp: cuts_def)
      with Inl bs app show ?thesis by (simp add: reads_one_def message.simps)
    next
      case (Inr r)
      with False obtain m rest where r: "r = Some (m, rest)" by auto
      with cuts Inr have "next_frame (frames ms) = Some (\<lparr>pending = rest, partial = []\<rparr>, Inr (Some m))"
        by (simp add: cuts_def)
      then have "message fh ms = Some (ms\<lparr>frames := \<lparr>pending = rest, partial = []\<rparr>\<rparr>, Inr (Some m))"
        by (simp add: message.simps)
      moreover have "reads (ms\<lparr>frames := \<lparr>pending = rest, partial = []\<rparr>\<rparr>) (rest @ chunk @ concat chunks)"
        unfolding reads_def using Cons(3)
        by (auto simp: deframer_ok_def stream_bytes_def content_def intro!: exI [of _ "chunk # chunks"])
      ultimately show ?thesis using Inr r bs app by (simp add: reads_one_def)
    qed
  next
    case True
    with cuts obtain d where d: "next_frame (frames ms) = Some (d, Inr None)"
      "deframer_ok d" "pending d = []" "content d = content (frames ms)" by (auto simp: cuts_def)
    define ms' where "ms' = ms\<lparr>recv := (recv ms)\<lparr>data_answers := map Inr chunks\<rparr>, frames := d\<lparr>pending := chunk\<rparr>\<rparr>"
    have "message fh ms = message fh ms'"
      using d Cons(3) by (subst message.simps) (simp add: push_frame_def ms'_def)
    moreover have "stream_bytes ms' chunks = stream_bytes ms (chunk # chunks)"
      using d by (simp add: stream_bytes_def ms'_def content_def)
    moreover have "reads_one fh ms' (stream_bytes ms' chunks) (message fh ms')"
      using d by (intro Cons(1)) (simp_all add: ms'_def deframer_ok_def)
    moreover have "reads_one fh ms' bs res \<Longrightarrow> reads_one fh ms bs res" for bs res
      using reads_one_cong [of ms' ms fh] by (simp add: ms'_def)
    ultimately show ?thesis by simp
  qed
qed

section \<open>Framing and deframing\<close>

text \<open>The loop of every caller: messages until an end or an error; the fuel bounds the calls.\<close>

fun drain ::
  "('h \<Rightarrow> grpc_status option) \<Rightarrow> nat \<Rightarrow> 'h messages \<Rightarrow> bytes list \<times> (grpc_status + unit) option" where
  "drain fh 0 ms = ([], None)"
| "drain fh (Suc n) ms =
     (case message fh ms of
        None \<Rightarrow> ([], None)
      | Some (_, Inl e) \<Rightarrow> ([], Some (Inl e))
      | Some (_, Inr None) \<Rightarrow> ([], Some (Inr ()))
      | Some (ms', Inr (Some m)) \<Rightarrow> (case drain fh n ms' of (got, end) \<Rightarrow> (m # got, end)))"

lemma length_to_be_bytes [simp]: "length (to_be_bytes w) = 4"
  by (simp add: to_be_bytes_def)

lemma unat_byte_of [simp]: "unat (of_nat (n mod 256) :: u8) = n mod 256"
  by (simp add: unat_of_nat)

lemma from_be_to_be: "from_be_bytes (to_be_bytes w) = unat w"
proof -
  define n where "n = unat w"
  have lt: "n < 4294967296" using unat_lt_pow [of w] by (simp add: n_def)
  have "n div 65536 = n div 256 div 256" "n div 16777216 = n div 256 div 256 div 256"
    by (simp_all add: div_mult2_eq [symmetric])
  moreover have top: "n div 16777216 < 256" using lt by (simp add: less_mult_imp_div_less)
  ultimately have "256 * (256 * (256 * (n div 16777216 mod 256) + n div 65536 mod 256) + n div 256 mod 256) + n mod 256 = n"
    by (simp only: mod_less mult_div_mod_eq)
  with top show ?thesis
    by (simp add: from_be_bytes_def to_be_bytes_def n_def [symmetric] unat_of_nat)
qed

lemma cut_framed:
  assumes "length m < 2 ^ 32"
  shows "cut_message (framed m @ rest) = Inr (Some (m, rest))"
proof -
  have "prefixed_len (framed m @ rest) = Inr (Some (unat (of_nat (length m) :: u32)))"
    by (simp add: prefixed_len_def framed_def PREFIX_def from_be_to_be Let_def)
  moreover have "unat (of_nat (length m) :: u32) = length m"
    using assms by (simp add: unat_of_nat)
  moreover define p where "p = [0] @ to_be_bytes (of_nat (length m))"
  then have "framed m @ rest = p @ m @ rest" "length p = 5" by (simp_all add: framed_def)
  ultimately show ?thesis by (simp add: cut_message_def PREFIX_def)
qed

lemma drain_framed:
  assumes "\<forall>m \<in> set msgs. length m < 2 ^ 32" "incomplete tail" "reads ms (concat (map framed msgs) @ tail)"
  shows "drain fh (Suc (length msgs)) ms =
    (msgs, Some (if tail \<noteq> [] then Inl (status_internal ''stream ended mid-message'')
                 else snd (finish fh ms)))"
  using assms
proof (induction msgs arbitrary: ms)
  case Nil
  then obtain chunks where "deframer_ok (frames ms)" "data_answers (recv ms) = map Inr chunks"
    "tail = stream_bytes ms chunks" by (auto simp: reads_def)
  with message_reads_one have "reads_one fh ms tail (message fh ms)" by simp
  with Nil(2) obtain ms' where "message fh ms = Some (ms', if tail \<noteq> []
      then Inl (status_internal ''stream ended mid-message'')
      else map_sum id (\<lambda>_. None) (snd (finish fh ms)))"
    by (auto simp: reads_one_def incomplete_def split: if_splits)
  then show ?case by (cases "snd (finish fh ms)") auto
next
  case (Cons m msgs)
  define more where "more = concat (map framed msgs) @ tail"
  from Cons(4) obtain chunks where "deframer_ok (frames ms)" "data_answers (recv ms) = map Inr chunks"
    "framed m @ more = stream_bytes ms chunks" by (auto simp: reads_def more_def)
  with message_reads_one have "reads_one fh ms (framed m @ more) (message fh ms)" by simp
  moreover have "cut_message (framed m @ more) = Inr (Some (m, more))"
    using Cons(2) by (simp add: cut_framed)
  ultimately obtain ms' where ms': "message fh ms = Some (ms', Inr (Some m))" "reads ms' more"
    "trailer_answers (recv ms') = trailer_answers (recv ms)" "msg_status ms' = msg_status ms"
    by (auto simp: reads_one_def)
  have "drain fh (Suc (length msgs)) ms' =
    (msgs, Some (if tail \<noteq> [] then Inl (status_internal ''stream ended mid-message'')
                 else snd (finish fh ms')))"
    using Cons(1) [of ms'] Cons(2,3) ms'(2) by (simp add: more_def del: drain.simps)
  then have "drain fh (Suc (length msgs)) ms' =
    (msgs, Some (if tail \<noteq> [] then Inl (status_internal ''stream ended mid-message'')
                 else snd (finish fh ms)))"
    by (simp only: finish_same [OF ms'(3,4)])
  then show ?case using ms'(1) by (simp only: drain.simps(2) [of fh "length (m # msgs)"]) simp
qed

definition fresh_messages :: "bytes list \<Rightarrow> (h2_error + 'h option) list \<Rightarrow> grpc_status option \<Rightarrow> 'h messages" where
  "fresh_messages chunks ts st =
     \<lparr>recv = \<lparr>data_answers = map Inr chunks, trailer_answers = ts\<rparr>,
      frames = \<lparr>pending = [], partial = []\<rparr>, msg_status = st\<rparr>"

lemma fresh_reads: "reads (fresh_messages chunks ts st) (concat chunks)"
  by (auto simp: reads_def fresh_messages_def deframer_ok_def stream_bytes_def content_def)

text \<open>
  C25. However the DATA frames cut the stream, every framed message comes out intact and in
  order, and the end is judged right: a stream that stops inside a message is an error even
  when its trailers say Ok; one that stops at a message boundary ends as its status says.\<close>

theorem wire_roundtrip:
  assumes "\<forall>m \<in> set msgs. length m < 2 ^ 32"
    and "incomplete tail"
    and "concat chunks = concat (map framed msgs) @ tail"
  shows "drain fh (Suc (length msgs)) (fresh_messages chunks ts st) =
    (msgs, Some (if tail \<noteq> [] then Inl (status_internal ''stream ended mid-message'')
                 else snd (finish fh (fresh_messages chunks ts st))))"
  using drain_framed [OF assms(1,2) fresh_reads [of chunks ts st, unfolded assms(3)]] .

theorem wire_roundtrip_witness:
  "drain (\<lambda>_. Some \<lparr>code = OkCode, status_text = []\<rparr>) 3
     (fresh_messages [[0,0,0], [0,1,9,0], [], [0,0,0,0,0,0]] [Inr (Some ())] None) =
   ([[9], []], Some (Inl (status_internal ''stream ended mid-message'')))"
  using wire_roundtrip [of "[[9], []]" "[0, 0]" "[[0,0,0], [0,1,9,0], [], [0,0,0,0,0,0]]"
      "\<lambda>_. Some \<lparr>code = OkCode, status_text = []\<rparr>" "[Inr (Some ())]" None]
  by (simp add: incomplete_def cut_message_def PREFIX_def framed_def to_be_bytes_def numeral_3_eq_3 del: drain.simps)

section \<open>Unary calls\<close>

lemma message_fresh:
  "reads_one fh (fresh_messages chunks ts st) (concat chunks) (message fh (fresh_messages chunks ts st))"
  using message_reads_one [of "fresh_messages chunks ts st" chunks fh]
  by (simp add: fresh_messages_def deframer_ok_def stream_bytes_def content_def)

lemma reads_message: "reads ms bs \<Longrightarrow> reads_one fh ms bs (message fh ms)"
  by (auto simp: reads_def message_reads_one)

lemma cut_Nil [simp]: "cut_message [] = Inr None"
  by (simp add: cut_message_def PREFIX_def)

text \<open>
  A unary call succeeds exactly when the response is HTTP 200 with no refusal in its
  headers, its body is one whole message and nothing after it, and its closing status is Ok.\<close>

theorem unary_exact:
  assumes "built c = Inr ()" "ready c = Inr ()" "sent_head c = Inr ()" "responded c = Inr resp"
    and "send_data c (framed request) = Inr ()"
    and "data_answers (resp_body resp) = map Inr chunks"
  shows "unary fh c request = Some (Inr m) \<longleftrightarrow>
     http_status resp = 200 \<and> (\<forall>s. fh (headers resp) = Some s \<longrightarrow> code s = OkCode) \<and>
     cut_message (concat chunks) = Inr (Some (m, [])) \<and>
     snd (finish fh (fresh_messages chunks (trailer_answers (resp_body resp)) (fh (headers resp)))) = Inr ()"
proof -
  define fresh where "fresh = fresh_messages chunks (trailer_answers (resp_body resp)) (fh (headers resp))"
  have fresh: "fresh = \<lparr>recv = resp_body resp, frames = \<lparr>pending = [], partial = []\<rparr>, msg_status = fh (headers resp)\<rparr>"
    using assms(6) by (cases "resp_body resp") (simp add: fresh_def fresh_messages_def)
  have req: "stream_req fh c request = open_messages fh resp"
    by (simp add: stream_req_def assms(1-5))
  have opened: "stream_req fh c request = Inr fresh"
    if "http_status resp = 200" "\<forall>s. fh (headers resp) = Some s \<longrightarrow> code s = OkCode"
    unfolding req fresh open_messages_def using that by (cases "fh (headers resp)") simp_all
  have refused: "\<exists>e. stream_req fh c request = Inl e"
    if "\<not> (http_status resp = 200 \<and> (\<forall>s. fh (headers resp) = Some s \<longrightarrow> code s = OkCode))"
    unfolding req open_messages_def using that by (cases "fh (headers resp)") auto
  show ?thesis
  proof (cases "http_status resp = 200 \<and> (\<forall>s. fh (headers resp) = Some s \<longrightarrow> code s = OkCode)")
    case False
    with refused obtain e where "stream_req fh c request = Inl e" by blast
    with False show ?thesis by (auto simp: unary_def)
  next
    case True
    with opened have st: "stream_req fh c request = Inr fresh" by simp
    have one: "reads_one fh fresh (concat chunks) (message fh fresh)"
      unfolding fresh_def by (rule message_fresh)
    have "unary fh c request = Some (Inr m) \<longleftrightarrow>
        cut_message (concat chunks) = Inr (Some (m, [])) \<and> snd (finish fh fresh) = Inr ()"
    proof (cases "\<exists>m' rest. cut_message (concat chunks) = Inr (Some (m', rest))")
      case False
      then have "\<exists>ms' e. message fh fresh = Some (ms', Inl e) \<or> message fh fresh = Some (ms', Inr None)"
        using one by (cases "snd (finish fh fresh)")
          (auto simp: reads_one_def split: sum.splits option.splits if_splits)
      with False st show ?thesis by (auto simp: unary_def)
    next
      case cut: True
      then obtain m' rest where cut: "cut_message (concat chunks) = Inr (Some (m', rest))" by blast
      with one obtain ms' where ms': "message fh fresh = Some (ms', Inr (Some m'))" "reads ms' rest"
        "trailer_answers (recv ms') = trailer_answers (recv fresh)" "msg_status ms' = msg_status fresh"
        by (auto simp: reads_one_def)
      have two: "reads_one fh fresh rest (message fh ms')"
        using reads_message [OF ms'(2), of fh] reads_one_cong [OF ms'(3,4)] by simp
      have "(\<exists>ms''. message fh ms' = Some (ms'', Inr None)) \<longleftrightarrow> rest = [] \<and> snd (finish fh fresh) = Inr ()"
        using two by (cases "snd (finish fh fresh)") (auto simp: reads_one_def split: sum.splits option.splits if_splits)
      then show ?thesis using st ms'(1) cut
        by (auto simp: unary_def split: option.splits sum.splits)
    qed
    with True show ?thesis by (simp add: fresh_def)
  qed
qed

theorem unary_exact_witness:
  "unary (\<lambda>h. if h then Some \<lparr>code = OkCode, status_text = []\<rparr> else None)
     \<lparr>built = Inr (), ready = Inr (), sent_head = Inr (), send_data = (\<lambda>_. Inr ()),
      responded = Inr \<lparr>http_status = 200, status_display = ''200 OK'', headers = False,
        resp_body = \<lparr>data_answers = [Inr [0,0,0,0], Inr [1,7]], trailer_answers = [Inr (Some True)]\<rparr>\<rparr>\<rparr> []
   = Some (Inr [7])"
  using unary_exact [of
     "\<lparr>built = Inr (), ready = Inr (), sent_head = Inr (), send_data = (\<lambda>_. Inr ()),
      responded = Inr \<lparr>http_status = 200, status_display = ''200 OK'', headers = False,
        resp_body = \<lparr>data_answers = [Inr [0,0,0,0], Inr [1,7]], trailer_answers = [Inr (Some True)]\<rparr>\<rparr>\<rparr>"
     "\<lparr>http_status = 200, status_display = ''200 OK'', headers = False,
        resp_body = \<lparr>data_answers = [Inr [0,0,0,0], Inr [1,7]], trailer_answers = [Inr (Some True)]\<rparr>\<rparr>"
     "[]" "[[0,0,0,0], [1,7]]" "\<lambda>h. if h then Some \<lparr>code = OkCode, status_text = []\<rparr> else None" "[7]"]
  by (simp add: cut_message_def prefixed_len_def PREFIX_def from_be_bytes_def finish_def fresh_messages_def
      recv_trailers_def judge_status_def)

section \<open>Protobuf fields\<close>

fun varint_at :: "nat list \<Rightarrow> u64 \<Rightarrow> bytes \<Rightarrow> (u64 \<times> bytes) option" where
  "varint_at [] v bs = None"
| "varint_at (shift # shifts) v [] = None"
| "varint_at (shift # shifts) v (b # rest) =
     (let v' = v OR push_bit shift (ucast (b AND 0x7f)) in
      if b AND 0x80 = 0 then Some (v', rest) else varint_at shifts v' rest)"

definition varint :: "bytes \<Rightarrow> (u64 \<times> bytes) option" where
  "varint bs = varint_at [0, 7, 14, 21, 28, 35, 42, 49, 56, 63] 0 bs"

definition delimited :: "bytes \<Rightarrow> (bytes \<times> bytes) option" where
  "delimited bs =
     (case varint bs of
        None \<Rightarrow> None
      | Some (n, rest) \<Rightarrow>
          if unat n \<le> length rest then Some (take (unat n) rest, drop (unat n) rest) else None)"

lemma varint_at_shorter: "varint_at ss v bs = Some (w, rest) \<Longrightarrow> length rest < length bs"
  by (induction ss v bs rule: varint_at.induct) (auto simp: Let_def split: if_splits dest: order.strict_trans)

lemma varint_shorter: "varint bs = Some (w, rest) \<Longrightarrow> length rest < length bs"
  unfolding varint_def by (rule varint_at_shorter)

lemma delimited_shorter: "delimited bs = Some (w, rest) \<Longrightarrow> length rest < length bs"
  by (auto simp: delimited_def split: option.splits prod.splits if_splits dest!: varint_shorter)

text \<open>The three header fields seen so far.\<close>

record head_fields =
  f_height :: "u64 option"
  f_hash :: "bytes option"
  f_prev :: "bytes option"

text \<open>One turn of the walk: the fields after one top-level field, and the rest.\<close>

definition walk_field :: "head_fields \<Rightarrow> bytes \<Rightarrow> (head_fields \<times> bytes) option" where
  "walk_field acc bs =
     (case varint bs of None \<Rightarrow> None | Some (key, rest) \<Rightarrow>
        let field = drop_bit 3 key; wire = key AND 7 in
        if field = 2 \<and> wire = 0 then
          (case varint rest of None \<Rightarrow> None | Some (h, rest) \<Rightarrow> Some (acc\<lparr>f_height := Some h\<rparr>, rest))
        else if (field = 3 \<or> field = 4) \<and> wire = 2 then
          (case delimited rest of None \<Rightarrow> None | Some (value, rest) \<Rightarrow>
             if length value \<noteq> 32 then None
             else if field = 3 then Some (acc\<lparr>f_hash := Some value\<rparr>, rest)
             else Some (acc\<lparr>f_prev := Some value\<rparr>, rest))
        else if wire = 0 then map_option (\<lambda>(_, rest). (acc, rest)) (varint rest)
        else if wire = 2 then map_option (\<lambda>(_, rest). (acc, rest)) (delimited rest)
        else if wire = 1 then (if 8 \<le> length rest then Some (acc, drop 8 rest) else None)
        else if wire = 5 then (if 4 \<le> length rest then Some (acc, drop 4 rest) else None)
        else None)"

lemma walk_field_shorter: "walk_field acc bs = Some (acc', rest) \<Longrightarrow> length rest < length bs"
  by (auto simp: walk_field_def Let_def split: option.splits prod.splits if_splits
      dest!: varint_shorter delimited_shorter)

function walk_fields :: "head_fields \<Rightarrow> bytes \<Rightarrow> head_fields option" where
  "walk_fields acc bs =
     (if bs = [] then Some acc
      else (case walk_field acc bs of
              None \<Rightarrow> None
            | Some (acc', rest) \<Rightarrow> walk_fields acc' rest))"
  by pat_completeness auto
termination walk_fields
  by (relation "measure (\<lambda>(_, bs). length bs)") (auto dest: walk_field_shorter)

declare walk_fields.simps [simp del]

definition block_head :: "bytes \<Rightarrow> wire_head option" where
  "block_head bs =
     (case walk_fields \<lparr>f_height = None, f_hash = None, f_prev = None\<rparr> bs of
        None \<Rightarrow> None
      | Some acc \<Rightarrow>
          (case (f_height acc, f_hash acc, f_prev acc) of
             (Some h, Some x, Some p) \<Rightarrow> Some \<lparr>head_height = h, head_hash = x, head_prev_hash = p\<rparr>
           | _ \<Rightarrow> None))"

section \<open>Variable-length integers\<close>

text \<open>The protobuf encoding: seven bits per byte, least significant first.\<close>

fun put_varint :: "nat \<Rightarrow> bytes" where
  "put_varint n =
     (if n < 128 then [of_nat n] else of_nat (128 + n mod 128) # put_varint (n div 128))"

declare put_varint.simps [simp del]

lemma or_push_bit_nat: "a < 2 ^ s \<Longrightarrow> a OR push_bit s b = a + b * 2 ^ s" for a b :: nat
proof -
  assume "a < 2 ^ s"
  then have "\<not> bit a n \<or> \<not> bit (push_bit s b) n" for n
    by (metis bit_push_bit_iff bit_take_bit_iff linorder_not_less take_bit_nat_eq_self_iff)
  then have "a + push_bit s b = a OR push_bit s b" by (rule disjunctive_add)
  then show ?thesis by (simp add: push_bit_eq_mult)
qed

lemma or_push_bit_u64:
  assumes "unat v < 2 ^ s" "unat v + b * 2 ^ s < 2 ^ 64"
  shows "v OR push_bit s (of_nat b :: u64) = of_nat (unat v + b * 2 ^ s)"
proof -
  have "of_nat (unat v OR push_bit s b) = (of_nat (unat v) OR of_nat (push_bit s b) :: u64)"
    by (simp add: of_nat_or_eq)
  moreover have "of_nat (push_bit s b) = (push_bit s (of_nat b) :: u64)"
    by (simp add: push_bit_of_nat)
  ultimately show ?thesis using assms by (simp add: or_push_bit_nat)
qed

lemma unat_of_nat_u64: "x < 2 ^ 64 \<Longrightarrow> unat (of_nat x :: u64) = x"
  by (simp add: unat_of_nat)

lemma low_bits: "n < 256 \<Longrightarrow> ucast ((of_nat n :: u8) AND 0x7f) = (of_nat (n mod 128) :: u64)"
proof -
  assume "n < 256"
  have "(of_nat n :: u8) AND 0x7f = take_bit 7 (of_nat n)" by (simp add: take_bit_eq_mask mask_eq_exp_minus_1)
  also have "\<dots> = of_nat (take_bit 7 n)" by (rule take_bit_of_nat)
  also have "take_bit 7 n = n mod 128" by (simp add: take_bit_eq_mod)
  finally have "(of_nat n :: u8) AND 0x7f = of_nat (n mod 128)" .
  then show ?thesis by (simp add: unsigned_of_nat take_bit_eq_mod)
qed

lemma high_bit: "n < 256 \<Longrightarrow> (of_nat n :: u8) AND 0x80 = 0 \<longleftrightarrow> n < 128"
proof -
  assume n: "n < 256"
  have "(of_nat n :: u8) AND 2 ^ 7 = 0 \<longleftrightarrow> \<not> bit n 7"
    by (simp add: and_exp_eq_0_iff_not_bit bit_of_nat_iff del: power_numeral)
  moreover have "bit n 7 \<longleftrightarrow> odd (n div 128)" by (simp add: bit_iff_odd)
  moreover have "n div 128 = 0 \<or> n div 128 = 1" using n by linarith
  moreover have "n div 128 = 0 \<longleftrightarrow> n < 128" by (simp add: div_eq_0_iff)
  ultimately show ?thesis by auto
qed

lemma varint_at_put:
  assumes "unat v < 2 ^ (7 * k)" "unat v + n * 2 ^ (7 * k) < 2 ^ 64" "k < 10"
  shows "varint_at (map ((*) 7) [k..<10]) v (put_varint n @ rest) =
    Some (of_nat (unat v + n * 2 ^ (7 * k)), rest)"
  using assms
proof (induction n arbitrary: v k rule: put_varint.induct)
  case (1 n)
  have shifts: "map ((*) 7) [k..<10] = 7 * k # map ((*) 7) [Suc k..<10]"
    using 1(4) by (simp add: upt_conv_Cons)
  show ?case
  proof (cases "n < 128")
    case True
    then show ?thesis using 1(2,3) unfolding shifts
      by (subst put_varint.simps) (simp add: low_bits high_bit or_push_bit_u64)
  next
    case False
    define m where "m = n mod 128"
    define q where "q = n div 128"
    have n: "n = 128 * q + m" "m < 128" "0 < q" using False by (auto simp: m_def q_def div_greater_zero_iff)
    define v' where "v' = v OR push_bit (7 * k) (of_nat m :: u64)"
    have pow: "(2::nat) ^ (7 * Suc k) = 128 * 2 ^ (7 * k)" by (simp add: power_add)
    have sum: "unat v + m * 2 ^ (7 * k) + q * 2 ^ (7 * Suc k) = unat v + n * 2 ^ (7 * k)"
      unfolding pow n(1) by (simp add: algebra_simps)
    then have lt: "unat v + m * 2 ^ (7 * k) < 2 ^ 64" using 1(3) by linarith
    then have "v' = of_nat (unat v + m * 2 ^ (7 * k))"
      unfolding v'_def using 1(2) by (intro or_push_bit_u64)
    then have v': "unat v' = unat v + m * 2 ^ (7 * k)" using lt by (simp only: unat_of_nat_u64)
    have "m * 2 ^ (7 * k) \<le> 127 * 2 ^ (7 * k)" using n(2) by (intro mult_le_mono1) simp
    with 1(2) v' have small: "unat v' < 2 ^ (7 * Suc k)" unfolding pow by linarith
    have k: "Suc k < 10"
    proof (rule ccontr)
      assume "\<not> Suc k < 10"
      with 1(4) have "k = 9" by simp
      moreover have "2 * 2 ^ (7 * k) \<le> n * 2 ^ (7 * k)" using n by (intro mult_right_mono) auto
      ultimately show False using 1(3) by simp
    qed
    have "put_varint n = of_nat (128 + m) # put_varint q"
      using False by (subst put_varint.simps) (simp add: m_def q_def)
    moreover have "(128 + m) mod 128 = m" using n(2) by simp
    ultimately have "varint_at (map ((*) 7) [k..<10]) v (put_varint n @ rest) =
        varint_at (map ((*) 7) [Suc k..<10]) v' (put_varint q @ rest)"
      using n(2) high_bit [of "128 + m"] low_bits [of "128 + m"] unfolding shifts
      by (simp add: v'_def)
    also have "\<dots> = Some (of_nat (unat v' + q * 2 ^ (7 * Suc k)), rest)"
      using 1(1) [OF False small _ k] 1(3) sum v' by (simp add: q_def)
    finally show ?thesis by (simp only: v' sum)
  qed
qed

lemma varint_put: "n < 2 ^ 64 \<Longrightarrow> varint (put_varint n @ rest) = Some (of_nat n, rest)"
  using varint_at_put [of 0 0 n rest] by (simp add: varint_def upt_rec)

section \<open>The header walk against the encoded message\<close>

text \<open>A message as the protobuf encoding has it: numbered fields of the four wire types.\<close>

datatype wire_value = VarintV nat | Fixed64 bytes | LenV bytes | Fixed32 bytes

type_synonym wire_field = "nat \<times> wire_value"

fun wire_type :: "wire_value \<Rightarrow> nat" where
  "wire_type (VarintV _) = 0"
| "wire_type (Fixed64 _) = 1"
| "wire_type (LenV _) = 2"
| "wire_type (Fixed32 _) = 5"

fun put_value :: "wire_value \<Rightarrow> bytes" where
  "put_value (VarintV n) = put_varint n"
| "put_value (Fixed64 b) = b"
| "put_value (LenV b) = put_varint (length b) @ b"
| "put_value (Fixed32 b) = b"

definition put_field :: "wire_field \<Rightarrow> bytes" where
  "put_field f = put_varint (8 * fst f + wire_type (snd f)) @ put_value (snd f)"

fun value_ok :: "wire_value \<Rightarrow> bool" where
  "value_ok (VarintV n) \<longleftrightarrow> n < 2 ^ 64"
| "value_ok (Fixed64 b) \<longleftrightarrow> length b = 8"
| "value_ok (LenV b) \<longleftrightarrow> length b < 2 ^ 64"
| "value_ok (Fixed32 b) \<longleftrightarrow> length b = 4"

definition field_ok :: "wire_field \<Rightarrow> bool" where
  "field_ok f \<longleftrightarrow> fst f < 2 ^ 61 \<and> value_ok (snd f)"

text \<open>A protobuf decoder keeps the last occurrence of each scalar field.\<close>

definition varint_heights :: "wire_field list \<Rightarrow> nat list" where
  "varint_heights fs = [n. (i, VarintV n) \<leftarrow> fs, i = 2]"

definition blobs :: "nat \<Rightarrow> wire_field list \<Rightarrow> bytes list" where
  "blobs i fs = [b. (j, LenV b) \<leftarrow> fs, j = i]"

definition last_opt :: "'a list \<Rightarrow> 'a option" where
  "last_opt xs = (if xs = [] then None else Some (last xs))"

text \<open>One field, walked.\<close>

fun see_field :: "head_fields \<Rightarrow> wire_field \<Rightarrow> head_fields option" where
  "see_field acc (i, VarintV n) = Some (if i = 2 then acc\<lparr>f_height := Some (of_nat n)\<rparr> else acc)"
| "see_field acc (i, LenV b) =
     (if i = 3 then (if length b = 32 then Some (acc\<lparr>f_hash := Some b\<rparr>) else None)
      else if i = 4 then (if length b = 32 then Some (acc\<lparr>f_prev := Some b\<rparr>) else None)
      else Some acc)"
| "see_field acc (i, Fixed64 b) = Some acc"
| "see_field acc (i, Fixed32 b) = Some acc"

lemma delimited_put: "length b < 2 ^ 64 \<Longrightarrow> delimited (put_varint (length b) @ b @ rest) = Some (b, rest)"
  by (simp add: delimited_def varint_put unat_of_nat)

lemma key_parts:
  assumes "i < 2 ^ 61" "t < 8"
  shows "drop_bit 3 (of_nat (8 * i + t) :: u64) = of_nat i" "(of_nat (8 * i + t) :: u64) AND 7 = of_nat t"
proof -
  define x where "x = 8 * i + t"
  have "unat (of_nat x :: u64) = x" using assms by (intro unat_of_nat_u64) (simp add: x_def)
  moreover have "unat (drop_bit 3 (of_nat x :: u64)) = drop_bit 3 (unat (of_nat x :: u64))"
    by (simp only: unsigned_drop_bit_eq take_bit_nat_eq_self [OF unsigned_less])
  ultimately have "unat (drop_bit 3 (of_nat (8 * i + t) :: u64)) = (8 * i + t) div 8"
    by (simp add: drop_bit_eq_div x_def [symmetric])
  also have "\<dots> = i" using assms by simp
  finally show "drop_bit 3 (of_nat (8 * i + t) :: u64) = of_nat i" by (metis of_nat_unat ucast_id)
  have "(of_nat (8 * i + t) :: u64) AND 7 = take_bit 3 (of_nat (8 * i + t))"
    by (simp add: take_bit_eq_mask mask_eq_exp_minus_1)
  also have "\<dots> = of_nat (take_bit 3 (8 * i + t))" by (rule take_bit_of_nat)
  also have "take_bit 3 (8 * i + t) = (8 * i + t) mod 8" by (simp add: take_bit_eq_mod)
  finally show "(of_nat (8 * i + t) :: u64) AND 7 = of_nat t" using assms by simp
qed

lemma of_nat_field_eq:
  "i < 2 ^ 61 \<Longrightarrow> (of_nat i :: u64) = 2 \<longleftrightarrow> i = 2"
  "i < 2 ^ 61 \<Longrightarrow> (of_nat i :: u64) = 3 \<longleftrightarrow> i = 3"
  "i < 2 ^ 61 \<Longrightarrow> (of_nat i :: u64) = 4 \<longleftrightarrow> i = 4"
  by (simp_all add: word_unat_eq_iff unat_of_nat)

lemma walk_put_field:
  assumes "field_ok (i, v)"
  shows "walk_field acc (put_field (i, v) @ rest) = map_option (\<lambda>a. (a, rest)) (see_field acc (i, v))"
proof -
  from assms have i: "i < 2 ^ 61" and v: "value_ok v" by (simp_all add: field_ok_def)
  have t: "wire_type v < 8" by (cases v) simp_all
  have "8 * i + wire_type v < 2 ^ 64" using i t by simp
  from varint_put [OF this, of "put_value v @ rest"]
  have key: "varint (put_field (i, v) @ rest) = Some (of_nat (8 * i + wire_type v), put_value v @ rest)"
    by (simp only: put_field_def fst_conv snd_conv append_assoc)
  note parts = key_parts [OF i t]
  define key where "key = (of_nat (8 * i + wire_type v) :: u64)"
  note walk = walk_field_def key [folded key_def] parts [folded key_def] of_nat_field_eq [OF i]
  show ?thesis
  proof (cases v)
    case (VarintV n)
    with v show ?thesis using walk by (simp add: varint_put)
  next
    case (LenV b)
    with v show ?thesis using walk by (simp add: delimited_put)
  qed (use v walk in simp_all)
qed

lemma put_varint_Nil [simp]: "put_varint n \<noteq> []"
  by (subst put_varint.simps) simp

lemma put_field_Nil [simp]: "put_field f \<noteq> []"
  by (simp add: put_field_def)

fun see_fields :: "head_fields \<Rightarrow> wire_field list \<Rightarrow> head_fields option" where
  "see_fields acc [] = Some acc"
| "see_fields acc (f # fs) = (case see_field acc f of None \<Rightarrow> None | Some acc' \<Rightarrow> see_fields acc' fs)"

lemma walk_put_fields:
  "\<forall>f \<in> set fs. field_ok f \<Longrightarrow> walk_fields acc (concat (map put_field fs)) = see_fields acc fs"
proof (induction fs arbitrary: acc)
  case Nil
  show ?case by (simp add: walk_fields.simps)
next
  case (Cons f fs)
  obtain i v where f: "f = (i, v)" by (cases f)
  with Cons have "walk_field acc (put_field f @ concat (map put_field fs)) =
      map_option (\<lambda>a. (a, concat (map put_field fs))) (see_field acc f)"
    by (simp add: walk_put_field)
  with Cons show ?case
    by (simp add: walk_fields.simps [of _ "put_field f @ concat (map put_field fs)"] split: option.splits)
qed

definition hashes_sized :: "wire_field list \<Rightarrow> bool" where
  "hashes_sized fs \<longleftrightarrow> (\<forall>b \<in> set (blobs 3 fs) \<union> set (blobs 4 fs). length b = 32)"

definition or_else :: "'a option \<Rightarrow> 'a option \<Rightarrow> 'a option" where
  "or_else a b = (case a of None \<Rightarrow> b | Some _ \<Rightarrow> a)"

lemma last_opt_Cons: "last_opt (x # xs) = or_else (last_opt xs) (Some x)"
  by (simp add: last_opt_def or_else_def)

lemma or_else_simps [simp]: "or_else None b = b" "or_else (Some x) b = Some x" "or_else a None = a"
  "or_else (or_else a b) c = or_else a (or_else b c)"
  by (simp_all add: or_else_def split: option.splits)

lemma head_lists_simps [simp]:
  "varint_heights [] = []" "blobs i [] = []"
  "varint_heights ((i, VarintV n) # fs) = (if i = 2 then n # varint_heights fs else varint_heights fs)"
  "varint_heights ((i, LenV b) # fs) = varint_heights fs"
  "varint_heights ((i, Fixed64 b) # fs) = varint_heights fs" "varint_heights ((i, Fixed32 b) # fs) = varint_heights fs"
  "blobs j ((i, LenV b) # fs) = (if i = j then b # blobs j fs else blobs j fs)"
  "blobs j ((i, VarintV n) # fs) = blobs j fs"
  "blobs j ((i, Fixed64 b) # fs) = blobs j fs" "blobs j ((i, Fixed32 b) # fs) = blobs j fs"
  by (simp_all add: varint_heights_def blobs_def)

lemma see_fields_last:
  "see_fields acc fs =
     (if hashes_sized fs
      then Some \<lparr>f_height = or_else (map_option of_nat (last_opt (varint_heights fs))) (f_height acc),
                 f_hash = or_else (last_opt (blobs 3 fs)) (f_hash acc),
                 f_prev = or_else (last_opt (blobs 4 fs)) (f_prev acc)\<rparr>
      else None)"
proof (induction fs arbitrary: acc)
  case Nil
  show ?case by (simp add: hashes_sized_def last_opt_def)
next
  case (Cons f fs)
  obtain i v where f: "f = (i, v)" by (cases f)
  show ?case
  proof (cases v)
    case (VarintV n)
    have "or_else (map_option of_nat (or_else x (Some n))) y = or_else (map_option of_nat x) (Some (of_nat n :: u64))" for x y
      by (cases x) simp_all
    with VarintV f Cons show ?thesis by (simp add: hashes_sized_def last_opt_Cons)
  next
    case (LenV b)
    have "i = 3 \<or> i = 4 \<or> (i \<noteq> 3 \<and> i \<noteq> 4)" by blast
    with LenV f Cons show ?thesis by (elim disjE) (auto simp: hashes_sized_def last_opt_Cons)
  qed (use f Cons in \<open>simp_all add: hashes_sized_def\<close>)
qed

text \<open>
  The header walk reads an encoded compact block as a protobuf decoder does: the last
  height, hash and previous hash among its fields, whatever other fields of the four wire types
  surround them; it refuses a hash that is not 32 bytes and a message missing one of the three.\<close>

theorem block_head_decodes:
  assumes "\<forall>f \<in> set fs. field_ok f"
  shows "block_head (concat (map put_field fs)) =
    (if hashes_sized fs \<and> varint_heights fs \<noteq> [] \<and> blobs 3 fs \<noteq> [] \<and> blobs 4 fs \<noteq> []
     then Some \<lparr>head_height = of_nat (last (varint_heights fs)), head_hash = last (blobs 3 fs),
                head_prev_hash = last (blobs 4 fs)\<rparr>
     else None)"
  by (simp add: block_head_def walk_put_fields [OF assms] see_fields_last last_opt_def)

theorem block_head_decodes_witness:
  "block_head (concat (map put_field
      [(1, VarintV 5), (2, VarintV 300), (9, Fixed64 (replicate 8 1)), (3, LenV (replicate 32 7)), (4, LenV (replicate 32 8)),
       (7, LenV [1, 2]), (2, VarintV 301)])) =
   Some \<lparr>head_height = 301, head_hash = replicate 32 7, head_prev_hash = replicate 32 8\<rparr>"
proof -
  have "\<forall>f \<in> set [(1, VarintV 5), (2, VarintV 300), (9, Fixed64 (replicate 8 1)), (3, LenV (replicate 32 7)), (4, LenV (replicate 32 8)),
       (7, LenV [1, 2]), (2, VarintV 301)]. field_ok f"
    by (simp add: field_ok_def)
  from block_head_decodes [OF this] show ?thesis by (simp add: hashes_sized_def)
qed

end
