(* ===== verification/Load_Oracle.thy ===== *)
theory Load_Oracle
  imports Load_Wire
begin

text \<open>
  The block oracle of the load tests (\<open>src/src/loadtest/oracle.rs\<close>): every streamed response
  is held to the chain-link rules, to the range that was asked for, and, below a declared
  height, to what any connection saw at that height before. The messages are the protobuf
  records of \<open>src/src/proto/generated.rs\<close>; \<open>hex\<close>, the encoder of an external crate, only
  renders details and is an argument.
\<close>

section \<open>Compact blocks\<close>

record proto_metadata =
  sapling_commitment_tree_size :: u32
  orchard_commitment_tree_size :: u32
  ironwood_commitment_tree_size :: u32

record compact_sapling_spend =
  nf :: bytes

record compact_sapling_output =
  out_cmu :: bytes
  out_ephemeral_key :: bytes
  out_ciphertext :: bytes

record compact_orchard_action =
  act_nullifier :: bytes
  act_cmx :: bytes
  act_ephemeral_key :: bytes
  act_ciphertext :: bytes

record compact_tx_in =
  prevout_txid :: bytes
  prevout_index :: u32

record tx_out =
  out_value :: u64
  script_pub_key :: bytes

record proto_tx =
  tx_index :: u64
  tx_txid :: bytes
  tx_fee :: u32
  tx_spends :: "compact_sapling_spend list"
  tx_outputs :: "compact_sapling_output list"
  tx_actions :: "compact_orchard_action list"
  tx_ironwood_actions :: "compact_orchard_action list"
  tx_vin :: "compact_tx_in list"
  tx_vout :: "tx_out list"

record proto_block =
  cb_height :: u64
  cb_hash :: bytes
  cb_prev_hash :: bytes
  cb_time :: u32
  cb_header :: bytes
  cb_vtx :: "proto_tx list"
  cb_chain_metadata :: "proto_metadata option"

definition copy_hash :: "bytes \<Rightarrow> bytes option" where
  "copy_hash bs = (if length bs = 32 then Some bs else None)"

section \<open>Violations and the oracle\<close>

record oracle_violation =
  v_height :: u64
  v_field :: string
  v_detail :: string

definition show_violation :: "oracle_violation \<Rightarrow> string" where
  "show_violation v = ''height '' @ show_u64 (v_height v) @ '' ['' @ v_field v @ '']: '' @ v_detail v"

record block_oracle =
  stable_below :: "u64 option"
  seen :: "u64 \<rightharpoonup> bytes"

definition GENESIS_PREV :: bytes where
  "GENESIS_PREV = replicate 32 0"

definition new_oracle :: block_oracle where
  "new_oracle = \<lparr>stable_below = None, seen = Map.empty\<rparr>"

definition hold_stable :: "block_oracle \<Rightarrow> u64 \<Rightarrow> block_oracle" where
  "hold_stable orc height = orc\<lparr>stable_below := Some height\<rparr>"

text \<open>Chain links, in stream order: \<open>prev\<close> is the hash the next block must name.\<close>

fun check_links :: "(bytes \<Rightarrow> string) \<Rightarrow> bytes option \<Rightarrow> u64 option \<Rightarrow> proto_block list \<Rightarrow> oracle_violation list" where
  "check_links hex prev latest [] = []"
| "check_links hex prev latest (b # bs) =
     (let height = cb_height b;
          order = (case latest of
                     Some l \<Rightarrow> if height \<le> l
                       then [\<lparr>v_height = height, v_field = ''order'',
                              v_detail = ''height '' @ show_u64 height @ '' is not strictly after '' @ show_u64 l\<rparr>]
                       else []
                   | None \<Rightarrow> [])
      in order @
         (case copy_hash (cb_hash b) of
            None \<Rightarrow> \<lparr>v_height = height, v_field = ''hash'',
                      v_detail = ''hash is '' @ show_nat (length (cb_hash b)) @ '' bytes, expected 32''\<rparr>
                    # check_links hex None (Some height) bs
          | Some hash \<Rightarrow>
              (case copy_hash (cb_prev_hash b) of
                 None \<Rightarrow> \<lparr>v_height = height, v_field = ''prev_hash'',
                           v_detail = ''prev_hash is '' @ show_nat (length (cb_prev_hash b)) @ '' bytes, expected 32''\<rparr>
                         # check_links hex None (Some height) bs
               | Some pr \<Rightarrow>
                   (if height = 0 \<and> pr \<noteq> GENESIS_PREV
                    then [\<lparr>v_height = height, v_field = ''prev_hash'',
                           v_detail = ''genesis block must have all-zero prev_hash''\<rparr>]
                    else []) @
                   (case prev of
                      Some expected \<Rightarrow>
                        if pr \<noteq> expected
                        then [\<lparr>v_height = height, v_field = ''prev_hash'',
                               v_detail = ''prev_hash '' @ hex pr @ '' does not link to prior block hash '' @ hex expected\<rparr>]
                        else []
                    | None \<Rightarrow> []) @
                   check_links hex (Some hash) (Some height) bs)))"

text \<open>
  The requested range against the heights served. \<open>end.saturating_sub(start) + 1\<close> overflows
  only for the whole range of \<open>u64\<close>; that panic is \<open>None\<close>.
\<close>

definition requested :: "u64 \<Rightarrow> u64 \<Rightarrow> u64 list" where
  "requested start end = map of_nat [unat start..<Suc (unat end)]"

definition check_complete :: "u64 \<Rightarrow> u64 \<Rightarrow> proto_block list \<Rightarrow> oracle_violation list option" where
  "check_complete start end blocks =
     (let served = sort (remdups (map cb_height blocks));
          unexpected = (case List.find (\<lambda>h. h < start \<or> end < h) served of
             None \<Rightarrow> []
           | Some extra \<Rightarrow> [\<lparr>v_height = extra, v_field = ''unexpected'',
               v_detail = ''height '' @ show_u64 extra @ '' is outside the requested range ''
                          @ show_u64 start @ ''..='' @ show_u64 end\<rparr>])
      in case List.find (\<lambda>h. h \<notin> set served) (requested start end) of
           None \<Rightarrow> Some unexpected
         | Some missing \<Rightarrow>
             (case chk_add (sat_sub end start) 1 of
                None \<Rightarrow> None
              | Some want \<Rightarrow> Some (\<lparr>v_height = missing, v_field = ''missing'',
                  v_detail = ''range '' @ show_u64 start @ ''..='' @ show_u64 end @ '' requested ''
                    @ show_u64 want @ '' block(s), served '' @ show_nat (length blocks)
                    @ ''; first missing at '' @ show_u64 missing\<rparr> # unexpected)))"

text \<open>History below the ceiling: the first hash of a height is kept and held.\<close>

fun check_seen ::
  "(bytes \<Rightarrow> string) \<Rightarrow> u64 \<Rightarrow> (u64 \<rightharpoonup> bytes) \<Rightarrow> proto_block list \<Rightarrow> (u64 \<rightharpoonup> bytes) \<times> oracle_violation list" where
  "check_seen hex ceil sn [] = (sn, [])"
| "check_seen hex ceil sn (b # bs) =
     (case copy_hash (cb_hash b) of
        None \<Rightarrow> check_seen hex ceil sn bs
      | Some hash \<Rightarrow>
          (case sn (cb_height b) of
             None \<Rightarrow> check_seen hex ceil (sn(cb_height b \<mapsto> hash)) bs
           | Some prior \<Rightarrow>
               (case check_seen hex ceil sn bs of (sn', vs) \<Rightarrow>
                  (sn',
                   (if prior \<noteq> hash \<and> cb_height b < ceil
                    then [\<lparr>v_height = cb_height b, v_field = ''hash'',
                           v_detail = ''settled history changed: was '' @ hex prior @ '', now '' @ hex hash
                             @ '' (stable below '' @ show_u64 ceil @ '')''\<rparr>]
                    else []) @ vs))))"

definition check_stable ::
  "(bytes \<Rightarrow> string) \<Rightarrow> block_oracle \<Rightarrow> proto_block list \<Rightarrow> block_oracle \<times> oracle_violation list" where
  "check_stable hex orc blocks =
     (case stable_below orc of
        None \<Rightarrow> (orc, [])
      | Some ceil \<Rightarrow> (case check_seen hex ceil (seen orc) blocks of (seen', vs) \<Rightarrow> (orc\<lparr>seen := seen'\<rparr>, vs)))"

definition observe_blocks ::
  "(bytes \<Rightarrow> string) \<Rightarrow> block_oracle \<Rightarrow> u64 \<Rightarrow> u64 \<Rightarrow> proto_block list \<Rightarrow> (block_oracle \<times> oracle_violation list) option" where
  "observe_blocks hex orc start end blocks =
     (case check_complete start end blocks of
        None \<Rightarrow> None
      | Some complete \<Rightarrow>
          (case check_stable hex orc blocks of (orc', changed) \<Rightarrow>
             Some (orc', check_links hex None None blocks @ complete @ changed)))"

section \<open>What a silent oracle means\<close>

text \<open>The specification: a response is the requested piece of one chain.\<close>

definition chain_piece :: "u64 \<Rightarrow> u64 \<Rightarrow> proto_block list \<Rightarrow> bool" where
  "chain_piece start end bs \<longleftrightarrow>
     map cb_height bs = requested start end \<and>
     (\<forall>b \<in> set bs. length (cb_hash b) = 32 \<and> length (cb_prev_hash b) = 32) \<and>
     (\<forall>b \<in> set bs. cb_height b = 0 \<longrightarrow> cb_prev_hash b = GENESIS_PREV) \<and>
     successively (\<lambda>a b. cb_prev_hash b = cb_hash a) bs"

definition first_after :: "u64 option \<Rightarrow> proto_block list \<Rightarrow> bool" where
  "first_after latest bs \<longleftrightarrow> (case latest of None \<Rightarrow> True | Some l \<Rightarrow> bs = [] \<or> l < cb_height (hd bs))"

definition first_links :: "bytes option \<Rightarrow> proto_block list \<Rightarrow> bool" where
  "first_links prev bs \<longleftrightarrow> (case prev of None \<Rightarrow> True | Some p \<Rightarrow> bs = [] \<or> cb_prev_hash (hd bs) = p)"

lemma check_links_silent:
  "check_links hex prev latest bs = [] \<longleftrightarrow>
     (\<forall>b \<in> set bs. length (cb_hash b) = 32 \<and> length (cb_prev_hash b) = 32) \<and>
     (\<forall>b \<in> set bs. cb_height b = 0 \<longrightarrow> cb_prev_hash b = GENESIS_PREV) \<and>
     first_after latest bs \<and> successively (<) (map cb_height bs) \<and>
     first_links prev bs \<and> successively (\<lambda>a b. cb_prev_hash b = cb_hash a) bs"
proof (induction bs arbitrary: prev latest)
  case Nil
  show ?case by (simp add: first_after_def first_links_def split: option.splits)
next
  case (Cons b bs)
  show ?case
  proof (cases "length (cb_hash b) = 32 \<and> length (cb_prev_hash b) = 32")
    case False
    then have "check_links hex prev latest (b # bs) \<noteq> []"
      by (auto simp: Let_def copy_hash_def split: option.splits)
    with False show ?thesis by auto
  next
    case True
    have after: "first_after (Some (cb_height b)) bs \<and> successively (<) (map cb_height bs)
        \<longleftrightarrow> successively (<) (map cb_height (b # bs))"
      by (cases bs) (simp_all add: first_after_def)
    have links: "first_links (Some (cb_hash b)) bs \<and> successively (\<lambda>a b. cb_prev_hash b = cb_hash a) bs
        \<longleftrightarrow> successively (\<lambda>a b. cb_prev_hash b = cb_hash a) (b # bs)"
      by (cases bs) (auto simp: first_links_def)
    have step: "check_links hex prev latest (b # bs) = [] \<longleftrightarrow>
        first_after latest (b # bs) \<and> (cb_height b = 0 \<longrightarrow> cb_prev_hash b = GENESIS_PREV) \<and>
        first_links prev (b # bs) \<and> check_links hex (Some (cb_hash b)) (Some (cb_height b)) bs = []"
      using True by (auto simp: Let_def copy_hash_def first_after_def first_links_def split: option.splits)
    show ?thesis unfolding step Cons.IH using after links True by auto
  qed
qed

lemma set_requested: "set (requested start end) = {start..end}"
proof -
  have "x \<in> set (requested start end) \<longleftrightarrow> x \<in> {start..end}" for x
  proof
    assume "x \<in> set (requested start end)"
    then obtain n where n: "x = of_nat n" "unat start \<le> n" "n \<le> unat end" by (auto simp: requested_def)
    moreover have "n < 2 ^ 64" using n(3) unat_lt_pow [of "end"] by simp
    ultimately show "x \<in> {start..end}" by (simp add: word_le_nat_alt unat_of_nat)
  next
    assume "x \<in> {start..end}"
    then have "unat start \<le> unat x" "unat x \<le> unat end" by (simp_all add: word_le_nat_alt)
    moreover have "x = of_nat (unat x)" by simp
    ultimately show "x \<in> set (requested start end)" unfolding requested_def set_map
      by (intro image_eqI) auto
  qed
  then show ?thesis by blast
qed

lemma sorted_requested: "sorted_wrt (<) (requested start end)"
proof -
  have "\<forall>x \<in> set [unat start..<Suc (unat end)]. \<forall>y \<in> set [unat start..<Suc (unat end)].
      x < y \<longrightarrow> (of_nat x :: u64) < of_nat y"
    using unat_lt_pow [of "end"] by (auto simp: word_less_nat_alt unat_of_nat)
  then show ?thesis unfolding requested_def sorted_wrt_map
    by (intro sorted_wrt_mono_rel [OF _ sorted_wrt_upt]) auto
qed

lemma strict_heights_requested:
  assumes "successively (<) (map cb_height bs)"
  shows "set (map cb_height bs) = {start..end} \<longleftrightarrow> map cb_height bs = requested start end"
proof
  have srt: "sorted_wrt (<) (map cb_height bs)"
    using assms by (simp only: successively_conv_sorted_wrt [OF transp_on_less])
  assume "set (map cb_height bs) = {start..end}"
  then have "set (map cb_height bs) = set (requested start end)" by (simp add: set_requested)
  then show "map cb_height bs = requested start end"
    using srt sorted_requested by (metis strict_sorted_equal)
qed (simp add: set_requested)

lemma check_complete_silent:
  "check_complete start end bs = Some [] \<longleftrightarrow> set (map cb_height bs) = {start..end}"
proof -
  have "check_complete start end bs = Some [] \<longleftrightarrow>
      List.find (\<lambda>h. h \<notin> set (sort (remdups (map cb_height bs)))) (requested start end) = None \<and>
      List.find (\<lambda>h. h < start \<or> end < h) (sort (remdups (map cb_height bs))) = None"
    by (auto simp: check_complete_def Let_def split: option.splits)
  also have "\<dots> \<longleftrightarrow> set (map cb_height bs) = {start..end}"
    unfolding find_None_iff set_requested by (auto simp: not_less)
  finally show ?thesis .
qed

lemma check_seen_silent:
  assumes "\<forall>b \<in> set bs. length (cb_hash b) = 32" "distinct (map cb_height bs)"
  shows "check_seen hex ceil sn bs =
      (\<lambda>h. case sn h of Some x \<Rightarrow> Some x | None \<Rightarrow> map_of (map (\<lambda>b. (cb_height b, cb_hash b)) bs) h,
       snd (check_seen hex ceil sn bs)) \<and>
    (snd (check_seen hex ceil sn bs) = [] \<longleftrightarrow>
      (\<forall>b \<in> set bs. cb_height b < ceil \<longrightarrow> (case sn (cb_height b) of None \<Rightarrow> True | Some x \<Rightarrow> x = cb_hash b)))"
  using assms
proof (induction bs arbitrary: sn)
  case Nil
  show ?case by (auto split: option.splits)
next
  case (Cons b bs)
  have h: "copy_hash (cb_hash b) = Some (cb_hash b)" using Cons(2) by (simp add: copy_hash_def)
  show ?case
  proof (cases "sn (cb_height b)")
    case None
    define sn' where "sn' = sn(cb_height b \<mapsto> cb_hash b)"
    have ne: "c \<in> set bs \<Longrightarrow> cb_height c \<noteq> cb_height b" for c
      using Cons(3) by (metis (no_types, lifting) distinct.simps(2) image_eqI list.simps(9) set_map)
    have same: "c \<in> set bs \<Longrightarrow> sn' (cb_height c) = sn (cb_height c)" for c
      using ne by (simp add: sn'_def)
    have step: "check_seen hex ceil sn (b # bs) = check_seen hex ceil sn' bs"
      using h None by (simp add: sn'_def)
    have fst: "(\<lambda>h. case sn' h of Some x \<Rightarrow> Some x | None \<Rightarrow> map_of (map (\<lambda>b. (cb_height b, cb_hash b)) bs) h)
      = (\<lambda>h. case sn h of Some x \<Rightarrow> Some x | None \<Rightarrow> map_of (map (\<lambda>b. (cb_height b, cb_hash b)) (b # bs)) h)"
      using None by (auto simp: sn'_def fun_eq_iff split: option.splits)
    show ?thesis using Cons(1) [of sn'] Cons(2,3) None same unfolding step fst by simp
  next
    case (Some x)
    obtain s vs where rec: "check_seen hex ceil sn bs = (s, vs)" by fastforce
    have step: "check_seen hex ceil sn (b # bs) =
        (s, (if x \<noteq> cb_hash b \<and> cb_height b < ceil
             then [\<lparr>v_height = cb_height b, v_field = ''hash'',
                    v_detail = ''settled history changed: was '' @ hex x @ '', now '' @ hex (cb_hash b)
                      @ '' (stable below '' @ show_u64 ceil @ '')''\<rparr>] else []) @ vs)"
      using h Some rec by simp
    have fst: "(\<lambda>h. case sn h of Some x \<Rightarrow> Some x | None \<Rightarrow> map_of (map (\<lambda>b. (cb_height b, cb_hash b)) (b # bs)) h)
      = (\<lambda>h. case sn h of Some x \<Rightarrow> Some x | None \<Rightarrow> map_of (map (\<lambda>b. (cb_height b, cb_hash b)) bs) h)"
      using Some by (auto simp: fun_eq_iff split: option.splits)
    show ?thesis using Cons(1) [of sn] Cons(2,3) Some rec unfolding step fst by auto
  qed
qed

definition agrees :: "block_oracle \<Rightarrow> proto_block list \<Rightarrow> bool" where
  "agrees orc bs \<longleftrightarrow> (case stable_below orc of None \<Rightarrow> True | Some ceil \<Rightarrow>
     \<forall>b \<in> set bs. cb_height b < ceil \<longrightarrow>
       (case seen orc (cb_height b) of None \<Rightarrow> True | Some x \<Rightarrow> x = cb_hash b))"

definition note_blocks :: "block_oracle \<Rightarrow> proto_block list \<Rightarrow> block_oracle" where
  "note_blocks orc bs = (case stable_below orc of None \<Rightarrow> orc | Some _ \<Rightarrow>
     orc\<lparr>seen := (\<lambda>h. case seen orc h of Some x \<Rightarrow> Some x
                     | None \<Rightarrow> map_of (map (\<lambda>b. (cb_height b, cb_hash b)) bs) h)\<rparr>)"

lemma requested_distinct: "map cb_height bs = requested start end \<Longrightarrow> distinct (map cb_height bs)"
  using sorted_requested [of start "end"] by (simp add: strict_sorted_iff)

lemma links_complete:
  "check_links hex None None bs = [] \<and> check_complete start end bs = Some [] \<longleftrightarrow> chain_piece start end bs"
proof -
  have "successively (<) (map cb_height bs)" if "map cb_height bs = requested start end"
    using sorted_requested [of start "end"] that by (simp add: successively_if_sorted_wrt)
  moreover have "first_after None bs" "first_links None bs" by (simp_all add: first_after_def first_links_def)
  ultimately show ?thesis
    unfolding check_links_silent check_complete_silent chain_piece_def
    using strict_heights_requested [of bs start "end"] by blast
qed

lemma observe_silent_step:
  "(\<exists>orc'. observe_blocks hex orc start end bs = Some (orc', [])) \<longleftrightarrow> chain_piece start end bs \<and> agrees orc bs"
  "observe_blocks hex orc start end bs = Some (orc', []) \<Longrightarrow> orc' = note_blocks orc bs"
proof -
  have sn: "chain_piece start end bs \<Longrightarrow>
      check_stable hex orc bs = (note_blocks orc bs, snd (check_stable hex orc bs)) \<and>
      (snd (check_stable hex orc bs) = [] \<longleftrightarrow> agrees orc bs)"
  proof -
    assume piece: "chain_piece start end bs"
    then have "\<forall>b \<in> set bs. length (cb_hash b) = 32" "distinct (map cb_height bs)"
      by (simp add: chain_piece_def) (use piece requested_distinct chain_piece_def in blast)
    note fact = check_seen_silent [OF this, of hex _ "seen orc"]
    show ?thesis
    proof (cases "stable_below orc")
      case None
      then show ?thesis by (simp add: check_stable_def note_blocks_def agrees_def)
    next
      case (Some ceil)
      obtain s vs where "check_seen hex ceil (seen orc) bs = (s, vs)" by fastforce
      with fact [of ceil] Some show ?thesis by (simp add: check_stable_def note_blocks_def agrees_def)
    qed
  qed
  have "(\<exists>orc'. observe_blocks hex orc start end bs = Some (orc', [])) \<longleftrightarrow>
      check_links hex None None bs = [] \<and> check_complete start end bs = Some [] \<and> snd (check_stable hex orc bs) = []"
    by (auto simp: observe_blocks_def split: option.splits prod.splits)
  then show "(\<exists>orc'. observe_blocks hex orc start end bs = Some (orc', [])) \<longleftrightarrow> chain_piece start end bs \<and> agrees orc bs"
    using links_complete [of hex bs start "end"] sn by blast
  assume obs: "observe_blocks hex orc start end bs = Some (orc', [])"
  then have "chain_piece start end bs"
    using links_complete [of hex bs start "end"] by (auto simp: observe_blocks_def split: option.splits prod.splits)
  with obs sn show "orc' = note_blocks orc bs" by (auto simp: observe_blocks_def split: option.splits prod.splits)
qed

text \<open>A run: the responses of every connection, in the order the oracle saw them.\<close>

type_synonym range_response = "u64 \<times> u64 \<times> proto_block list"

fun observe_all :: "(bytes \<Rightarrow> string) \<Rightarrow> block_oracle \<Rightarrow> range_response list \<Rightarrow> oracle_violation list option" where
  "observe_all hex orc [] = Some []"
| "observe_all hex orc ((start, end, bs) # rs) =
     (case observe_blocks hex orc start end bs of
        None \<Rightarrow> None
      | Some (orc', vs) \<Rightarrow> map_option ((@) vs) (observe_all hex orc' rs))"

definition served_blocks :: "range_response list \<Rightarrow> proto_block set" where
  "served_blocks rs = (\<Union>(start, end, bs) \<in> set rs. set bs)"

definition history_settled :: "u64 \<Rightarrow> (u64 \<rightharpoonup> bytes) \<Rightarrow> range_response list \<Rightarrow> bool" where
  "history_settled ceil sn rs \<longleftrightarrow>
     (\<forall>b \<in> served_blocks rs. \<forall>c \<in> served_blocks rs.
        cb_height b = cb_height c \<longrightarrow> cb_height b < ceil \<longrightarrow> cb_hash b = cb_hash c) \<and>
     (\<forall>b \<in> served_blocks rs. cb_height b < ceil \<longrightarrow>
        (case sn (cb_height b) of None \<Rightarrow> True | Some x \<Rightarrow> x = cb_hash b))"

lemma served_blocks_Cons [simp]: "served_blocks ((s, e, bs) # rs) = set bs \<union> served_blocks rs"
  by (auto simp: served_blocks_def)

lemma map_of_heights:
  assumes "distinct (map cb_height bs)" "b \<in> set bs"
  shows "map_of (map (\<lambda>b. (cb_height b, cb_hash b)) bs) (cb_height b) = Some (cb_hash b)"
  using assms by (intro map_of_is_SomeI) (auto simp: comp_def)

lemma settled_step:
  assumes "distinct (map cb_height bs)"
  shows "history_settled ceil sn ((start, end, bs) # rs) \<longleftrightarrow>
    (\<forall>b \<in> set bs. cb_height b < ceil \<longrightarrow> (case sn (cb_height b) of None \<Rightarrow> True | Some x \<Rightarrow> x = cb_hash b)) \<and>
    history_settled ceil (\<lambda>h. case sn h of Some x \<Rightarrow> Some x | None \<Rightarrow> map_of (map (\<lambda>b. (cb_height b, cb_hash b)) bs) h) rs"
    (is "?l \<longleftrightarrow> ?now \<and> history_settled ceil ?sn rs")
proof -
  define m where "m = map_of (map (\<lambda>b. (cb_height b, cb_hash b)) bs)"
  have mb: "b \<in> set bs \<Longrightarrow> m (cb_height b) = Some (cb_hash b)" for b
    unfolding m_def by (rule map_of_heights [OF assms])
  have mI: "m h = Some x \<Longrightarrow> \<exists>b \<in> set bs. cb_height b = h \<and> cb_hash b = x" for h x
    unfolding m_def by (auto dest!: map_of_SomeD)
  have uniq: "b \<in> set bs \<Longrightarrow> c \<in> set bs \<Longrightarrow> cb_height b = cb_height c \<Longrightarrow> cb_hash b = cb_hash c" for b c
    using mb [of b] mb [of c] by simp
  define agr where "agr h y \<longleftrightarrow> (case sn h of None \<Rightarrow> True | Some x \<Rightarrow> x = y)" for h y
  have ok: "(case (case sn h of Some x \<Rightarrow> Some x | None \<Rightarrow> m h) of None \<Rightarrow> True | Some x \<Rightarrow> x = y) \<longleftrightarrow>
      agr h y \<and> (sn h = None \<longrightarrow> (\<forall>b \<in> set bs. cb_height b = h \<longrightarrow> cb_hash b = y))" for h y
    using mb mI [of h] by (auto simp: agr_def split: option.splits)
  have agr_uniq: "agr h y \<Longrightarrow> agr h z \<Longrightarrow> sn h \<noteq> None \<Longrightarrow> y = z" for h y z
    by (auto simp: agr_def)
  show ?thesis
    unfolding history_settled_def m_def [symmetric] ok agr_def [symmetric] served_blocks_Cons ball_Un
    using uniq agr_uniq by (intro iffI conjI ballI impI; elim conjE) metis+
qed

lemma observe_all_settled:
  assumes "stable_below orc = Some ceil"
  shows "observe_all hex orc rs = Some [] \<longleftrightarrow>
    list_all (\<lambda>(start, end, bs). chain_piece start end bs) rs \<and> history_settled ceil (seen orc) rs"
  using assms
proof (induction rs arbitrary: orc)
  case Nil
  show ?case by (simp add: history_settled_def served_blocks_def)
next
  case (Cons r rs)
  obtain start "end" bs where r: "r = (start, end, bs)" by (cases r)
  have step: "observe_all hex orc (r # rs) = Some [] \<longleftrightarrow>
      (\<exists>orc'. observe_blocks hex orc start end bs = Some (orc', []) \<and> observe_all hex orc' rs = Some [])"
    by (auto simp: r split: option.splits)
  have "\<dots> \<longleftrightarrow> (\<exists>orc'. observe_blocks hex orc start end bs = Some (orc', [])) \<and>
      observe_all hex (note_blocks orc bs) rs = Some []"
    using observe_silent_step(2) by metis
  also have "\<dots> \<longleftrightarrow> chain_piece start end bs \<and> agrees orc bs \<and> observe_all hex (note_blocks orc bs) rs = Some []"
    by (simp add: observe_silent_step(1))
  also have "\<dots> \<longleftrightarrow> chain_piece start end bs \<and> agrees orc bs \<and>
      list_all (\<lambda>(start, end, bs). chain_piece start end bs) rs \<and> history_settled ceil (seen (note_blocks orc bs)) rs"
    using Cons.IH [of "note_blocks orc bs"] Cons.prems by (simp add: note_blocks_def)
  also have "\<dots> \<longleftrightarrow> chain_piece start end bs \<and>
      list_all (\<lambda>(start, end, bs). chain_piece start end bs) rs \<and> history_settled ceil (seen orc) (r # rs)"
  proof (cases "chain_piece start end bs")
    case True
    then have "distinct (map cb_height bs)" using requested_distinct chain_piece_def by blast
    from settled_step [OF this, of ceil "seen orc" start "end" rs] Cons.prems show ?thesis
      by (auto simp: agrees_def note_blocks_def r)
  qed simp
  finally show ?case using step r by simp
qed

text \<open>
  C26. The oracle stays silent over a whole run exactly when every response is the requested
  piece of a chain (heights exactly the range asked for, 32-byte hashes, each block naming the
  one before it, an all-zero predecessor at genesis) and no height below the ceiling was served
  with two different hashes by any of the responses.\<close>

theorem oracle_silent_exact:
  "observe_all hex (hold_stable new_oracle ceil) rs = Some [] \<longleftrightarrow>
     list_all (\<lambda>(start, end, bs). chain_piece start end bs) rs \<and> history_settled ceil Map.empty rs"
  by (subst observe_all_settled) (simp_all add: hold_stable_def new_oracle_def)

end
