(* ===== verification/Load_Ledger.thy ===== *)
theory Load_Ledger
  imports Load_Oracle Naming
begin

unbundle bit_operations_syntax

text \<open>
  The ledger of the load tests (\<open>src/src/loadtest/ledger.rs\<close>): the consistency tier every
  response passes, the queue into the authority tier, and the totals a report carries. Each
  public call is one step; the counters are \<open>u64\<close> and wrap as \<open>fetch_add\<close> does. The digest
  (blake3) and the bounded channel are inputs: \<open>digest\<close> and \<open>try_send\<close>, where \<open>None\<close> is a
  full or closed channel.
\<close>

section \<open>Data\<close>

datatype audit =
    Shielded u32 bytes
  | FullBlock u32 bytes u32
  | TreeStateAt u32 bytes u32
  | Subtrees string u32 u32 "bytes list"
  | TipAnswer bytes
  | MempoolTx bytes
  | LightdInfoAnswer bytes
  | AddressUtxos string bytes u32

fun audit_check :: "audit \<Rightarrow> string" where
  "audit_check (Shielded _ _) = ''block_shielded''"
| "audit_check (FullBlock _ _ _) = ''block_full''"
| "audit_check (TreeStateAt _ _ _) = ''tree_state''"
| "audit_check (Subtrees _ _ _ _) = ''subtree_roots''"
| "audit_check (TipAnswer _) = ''latest_block''"
| "audit_check (MempoolTx _) = ''mempool_tx''"
| "audit_check (LightdInfoAnswer _) = ''lightd_info''"
| "audit_check (AddressUtxos _ _ _) = ''address_utxos''"

record tallies =
  t_blocks_held :: u64
  t_consistent :: u64
  t_queued :: u64
  t_dropped :: u64
  t_audited :: u64
  t_skipped :: u64
  t_violations :: u64

record 'q ledger =
  lg_stable_below :: u32
  lg_blocks :: "u64 list"
  lg_answers :: "string \<rightharpoonup> u64"
  lg_queued_keys :: "string list"
  lg_audit_every :: u64
  lg_audits :: "'q option"
  lg_violations :: "oracle_violation list"
  lg_consistent :: u64
  lg_held :: u64
  lg_queued :: u64
  lg_dropped :: u64
  lg_audited :: u64
  lg_skipped :: u64
  lg_violated :: u64

definition KEPT :: nat where "KEPT = 64"

section \<open>Sampling\<close>

definition splitmix64 :: "u64 \<Rightarrow> u64" where
  "splitmix64 x =
     (let z = x + 0x9E3779B97F4A7C15;
          z = (z XOR drop_bit 30 z) * 0xBF58476D1CE4E5B9;
          z = (z XOR drop_bit 27 z) * 0x94D049BB133111EB
      in z XOR drop_bit 31 z)"

definition sampled :: "u64 \<Rightarrow> u64 \<Rightarrow> bool" where
  "sampled key every = (if every = 0 then splitmix64 key = 0 else splitmix64 key mod every = 0)"

section \<open>Operations\<close>

definition new_ledger :: "u32 \<Rightarrow> u64 \<Rightarrow> 'q \<Rightarrow> 'q ledger" where
  "new_ledger below every audits =
     \<lparr>lg_stable_below = below, lg_blocks = replicate (unat below) 0, lg_answers = Map.empty,
      lg_queued_keys = [], lg_audit_every = max every 1, lg_audits = Some audits,
      lg_violations = [], lg_consistent = 0, lg_held = 0, lg_queued = 0, lg_dropped = 0,
      lg_audited = 0, lg_skipped = 0, lg_violated = 0\<rparr>"

definition queue_audit :: "('q \<Rightarrow> audit \<Rightarrow> 'q option) \<Rightarrow> audit \<Rightarrow> 'q ledger \<Rightarrow> 'q ledger" where
  "queue_audit try_send a lg =
     (case Option.bind (lg_audits lg) (\<lambda>q. try_send q a) of
        Some q \<Rightarrow> lg\<lparr>lg_audits := Some q, lg_queued := lg_queued lg + 1\<rparr>
      | None \<Rightarrow> lg\<lparr>lg_dropped := lg_dropped lg + 1\<rparr>)"

definition close_ledger :: "'q ledger \<Rightarrow> 'q ledger" where
  "close_ledger lg = lg\<lparr>lg_audits := None\<rparr>"

definition violated :: "string \<Rightarrow> u64 \<Rightarrow> string \<Rightarrow> 'q ledger \<Rightarrow> 'q ledger" where
  "violated check height detail lg =
     lg\<lparr>lg_violated := lg_violated lg + 1,
        lg_violations := (if length (lg_violations lg) < KEPT
          then lg_violations lg @ [\<lparr>v_height = height, v_field = check, v_detail = detail\<rparr>]
          else lg_violations lg)\<rparr>"

definition audited :: "'q ledger \<Rightarrow> 'q ledger" where
  "audited lg = lg\<lparr>lg_audited := lg_audited lg + 1\<rparr>"

definition skipped :: "'q ledger \<Rightarrow> 'q ledger" where
  "skipped lg = lg\<lparr>lg_skipped := lg_skipped lg + 1\<rparr>"

definition tallies_of :: "'q ledger \<Rightarrow> tallies" where
  "tallies_of lg = \<lparr>t_blocks_held = lg_held lg, t_consistent = lg_consistent lg, t_queued = lg_queued lg,
     t_dropped = lg_dropped lg, t_audited = lg_audited lg, t_skipped = lg_skipped lg,
     t_violations = lg_violated lg\<rparr>"

text \<open>The digest a block slot holds: the low 64 bits, never the \<open>0\<close> that marks an empty slot.\<close>

definition slot_digest :: "128 word \<Rightarrow> u64" where
  "slot_digest d = max (ucast d) 1"

definition shielded_block ::
  "('q \<Rightarrow> audit \<Rightarrow> 'q option) \<Rightarrow> (bytes \<Rightarrow> 128 word) \<Rightarrow> u32 \<Rightarrow> bytes \<Rightarrow> 'q ledger \<Rightarrow> 'q ledger" where
  "shielded_block try_send digest height msg lg =
     (if length (lg_blocks lg) \<le> unat height then lg
      else (let now = slot_digest (digest msg); held = lg_blocks lg ! unat height in
            if held = 0 then
              (let lg = lg\<lparr>lg_blocks := (lg_blocks lg)[unat height := now], lg_held := lg_held lg + 1\<rparr> in
               if sampled (ucast height) (lg_audit_every lg)
               then queue_audit try_send (Shielded height msg) lg else lg)
            else if held = now then lg\<lparr>lg_consistent := lg_consistent lg + 1\<rparr>
            else violated ''block_consistent'' (ucast height)
                   ''default-pools bytes differ from this height's first answer'' lg))"

text \<open>\<open>{:x}\<close>: lower-case hexadecimal without leading zeros.\<close>

fun show_hex :: "nat \<Rightarrow> string" where
  "show_hex n = (if n < 16 then [hex_digit n] else show_hex (n div 16) @ [hex_digit (n mod 16)])"

declare show_hex.simps [simp del]

definition queue_first :: "('q \<Rightarrow> audit \<Rightarrow> 'q option) \<Rightarrow> string \<Rightarrow> audit \<Rightarrow> 'q ledger \<Rightarrow> 'q ledger" where
  "queue_first try_send key a lg =
     (if key \<in> set (lg_queued_keys lg) then lg
      else queue_audit try_send a (lg\<lparr>lg_queued_keys := key # lg_queued_keys lg\<rparr>))"

definition answer ::
  "('q \<Rightarrow> audit \<Rightarrow> 'q option) \<Rightarrow> string \<Rightarrow> 128 word \<Rightarrow> bool \<Rightarrow> audit \<Rightarrow> 'q ledger \<Rightarrow> 'q ledger" where
  "answer try_send key message_digest stable_now a lg =
     (let now = ucast message_digest :: u64 in
      case lg_answers lg key of
        Some held \<Rightarrow>
          if held = now then lg\<lparr>lg_consistent := lg_consistent lg + 1\<rparr>
          else if stable_now then violated ''answer_consistent'' 0 (key @ '': bytes differ from its first answer'') lg
          else queue_first try_send (key @ ''#'' @ show_hex (unat now)) a
                 (lg\<lparr>lg_answers := (lg_answers lg)(key \<mapsto> now)\<rparr>)
      | None \<Rightarrow> queue_first try_send key a (lg\<lparr>lg_answers := (lg_answers lg)(key \<mapsto> now)\<rparr>))"

section \<open>The sampling hash is a bijection\<close>

lemma xor_zero_iff: "a XOR b = 0 \<longleftrightarrow> a = b" for a b :: u64
  by (auto simp: bit_eq_iff bit_xor_iff)

lemma xor_shift_inj:
  fixes z w :: u64
  assumes "0 < k" "z XOR drop_bit k z = w XOR drop_bit k w"
  shows "z = w"
proof -
  define d where "d = z XOR w"
  have "d XOR drop_bit k d = (z XOR drop_bit k z) XOR (w XOR drop_bit k w)"
    by (simp add: d_def drop_bit_xor ac_simps)
  then have shift: "drop_bit k d = d" using assms(2) by (simp add: xor_zero_iff)
  have "drop_bit (n * k) d = d" for n
  proof (induction n)
    case (Suc n)
    have "drop_bit (Suc n * k) d = drop_bit (n * k) (drop_bit k d)"
      by (simp add: drop_bit_drop_bit add.commute)
    with Suc show ?case by (simp only: shift)
  qed simp
  then have "d = drop_bit (64 * k) d" by simp
  moreover have "drop_bit (64 * k) d = 0"
    using assms(1) by (intro bit_word_eqI) (auto simp: bit_drop_bit_eq dest: bit_imp_le_length)
  ultimately have "d = 0" by (rule trans)
  then show ?thesis by (simp add: d_def xor_zero_iff)
qed

lemma odd_mul_inj:
  fixes x y c c' :: u64
  assumes "c * c' = 1" "x * c = y * c"
  shows "x = y"
proof -
  have "x * c * c' = y * c * c'" using assms(2) by (rule arg_cong)
  then show ?thesis by (simp only: mult.assoc assms(1) mult_1_right)
qed

lemma splitmix64_step_inj:
  "(x XOR drop_bit 30 x) * 0xBF58476D1CE4E5B9 = (y XOR drop_bit 30 y) * 0xBF58476D1CE4E5B9 \<Longrightarrow> x = y"
  "(x XOR drop_bit 27 x) * 0x94D049BB133111EB = (y XOR drop_bit 27 y) * 0x94D049BB133111EB \<Longrightarrow> x = y"
  for x y :: u64
proof -
  have "(0xBF58476D1CE4E5B9 :: u64) * 0x96de1b173f119089 = 1" by simp
  from odd_mul_inj [OF this] xor_shift_inj [of 30]
  show "(x XOR drop_bit 30 x) * 0xBF58476D1CE4E5B9 = (y XOR drop_bit 30 y) * 0xBF58476D1CE4E5B9 \<Longrightarrow> x = y"
    by (metis zero_less_numeral)
  have "(0x94D049BB133111EB :: u64) * 0x319642b2d24d8ec3 = 1" by simp
  from odd_mul_inj [OF this] xor_shift_inj [of 27]
  show "(x XOR drop_bit 27 x) * 0x94D049BB133111EB = (y XOR drop_bit 27 y) * 0x94D049BB133111EB \<Longrightarrow> x = y"
    by (metis zero_less_numeral)
qed

lemma splitmix64_inj: "splitmix64 x = splitmix64 y \<Longrightarrow> x = y"
  unfolding splitmix64_def Let_def
  by (drule xor_shift_inj [rotated], simp, drule splitmix64_step_inj(2), drule splitmix64_step_inj(1), simp)

lemma splitmix64_bij: "bij splitmix64"
proof -
  have "inj splitmix64" by (rule injI) (rule splitmix64_inj)
  moreover from this have "surj splitmix64" by (rule finite_UNIV_inj_surj [rotated]) simp
  ultimately show ?thesis by (rule bijI)
qed

lemma card_multiples:
  fixes every :: u64
  assumes "every \<noteq> 0"
  shows "card {z. z mod every = 0} = (2 ^ 64 - 1) div unat every + 1"
proof -
  define e where "e = unat every"
  have e: "0 < e" using assms by (simp add: e_def unat_gt_0)
  define ms where "ms = (\<lambda>i. of_nat (i * e) :: u64) ` {..(2 ^ 64 - 1) div e}"
  have small: "i * e < 2 ^ 64" if "i \<le> (2 ^ 64 - 1) div e" for i
  proof -
    have "i * e \<le> 2 ^ 64 - 1" using that e by (simp add: less_eq_div_iff_mult_less_eq)
    then show ?thesis by simp
  qed
  have "inj_on (\<lambda>i. of_nat (i * e) :: u64) {..(2 ^ 64 - 1) div e}"
  proof (rule inj_onI)
    fix i j assume "i \<in> {..(2 ^ 64 - 1) div e}" "j \<in> {..(2 ^ 64 - 1) div e}"
      and eq: "(of_nat (i * e) :: u64) = of_nat (j * e)"
    then have lt: "i * e < 2 ^ 64" "j * e < 2 ^ 64" by (simp_all only: small atMost_iff)
    from eq have "unat (of_nat (i * e) :: u64) = unat (of_nat (j * e) :: u64)" by (rule arg_cong)
    then have "i * e = j * e" using lt by (simp only: unat_of_nat_u64)
    then show "i = j" using e by simp
  qed
  then have "card ms = (2 ^ 64 - 1) div e + 1" unfolding ms_def by (subst card_image) simp_all
  moreover have "{z. z mod every = 0} = ms"
  proof (rule set_eqI)
    fix z :: u64
    have "z mod every = 0 \<longleftrightarrow> unat z mod e = 0" by (simp add: word_unat_eq_iff unat_mod e_def)
    also have "\<dots> \<longleftrightarrow> z \<in> ms"
    proof
      assume "unat z mod e = 0"
      then have z: "unat z = unat z div e * e" by (metis mod_0_imp_dvd dvd_div_mult_self)
      then have "z = of_nat (unat z div e * e)" by (metis of_nat_unat ucast_id)
      moreover have "unat z div e \<le> (2 ^ 64 - 1) div e"
        using unat_lt_pow [of z] by (intro div_le_mono) simp
      ultimately show "z \<in> ms" unfolding ms_def by blast
    next
      assume "z \<in> ms"
      then obtain i where i: "z = of_nat (i * e)" "i \<le> (2 ^ 64 - 1) div e" by (auto simp: ms_def)
      then have "unat z = i * e" using small by (simp only: unat_of_nat_u64)
      then show "unat z mod e = 0" by simp
    qed
    finally show "z \<in> {z. z mod every = 0} \<longleftrightarrow> z \<in> ms" by simp
  qed
  ultimately show ?thesis by (simp add: e_def)
qed

text \<open>
  Sampling is fair over the key space: the hash is a bijection of the 64-bit keys, so
  \<open>sampled\<close> picks exactly the share of the keys that a multiple of \<open>every\<close> has, one in
  \<open>every\<close> up to rounding.\<close>

theorem sampled_share:
  assumes "every \<noteq> 0"
  shows "bij splitmix64 \<and> card {key. sampled key every} = (2 ^ 64 - 1) div unat every + 1"
proof -
  have "{key. sampled key every} = splitmix64 -` {z. z mod every = 0}"
    using assms by (auto simp: sampled_def)
  then have "card {key. sampled key every} = card {z. z mod every = 0}"
    using card_vimage_inj [of splitmix64 "{z. z mod every = 0}"] splitmix64_bij by (simp add: bij_def)
  then show ?thesis using card_multiples [OF assms] splitmix64_bij by simp
qed

theorem sampled_share_witness:
  "bij splitmix64 \<and> card {key. sampled key 8} = 2305843009213693952"
  using sampled_share [of 8] by simp

section \<open>The consistency tier counts exactly\<close>

text \<open>
  The reference of a run of \<open>shielded_block\<close> calls: those below the ceiling, as pairs of a
  height and the digest held; \<open>map_of\<close> of that list is the first answer of each height.
\<close>

definition held_calls :: "u32 \<Rightarrow> (bytes \<Rightarrow> 128 word) \<Rightarrow> (u32 \<times> bytes) list \<Rightarrow> (u32 \<times> u64) list" where
  "held_calls below digest calls =
     map (\<lambda>(h, m). (h, slot_digest (digest m))) (filter (\<lambda>(h, m). h < below) calls)"

definition differing :: "(u32 \<times> u64) list \<Rightarrow> nat" where
  "differing cs = length (filter (\<lambda>(h, s). map_of cs h \<noteq> Some s) cs)"

definition matching :: "(u32 \<times> u64) list \<Rightarrow> nat" where
  "matching cs = length (filter (\<lambda>(h, s). map_of cs h = Some s) cs)"

definition blocks_inv :: "u32 \<Rightarrow> u64 \<Rightarrow> (u32 \<times> u64) list \<Rightarrow> 'q ledger \<Rightarrow> bool" where
  "blocks_inv below every cs lg \<longleftrightarrow>
     length (lg_blocks lg) = unat below \<and> lg_audit_every lg = every \<and>
     (\<forall>h < below. lg_blocks lg ! unat h = (case map_of cs h of None \<Rightarrow> 0 | Some s \<Rightarrow> s)) \<and>
     lg_held lg = of_nat (card (fst ` set cs)) \<and>
     lg_violated lg = of_nat (differing cs) \<and>
     lg_held lg + lg_consistent lg = of_nat (matching cs) \<and>
     lg_queued lg + lg_dropped lg = of_nat (card {h \<in> fst ` set cs. sampled (ucast h) every}) \<and>
     length (lg_violations lg) = min KEPT (differing cs)"

lemma filter_map_of_snoc:
  "filter (\<lambda>(h, s). P (map_of (cs @ [c]) h) s) cs = filter (\<lambda>(h, s). P (map_of cs h) s) cs"
proof (rule filter_cong [OF refl])
  fix x assume "x \<in> set cs"
  then have "map_of (cs @ [c]) (fst x) = map_of cs (fst x)"
    by (metis map_add_dom_app_simps(1) dom_map_of_conv_image_fst imageI map_of_append)
  then show "(case x of (h, s) \<Rightarrow> P (map_of (cs @ [c]) h) s) = (case x of (h, s) \<Rightarrow> P (map_of cs h) s)"
    by (cases x) simp
qed

lemma differing_snoc:
  "differing (cs @ [(h, s)]) = differing cs + (case map_of cs h of Some x \<Rightarrow> if x \<noteq> s then 1 else 0 | None \<Rightarrow> 0)"
  unfolding differing_def filter_append length_append filter_map_of_snoc [of "\<lambda>x s. x \<noteq> Some s"]
  by (auto simp: map_add_def split: option.splits)

lemma matching_snoc:
  "matching (cs @ [(h, s)]) = matching cs + (case map_of cs h of Some x \<Rightarrow> if x \<noteq> s then 0 else 1 | None \<Rightarrow> 1)"
  unfolding matching_def filter_append length_append filter_map_of_snoc [of "\<lambda>x s. x = Some s"]
  by (auto simp: map_add_def split: option.splits)

lemma slot_digest_nonzero [simp]: "slot_digest d \<noteq> 0"
proof
  assume "slot_digest d = 0"
  then have "(1 :: u64) \<le> 0" by (metis slot_digest_def max.cobounded2)
  then show False by simp
qed

lemma map_of_snoc: "map_of (cs @ [(h, s)]) = (\<lambda>k. case map_of cs k of Some x \<Rightarrow> Some x | None \<Rightarrow> if k = h then Some s else None)"
  by (auto simp: map_add_def fun_eq_iff split: option.splits)

lemma queue_audit_fields [simp]:
  "lg_blocks (queue_audit ts a lg) = lg_blocks lg" "lg_audit_every (queue_audit ts a lg) = lg_audit_every lg"
  "lg_held (queue_audit ts a lg) = lg_held lg" "lg_violated (queue_audit ts a lg) = lg_violated lg"
  "lg_consistent (queue_audit ts a lg) = lg_consistent lg"
  "lg_violations (queue_audit ts a lg) = lg_violations lg"
  "lg_queued_keys (queue_audit ts a lg) = lg_queued_keys lg" "lg_answers (queue_audit ts a lg) = lg_answers lg"
  by (simp_all add: queue_audit_def split: option.splits)

lemma queue_audit_counts: "lg_queued (queue_audit ts a lg) + lg_dropped (queue_audit ts a lg) = lg_queued lg + lg_dropped lg + 1"
  by (simp add: queue_audit_def split: option.splits)

lemma first_sight_inv:
  assumes inv: "blocks_inv below every cs lg" and h: "h < below" and new: "map_of cs h = None" and s: "s = slot_digest (digest m)"
  shows "blocks_inv below every (cs @ [(h, s)]) (shielded_block ts digest h m lg)"
proof -
  define lg1 where "lg1 = lg\<lparr>lg_blocks := (lg_blocks lg)[unat h := s], lg_held := lg_held lg + 1\<rparr>"
  have len: "length (lg_blocks lg) = unat below" using inv by (simp add: blocks_inv_def)
  have uh: "unat h < unat below" using h by (simp add: word_less_nat_alt)
  have slot: "lg_blocks lg ! unat h = 0" using inv h new by (simp add: blocks_inv_def)
  have step: "shielded_block ts digest h m lg =
      (if sampled (ucast h) every then queue_audit ts (Shielded h m) lg1 else lg1)"
    using len uh slot inv by (simp add: shielded_block_def lg1_def s Let_def blocks_inv_def)
  have fresh: "h \<notin> fst ` set cs" using new by (simp add: map_of_eq_None_iff)
  have card1: "card (fst ` set (cs @ [(h, s)])) = card (fst ` set cs) + 1" using fresh by simp
  have "{k \<in> fst ` set (cs @ [(h, s)]). sampled (ucast k) every} =
      (if sampled (ucast h) every then insert h {k \<in> fst ` set cs. sampled (ucast k) every}
       else {k \<in> fst ` set cs. sampled (ucast k) every})" by auto
  then have card2: "card {k \<in> fst ` set (cs @ [(h, s)]). sampled (ucast k) every} =
      card {k \<in> fst ` set cs. sampled (ucast k) every} + (if sampled (ucast h) every then 1 else 0)"
    using fresh by simp
  have "(lg_blocks lg)[unat h := s] ! unat k =
      (case map_of (cs @ [(h, s)]) k of None \<Rightarrow> 0 | Some s \<Rightarrow> s)" if k: "k < below" for k
  proof (cases "k = h")
    case True
    then show ?thesis using new len uh unfolding map_of_snoc by simp
  next
    case False
    then have "unat h \<noteq> unat k" by (simp add: word_unat_eq_iff)
    with False inv k show ?thesis unfolding map_of_snoc by (simp add: blocks_inv_def split: option.splits)
  qed
  moreover define res where "res = shielded_block ts digest h m lg"
  have res: "lg_blocks res = (lg_blocks lg)[unat h := s]" "lg_audit_every res = lg_audit_every lg"
    "lg_held res = lg_held lg + 1" "lg_violated res = lg_violated lg" "lg_violations res = lg_violations lg"
    "lg_consistent res = lg_consistent lg"
    unfolding res_def step by (simp_all add: lg1_def)
  have "lg_queued res + lg_dropped res = lg_queued lg + lg_dropped lg + (if sampled (ucast h) every then 1 else 0)"
    unfolding res_def step by (simp add: queue_audit_counts) (simp add: lg1_def)
  moreover have "lg_held lg + 1 + lg_consistent lg = lg_held lg + lg_consistent lg + 1" by (simp add: ac_simps)
  ultimately show ?thesis using inv unfolding blocks_inv_def card1 card2 res_def [symmetric] res
    by (elim conjE) (simp add: differing_snoc matching_snoc new)
qed

lemma repeat_inv:
  assumes inv: "blocks_inv below every cs lg" and h: "h < below" and old: "map_of cs h = Some x" and s: "s = slot_digest (digest m)"
    and nz: "x \<noteq> 0"
  shows "blocks_inv below every (cs @ [(h, s)]) (shielded_block ts digest h m lg)"
proof -
  have len: "length (lg_blocks lg) = unat below" using inv by (simp add: blocks_inv_def)
  have uh: "unat h < unat below" using h by (simp add: word_less_nat_alt)
  have slot: "lg_blocks lg ! unat h = x" using inv h old by (simp add: blocks_inv_def)
  have step: "shielded_block ts digest h m lg =
      (if x = s then lg\<lparr>lg_consistent := lg_consistent lg + 1\<rparr>
       else violated ''block_consistent'' (ucast h) ''default-pools bytes differ from this height's first answer'' lg)"
    using len uh slot nz by (simp add: shielded_block_def s Let_def)
  have img: "fst ` set (cs @ [(h, s)]) = fst ` set cs" using old by (force dest: map_of_SomeD)
  have mo: "map_of (cs @ [(h, s)]) = map_of cs" using old unfolding map_of_snoc by (auto simp: fun_eq_iff split: option.splits)
  show ?thesis using inv unfolding step blocks_inv_def img mo
    by (auto simp: violated_def differing_snoc matching_snoc old KEPT_def algebra_simps)
qed

lemma shielded_block_inv:
  assumes "blocks_inv below every (held_calls below digest calls) lg"
  shows "blocks_inv below every (held_calls below digest (calls @ [(h, m)])) (shielded_block ts digest h m lg)"
proof (cases "h < below")
  case False
  with assms have "shielded_block ts digest h m lg = lg"
    by (simp add: shielded_block_def blocks_inv_def word_less_nat_alt)
  with False assms show ?thesis by (simp add: held_calls_def)
next
  case True
  define cs where "cs = held_calls below digest calls"
  have snoc: "held_calls below digest (calls @ [(h, m)]) = cs @ [(h, slot_digest (digest m))]"
    using True by (simp add: held_calls_def cs_def)
  have nz: "map_of cs h = Some x \<Longrightarrow> x \<noteq> 0" for x
    by (auto simp: cs_def held_calls_def dest!: map_of_SomeD)
  show ?thesis unfolding snoc
    using first_sight_inv [OF assms [folded cs_def] True _ refl] repeat_inv [OF assms [folded cs_def] True _ refl] nz
    by (cases "map_of cs h") auto
qed

lemma fold_blocks_inv:
  "blocks_inv below (max every 1) (held_calls below digest calls)
     (fold (\<lambda>(h, m). shielded_block ts digest h m) calls (new_ledger below every q))"
proof (induction calls rule: rev_induct)
  case Nil
  show ?case
    by (auto simp: blocks_inv_def held_calls_def new_ledger_def differing_def matching_def KEPT_def word_less_nat_alt)
next
  case (snoc c calls)
  then show ?case by (cases c) (simp add: shielded_block_inv)
qed

text \<open>
  Over any run of block answers, the consistency tier counts exactly: one held digest per
  distinct height below the ceiling, a violation for every answer that differs from the first
  answer of its height and only those, a match for every other repeat; what was sampled is either
  queued or counted dropped; the first 64 violations are kept.\<close>

theorem ledger_counts_exact:
  "let lg = fold (\<lambda>(h, m). shielded_block ts digest h m) calls (new_ledger below every q);
       cs = held_calls below digest calls in
     lg_held lg = of_nat (card (fst ` set cs)) \<and>
     lg_violated lg = of_nat (differing cs) \<and>
     lg_held lg + lg_consistent lg = of_nat (matching cs) \<and>
     lg_queued lg + lg_dropped lg = of_nat (card {h \<in> fst ` set cs. sampled (ucast h) (max every 1)}) \<and>
     length (lg_violations lg) = min KEPT (differing cs)"
  using fold_blocks_inv [of below every digest calls ts q] unfolding blocks_inv_def Let_def by blast

section \<open>Keyed answers\<close>

lemma answer_stable_repeat:
  assumes "lg_answers lg key = Some held"
  shows "lg_violated (answer ts key d True a lg) = lg_violated lg + (if held = ucast d then 0 else 1)"
    and "lg_answers (answer ts key d True a lg) = lg_answers lg"
    and "lg_audits (answer ts key d True a lg) = lg_audits lg"
  using assms by (simp_all add: answer_def violated_def Let_def)

definition hex_value :: "char \<Rightarrow> nat" where
  "hex_value c = (let n = of_char c in if n < 58 then n - 48 else n - 87)"

lemma hex_value_digit: "d < 16 \<Longrightarrow> hex_value (hex_digit d) = d"
  by (auto simp: hex_value_def hex_digit_def)

lemma show_hex_value: "foldl (\<lambda>a c. 16 * a + hex_value c) 0 (show_hex n) = n"
proof (induction n rule: show_hex.induct)
  case (1 n)
  then show ?case by (cases "n < 16") (subst show_hex.simps, simp add: hex_value_digit)+
qed

lemma show_hex_inj: "show_hex m = show_hex n \<Longrightarrow> m = n"
  by (metis show_hex_value)

text \<open>
  A movable answer that goes away and comes back is audited a second time: the first sight
  is queued under the bare key, its return under the key with its digest, so an answer seen as
  A, B, A queues A twice although each distinct answer is meant to be audited at most once.\<close>

theorem returning_answer_requeued:
  assumes "lg_answers lg key = None" "ucast d \<noteq> (ucast d' :: u64)"
    and "\<forall>k \<in> set (lg_queued_keys lg). \<not> prefix key k"
    and "lg_audits lg = Some []"
  shows "lg_audits (answer (\<lambda>q a. Some (q @ [a])) key d False a
           (answer (\<lambda>q a. Some (q @ [a])) key d' False b
             (answer (\<lambda>q a. Some (q @ [a])) key d False a lg))) = Some [a, b, a]"
proof -
  define push where "push = (\<lambda>(q :: audit list) a. Some (q @ [a]))"
  have q1: "key \<notin> set (lg_queued_keys lg)" and q2: "key @ ''#'' @ x \<notin> set (lg_queued_keys lg)" for x
    using assms(3) by (auto simp: prefix_def)
  have ne: "show_hex (unat (ucast d :: u64)) \<noteq> show_hex (unat (ucast d' :: u64))"
    using assms(2) show_hex_inj by (metis word_unat_eq_iff)
  define lg1 where "lg1 = answer push key d False a lg"
  have s1: "lg_audits lg1 = Some [a]" "lg_answers lg1 key = Some (ucast d)"
    "lg_queued_keys lg1 = key # lg_queued_keys lg"
    using assms(1,4) q1 by (simp_all add: lg1_def answer_def queue_first_def queue_audit_def push_def)
  define lg2 where "lg2 = answer push key d' False b lg1"
  have s2: "lg_audits lg2 = Some [a, b]" "lg_answers lg2 key = Some (ucast d')"
    "lg_queued_keys lg2 = (key @ ''#'' @ show_hex (unat (ucast d' :: u64))) # key # lg_queued_keys lg"
    using assms(2) s1 q2 by (simp_all add: lg2_def answer_def queue_first_def queue_audit_def push_def Let_def)
  have "lg_audits (answer push key d False a lg2) = Some [a, b, a]"
    using assms(2) s2 q2 ne by (simp add: answer_def queue_first_def queue_audit_def push_def Let_def)
  then show ?thesis by (simp add: lg1_def lg2_def push_def)
qed

theorem returning_answer_requeued_witness:
  "lg_audits (answer (\<lambda>q a. Some (q @ [a])) ''utxos'' 1 False (TipAnswer [1])
     (answer (\<lambda>q a. Some (q @ [a])) ''utxos'' 2 False (TipAnswer [2])
       (answer (\<lambda>q a. Some (q @ [a])) ''utxos'' 1 False (TipAnswer [1]) (new_ledger 0 1 []))))
   = Some [TipAnswer [1], TipAnswer [2], TipAnswer [1]]"
  by (rule returning_answer_requeued) (simp_all add: new_ledger_def)

end
