(* ===== verification/Load_Reference.thy ===== *)
theory Load_Reference
  imports Load_Oracle "HOL-Library.List_Lexorder" "HOL-Library.Product_Lexorder"
begin

text \<open>
  The authority of the load tests (\<open>src/src/loadtest/reference.rs\<close>): the wire answer a correct
  server must give, rebuilt from the node's JSON-RPC answers, and the comparison of a served
  message with it. The node is an argument: a record of its typed answers, each reading and
  moving a state \<open>'z\<close>, so that two calls may see different chains. \<open>hex_decode\<close>, of an
  external crate, is an argument too. Amounts are \<open>i64\<close>: an addition out of range is the
  panic of a checked build, here the error \<open>Overflow\<close>.
\<close>

section \<open>The node's answers\<close>

datatype input = CoinbaseIn string | SpendIn string u32

record z_output =
  o_value :: int
  o_script :: string

record sapling_output =
  so_cmu :: string
  so_ephemeral_key :: string
  so_ciphertext :: string

record join_split =
  vpub_old :: int
  vpub_new :: int

record action =
  a_nullifier :: string
  a_cmx :: string
  a_ephemeral_key :: string
  a_ciphertext :: string

record actions =
  bundle_actions :: "action list"
  balance :: int

record z_tx =
  zt_txid :: string
  zt_vin :: "input list"
  zt_vout :: "z_output list"
  zt_spends :: "string list"
  zt_outputs :: "sapling_output list"
  zt_joinsplits :: "join_split list"
  zt_orchard :: "actions option"
  zt_ironwood :: "actions option"
  zt_sapling_balance :: "int option"

record z_block =
  zk_hash :: string
  zk_height :: u64
  zk_time :: u32
  zk_prev :: "string option"
  zk_tx :: "z_tx list"
  zk_sapling_size :: u64
  zk_orchard_size :: u64
  zk_ironwood_size :: u64

record tree_state =
  ts_network :: string
  ts_height :: u64
  ts_hash :: string
  ts_time :: u32
  ts_sapling_tree :: string
  ts_orchard_tree :: string
  ts_ironwood_tree :: string

record subtree_root =
  root_hash :: bytes
  completing_block_hash :: bytes
  completing_block_height :: u64

record address_utxo =
  u_address :: string
  u_txid :: bytes
  u_index :: int
  u_script :: bytes
  u_value_zat :: int
  u_height :: u64

record tree_state_json =
  tj_hash :: string
  tj_height :: u64
  tj_time :: u32
  tj_sapling :: string
  tj_orchard :: string
  tj_ironwood :: string

record utxo_json =
  uj_txid :: string
  uj_index :: u32
  uj_script :: string
  uj_satoshis :: int
  uj_height :: u64

datatype reference_error = Rpc string | Shape string string | Overflow

type_synonym 'a answered = "reference_error + 'a"

record 'z node =
  call_tip :: "'z \<Rightarrow> 'z \<times> (string + u32)"
  call_getblockhash :: "u32 \<Rightarrow> 'z \<Rightarrow> 'z \<times> (string + string)"
  call_getblock :: "u32 \<Rightarrow> 'z \<Rightarrow> 'z \<times> (string + z_block)"
  call_rawtx_outputs :: "string \<Rightarrow> 'z \<Rightarrow> 'z \<times> (string + z_output list)"
  call_treestate :: "u32 \<Rightarrow> 'z \<Rightarrow> 'z \<times> (string + tree_state_json)"
  call_subtrees :: "string \<Rightarrow> 'z \<Rightarrow> 'z \<times> (string + (string \<times> u32) list)"
  call_utxos :: "string \<Rightarrow> 'z \<Rightarrow> 'z \<times> (string + utxo_json list)"
  call_rawtx :: "string \<Rightarrow> 'z \<Rightarrow> 'z \<times> (string + string)"
  call_balance :: "string \<Rightarrow> 'z \<Rightarrow> 'z \<times> (string + int)"
  call_txids :: "string \<Rightarrow> u32 \<Rightarrow> u32 \<Rightarrow> 'z \<Rightarrow> 'z \<times> (string + string list)"
  call_mempool :: "'z \<Rightarrow> 'z \<times> (string + string list)"

record 'z zebra =
  chain :: 'z
  funding :: "string \<rightharpoonup> int list"

section \<open>Calls that may fail\<close>

type_synonym ('z, 'a) zm = "'z zebra \<Rightarrow> 'z zebra \<times> 'a answered"

definition zret :: "'a \<Rightarrow> ('z, 'a) zm" where
  "zret a = (\<lambda>z. (z, Inr a))"

definition zfail :: "reference_error \<Rightarrow> ('z, 'a) zm" where
  "zfail e = (\<lambda>z. (z, Inl e))"

definition zbind :: "('z, 'a) zm \<Rightarrow> ('a \<Rightarrow> ('z, 'b) zm) \<Rightarrow> ('z, 'b) zm" where
  "zbind m f = (\<lambda>z. case m z of (z', Inl e) \<Rightarrow> (z', Inl e) | (z', Inr a) \<Rightarrow> f a z')"

definition zlift :: "'a answered \<Rightarrow> ('z, 'a) zm" where
  "zlift r = (\<lambda>z. (z, r))"

definition zcall :: "('z \<Rightarrow> 'z \<times> (string + 'a)) \<Rightarrow> ('z, 'a) zm" where
  "zcall f = (\<lambda>z. case f (chain z) of (c, r) \<Rightarrow> (z\<lparr>chain := c\<rparr>, map_sum Rpc id r))"

fun zmap :: "('a \<Rightarrow> ('z, 'b) zm) \<Rightarrow> 'a list \<Rightarrow> ('z, 'b list) zm" where
  "zmap f [] = zret []"
| "zmap f (x # xs) = zbind (f x) (\<lambda>y. zbind (zmap f xs) (\<lambda>ys. zret (y # ys)))"

text \<open>\<open>collect::<Result<_, _>>\<close>: the first error, or every value.\<close>

fun collect_ok :: "('a \<Rightarrow> 'b answered) \<Rightarrow> 'a list \<Rightarrow> 'b list answered" where
  "collect_ok f [] = Inr []"
| "collect_ok f (x # xs) =
     (case f x of Inl e \<Rightarrow> Inl e | Inr y \<Rightarrow> map_sum id ((#) y) (collect_ok f xs))"

definition add_i64 :: "int \<Rightarrow> int \<Rightarrow> int answered" where
  "add_i64 a b = (if - (2 ^ 63) \<le> a + b \<and> a + b < 2 ^ 63 then Inr (a + b) else Inl Overflow)"

fun sum_i64 :: "int \<Rightarrow> int list \<Rightarrow> int answered" where
  "sum_i64 acc [] = Inr acc"
| "sum_i64 acc (x # xs) = (case add_i64 acc x of Inl e \<Rightarrow> Inl e | Inr s \<Rightarrow> sum_i64 s xs)"

section \<open>Hex fields\<close>

definition COMPACT_CIPHERTEXT :: nat where "COMPACT_CIPHERTEXT = 52"

definition decoded :: "(string \<Rightarrow> string + bytes) \<Rightarrow> string \<Rightarrow> string \<Rightarrow> bytes answered" where
  "decoded hex_decode text method =
     (case hex_decode text of Inl e \<Rightarrow> Inl (Shape method (text @ '': '' @ e)) | Inr bs \<Rightarrow> Inr bs)"

definition reversed :: "(string \<Rightarrow> string + bytes) \<Rightarrow> string \<Rightarrow> string \<Rightarrow> bytes answered" where
  "reversed hex_decode display method =
     (case decoded hex_decode display method of
        Inl e \<Rightarrow> Inl e
      | Inr bs \<Rightarrow> if length bs = 32 then Inr (rev bs)
                  else Inl (Shape method (display @ '' is not 32 bytes'')))"

definition prefix_of :: "(string \<Rightarrow> string + bytes) \<Rightarrow> string \<Rightarrow> bytes answered" where
  "prefix_of hex_decode ciphertext =
     (case decoded hex_decode ciphertext ''getblock'' of
        Inl e \<Rightarrow> Inl e
      | Inr full \<Rightarrow> if COMPACT_CIPHERTEXT \<le> length full then Inr (take COMPACT_CIPHERTEXT full)
                    else Inl (Shape ''getblock'' (''ciphertext of '' @ show_nat (length full) @ '' bytes'')))"

definition size_u32 :: "u64 \<Rightarrow> u32 answered" where
  "size_u32 n = (if unat n < 2 ^ 32 then Inr (ucast n)
                 else Inl (Shape ''getblock'' (''tree size '' @ show_u64 n @ '' past u32'')))"

section \<open>Fees\<close>

definition prevout :: "'z node \<Rightarrow> string \<Rightarrow> u32 \<Rightarrow> ('z, int) zm" where
  "prevout nd txid vout =
     zbind (\<lambda>z. case funding z txid of
              Some values \<Rightarrow> (z, Inr values)
            | None \<Rightarrow> zbind (zcall (call_rawtx_outputs nd txid))
                (\<lambda>outs z. let values = map o_value outs in (z\<lparr>funding := (funding z)(txid \<mapsto> values)\<rparr>, Inr values)) z)
       (\<lambda>values. if unat vout < length values then zret (values ! unat vout)
                 else zfail (Shape ''getrawtransaction'' (txid @ '' has no output '' @ show_u64 vout)))"

text \<open>The transparent inputs, in order; a coinbase ends the whole computation with fee 0 (\<open>None\<close>).\<close>

fun fee_inputs :: "'z node \<Rightarrow> int \<Rightarrow> input list \<Rightarrow> ('z, int option) zm" where
  "fee_inputs nd acc [] = zret (Some acc)"
| "fee_inputs nd acc (CoinbaseIn _ # ins) = zret None"
| "fee_inputs nd acc (SpendIn txid vout # ins) =
     zbind (prevout nd txid vout) (\<lambda>v. zbind (zlift (add_i64 acc v)) (\<lambda>s. fee_inputs nd s ins))"

definition shielded_balance :: "z_tx \<Rightarrow> int answered" where
  "shielded_balance tx =
     (case collect_ok (\<lambda>js. add_i64 (vpub_new js) (- vpub_old js)) (zt_joinsplits tx) of
        Inl e \<Rightarrow> Inl e
      | Inr flows \<Rightarrow>
          (case sum_i64 0 flows of
             Inl e \<Rightarrow> Inl e
           | Inr js \<Rightarrow> sum_i64 (case zt_sapling_balance tx of None \<Rightarrow> 0 | Some b \<Rightarrow> b)
               [case zt_orchard tx of None \<Rightarrow> 0 | Some a \<Rightarrow> balance a,
                case zt_ironwood tx of None \<Rightarrow> 0 | Some a \<Rightarrow> balance a, js]))"

definition fee_of :: "z_tx \<Rightarrow> int \<Rightarrow> u32 answered" where
  "fee_of tx fee =
     (if fee < 0 then Inl (Shape ''getblock'' (''tx '' @ zt_txid tx @ '' has a negative fee''))
      else if fee < 2 ^ 32 then Inr (of_int fee)
      else Inl (Shape ''getblock'' (''tx '' @ zt_txid tx @ '' fee overflows u32'')))"

definition fee :: "'z node \<Rightarrow> z_tx \<Rightarrow> ('z, u32) zm" where
  "fee nd tx =
     zbind (fee_inputs nd 0 (zt_vin tx)) (\<lambda>ins. case ins of
         None \<Rightarrow> zret 0
       | Some inputs \<Rightarrow>
           zbind (zlift (sum_i64 0 (map o_value (zt_vout tx)))) (\<lambda>outputs.
           zbind (zlift (shielded_balance tx)) (\<lambda>shielded.
           zbind (zlift (add_i64 inputs (- outputs))) (\<lambda>clear.
           zbind (zlift (add_i64 clear shielded)) (\<lambda>total.
           zlift (fee_of tx total))))))"

section \<open>Compact blocks from node blocks\<close>

datatype fees = Checked | AsServed proto_block

definition compact_action :: "(string \<Rightarrow> string + bytes) \<Rightarrow> action \<Rightarrow> compact_orchard_action answered" where
  "compact_action hx a =
     (case decoded hx (a_nullifier a) ''getblock'' of Inl e \<Rightarrow> Inl e | Inr n \<Rightarrow>
     (case decoded hx (a_cmx a) ''getblock'' of Inl e \<Rightarrow> Inl e | Inr c \<Rightarrow>
     (case decoded hx (a_ephemeral_key a) ''getblock'' of Inl e \<Rightarrow> Inl e | Inr k \<Rightarrow>
     (case prefix_of hx (a_ciphertext a) of Inl e \<Rightarrow> Inl e | Inr t \<Rightarrow>
        Inr \<lparr>act_nullifier = n, act_cmx = c, act_ephemeral_key = k, act_ciphertext = t\<rparr>))))"

definition compact_actions ::
  "(string \<Rightarrow> string + bytes) \<Rightarrow> actions option \<Rightarrow> compact_orchard_action list answered" where
  "compact_actions hx bundle =
     collect_ok (compact_action hx) (case bundle of None \<Rightarrow> [] | Some b \<Rightarrow> bundle_actions b)"

definition compact_output :: "(string \<Rightarrow> string + bytes) \<Rightarrow> sapling_output \<Rightarrow> compact_sapling_output answered" where
  "compact_output hx so =
     (case reversed hx (so_cmu so) ''getblock'' of Inl e \<Rightarrow> Inl e | Inr c \<Rightarrow>
     (case reversed hx (so_ephemeral_key so) ''getblock'' of Inl e \<Rightarrow> Inl e | Inr k \<Rightarrow>
     (case prefix_of hx (so_ciphertext so) of Inl e \<Rightarrow> Inl e | Inr t \<Rightarrow>
        Inr \<lparr>out_cmu = c, out_ephemeral_key = k, out_ciphertext = t\<rparr>)))"

definition compact_vin :: "(string \<Rightarrow> string + bytes) \<Rightarrow> string \<times> u32 \<Rightarrow> compact_tx_in answered" where
  "compact_vin hx i =
     (case reversed hx (fst i) ''getblock'' of Inl e \<Rightarrow> Inl e | Inr t \<Rightarrow>
        Inr \<lparr>prevout_txid = t, prevout_index = snd i\<rparr>)"

definition compact_vout :: "(string \<Rightarrow> string + bytes) \<Rightarrow> z_output \<Rightarrow> tx_out answered" where
  "compact_vout hx out =
     (if o_value out < 0 then Inl (Shape ''getblock'' ''negative output'')
      else (case decoded hx (o_script out) ''getblock'' of Inl e \<Rightarrow> Inl e | Inr s \<Rightarrow>
              Inr \<lparr>out_value = of_int (o_value out), script_pub_key = s\<rparr>))"

fun spent_prevouts :: "input list \<Rightarrow> (string \<times> u32) list" where
  "spent_prevouts [] = []"
| "spent_prevouts (CoinbaseIn _ # ins) = spent_prevouts ins"
| "spent_prevouts (SpendIn t v # ins) = (t, v) # spent_prevouts ins"

definition compact_tx_of :: "(string \<Rightarrow> string + bytes) \<Rightarrow> u64 \<Rightarrow> z_tx \<Rightarrow> u32 \<Rightarrow> proto_tx answered" where
  "compact_tx_of hx index tx f =
     (case reversed hx (zt_txid tx) ''getblock'' of Inl e \<Rightarrow> Inl e | Inr txid \<Rightarrow>
     (case collect_ok (\<lambda>s. map_sum id (\<lambda>b. \<lparr>nf = b\<rparr>) (reversed hx s ''getblock'')) (zt_spends tx) of Inl e \<Rightarrow> Inl e | Inr spends \<Rightarrow>
     (case collect_ok (compact_output hx) (zt_outputs tx) of Inl e \<Rightarrow> Inl e | Inr outputs \<Rightarrow>
     (case compact_actions hx (zt_orchard tx) of Inl e \<Rightarrow> Inl e | Inr acts \<Rightarrow>
     (case compact_actions hx (zt_ironwood tx) of Inl e \<Rightarrow> Inl e | Inr iron \<Rightarrow>
     (case collect_ok (compact_vin hx) (spent_prevouts (zt_vin tx)) of Inl e \<Rightarrow> Inl e | Inr vin \<Rightarrow>
     (case collect_ok (compact_vout hx) (zt_vout tx) of Inl e \<Rightarrow> Inl e | Inr vout \<Rightarrow>
        Inr \<lparr>tx_index = index, tx_txid = txid, tx_fee = f, tx_spends = spends, tx_outputs = outputs,
             tx_actions = acts, tx_ironwood_actions = iron, tx_vin = vin, tx_vout = vout\<rparr>)))))))"

definition served_fee :: "proto_block \<Rightarrow> nat \<Rightarrow> u32" where
  "served_fee served i =
     (case List.find (\<lambda>t. tx_index t = of_nat i) (cb_vtx served) of None \<Rightarrow> 0 | Some t \<Rightarrow> tx_fee t)"

definition block_tx ::
  "(string \<Rightarrow> string + bytes) \<Rightarrow> 'z node \<Rightarrow> fees \<Rightarrow> nat \<times> z_tx \<Rightarrow> ('z, proto_tx) zm" where
  "block_tx hx nd fs it =
     zbind (case fs of AsServed served \<Rightarrow> zret (served_fee served (fst it)) | Checked \<Rightarrow> fee nd (snd it))
       (\<lambda>f. zlift (compact_tx_of hx (of_nat (fst it)) (snd it) f))"

definition compact_block_of ::
  "(string \<Rightarrow> string + bytes) \<Rightarrow> 'z node \<Rightarrow> u32 \<Rightarrow> fees \<Rightarrow> ('z, proto_block) zm" where
  "compact_block_of hx nd height fs =
     zbind (zcall (call_getblock nd height)) (\<lambda>block.
       if zk_height block \<noteq> ucast height
       then zfail (Shape ''getblock'' (''asked '' @ show_u64 height @ '', answered '' @ show_u64 (zk_height block)))
       else zbind (zmap (block_tx hx nd fs) (List.enumerate 0 (zk_tx block))) (\<lambda>vtx.
            zbind (zlift (reversed hx (zk_hash block) ''getblock'')) (\<lambda>hash.
            zbind (case zk_prev block of Some p \<Rightarrow> zlift (reversed hx p ''getblock'') | None \<Rightarrow> zret (replicate 32 0)) (\<lambda>prev.
            zbind (zlift (size_u32 (zk_sapling_size block))) (\<lambda>sap.
            zbind (zlift (size_u32 (zk_orchard_size block))) (\<lambda>orch.
            zbind (zlift (size_u32 (zk_ironwood_size block))) (\<lambda>iron.
            zret \<lparr>cb_height = zk_height block, cb_hash = hash, cb_prev_hash = prev, cb_time = zk_time block,
                  cb_header = [], cb_vtx = vtx,
                  cb_chain_metadata = Some \<lparr>sapling_commitment_tree_size = sap,
                    orchard_commitment_tree_size = orch, ironwood_commitment_tree_size = iron\<rparr>\<rparr>)))))))"

section \<open>The other answers\<close>

definition zebra_tip :: "'z node \<Rightarrow> ('z, u32) zm" where
  "zebra_tip nd = zcall (call_tip nd)"

definition block_hash :: "(string \<Rightarrow> string + bytes) \<Rightarrow> 'z node \<Rightarrow> u32 \<Rightarrow> ('z, bytes) zm" where
  "block_hash hx nd height =
     zbind (zcall (call_getblockhash nd height)) (\<lambda>display. zlift (reversed hx display ''getblockhash''))"

definition tree_state_of :: "'z node \<Rightarrow> u32 \<Rightarrow> ('z, tree_state) zm" where
  "tree_state_of nd height =
     zbind (zcall (call_treestate nd height)) (\<lambda>j.
       zret \<lparr>ts_network = [], ts_height = tj_height j, ts_hash = tj_hash j, ts_time = tj_time j,
             ts_sapling_tree = tj_sapling j, ts_orchard_tree = tj_orchard j, ts_ironwood_tree = tj_ironwood j\<rparr>)"

definition subtree_root_of ::
  "(string \<Rightarrow> string + bytes) \<Rightarrow> 'z node \<Rightarrow> string \<times> u32 \<Rightarrow> ('z, subtree_root) zm" where
  "subtree_root_of hx nd st =
     zbind (block_hash hx nd (snd st)) (\<lambda>completing.
     zbind (zlift (decoded hx (fst st) ''z_getsubtreesbyindex'')) (\<lambda>r.
       zret \<lparr>root_hash = r, completing_block_hash = rev completing, completing_block_height = ucast (snd st)\<rparr>))"

definition subtree_roots :: "(string \<Rightarrow> string + bytes) \<Rightarrow> 'z node \<Rightarrow> string \<Rightarrow> ('z, subtree_root list) zm" where
  "subtree_roots hx nd pool = zbind (zcall (call_subtrees nd pool)) (zmap (subtree_root_of hx nd))"

definition address_utxo_of :: "(string \<Rightarrow> string + bytes) \<Rightarrow> string \<Rightarrow> utxo_json \<Rightarrow> address_utxo answered" where
  "address_utxo_of hx address u =
     (case reversed hx (uj_txid u) ''getaddressutxos'' of Inl e \<Rightarrow> Inl e | Inr txid \<Rightarrow>
        if 2 ^ 31 \<le> unat (uj_index u) then Inl (Shape ''getaddressutxos'' ''output index past i32'')
        else (case decoded hx (uj_script u) ''getaddressutxos'' of Inl e \<Rightarrow> Inl e | Inr script \<Rightarrow>
                Inr \<lparr>u_address = address, u_txid = txid, u_index = uint (uj_index u), u_script = script,
                     u_value_zat = uj_satoshis u, u_height = uj_height u\<rparr>))"

definition wire_order :: "address_utxo \<Rightarrow> u64 \<times> u8 list \<times> int" where
  "wire_order u = (u_height u, u_txid u, u_index u)"

definition address_utxos :: "(string \<Rightarrow> string + bytes) \<Rightarrow> 'z node \<Rightarrow> string \<Rightarrow> ('z, address_utxo list) zm" where
  "address_utxos hx nd address =
     zbind (zcall (call_utxos nd address)) (\<lambda>listed.
     zbind (zlift (collect_ok (address_utxo_of hx address) listed)) (\<lambda>utxos.
       zret (sort_key wire_order utxos)))"

definition address_balance :: "'z node \<Rightarrow> string \<Rightarrow> ('z, int) zm" where
  "address_balance nd address = zcall (call_balance nd address)"

definition address_txids ::
  "(string \<Rightarrow> string + bytes) \<Rightarrow> 'z node \<Rightarrow> string \<Rightarrow> u32 \<Rightarrow> u32 \<Rightarrow> ('z, bytes list) zm" where
  "address_txids hx nd address start end =
     zbind (zcall (call_txids nd address start end)) (\<lambda>listed.
       zlift (collect_ok (\<lambda>t. reversed hx t ''getaddresstxids'') listed))"

definition raw_transaction :: "(string \<Rightarrow> string + bytes) \<Rightarrow> 'z node \<Rightarrow> string \<Rightarrow> ('z, bytes) zm" where
  "raw_transaction hx nd txid = zbind (zcall (call_rawtx nd txid)) (\<lambda>h. zlift (decoded hx h ''getrawtransaction''))"

definition mempool_listed :: "'z node \<Rightarrow> ('z, string list) zm" where
  "mempool_listed nd = zcall (call_mempool nd)"

section \<open>Pool selection and comparison\<close>

definition has_shielded :: "proto_tx \<Rightarrow> bool" where
  "has_shielded tx \<longleftrightarrow> \<not> (tx_spends tx = [] \<and> tx_outputs tx = [] \<and> tx_actions tx = [] \<and> tx_ironwood_actions tx = [])"

definition shielded :: "proto_block \<Rightarrow> proto_block" where
  "shielded block =
     block\<lparr>cb_vtx := filter has_shielded (map (\<lambda>tx. tx\<lparr>tx_vin := [], tx_vout := []\<rparr>) (cb_vtx block))\<rparr>"

text \<open>
  A difference is the path of the first field that departs; the rendering of the two values
  behind it is left out. \<open>same\<close> is the macro: an early return when the fields differ.
\<close>

definition same :: "string \<Rightarrow> bool \<Rightarrow> string option \<Rightarrow> string option" where
  "same path eq rest = (if eq then rest else Some path)"

fun outputs_diff :: "string \<Rightarrow> nat \<Rightarrow> (compact_sapling_output \<times> compact_sapling_output) list \<Rightarrow> string option \<Rightarrow> string option" where
  "outputs_diff at_tx j [] rest = rest"
| "outputs_diff at_tx j ((x, y) # xys) rest =
     same (at_tx @ ''.outputs['' @ show_nat j @ '']'') (x = y) (outputs_diff at_tx (Suc j) xys rest)"

definition tx_diff :: "nat \<Rightarrow> proto_tx \<Rightarrow> proto_tx \<Rightarrow> string option \<Rightarrow> string option" where
  "tx_diff i a b rest =
     (let p = ''vtx['' @ show_nat i @ '']'' in
      same (p @ ''.index'') (tx_index a = tx_index b) (
      same (p @ ''.txid'') (tx_txid a = tx_txid b) (
      same (p @ ''.fee'') (tx_fee a = tx_fee b) (
      same (p @ ''.spends'') (tx_spends a = tx_spends b) (
      same (p @ ''.outputs.len'') (length (tx_outputs a) = length (tx_outputs b)) (
      outputs_diff p 0 (zip (tx_outputs a) (tx_outputs b)) (
      same (p @ ''.actions'') (tx_actions a = tx_actions b) (
      same (p @ ''.ironwood_actions'') (tx_ironwood_actions a = tx_ironwood_actions b) (
      same (p @ ''.vin'') (tx_vin a = tx_vin b) (
      same (p @ ''.vout'') (tx_vout a = tx_vout b) rest))))))))))"

fun vtx_diff :: "nat \<Rightarrow> (proto_tx \<times> proto_tx) list \<Rightarrow> string option \<Rightarrow> string option" where
  "vtx_diff i [] rest = rest"
| "vtx_diff i ((a, b) # pairs) rest = tx_diff i a b (vtx_diff (Suc i) pairs rest)"

definition UNNAMED :: string where
  "UNNAMED = ''unnamed field differs (proto grew a field this diff does not walk)''"

definition block_diff :: "proto_block \<Rightarrow> proto_block \<Rightarrow> string option" where
  "block_diff expected served =
     (if expected = served then None
      else same ''height'' (cb_height expected = cb_height served) (
           same ''hash'' (cb_hash expected = cb_hash served) (
           same ''prev_hash'' (cb_prev_hash expected = cb_prev_hash served) (
           same ''time'' (cb_time expected = cb_time served) (
           same ''header'' (cb_header expected = cb_header served) (
           same ''chain_metadata'' (cb_chain_metadata expected = cb_chain_metadata served) (
           same ''vtx.len'' (length (cb_vtx expected) = length (cb_vtx served)) (
           vtx_diff 0 (zip (cb_vtx expected) (cb_vtx served)) (Some UNNAMED)))))))))"

definition tree_state_diff :: "tree_state \<Rightarrow> tree_state \<Rightarrow> string option" where
  "tree_state_diff expected served =
     map_option fst (List.find (\<lambda>(_, a, b). a \<noteq> b)
       [(''height'', show_u64 (ts_height expected), show_u64 (ts_height served)),
        (''hash'', ts_hash expected, ts_hash served),
        (''time'', show_u64 (ts_time expected), show_u64 (ts_time served)),
        (''sapling_tree'', ts_sapling_tree expected, ts_sapling_tree served),
        (''orchard_tree'', ts_orchard_tree expected, ts_orchard_tree served),
        (''ironwood_tree'', ts_ironwood_tree expected, ts_ironwood_tree served)])"

section \<open>The comparison walks every field\<close>

text \<open>A path never reads like the last resort, so a \<open>same\<close> step passes it on only on equality.\<close>

lemma same_path: "p \<noteq> UNNAMED \<Longrightarrow> same p eq rest = Some UNNAMED \<longleftrightarrow> eq \<and> rest = Some UNNAMED"
  by (simp add: same_def)

lemma same_tx_path: "same (CHR ''v'' # p) eq rest = Some UNNAMED \<longleftrightarrow> eq \<and> rest = Some UNNAMED"
  by (simp add: same_def UNNAMED_def)

lemma outputs_diff_unnamed:
  "length xs = length ys \<Longrightarrow>
   outputs_diff (CHR ''v'' # p) j (zip xs ys) rest = Some UNNAMED \<longleftrightarrow> xs = ys \<and> rest = Some UNNAMED"
proof (induction xs ys arbitrary: j rule: list_induct2)
  case (Cons x xs y ys)
  then show ?case by (simp add: same_tx_path)
qed simp

lemma tx_diff_unnamed: "tx_diff i a b rest = Some UNNAMED \<longleftrightarrow> a = b \<and> rest = Some UNNAMED"
proof -
  have "a = b \<longleftrightarrow> tx_index a = tx_index b \<and> tx_txid a = tx_txid b \<and> tx_fee a = tx_fee b \<and> tx_spends a = tx_spends b \<and>
      tx_outputs a = tx_outputs b \<and> tx_actions a = tx_actions b \<and> tx_ironwood_actions a = tx_ironwood_actions b \<and>
      tx_vin a = tx_vin b \<and> tx_vout a = tx_vout b" by (cases a; cases b) auto
  then show ?thesis unfolding tx_diff_def Let_def append_Cons same_tx_path
    using outputs_diff_unnamed [of "tx_outputs a" "tx_outputs b"] by (auto simp: same_tx_path)
qed

lemma vtx_diff_unnamed:
  "length xs = length ys \<Longrightarrow> vtx_diff i (zip xs ys) rest = Some UNNAMED \<longleftrightarrow> xs = ys \<and> rest = Some UNNAMED"
  by (induction xs ys arbitrary: i rule: list_induct2) (auto simp: tx_diff_unnamed)

lemma block_paths:
  "''height'' \<noteq> UNNAMED" "''hash'' \<noteq> UNNAMED" "''prev_hash'' \<noteq> UNNAMED" "''time'' \<noteq> UNNAMED"
  "''header'' \<noteq> UNNAMED" "''chain_metadata'' \<noteq> UNNAMED" "''vtx.len'' \<noteq> UNNAMED"
  by (simp_all add: UNNAMED_def)

lemma same_None: "same p eq rest = None \<Longrightarrow> rest = None"
  by (simp add: same_def split: if_splits)

lemma outputs_diff_None: "outputs_diff p j xys rest = None \<Longrightarrow> rest = None"
proof (induction xys arbitrary: j)
  case (Cons xy xys)
  obtain x y where "xy = (x, y)" by (cases xy)
  with Cons(2) have "outputs_diff p (Suc j) xys rest = None" by (auto dest!: same_None)
  with Cons(1) show ?case .
qed simp

lemma vtx_diff_None: "vtx_diff i xys rest = None \<Longrightarrow> rest = None"
proof (induction xys arbitrary: i)
  case (Cons ab xys)
  obtain a b where "ab = (a, b)" by (cases ab)
  with Cons(2) have "vtx_diff (Suc i) xys rest = None"
    by (auto simp: tx_diff_def Let_def dest!: same_None outputs_diff_None)
  with Cons(1) show ?case .
qed simp

lemma block_diff_None: "block_diff expected served = None \<longleftrightarrow> expected = served"
proof
  assume "block_diff expected served = None"
  then show "expected = served"
    by (auto simp: block_diff_def split: if_splits dest!: same_None vtx_diff_None)
qed (simp add: block_diff_def)

text \<open>
  The block comparison accepts exactly the equal block, and walks every field of the
  message: whatever differs, it names the path of a field, never the last-resort text for a
  field it does not know.\<close>

theorem block_diff_names_field:
  "(block_diff expected served = None \<longleftrightarrow> expected = served) \<and> block_diff expected served \<noteq> Some UNNAMED"
proof -
  have "block_diff expected served \<noteq> Some UNNAMED"
  proof
    assume d: "block_diff expected served = Some UNNAMED"
    then have ne: "expected \<noteq> served" by (auto simp: block_diff_def)
    with d have fields: "cb_height expected = cb_height served" "cb_hash expected = cb_hash served"
      "cb_prev_hash expected = cb_prev_hash served" "cb_time expected = cb_time served"
      "cb_header expected = cb_header served" "cb_chain_metadata expected = cb_chain_metadata served"
      and len: "length (cb_vtx expected) = length (cb_vtx served)"
      and vtx: "vtx_diff 0 (zip (cb_vtx expected) (cb_vtx served)) (Some UNNAMED) = Some UNNAMED"
      by (simp_all add: block_diff_def same_path block_paths)
    from vtx len have "cb_vtx expected = cb_vtx served" by (simp add: vtx_diff_unnamed)
    with fields have "expected = served" by (cases expected; cases served) simp
    with ne show False ..
  qed
  then show ?thesis by (simp add: block_diff_None)
qed

text \<open>Tree states compare on every field but the network.\<close>

lemma show_nat_inject: "show_nat m = show_nat n \<longleftrightarrow> m = n"
  by (metis option.inject parse_show_nat)

lemma show_u64_inject: "show_u64 a = show_u64 b \<longleftrightarrow> a = b"
  by (simp add: show_u64_def show_nat_inject word_unat_eq_iff)

lemma tree_state_diff_None:
  "tree_state_diff expected served = None \<longleftrightarrow> served\<lparr>ts_network := ts_network expected\<rparr> = expected"
  by (cases expected; cases served) (auto simp: tree_state_diff_def show_u64_inject)

text \<open>Pool selection keeps the transactions with a shielded part, stripped of the rest.\<close>

lemma shielded_idem: "shielded (shielded b) = shielded b"
proof -
  have "filter has_shielded (map (\<lambda>tx. tx\<lparr>tx_vin := [], tx_vout := []\<rparr>)
      (filter has_shielded (map (\<lambda>tx. tx\<lparr>tx_vin := [], tx_vout := []\<rparr>) txs))) =
    filter has_shielded (map (\<lambda>tx. tx\<lparr>tx_vin := [], tx_vout := []\<rparr>) txs)" for txs
    by (induction txs) (simp_all add: has_shielded_def)
  then show ?thesis by (simp add: shielded_def)
qed

section \<open>Fees balance the transaction\<close>

text \<open>
  The reference: \<open>vals\<close> gives the outputs' values of every funding transaction; the fee is what
  goes in less what comes out, over the transparent side and every shielded pool. \<open>gross\<close>
  bounds every partial sum.
\<close>

definition in_values :: "(string \<Rightarrow> int list) \<Rightarrow> (string \<times> u32) list \<Rightarrow> int list" where
  "in_values vals ps = map (\<lambda>(t, v). vals t ! unat v) ps"

definition tx_pool_balances :: "z_tx \<Rightarrow> int list" where
  "tx_pool_balances tx =
     [case zt_sapling_balance tx of None \<Rightarrow> 0 | Some b \<Rightarrow> b,
      case zt_orchard tx of None \<Rightarrow> 0 | Some a \<Rightarrow> balance a,
      case zt_ironwood tx of None \<Rightarrow> 0 | Some a \<Rightarrow> balance a]"

definition net_fee :: "(string \<Rightarrow> int list) \<Rightarrow> (string \<times> u32) list \<Rightarrow> z_tx \<Rightarrow> int" where
  "net_fee vals ps tx =
     sum_list (in_values vals ps) - sum_list (map o_value (zt_vout tx)) + sum_list (tx_pool_balances tx)
     + sum_list (map (\<lambda>js. vpub_new js - vpub_old js) (zt_joinsplits tx))"

definition gross :: "(string \<Rightarrow> int list) \<Rightarrow> (string \<times> u32) list \<Rightarrow> z_tx \<Rightarrow> int" where
  "gross vals ps tx =
     sum_list (map abs (in_values vals ps)) + sum_list (map abs (map o_value (zt_vout tx)))
     + sum_list (map abs (tx_pool_balances tx))
     + sum_list (map (\<lambda>js. \<bar>vpub_new js\<bar> + \<bar>vpub_old js\<bar>) (zt_joinsplits tx))"

definition cache_ok :: "(string \<Rightarrow> int list) \<Rightarrow> 'z zebra \<Rightarrow> bool" where
  "cache_ok vals z \<longleftrightarrow> (\<forall>t vs. funding z t = Some vs \<longrightarrow> vs = vals t)"

definition answers_outputs :: "'z node \<Rightarrow> (string \<Rightarrow> int list) \<Rightarrow> bool" where
  "answers_outputs nd vals \<longleftrightarrow>
     (\<forall>t c. \<exists>c' outs. call_rawtx_outputs nd t c = (c', Inr outs) \<and> map o_value outs = vals t)"

lemma add_i64_ok: "\<bar>a\<bar> + \<bar>b\<bar> < 2 ^ 63 \<Longrightarrow> add_i64 a b = Inr (a + b)"
  unfolding add_i64_def by (rule if_P) linarith

lemma abs_sum_list: "\<bar>sum_list xs\<bar> \<le> sum_list (map abs xs)" for xs :: "int list"
  by (induction xs) auto

lemma sum_list_abs_nonneg: "0 \<le> sum_list (map abs xs)" for xs :: "int list"
  by (induction xs) auto

lemma sum_i64_ok: "\<bar>acc\<bar> + sum_list (map abs xs) < 2 ^ 63 \<Longrightarrow> sum_i64 acc xs = Inr (acc + sum_list xs)"
proof (induction xs arbitrary: acc)
  case (Cons x xs)
  have nn: "0 \<le> sum_list (map abs xs)" by (rule sum_list_abs_nonneg)
  with Cons(2) have "add_i64 acc x = Inr (acc + x)" by (intro add_i64_ok) simp
  moreover have "\<bar>acc + x\<bar> + sum_list (map abs xs) < 2 ^ 63" using Cons(2) nn by simp
  ultimately show ?case using Cons(1) by (simp add: add.assoc)
qed simp

lemma prevout_cached:
  assumes "answers_outputs nd vals" "cache_ok vals z" "unat v < length (vals t)"
  shows "\<exists>z'. prevout nd t v z = (z', Inr (vals t ! unat v)) \<and> cache_ok vals z'"
proof (cases "funding z t")
  case (Some vs)
  with assms show ?thesis by (auto simp: prevout_def zbind_def zret_def cache_ok_def)
next
  case None
  from assms(1) obtain c' outs where
    "call_rawtx_outputs nd t (chain z) = (c', Inr outs)" "map o_value outs = vals t"
    unfolding answers_outputs_def by blast
  with None assms(2,3) show ?thesis
    by (auto simp: prevout_def zbind_def zcall_def zret_def cache_ok_def Let_def)
qed

lemma fee_inputs_sum:
  assumes "answers_outputs nd vals"
  shows "cache_ok vals z \<Longrightarrow> list_all (\<lambda>(t, v). unat v < length (vals t)) ps \<Longrightarrow>
    \<bar>acc\<bar> + sum_list (map abs (in_values vals ps)) < 2 ^ 63 \<Longrightarrow>
    \<exists>z'. fee_inputs nd acc (map (\<lambda>(t, v). SpendIn t v) ps) z = (z', Inr (Some (acc + sum_list (in_values vals ps)))) \<and> cache_ok vals z'"
proof (induction ps arbitrary: acc z)
  case Nil
  then show ?case by (auto simp: zret_def in_values_def)
next
  case (Cons p ps)
  obtain t v where p: "p = (t, v)" by (cases p)
  define x where "x = vals t ! unat v"
  have nn: "0 \<le> sum_list (map abs (in_values vals ps))" by (rule sum_list_abs_nonneg)
  have iv: "in_values vals (p # ps) = x # in_values vals ps" by (simp add: in_values_def p x_def)
  from Cons(3) p have "unat v < length (vals t)" by simp
  from prevout_cached [OF assms Cons(2) this] obtain z' where
    z': "prevout nd t v z = (z', Inr x)" "cache_ok vals z'" by (auto simp: x_def)
  have add: "add_i64 acc x = Inr (acc + x)" using Cons(4) nn unfolding iv by (intro add_i64_ok) simp
  have bound: "\<bar>acc + x\<bar> + sum_list (map abs (in_values vals ps)) < 2 ^ 63" using Cons(4) nn unfolding iv by simp
  from Cons(1) [OF z'(2) _ bound] Cons(3) show ?case
    by (auto simp: p iv [unfolded p] zbind_def zlift_def z'(1) add add.assoc)
qed

lemma joinsplit_sums:
  assumes "sum_list (map (\<lambda>js. \<bar>vpub_new js\<bar> + \<bar>vpub_old js\<bar>) jss) < 2 ^ 63"
  shows "collect_ok (\<lambda>js. add_i64 (vpub_new js) (- vpub_old js)) jss = Inr (map (\<lambda>js. vpub_new js - vpub_old js) jss)"
    and "sum_list (map abs (map (\<lambda>js. vpub_new js - vpub_old js) jss)) \<le> sum_list (map (\<lambda>js. \<bar>vpub_new js\<bar> + \<bar>vpub_old js\<bar>) jss)"
proof -
  show "sum_list (map abs (map (\<lambda>js. vpub_new js - vpub_old js) jss)) \<le> sum_list (map (\<lambda>js. \<bar>vpub_new js\<bar> + \<bar>vpub_old js\<bar>) jss)"
    unfolding map_map comp_def by (intro sum_list_mono) linarith
  show "collect_ok (\<lambda>js. add_i64 (vpub_new js) (- vpub_old js)) jss = Inr (map (\<lambda>js. vpub_new js - vpub_old js) jss)"
    using assms
  proof (induction jss)
    case (Cons js jss)
    have "0 \<le> sum_list (map (\<lambda>js. \<bar>vpub_new js\<bar> + \<bar>vpub_old js\<bar>) jss)"
      by (intro sum_list_nonneg) auto
    with Cons(2) have "\<bar>vpub_new js\<bar> + \<bar>- vpub_old js\<bar> < 2 ^ 63"
      and "sum_list (map (\<lambda>js. \<bar>vpub_new js\<bar> + \<bar>vpub_old js\<bar>) jss) < 2 ^ 63"
      by (simp_all add: abs_minus_cancel)
    with Cons(1) show ?case by (simp add: add_i64_ok)
  qed simp
qed

lemma shielded_balance_ok:
  assumes "sum_list (map abs (tx_pool_balances tx)) +
      sum_list (map (\<lambda>js. \<bar>vpub_new js\<bar> + \<bar>vpub_old js\<bar>) (zt_joinsplits tx)) < 2 ^ 63"
  shows "shielded_balance tx = Inr (sum_list (tx_pool_balances tx) +
      sum_list (map (\<lambda>js. vpub_new js - vpub_old js) (zt_joinsplits tx)))"
proof -
  define jss where "jss = map (\<lambda>js. vpub_new js - vpub_old js) (zt_joinsplits tx)"
  define s where "s = (case zt_sapling_balance tx of None \<Rightarrow> 0 | Some b \<Rightarrow> b)"
  define a where "a = (case zt_orchard tx of None \<Rightarrow> 0 | Some a \<Rightarrow> balance a)"
  define i where "i = (case zt_ironwood tx of None \<Rightarrow> 0 | Some a \<Rightarrow> balance a)"
  have pools: "tx_pool_balances tx = [s, a, i]" by (simp add: tx_pool_balances_def s_def a_def i_def)
  have "0 \<le> \<bar>s\<bar> + \<bar>a\<bar> + \<bar>i\<bar>" by simp
  with assms pools have "sum_list (map (\<lambda>js. \<bar>vpub_new js\<bar> + \<bar>vpub_old js\<bar>) (zt_joinsplits tx)) < 2 ^ 63" by simp
  note js = joinsplit_sums [OF this, folded jss_def]
  have "\<bar>sum_list jss\<bar> \<le> sum_list (map abs jss)" by (rule abs_sum_list)
  with js(2) assms pools have "\<bar>s\<bar> + sum_list (map abs [a, i, sum_list jss]) < 2 ^ 63"
    and "\<bar>0\<bar> + sum_list (map abs jss) < 2 ^ 63" by simp_all
  from sum_i64_ok [OF this(1)] sum_i64_ok [OF this(2)] js(1) show ?thesis
    unfolding shielded_balance_def pools s_def [symmetric] a_def [symmetric] i_def [symmetric] jss_def [symmetric]
    by simp
qed

text \<open>
  The recomputed fee is the transaction's balance: inputs less outputs over the transparent
  side and the Sapling, Orchard, Ironwood and Sprout pools, the same whether a funding transaction
  comes from the node or from the cache; a negative balance is refused, and one of \<open>2^32\<close>
  zatoshis or more is an error too, not the fee 0 the wire would carry.\<close>

theorem fee_exact:
  assumes "answers_outputs nd vals" "cache_ok vals z"
    and "zt_vin tx = map (\<lambda>(t, v). SpendIn t v) ps"
    and "list_all (\<lambda>(t, v). unat v < length (vals t)) ps"
    and "gross vals ps tx < 2 ^ 63"
  shows "\<exists>z'. cache_ok vals z' \<and> fee nd tx z = (z',
     if net_fee vals ps tx < 0 then Inl (Shape ''getblock'' (''tx '' @ zt_txid tx @ '' has a negative fee''))
     else if net_fee vals ps tx < 2 ^ 32 then Inr (of_int (net_fee vals ps tx))
     else Inl (Shape ''getblock'' (''tx '' @ zt_txid tx @ '' fee overflows u32'')))"
proof -
  define ins where "ins = sum_list (in_values vals ps)"
  define outs where "outs = map o_value (zt_vout tx)"
  define gi where "gi = sum_list (map abs (in_values vals ps))"
  define go where "go = sum_list (map abs outs)"
  define gp where "gp = sum_list (map abs (tx_pool_balances tx))"
  define gj where "gj = sum_list (map (\<lambda>js. \<bar>vpub_new js\<bar> + \<bar>vpub_old js\<bar>) (zt_joinsplits tx))"
  have nn: "0 \<le> gi" "0 \<le> go" "0 \<le> gp" "0 \<le> gj"
    unfolding gi_def go_def gp_def gj_def by (intro sum_list_abs_nonneg sum_list_nonneg; auto)+
  have total: "gi + go + gp + gj < 2 ^ 63"
    using assms(5) by (simp only: gross_def gi_def go_def gp_def gj_def outs_def)
  define bal where "bal = sum_list (tx_pool_balances tx) + sum_list (map (\<lambda>js. vpub_new js - vpub_old js) (zt_joinsplits tx))"
  have "\<bar>0\<bar> + sum_list (map abs (in_values vals ps)) < 2 ^ 63" using nn total by (simp add: gi_def [symmetric])
  from fee_inputs_sum [OF assms(1,2,4) this] obtain z' where
    z': "fee_inputs nd 0 (zt_vin tx) z = (z', Inr (Some ins))" "cache_ok vals z'"
    by (auto simp: assms(3) ins_def)
  have "\<bar>0\<bar> + sum_list (map abs outs) < 2 ^ 63" using nn total by (simp add: go_def [symmetric])
  from sum_i64_ok [OF this] have os: "sum_i64 0 outs = Inr (sum_list outs)" by simp
  have "gp + gj < 2 ^ 63" using nn total by linarith
  then have sb: "shielded_balance tx = Inr bal"
    unfolding gp_def gj_def bal_def by (rule shielded_balance_ok)
  have bi: "\<bar>ins\<bar> \<le> gi" unfolding ins_def gi_def by (rule abs_sum_list)
  have bo: "\<bar>sum_list outs\<bar> \<le> go" unfolding go_def by (rule abs_sum_list)
  have "gj < 2 ^ 63" using nn total by linarith
  from joinsplit_sums(2) [OF this [unfolded gj_def]] have
    "\<bar>sum_list (map (\<lambda>js. vpub_new js - vpub_old js) (zt_joinsplits tx))\<bar> \<le> gj"
    unfolding gj_def by (rule order_trans [OF abs_sum_list])
  moreover have "\<bar>sum_list (tx_pool_balances tx)\<bar> \<le> gp" unfolding gp_def by (rule abs_sum_list)
  ultimately have bb: "\<bar>bal\<bar> \<le> gp + gj" unfolding bal_def by linarith
  have "add_i64 ins (- sum_list outs) = Inr (ins - sum_list outs)"
    using bi bo nn total add_i64_ok [of ins "- sum_list outs"] by simp
  moreover have "add_i64 (ins - sum_list outs) bal = Inr (net_fee vals ps tx)"
    using bi bo bb total add_i64_ok [of "ins - sum_list outs" bal]
    by (simp add: net_fee_def ins_def outs_def bal_def)
  ultimately have "fee nd tx z = (z', fee_of tx (net_fee vals ps tx))"
    by (simp add: fee_def zbind_def z'(1) zlift_def os [unfolded outs_def] sb outs_def)
  then show ?thesis using z'(2) by (simp only: fee_of_def) blast
qed

theorem fee_exact_witness:
  "\<exists>z'. cache_ok (\<lambda>_. [7000000000]) z' \<and> fee
     \<lparr>call_tip = \<lambda>c. (c, Inr 0), call_getblockhash = \<lambda>_ c. (c, Inl []), call_getblock = \<lambda>_ c. (c, Inl []),
      call_rawtx_outputs = \<lambda>_ c. (c, Inr [\<lparr>o_value = 7000000000, o_script = []\<rparr>]),
      call_treestate = \<lambda>_ c. (c, Inl []), call_subtrees = \<lambda>_ c. (c, Inl []), call_utxos = \<lambda>_ c. (c, Inl []),
      call_rawtx = \<lambda>_ c. (c, Inl []), call_balance = \<lambda>_ c. (c, Inl []), call_txids = \<lambda>_ _ _ c. (c, Inl []),
      call_mempool = \<lambda>c. (c, Inl [])\<rparr>
     \<lparr>zt_txid = ''t'', zt_vin = [SpendIn ''f'' 0], zt_vout = [\<lparr>o_value = 1000000000, o_script = []\<rparr>],
      zt_spends = [], zt_outputs = [], zt_joinsplits = [], zt_orchard = None, zt_ironwood = None,
      zt_sapling_balance = Some (- 500000000)\<rparr>
     \<lparr>chain = (), funding = Map.empty\<rparr> = (z', Inl (Shape ''getblock'' (''tx t fee overflows u32'')))"
  using fee_exact [of
     "\<lparr>call_tip = \<lambda>c. (c, Inr 0), call_getblockhash = \<lambda>_ c. (c, Inl []), call_getblock = \<lambda>_ c. (c, Inl []),
      call_rawtx_outputs = \<lambda>_ c. (c, Inr [\<lparr>o_value = 7000000000, o_script = []\<rparr>]),
      call_treestate = \<lambda>_ c. (c, Inl []), call_subtrees = \<lambda>_ c. (c, Inl []), call_utxos = \<lambda>_ c. (c, Inl []),
      call_rawtx = \<lambda>_ c. (c, Inl []), call_balance = \<lambda>_ c. (c, Inl []), call_txids = \<lambda>_ _ _ c. (c, Inl []),
      call_mempool = \<lambda>c. (c, Inl [])\<rparr>"
     "\<lambda>_. [7000000000]" "\<lparr>chain = (), funding = Map.empty\<rparr>"
     "\<lparr>zt_txid = ''t'', zt_vin = [SpendIn ''f'' 0], zt_vout = [\<lparr>o_value = 1000000000, o_script = []\<rparr>],
      zt_spends = [], zt_outputs = [], zt_joinsplits = [], zt_orchard = None, zt_ironwood = None,
      zt_sapling_balance = Some (- 500000000)\<rparr>"
     "[(''f'', 0)]"]
  by (simp add: answers_outputs_def cache_ok_def gross_def net_fee_def in_values_def tx_pool_balances_def)

end
