(* ===== verification/Load_Audit.thy ===== *)
theory Load_Audit
  imports Load_Ledger Load_Reference
begin

text \<open>
  The authority tier of the load tests (\<open>src/src/loadtest/audit.rs\<close>): served answers decoded,
  deferred until their block is buried, and judged against the node. What the tier calls from
  outside is one record: the node, the clock and the waits, the protobuf decoders and printers, and the
  digest. The state \<open>'z\<close> is the outside world; every call and wait may move it. \<open>None\<close> is a
  panic: the unchecked \<open>u32\<close> additions of the burial depth.
\<close>

section \<open>Data\<close>

record 'z outside =
  node :: "'z node"
  hexd :: "string \<Rightarrow> string + bytes"
  now :: "'z \<Rightarrow> int"
  sleep :: "'z \<Rightarrow> 'z"
  recv_wait :: "'z \<Rightarrow> 'z"
  decode_block :: "bytes \<Rightarrow> string + proto_block"
  decode_id :: "bytes \<Rightarrow> string + u64 \<times> bytes"
  decode_tree :: "bytes \<Rightarrow> string + tree_state"
  decode_root :: "bytes \<Rightarrow> string + subtree_root"
  decode_raw :: "bytes \<Rightarrow> string + bytes \<times> u64"
  decode_info :: "bytes \<Rightarrow> string + string \<times> u64 \<times> u64"
  decode_utxos :: "bytes \<Rightarrow> string + address_utxo list"
  blake :: "bytes \<Rightarrow> 128 word"
  debug_root :: "subtree_root \<Rightarrow> string"
  debug_utxo :: "address_utxo \<Rightarrow> string"

record expect =
  chain_name :: string
  sapling_activation :: u32

record ('z, 'q) auditor =
  au_zebra :: "'z zebra"
  au_ledger :: "'q ledger"
  au_expect :: expect
  au_tip :: "u32 \<times> int"
  au_deferred :: "(u32 \<times> audit) list"
  au_roots :: "string \<rightharpoonup> subtree_root list"
  au_mempool :: "128 word list"
  au_audited_blocks :: u64

datatype audit_verdict = Holds | Reorged | Unjudged | Differs u64 string

definition BURIED :: u32 where "BURIED = 10"
definition FEE_CHECK_EVERY :: u64 where "FEE_CHECK_EVERY = 8"
definition TIP_REFRESH :: int where "TIP_REFRESH = 5"

definition new_auditor :: "'z outside \<Rightarrow> 'z zebra \<Rightarrow> 'q ledger \<Rightarrow> expect \<Rightarrow> ('z, 'q) auditor" where
  "new_auditor out z lg ex =
     \<lparr>au_zebra = z, au_ledger = lg, au_expect = ex, au_tip = (0, now out (chain z) - TIP_REFRESH),
      au_deferred = [], au_roots = Map.empty, au_mempool = [], au_audited_blocks = 0\<rparr>"

definition differs :: "u64 \<Rightarrow> string option \<Rightarrow> audit_verdict" where
  "differs height diff = (case diff of None \<Rightarrow> Holds | Some detail \<Rightarrow> Differs height detail)"

text \<open>A call on the node, with the auditor around it.\<close>

definition on_zebra :: "('z, 'a) zm \<Rightarrow> ('z, 'q) auditor \<Rightarrow> ('z, 'q) auditor \<times> 'a answered" where
  "on_zebra m au = (case m (au_zebra au) of (z, r) \<Rightarrow> (au\<lparr>au_zebra := z\<rparr>, r))"

definition current_tip :: "'z outside \<Rightarrow> ('z, 'q) auditor \<Rightarrow> ('z, 'q) auditor \<times> u32 option" where
  "current_tip out au =
     (if TIP_REFRESH \<le> now out (chain (au_zebra au)) - snd (au_tip au)
      then (case on_zebra (zebra_tip (node out)) au of
              (au, Inl _) \<Rightarrow> (au, None)
            | (au, Inr t) \<Rightarrow> (au\<lparr>au_tip := (t, now out (chain (au_zebra au)))\<rparr>, Some t))
      else (au, Some (fst (au_tip au))))"

section \<open>Verdicts\<close>

definition judge_shielded :: "'z outside \<Rightarrow> u32 \<Rightarrow> bytes \<Rightarrow> ('z, 'q) auditor \<Rightarrow> ('z, 'q) auditor \<times> audit_verdict" where
  "judge_shielded out height msg au =
     (case decode_block out msg of
        Inl e \<Rightarrow> (au, Differs (ucast height) (''undecodable: '' @ e))
      | Inr served \<Rightarrow>
          (let n = au_audited_blocks au + 1; au = au\<lparr>au_audited_blocks := n\<rparr>;
               fs = (if n mod FEE_CHECK_EVERY = 0 then Checked else AsServed served)
           in case on_zebra (compact_block_of (hexd out) (node out) height fs) au of
                (au, Inl _) \<Rightarrow> (au, Unjudged)
              | (au, Inr expected) \<Rightarrow> (au, differs (ucast height) (block_diff (shielded expected) served))))"

definition judge_full :: "'z outside \<Rightarrow> u32 \<Rightarrow> bytes \<Rightarrow> ('z, 'q) auditor \<Rightarrow> ('z, 'q) auditor \<times> audit_verdict" where
  "judge_full out height msg au =
     (case decode_block out msg of
        Inl e \<Rightarrow> (au, Differs (ucast height) (''undecodable: '' @ e))
      | Inr served \<Rightarrow>
          (case on_zebra (block_hash (hexd out) (node out) height) au of
             (au, Inl _) \<Rightarrow> (au, Unjudged)
           | (au, Inr hash) \<Rightarrow>
               if hash \<noteq> cb_hash served then (au, Reorged)
               else (case on_zebra (compact_block_of (hexd out) (node out) height (AsServed served)) au of
                       (au, Inl _) \<Rightarrow> (au, Unjudged)
                     | (au, Inr expected) \<Rightarrow> (au, differs (ucast height) (block_diff expected served)))))"

definition judge_tree :: "'z outside \<Rightarrow> u32 \<Rightarrow> bytes \<Rightarrow> ('z, 'q) auditor \<Rightarrow> ('z, 'q) auditor \<times> audit_verdict" where
  "judge_tree out height msg au =
     (case decode_tree out msg of
        Inl e \<Rightarrow> (au, Differs (ucast height) (''undecodable: '' @ e))
      | Inr served \<Rightarrow>
          (case on_zebra (tree_state_of (node out) height) au of
             (au, Inl _) \<Rightarrow> (au, Unjudged)
           | (au, Inr expected) \<Rightarrow>
               if ts_hash expected \<noteq> ts_hash served then (au, Reorged)
               else (au, differs (ucast height) (tree_state_diff expected served))))"

fun decode_roots :: "'z outside \<Rightarrow> bytes list \<Rightarrow> string + subtree_root list" where
  "decode_roots out [] = Inr []"
| "decode_roots out (m # ms) =
     (case decode_root out m of Inl e \<Rightarrow> Inl e | Inr r \<Rightarrow> map_sum id ((#) r) (decode_roots out ms))"

text \<open>The listing, re-read when the answer reaches past it.\<close>

definition listed_roots ::
  "'z outside \<Rightarrow> string \<Rightarrow> nat \<Rightarrow> ('z, 'q) auditor \<Rightarrow> ('z, 'q) auditor \<times> subtree_root list answered" where
  "listed_roots out pool reach au =
     (case au_roots au pool of
        Some roots \<Rightarrow>
          if length roots < reach then
            (case on_zebra (subtree_roots (hexd out) (node out) pool) au of
               (au, Inl e) \<Rightarrow> (au, Inl e)
             | (au, Inr roots) \<Rightarrow> (au\<lparr>au_roots := (au_roots au)(pool \<mapsto> roots)\<rparr>, Inr roots))
          else (au, Inr roots)
      | None \<Rightarrow>
          (case on_zebra (subtree_roots (hexd out) (node out) pool) au of
             (au, Inl e) \<Rightarrow> (au, Inl e)
           | (au, Inr roots) \<Rightarrow> (au\<lparr>au_roots := (au_roots au)(pool \<mapsto> roots)\<rparr>, Inr roots)))"

fun first_differing :: "subtree_root list \<Rightarrow> subtree_root list \<Rightarrow> nat option" where
  "first_differing (x # xs) (y # ys) = (if x \<noteq> y then Some 0 else map_option Suc (first_differing xs ys))"
| "first_differing _ _ = None"

definition expected_roots :: "subtree_root list \<Rightarrow> u32 \<Rightarrow> u32 \<Rightarrow> subtree_root list" where
  "expected_roots every start most =
     (let stop = (if most = 0 then length every else min (length every) (unat start + unat most)) in
      if unat start \<le> stop then take (stop - unat start) (drop (unat start) every) else [])"

definition judge_roots ::
  "'z outside \<Rightarrow> string \<Rightarrow> u32 \<Rightarrow> u32 \<Rightarrow> subtree_root list \<Rightarrow> subtree_root list \<Rightarrow> audit_verdict" where
  "judge_roots out pool start most served expected =
     (case first_differing served expected of
        Some i \<Rightarrow> Differs (completing_block_height (expected ! i))
                     (pool @ '' root '' @ show_nat (unat start + i) @ '': served '' @ debug_root out (served ! i)
                        @ '', zebra '' @ debug_root out (expected ! i))
      | None \<Rightarrow>
          if length served = length expected then Holds
          else if length served < length expected then Unjudged
          else Differs 0 (pool @ '' from '' @ show_u64 start @ '' max '' @ show_u64 most @ '': served ''
                 @ show_nat (length served) @ '' roots, zebra '' @ show_nat (length expected)))"

definition judge_subtrees ::
  "'z outside \<Rightarrow> string \<Rightarrow> u32 \<Rightarrow> u32 \<Rightarrow> bytes list \<Rightarrow> ('z, 'q) auditor \<Rightarrow> ('z, 'q) auditor \<times> audit_verdict" where
  "judge_subtrees out pool start most msgs au =
     (case decode_roots out msgs of
        Inl e \<Rightarrow> (au, Differs 0 (pool @ '' undecodable root: '' @ e))
      | Inr served \<Rightarrow>
          (case listed_roots out pool (unat start + length served) au of
             (au, Inl _) \<Rightarrow> (au, Unjudged)
           | (au, Inr every) \<Rightarrow>
               (au, judge_roots out pool start most served (expected_roots every start most))))"

definition judge_latest :: "'z outside \<Rightarrow> bytes \<Rightarrow> ('z, 'q) auditor \<Rightarrow> ('z, 'q) auditor \<times> audit_verdict" where
  "judge_latest out msg au =
     (case decode_id out msg of
        Inl e \<Rightarrow> (au, Differs 0 (''undecodable: '' @ e))
      | Inr (height, hash) \<Rightarrow>
          (case on_zebra (block_hash (hexd out) (node out) (ucast height)) au of
             (au, Inl _) \<Rightarrow> (au, Unjudged)
           | (au, Inr h) \<Rightarrow> (au, if h = hash then Holds else Reorged)))"

fun mempool_read :: "'z outside \<Rightarrow> string list \<Rightarrow> ('z, 'q) auditor \<Rightarrow> ('z, 'q) auditor" where
  "mempool_read out [] au = au"
| "mempool_read out (t # ts) au =
     (case on_zebra (raw_transaction (hexd out) (node out) t) au of
        (au, Inl _) \<Rightarrow> mempool_read out ts au
      | (au, Inr raw) \<Rightarrow> mempool_read out ts (au\<lparr>au_mempool := blake out raw # au_mempool au\<rparr>))"

definition judge_mempool :: "'z outside \<Rightarrow> bytes \<Rightarrow> ('z, 'q) auditor \<Rightarrow> ('z, 'q) auditor \<times> audit_verdict" where
  "judge_mempool out msg au =
     (case decode_raw out msg of
        Inl e \<Rightarrow> (au, Differs 0 (''undecodable: '' @ e))
      | Inr (data, height) \<Rightarrow>
          if height \<noteq> 0 then (au, Differs 0 (''mempool tx served at height '' @ show_u64 height))
          else if blake out data \<in> set (au_mempool au) then (au, Holds)
          else (case on_zebra (mempool_listed (node out)) au of
                  (au, Inl _) \<Rightarrow> (au, Unjudged)
                | (au, Inr listed) \<Rightarrow>
                    (let au = mempool_read out listed au in
                     (au, if blake out data \<in> set (au_mempool au) then Holds else Unjudged))))"

definition judge_info :: "'z outside \<Rightarrow> bytes \<Rightarrow> ('z, 'q) auditor \<Rightarrow> (('z, 'q) auditor \<times> audit_verdict) option" where
  "judge_info out msg au =
     (case decode_info out msg of
        Inl e \<Rightarrow> Some (au, Differs 0 (''undecodable: '' @ e))
      | Inr (name, activation, height) \<Rightarrow>
          (case current_tip out au of
             (au, None) \<Rightarrow> Some (au, Unjudged)
           | (au, Some t) \<Rightarrow>
               if name \<noteq> chain_name (au_expect au)
               then Some (au, Differs 0 (''chain_name: served '' @ name @ '', expected '' @ chain_name (au_expect au)))
               else if activation \<noteq> ucast (sapling_activation (au_expect au))
               then Some (au, Differs 0 (''sapling_activation_height: served '' @ show_u64 activation
                      @ '', expected '' @ show_u64 (sapling_activation (au_expect au))))
               else (let served_tip = ucast height :: u32 in
                     case chk_add t BURIED of
                       None \<Rightarrow> None
                     | Some near \<Rightarrow>
                         if \<not> served_tip \<le> near
                         then Some (au, Differs (ucast served_tip) (''block_height '' @ show_u64 served_tip @ '', zebra '' @ show_u64 t))
                         else (case chk_add served_tip BURIED of
                                 None \<Rightarrow> None
                               | Some reach \<Rightarrow>
                                   Some (au, if t \<le> reach then Holds
                                     else Differs (ucast served_tip) (''block_height '' @ show_u64 served_tip @ '', zebra '' @ show_u64 t))))))"

text \<open>The pair as \<open>{:?}\<close> prints what \<open>find\<close> returns.\<close>

definition debug_pair :: "('a \<Rightarrow> string) \<Rightarrow> ('a \<times> 'a) option \<Rightarrow> string" where
  "debug_pair show_one p =
     (case p of None \<Rightarrow> ''None'' | Some (a, b) \<Rightarrow> ''Some(('' @ show_one a @ '', '' @ show_one b @ ''))'')"

definition judge_utxos :: "'z outside \<Rightarrow> string \<Rightarrow> bytes \<Rightarrow> u32 \<Rightarrow> ('z, 'q) auditor \<Rightarrow> ('z, 'q) auditor \<times> audit_verdict" where
  "judge_utxos out address msg served_tip au =
     (case decode_utxos out msg of
        Inl e \<Rightarrow> (au, Differs 0 (''undecodable: '' @ e))
      | Inr served \<Rightarrow>
          (case on_zebra (zebra_tip (node out)) au of (au, before) \<Rightarrow>
             (case on_zebra (address_utxos (hexd out) (node out) address) au of
                (au, Inl _) \<Rightarrow> (au, Unjudged)
              | (au, Inr expected) \<Rightarrow>
                  if served = expected then (au, Holds)
                  else (case on_zebra (zebra_tip (node out)) au of (au, after) \<Rightarrow>
                          (au, if before = Inr served_tip \<and> after = Inr served_tip
                               then Differs (ucast served_tip) (address @ '': '' @ show_nat (length served)
                                      @ '' served vs '' @ show_nat (length expected) @ '' at zebra; first differing utxo ''
                                      @ debug_pair (debug_utxo out) (find (\<lambda>(s, e). s \<noteq> e) (zip served expected)))
                               else Unjudged)))))"

section \<open>The auditor\<close>

definition book_verdict :: "string \<Rightarrow> ('z, 'q) auditor \<times> audit_verdict \<Rightarrow> ('z, 'q) auditor" where
  "book_verdict check av =
     (case av of (au, v) \<Rightarrow>
        au\<lparr>au_ledger := (case v of
             Holds \<Rightarrow> audited (au_ledger au)
           | Reorged \<Rightarrow> skipped (au_ledger au)
           | Unjudged \<Rightarrow> skipped (au_ledger au)
           | Differs height detail \<Rightarrow> violated check height detail (au_ledger au))\<rparr>)"

fun verdict_on :: "'z outside \<Rightarrow> audit \<Rightarrow> ('z, 'q) auditor \<Rightarrow> (('z, 'q) auditor \<times> audit_verdict) option" where
  "verdict_on out (Shielded h m) au = Some (judge_shielded out h m au)"
| "verdict_on out (FullBlock h m _) au = Some (judge_full out h m au)"
| "verdict_on out (TreeStateAt h m _) au = Some (judge_tree out h m au)"
| "verdict_on out (Subtrees p s x ms) au = Some (judge_subtrees out p s x ms au)"
| "verdict_on out (TipAnswer m) au = Some (judge_latest out m au)"
| "verdict_on out (MempoolTx m) au = Some (judge_mempool out m au)"
| "verdict_on out (LightdInfoAnswer m) au = judge_info out m au"
| "verdict_on out (AddressUtxos a m t) au = Some (judge_utxos out a m t au)"

definition judge_buried :: "'z outside \<Rightarrow> audit \<Rightarrow> ('z, 'q) auditor \<Rightarrow> ('z, 'q) auditor option" where
  "judge_buried out a au = map_option (book_verdict (audit_check a)) (verdict_on out a au)"

definition defer_audit :: "u32 \<Rightarrow> audit \<Rightarrow> ('z, 'q) auditor \<Rightarrow> ('z, 'q) auditor" where
  "defer_audit h a au = au\<lparr>au_deferred := au_deferred au @ [(h, a)]\<rparr>"

fun judge :: "'z outside \<Rightarrow> audit \<Rightarrow> ('z, 'q) auditor \<Rightarrow> ('z, 'q) auditor option" where
  "judge out (FullBlock h m t) au = Some (defer_audit h (FullBlock h m t) au)"
| "judge out (TreeStateAt h m t) au = Some (defer_audit h (TreeStateAt h m t) au)"
| "judge out (TipAnswer m) au =
     (case decode_id out m of
        Inr (height, _) \<Rightarrow> Some (defer_audit (ucast height) (TipAnswer m) au)
      | Inl e \<Rightarrow> Some (au\<lparr>au_ledger := violated ''latest_block'' 0 (''undecodable BlockID: '' @ e) (au_ledger au)\<rparr>))"
| "judge out a au = judge_buried out a au"

text \<open>The scan of the deferred answers at tip \<open>t\<close>; \<open>waiting\<close> collects those not yet buried.\<close>

fun release_scan ::
  "'z outside \<Rightarrow> u32 \<Rightarrow> (u32 \<times> audit) list \<Rightarrow> (u32 \<times> audit) list \<Rightarrow> ('z, 'q) auditor \<Rightarrow> ('z, 'q) auditor option" where
  "release_scan out t [] waiting au = Some (au\<lparr>au_deferred := waiting\<rparr>)"
| "release_scan out t ((h, a) # ds) waiting au =
     (case chk_add h BURIED of
        None \<Rightarrow> None
      | Some deep \<Rightarrow>
          if deep \<le> t
          then (case judge_buried out a au of None \<Rightarrow> None | Some au \<Rightarrow> release_scan out t ds waiting au)
          else release_scan out t ds (waiting @ [(h, a)]) au)"

definition release_buried :: "'z outside \<Rightarrow> ('z, 'q) auditor \<Rightarrow> ('z, 'q) auditor option" where
  "release_buried out au =
     (case current_tip out au of
        (au, None) \<Rightarrow> Some au
      | (au, Some t) \<Rightarrow> release_scan out t (au_deferred au) [] (au\<lparr>au_deferred := []\<rparr>))"

definition wait_world :: "('z \<Rightarrow> 'z) \<Rightarrow> ('z, 'q) auditor \<Rightarrow> ('z, 'q) auditor" where
  "wait_world w au = au\<lparr>au_zebra := (au_zebra au)\<lparr>chain := w (chain (au_zebra au))\<rparr>\<rparr>"

fun run_queue :: "'z outside \<Rightarrow> audit list \<Rightarrow> ('z, 'q) auditor \<Rightarrow> ('z, 'q) auditor option" where
  "run_queue out [] au = Some (wait_world (recv_wait out) au)"
| "run_queue out (a # queue) au =
     (case judge out a (wait_world (recv_wait out) au) of
        None \<Rightarrow> None
      | Some au \<Rightarrow> (case release_buried out au of None \<Rightarrow> None | Some au \<Rightarrow> run_queue out queue au))"

text \<open>The settle loop; \<open>fuel\<close> bounds its turns, and \<open>Some None\<close> means it ran out.\<close>

fun settle_loop :: "nat \<Rightarrow> 'z outside \<Rightarrow> int \<Rightarrow> ('z, 'q) auditor \<Rightarrow> ('z, 'q) auditor option option" where
  "settle_loop 0 out deadline au = Some None"
| "settle_loop (Suc fuel) out deadline au =
     (if au_deferred au \<noteq> [] \<and> now out (chain (au_zebra au)) < deadline
      then (case release_buried out (wait_world (sleep out) au) of
              None \<Rightarrow> None
            | Some au \<Rightarrow> settle_loop fuel out deadline au)
      else Some (Some au))"

definition skip_rest :: "('z, 'q) auditor \<Rightarrow> ('z, 'q) auditor" where
  "skip_rest au = fold (\<lambda>_ au. au\<lparr>au_ledger := skipped (au_ledger au)\<rparr>) (au_deferred au) (au\<lparr>au_deferred := []\<rparr>)"

definition run_auditor ::
  "nat \<Rightarrow> 'z outside \<Rightarrow> int \<Rightarrow> audit list \<Rightarrow> ('z, 'q) auditor \<Rightarrow> ('z, 'q) auditor option option" where
  "run_auditor fuel out settle queue au =
     (case run_queue out queue au of
        None \<Rightarrow> None
      | Some au \<Rightarrow>
          map_option (map_option skip_rest)
            (settle_loop fuel out (now out (chain (au_zebra au)) + settle) au))"

section \<open>What the outside world is relied on for\<close>

text \<open>
  The clock never runs back over a node call or a wait, and a sleep lasts its time; the node's
  tip stays clear of the end of the \<open>u32\<close> range.
\<close>

definition orderly :: "'z outside \<Rightarrow> bool" where
  "orderly out \<longleftrightarrow>
     (\<forall>c. now out c + TIP_REFRESH \<le> now out (sleep out c)) \<and>
     (\<forall>c. now out c \<le> now out (recv_wait out c)) \<and>
     (\<forall>c. now out c \<le> now out (fst (call_tip (node out) c))) \<and>
     (\<forall>h c. now out c \<le> now out (fst (call_getblockhash (node out) h c))) \<and>
     (\<forall>h c. now out c \<le> now out (fst (call_getblock (node out) h c))) \<and>
     (\<forall>t c. now out c \<le> now out (fst (call_rawtx_outputs (node out) t c))) \<and>
     (\<forall>h c. now out c \<le> now out (fst (call_treestate (node out) h c))) \<and>
     (\<forall>p c. now out c \<le> now out (fst (call_subtrees (node out) p c))) \<and>
     (\<forall>a c. now out c \<le> now out (fst (call_utxos (node out) a c))) \<and>
     (\<forall>t c. now out c \<le> now out (fst (call_rawtx (node out) t c))) \<and>
     (\<forall>c. now out c \<le> now out (fst (call_mempool (node out) c))) \<and>
     (\<forall>c t. snd (call_tip (node out) c) = Inr t \<longrightarrow> unat t + 20 < 2 ^ 32)"

text \<open>A node computation that never turns the clock back.\<close>

definition forward :: "'z outside \<Rightarrow> ('z, 'a) zm \<Rightarrow> bool" where
  "forward out m \<longleftrightarrow> (\<forall>z. now out (chain z) \<le> now out (chain (fst (m z))))"

named_theorems forward_intros \<open>computations that keep the clock\<close>

lemma forward_zret [forward_intros]: "forward out (zret a)"
  by (simp add: forward_def zret_def)

lemma forward_zfail [forward_intros]: "forward out (zfail e)"
  by (simp add: forward_def zfail_def)

lemma forward_zlift [forward_intros]: "forward out (zlift r)"
  by (simp add: forward_def zlift_def)

lemma forward_zbind [forward_intros]:
  assumes m: "forward out m" and f: "\<And>a. forward out (f a)"
  shows "forward out (zbind m f)"
  unfolding forward_def
proof
  fix z
  obtain z' r where mz: "m z = (z', r)" by fastforce
  have "now out (chain z) \<le> now out (chain z')" using m mz unfolding forward_def by (metis fst_conv)
  moreover have "now out (chain z') \<le> now out (chain (fst (f a z')))" for a using f unfolding forward_def by blast
  ultimately show "now out (chain z) \<le> now out (chain (fst (zbind m f z)))"
    by (cases r) (auto simp: zbind_def mz intro: order_trans)
qed

lemma forward_zcall: "(\<And>c. now out c \<le> now out (fst (f c))) \<Longrightarrow> forward out (zcall f)"
  by (simp add: forward_def zcall_def split: prod.splits) (metis fst_conv)

lemma forward_zmap [forward_intros]: "(\<And>x. forward out (f x)) \<Longrightarrow> forward out (zmap f xs)"
  by (induction xs) (auto intro: forward_intros)

lemma forward_calls [forward_intros]:
  assumes "orderly out"
  shows "forward out (zcall (call_tip (node out)))" "forward out (zcall (call_getblockhash (node out) h))"
    "forward out (zcall (call_getblock (node out) h))" "forward out (zcall (call_rawtx_outputs (node out) t))"
    "forward out (zcall (call_treestate (node out) h))" "forward out (zcall (call_subtrees (node out) p))"
    "forward out (zcall (call_utxos (node out) a))" "forward out (zcall (call_rawtx (node out) t))"
    "forward out (zcall (call_mempool (node out)))"
  using assms by (auto simp: orderly_def intro!: forward_zcall)

lemma forward_prevout [forward_intros]: "orderly out \<Longrightarrow> forward out (prevout (node out) t v)"
proof -
  assume "orderly out"
  then have call: "forward out (zcall (call_rawtx_outputs (node out) t))" by (rule forward_calls)
  have "forward out (\<lambda>z. case funding z t of
              Some values \<Rightarrow> (z, Inr values)
            | None \<Rightarrow> zbind (zcall (call_rawtx_outputs (node out) t))
                (\<lambda>outs z. let values = map o_value outs in (z\<lparr>funding := (funding z)(t \<mapsto> values)\<rparr>, Inr values)) z)"
    (is "forward out (\<lambda>z. case funding z t of Some values \<Rightarrow> (z, Inr values) | None \<Rightarrow> ?m z)")
  proof -
    have "forward out ?m" by (rule forward_zbind [OF call]) (simp add: forward_def Let_def)
    then show ?thesis by (auto simp: forward_def split: option.splits)
  qed
  then show ?thesis unfolding prevout_def by (rule forward_zbind) (auto intro: forward_intros)
qed

lemma forward_fee_inputs [forward_intros]: "orderly out \<Longrightarrow> forward out (fee_inputs (node out) acc ins)"
  by (induction "node out" acc ins rule: fee_inputs.induct) (auto intro!: forward_intros)

lemma forward_fee [forward_intros]: "orderly out \<Longrightarrow> forward out (fee (node out) tx)"
  unfolding fee_def by (auto intro!: forward_intros split: option.splits)

lemma forward_block_tx [forward_intros]: "orderly out \<Longrightarrow> forward out (block_tx hx (node out) fs it)"
  unfolding block_tx_def by (cases fs) (auto intro!: forward_intros)

lemma forward_compact_block [forward_intros]: "orderly out \<Longrightarrow> forward out (compact_block_of hx (node out) h fs)"
  unfolding compact_block_of_def by (auto intro!: forward_intros split: option.splits)

lemma forward_methods [forward_intros]:
  assumes "orderly out"
  shows "forward out (zebra_tip (node out))" "forward out (block_hash hx (node out) h)"
    "forward out (tree_state_of (node out) h)" "forward out (subtree_roots hx (node out) p)"
    "forward out (address_utxos hx (node out) a)" "forward out (raw_transaction hx (node out) t)"
    "forward out (mempool_listed (node out))"
  using assms unfolding zebra_tip_def block_hash_def tree_state_of_def subtree_roots_def subtree_root_of_def
    address_utxos_def raw_transaction_def mempool_listed_def by (auto intro!: forward_intros)

section \<open>Every audit is accounted for\<close>

text \<open>The verdicts booked so far, over the three tallies they go to.\<close>

definition books :: "('z, 'q) auditor \<Rightarrow> u64" where
  "books au = lg_audited (au_ledger au) + lg_skipped (au_ledger au) + lg_violated (au_ledger au)"

definition tip_ok :: "('z, 'q) auditor \<Rightarrow> bool" where
  "tip_ok au \<longleftrightarrow> unat (fst (au_tip au)) + 20 < 2 ^ 32"

definition clock :: "'z outside \<Rightarrow> ('z, 'q) auditor \<Rightarrow> int" where
  "clock out au = now out (chain (au_zebra au))"

text \<open>A judgement moves the world, never the ledger or the deferred answers.\<close>

definition moves :: "'z outside \<Rightarrow> ('z, 'q) auditor \<Rightarrow> ('z, 'q) auditor \<Rightarrow> bool" where
  "moves out au au' \<longleftrightarrow> clock out au \<le> clock out au' \<and> au_ledger au' = au_ledger au \<and>
     au_deferred au' = au_deferred au \<and> (tip_ok au \<longrightarrow> tip_ok au')"

lemma moves_refl [simp]: "moves out au au"
  by (simp add: moves_def)

lemma moves_trans: "moves out a b \<Longrightarrow> moves out b c \<Longrightarrow> moves out a c"
  by (auto simp: moves_def)

lemma on_zebra_moves: "forward out m \<Longrightarrow> on_zebra m au = (au', r) \<Longrightarrow> moves out au au'"
  by (auto simp: on_zebra_def moves_def clock_def tip_ok_def forward_def split: prod.splits) (metis fst_conv)

lemma fields_moves [simp]:
  "moves out au (au'\<lparr>au_audited_blocks := n\<rparr>) = moves out au au'"
  "moves out au (au'\<lparr>au_roots := r\<rparr>) = moves out au au'"
  "moves out au (au'\<lparr>au_mempool := p\<rparr>) = moves out au au'"
  by (simp_all add: moves_def clock_def tip_ok_def)

lemma current_tip_moves:
  assumes "orderly out" "current_tip out au = (au', t)"
  shows "moves out au au'" "tip_ok au \<Longrightarrow> t = Some v \<Longrightarrow> unat v + 20 < 2 ^ 32"
proof -
  obtain au1 r where tip: "on_zebra (zebra_tip (node out)) au = (au1, r)" by fastforce
  from on_zebra_moves [OF forward_methods(1) [OF assms(1)] tip] have m: "moves out au au1" .
  have bound: "r = Inr v \<Longrightarrow> unat v + 20 < 2 ^ 32" for v
  proof -
    assume "r = Inr v"
    with tip have "snd (call_tip (node out) (chain (au_zebra au))) = Inr v"
      by (cases "snd (call_tip (node out) (chain (au_zebra au)))")
        (auto simp: on_zebra_def zebra_tip_def zcall_def split: prod.splits)
    with assms(1) show ?thesis unfolding orderly_def by blast
  qed
  show "moves out au au'" using assms(2) m bound tip
    by (cases r) (auto simp: current_tip_def moves_def clock_def tip_ok_def split: if_splits)
  show "unat v + 20 < 2 ^ 32" if "tip_ok au" "t = Some v"
    using assms(2) that bound tip by (cases r) (auto simp: current_tip_def tip_ok_def split: if_splits)
qed

lemma simple_judges_move:
  assumes "orderly out"
  shows "moves out au (fst (judge_full out h m au))" "moves out au (fst (judge_tree out h m au))"
    "moves out au (fst (judge_latest out m au))" "moves out au (fst (judge_utxos out a m t au))"
    "moves out au (fst (judge_shielded out h m au))"
proof -
  note step = on_zebra_moves [rotated] and fw = forward_compact_block [OF assms] forward_methods [OF assms]
  show "moves out au (fst (judge_full out h m au))"
    by (auto simp: judge_full_def fw split: sum.splits prod.splits if_splits dest!: step [OF _ fw(1)] step [OF _ fw(3)] intro: moves_trans)
  show "moves out au (fst (judge_tree out h m au))"
    by (auto simp: judge_tree_def split: sum.splits prod.splits if_splits dest!: step [OF _ fw(4)])
  show "moves out au (fst (judge_latest out m au))"
    by (auto simp: judge_latest_def split: sum.splits prod.splits if_splits dest!: step [OF _ fw(3)])
  show "moves out au (fst (judge_utxos out a m t au))"
    by (auto simp: judge_utxos_def split: sum.splits prod.splits if_splits dest!: step [OF _ fw(2)] step [OF _ fw(6)] intro: moves_trans)
  have skip: "moves out (au\<lparr>au_audited_blocks := n\<rparr>) b = moves out au b" for n b
    by (simp add: moves_def clock_def tip_ok_def)
  show "moves out au (fst (judge_shielded out h m au))"
    by (auto simp: judge_shielded_def Let_def skip split: sum.splits prod.splits if_splits dest!: step [OF _ fw(1)])
qed

lemma judge_subtrees_moves: "orderly out \<Longrightarrow> moves out au (fst (judge_subtrees out p s x ms au))"
proof -
  assume "orderly out"
  note step = on_zebra_moves [OF forward_methods(4) [OF this]]
  have "listed_roots out p n au = (au', r) \<Longrightarrow> moves out au au'" for n au' r
    by (auto simp: listed_roots_def split: option.splits prod.splits sum.splits if_splits dest: step)
  then show ?thesis by (auto simp: judge_subtrees_def split: sum.splits prod.splits)
qed

lemma mempool_read_moves: "orderly out \<Longrightarrow> moves out au (mempool_read out ts au)"
proof (induction ts arbitrary: au)
  case (Cons t ts)
  note step = on_zebra_moves [OF forward_methods(6) [OF Cons(2)]]
  obtain au1 r where call: "on_zebra (raw_transaction (hexd out) (node out) t) au = (au1, r)" by fastforce
  with step have m: "moves out au au1" .
  show ?case
  proof (cases r)
    case (Inl e)
    with call have "mempool_read out (t # ts) au = mempool_read out ts au1" by simp
    with Cons(1) [OF Cons(2), of au1] m show ?thesis by (auto intro: moves_trans)
  next
    case (Inr raw)
    define au2 where "au2 = au1\<lparr>au_mempool := blake out raw # au_mempool au1\<rparr>"
    have "moves out au au2" using m by (simp add: au2_def)
    moreover have "mempool_read out (t # ts) au = mempool_read out ts au2" using Inr call by (simp add: au2_def)
    ultimately show ?thesis using Cons(1) [OF Cons(2), of au2] by (auto intro: moves_trans)
  qed
qed simp

lemma judge_mempool_moves: "orderly out \<Longrightarrow> moves out au (fst (judge_mempool out m au))"
proof -
  assume ok: "orderly out"
  note step = on_zebra_moves [OF forward_methods(7) [OF ok]]
  show ?thesis
    by (auto simp: judge_mempool_def Let_def split: sum.splits prod.splits if_splits
        dest!: step intro: moves_trans [OF _ mempool_read_moves [OF ok]])
qed

lemma chk_add_u32: "unat a + unat b < 2 ^ 32 \<Longrightarrow> chk_add a b = Some (a + b)" for a b :: u32
  by (simp add: chk_add_def add_no_overflow_iff)

lemma unat_BURIED [simp]: "unat BURIED = 10"
  by (simp add: BURIED_def)

lemma judge_info_moves:
  assumes "orderly out" "tip_ok au"
  shows "\<exists>au' v. judge_info out m au = Some (au', v) \<and> moves out au au'"
proof -
  obtain au1 t where ct: "current_tip out au = (au1, t)" by fastforce
  note tip = current_tip_moves [OF assms(1) ct]
  show ?thesis
  proof (cases "decode_info out m")
    case (Inl e)
    then show ?thesis by (simp add: judge_info_def)
  next
    case (Inr info)
    obtain name act height where info: "info = (name, act, height)" by (cases info)
    show ?thesis
    proof (cases t)
      case None
      then show ?thesis using Inr info ct tip(1) by (simp add: judge_info_def)
    next
      case (Some v)
      from tip(2) [OF assms(2) Some] have v: "unat v + 20 < 2 ^ 32" .
      have near: "chk_add v BURIED = Some (v + BURIED)" "unat (v + BURIED) = unat v + 10"
        using v chk_add_u32 [of v BURIED] chk_add_Some_iff [of v BURIED "v + BURIED"] by simp_all
      have reach: "chk_add s BURIED = Some (s + BURIED)" if "s \<le> v + BURIED" for s
        using that v near(2) by (intro chk_add_u32) (simp add: word_le_nat_alt)
      show ?thesis using Inr info ct tip(1) Some near(1) reach
        by (auto simp: judge_info_def Let_def)
    qed
  qed
qed

lemma verdict_on_moves:
  assumes "orderly out" "tip_ok au"
  shows "\<exists>au' v. verdict_on out a au = Some (au', v) \<and> moves out au au'"
proof -
  have info: "\<exists>r. judge_info out m au = Some r \<and> moves out au (fst r)" for m
    using judge_info_moves [OF assms, of m] by force
  have "\<exists>r. verdict_on out a au = Some r \<and> moves out au (fst r)"
  proof (cases a)
    case (LightdInfoAnswer m)
    then show ?thesis using info by (simp only: verdict_on.simps)
  qed (simp_all add: simple_judges_move [OF assms(1)] judge_subtrees_moves [OF assms(1)]
        judge_mempool_moves [OF assms(1)])
  then show ?thesis by force
qed

lemma books_book: "books (book_verdict check (au, v)) = books au + 1"
  by (cases v) (simp_all add: books_def book_verdict_def audited_def skipped_def violated_def ac_simps)

lemma book_fields [simp]:
  "au_deferred (book_verdict check (au, v)) = au_deferred au" "clock out (book_verdict check (au, v)) = clock out au"
  "tip_ok (book_verdict check (au, v)) = tip_ok au"
  by (simp_all add: book_verdict_def clock_def tip_ok_def)

definition deferred_ok :: "('z, 'q) auditor \<Rightarrow> bool" where
  "deferred_ok au \<longleftrightarrow> (\<forall>(h, a) \<in> set (au_deferred au). unat h + 10 < 2 ^ 32)"

text \<open>Progress from one state to the next with \<open>n\<close> audits taken in.\<close>

definition accounts :: "'z outside \<Rightarrow> nat \<Rightarrow> ('z, 'q) auditor \<Rightarrow> ('z, 'q) auditor \<Rightarrow> bool" where
  "accounts out n au au' \<longleftrightarrow> clock out au \<le> clock out au' \<and> tip_ok au' \<and> deferred_ok au' \<and>
     books au' + of_nat (length (au_deferred au')) = books au + of_nat (length (au_deferred au)) + of_nat n"

lemma accounts_trans: "accounts out n a b \<Longrightarrow> accounts out m b c \<Longrightarrow> accounts out (n + m) a c"
  by (auto simp: accounts_def ac_simps)

lemma judge_buried_books:
  assumes "orderly out" "tip_ok au"
  shows "\<exists>au'. judge_buried out a au = Some au' \<and> clock out au \<le> clock out au' \<and> tip_ok au' \<and>
     au_deferred au' = au_deferred au \<and> books au' = books au + 1"
proof -
  from verdict_on_moves [OF assms] obtain au1 v where v: "verdict_on out a au = Some (au1, v)" "moves out au au1"
    by blast
  then have "books au1 = books au" by (simp add: moves_def books_def)
  with v assms(2) show ?thesis by (simp add: judge_buried_def books_book moves_def)
qed

text \<open>The heights at which deferred answers wait, as served: the burial depth must not wrap.\<close>

fun reach_ok :: "'z outside \<Rightarrow> audit \<Rightarrow> bool" where
  "reach_ok out (FullBlock h m t) \<longleftrightarrow> unat h + 10 < 2 ^ 32"
| "reach_ok out (TreeStateAt h m t) \<longleftrightarrow> unat h + 10 < 2 ^ 32"
| "reach_ok out (TipAnswer m) \<longleftrightarrow>
     (case decode_id out m of Inl _ \<Rightarrow> True | Inr (h, _) \<Rightarrow> unat (ucast h :: u32) + 10 < 2 ^ 32)"
| "reach_ok out _ \<longleftrightarrow> True"

lemma defer_accounts:
  assumes "tip_ok au" "deferred_ok au" "unat h + 10 < 2 ^ 32"
  shows "accounts out 1 au (defer_audit h a au)"
  using assms by (auto simp: accounts_def defer_audit_def clock_def tip_ok_def deferred_ok_def books_def ac_simps)

lemma judge_accounts:
  assumes "orderly out" "tip_ok au" "deferred_ok au" "reach_ok out a"
  shows "\<exists>au'. judge out a au = Some au' \<and> accounts out 1 au au'"
proof -
  have now: "\<exists>au'. judge_buried out b au = Some au' \<and> accounts out 1 au au'" for b
  proof -
    from judge_buried_books [OF assms(1,2), of b] obtain au' where
      au': "judge_buried out b au = Some au'" "clock out au \<le> clock out au'" "tip_ok au'"
        "au_deferred au' = au_deferred au" "books au' = books au + 1" by blast
    then have "accounts out 1 au au'"
      using assms(3) unfolding accounts_def deferred_ok_def au'(4,5) by simp
    with au'(1) show ?thesis by blast
  qed
  have bad: "accounts out 1 au (au\<lparr>au_ledger := violated c 0 d (au_ledger au)\<rparr>)" for c d
    using assms(2,3) by (simp add: accounts_def clock_def tip_ok_def deferred_ok_def books_def violated_def ac_simps)
  note deferral = defer_accounts [OF assms(2,3)]
  show ?thesis
  proof (cases a)
    case (FullBlock h m t)
    with assms(4) deferral [of h out a] show ?thesis by simp
  next
    case (TreeStateAt h m t)
    with assms(4) deferral [of h out a] show ?thesis by simp
  next
    case (TipAnswer m)
    then show ?thesis
    proof (cases "decode_id out m")
      case (Inl e)
      with TipAnswer bad [of "''latest_block''" "''undecodable BlockID: '' @ e"] show ?thesis by simp
    next
      case (Inr p)
      obtain h x where "p = (h, x)" by (cases p)
      with TipAnswer Inr assms(4) deferral [of "ucast h" out a] show ?thesis by simp
    qed
  qed (simp_all add: now [unfolded One_nat_def])
qed

lemma release_scan_accounts:
  assumes "orderly out"
  shows "tip_ok au \<Longrightarrow> au_deferred au = [] \<Longrightarrow> \<forall>(h, a) \<in> set ds. unat h + 10 < 2 ^ 32 \<Longrightarrow>
     \<forall>(h, a) \<in> set waiting. unat h + 10 < 2 ^ 32 \<Longrightarrow>
     \<exists>au'. release_scan out t ds waiting au = Some au' \<and> clock out au \<le> clock out au' \<and> tip_ok au' \<and> deferred_ok au' \<and>
       books au' + of_nat (length (au_deferred au')) = books au + of_nat (length ds + length waiting)"
proof (induction ds arbitrary: waiting au)
  case Nil
  then show ?case by (auto simp: clock_def tip_ok_def deferred_ok_def books_def)
next
  case (Cons d ds)
  obtain h a where d: "d = (h, a)" by (cases d)
  with Cons(4) have add: "chk_add h BURIED = Some (h + BURIED)" by (intro chk_add_u32) simp
  show ?case
  proof (cases "h + BURIED \<le> t")
    case False
    have w: "\<forall>(h, a) \<in> set (waiting @ [(h, a)]). unat h + 10 < 2 ^ 32" using Cons(4,5) d by auto
    have ds: "\<forall>(h, a) \<in> set ds. unat h + 10 < 2 ^ 32" using Cons(4) by auto
    from Cons(1) [OF Cons(2,3) ds w] False add d show ?thesis by (simp add: ac_simps)
  next
    case True
    from judge_buried_books [OF assms Cons(2), of a] obtain au1 where
      au1: "judge_buried out a au = Some au1" "clock out au \<le> clock out au1" "tip_ok au1"
        "au_deferred au1 = []" "books au1 = books au + 1" using Cons(3) by auto
    have ds: "\<forall>(h, a) \<in> set ds. unat h + 10 < 2 ^ 32" using Cons(4) by auto
    from Cons(1) [OF au1(3,4) ds Cons(5)] obtain au' where
      "release_scan out t ds waiting au1 = Some au'" "clock out au1 \<le> clock out au'" "tip_ok au'" "deferred_ok au'"
      "books au' + of_nat (length (au_deferred au')) = books au1 + of_nat (length ds + length waiting)" by blast
    note au' = this
    have "release_scan out t (d # ds) waiting au = Some au'" using True add d au1(1) au'(1) by simp
    moreover have "books au' + of_nat (length (au_deferred au')) = books au + of_nat (length (d # ds) + length waiting)"
      unfolding au'(5) au1(5) by simp
    ultimately show ?thesis using au1(2) au'(2-4) order_trans by blast
  qed
qed

lemma release_buried_accounts:
  assumes "orderly out" "tip_ok au" "deferred_ok au"
  shows "\<exists>au'. release_buried out au = Some au' \<and> accounts out 0 au au'"
proof -
  obtain au1 t where ct: "current_tip out au = (au1, t)" by fastforce
  from current_tip_moves(1) [OF assms(1) ct] have m: "moves out au au1" .
  then have same: "books au1 = books au" "au_deferred au1 = au_deferred au" "tip_ok au1" "clock out au \<le> clock out au1"
    using assms(2) by (simp_all add: moves_def books_def)
  show ?thesis
  proof (cases t)
    case None
    with ct same assms(3) show ?thesis by (simp add: release_buried_def accounts_def deferred_ok_def)
  next
    case (Some v)
    define au2 where "au2 = au1\<lparr>au_deferred := []\<rparr>"
    have au2: "tip_ok au2" "au_deferred au2 = []" "books au2 = books au1" "clock out au2 = clock out au1"
      using same(3) by (simp_all add: au2_def tip_ok_def books_def clock_def)
    have ds: "\<forall>(h, a) \<in> set (au_deferred au). unat h + 10 < 2 ^ 32" using assms(3) by (simp add: deferred_ok_def)
    from release_scan_accounts [OF assms(1) au2(1,2) ds, of "[]" v] obtain au' where
      "release_scan out v (au_deferred au) [] au2 = Some au'" "clock out au2 \<le> clock out au'" "tip_ok au'" "deferred_ok au'"
      "books au' + of_nat (length (au_deferred au')) = books au2 + of_nat (length (au_deferred au))" by auto
    with Some ct same au2 show ?thesis by (auto simp: release_buried_def accounts_def au2_def)
  qed
qed

lemma wait_accounts:
  assumes "\<And>c. now out c \<le> now out (w c)" "tip_ok au" "deferred_ok au"
  shows "accounts out 0 au (wait_world w au)"
  using assms by (simp add: accounts_def wait_world_def clock_def tip_ok_def deferred_ok_def books_def)

lemma accountsD: "accounts out n au au' \<Longrightarrow> tip_ok au' \<and> deferred_ok au'"
  by (simp add: accounts_def)

lemma run_queue_accounts:
  assumes "orderly out"
  shows "tip_ok au \<Longrightarrow> deferred_ok au \<Longrightarrow> list_all (reach_ok out) queue \<Longrightarrow>
    \<exists>au'. run_queue out queue au = Some au' \<and> accounts out (length queue) au au'"
proof (induction queue arbitrary: au)
  case Nil
  have "\<And>c. now out c \<le> now out (recv_wait out c)" using assms by (simp add: orderly_def)
  from wait_accounts [OF this Nil(1,2)] show ?case by simp
next
  case (Cons a queue)
  have "\<And>c. now out c \<le> now out (recv_wait out c)" using assms by (simp add: orderly_def)
  from wait_accounts [OF this Cons(2,3)] have w: "accounts out 0 au (wait_world (recv_wait out) au)" .
  define au0 where "au0 = wait_world (recv_wait out) au"
  from accountsD [OF w] judge_accounts [OF assms, of au0 a] Cons(4) obtain au1 where
    au1: "judge out a au0 = Some au1" "accounts out 1 au0 au1" by (auto simp: au0_def)
  from accountsD [OF au1(2)] release_buried_accounts [OF assms, of au1] obtain au2 where
    au2: "release_buried out au1 = Some au2" "accounts out 0 au1 au2" by blast
  from accountsD [OF au2(2)] Cons(1) [of au2] Cons(4) obtain au3 where
    au3: "run_queue out queue au2 = Some au3" "accounts out (length queue) au2 au3" by auto
  have "accounts out (0 + 1 + 0 + length queue) au au3"
    using accounts_trans [OF accounts_trans [OF accounts_trans [OF w au1(2) [unfolded au0_def]] au2(2)] au3(2)] .
  then show ?case using au1(1) au2(1) au3(1) by (simp add: au0_def)
qed

lemma settle_loop_accounts:
  assumes "orderly out"
  shows "tip_ok au \<Longrightarrow> deferred_ok au \<Longrightarrow> deadline - clock out au \<le> TIP_REFRESH * int fuel \<Longrightarrow>
    \<exists>au'. settle_loop (Suc fuel) out deadline au = Some (Some au') \<and> accounts out 0 au au'"
proof (induction fuel arbitrary: au)
  case 0
  then show ?case by (simp add: clock_def accounts_def)
next
  case (Suc fuel)
  show ?case
  proof (cases "au_deferred au \<noteq> [] \<and> clock out au < deadline")
    case False
    then show ?thesis using Suc(2,3) by (auto simp: clock_def accounts_def)
  next
    case True
    have slept: "now out c + TIP_REFRESH \<le> now out (sleep out c)" for c using assms by (simp add: orderly_def)
    then have "\<And>c. now out c \<le> now out (sleep out c)" by (smt (verit) TIP_REFRESH_def)
    from wait_accounts [OF this Suc(2,3)] have w: "accounts out 0 au (wait_world (sleep out) au)" .
    define au0 where "au0 = wait_world (sleep out) au"
    have later: "clock out au + TIP_REFRESH \<le> clock out au0"
      using slept by (simp add: au0_def clock_def wait_world_def)
    from accountsD [OF w] release_buried_accounts [OF assms, of au0] obtain au1 where
      au1: "release_buried out au0 = Some au1" "accounts out 0 au0 au1" by (auto simp: au0_def)
    have "TIP_REFRESH * int (Suc fuel) = TIP_REFRESH * int fuel + TIP_REFRESH" by (simp add: algebra_simps)
    moreover have "clock out au0 \<le> clock out au1" using au1(2) by (simp add: accounts_def)
    ultimately have "deadline - clock out au1 \<le> TIP_REFRESH * int fuel" using Suc(4) later by linarith
    with accountsD [OF au1(2)] Suc(1) [of au1] obtain au2 where
      au2: "settle_loop (Suc fuel) out deadline au1 = Some (Some au2)" "accounts out 0 au1 au2" by blast
    have "settle_loop (Suc (Suc fuel)) out deadline au = Some (Some au2)"
      using True au1(1) au2(1) by (subst settle_loop.simps) (simp add: clock_def au0_def)
    moreover have "accounts out 0 au au2"
      using accounts_trans [OF accounts_trans [OF w au1(2) [unfolded au0_def]] au2(2)] by simp
    ultimately show ?thesis by blast
  qed
qed

lemma skip_rest_books: "au_deferred (skip_rest au) = []" "books (skip_rest au) = books au + of_nat (length (au_deferred au))"
proof -
  have "au_deferred (fold (\<lambda>_ au. au\<lparr>au_ledger := skipped (au_ledger au)\<rparr>) ds b) = au_deferred b \<and>
      books (fold (\<lambda>_ au. au\<lparr>au_ledger := skipped (au_ledger au)\<rparr>) ds b) = books b + of_nat (length ds)"
    for ds and b :: "('a, 'b) auditor"
    by (induction ds arbitrary: b) (simp_all add: books_def skipped_def ac_simps)
  note this [of "au_deferred au" "au\<lparr>au_deferred := []\<rparr>"]
  then show "au_deferred (skip_rest au) = []" "books (skip_rest au) = books au + of_nat (length (au_deferred au))"
    by (simp_all add: skip_rest_def books_def)
qed

text \<open>
  C27. With a clock that the waits move and served heights that leave room for the burial depth
  in a \<open>u32\<close>, the auditor ends, and every answer it was handed gets exactly one verdict: audited,
  skipped or a violation. Tip-dependent answers wait until they are buried and are skipped once
  the settle time is over; none is lost and none is judged twice.\<close>

theorem audit_run_accounts:
  fixes lg :: "'q ledger"
  assumes "orderly out" "list_all (reach_ok out) queue" "settle \<le> TIP_REFRESH * int fuel"
  shows "\<exists>au'. run_auditor (Suc fuel) out settle queue (new_auditor out z lg ex) = Some (Some au') \<and>
     au_deferred au' = [] \<and> books au' = books (new_auditor out z lg ex) + of_nat (length queue)"
proof -
  define au where "au = new_auditor out z lg ex"
  have init: "tip_ok au" "deferred_ok au" "au_deferred au = []"
    by (simp_all add: au_def new_auditor_def tip_ok_def deferred_ok_def)
  from run_queue_accounts [OF assms(1) init(1,2) assms(2)] obtain au1 where
    au1: "run_queue out queue au = Some au1" "accounts out (length queue) au au1" by blast
  from accountsD [OF au1(2)] settle_loop_accounts [OF assms(1), of au1 "clock out au1 + settle" fuel] assms(3)
  obtain au2 where au2: "settle_loop (Suc fuel) out (clock out au1 + settle) au1 = Some (Some au2)" "accounts out 0 au1 au2"
    by auto
  from accounts_trans [OF au1(2) au2(2)] init(3) have
    "books au2 + of_nat (length (au_deferred au2)) = books au + of_nat (length queue)" by (simp add: accounts_def)
  then have "books (skip_rest au2) = books au + of_nat (length queue)" by (simp only: skip_rest_books)
  moreover have "run_auditor (Suc fuel) out settle queue au = Some (Some (skip_rest au2))"
    using au1(1) au2(1) by (simp add: run_auditor_def clock_def del: settle_loop.simps)
  ultimately show ?thesis by (auto simp: au_def skip_rest_books)
qed

text \<open>A quiet world: a node that refuses every block, one second per wait.\<close>

definition quiet_node :: "int node" where
  "quiet_node = \<lparr>call_tip = \<lambda>c. (c, Inr 100), call_getblockhash = \<lambda>_ c. (c, Inl []), call_getblock = \<lambda>_ c. (c, Inl []),
      call_rawtx_outputs = \<lambda>_ c. (c, Inl []), call_treestate = \<lambda>_ c. (c, Inl []), call_subtrees = \<lambda>_ c. (c, Inl []),
      call_utxos = \<lambda>_ c. (c, Inl []), call_rawtx = \<lambda>_ c. (c, Inl []), call_balance = \<lambda>_ c. (c, Inl []),
      call_txids = \<lambda>_ _ _ c. (c, Inl []), call_mempool = \<lambda>c. (c, Inl [])\<rparr>"

definition quiet_world :: "int outside" where
  "quiet_world = \<lparr>node = quiet_node, hexd = \<lambda>_. Inl [], now = \<lambda>c. c, sleep = \<lambda>c. c + 5, recv_wait = \<lambda>c. c + 1,
     decode_block = \<lambda>_. Inl [], decode_id = \<lambda>_. Inr (4294967295, []), decode_tree = \<lambda>_. Inl [],
     decode_root = \<lambda>_. Inl [], decode_raw = \<lambda>_. Inl [], decode_info = \<lambda>_. Inl [], decode_utxos = \<lambda>_. Inl [],
     blake = \<lambda>_. 0, debug_root = \<lambda>_. ''SubtreeRoot'', debug_utxo = \<lambda>_. ''GetAddressUtxosReply''\<rparr>"

lemma quiet_orderly: "orderly quiet_world"
  by (simp add: orderly_def quiet_world_def quiet_node_def TIP_REFRESH_def)

theorem audit_run_accounts_witness:
  "\<exists>au'. run_auditor 13 quiet_world 60 [FullBlock 95 [] 95, MempoolTx [], FullBlock 7 [] 95]
       (new_auditor quiet_world \<lparr>chain = 0, funding = Map.empty\<rparr> (new_ledger 5 1 ()) \<lparr>chain_name = ''main'', sapling_activation = 1\<rparr>)
     = Some (Some au') \<and> au_deferred au' = [] \<and> books au' = 3"
  using audit_run_accounts [OF quiet_orderly, of "[FullBlock 95 [] 95, MempoolTx [], FullBlock 7 [] 95]" 60 12
      "\<lparr>chain = 0, funding = Map.empty\<rparr>" "new_ledger 5 1 ()" "\<lparr>chain_name = ''main'', sapling_activation = 1\<rparr>"]
  by (simp add: TIP_REFRESH_def books_def new_auditor_def new_ledger_def del: settle_loop.simps)

text \<open>
  One served answer can stop the auditor: a \<open>GetLatestBlock\<close> answer whose height, cut to
  32 bits, lies within the burial depth of the end of the range makes the unchecked sum of height
  and depth overflow, and the task ends with whatever was still queued.\<close>

theorem served_tip_stops_auditor:
  assumes "decode_id out m = Inr (height, hash)" "2 ^ 32 \<le> unat (ucast height :: u32) + 10"
    and "\<And>c. \<exists>t. snd (call_tip (node out) c) = Inr t"
  shows "run_queue out (TipAnswer m # queue) (new_auditor out z lg ex) = None"
proof -
  define au where "au = defer_audit (ucast height) (TipAnswer m) (wait_world (recv_wait out) (new_auditor out z lg ex))"
  have judged: "judge out (TipAnswer m) (wait_world (recv_wait out) (new_auditor out z lg ex)) = Some au"
    using assms(1) by (simp add: au_def)
  have deferred: "au_deferred au = [(ucast height, TipAnswer m)]"
    by (simp add: au_def defer_audit_def wait_world_def new_auditor_def)
  obtain c' t' where "call_tip (node out) (chain (au_zebra au)) = (c', Inr t')"
    using assms(3) [of "chain (au_zebra au)"] by (cases "call_tip (node out) (chain (au_zebra au))") auto
  then have "\<exists>au1 t. current_tip out au = (au1, Some t) \<and> au_deferred au1 = au_deferred au"
    by (simp add: current_tip_def on_zebra_def zebra_tip_def zcall_def)
  then obtain au1 t where ct: "current_tip out au = (au1, Some t)" "au_deferred au1 = au_deferred au" by blast
  have "chk_add (ucast height :: u32) BURIED = None"
    using assms(2) by (simp add: chk_add_def add_no_overflow_iff)
  then have "release_buried out au = None" using ct deferred by (simp add: release_buried_def)
  then show ?thesis using judged by simp
qed

theorem served_tip_stops_auditor_witness:
  "run_queue quiet_world [TipAnswer []] (new_auditor quiet_world \<lparr>chain = 0, funding = Map.empty\<rparr>
     (new_ledger 5 1 ()) \<lparr>chain_name = ''main'', sapling_activation = 1\<rparr>) = None"
  by (rule served_tip_stops_auditor [of _ _ 4294967295 "[]"]) (simp_all add: quiet_world_def quiet_node_def)

text \<open>Judged at all, such an answer is judged by its low 32 bits alone.\<close>

lemma latest_ignores_high_bits:
  assumes "decode_id out m = Inr (height, hash)" "decode_id out m' = Inr (height', hash)"
    and "(ucast height :: u32) = ucast height'"
  shows "judge_latest out m au = judge_latest out m' au"
  using assms by (simp add: judge_latest_def)

section \<open>Verdicts mean what they say\<close>

lemma differs_Holds: "differs h d = Holds \<longleftrightarrow> d = None"
  by (simp add: differs_def split: option.splits)

lemma first_differing_None: "first_differing xs ys = None \<longleftrightarrow> take (length ys) xs = take (length xs) ys"
  by (induction xs ys rule: first_differing.induct) auto

lemma first_differing_same: "first_differing xs xs = None"
  by (simp add: first_differing_None)

lemma judge_roots_Holds: "judge_roots out pool start most served expected = Holds \<longleftrightarrow> served = expected"
  by (auto simp: judge_roots_def first_differing_same first_differing_None split: option.splits)

text \<open>A full block holds exactly when it decodes, carries the hash the node has at its height, and
  equals, field by field, the block rebuilt from the node's answers.\<close>

lemma judge_full_Holds:
  "snd (judge_full out h m au) = Holds \<longleftrightarrow>
     (\<exists>served au1 au2. decode_block out m = Inr served \<and>
        on_zebra (block_hash (hexd out) (node out) h) au = (au1, Inr (cb_hash served)) \<and>
        on_zebra (compact_block_of (hexd out) (node out) h (AsServed served)) au1 = (au2, Inr served))"
  by (auto simp: judge_full_def differs_Holds block_diff_None split: sum.splits prod.splits if_splits)

end
