(* ===== verification/Run_Record.thy ===== *)
theory Run_Record
  imports Engine_Run
begin

text \<open>
  Recording a run and reading it back (\<open>src/src/engine/record/\<close>): the content-addressed output
  store, the recorder that tees events to disk, replay, rerun, retention, and how a selector
  finds a recording. The hash, the compressor and the JSON codec are arguments. The disk is the
  blobs written so far and the answers its writes give, in order (an exhausted list answers
  Ok); the event log is its lines.
\<close>

section \<open>Data\<close>

datatype store_ref = EmptyRef | FullRef string | TruncatedRef string nat

datatype blob_kind = Combined | Components

fun kind_suffix :: "blob_kind \<Rightarrow> string" where
  "kind_suffix Combined = ''combined''"
| "kind_suffix Components = ''components''"

datatype recorded_event =
    RecRunStarted nat string
  | RecTestStarted string string qos_class nat
  | RecTestSlow string string duration bool nat
  | RecTestRetrying string string nat duration verdict duration
  | RecTestFinished string string verdict duration nat store_ref store_ref
  | RecTestSkipped string string skip_reason
  | RecRunCancelling cancel_reason nat
  | RecRunFinished run_stats duration

record codec =
  blake_hex :: "string \<Rightarrow> string"
  zstd :: "string \<Rightarrow> string"
  unzstd :: "string \<Rightarrow> string + string"
  to_json :: "recorded_event \<Rightarrow> string"
  from_json :: "string \<Rightarrow> string + recorded_event"

record disk =
  blobs_at :: "string \<rightharpoonup> string"
  log_lines :: "string list"
  write_answers :: "string option list"

record run_recorder =
  rr_disk :: disk
  rr_seen :: "string list"
  rr_max_output :: nat

definition MAX_OUTPUT :: nat where "MAX_OUTPUT = 4 * 1024 * 1024"

section \<open>The output store\<close>

definition truncation_notice :: "nat \<Rightarrow> string" where
  "truncation_notice omitted = [char_of (10 :: nat)] @ ''... <'' @ show_nat omitted @ '' bytes of output omitted> ...'' @ [char_of (10 :: nat)]"

definition truncate_output :: "string \<Rightarrow> nat \<Rightarrow> string \<times> nat option" where
  "truncate_output data most =
     (if most = 0 \<or> length data \<le> most then (data, None)
      else (let notice = truncation_notice (length data - most);
                keep = most - length notice;
                front = keep div 2;
                back = keep - front
            in (take front data @ notice @ drop (length data - back) data, Some (length data))))"

text \<open>One write of the disk: its answer, and the disk without it.\<close>

definition disk_write :: "(disk \<Rightarrow> disk) \<Rightarrow> disk \<Rightarrow> disk \<times> (string + unit)" where
  "disk_write f d =
     (case write_answers d of
        [] \<Rightarrow> (f d, Inr ())
      | None # as \<Rightarrow> (f (d\<lparr>write_answers := as\<rparr>), Inr ())
      | Some e # as \<Rightarrow> (d\<lparr>write_answers := as\<rparr>, Inl e))"

definition blob_name :: "codec \<Rightarrow> string \<Rightarrow> blob_kind \<Rightarrow> string" where
  "blob_name cx payload kind = take 32 (blake_hex cx payload) @ ''-'' @ kind_suffix kind"

definition ref_for :: "string \<Rightarrow> nat option \<Rightarrow> store_ref" where
  "ref_for name original = (case original of Some n \<Rightarrow> TruncatedRef name n | None \<Rightarrow> FullRef name)"

definition put_blob ::
  "codec \<Rightarrow> run_recorder \<Rightarrow> string \<Rightarrow> blob_kind \<Rightarrow> nat \<Rightarrow> run_recorder \<times> (string + store_ref)" where
  "put_blob cx rec data kind most =
     (if data = [] then (rec, Inr EmptyRef)
      else (case truncate_output data most of (payload, original) \<Rightarrow>
              let name = blob_name cx payload kind in
              if name \<in> set (rr_seen rec) then (rec, Inr (ref_for name original))
              else (let rec = rec\<lparr>rr_seen := name # rr_seen rec\<rparr> in
                    case disk_write (\<lambda>d. d\<lparr>blobs_at := (blobs_at d)(name \<mapsto> zstd cx payload)\<rparr>) (rr_disk rec) of
                      (d, Inl e) \<Rightarrow> (rec\<lparr>rr_disk := d\<rparr>, Inl e)
                    | (d, Inr _) \<Rightarrow> (rec\<lparr>rr_disk := d\<rparr>, Inr (ref_for name original)))))"

fun get_blob :: "codec \<Rightarrow> disk \<Rightarrow> store_ref \<Rightarrow> string + string" where
  "get_blob cx d EmptyRef = Inr []"
| "get_blob cx d (FullRef name) = (case blobs_at d name of None \<Rightarrow> Inr [] | Some z \<Rightarrow> unzstd cx z)"
| "get_blob cx d (TruncatedRef name n) = (case blobs_at d name of None \<Rightarrow> Inr [] | Some z \<Rightarrow> unzstd cx z)"

section \<open>Recording\<close>

fun build_recorded :: "codec \<Rightarrow> run_recorder \<Rightarrow> test_event \<Rightarrow> run_recorder \<times> (string + recorded_event)" where
  "build_recorded cx rec (RunStarted n rid) = (rec, Inr (RecRunStarted n rid))"
| "build_recorded cx rec (TestStarted b t c a) = (rec, Inr (RecTestStarted b t c a))"
| "build_recorded cx rec (TestSlow b t e w a) = (rec, Inr (RecTestSlow b t e w a))"
| "build_recorded cx rec (TestRetrying b t n d v u) = (rec, Inr (RecTestRetrying b t n d v u))"
| "build_recorded cx rec (TestFinished b t v u a out comps) =
     (case put_blob cx rec out Combined (rr_max_output rec) of
        (rec, Inl e) \<Rightarrow> (rec, Inl e)
      | (rec, Inr o_ref) \<Rightarrow>
          (case put_blob cx rec comps Components 0 of
             (rec, Inl e) \<Rightarrow> (rec, Inl e)
           | (rec, Inr c_ref) \<Rightarrow> (rec, Inr (RecTestFinished b t v u a o_ref c_ref))))"
| "build_recorded cx rec (TestSkipped b t r) = (rec, Inr (RecTestSkipped b t r))"
| "build_recorded cx rec (RunCancelling r n) = (rec, Inr (RecRunCancelling r n))"
| "build_recorded cx rec (RunFinished s e) = (rec, Inr (RecRunFinished s e))"

definition record_event :: "codec \<Rightarrow> run_recorder \<Rightarrow> test_event \<Rightarrow> run_recorder \<times> (string + unit)" where
  "record_event cx rec ev =
     (case build_recorded cx rec ev of
        (rec, Inl e) \<Rightarrow> (rec, Inl e)
      | (rec, Inr r) \<Rightarrow>
          (case disk_write (\<lambda>d. d\<lparr>log_lines := log_lines d @ [to_json cx r]\<rparr>) (rr_disk rec) of
             (d, answer) \<Rightarrow> (rec\<lparr>rr_disk := d\<rparr>, answer)))"

text \<open>The decorator: record while that works, and always forward; \<open>inner\<close> is what the wrapped
  reporter was handed.\<close>

record recording_reporter =
  inner :: "test_event list"
  recorder :: "run_recorder option"
  closed :: "disk option"

definition report_handle :: "codec \<Rightarrow> recording_reporter \<Rightarrow> test_event \<Rightarrow> recording_reporter" where
  "report_handle cx rp ev =
     (let rp = (case recorder rp of
                  None \<Rightarrow> rp
                | Some rec \<Rightarrow>
                    (case record_event cx rec ev of
                       (rec, Inl e) \<Rightarrow> rp\<lparr>recorder := None, closed := Some (rr_disk rec)\<rparr>
                     | (rec, Inr _) \<Rightarrow> rp\<lparr>recorder := Some rec\<rparr>))
      in rp\<lparr>inner := inner rp @ [ev]\<rparr>)"

section \<open>Replay\<close>

definition NOT_CAPTURED :: string where "NOT_CAPTURED = ''(output not captured)''"

fun feed :: "codec \<Rightarrow> disk \<Rightarrow> bool \<Rightarrow> recorded_event \<Rightarrow> string + test_event" where
  "feed cx d captured (RecRunStarted n rid) = Inr (RunStarted n rid)"
| "feed cx d captured (RecTestStarted b t c a) = Inr (TestStarted b t c a)"
| "feed cx d captured (RecTestSlow b t e w a) = Inr (TestSlow b t e w a)"
| "feed cx d captured (RecTestRetrying b t n dl v u) = Inr (TestRetrying b t n dl v u)"
| "feed cx d captured (RecTestFinished b t v u a o_ref c_ref) =
     (case get_blob cx d c_ref of
        Inl e \<Rightarrow> Inl e
      | Inr comps \<Rightarrow>
          (case get_blob cx d o_ref of
             Inl e \<Rightarrow> Inl e
           | Inr out \<Rightarrow>
               Inr (TestFinished b t v u a (if out = [] \<and> \<not> captured then NOT_CAPTURED else out) comps)))"
| "feed cx d captured (RecTestSkipped b t r) = Inr (TestSkipped b t r)"
| "feed cx d captured (RecRunCancelling r n) = Inr (RunCancelling r n)"
| "feed cx d captured (RecRunFinished s e) = Inr (RunFinished s e)"

definition blank :: "string \<Rightarrow> bool" where
  "blank line \<longleftrightarrow> trim line = []"

text \<open>The lines in order: the events handed to the reporter, the final stats, and an error when a
  line is corrupt or a blob unreadable.\<close>

fun replay_lines :: "codec \<Rightarrow> disk \<Rightarrow> bool \<Rightarrow> run_stats option \<Rightarrow> string list \<Rightarrow> test_event list \<times> (string + run_stats option)" where
  "replay_lines cx d captured stats [] = ([], Inr stats)"
| "replay_lines cx d captured stats (line # lines) =
     (if blank line then replay_lines cx d captured stats lines
      else (case from_json cx line of
              Inl e \<Rightarrow> ([], Inl (''corrupt event: '' @ e))
            | Inr r \<Rightarrow>
                (let stats = (case r of RecRunFinished s _ \<Rightarrow> Some s | _ \<Rightarrow> stats) in
                 case feed cx d captured r of
                   Inl e \<Rightarrow> ([], Inl e)
                 | Inr ev \<Rightarrow> (case replay_lines cx d captured stats lines of (evs, end) \<Rightarrow> (ev # evs, end)))))"

definition EXIT_OK :: nat where "EXIT_OK = 0"
definition EXIT_SETUP_ERROR :: nat where "EXIT_SETUP_ERROR = 96"
definition EXIT_TEST_RUN_FAILED :: nat where "EXIT_TEST_RUN_FAILED = 100"

definition resolve_exit :: "bool \<Rightarrow> run_stats option \<Rightarrow> nat" where
  "resolve_exit mirror stats =
     (if \<not> mirror then EXIT_OK
      else (case stats of
              Some s \<Rightarrow> if stats_any_failed s then EXIT_TEST_RUN_FAILED
                        else if 0 < st_skipped s then EXIT_SETUP_ERROR else EXIT_OK
            | None \<Rightarrow> EXIT_OK))"

definition live_exit :: "(string + run_stats) \<Rightarrow> bool \<Rightarrow> nat" where
  "live_exit outcome cancelled =
     (case outcome of
        Inl _ \<Rightarrow> EXIT_SETUP_ERROR
      | Inr s \<Rightarrow> if stats_any_failed s \<or> cancelled then EXIT_TEST_RUN_FAILED
                 else if 0 < st_skipped s then EXIT_SETUP_ERROR else EXIT_OK)"

definition replay_into :: "codec \<Rightarrow> disk \<Rightarrow> bool \<Rightarrow> bool \<Rightarrow> test_event list \<times> (string + nat)" where
  "replay_into cx d captured mirror =
     (case replay_lines cx d captured None (log_lines d) of
        (evs, Inl e) \<Rightarrow> (evs, Inl e)
      | (evs, Inr stats) \<Rightarrow> (evs, Inr (resolve_exit mirror stats)))"

fun passed_tests :: "codec \<Rightarrow> string list \<Rightarrow> string + (string \<times> string) set" where
  "passed_tests cx [] = Inr {}"
| "passed_tests cx (line # lines) =
     (if blank line then passed_tests cx lines
      else (case from_json cx line of
              Inl e \<Rightarrow> Inl (''corrupt event: '' @ e)
            | Inr r \<Rightarrow> map_sum id (case r of RecTestFinished b t Pass _ _ _ _ \<Rightarrow> insert (b, t) | _ \<Rightarrow> id)
                         (passed_tests cx lines)))"

fun final_stats :: "codec \<Rightarrow> run_stats option \<Rightarrow> string list \<Rightarrow> run_stats option" where
  "final_stats cx stats [] = stats"
| "final_stats cx stats (line # lines) =
     (if blank line then final_stats cx stats lines
      else (case from_json cx line of
              Inr (RecRunFinished s _) \<Rightarrow> final_stats cx (Some s) lines
            | _ \<Rightarrow> final_stats cx stats lines))"

section \<open>Replay shows what was recorded\<close>

text \<open>
  What replay shows of an event: itself, with a finished test's output cut to the recorder's
  limit, or marked when the run captured nothing.
\<close>

fun shown :: "bool \<Rightarrow> test_event \<Rightarrow> test_event" where
  "shown captured (TestFinished b t v u a out comps) =
     TestFinished b t v u a
       (if out = [] \<and> \<not> captured then NOT_CAPTURED else fst (truncate_output out MAX_OUTPUT)) comps"
| "shown captured ev = ev"

fun payloads :: "test_event \<Rightarrow> string set" where
  "payloads (TestFinished b t v u a out comps) = {fst (truncate_output out MAX_OUTPUT), comps}"
| "payloads ev = {}"

text \<open>The line an event leaves in the log, as a function of the event alone.\<close>

definition ref_of :: "codec \<Rightarrow> string \<Rightarrow> blob_kind \<Rightarrow> nat \<Rightarrow> store_ref" where
  "ref_of cx data kind most =
     (if data = [] then EmptyRef
      else (case truncate_output data most of (payload, original) \<Rightarrow> ref_for (blob_name cx payload kind) original))"

fun recorded_form :: "codec \<Rightarrow> test_event \<Rightarrow> recorded_event" where
  "recorded_form cx (RunStarted n rid) = RecRunStarted n rid"
| "recorded_form cx (TestStarted b t c a) = RecTestStarted b t c a"
| "recorded_form cx (TestSlow b t e w a) = RecTestSlow b t e w a"
| "recorded_form cx (TestRetrying b t n d v u) = RecTestRetrying b t n d v u"
| "recorded_form cx (TestFinished b t v u a out comps) =
     RecTestFinished b t v u a (ref_of cx out Combined MAX_OUTPUT) (ref_of cx comps Components 0)"
| "recorded_form cx (TestSkipped b t r) = RecTestSkipped b t r"
| "recorded_form cx (RunCancelling r n) = RecRunCancelling r n"
| "recorded_form cx (RunFinished s e) = RecRunFinished s e"

text \<open>The codec, on what the run records: decoders invert, a line is never blank, and no two
  payloads share an address.\<close>

definition codec_ok :: "codec \<Rightarrow> string set \<Rightarrow> recorded_event set \<Rightarrow> bool" where
  "codec_ok cx ps rs \<longleftrightarrow>
     (\<forall>x. unzstd cx (zstd cx x) = Inr x) \<and> (\<forall>r \<in> rs. from_json cx (to_json cx r) = Inr r) \<and>
     (\<forall>r \<in> rs. \<not> blank (to_json cx r)) \<and> (\<forall>x. 32 \<le> length (blake_hex cx x)) \<and>
     inj_on (\<lambda>p. take 32 (blake_hex cx p)) ps"

fun stored :: "codec \<Rightarrow> disk \<Rightarrow> store_ref \<Rightarrow> string \<Rightarrow> bool" where
  "stored cx d EmptyRef p \<longleftrightarrow> p = []"
| "stored cx d (FullRef name) p \<longleftrightarrow> blobs_at d name = Some (zstd cx p)"
| "stored cx d (TruncatedRef name n) p \<longleftrightarrow> blobs_at d name = Some (zstd cx p)"

definition recorder_ok :: "codec \<Rightarrow> string set \<Rightarrow> run_recorder \<Rightarrow> bool" where
  "recorder_ok cx ps rec \<longleftrightarrow> write_answers (rr_disk rec) = [] \<and> rr_max_output rec = MAX_OUTPUT \<and>
     (\<forall>name \<in> set (rr_seen rec). \<exists>p k. p \<in> ps \<and> name = blob_name cx p k \<and> blobs_at (rr_disk rec) name = Some (zstd cx p)) \<and>
     dom (blobs_at (rr_disk rec)) \<subseteq> set (rr_seen rec)"

definition extends :: "disk \<Rightarrow> disk \<Rightarrow> bool" where
  "extends d d' \<longleftrightarrow> blobs_at d \<subseteq>\<^sub>m blobs_at d'"

lemma extends_refl [simp]: "extends d d"
  by (simp add: extends_def)

lemma extends_trans: "extends a b \<Longrightarrow> extends b c \<Longrightarrow> extends a c"
  by (auto simp: extends_def intro: map_le_trans)

lemma stored_extends: "stored cx d r p \<Longrightarrow> extends d d' \<Longrightarrow> stored cx d' r p"
proof -
  have "blobs_at d name = Some x \<Longrightarrow> extends d d' \<Longrightarrow> blobs_at d' name = Some x" for name x
    unfolding extends_def map_le_def by (metis domI)
  then show "stored cx d r p \<Longrightarrow> extends d d' \<Longrightarrow> stored cx d' r p" by (cases r) simp_all
qed

lemma get_stored: "codec_ok cx ps rs \<Longrightarrow> stored cx d r p \<Longrightarrow> get_blob cx d r = Inr p"
  by (cases r) (simp_all add: codec_ok_def)

lemma blob_name_inject:
  assumes "codec_ok cx ps rs" "p \<in> ps" "q \<in> ps" "blob_name cx p k = blob_name cx q l"
  shows "p = q"
proof -
  have "32 \<le> length (blake_hex cx x)" for x using assms(1) by (simp add: codec_ok_def)
  then have "length (take 32 (blake_hex cx p)) = length (take 32 (blake_hex cx q))" by (simp add: min_absorb2)
  with assms(4) have "take 32 (blake_hex cx p) = take 32 (blake_hex cx q)" by (simp add: blob_name_def)
  with assms(1-3) show ?thesis unfolding codec_ok_def by (metis inj_onD)
qed

lemma truncate_output_Nil: "truncate_output [] n = ([], None)"
  by (simp add: truncate_output_def)

lemma stored_ref_for: "blobs_at d name = Some (zstd cx p) \<Longrightarrow> stored cx d (ref_for name orig) p"
  by (cases orig) (simp_all add: ref_for_def)

lemma put_blob_stores:
  assumes ok: "codec_ok cx ps rs" and rec: "recorder_ok cx ps rec" and p: "fst (truncate_output data most) \<in> ps"
  shows "\<exists>rec' r. put_blob cx rec data kind most = (rec', Inr r) \<and> r = ref_of cx data kind most \<and> recorder_ok cx ps rec' \<and>
     extends (rr_disk rec) (rr_disk rec') \<and> log_lines (rr_disk rec') = log_lines (rr_disk rec) \<and>
     stored cx (rr_disk rec') r (fst (truncate_output data most))"
proof (cases "data = []")
  case True
  with rec show ?thesis by (simp add: put_blob_def truncate_output_Nil ref_of_def)
next
  case False
  obtain payload orig where tr: "truncate_output data most = (payload, orig)" by fastforce
  define name where "name = blob_name cx payload kind"
  have ref: "ref_for name orig = ref_of cx data kind most" using False tr by (simp add: ref_of_def name_def)
  show ?thesis
  proof (cases "name \<in> set (rr_seen rec)")
    case True
    with rec obtain q k where q: "q \<in> ps" "name = blob_name cx q k" "blobs_at (rr_disk rec) name = Some (zstd cx q)"
      unfolding recorder_ok_def by blast
    have "payload \<in> ps" using p tr by simp
    from blob_name_inject [OF ok q(1) this] q(2) have "q = payload" by (metis name_def)
    with q(3) have "stored cx (rr_disk rec) (ref_for name orig) payload" by (simp add: stored_ref_for)
    moreover have "put_blob cx rec data kind most = (rec, Inr (ref_for name orig))"
      using False True tr by (simp add: put_blob_def name_def)
    ultimately show ?thesis using rec tr ref by simp
  next
    case fresh: False
    define rec' where "rec' = rec\<lparr>rr_seen := name # rr_seen rec,
      rr_disk := (rr_disk rec)\<lparr>blobs_at := (blobs_at (rr_disk rec))(name \<mapsto> zstd cx payload)\<rparr>\<rparr>"
    have new: "blobs_at (rr_disk rec) name = None" using rec fresh by (auto simp: recorder_ok_def)
    have put: "put_blob cx rec data kind most = (rec', Inr (ref_for name orig))"
      using False fresh tr rec by (simp add: put_blob_def name_def [symmetric] disk_write_def recorder_ok_def rec'_def)
    have "extends (rr_disk rec) (rr_disk rec')" using new by (auto simp: extends_def map_le_def rec'_def)
    moreover have "recorder_ok cx ps rec'"
    proof -
      have "\<exists>q k. q \<in> ps \<and> m = blob_name cx q k \<and> blobs_at (rr_disk rec') m = Some (zstd cx q)" if "m \<in> set (rr_seen rec')" for m
      proof (cases "m = name")
        case True
        then show ?thesis using p tr by (auto simp: rec'_def name_def)
      next
        case False
        with that rec show ?thesis by (auto simp: rec'_def recorder_ok_def)
      qed
      then show ?thesis using rec by (auto simp: recorder_ok_def rec'_def)
    qed
    moreover have "stored cx (rr_disk rec') (ref_for name orig) payload"
      by (rule stored_ref_for) (simp add: rec'_def)
    moreover have "log_lines (rr_disk rec') = log_lines (rr_disk rec)" by (simp add: rec'_def)
    ultimately show ?thesis using put tr ref by simp
  qed
qed

text \<open>One event recorded: its line, and that any later disk replays it.\<close>

definition replays :: "codec \<Rightarrow> disk \<Rightarrow> recorded_event \<Rightarrow> test_event \<Rightarrow> bool" where
  "replays cx d r ev \<longleftrightarrow> r = recorded_form cx ev \<and>
     (\<forall>d' captured. extends d d' \<longrightarrow> feed cx d' captured r = Inr (shown captured ev))"

lemma build_recorded_replays:
  assumes ok: "codec_ok cx ps rs" and rec: "recorder_ok cx ps rec" and p: "payloads ev \<subseteq> ps"
  shows "\<exists>rec' r. build_recorded cx rec ev = (rec', Inr r) \<and> recorder_ok cx ps rec' \<and>
     extends (rr_disk rec) (rr_disk rec') \<and> log_lines (rr_disk rec') = log_lines (rr_disk rec) \<and> replays cx (rr_disk rec') r ev"
proof (cases ev)
  case (TestFinished b t v u a out comps)
  have most: "rr_max_output rec = MAX_OUTPUT" using rec by (simp add: recorder_ok_def)
  from p TestFinished have "fst (truncate_output out MAX_OUTPUT) \<in> ps" by simp
  from put_blob_stores [OF ok rec this, of Combined] obtain rec1 r1 where
    one: "put_blob cx rec out Combined MAX_OUTPUT = (rec1, Inr r1)" "recorder_ok cx ps rec1"
      "r1 = ref_of cx out Combined MAX_OUTPUT" "extends (rr_disk rec) (rr_disk rec1)" "log_lines (rr_disk rec1) = log_lines (rr_disk rec)"
      "stored cx (rr_disk rec1) r1 (fst (truncate_output out MAX_OUTPUT))" by blast
  have zero: "fst (truncate_output comps 0) = comps" by (simp add: truncate_output_def)
  with p TestFinished have "fst (truncate_output comps 0) \<in> ps" by simp
  from put_blob_stores [OF ok one(2) this, of Components] zero obtain rec2 r2 where
    two: "put_blob cx rec1 comps Components 0 = (rec2, Inr r2)" "recorder_ok cx ps rec2"
      "r2 = ref_of cx comps Components 0" "extends (rr_disk rec1) (rr_disk rec2)" "log_lines (rr_disk rec2) = log_lines (rr_disk rec1)"
      "stored cx (rr_disk rec2) r2 comps" by auto
  have empty: "fst (truncate_output out MAX_OUTPUT) = [] \<longleftrightarrow> out = []"
    by (auto simp: truncate_output_def truncation_notice_def Let_def)
  have "replays cx (rr_disk rec2) (RecTestFinished b t v u a r1 r2) ev"
    unfolding replays_def TestFinished
  proof (intro conjI allI impI)
    fix d' captured assume "extends (rr_disk rec2) d'"
    then have "stored cx d' r2 comps" "stored cx d' r1 (fst (truncate_output out MAX_OUTPUT))"
      using two(4,6) one(6) stored_extends extends_trans by blast+
    then show "feed cx d' captured (RecTestFinished b t v u a r1 r2) = Inr (shown captured (TestFinished b t v u a out comps))"
      using get_stored [OF ok] empty by simp
  qed (use one(3) two(3) in simp)
  then show ?thesis using one two TestFinished most by (auto intro: extends_trans)
qed (simp_all add: replays_def rec)

lemma record_event_replays:
  assumes ok: "codec_ok cx ps rs" and rec: "recorder_ok cx ps rec" and p: "payloads ev \<subseteq> ps"
  shows "\<exists>rec' r. record_event cx rec ev = (rec', Inr ()) \<and> recorder_ok cx ps rec' \<and>
     extends (rr_disk rec) (rr_disk rec') \<and> log_lines (rr_disk rec') = log_lines (rr_disk rec) @ [to_json cx r] \<and>
     replays cx (rr_disk rec') r ev"
proof -
  from build_recorded_replays [OF assms] obtain rec1 r where
    one: "build_recorded cx rec ev = (rec1, Inr r)" "recorder_ok cx ps rec1" "extends (rr_disk rec) (rr_disk rec1)"
      "log_lines (rr_disk rec1) = log_lines (rr_disk rec)" "replays cx (rr_disk rec1) r ev" by blast
  define rec' where "rec' = rec1\<lparr>rr_disk := (rr_disk rec1)\<lparr>log_lines := log_lines (rr_disk rec1) @ [to_json cx r]\<rparr>\<rparr>"
  have "record_event cx rec ev = (rec', Inr ())"
    using one(1,2) by (simp add: record_event_def disk_write_def recorder_ok_def rec'_def)
  moreover have "extends (rr_disk rec1) (rr_disk rec')" "extends (rr_disk rec') (rr_disk rec1)"
    by (simp_all add: extends_def rec'_def)
  moreover have "recorder_ok cx ps rec'" using one(2) by (simp add: recorder_ok_def rec'_def)
  moreover have "replays cx (rr_disk rec') r ev"
    using one(5) calculation(2) unfolding replays_def by (blast intro: extends_trans)
  ultimately show ?thesis using one(3,4) by (auto simp: rec'_def intro: extends_trans)
qed

fun stats_of :: "run_stats option \<Rightarrow> test_event list \<Rightarrow> run_stats option" where
  "stats_of stats [] = stats"
| "stats_of stats (RunFinished s e # evs) = stats_of (Some s) evs"
| "stats_of stats (ev # evs) = stats_of stats evs"

lemma stats_of_Cons: "stats_of stats (ev # evs) = stats_of (case ev of RunFinished s e \<Rightarrow> Some s | _ \<Rightarrow> stats) evs"
  by (cases ev) simp_all

lemma replay_lines_shown:
  assumes "codec_ok cx ps (recorded_form cx ` E)" "list_all2 (\<lambda>r ev. replays cx d r ev) rs evs" "set evs \<subseteq> E"
  shows "replay_lines cx d captured stats (map (to_json cx) rs) = (map (shown captured) evs, Inr (stats_of stats evs))"
  using assms(2,3)
proof (induction rs evs arbitrary: stats rule: list_all2_induct)
  case (Cons r rs ev evs)
  have "r \<in> recorded_form cx ` E" using Cons(1,4) by (auto simp: replays_def)
  then have line: "\<not> blank (to_json cx r)" "from_json cx (to_json cx r) = Inr r" using assms(1) by (auto simp: codec_ok_def)
  from Cons(1) have f: "feed cx d captured r = Inr (shown captured ev)" unfolding replays_def by (meson extends_refl)
  have st: "(case r of RecRunFinished s _ \<Rightarrow> Some s | _ \<Rightarrow> stats) = (case ev of RunFinished s e \<Rightarrow> Some s | _ \<Rightarrow> stats)"
    using Cons(1) by (cases ev) (auto simp: replays_def)
  show ?case using Cons(4) Cons(3) [of "case ev of RunFinished s e \<Rightarrow> Some s | _ \<Rightarrow> stats"]
    by (simp add: line f st stats_of_Cons)
qed simp

lemma handle_all_records:
  assumes ok: "codec_ok cx ps rs"
  shows "recorder_ok cx ps rec \<Longrightarrow> (\<Union>ev \<in> set evs. payloads ev) \<subseteq> ps \<Longrightarrow>
    \<exists>rec' rs. fold (\<lambda>ev rp. report_handle cx rp ev) evs \<lparr>inner = shownbefore, recorder = Some rec, closed = None\<rparr> =
        \<lparr>inner = shownbefore @ evs, recorder = Some rec', closed = None\<rparr> \<and>
      extends (rr_disk rec) (rr_disk rec') \<and>
      log_lines (rr_disk rec') = log_lines (rr_disk rec) @ map (to_json cx) rs \<and>
      list_all2 (\<lambda>r ev. replays cx (rr_disk rec') r ev) rs evs"
proof (induction evs arbitrary: rec shownbefore)
  case Nil
  show ?case by (intro exI [of _ rec] exI [of _ "[]"]) simp
next
  case (Cons ev evs)
  from Cons(3) have "payloads ev \<subseteq> ps" by simp
  from record_event_replays [OF ok Cons(2) this] obtain rec1 r where
    one: "record_event cx rec ev = (rec1, Inr ())" "recorder_ok cx ps rec1" "extends (rr_disk rec) (rr_disk rec1)"
      "log_lines (rr_disk rec1) = log_lines (rr_disk rec) @ [to_json cx r]" "replays cx (rr_disk rec1) r ev" by blast
  have step: "report_handle cx \<lparr>inner = shownbefore, recorder = Some rec, closed = None\<rparr> ev =
      \<lparr>inner = shownbefore @ [ev], recorder = Some rec1, closed = None\<rparr>"
    using one(1) by (simp add: report_handle_def)
  from Cons(3) have "(\<Union>ev \<in> set evs. payloads ev) \<subseteq> ps" by simp
  from Cons(1) [OF one(2) this, of "shownbefore @ [ev]"] obtain rec2 rs where
    two: "fold (\<lambda>ev rp. report_handle cx rp ev) evs \<lparr>inner = shownbefore @ [ev], recorder = Some rec1, closed = None\<rparr> =
        \<lparr>inner = (shownbefore @ [ev]) @ evs, recorder = Some rec2, closed = None\<rparr>"
      "extends (rr_disk rec1) (rr_disk rec2)"
      "log_lines (rr_disk rec2) = log_lines (rr_disk rec1) @ map (to_json cx) rs"
      "list_all2 (\<lambda>r ev. replays cx (rr_disk rec2) r ev) rs evs" by blast
  have "replays cx (rr_disk rec2) r ev" using one(5) two(2) unfolding replays_def by (blast intro: extends_trans)
  then show ?case using step one(3,4) two
    by (intro exI [of _ rec2] exI [of _ "r # rs"]) (auto intro: extends_trans)
qed

definition fresh_recorder :: run_recorder where
  "fresh_recorder = \<lparr>rr_disk = \<lparr>blobs_at = Map.empty, log_lines = [], write_answers = []\<rparr>, rr_seen = [], rr_max_output = MAX_OUTPUT\<rparr>"

text \<open>
  C30. Recording is invisible and replay faithful: the wrapped reporter is handed every event
  unchanged, and a replay of the recording hands a reporter the same events in order, each
  finished test's component log whole and its output as captured (cut to the recorder's limit),
  and exits by the run's own final statistics.
\<close>

theorem record_replay_roundtrip:
  assumes "codec_ok cx (\<Union>ev \<in> set evs. payloads ev) (recorded_form cx ` set evs)"
  shows "\<exists>rec. fold (\<lambda>ev rp. report_handle cx rp ev) evs \<lparr>inner = [], recorder = Some fresh_recorder, closed = None\<rparr> =
      \<lparr>inner = evs, recorder = Some rec, closed = None\<rparr> \<and>
    replay_into cx (rr_disk rec) captured mirror = (map (shown captured) evs, Inr (resolve_exit mirror (stats_of None evs)))"
proof -
  have "recorder_ok cx (\<Union>ev \<in> set evs. payloads ev) fresh_recorder" by (simp add: recorder_ok_def fresh_recorder_def)
  from handle_all_records [OF assms this order_refl, of "[]"] obtain rec rs where
    fin: "fold (\<lambda>ev rp. report_handle cx rp ev) evs \<lparr>inner = [], recorder = Some fresh_recorder, closed = None\<rparr> =
        \<lparr>inner = evs, recorder = Some rec, closed = None\<rparr>"
      "log_lines (rr_disk rec) = map (to_json cx) rs" "list_all2 (\<lambda>r ev. replays cx (rr_disk rec) r ev) rs evs"
    by (auto simp: fresh_recorder_def)
  from replay_lines_shown [OF assms fin(3) order_refl, of captured None] fin(2)
  have "replay_into cx (rr_disk rec) captured mirror = (map (shown captured) evs, Inr (resolve_exit mirror (stats_of None evs)))"
    by (simp add: replay_into_def)
  with fin(1) show ?thesis by blast
qed

text \<open>A codec for the witness: two addresses, two lines.\<close>

definition sample_stats :: run_stats where
  "sample_stats = \<lparr>st_passed = 1, st_failed = 0, st_terminated = 0, st_skipped = 0, st_total = 1\<rparr>"

definition sample_codec :: codec where
  "sample_codec = \<lparr>blake_hex = (\<lambda>x. if x = ''out'' then replicate 32 (CHR ''a'') else replicate 32 (CHR ''b'')),
     zstd = (\<lambda>x. x), unzstd = Inr,
     to_json = (\<lambda>r. case r of RecRunFinished _ _ \<Rightarrow> ''f'' | _ \<Rightarrow> ''t''),
     from_json = (\<lambda>l. if l = ''f'' then Inr (RecRunFinished sample_stats 9)
        else Inr (RecTestFinished ''b'' ''t'' Pass 5 1 (FullRef (replicate 32 (CHR ''a'') @ ''-combined'')) EmptyRef))\<rparr>"

theorem record_replay_roundtrip_witness:
  "\<exists>rec. fold (\<lambda>ev rp. report_handle sample_codec rp ev)
      [TestFinished ''b'' ''t'' Pass 5 1 ''out'' [], RunFinished sample_stats 9]
      \<lparr>inner = [], recorder = Some fresh_recorder, closed = None\<rparr> =
      \<lparr>inner = [TestFinished ''b'' ''t'' Pass 5 1 ''out'' [], RunFinished sample_stats 9], recorder = Some rec, closed = None\<rparr> \<and>
    replay_into sample_codec (rr_disk rec) True True =
      ([TestFinished ''b'' ''t'' Pass 5 1 ''out'' [], RunFinished sample_stats 9], Inr EXIT_OK)"
  using record_replay_roundtrip [of sample_codec "[TestFinished ''b'' ''t'' Pass 5 1 ''out'' [], RunFinished sample_stats 9]" True True]
  by (simp add: codec_ok_def sample_codec_def truncate_output_def MAX_OUTPUT_def ref_of_def ref_for_def blob_name_def
      blank_def trim_def is_ws_def inj_on_def resolve_exit_def stats_any_failed_def sample_stats_def)

text \<open>
  A replay does not mirror a cancelled run: the live run fails whenever it was cancelled, but
  the replay looks at the final statistics alone, so a run cancelled before anything failed,
  was terminated or skipped exits with success when it is replayed.
\<close>

theorem replay_exit_misses_cancel:
  "live_exit (Inr s) cancelled = resolve_exit True (Some s) \<longleftrightarrow> cancelled = False \<or> stats_any_failed s"
  by (auto simp: live_exit_def resolve_exit_def EXIT_OK_def EXIT_SETUP_ERROR_def EXIT_TEST_RUN_FAILED_def)

section \<open>Truncation\<close>

lemma truncate_cut:
  assumes "most \<noteq> 0" "most < length data" "length (truncation_notice (length data - most)) \<le> most"
  shows "length (fst (truncate_output data most)) = most"
    and "\<exists>front back. fst (truncate_output data most) = take front data @ truncation_notice (length data - most) @ drop (length data - back) data
      \<and> front + back + length (truncation_notice (length data - most)) = most"
proof -
  define notice where "notice = truncation_notice (length data - most)"
  define keep where "keep = most - length notice"
  have kd: "keep div 2 \<le> length data" "keep - keep div 2 \<le> length data" using assms(2) by (simp_all add: keep_def)
  have tr: "fst (truncate_output data most) =
      take (keep div 2) data @ notice @ drop (length data - (keep - keep div 2)) data"
    using assms(1,2) by (simp add: truncate_output_def Let_def notice_def [symmetric] keep_def [symmetric])
  show "length (fst (truncate_output data most)) = most"
    unfolding tr using kd assms(3) by (simp add: notice_def [symmetric]) (simp add: keep_def)
  show "\<exists>front back. fst (truncate_output data most) = take front data @ truncation_notice (length data - most) @ drop (length data - back) data
      \<and> front + back + length (truncation_notice (length data - most)) = most"
    unfolding tr notice_def [symmetric]
    using assms(3) by (intro exI [of _ "keep div 2"] exI [of _ "keep - keep div 2"]) (simp add: notice_def [symmetric] keep_def)
qed

section \<open>Retention\<close>

record run_entry =
  re_id :: string
  re_modified :: nat
  re_size :: u64

record retention_policy =
  max_age :: "nat option"
  max_runs :: "nat option"
  max_bytes :: "u64 option"

definition default_policy :: retention_policy where
  "default_policy = \<lparr>max_age = Some (30 * 24 * 60 * 60 * 10 ^ 9), max_runs = Some 100, max_bytes = Some (1024 * 1024 * 1024)\<rparr>"

definition past_budget :: "retention_policy \<Rightarrow> nat \<Rightarrow> nat \<Rightarrow> u64 \<Rightarrow> run_entry \<Rightarrow> bool" where
  "past_budget pol now rank kept r \<longleftrightarrow>
     (case max_age pol of None \<Rightarrow> False | Some age \<Rightarrow> re_modified r \<le> now \<and> age < now - re_modified r) \<or>
     (case max_runs pol of None \<Rightarrow> False | Some n \<Rightarrow> n \<le> rank) \<or>
     (case max_bytes pol of None \<Rightarrow> False | Some cap \<Rightarrow> cap < sat_add kept (re_size r))"

text \<open>The sweep, newest first: the runs left on disk and how many were deleted. \<open>removed\<close> is what
  the deletion of a run answers.\<close>

fun gc_sweep :: "(run_entry \<Rightarrow> bool) \<Rightarrow> retention_policy \<Rightarrow> nat \<Rightarrow> nat \<Rightarrow> u64 \<Rightarrow> run_entry list \<Rightarrow> run_entry list \<times> nat" where
  "gc_sweep removed pol now rank kept [] = ([], 0)"
| "gc_sweep removed pol now rank kept (r # rs) =
     (if past_budget pol now rank kept r then
        (case gc_sweep removed pol now (Suc rank) kept rs of (left, n) \<Rightarrow>
           if removed r then (left, Suc n) else (r # left, n))
      else (case gc_sweep removed pol now (Suc rank) (sat_add kept (re_size r)) rs of (left, n) \<Rightarrow> (r # left, n)))"

text \<open>\<open>sort_by_key\<close> on the reversed modification time: newest first, stable.\<close>

definition newest_first :: "run_entry list \<Rightarrow> run_entry list" where
  "newest_first rs = sort_key (\<lambda>r. - int (re_modified r)) rs"

definition gc_in :: "(run_entry \<Rightarrow> bool) \<Rightarrow> retention_policy \<Rightarrow> nat \<Rightarrow> (string + run_entry list) \<Rightarrow> run_entry list \<times> nat" where
  "gc_in removed pol now listed =
     (case listed of Inl _ \<Rightarrow> ([], 0) | Inr rs \<Rightarrow> gc_sweep removed pol now 0 0 (newest_first rs))"

lemma past_budget_bytes:
  assumes "max_bytes pol = Some cap" "cap \<noteq> - 1" "\<not> past_budget pol now rank kept r"
  shows "unat (sat_add kept (re_size r)) = unat kept + unat (re_size r)" "unat (sat_add kept (re_size r)) \<le> unat cap"
proof -
  have le: "sat_add kept (re_size r) \<le> cap" using assms(1,3) by (simp add: past_budget_def not_less)
  then show "unat (sat_add kept (re_size r)) \<le> unat cap" by (simp add: word_le_nat_alt)
  have "sat_add kept (re_size r) \<noteq> - 1" using le assms(2) by (metis max_word_max order_antisym word_order.extremum)
  then have "kept \<le> kept + re_size r" by (metis sat_add_def)
  then show "unat (sat_add kept (re_size r)) = unat kept + unat (re_size r)"
    by (simp add: sat_add_def add_no_overflow_iff unat_word_ariths)
qed

lemma gc_kept_Cons:
  "fst (gc_sweep (\<lambda>_. True) pol now rank kept (r # rs)) =
     (if past_budget pol now rank kept r then fst (gc_sweep (\<lambda>_. True) pol now (Suc rank) kept rs)
      else r # fst (gc_sweep (\<lambda>_. True) pol now (Suc rank) (sat_add kept (re_size r)) rs))"
  by (simp add: case_prod_beta)

lemma gc_sweep_bytes:
  assumes "max_bytes pol = Some cap" "cap \<noteq> - 1"
  shows "unat kept \<le> unat cap \<Longrightarrow>
    unat kept + sum_list (map (unat \<circ> re_size) (fst (gc_sweep (\<lambda>_. True) pol now rank kept rs))) \<le> unat cap"
proof (induction rs arbitrary: rank kept)
  case (Cons r rs)
  show ?case
  proof (cases "past_budget pol now rank kept r")
    case True
    with Cons(1) [OF Cons(2), of "Suc rank"] show ?thesis by (simp only: gc_kept_Cons if_True)
  next
    case False
    note b = past_budget_bytes [OF assms False]
    from Cons(1) [OF b(2), of "Suc rank"] b(1) False show ?thesis by (simp add: gc_kept_Cons del: gc_sweep.simps)
  qed
qed simp

lemma gc_sweep_count:
  assumes "max_runs pol = Some n"
  shows "length (fst (gc_sweep (\<lambda>_. True) pol now rank kept rs)) \<le> n - rank"
proof (induction rs arbitrary: rank kept)
  case (Cons r rs)
  show ?case
  proof (cases "past_budget pol now rank kept r")
    case True
    with Cons [of "Suc rank" kept] show ?thesis by (simp add: gc_kept_Cons del: gc_sweep.simps)
  next
    case False
    then have "rank < n" using assms by (simp add: past_budget_def)
    with Cons [of "Suc rank" "sat_add kept (re_size r)"] False show ?thesis by (simp add: gc_kept_Cons del: gc_sweep.simps)
  qed
qed simp

lemma gc_sweep_age:
  assumes "max_age pol = Some age"
  shows "r \<in> set (fst (gc_sweep (\<lambda>_. True) pol now rank kept rs)) \<Longrightarrow> now - re_modified r \<le> age"
proof (induction rs arbitrary: rank kept)
  case (Cons x rs)
  have age: "\<not> past_budget pol now rank kept x \<Longrightarrow> now - re_modified x \<le> age"
    using assms by (auto simp: past_budget_def)
  show ?case using Cons age
    by (cases "past_budget pol now rank kept x") (auto simp: gc_kept_Cons simp del: gc_sweep.simps)
qed simp

text \<open>
  When its deletions succeed, a sweep leaves the cache within every limit of the policy: at
  most the number of runs, at most the bytes, and none older than the age.
\<close>

theorem retention_within_budget:
  assumes "max_runs pol = Some n" "max_bytes pol = Some cap" "cap \<noteq> - 1" "max_age pol = Some age"
  shows "length (fst (gc_in (\<lambda>_. True) pol now (Inr rs))) \<le> n \<and>
    sum_list (map (unat \<circ> re_size) (fst (gc_in (\<lambda>_. True) pol now (Inr rs)))) \<le> unat cap \<and>
    list_all (\<lambda>r. now - re_modified r \<le> age) (fst (gc_in (\<lambda>_. True) pol now (Inr rs)))"
  using gc_sweep_count [OF assms(1), of now 0 0 "newest_first rs"] gc_sweep_bytes [OF assms(2,3), of 0 now 0 "newest_first rs"]
    gc_sweep_age [OF assms(4), of _ now 0 0 "newest_first rs"]
  by (simp add: gc_in_def list_all_iff)

theorem retention_within_budget_witness:
  "length (fst (gc_in (\<lambda>_. True) default_policy 7 (Inr [\<lparr>re_id = ''r'', re_modified = 3, re_size = 5\<rparr>]))) \<le> 100"
  using retention_within_budget [of default_policy 100 "1024 * 1024 * 1024" "30 * 24 * 60 * 60 * 10 ^ 9" 7
      "[\<lparr>re_id = ''r'', re_modified = 3, re_size = 5\<rparr>]"]
  by (simp add: default_policy_def)

text \<open>
  Retention does not keep the newest run: a recording larger than the whole byte budget is
  deleted by the sweep that follows it, while an older, smaller one stays.
\<close>

theorem oversized_newest_run_pruned:
  assumes "re_modified older < re_modified newer" "re_modified newer \<le> now"
    and "max_bytes pol = Some cap" "cap < re_size newer" "re_size older \<le> cap"
    and "max_runs pol = Some n" "2 \<le> n" "max_age pol = Some age" "now - re_modified older \<le> age"
  shows "gc_in (\<lambda>_. True) pol now (Inr [older, newer]) = ([older], 1)"
proof -
  have "newest_first [older, newer] = [newer, older]" using assms(1) by (simp add: newest_first_def)
  moreover have "past_budget pol now 0 0 newer" using assms(3,4) by (simp add: past_budget_def sat_add_def)
  moreover have "\<not> past_budget pol now (Suc 0) 0 older"
    using assms by (simp add: past_budget_def sat_add_def not_less)
  ultimately show ?thesis by (simp add: gc_in_def)
qed

theorem oversized_newest_run_pruned_witness:
  "gc_in (\<lambda>_. True) default_policy 7 (Inr [\<lparr>re_id = ''old'', re_modified = 3, re_size = 5\<rparr>, \<lparr>re_id = ''new'', re_modified = 6, re_size = 2000000000\<rparr>])
   = ([\<lparr>re_id = ''old'', re_modified = 3, re_size = 5\<rparr>], 1)"
  by (rule oversized_newest_run_pruned [where cap = "1024 * 1024 * 1024" and n = 100 and age = "30 * 24 * 60 * 60 * 10 ^ 9"])
    (simp_all add: default_policy_def)

section \<open>Finding a recording\<close>

datatype run_selector = Latest | SelId string | SelPath string

definition is_path_like :: "string \<Rightarrow> bool" where
  "is_path_like s \<longleftrightarrow> CHR ''/'' \<in> set s \<or> suffix ''.zst'' s \<or> suffix ''.zip'' s"

definition parse_selector :: "string \<Rightarrow> run_selector" where
  "parse_selector s = (if s = ''latest'' then Latest else if is_path_like s then SelPath s else SelId s)"

definition latest_run :: "run_entry list \<Rightarrow> string + run_entry" where
  "latest_run rs = (case newest_first rs of [] \<Rightarrow> Inl ''no recorded runs for this workspace'' | r # _ \<Rightarrow> Inr r)"

definition by_prefix :: "run_entry list \<Rightarrow> string \<Rightarrow> string + run_entry" where
  "by_prefix rs pre =
     (case filter (\<lambda>r. prefix pre (re_id r)) (newest_first rs) of
        [] \<Rightarrow> Inl (''no recorded run matches '' @ pre)
      | [one] \<Rightarrow> Inr one
      | many \<Rightarrow> Inl (pre @ '' is ambiguous; matches: '' @ join '', '' (map re_id many)))"

definition resolve_run :: "(string \<Rightarrow> bool) \<Rightarrow> run_entry list \<Rightarrow> run_selector \<Rightarrow> string + string" where
  "resolve_run is_dir rs sel =
     (case sel of
        SelPath p \<Rightarrow> if is_dir p then Inr p else Inl (''no recording at '' @ p)
      | Latest \<Rightarrow> map_sum id re_id (latest_run rs)
      | SelId p \<Rightarrow> map_sum id re_id (by_prefix rs p))"

lemma set_newest_first [simp]: "set (newest_first rs) = set rs"
  by (simp add: newest_first_def)

lemma by_prefix_unique:
  "by_prefix rs pre = Inr r \<Longrightarrow> r \<in> set rs \<and> prefix pre (re_id r) \<and> (\<forall>x \<in> set rs. prefix pre (re_id x) \<longrightarrow> x = r)"
proof -
  assume "by_prefix rs pre = Inr r"
  then have "filter (\<lambda>r. prefix pre (re_id r)) (newest_first rs) = [r]"
    unfolding by_prefix_def by (auto split: list.splits)
  then have "set (filter (\<lambda>r. prefix pre (re_id r)) (newest_first rs)) = {r}" by simp
  then show ?thesis by auto
qed

lemma latest_run_newest: "latest_run rs = Inr r \<Longrightarrow> r \<in> set rs \<and> (\<forall>x \<in> set rs. re_modified x \<le> re_modified r)"
proof -
  assume "latest_run rs = Inr r"
  then obtain rest where srt: "newest_first rs = r # rest" by (auto simp: latest_run_def split: list.splits)
  have "set (newest_first rs) = set rs" by simp
  moreover have "sorted (map (\<lambda>r. - int (re_modified r)) (newest_first rs))" by (simp add: newest_first_def)
  ultimately show ?thesis unfolding srt by auto
qed

end
