(* ===== verification/Pod_Status.thy ===== *)
theory Pod_Status
  imports Ztest_Prelude
begin

text \<open>
  Pod status classification and the readiness deadlines (\<open>src/src/pod_status.rs\<close>), the wait of
  a dependency pod over them (\<open>await_pod_ready\<close> of \<open>src/src/env.rs\<close>), the start watch of a seed
  pod (\<open>src/src/materialize/progress.rs\<close>) and the terminal states of a runner pod
  (\<open>src/src/engine/pod_runner.rs\<close>). The Kubernetes objects are records of the fields the code
  reads; instants and durations are nanoseconds, and a difference of instants saturates at 0.
\<close>

section \<open>The status as reported\<close>

record condition =
  c_type :: string
  c_status :: string
  c_reason :: "string option"
  c_message :: "string option"
  c_last_transition :: "int option"

record terminated =
  t_reason :: "string option"
  t_exit_code :: int
  t_started_at :: "int option"
  t_finished_at :: "int option"

record container_state =
  waiting_reason :: "string option option"
  running_started :: "int option option"
  cs_terminated :: "terminated option"

record container_status =
  cs_name :: string
  cs_state :: "container_state option"
  cs_last_state :: "container_state option"

record pod_status =
  ps_phase :: "string option"
  ps_reason :: "string option"
  ps_conditions :: "condition list option"
  ps_containers :: "container_status list option"

record k8s_pod =
  pod_created :: "int option"
  pod_status_of :: "pod_status option"

definition POLL_INTERVAL :: nat where "POLL_INTERVAL = 250 * 10 ^ 6"
definition PENDING_TIMEOUT :: nat where "PENDING_TIMEOUT = 300 * 10 ^ 9"
definition IMAGE_PULL_GRACE :: nat where "IMAGE_PULL_GRACE = 90 * 10 ^ 9"

section \<open>Predicates\<close>

definition condition_true :: "string \<Rightarrow> pod_status \<Rightarrow> bool" where
  "condition_true ty st =
     (case ps_conditions st of None \<Rightarrow> False | Some cs \<Rightarrow> list_ex (\<lambda>c. c_type c = ty \<and> c_status c = ''True'') cs)"

definition pod_is_ready :: "pod_status \<Rightarrow> bool" where
  "pod_is_ready st = condition_true ''Ready'' st"

definition is_running :: "pod_status \<Rightarrow> bool" where
  "is_running st \<longleftrightarrow> ps_phase st = Some ''Running''"

definition is_pending :: "pod_status \<Rightarrow> bool" where
  "is_pending st \<longleftrightarrow> (case ps_phase st of None \<Rightarrow> ''Pending'' | Some p \<Rightarrow> p) = ''Pending''"

definition is_scheduled :: "pod_status \<Rightarrow> bool" where
  "is_scheduled st = condition_true ''PodScheduled'' st"

definition schedule_blocker :: "pod_status \<Rightarrow> string option" where
  "schedule_blocker st =
     (case ps_conditions st of
        None \<Rightarrow> None
      | Some cs \<Rightarrow>
          (case List.find (\<lambda>c. c_type c = ''PodScheduled'' \<and> c_status c \<noteq> ''True'') cs of
             None \<Rightarrow> None
           | Some c \<Rightarrow>
               (case (c_reason c, c_message c) of
                  (Some r, Some m) \<Rightarrow> Some (r @ '': '' @ m)
                | (Some r, None) \<Rightarrow> Some r
                | (None, Some m) \<Rightarrow> Some m
                | (None, None) \<Rightarrow> None)))"

text \<open>\<open>find_map\<close>: the first value.\<close>

fun first_some :: "('a \<Rightarrow> 'b option) \<Rightarrow> 'a list \<Rightarrow> 'b option" where
  "first_some f [] = None"
| "first_some f (x # xs) = (case f x of Some y \<Rightarrow> Some y | None \<Rightarrow> first_some f xs)"

definition container_fault :: "container_status \<Rightarrow> string option" where
  "container_fault cs =
     (if Option.bind (Option.bind (cs_state cs) waiting_reason) id = Some ''CrashLoopBackOff''
      then Some (cs_name cs @ '': CrashLoopBackOff'')
      else (let ended = (case Option.bind (cs_state cs) cs_terminated of
                           Some t \<Rightarrow> Some t
                         | None \<Rightarrow> Option.bind (cs_last_state cs) cs_terminated)
            in if Option.bind ended t_reason = Some ''OOMKilled''
               then Some (cs_name cs @ '': OOMKilled'') else None))"

definition fault :: "pod_status \<Rightarrow> string option" where
  "fault st =
     (if ps_phase st = Some ''Failed''
      then Some (case ps_reason st of Some r \<Rightarrow> r | None \<Rightarrow> ''pod entered Failed phase'')
      else Option.bind (ps_containers st) (first_some container_fault))"

definition image_error :: "pod_status \<Rightarrow> string option" where
  "image_error st =
     Option.bind (ps_containers st) (first_some (\<lambda>cs.
       Option.bind (cs_state cs) (\<lambda>s.
       Option.bind (waiting_reason s) (\<lambda>w.
       Option.bind w (\<lambda>r.
         if r \<in> {''ImagePullBackOff'', ''ErrImagePull'', ''InvalidImageName''} then Some r else None)))))"

definition pull_error_is_terminal :: "string \<Rightarrow> nat \<Rightarrow> nat \<Rightarrow> nat \<Rightarrow> bool" where
  "pull_error_is_terminal r first_seen now grace \<longleftrightarrow> r = ''InvalidImageName'' \<or> grace \<le> now - first_seen"

definition exit_code :: "pod_status \<Rightarrow> int option" where
  "exit_code st =
     Option.bind (ps_containers st) (first_some (\<lambda>cs.
       Option.bind (cs_state cs) (\<lambda>s. map_option t_exit_code (cs_terminated s))))"

section \<open>The readiness watch\<close>

datatype ready_verdict =
    PodReady
  | PodWaiting
  | Unschedulable string nat
  | Faulted string
  | PullFailed string
  | ReadyTimeout nat

record ready_watch =
  ready_timeout :: nat
  unscheduled_since :: "nat option"
  running_since :: "nat option"
  pull_error_since :: "nat option"

definition new_watch :: "nat \<Rightarrow> ready_watch" where
  "new_watch timeout = \<lparr>ready_timeout = timeout, unscheduled_since = None, running_since = None, pull_error_since = None\<rparr>"

text \<open>\<open>get_or_insert\<close>: the value held, or this one, held from now on.\<close>

definition or_now :: "nat option \<Rightarrow> nat \<Rightarrow> nat" where
  "or_now since now = (case since of Some s \<Rightarrow> s | None \<Rightarrow> now)"

definition blocker_text :: "pod_status \<Rightarrow> string" where
  "blocker_text st = (case schedule_blocker st of Some r \<Rightarrow> r | None \<Rightarrow> ''no PodScheduled condition'')"

definition ready_running :: "ready_watch \<Rightarrow> pod_status \<Rightarrow> nat \<Rightarrow> ready_watch \<times> ready_verdict" where
  "ready_running w st now =
     (if is_running st then
        (let since = or_now (running_since w) now; w = w\<lparr>running_since := Some since\<rparr> in
         if ready_timeout w \<le> now - since then (w, ReadyTimeout (ready_timeout w)) else (w, PodWaiting))
      else (w, PodWaiting))"

definition ready_pull :: "ready_watch \<Rightarrow> pod_status \<Rightarrow> nat \<Rightarrow> ready_watch \<times> ready_verdict" where
  "ready_pull w st now =
     (case image_error st of
        Some r \<Rightarrow>
          (let first = or_now (pull_error_since w) now; w = w\<lparr>pull_error_since := Some first\<rparr> in
           if pull_error_is_terminal r first now IMAGE_PULL_GRACE then (w, PullFailed r)
           else ready_running w st now)
      | None \<Rightarrow> ready_running (w\<lparr>pull_error_since := None\<rparr>) st now)"

definition ready_fault :: "ready_watch \<Rightarrow> pod_status \<Rightarrow> nat \<Rightarrow> ready_watch \<times> ready_verdict" where
  "ready_fault w st now =
     (case fault st of Some r \<Rightarrow> (w, Faulted r) | None \<Rightarrow> ready_pull w st now)"

definition ready_observe :: "ready_watch \<Rightarrow> pod_status \<Rightarrow> nat \<Rightarrow> ready_watch \<times> ready_verdict" where
  "ready_observe w st now =
     (if pod_is_ready st then (w, PodReady)
      else if \<not> is_scheduled st then
        (let since = or_now (unscheduled_since w) now; w = w\<lparr>unscheduled_since := Some since\<rparr> in
         if PENDING_TIMEOUT \<le> now - since then (w, Unschedulable (blocker_text st) (now - since))
         else ready_fault w st now)
      else ready_fault w st now)"

section \<open>The waits over it\<close>

datatype wait_result =
    ReadyOk
  | PodUnschedulable string nat
  | PodFailed string
  | RpcTimeout nat

fun wait_result_of :: "ready_verdict \<Rightarrow> wait_result option" where
  "wait_result_of PodReady = Some ReadyOk"
| "wait_result_of PodWaiting = None"
| "wait_result_of (Unschedulable r e) = Some (PodUnschedulable r e)"
| "wait_result_of (Faulted r) = Some (PodFailed r)"
| "wait_result_of (PullFailed r) = Some (PodFailed r)"
| "wait_result_of (ReadyTimeout e) = Some (RpcTimeout e)"

text \<open>The polls: what \<open>get\<close> answered (\<open>None\<close> for an error or no status) and when. \<open>None\<close> as the
  result: still waiting when the polls end.\<close>

fun await_pod_ready :: "ready_watch \<Rightarrow> (pod_status option \<times> nat) list \<Rightarrow> wait_result option" where
  "await_pod_ready w [] = None"
| "await_pod_ready w ((None, now) # polls) = await_pod_ready w polls"
| "await_pod_ready w ((Some st, now) # polls) =
     (case ready_observe w st now of (w, v) \<Rightarrow>
        case wait_result_of v of Some r \<Rightarrow> Some r | None \<Rightarrow> await_pod_ready w polls)"

datatype stall =
    StallUnschedulable string nat
  | StallImagePull string
  | StallNoProgress u64 u64
  | StallFinalizing u64

record start_watch =
  sw_unscheduled_since :: "nat option"
  sw_pull_error_since :: "nat option"

definition start_pull :: "start_watch \<Rightarrow> pod_status \<Rightarrow> nat \<Rightarrow> start_watch \<times> stall option" where
  "start_pull w st now =
     (case image_error st of
        Some r \<Rightarrow>
          (let first = or_now (sw_pull_error_since w) now; w = w\<lparr>sw_pull_error_since := Some first\<rparr> in
           (w, if pull_error_is_terminal r first now IMAGE_PULL_GRACE then Some (StallImagePull r) else None))
      | None \<Rightarrow> (w\<lparr>sw_pull_error_since := None\<rparr>, None))"

definition start_observe :: "start_watch \<Rightarrow> pod_status \<Rightarrow> nat \<Rightarrow> start_watch \<times> stall option" where
  "start_observe w st now =
     (if \<not> is_scheduled st then
        (let since = or_now (sw_unscheduled_since w) now; w = w\<lparr>sw_unscheduled_since := Some since\<rparr> in
         if PENDING_TIMEOUT \<le> now - since then (w, Some (StallUnschedulable (blocker_text st) (now - since)))
         else start_pull w st now)
      else start_pull w st now)"

datatype terminal_state = PassedState | FailedState int | ImageErrorState string

definition terminal_state_of :: "k8s_pod \<Rightarrow> terminal_state option" where
  "terminal_state_of p =
     (case pod_status_of p of
        None \<Rightarrow> None
      | Some st \<Rightarrow>
          if ps_phase st = Some ''Succeeded'' then Some PassedState
          else if ps_phase st = Some ''Failed''
          then Some (FailedState (case exit_code st of Some c \<Rightarrow> c | None \<Rightarrow> - 1))
          else None)"

section \<open>Phases of a pod's life\<close>

record pod_phases =
  ph_created :: "int option"
  ph_scheduled :: "int option"
  ph_container_started :: "int option"
  ph_container_finished :: "int option"

definition delta :: "int option \<Rightarrow> int option \<Rightarrow> nat option" where
  "delta start stop = (case (start, stop) of (Some a, Some b) \<Rightarrow> Some (nat (b - a)) | _ \<Rightarrow> None)"

definition ph_schedule :: "pod_phases \<Rightarrow> nat option" where
  "ph_schedule ph = delta (ph_created ph) (ph_scheduled ph)"

definition ph_pull_init :: "pod_phases \<Rightarrow> nat option" where
  "ph_pull_init ph = delta (ph_scheduled ph) (ph_container_started ph)"

definition ph_body :: "pod_phases \<Rightarrow> nat option" where
  "ph_body ph = delta (ph_container_started ph) (ph_container_finished ph)"

definition condition_true_at :: "k8s_pod \<Rightarrow> string \<Rightarrow> int option" where
  "condition_true_at p ty =
     Option.bind (pod_status_of p) (\<lambda>st. Option.bind (ps_conditions st)
       (first_some (\<lambda>c. if c_type c = ty \<and> c_status c = ''True'' then c_last_transition c else None)))"

definition pod_phases_of :: "k8s_pod \<Rightarrow> pod_phases" where
  "pod_phases_of p =
     (let first = Option.bind (pod_status_of p) (\<lambda>st. Option.bind (ps_containers st)
                    (\<lambda>cs. case cs of [] \<Rightarrow> None | c # _ \<Rightarrow> Some c));
          state = Option.bind first cs_state;
          started = Option.bind state (\<lambda>s.
            case Option.bind (running_started s) id of
              Some t \<Rightarrow> Some t
            | None \<Rightarrow> Option.bind (cs_terminated s) t_started_at);
          finished = Option.bind state (\<lambda>s. Option.bind (cs_terminated s) t_finished_at)
      in \<lparr>ph_created = pod_created p, ph_scheduled = condition_true_at p ''PodScheduled'',
          ph_container_started = started, ph_container_finished = finished\<rparr>)"

section \<open>The watch against its history\<close>

text \<open>
  The declarative reading of the deadlines, over the samples so far: the first sample not yet
  placed, the first one running, and the start of the unbroken run of pull errors that reaches
  the present.
\<close>

type_synonym sample = "pod_status \<times> nat"

definition first_time :: "(pod_status \<Rightarrow> bool) \<Rightarrow> sample list \<Rightarrow> nat option" where
  "first_time P hs = map_option snd (List.find (\<lambda>(st, t). P st) hs)"

definition pull_start :: "sample list \<Rightarrow> nat option" where
  "pull_start hs = (case rev (takeWhile (\<lambda>(st, t). image_error st \<noteq> None) (rev hs)) of
     [] \<Rightarrow> None | (st, t) # _ \<Rightarrow> Some t)"

definition overdue :: "nat \<Rightarrow> nat \<Rightarrow> nat option \<Rightarrow> bool" where
  "overdue limit now since \<longleftrightarrow> (case since of None \<Rightarrow> False | Some s \<Rightarrow> limit \<le> now - s)"

definition due_verdict :: "nat \<Rightarrow> sample list \<Rightarrow> pod_status \<Rightarrow> nat \<Rightarrow> ready_verdict" where
  "due_verdict timeout hs st now =
     (let unplaced = first_time (\<lambda>s. \<not> is_scheduled s) (hs @ [(st, now)]);
          pull = pull_start (hs @ [(st, now)]);
          running = first_time is_running (hs @ [(st, now)])
      in if pod_is_ready st then PodReady
         else if \<not> is_scheduled st \<and> overdue PENDING_TIMEOUT now unplaced
         then Unschedulable (blocker_text st) (now - the unplaced)
         else case fault st of Some r \<Rightarrow> Faulted r | None \<Rightarrow>
           (case image_error st of
              Some r \<Rightarrow> if r = ''InvalidImageName'' \<or> overdue IMAGE_PULL_GRACE now pull then PullFailed r
                        else if is_running st \<and> overdue timeout now running then ReadyTimeout timeout else PodWaiting
            | None \<Rightarrow> if is_running st \<and> overdue timeout now running then ReadyTimeout timeout else PodWaiting))"

fun due_wait :: "nat \<Rightarrow> sample list \<Rightarrow> (pod_status option \<times> nat) list \<Rightarrow> wait_result option" where
  "due_wait timeout hs [] = None"
| "due_wait timeout hs ((None, now) # polls) = due_wait timeout hs polls"
| "due_wait timeout hs ((Some st, now) # polls) =
     (case wait_result_of (due_verdict timeout hs st now) of
        Some r \<Rightarrow> Some r
      | None \<Rightarrow> due_wait timeout (hs @ [(st, now)]) polls)"

definition watches :: "nat \<Rightarrow> sample list \<Rightarrow> ready_watch \<Rightarrow> bool" where
  "watches timeout hs w \<longleftrightarrow> ready_timeout w = timeout \<and>
     unscheduled_since w = first_time (\<lambda>s. \<not> is_scheduled s) hs \<and>
     running_since w = first_time is_running hs \<and> pull_error_since w = pull_start hs"

lemma find_snoc: "List.find P (xs @ [x]) = (case List.find P xs of Some y \<Rightarrow> Some y | None \<Rightarrow> if P x then Some x else None)"
  by (induction xs) auto

lemma first_time_snoc:
  "first_time P (hs @ [(st, now)]) = (if P st then Some (or_now (first_time P hs) now) else first_time P hs)"
  by (cases "List.find (\<lambda>(st, t). P st) hs") (simp_all add: first_time_def find_snoc or_now_def)

lemma pull_start_snoc:
  "pull_start (hs @ [(st, now)]) = (if image_error st \<noteq> None then Some (or_now (pull_start hs) now) else None)"
  by (auto simp: pull_start_def or_now_def split: list.splits option.splits)

lemma overdue_simps [simp]: "overdue limit now (Some s) \<longleftrightarrow> limit \<le> now - s" "\<not> overdue limit now None"
  by (simp_all add: overdue_def)

lemma ready_running_due:
  assumes "ready_timeout w = timeout" "running_since w = first_time is_running hs" "ready_running w st now = (w', v)"
  shows "v = (if is_running st \<and> overdue timeout now (first_time is_running (hs @ [(st, now)])) then ReadyTimeout timeout else PodWaiting)"
    "v = PodWaiting \<Longrightarrow> w' = w\<lparr>running_since := first_time is_running (hs @ [(st, now)])\<rparr>"
  using assms by (auto simp: ready_running_def Let_def first_time_snoc split: if_splits)

lemma ready_pull_due:
  assumes "ready_timeout w = timeout" "running_since w = first_time is_running hs" "pull_error_since w = pull_start hs"
    and "ready_pull w st now = (w', v)"
  shows "v = (case image_error st of
              Some r \<Rightarrow> if r = ''InvalidImageName'' \<or> overdue IMAGE_PULL_GRACE now (pull_start (hs @ [(st, now)])) then PullFailed r
                        else if is_running st \<and> overdue timeout now (first_time is_running (hs @ [(st, now)])) then ReadyTimeout timeout else PodWaiting
            | None \<Rightarrow> if is_running st \<and> overdue timeout now (first_time is_running (hs @ [(st, now)])) then ReadyTimeout timeout else PodWaiting)"
    "v = PodWaiting \<Longrightarrow> w' = w\<lparr>running_since := first_time is_running (hs @ [(st, now)]), pull_error_since := pull_start (hs @ [(st, now)])\<rparr>"
proof -
  define w1 where "w1 = w\<lparr>pull_error_since := pull_start (hs @ [(st, now)])\<rparr>"
  have w1: "ready_timeout w1 = timeout" "running_since w1 = first_time is_running hs"
    using assms by (simp_all add: w1_def)
  obtain w2 v2 where run: "ready_running w1 st now = (w2, v2)" by fastforce
  note due = ready_running_due [OF w1 run]
  have step: "ready_pull w st now = (case image_error st of
      Some r \<Rightarrow> if r = ''InvalidImageName'' \<or> overdue IMAGE_PULL_GRACE now (pull_start (hs @ [(st, now)])) then (w1, PullFailed r) else (w2, v2)
    | None \<Rightarrow> (w2, v2))"
    using assms(3) run by (auto simp: ready_pull_def w1_def pull_start_snoc pull_error_is_terminal_def Let_def split: option.splits)
  show "v = (case image_error st of
              Some r \<Rightarrow> if r = ''InvalidImageName'' \<or> overdue IMAGE_PULL_GRACE now (pull_start (hs @ [(st, now)])) then PullFailed r
                        else if is_running st \<and> overdue timeout now (first_time is_running (hs @ [(st, now)])) then ReadyTimeout timeout else PodWaiting
            | None \<Rightarrow> if is_running st \<and> overdue timeout now (first_time is_running (hs @ [(st, now)])) then ReadyTimeout timeout else PodWaiting)"
    using assms(4) unfolding step due(1) [symmetric] by (auto split: option.splits if_splits)
  assume "v = PodWaiting"
  with assms(4) have "v2 = PodWaiting" "w' = w2" unfolding step by (auto split: option.splits if_splits)
  with due(2) show "w' = w\<lparr>running_since := first_time is_running (hs @ [(st, now)]), pull_error_since := pull_start (hs @ [(st, now)])\<rparr>"
    by (simp add: w1_def)
qed

lemma ready_observe_due:
  assumes w: "watches timeout hs w" and obs: "ready_observe w st now = (w', v)"
  shows "v = due_verdict timeout hs st now" and "v = PodWaiting \<Longrightarrow> watches timeout (hs @ [(st, now)]) w'"
proof -
  define w1 where "w1 = w\<lparr>unscheduled_since := first_time (\<lambda>s. \<not> is_scheduled s) (hs @ [(st, now)])\<rparr>"
  have w1: "ready_timeout w1 = timeout" "running_since w1 = first_time is_running hs" "pull_error_since w1 = pull_start hs"
    using w by (simp_all add: w1_def watches_def)
  obtain w2 v2 where pull: "ready_pull w1 st now = (w2, v2)" by fastforce
  note due = ready_pull_due [OF w1 pull]
  have same: "is_scheduled st \<Longrightarrow> w1 = w" using w by (simp add: w1_def watches_def first_time_snoc)
  have step: "ready_observe w st now =
      (if pod_is_ready st then (w, PodReady)
       else if \<not> is_scheduled st \<and> overdue PENDING_TIMEOUT now (first_time (\<lambda>s. \<not> is_scheduled s) (hs @ [(st, now)]))
       then (w1, Unschedulable (blocker_text st) (now - the (first_time (\<lambda>s. \<not> is_scheduled s) (hs @ [(st, now)]))))
       else case fault st of Some r \<Rightarrow> (w1, Faulted r) | None \<Rightarrow> (w2, v2))"
  proof (cases "is_scheduled st")
    case True
    then show ?thesis using same pull by (auto simp: ready_observe_def ready_fault_def split: option.splits)
  next
    case False
    then show ?thesis using w pull
      by (auto simp: ready_observe_def ready_fault_def w1_def watches_def first_time_snoc Let_def split: option.splits)
  qed
  show "v = due_verdict timeout hs st now"
    using obs unfolding step due_verdict_def Let_def due(1) [symmetric] by (auto split: if_splits option.splits)
  assume "v = PodWaiting"
  with obs have "w' = w2" "v2 = PodWaiting" unfolding step by (auto split: if_splits option.splits)
  with due(2) w1(1) show "watches timeout (hs @ [(st, now)]) w'" by (simp add: watches_def w1_def)
qed

lemma await_due: "watches timeout hs w \<Longrightarrow> await_pod_ready w polls = due_wait timeout hs polls"
proof (induction timeout hs polls arbitrary: w rule: due_wait.induct)
  case (3 timeout hs st now polls)
  obtain w' v where obs: "ready_observe w st now = (w', v)" by fastforce
  note due = ready_observe_due [OF 3(2) obs]
  show ?case
  proof (cases "v = PodWaiting")
    case True
    with due have "watches timeout (hs @ [(st, now)]) w'" "wait_result_of (due_verdict timeout hs st now) = None" by simp_all
    with 3(1) obs True show ?thesis by simp
  next
    case False
    then obtain r where "wait_result_of v = Some r" by (cases v) simp_all
    with obs due(1) show ?thesis by simp
  qed
qed simp_all

text \<open>
  C28. The three deadlines, kept one sample at a time, mean what they say over the whole history of
  polls: a dependency wait ends at the first poll that is ready, or not placed five minutes
  after the first poll that was not placed, or faulted, or in a pull error that is an
  invalid name or has lasted, unbroken, the grace, or running without being ready since the
  timeout; polls that fail change nothing.
\<close>

theorem readiness_wait_exact:
  "await_pod_ready (new_watch timeout) polls = due_wait timeout [] polls"
  by (rule await_due) (simp add: watches_def new_watch_def first_time_def pull_start_def)

text \<open>
  No deadline covers a pod between its placement and its first container: placed, not running
  and with no fault or pull error (creating its containers, waiting for a volume), it is waited
  for without end, whatever the polls' times, although the watch is what ends a wedged start.
\<close>

theorem creating_pod_waits_forever:
  assumes "list_all (\<lambda>(st, now). case st of None \<Rightarrow> True
      | Some s \<Rightarrow> \<not> pod_is_ready s \<and> is_scheduled s \<and> \<not> is_running s \<and> fault s = None \<and> image_error s = None) polls"
  shows "await_pod_ready (new_watch timeout) polls = None"
proof -
  have "await_pod_ready w polls = None" for w
    using assms
  proof (induction w polls rule: await_pod_ready.induct)
    case (3 w st now polls)
    then have "ready_observe w st now = (w\<lparr>pull_error_since := None\<rparr>, PodWaiting)"
      by (simp add: ready_observe_def ready_fault_def ready_pull_def ready_running_def)
    with 3 show ?case by simp
  qed simp_all
  then show ?thesis .
qed

definition creating :: pod_status where
  "creating = \<lparr>ps_phase = Some ''Pending'', ps_reason = None,
     ps_conditions = Some [\<lparr>c_type = ''PodScheduled'', c_status = ''True'', c_reason = None, c_message = None, c_last_transition = None\<rparr>],
     ps_containers = Some [\<lparr>cs_name = ''zebra'',
       cs_state = Some \<lparr>waiting_reason = Some (Some ''ContainerCreating''), running_started = None, cs_terminated = None\<rparr>,
       cs_last_state = None\<rparr>]\<rparr>"

theorem creating_pod_waits_forever_witness:
  "await_pod_ready (new_watch 60) [(Some creating, 0), (None, 5), (Some creating, 10 ^ 18)] = None"
  by (rule creating_pod_waits_forever)
    (simp add: creating_def pod_is_ready_def is_scheduled_def condition_true_def is_running_def fault_def
      container_fault_def image_error_def)

text \<open>The start watch of a seed pod runs on the same clocks.\<close>

definition same_clocks :: "ready_watch \<Rightarrow> start_watch \<Rightarrow> bool" where
  "same_clocks w s \<longleftrightarrow> sw_unscheduled_since s = unscheduled_since w \<and> sw_pull_error_since s = pull_error_since w"

lemma start_watch_follows:
  assumes "same_clocks w s" "\<not> pod_is_ready st" "fault st = None"
  shows "case (ready_observe w st now, start_observe s st now) of ((w', v), (s', stall)) \<Rightarrow>
    same_clocks w' s' \<and> stall = (case v of Unschedulable r e \<Rightarrow> Some (StallUnschedulable r e)
                                  | PullFailed r \<Rightarrow> Some (StallImagePull r) | _ \<Rightarrow> None)"
  using assms
  by (auto simp: ready_observe_def start_observe_def ready_fault_def ready_pull_def start_pull_def ready_running_def
      same_clocks_def Let_def split: option.splits if_splits)

text \<open>Server timestamps never give a negative phase, and ordered ones add up.\<close>

lemma phases_add_up:
  assumes "ph_created ph = Some c" "ph_scheduled ph = Some s" "ph_container_started ph = Some a" "ph_container_finished ph = Some f"
    and "c \<le> s" "s \<le> a" "a \<le> f"
  shows "the (ph_schedule ph) + the (ph_pull_init ph) + the (ph_body ph) = nat (f - c)"
  using assms by (simp add: ph_schedule_def ph_pull_init_def ph_body_def delta_def)

end
