(* ===== verification/Seed_Pull.thy ===== *)
theory Seed_Pull
  imports Pod_Status "HOL-Library.List_Lexorder" "HOL-Library.Char_ord"
begin

text \<open>
  The watch over a seed download (\<open>src/src/materialize/progress.rs\<close>): a puller pod moves bytes to a
  node, and its log is the only signal. The watch follows the log across re-attaches and pods,
  keeps the clock of forward motion, and returns only to end the pull. Its inputs are, turn by
  turn, the pod the cluster lists and what the log stream delivers, each with how long it
  took; local computation takes no time, a sleep lasts its time, and a read that would take longer
  than the time left ends in the timeout. JSON decoding is an argument.
\<close>

section \<open>Forward motion\<close>

definition PRE_RUN_POLL :: nat where "PRE_RUN_POLL = 500 * 10 ^ 6"
definition REATTACH_DELAY :: nat where "REATTACH_DELAY = 10 ^ 9"
definition REATTACH_BACKFILL_SECS :: int where "REATTACH_BACKFILL_SECS = 10"
definition MAX_RECORD :: nat where "MAX_RECORD = 64 * 1024"
definition STALL_WINDOW :: nat where "STALL_WINDOW = 15 * 60 * 10 ^ 9"

fun stall_ran :: "stall \<Rightarrow> bool" where
  "stall_ran (StallNoProgress _ _) = True"
| "stall_ran (StallFinalizing _) = True"
| "stall_ran _ = False"

record pull_liveness =
  lv_base :: u64
  lv_transferred :: u64
  lv_total :: u64
  lv_verified :: "string option"
  lv_idle_since :: nat

definition new_liveness :: "u64 \<Rightarrow> nat \<Rightarrow> pull_liveness" where
  "new_liveness total_bytes now =
     \<lparr>lv_base = 0, lv_transferred = 0, lv_total = total_bytes, lv_verified = None, lv_idle_since = now\<rparr>"

definition next_attempt :: "pull_liveness \<Rightarrow> pull_liveness" where
  "next_attempt l = l\<lparr>lv_base := lv_transferred l, lv_verified := None\<rparr>"

definition observe_bytes :: "u64 \<Rightarrow> nat \<Rightarrow> pull_liveness \<Rightarrow> pull_liveness \<times> bool" where
  "observe_bytes count now l =
     (let absolute = sat_add (lv_base l) count in
      if absolute \<le> lv_transferred l then (l, False)
      else (l\<lparr>lv_transferred := absolute, lv_idle_since := now\<rparr>, True))"

definition observe_verified :: "string \<Rightarrow> nat \<Rightarrow> pull_liveness \<Rightarrow> pull_liveness \<times> bool" where
  "observe_verified relpath now l =
     (if (case lv_verified l of Some latest \<Rightarrow> relpath \<le> latest | None \<Rightarrow> False) then (l, False)
      else (l\<lparr>lv_verified := Some relpath, lv_idle_since := now\<rparr>, True))"

definition shown_bytes :: "pull_liveness \<Rightarrow> u64" where
  "shown_bytes l = min (lv_transferred l) (lv_total l)"

definition remaining :: "pull_liveness \<Rightarrow> nat \<Rightarrow> nat" where
  "remaining l now = STALL_WINDOW - (now - lv_idle_since l)"

definition expired :: "pull_liveness \<Rightarrow> nat \<Rightarrow> bool" where
  "expired l now \<longleftrightarrow> remaining l now = 0"

definition stall_of :: "pull_liveness \<Rightarrow> stall" where
  "stall_of l =
     (if lv_verified l \<noteq> None \<or> lv_total l \<le> lv_transferred l then StallFinalizing (lv_total l)
      else StallNoProgress (lv_transferred l) (lv_total l))"

section \<open>Following one log\<close>

datatype json = JObject "(string \<times> json) list" | JU64 u64 | JOther

fun json_get :: "string \<Rightarrow> json \<Rightarrow> json option" where
  "json_get key (JObject kvs) = map_of kvs key"
| "json_get key _ = None"

fun as_u64 :: "json \<Rightarrow> u64 option" where
  "as_u64 (JU64 n) = Some n"
| "as_u64 _ = None"

definition stats_bytes :: "(string \<Rightarrow> json option) \<Rightarrow> string \<Rightarrow> u64 option" where
  "stats_bytes from_slice line =
     Option.bind (from_slice line) (\<lambda>v. Option.bind (json_get ''stats'' v) (\<lambda>s. Option.bind (json_get ''bytes'' s) as_u64))"

definition verified_path :: "string \<Rightarrow> string option" where
  "verified_path line =
     (case strip_suffix '': OK'' line of
        Some p \<Rightarrow> if p \<noteq> [] \<and> \<not> prefix ''{'' p then Some p else None
      | None \<Rightarrow> None)"

datatype report = NoteReport string | BytesReport u64 u64 | FinalizingReport

datatype followed = FollowEnded | FollowStalled

text \<open>A read that takes its time and delivers an error or a chunk; an empty chunk is the end.\<close>

datatype log_read = LogRead nat "string + string"

record following =
  fo_time :: nat
  fo_clock :: pull_liveness
  fo_reports :: "report list"

definition follow_line :: "(string \<Rightarrow> json option) \<Rightarrow> string \<Rightarrow> following \<Rightarrow> following" where
  "follow_line from_slice line f =
     (case stats_bytes from_slice line of
        Some count \<Rightarrow>
          (let l = fst (observe_bytes count (fo_time f) (fo_clock f))
           in f\<lparr>fo_clock := l, fo_reports := fo_reports f @ [BytesReport (shown_bytes l) (lv_total l)]\<rparr>)
      | None \<Rightarrow>
          (case verified_path line of
             Some relpath \<Rightarrow>
               f\<lparr>fo_clock := fst (observe_verified relpath (fo_time f) (fo_clock f)),
                 fo_reports := fo_reports f @ (if lv_verified (fo_clock f) = None then [NoteReport ''verifying''] else [])\<rparr>
           | None \<Rightarrow> f))"

definition follow_chunk :: "(string \<Rightarrow> json option) \<Rightarrow> string \<Rightarrow> following \<Rightarrow> following \<times> string" where
  "follow_chunk from_slice buffered f =
     (let pieces = split_on (CHR 0x0A) buffered; rest = last pieces
      in (fold (follow_line from_slice) (butlast pieces) f, if MAX_RECORD < length rest then [] else rest))"

fun follow_reads ::
  "(string \<Rightarrow> json option) \<Rightarrow> log_read list \<Rightarrow> string \<Rightarrow> following \<Rightarrow> following \<times> (string + followed)" where
  "follow_reads from_slice [] buffered f =
     (f\<lparr>fo_time := fo_time f + remaining (fo_clock f) (fo_time f)\<rparr>, Inr FollowStalled)"
| "follow_reads from_slice (LogRead takes outcome # reads) buffered f =
     (if remaining (fo_clock f) (fo_time f) < takes
      then (f\<lparr>fo_time := fo_time f + remaining (fo_clock f) (fo_time f)\<rparr>, Inr FollowStalled)
      else (let f = f\<lparr>fo_time := fo_time f + takes\<rparr> in
            case outcome of
              Inl e \<Rightarrow> (f, Inl e)
            | Inr chunk \<Rightarrow>
                if chunk = [] then (f, Inr FollowEnded)
                else (case follow_chunk from_slice (buffered @ chunk) f of
                        (f, rest) \<Rightarrow> follow_reads from_slice reads rest f)))"

section \<open>The watch\<close>

record puller_pod =
  pp_name :: "string option"
  pp_status :: "pod_status option"

record pull_attempt =
  pa_name :: string
  pa_ended :: bool
  pa_resuming :: bool

text \<open>
  What one turn meets: how long listing the pods takes and the latest pod, how long opening
  its log takes, and the log, given how far back it was asked for.\<close>

record pull_poll =
  po_wait :: nat
  po_pod :: "puller_pod option"
  po_open :: nat
  po_log :: "int option \<Rightarrow> string + log_read list"

record pull_watch =
  pw_time :: nat
  pw_start :: start_watch
  pw_clock :: "pull_liveness option"
  pw_attempt :: "pull_attempt option"
  pw_reports :: "report list"

definition default_status :: pod_status where
  "default_status = \<lparr>ps_phase = None, ps_reason = None, ps_conditions = None, ps_containers = None\<rparr>"

definition failure_note :: "puller_pod \<Rightarrow> string option" where
  "failure_note pod =
     (case Option.bind (pp_status pod) exit_code of
        Some code \<Rightarrow> if code \<noteq> 0
          then Some (''pull failed (exit '' @ (if code < 0 then ''-'' else []) @ show_nat (nat \<bar>code\<bar>) @ '')'') else None
      | None \<Rightarrow> None)"

definition settle_report :: "puller_pod \<Rightarrow> report" where
  "settle_report pod = (case failure_note pod of Some note \<Rightarrow> NoteReport note | None \<Rightarrow> FinalizingReport)"

definition first_waiting :: "pod_status \<Rightarrow> string option" where
  "first_waiting st =
     Option.bind (ps_containers st) (\<lambda>cs. case cs of
        [] \<Rightarrow> None
      | c # _ \<Rightarrow> Option.bind (cs_state c) (\<lambda>s. Option.bind (waiting_reason s) id))"

definition pre_run_note :: "puller_pod \<Rightarrow> string" where
  "pre_run_note pod =
     (case pp_status pod of
        None \<Rightarrow> ''scheduling puller''
      | Some st \<Rightarrow>
          (case image_error st of
             Some err \<Rightarrow> ''puller image: '' @ err
           | None \<Rightarrow>
               (case first_waiting st of
                  Some reason \<Rightarrow>
                    if reason = ''ContainerCreating'' \<or> reason = ''PodInitializing'' then ''starting puller''
                    else ''puller '' @ reason
                | None \<Rightarrow> ''scheduling puller'')))"

definition report_row :: "report \<Rightarrow> pull_watch \<Rightarrow> pull_watch" where
  "report_row r w = w\<lparr>pw_reports := pw_reports w @ [r]\<rparr>"

definition pause_for :: "nat \<Rightarrow> pull_watch \<Rightarrow> pull_watch" where
  "pause_for d w = w\<lparr>pw_time := pw_time w + d\<rparr>"

text \<open>A different pod than the one followed: its bytes count from zero again.\<close>

definition switch_pod :: "string \<Rightarrow> pull_watch \<Rightarrow> pull_watch" where
  "switch_pod name w =
     (if (case pw_attempt w of Some a \<Rightarrow> pa_name a \<noteq> name | None \<Rightarrow> False)
      then report_row (NoteReport ''resuming pull'')
             (w\<lparr>pw_clock := map_option next_attempt (pw_clock w), pw_attempt := None\<rparr>)
      else w)"

definition follow_log ::
  "(string \<Rightarrow> json option) \<Rightarrow> pull_poll \<Rightarrow> pull_liveness \<Rightarrow> pull_watch \<Rightarrow> pull_watch \<times> (string + followed)" where
  "follow_log from_slice po l w =
     (let backfill = (case pw_attempt w of
            Some a \<Rightarrow> if pa_resuming a then Some REATTACH_BACKFILL_SECS else None | None \<Rightarrow> None);
          w = pause_for (po_open po) w
      in case po_log po backfill of
           Inl e \<Rightarrow> (w, Inl e)
         | Inr reads \<Rightarrow>
             (case follow_reads from_slice reads []
                     \<lparr>fo_time = pw_time w, fo_clock = l, fo_reports = pw_reports w @ [NoteReport ''transferring'']\<rparr> of
                (f, r) \<Rightarrow> (w\<lparr>pw_time := fo_time f, pw_clock := Some (fo_clock f), pw_reports := fo_reports f\<rparr>, r)))"

definition follow_turn ::
  "(string \<Rightarrow> json option) \<Rightarrow> pull_poll \<Rightarrow> puller_pod \<Rightarrow> string \<Rightarrow> pull_liveness \<Rightarrow> pull_watch \<Rightarrow> pull_watch \<times> stall option" where
  "follow_turn from_slice po pod name l w =
     (case follow_log from_slice po l w of
        (w, Inr FollowStalled) \<Rightarrow> (w, map_option stall_of (pw_clock w))
      | (w, Inr FollowEnded) \<Rightarrow>
          ((report_row (settle_report pod) w)\<lparr>pw_attempt := Some \<lparr>pa_name = name, pa_ended = True, pa_resuming = False\<rparr>\<rparr>, None)
      | (w, Inl e) \<Rightarrow>
          (pause_for REATTACH_DELAY
             ((report_row (NoteReport ''re-attaching to puller'') w)
                \<lparr>pw_attempt := Some \<lparr>pa_name = name, pa_ended = False, pa_resuming = True\<rparr>\<rparr>), None))"

definition running_turn ::
  "(string \<Rightarrow> json option) \<Rightarrow> u64 \<Rightarrow> pull_poll \<Rightarrow> puller_pod \<Rightarrow> string \<Rightarrow> pull_watch \<Rightarrow> pull_watch \<times> stall option" where
  "running_turn from_slice total_bytes po pod name w =
     (let l = (case pw_clock w of Some l \<Rightarrow> l | None \<Rightarrow> new_liveness total_bytes (pw_time w));
          w = w\<lparr>pw_clock := Some l\<rparr>
      in if expired l (pw_time w) then (w, Some (stall_of l))
         else if (case pw_attempt w of Some a \<Rightarrow> pa_ended a | None \<Rightarrow> False)
         then (pause_for PRE_RUN_POLL (report_row (settle_report pod) w), None)
         else follow_turn from_slice po pod name l w)"

definition watch_turn ::
  "(string \<Rightarrow> json option) \<Rightarrow> u64 \<Rightarrow> pull_poll \<Rightarrow> pull_watch \<Rightarrow> pull_watch \<times> stall option" where
  "watch_turn from_slice total_bytes po w =
     (let w = pause_for (po_wait po) w in
      case po_pod po of
        None \<Rightarrow> (pause_for PRE_RUN_POLL (report_row (NoteReport ''scheduling puller'') w), None)
      | Some pod \<Rightarrow>
          (case pp_name pod of
             None \<Rightarrow> (pause_for PRE_RUN_POLL w, None)
           | Some name \<Rightarrow>
               (let w = switch_pod name w;
                    status = (case pp_status pod of Some st \<Rightarrow> st | None \<Rightarrow> default_status)
                in if is_pending status
                   then (case start_observe (pw_start w) status (pw_time w) of
                           (sw, Some st) \<Rightarrow> (w\<lparr>pw_start := sw\<rparr>, Some st)
                         | (sw, None) \<Rightarrow>
                             (pause_for PRE_RUN_POLL (report_row (NoteReport (pre_run_note pod)) (w\<lparr>pw_start := sw\<rparr>)), None))
                   else running_turn from_slice total_bytes po pod name w)))"

text \<open>The watch over its turns: \<open>None\<close> while it still watches.\<close>

fun watch_puller ::
  "(string \<Rightarrow> json option) \<Rightarrow> u64 \<Rightarrow> pull_poll list \<Rightarrow> pull_watch \<Rightarrow> pull_watch \<times> stall option" where
  "watch_puller from_slice total_bytes [] w = (w, None)"
| "watch_puller from_slice total_bytes (po # polls) w =
     (case watch_turn from_slice total_bytes po w of
        (w, Some st) \<Rightarrow> (w, Some st)
      | (w, None) \<Rightarrow> watch_puller from_slice total_bytes polls w)"

definition new_watch_at :: "nat \<Rightarrow> pull_watch" where
  "new_watch_at now = \<lparr>pw_time = now, pw_start = \<lparr>sw_unscheduled_since = None, sw_pull_error_since = None\<rparr>,
     pw_clock = None, pw_attempt = None, pw_reports = []\<rparr>"

section \<open>The clock of forward motion\<close>

text \<open>
  From one instant to another the clock either stands, with the same bytes, or was moved in
  between; bytes never go back.\<close>

definition motion :: "nat \<Rightarrow> pull_liveness \<Rightarrow> nat \<Rightarrow> pull_liveness \<Rightarrow> bool" where
  "motion t l t' l' \<longleftrightarrow> t \<le> t' \<and> lv_total l' = lv_total l \<and> lv_transferred l \<le> lv_transferred l' \<and>
     (lv_idle_since l' = lv_idle_since l \<and> lv_transferred l' = lv_transferred l \<or>
      t \<le> lv_idle_since l' \<and> lv_idle_since l' \<le> t')"

lemma motion_refl [simp]: "motion t l t' l \<longleftrightarrow> t \<le> t'"
  by (simp add: motion_def)

lemma motion_trans: "motion t l t' l' \<Longrightarrow> motion t' l' t'' l'' \<Longrightarrow> motion t l t'' l''"
  unfolding motion_def by (elim conjE disjE) simp_all

lemma motion_idle: "motion t l t' l' \<Longrightarrow> lv_idle_since l \<le> t \<Longrightarrow> lv_idle_since l' \<le> t'"
  by (auto simp: motion_def)

text \<open>
  Something new of one pod: more bytes than before, or a file verified past the last one. While one
  pod is followed the clock moves only with something new.\<close>

definition advanced :: "pull_liveness \<Rightarrow> pull_liveness \<Rightarrow> bool" where
  "advanced l l' \<longleftrightarrow> lv_transferred l < lv_transferred l' \<or>
     (\<exists>v. lv_verified l' = Some v \<and> (\<forall>u. lv_verified l = Some u \<longrightarrow> u < v))"

definition pressed :: "nat \<Rightarrow> pull_liveness \<Rightarrow> nat \<Rightarrow> pull_liveness \<Rightarrow> bool" where
  "pressed t l t' l' \<longleftrightarrow> motion t l t' l' \<and>
     (\<forall>u. lv_verified l = Some u \<longrightarrow> (\<exists>v. lv_verified l' = Some v \<and> u \<le> v)) \<and>
     (lv_idle_since l' = lv_idle_since l \<and> lv_verified l' = lv_verified l \<and> lv_transferred l' = lv_transferred l \<or> advanced l l')"

lemma pressed_refl [simp]: "pressed t l t' l \<longleftrightarrow> t \<le> t'"
  by (auto simp: pressed_def)

lemma advanced_pressed: "advanced l l' \<Longrightarrow> pressed t l' t' l'' \<Longrightarrow> advanced l l''"
  by (fastforce simp: advanced_def pressed_def motion_def dest: order.strict_trans2)

lemma pressed_advanced:
  "pressed t l t' l' \<Longrightarrow> advanced l' l'' \<Longrightarrow> pressed t' l' t'' l'' \<Longrightarrow> advanced l l''"
  by (metis (no_types, lifting) advanced_def advanced_pressed pressed_def)

lemma pressed_trans:
  assumes "pressed t l t' l'" "pressed t' l' t'' l''"
  shows "pressed t l t'' l''"
proof -
  have "motion t l t'' l''" using assms motion_trans by (auto simp: pressed_def)
  moreover have "\<exists>v. lv_verified l'' = Some v \<and> u \<le> v" if "lv_verified l = Some u" for u
    using assms that by (fastforce simp: pressed_def dest: order_trans)
  moreover have "lv_idle_since l'' = lv_idle_since l \<and> lv_verified l'' = lv_verified l \<and> lv_transferred l'' = lv_transferred l \<or> advanced l l''"
    using assms advanced_pressed [OF _ assms(2)] pressed_advanced [OF assms(1) _ assms(2)] by (auto simp: pressed_def)
  ultimately show ?thesis by (simp add: pressed_def)
qed

lemma pressed_motion: "pressed t l t' l' \<Longrightarrow> motion t l t' l'"
  by (simp add: pressed_def)

lemma pressed_idle: "pressed t l t' l' \<Longrightarrow> lv_idle_since l \<le> t \<Longrightarrow> lv_idle_since l' \<le> t'"
  by (rule motion_idle [OF pressed_motion])

lemma observe_bytes_pressed: "pressed t l t (fst (observe_bytes count t l))"
  by (auto simp: pressed_def advanced_def motion_def observe_bytes_def Let_def)

lemma observe_verified_pressed: "pressed t l t (fst (observe_verified relpath t l))"
  by (auto simp: pressed_def advanced_def motion_def observe_verified_def split: option.splits)

lemma follow_line_pressed:
  "fo_time (follow_line js line f) = fo_time f \<and> pressed (fo_time f) (fo_clock f) (fo_time f) (fo_clock (follow_line js line f))"
  using observe_bytes_pressed [of "fo_time f" "fo_clock f"] observe_verified_pressed [of "fo_time f" "fo_clock f"] by (auto simp: follow_line_def Let_def split: option.splits)

lemma follow_lines_pressed:
  "fo_time (fold (follow_line js) ls f) = fo_time f \<and> pressed (fo_time f) (fo_clock f) (fo_time f) (fo_clock (fold (follow_line js) ls f))"
proof (induction ls arbitrary: f)
  case (Cons l ls)
  from Cons [of "follow_line js l f"] follow_line_pressed [of js l f] show ?case
    by (auto intro: pressed_trans)
qed simp

lemma follow_chunk_pressed:
  assumes "follow_chunk js buffered f = (f', rest)"
  shows "fo_time f' = fo_time f" "pressed (fo_time f) (fo_clock f) (fo_time f) (fo_clock f')"
  using assms follow_lines_pressed [of js _ f] by (auto simp: follow_chunk_def Let_def)

lemma remaining_runs_out: "lv_idle_since l \<le> t \<Longrightarrow> expired l (t + remaining l t)"
  by (simp add: expired_def remaining_def)

lemma follow_reads_pressed:
  assumes "follow_reads js reads buffered f = (f', r)" "lv_idle_since (fo_clock f) \<le> fo_time f"
  shows "pressed (fo_time f) (fo_clock f) (fo_time f') (fo_clock f') \<and> (r = Inr FollowStalled \<longrightarrow> expired (fo_clock f') (fo_time f'))"
  using assms
proof (induction js reads buffered f rule: follow_reads.induct)
  case (1 js buffered f)
  then show ?case by (auto simp: remaining_runs_out)
next
  case (2 js takes outcome reads buffered f)
  show ?case
  proof (cases "remaining (fo_clock f) (fo_time f) < takes")
    case True
    with 2(2,3) show ?thesis by (auto simp: remaining_runs_out)
  next
    case False
    define g where "g = f\<lparr>fo_time := fo_time f + takes\<rparr>"
    have g: "pressed (fo_time f) (fo_clock f) (fo_time g) (fo_clock g)" by (simp add: g_def)
    show ?thesis
    proof (cases "\<exists>chunk. outcome = Inr chunk \<and> chunk \<noteq> []")
      case True
      then obtain chunk where o: "outcome = Inr chunk" "chunk \<noteq> []" by blast
      obtain h rest where h: "follow_chunk js (buffered @ chunk) g = (h, rest)" by (cases "follow_chunk js (buffered @ chunk) g")
      have fold: "follow_reads js reads rest h = (f', r)" using 2(2) False o h by (simp add: g_def)
      have gh: "pressed (fo_time g) (fo_clock g) (fo_time h) (fo_clock h)" using follow_chunk_pressed [OF h] by simp
      have fh: "pressed (fo_time f) (fo_clock f) (fo_time h) (fo_clock h)" by (rule pressed_trans [OF g gh])
      have "pressed (fo_time h) (fo_clock h) (fo_time f') (fo_clock f') \<and> (r = Inr FollowStalled \<longrightarrow> expired (fo_clock f') (fo_time f'))"
        using 2(1) [OF False g_def o h [symmetric] fold pressed_idle [OF fh 2(3)]] .
      with fh show ?thesis by (auto intro: pressed_trans)
    next
      case False': False
      then have "f' = g \<and> r \<noteq> Inr FollowStalled" using 2(2) False by (auto simp: g_def Let_def split: sum.splits if_splits)
      with g show ?thesis by simp
    qed
  qed
qed

section \<open>Turns of the watch\<close>

definition clock_ok :: "pull_watch \<Rightarrow> bool" where
  "clock_ok w \<longleftrightarrow> (case pw_clock w of Some l \<Rightarrow> lv_idle_since l \<le> pw_time w | None \<Rightarrow> True)"

text \<open>What a turn does to the clock; a turn of the running pod that ends the pull found it run out.\<close>

definition advances :: "pull_watch \<Rightarrow> pull_watch \<Rightarrow> bool" where
  "advances w w' \<longleftrightarrow> pw_time w \<le> pw_time w' \<and> clock_ok w' \<and>
     (\<forall>l. pw_clock w = Some l \<longrightarrow> (\<exists>l'. pw_clock w' = Some l' \<and> motion (pw_time w) l (pw_time w') l'))"

definition silenced :: "pull_watch \<Rightarrow> stall option \<Rightarrow> bool" where
  "silenced w r \<longleftrightarrow> (\<forall>st. r = Some st \<longrightarrow> stall_ran st \<longrightarrow> (\<exists>l. pw_clock w = Some l \<and> expired l (pw_time w) \<and> st = stall_of l))"

lemma silenced_None [simp]: "silenced w None"
  by (simp add: silenced_def)

lemma advances_refl: "clock_ok w \<Longrightarrow> advances w w"
  by (simp add: advances_def)

lemma advances_trans: "advances u v \<Longrightarrow> advances v w \<Longrightarrow> advances u w"
  by (fastforce simp: advances_def intro: motion_trans)

lemma clock_okD: "clock_ok w \<Longrightarrow> pw_clock w = Some l \<Longrightarrow> lv_idle_since l \<le> pw_time w"
  by (simp add: clock_ok_def)

lemma advances_quiet:
  "clock_ok w \<Longrightarrow> pw_clock w' = pw_clock w \<Longrightarrow> pw_time w \<le> pw_time w' \<Longrightarrow> advances w w'"
  by (auto simp: advances_def clock_ok_def split: option.splits)

lemma switch_pod_advances:
  assumes "clock_ok w"
  shows "advances w (switch_pod name w)"
  using assms by (auto simp: advances_def clock_ok_def switch_pod_def report_row_def motion_def next_attempt_def split: option.splits)

lemma stall_of_ran [simp]: "stall_ran (stall_of l)"
  by (simp add: stall_of_def)

lemma start_observe_not_ran: "start_observe sw st now = (sw', Some stl) \<Longrightarrow> \<not> stall_ran stl"
  by (auto simp: start_observe_def start_pull_def Let_def split: if_splits option.splits)

text \<open>The stronger form, for turns that follow one pod.\<close>

definition presses :: "pull_watch \<Rightarrow> pull_watch \<Rightarrow> bool" where
  "presses w w' \<longleftrightarrow> pw_time w \<le> pw_time w' \<and> clock_ok w' \<and>
     (\<forall>l. pw_clock w = Some l \<longrightarrow> (\<exists>l'. pw_clock w' = Some l' \<and> pressed (pw_time w) l (pw_time w') l'))"

lemma presses_advances: "presses w w' \<Longrightarrow> advances w w'"
  by (auto simp: presses_def advances_def dest: pressed_motion)

lemma presses_trans: "presses u v \<Longrightarrow> presses v w \<Longrightarrow> presses u w"
  by (fastforce simp: presses_def intro: pressed_trans)

lemma presses_quiet:
  "clock_ok w \<Longrightarrow> pw_clock w' = pw_clock w \<Longrightarrow> pw_time w \<le> pw_time w' \<Longrightarrow> presses w w'"
  by (auto simp: presses_def clock_ok_def split: option.splits)

lemma follow_log_presses:
  assumes "follow_log js po l w = (w', r)" "pw_clock w = Some l" "clock_ok w"
  shows "presses w w' \<and> (\<exists>l'. pw_clock w' = Some l' \<and> (r = Inr FollowStalled \<longrightarrow> expired l' (pw_time w')))"
proof -
  define asked where "asked = (case pw_attempt w of
      Some a \<Rightarrow> if pa_resuming a then Some REATTACH_BACKFILL_SECS else None | None \<Rightarrow> None)"
  define v where "v = pause_for (po_open po) w"
  have v: "presses w v" "pw_clock v = Some l" using assms(2,3) by (auto simp: v_def pause_for_def intro: presses_quiet)
  show ?thesis
  proof (cases "po_log po asked")
    case (Inl e)
    then have "w' = v" "r = Inl e" using assms(1) by (simp_all add: follow_log_def Let_def asked_def v_def)
    with v show ?thesis by simp
  next
    case (Inr reads)
    define f0 where "f0 = \<lparr>fo_time = pw_time v, fo_clock = l, fo_reports = pw_reports v @ [NoteReport ''transferring'']\<rparr>"
    obtain f r' where f: "follow_reads js reads [] f0 = (f, r')" by (cases "follow_reads js reads [] f0")
    have w': "w' = v\<lparr>pw_time := fo_time f, pw_clock := Some (fo_clock f), pw_reports := fo_reports f\<rparr>" "r = r'"
      using assms(1) Inr f by (simp_all add: follow_log_def Let_def asked_def v_def f0_def)
    have idle: "lv_idle_since l \<le> pw_time v" using v by (auto simp: presses_def dest: clock_okD)
    with follow_reads_pressed [OF f] have m: "pressed (pw_time v) l (fo_time f) (fo_clock f)"
      and e: "r' = Inr FollowStalled \<longrightarrow> expired (fo_clock f) (fo_time f)" by (simp_all add: f0_def)
    have "presses v w'" using m pressed_idle [OF m idle] v(2) by (simp add: presses_def clock_ok_def w' pressed_def motion_def)
    with v(1) e w' show ?thesis by (auto intro: presses_trans)
  qed
qed

lemma follow_turn_presses:
  assumes "follow_turn js po pod name l w = (w', r)" "pw_clock w = Some l" "clock_ok w"
  shows "presses w w' \<and> silenced w' r"
proof -
  obtain v x where v: "follow_log js po l w = (v, x)" by (cases "follow_log js po l w")
  from follow_log_presses [OF v assms(2,3)] obtain l' where a: "presses w v" "pw_clock v = Some l'"
    "x = Inr FollowStalled \<longrightarrow> expired l' (pw_time v)" by blast
  have quiet: "presses w u" if "pw_clock u = pw_clock v" "pw_time v \<le> pw_time u" for u
    using a(1) that by (meson presses_def presses_quiet presses_trans)
  show ?thesis
  proof (cases x)
    case (Inl e)
    with assms(1) v show ?thesis by (auto simp: follow_turn_def pause_for_def report_row_def intro!: quiet)
  next
    case (Inr y)
    with assms(1) v a show ?thesis
      by (cases y) (auto simp: follow_turn_def report_row_def silenced_def intro!: quiet)
  qed
qed

lemma running_turn_presses:
  assumes "running_turn js tot po pod name w = (w', r)" "clock_ok w"
  shows "presses w w' \<and> silenced w' r"
proof -
  define l where "l = (case pw_clock w of Some l \<Rightarrow> l | None \<Rightarrow> new_liveness tot (pw_time w))"
  define v where "v = w\<lparr>pw_clock := Some l\<rparr>"
  have v: "presses w v" "pw_clock v = Some l" "pw_time v = pw_time w"
    using assms(2) by (auto simp: v_def l_def presses_def clock_ok_def new_liveness_def split: option.splits)
  then have ok: "clock_ok v" by (simp add: presses_def)
  have turn: "(w', r) = (if expired l (pw_time v) then (v, Some (stall_of l))
      else if (case pw_attempt v of Some a \<Rightarrow> pa_ended a | None \<Rightarrow> False)
      then (pause_for PRE_RUN_POLL (report_row (settle_report pod) v), None) else follow_turn js po pod name l v)"
    using assms(1) by (simp only: running_turn_def Let_def l_def v_def)
  consider (gone) "expired l (pw_time w)" "(w', r) = (v, Some (stall_of l))"
    | (ended) "w' = pause_for PRE_RUN_POLL (report_row (settle_report pod) v)" "r = None"
    | (follow) "follow_turn js po pod name l v = (w', r)"
    using turn unfolding v(3) prod.inject by (metis (no_types, lifting) prod.inject)
  then show ?thesis
  proof cases
    case gone
    with v show ?thesis by (simp add: silenced_def)
  next
    case ended
    have "presses v w'" by (rule presses_quiet [OF ok]) (simp_all add: ended pause_for_def report_row_def)
    with v(1) ended show ?thesis by (auto intro: presses_trans)
  next
    case follow
    from follow_turn_presses [OF follow v(2) ok] v(1) show ?thesis by (auto intro: presses_trans)
  qed
qed

lemma watch_turn_advances:
  assumes "watch_turn js tot po w = (w', r)" "clock_ok w"
  shows "advances w w' \<and> silenced w' r"
proof -
  define v where "v = pause_for (po_wait po) w"
  have v: "advances w v" using assms(2) by (auto simp: v_def pause_for_def intro: advances_quiet)
  have quiet: "advances u u'" if "clock_ok u" "pw_clock u' = pw_clock u" "pw_time u \<le> pw_time u'" for u u'
    using that by (rule advances_quiet)
  show ?thesis
  proof (cases "\<exists>pod name. po_pod po = Some pod \<and> pp_name pod = Some name")
    case False
    then have "pw_clock w' = pw_clock w" "pw_time w \<le> pw_time w'" "r = None" using assms(1)
      by (auto simp: watch_turn_def Let_def pause_for_def report_row_def split: option.splits)
    with assms(2) show ?thesis by (auto intro: advances_quiet)
  next
    case True
    then obtain pod name where pod: "po_pod po = Some pod" "pp_name pod = Some name" by blast
    define u where "u = switch_pod name v"
    define st where "st = (case pp_status pod of Some st \<Rightarrow> st | None \<Rightarrow> default_status)"
    have u: "advances w u" 
      unfolding u_def by (rule advances_trans [OF v switch_pod_advances]) (use v in \<open>simp add: advances_def\<close>)
    then have ok: "clock_ok u" by (simp add: advances_def)
    have turn: "(w', r) = (if is_pending st
        then (case start_observe (pw_start u) st (pw_time u) of
                (sw, Some st) \<Rightarrow> (u\<lparr>pw_start := sw\<rparr>, Some st)
              | (sw, None) \<Rightarrow> (pause_for PRE_RUN_POLL (report_row (NoteReport (pre_run_note pod)) (u\<lparr>pw_start := sw\<rparr>)), None))
        else running_turn js tot po pod name u)"
      unfolding assms(1) [symmetric] u_def v_def st_def by (simp only: watch_turn_def Let_def pod option.case)
    have "advances u w' \<and> silenced w' r"
    proof (cases "is_pending st")
      case True
      obtain sw x where x: "start_observe (pw_start u) st (pw_time u) = (sw, x)" by (cases "start_observe (pw_start u) st (pw_time u)")
      with turn True ok show ?thesis
        by (cases x) (auto simp: pause_for_def report_row_def silenced_def dest: start_observe_not_ran intro!: quiet)
    next
      case False
      with turn running_turn_presses [of js tot po pod name u w' r] ok show ?thesis by (simp add: presses_advances)
    qed
    with u show ?thesis by (auto intro: advances_trans)
  qed
qed

lemma watch_puller_advances:
  "watch_puller js tot polls w = (w', r) \<Longrightarrow> clock_ok w \<Longrightarrow> advances w w' \<and> silenced w' r"
proof (induction polls arbitrary: w)
  case Nil then show ?case by (auto intro: advances_refl)
next
  case (Cons po polls)
  obtain v x where v: "watch_turn js tot po w = (v, x)" by (cases "watch_turn js tot po w")
  have a: "advances w v" "silenced v x" using watch_turn_advances [OF v Cons.prems(2)] by simp_all
  show ?case
  proof (cases x)
    case None
    then have "watch_puller js tot polls v = (w', r)" using Cons.prems(1) v by simp
    from Cons.IH [OF this] a(1) show ?thesis by (auto simp: advances_def [of w v] intro: advances_trans a(1))
  next
    case (Some st)
    with Cons.prems(1) v a show ?thesis by auto
  qed
qed

lemma watch_puller_append:
  "watch_puller js tot (xs @ ys) w =
     (case watch_puller js tot xs w of (w, Some st) \<Rightarrow> (w, Some st) | (w, None) \<Rightarrow> watch_puller js tot ys w)"
  by (induction xs arbitrary: w) (simp_all split: prod.splits option.splits)

lemma reached_clock_ok:
  assumes "watch_puller js tot polls (new_watch_at t) = (w, r)"
  shows "clock_ok w"
  using watch_puller_advances [OF assms] by (simp add: clock_ok_def new_watch_at_def advances_def)

text \<open>
  C29. A pull is ended for silence only after silence: when the watch ends one whose container
  ran, no byte more than at any watched moment of the last fifteen minutes has arrived, across
  every re-attach and every pod in between.
\<close>

theorem stall_only_after_silence:
  assumes "watch_puller js tot before (new_watch_at t) = (w, None)" "pw_clock w = Some l"
    and "watch_puller js tot (before @ polls) (new_watch_at t) = (w', Some st)" "stall_ran st"
    and "pw_time w' < pw_time w + STALL_WINDOW"
  shows "\<exists>l'. pw_clock w' = Some l' \<and> st = stall_of l' \<and> STALL_WINDOW \<le> pw_time w' - lv_idle_since l' \<and>
    lv_transferred l' = lv_transferred l"
proof -
  have "watch_puller js tot polls w = (w', Some st)" using assms(1,3) by (simp add: watch_puller_append)
  from watch_puller_advances [OF this reached_clock_ok [OF assms(1)]] assms(2,4) obtain l' where
    l': "pw_clock w' = Some l'" "st = stall_of l'" "expired l' (pw_time w')" "motion (pw_time w) l (pw_time w') l'"
    by (auto simp: advances_def silenced_def)
  then have "STALL_WINDOW \<le> pw_time w' - lv_idle_since l'" by (simp add: expired_def remaining_def)
  moreover from this l'(4) assms(5) have "lv_transferred l' = lv_transferred l" by (auto simp: motion_def)
  ultimately show ?thesis using l' by blast
qed

text \<open>A pull of ten bytes: five arrive and the log drops; then it opens again and stays silent.\<close>

definition sample_json :: "string \<Rightarrow> json option" where
  "sample_json line = (if line = ''s'' then Some (JObject [(''stats'', JObject [(''bytes'', JU64 5)])]) else None)"

definition sample_status :: "string \<Rightarrow> pod_status" where
  "sample_status phase = \<lparr>ps_phase = Some phase, ps_reason = None, ps_conditions = None, ps_containers = None\<rparr>"

definition sample_poll :: "string \<Rightarrow> string \<Rightarrow> log_read list \<Rightarrow> pull_poll" where
  "sample_poll name phase reads = \<lparr>po_wait = 0, po_pod = Some \<lparr>pp_name = Some name, pp_status = Some (sample_status phase)\<rparr>,
     po_open = 0, po_log = \<lambda>_. Inr reads\<rparr>"

definition five_bytes :: "log_read list" where
  "five_bytes = [LogRead 0 (Inr [CHR ''s'', CHR 0x0A]), LogRead 0 (Inl ''dropped'')]"

lemmas sample_defs = sample_poll_def sample_status_def five_bytes_def sample_json_def new_watch_at_def watch_turn_def
  running_turn_def follow_turn_def follow_log_def follow_chunk_def follow_line_def stats_bytes_def observe_bytes_def
  switch_pod_def pause_for_def report_row_def new_liveness_def is_pending_def expired_def remaining_def STALL_WINDOW_def
  REATTACH_DELAY_def PRE_RUN_POLL_def MAX_RECORD_def shown_bytes_def stall_of_def sat_add_def

lemma sample_five:
  "\<exists>w l. watch_puller sample_json 10 [sample_poll ''p'' ''Running'' five_bytes] (new_watch_at 0) = (w, None) \<and>
     pw_clock w = Some l \<and> pw_time w = 10 ^ 9 \<and> lv_transferred l = 5 \<and> lv_idle_since l = 0 \<and> lv_total l = 10 \<and>
     lv_verified l = None \<and> pw_attempt w = Some \<lparr>pa_name = ''p'', pa_ended = False, pa_resuming = True\<rparr>"
  by (simp add: sample_defs Let_def)

lemma sample_silence:
  assumes "pw_clock w = Some l" "pw_time w = 10 ^ 9" "lv_transferred l = 5" "lv_idle_since l = 0" "lv_total l = 10"
    "lv_verified l = None" "pw_attempt w = Some \<lparr>pa_name = ''p'', pa_ended = False, pa_resuming = True\<rparr>"
  shows "\<exists>w'. watch_turn sample_json 10 (sample_poll ''p'' ''Running'' []) w = (w', Some (StallNoProgress 5 10)) \<and>
    pw_time w' = STALL_WINDOW \<and> pw_clock w' = Some l"
  using assms by (simp add: sample_defs Let_def)

theorem stall_only_after_silence_witness:
  "\<exists>w'. watch_puller sample_json 10 [sample_poll ''p'' ''Running'' five_bytes, sample_poll ''p'' ''Running'' []] (new_watch_at 0)
     = (w', Some (StallNoProgress 5 10)) \<and> (\<exists>l'. pw_clock w' = Some l' \<and> lv_transferred l' = 5)"
proof -
  from sample_five obtain w l where
    w: "watch_puller sample_json 10 [sample_poll ''p'' ''Running'' five_bytes] (new_watch_at 0) = (w, None)"
    and l: "pw_clock w = Some l" "pw_time w = 10 ^ 9" "lv_transferred l = 5" "lv_idle_since l = 0" "lv_total l = 10"
      "lv_verified l = None" "pw_attempt w = Some \<lparr>pa_name = ''p'', pa_ended = False, pa_resuming = True\<rparr>" by blast
  from sample_silence [OF l] obtain w' where
    w': "watch_turn sample_json 10 (sample_poll ''p'' ''Running'' []) w = (w', Some (StallNoProgress 5 10))" "pw_time w' = STALL_WINDOW"
    by blast
  have run: "watch_puller sample_json 10 ([sample_poll ''p'' ''Running'' five_bytes] @ [sample_poll ''p'' ''Running'' []]) (new_watch_at 0)
      = (w', Some (StallNoProgress 5 10))"
    unfolding watch_puller_append w using w'(1) by simp
  from stall_only_after_silence [OF w l(1) run] w'(2) l(2,3) run show ?thesis by auto
qed

section \<open>A silent pull ends\<close>

text \<open>A turn that meets the pod \<open>name\<close> past its start.\<close>

definition runs_as :: "string \<Rightarrow> pull_poll \<Rightarrow> bool" where
  "runs_as name po \<longleftrightarrow> (\<exists>pod st. po_pod po = Some pod \<and> pp_name pod = Some name \<and> pp_status pod = Some st \<and> \<not> is_pending st)"

definition log_spent :: "pull_watch \<Rightarrow> bool" where
  "log_spent w \<longleftrightarrow> (case pw_attempt w of Some a \<Rightarrow> pa_ended a | None \<Rightarrow> False)"

definition attempt_is :: "string \<Rightarrow> pull_watch \<Rightarrow> bool" where
  "attempt_is name w \<longleftrightarrow> (case pw_attempt w of Some a \<Rightarrow> pa_name a = name | None \<Rightarrow> True)"

text \<open>Time, with one poll in hand while the log is not yet spent.\<close>

definition spent_time :: "pull_watch \<Rightarrow> nat" where
  "spent_time w = pw_time w + (if log_spent w then PRE_RUN_POLL else 0)"

lemma switch_pod_attempt:
  "attempt_is name (switch_pod name w)" "pw_time (switch_pod name w) = pw_time w"
  "attempt_is name w \<Longrightarrow> switch_pod name w = w"
  by (auto simp: switch_pod_def attempt_is_def report_row_def split: option.splits)

lemma follow_log_time:
  assumes "follow_log js po l w = (w', r)" "pw_clock w = Some l" "clock_ok w"
  shows "pw_time w \<le> pw_time w'" "pw_attempt w' = pw_attempt w"
proof -
  show "pw_time w \<le> pw_time w'" using follow_log_presses [OF assms] by (simp add: presses_def)
  show "pw_attempt w' = pw_attempt w"
    using assms(1) by (auto simp: follow_log_def Let_def pause_for_def split: option.splits sum.splits prod.splits)
qed

lemma running_turn_time:
  assumes "running_turn js tot po pod name w = (w', None)" "clock_ok w" "attempt_is name w"
  shows "spent_time w + PRE_RUN_POLL \<le> spent_time w' \<and> attempt_is name w'"
proof -
  define l where "l = (case pw_clock w of Some l \<Rightarrow> l | None \<Rightarrow> new_liveness tot (pw_time w))"
  define v where "v = w\<lparr>pw_clock := Some l\<rparr>"
  have v: "pw_clock v = Some l" "pw_time v = pw_time w" "pw_attempt v = pw_attempt w" "clock_ok v"
    using assms(2) by (auto simp: v_def l_def clock_ok_def new_liveness_def split: option.splits)
  have turn: "(w', None) = (if expired l (pw_time v) then (v, Some (stall_of l))
      else if log_spent v then (pause_for PRE_RUN_POLL (report_row (settle_report pod) v), None) else follow_turn js po pod name l v)"
    unfolding assms(1) [symmetric] by (simp only: running_turn_def Let_def l_def v_def log_spent_def)
  show ?thesis
  proof (cases "log_spent v")
    case True
    with turn v assms(3) show ?thesis
      by (auto simp: spent_time_def log_spent_def attempt_is_def pause_for_def report_row_def split: if_splits)
  next
    case False
    then have follow: "follow_turn js po pod name l v = (w', None)" using turn by (auto split: if_splits)
    obtain u x where u: "follow_log js po l v = (u, x)" by (cases "follow_log js po l v")
    note time = follow_log_time [OF u v(1,4)]
    have "\<exists>l'. pw_clock u = Some l'" using follow_log_presses [OF u v(1,4)] by blast
    with follow u have "x \<noteq> Inr FollowStalled" by (auto simp: follow_turn_def)
    then consider e where "x = Inl e" | "x = Inr FollowEnded" by (metis followed.exhaust sum.exhaust)
    then show ?thesis
    proof cases
      case 1
      with follow u time False v show ?thesis
        by (auto simp: follow_turn_def spent_time_def log_spent_def attempt_is_def pause_for_def report_row_def REATTACH_DELAY_def PRE_RUN_POLL_def)
    next
      case 2
      with follow u time False v show ?thesis
        by (auto simp: follow_turn_def spent_time_def log_spent_def attempt_is_def report_row_def)
    qed
  qed
qed

lemma runs_as_turn:
  assumes "runs_as name po"
  obtains pod where "\<And>w. watch_turn js tot po w = running_turn js tot po pod name (switch_pod name (pause_for (po_wait po) w))"
  using assms unfolding runs_as_def by (auto simp: watch_turn_def Let_def)

lemma pause_for_simps [simp]:
  "pw_clock (pause_for d w) = pw_clock w" "pw_time (pause_for d w) = pw_time w + d"
  "attempt_is name (pause_for d w) = attempt_is name w" "log_spent (pause_for d w) = log_spent w"
  by (simp_all add: pause_for_def attempt_is_def log_spent_def)

lemma clock_ok_pause: "clock_ok w \<Longrightarrow> clock_ok (pause_for d w)"
  by (auto simp: clock_ok_def split: option.splits)

lemma clock_ok_switch: "clock_ok w \<Longrightarrow> clock_ok (switch_pod name w)"
  using switch_pod_advances [of w name] by (simp add: advances_def)

lemma runs_as_attempt:
  assumes "watch_turn js tot po w = (w', None)" "runs_as name po" "clock_ok w"
  shows "attempt_is name w'"
proof -
  from assms(1,2) obtain pod where "running_turn js tot po pod name (switch_pod name (pause_for (po_wait po) w)) = (w', None)"
    by (metis runs_as_turn)
  from running_turn_time [OF this] show ?thesis by (simp add: assms(3) clock_ok_pause clock_ok_switch switch_pod_attempt(1))
qed

lemma runs_as_time:
  assumes "watch_turn js tot po w = (w', None)" "runs_as name po" "clock_ok w" "attempt_is name w"
  shows "spent_time w + PRE_RUN_POLL \<le> spent_time w'"
proof -
  from assms obtain pod where "running_turn js tot po pod name (pause_for (po_wait po) w) = (w', None)"
    using switch_pod_attempt(3) [of name "pause_for (po_wait po) w"] by (metis pause_for_simps(3) runs_as_turn)
  from running_turn_time [OF this] assms(3,4) have "spent_time (pause_for (po_wait po) w) + PRE_RUN_POLL \<le> spent_time w'"
    by (simp add: clock_ok_pause)
  then show ?thesis by (simp add: spent_time_def split: if_splits)
qed

lemma runs_as_polls_time:
  assumes "watch_puller js tot polls w = (w', None)" "list_all (runs_as name) polls" "clock_ok w" "attempt_is name w"
  shows "spent_time w + length polls * PRE_RUN_POLL \<le> spent_time w' \<and> attempt_is name w'"
  using assms
proof (induction polls arbitrary: w)
  case (Cons po polls)
  obtain v x where v: "watch_turn js tot po w = (v, x)" by (cases "watch_turn js tot po w")
  with Cons.prems(1) have x: "x = None" "watch_puller js tot polls v = (w', None)" by (auto split: option.splits)
  have po: "runs_as name po" using Cons.prems(2) by simp
  have "clock_ok v" using watch_turn_advances [OF v Cons.prems(3)] by (simp add: advances_def)
  with Cons.IH [OF x(2)] Cons.prems(2) runs_as_attempt [OF v [unfolded x(1)] po Cons.prems(3)]
    runs_as_time [OF v [unfolded x(1)] po Cons.prems(3,4)] show ?case by simp
qed simp

lemma running_turn_ran: "running_turn js tot po pod name w = (w', Some st) \<Longrightarrow> stall_ran st"
  by (auto simp: running_turn_def follow_turn_def Let_def split: if_splits prod.splits sum.splits followed.splits)

lemma runs_as_ran:
  "watch_puller js tot polls w = (w', Some st) \<Longrightarrow> list_all (runs_as name) polls \<Longrightarrow> stall_ran st"
proof (induction polls arbitrary: w)
  case (Cons po polls)
  obtain v x where v: "watch_turn js tot po w = (v, x)" by (cases "watch_turn js tot po w")
  show ?case
  proof (cases x)
    case None
    with Cons v show ?thesis by simp
  next
    case (Some s)
    have "runs_as name po" using Cons.prems(2) by simp
    then obtain pod where "watch_turn js tot po w = running_turn js tot po pod name (switch_pod name (pause_for (po_wait po) w))"
      by (rule runs_as_turn [of name po js tot]) blast
    with Some Cons.prems(1) v show ?thesis by (auto intro: running_turn_ran)
  qed
qed simp

lemma expired_turn:
  assumes "watch_turn js tot po w = (w', None)" "runs_as name po" "attempt_is name w" "pw_clock w = Some l"
  shows "pw_time w - lv_idle_since l < STALL_WINDOW"
proof -
  from assms obtain pod where "running_turn js tot po pod name (pause_for (po_wait po) w) = (w', None)"
    using switch_pod_attempt(3) [of name "pause_for (po_wait po) w"] by (metis pause_for_simps(3) runs_as_turn)
  with assms(4) show ?thesis by (auto simp: running_turn_def Let_def expired_def remaining_def split: if_splits)
qed

lemma first_turns_time:
  assumes "watch_puller js tot (po # polls) w = (w', None)" "list_all (runs_as name) (po # polls)" "clock_ok w"
  shows "pw_time w + length polls * PRE_RUN_POLL \<le> pw_time w' + PRE_RUN_POLL \<and> attempt_is name w'"
proof -
  obtain v x where v: "watch_turn js tot po w = (v, x)" by (cases "watch_turn js tot po w")
  with assms(1) have x: "x = None" "watch_puller js tot polls v = (w', None)" by (auto split: option.splits)
  have po: "runs_as name po" "list_all (runs_as name) polls" using assms(2) by simp_all
  have a: "advances w v" using watch_turn_advances [OF v assms(3)] by simp
  then have "spent_time v + length polls * PRE_RUN_POLL \<le> spent_time w' \<and> attempt_is name w'"
    by (intro runs_as_polls_time [OF x(2) po(2)] runs_as_attempt [OF v [unfolded x(1)] po(1) assms(3)]) (simp add: advances_def)
  with a show ?thesis by (auto simp: spent_time_def advances_def split: if_splits)
qed

text \<open>While one running pod is followed, turns only press its clock forward.\<close>

definition clock_for :: "string \<Rightarrow> pull_watch \<Rightarrow> pull_liveness \<Rightarrow> pull_liveness" where
  "clock_for name w l = (if attempt_is name w then l else next_attempt l)"

lemma switch_pod_clock: "pw_clock w = Some l \<Longrightarrow> pw_clock (switch_pod name w) = Some (clock_for name w l)"
  by (auto simp: switch_pod_def clock_for_def attempt_is_def report_row_def split: option.splits)

lemma runs_as_presses:
  assumes "watch_turn js tot po w = (w', r)" "runs_as name po" "clock_ok w"
  shows "presses (switch_pod name (pause_for (po_wait po) w)) w'"
proof -
  from assms(1,2) obtain pod where "running_turn js tot po pod name (switch_pod name (pause_for (po_wait po) w)) = (w', r)"
    by (metis runs_as_turn)
  from running_turn_presses [OF this] show ?thesis by (simp add: assms(3) clock_ok_pause clock_ok_switch)
qed

lemma runs_as_presses_on:
  assumes "watch_turn js tot po w = (w', r)" "runs_as name po" "clock_ok w" "attempt_is name w"
  shows "presses w w'"
proof -
  have "presses w (pause_for (po_wait po) w)" by (rule presses_quiet [OF assms(3)]) simp_all
  moreover have "presses (pause_for (po_wait po) w) w'"
    using runs_as_presses [OF assms(1-3)] assms(4) by (simp add: switch_pod_attempt(3))
  ultimately show ?thesis by (rule presses_trans)
qed

lemma runs_as_polls_press:
  assumes "watch_puller js tot polls w = (w', r)" "list_all (runs_as name) polls" "clock_ok w" "attempt_is name w"
  shows "presses w w'"
  using assms
proof (induction polls arbitrary: w)
  case Nil then show ?case by (auto intro: presses_quiet)
next
  case (Cons po polls)
  obtain v x where v: "watch_turn js tot po w = (v, x)" by (cases "watch_turn js tot po w")
  have po: "runs_as name po" using Cons.prems(2) by simp
  have p: "presses w v" by (rule runs_as_presses_on [OF v po Cons.prems(3,4)])
  show ?case
  proof (cases x)
    case (Some st) with Cons.prems(1) v p show ?thesis by simp
  next
    case None
    have "presses v w'"
    proof (rule Cons.IH)
      show "watch_puller js tot polls v = (w', r)" using Cons.prems(1) v None by simp
      show "list_all (runs_as name) polls" using Cons.prems(2) by simp
      show "clock_ok v" using p by (simp add: presses_def)
      show "attempt_is name v" by (rule runs_as_attempt [OF v [unfolded None] po Cons.prems(3)])
    qed
    with p show ?thesis by (rule presses_trans)
  qed
qed

lemma runs_as_all_press:
  assumes "watch_puller js tot (po # polls) w = (w', r)" "list_all (runs_as name) (po # polls)" "clock_ok w" "pw_clock w = Some l"
  obtains l' where "pw_clock w' = Some l'" "pressed (pw_time w) (clock_for name w l) (pw_time w') l'"
proof -
  obtain v x where v: "watch_turn js tot po w = (v, x)" by (cases "watch_turn js tot po w")
  have po: "runs_as name po" using assms(2) by simp
  define u where "u = switch_pod name (pause_for (po_wait po) w)"
  have u: "pw_clock u = Some (clock_for name w l)" "pw_time w \<le> pw_time u"
    using switch_pod_clock [of "pause_for (po_wait po) w" l name] assms(4)
    by (simp_all add: u_def clock_for_def switch_pod_attempt(2))
  have uv: "presses u v" unfolding u_def by (rule runs_as_presses [OF v po assms(3)])
  have "presses u w'"
  proof (cases x)
    case (Some st) with assms(1) v uv show ?thesis by simp
  next
    case None
    have "presses v w'"
      by (rule runs_as_polls_press [where polls = polls and name = name])
        (use assms(1,2) v None uv runs_as_attempt [OF v [unfolded None] po assms(3)] in \<open>auto simp: presses_def\<close>)
    with uv show ?thesis by (rule presses_trans)
  qed
  then obtain l' where "pw_clock w' = Some l'" "pressed (pw_time u) (clock_for name w l) (pw_time w') l'"
    using u(1) by (auto simp: presses_def)
  moreover have "pressed (pw_time w) (clock_for name w l) (pw_time u) (clock_for name w l)" using u(2) by simp
  ultimately show thesis using that pressed_trans by blast
qed

text \<open>
  C31. A silent pull is ended: over 1803 turns of one running pod, fifteen minutes of polls and
  three turns more, either more bytes have arrived than before, or a file past the last one of
  this pod was verified, or the watch has returned the stall, whatever the log did: fail to open,
  drop, stay open and say nothing, or repeat what it said.
\<close>

theorem silent_pull_ended:
  assumes "watch_puller js tot before (new_watch_at t) = (w, None)" "pw_clock w = Some l"
    and "list_all (runs_as name) polls" "1803 \<le> length polls" "watch_puller js tot polls w = (w', r)"
  shows "\<exists>l'. pw_clock w' = Some l' \<and> (advanced (clock_for name w l) l' \<or> r = Some (stall_of l'))"
proof -
  have ok: "clock_ok w" by (rule reached_clock_ok [OF assms(1)])
  from assms(4) obtain p0 mid pn where polls: "polls = p0 # mid @ [pn]" "1801 \<le> length mid"
    by (cases polls; cases "tl polls" rule: rev_cases) auto
  obtain l' where l': "pw_clock w' = Some l'"
    using runs_as_all_press assms(2,3,5) ok unfolding polls(1) by metis
  have sil: "silenced w' r" using watch_puller_advances [OF assms(5) ok] by simp
  have "advanced (clock_for name w l) l'" if "r = None"
  proof (rule ccontr)
    assume still: "\<not> advanced (clock_for name w l) l'"
    obtain v x where v: "watch_puller js tot (p0 # mid) w = (v, x)" by (cases "watch_puller js tot (p0 # mid) w")
    have all: "watch_puller js tot ((p0 # mid) @ [pn]) w = (w', None)" using assms(5) that by (simp add: polls(1))
    have x: "x = None" using all v unfolding watch_puller_append by (auto split: option.splits)
    have vn: "watch_turn js tot pn v = (w', None)"
      using all v x unfolding watch_puller_append by (auto split: option.splits prod.splits)
    have run: "list_all (runs_as name) (p0 # mid)" "runs_as name pn" using assms(3) by (simp_all add: polls(1))
    obtain lv where lv: "pw_clock v = Some lv" "pressed (pw_time w) (clock_for name w l) (pw_time v) lv"
      using runs_as_all_press [OF v run(1) ok assms(2)] by metis
    have okv: "clock_ok v" using watch_puller_advances [OF v ok] by (simp add: advances_def)
    have time: "pw_time w + 1800 * PRE_RUN_POLL \<le> pw_time v" "attempt_is name v"
      using first_turns_time [OF v [unfolded x] run(1) ok] polls(2) by (auto simp: PRE_RUN_POLL_def)
    have "presses v w'" by (rule runs_as_presses_on [OF vn run(2) okv time(2)])
    then have vw: "pressed (pw_time v) lv (pw_time w') l'" using lv(1) l' by (auto simp: presses_def)
    have "\<not> advanced (clock_for name w l) lv" using still advanced_pressed [OF _ vw] by blast
    then have "lv_idle_since lv = lv_idle_since l" using lv(2) by (simp add: pressed_def clock_for_def next_attempt_def split: if_splits)
    then have "lv_idle_since lv \<le> pw_time w" using ok assms(2) by (auto dest: clock_okD)
    with expired_turn [OF vn run(2) time(2) lv(1)] time(1) show False by (simp add: STALL_WINDOW_def PRE_RUN_POLL_def)
  qed
  moreover have "r = Some (stall_of l')" if "r = Some st" for st
    using sil that l' runs_as_ran [OF assms(5) [unfolded that] assms(3)] by (auto simp: silenced_def)
  ultimately show ?thesis using l' by (cases r) auto
qed

theorem silent_pull_ended_witness:
  "\<exists>w w' l'. watch_puller sample_json 10 [sample_poll ''p'' ''Running'' five_bytes] (new_watch_at 0) = (w, None) \<and>
     watch_puller sample_json 10 (replicate 1803 (sample_poll ''p'' ''Running'' [])) w = (w', Some (stall_of l')) \<and> lv_transferred l' = 5"
proof -
  from sample_five obtain w l where
    w: "watch_puller sample_json 10 [sample_poll ''p'' ''Running'' five_bytes] (new_watch_at 0) = (w, None)"
    and l: "pw_clock w = Some l" "pw_time w = 10 ^ 9" "lv_transferred l = 5" "lv_idle_since l = 0" "lv_total l = 10"
      "lv_verified l = None" "pw_attempt w = Some \<lparr>pa_name = ''p'', pa_ended = False, pa_resuming = True\<rparr>" by blast
  from sample_silence [OF l] obtain w' where
    w': "watch_turn sample_json 10 (sample_poll ''p'' ''Running'' []) w = (w', Some (StallNoProgress 5 10))" "pw_clock w' = Some l"
    by blast
  have "replicate 1803 (sample_poll ''p'' ''Running'' []) = sample_poll ''p'' ''Running'' [] # replicate 1802 (sample_poll ''p'' ''Running'' [])"
    by (simp flip: replicate_Suc)
  then have run: "watch_puller sample_json 10 (replicate 1803 (sample_poll ''p'' ''Running'' [])) w = (w', Some (StallNoProgress 5 10))"
    using w'(1) by (simp only: watch_puller.simps prod.case option.case)
  have "list_all (runs_as ''p'') (replicate 1803 (sample_poll ''p'' ''Running'' []))"
    by (simp add: list_all_iff runs_as_def sample_poll_def sample_status_def is_pending_def)
  from silent_pull_ended [OF w l(1) this _ run] w'(2) l(6,7) have "StallNoProgress 5 10 = stall_of l"
    by (auto simp: advanced_def clock_for_def attempt_is_def)
  with w run l(3) show ?thesis by metis
qed

section \<open>A later pod inherits the first one's clock\<close>

lemma unscheduled_kept:
  assumes "start_observe sw st now = (sw', r)" "sw_unscheduled_since sw = Some t"
  shows "sw_unscheduled_since sw' = Some t"
  using assms by (auto simp: start_observe_def start_pull_def or_now_def Let_def split: if_splits option.splits)

lemma follow_turn_start: "follow_turn js po pod name l w = (w', r) \<Longrightarrow> pw_start w' = pw_start w"
  by (auto simp: follow_turn_def follow_log_def Let_def pause_for_def report_row_def
      split: prod.splits sum.splits followed.splits option.splits)

lemma watch_turn_keeps:
  assumes "watch_turn js tot po w = (w', r)" "sw_unscheduled_since (pw_start w) = Some t"
  shows "sw_unscheduled_since (pw_start w') = Some t"
proof -
  have run: "pw_start u' = pw_start u" if "running_turn js tot po pod name u = (u', r')" for pod name u u' r'
    using that by (auto simp: running_turn_def Let_def pause_for_def report_row_def dest: follow_turn_start split: if_splits)
  have "pw_start (switch_pod name u) = pw_start u" "pw_start (pause_for d u) = pw_start u" for name d u
    by (simp_all add: switch_pod_def pause_for_def report_row_def)
  with assms run show ?thesis
    by (auto simp: watch_turn_def Let_def report_row_def split: option.splits if_splits prod.splits dest: unscheduled_kept)
qed

lemma watch_puller_keeps:
  "watch_puller js tot polls w = (w', r) \<Longrightarrow> sw_unscheduled_since (pw_start w) = Some t \<Longrightarrow>
     sw_unscheduled_since (pw_start w') = Some t"
  by (induction polls arbitrary: w) (auto split: prod.splits option.splits dest: watch_turn_keeps)

text \<open>
  C40. A retry can be ended at its first look: once some pod was seen before its placement, the
  clock of that wait is never reset, so that after any later turns, pods that ran and moved bytes
  included, the first pending poll of a new pod more than five minutes on ends the pull as
  unschedulable for the whole time.
\<close>

theorem retry_inherits_pending_clock:
  assumes "sw_unscheduled_since (pw_start w) = Some t" "watch_puller js tot polls w = (w', None)"
    and "po_pod po = Some \<lparr>pp_name = Some name, pp_status = Some st\<rparr>" "is_pending st" "\<not> is_scheduled st"
    and "t + PENDING_TIMEOUT \<le> pw_time w' + po_wait po"
  shows "snd (watch_puller js tot (polls @ [po]) w) = Some (StallUnschedulable (blocker_text st) (pw_time w' + po_wait po - t))"
proof -
  have "sw_unscheduled_since (pw_start w') = Some t" by (rule watch_puller_keeps [OF assms(2,1)])
  then have "sw_unscheduled_since (pw_start (switch_pod name (pause_for (po_wait po) w'))) = Some t"
    by (simp add: switch_pod_def pause_for_def report_row_def)
  then have "snd (start_observe (pw_start (switch_pod name (pause_for (po_wait po) w'))) st (pw_time w' + po_wait po)) =
      Some (StallUnschedulable (blocker_text st) (pw_time w' + po_wait po - t))"
    using assms(5) le_diff_conv2 [of t "pw_time w' + po_wait po" PENDING_TIMEOUT] assms(6)
    by (simp add: start_observe_def or_now_def Let_def add.commute)
  with assms(2-4) show ?thesis
    by (auto simp: watch_puller_append watch_turn_def Let_def switch_pod_attempt split: prod.splits)
qed

theorem retry_inherits_pending_clock_witness:
  "\<exists>w w'. watch_puller sample_json 10 [sample_poll ''p1'' ''Pending'' []] (new_watch_at 0) = (w, None) \<and>
     watch_puller sample_json 10 [sample_poll ''p1'' ''Running'' [LogRead (301 * 10 ^ 9) (Inr [CHR ''s'', CHR 0x0A]), LogRead 0 (Inr [])]] w = (w', None) \<and>
     snd (watch_puller sample_json 10 [sample_poll ''p1'' ''Running'' [LogRead (301 * 10 ^ 9) (Inr [CHR ''s'', CHR 0x0A]), LogRead 0 (Inr [])],
            sample_poll ''p2'' ''Pending'' []] w)
       = Some (StallUnschedulable ''no PodScheduled condition'' (pw_time w'))"
proof -
  define p1 where "p1 = sample_poll ''p1'' ''Running'' [LogRead (301 * 10 ^ 9) (Inr [CHR ''s'', CHR 0x0A]), LogRead 0 (Inr [])]"
  have "\<exists>w. watch_puller sample_json 10 [sample_poll ''p1'' ''Pending'' []] (new_watch_at 0) = (w, None) \<and>
      pw_start w = \<lparr>sw_unscheduled_since = Some 0, sw_pull_error_since = None\<rparr> \<and> pw_clock w = None \<and> pw_attempt w = None \<and> pw_time w = PRE_RUN_POLL"
    by (simp add: sample_poll_def sample_status_def new_watch_at_def watch_turn_def Let_def switch_pod_def pause_for_def report_row_def
        is_pending_def start_observe_def start_pull_def is_scheduled_def condition_true_def or_now_def image_error_def PENDING_TIMEOUT_def)
  then obtain w where w: "watch_puller sample_json 10 [sample_poll ''p1'' ''Pending'' []] (new_watch_at 0) = (w, None)"
    "sw_unscheduled_since (pw_start w) = Some 0" "pw_clock w = None" "pw_attempt w = None" "pw_time w = PRE_RUN_POLL" by auto
  have "\<exists>w'. watch_puller sample_json 10 [p1] w = (w', None) \<and> 301 * 10 ^ 9 \<le> pw_time w'"
    using w(3-5) by (simp add: p1_def sample_defs Let_def settle_report_def failure_note_def exit_code_def)
  then obtain w' where w': "watch_puller sample_json 10 [p1] w = (w', None)" "301 * 10 ^ 9 \<le> pw_time w'" by blast
  from retry_inherits_pending_clock [OF w(2) w'(1), of "sample_poll ''p2'' ''Pending'' []" "''p2''" "sample_status ''Pending''"] w'(2)
  have "snd (watch_puller sample_json 10 ([p1] @ [sample_poll ''p2'' ''Pending'' []]) w)
      = Some (StallUnschedulable ''no PodScheduled condition'' (pw_time w'))"
    by (simp add: sample_poll_def sample_status_def is_pending_def is_scheduled_def condition_true_def PENDING_TIMEOUT_def
        blocker_text_def schedule_blocker_def)
  with w(1) w'(1) show ?thesis unfolding p1_def by auto
qed

end
