(* ===== verification/Pipeline_Profiles.thy ===== *)
theory Pipeline_Profiles
  imports Qos_Footprint "HOL-Library.List_Lexorder" "HOL-Library.Char_ord" "HOL-Library.Product_Lexorder"
begin

text \<open>
  The discovery of sync profiles before compilation (\<open>src/pipeline/profiles.rs\<close>): the walk over the
  items of a parsed test file, the scan of a workspace, the lookup of a profile by name with its
  suggestions, and the search for other workspaces that declare profiles. What cargo, git, the file
  system and the Rust parser answer is an input: a parsed file is the tree of items the walk
  reads, an attribute carries what parsing its arguments gives.
  The theorems show that the edit distance of the suggestions is the least number of edits, that
  the walk misses no declaration without admitting it, and which workspaces the search finds.
\<close>

section \<open>Edit distance\<close>

text \<open>One cell of the current row; \<open>prev\<close> is the row above.\<close>

definition edit_cell :: "char \<Rightarrow> nat list \<Rightarrow> nat \<times> char \<Rightarrow> nat list \<Rightarrow> nat list" where
  "edit_cell ca prev = (\<lambda>(j, cb) cur.
     let sub = prev ! j + (if ca \<noteq> cb then 1 else 0)
     in cur[j + 1 := min (min sub (prev ! (j + 1) + 1)) (cur ! j + 1)])"

definition edit_row :: "string \<Rightarrow> nat \<times> char \<Rightarrow> nat list \<times> nat list \<Rightarrow> nat list \<times> nat list" where
  "edit_row b = (\<lambda>(i, ca) (prev, cur).
     (fold (edit_cell ca prev) (enumerate 0 b) (cur[0 := i + 1]), prev))"

definition edit_distance :: "string \<Rightarrow> string \<Rightarrow> nat" where
  "edit_distance a b =
     (if a = [] then length b
      else (case fold (edit_row b) (enumerate 0 a) ([0..<length b + 1], replicate (length b + 1) 0) of
              (prev, _) \<Rightarrow> prev ! length b))"

section \<open>Declarations in source\<close>

record sync_test_args =
  ar_name :: string
  ar_description :: string
  ar_subject :: string
  ar_timeout :: string
  ar_qos :: string
  ar_footprint :: "footprint option"
  ar_runner :: "footprint option"
  ar_tags :: "string list"

text \<open>
  An attribute: the segments of its path, whether the path is bare (no leading colons, no generic
  arguments), its line, and what parsing its arguments gives.\<close>

record syn_attr =
  at_path :: "string list"
  at_bare :: bool
  at_line :: nat
  at_args :: "string + sync_test_args"

datatype syn_item =
    ItemFn "syn_attr list"
  | ItemMod string "syn_attr list" "syn_item list option"
  | ItemOther

record profile_stub =
  pr_name :: string
  pr_description :: string
  pr_subject :: string
  pr_qos :: string
  pr_footprint :: "footprint option"
  pr_runner :: "footprint option"
  pr_timeout :: string
  pr_tags :: "string list"
  pr_package :: string
  pr_target :: string
  pr_file :: string
  pr_line :: nat
  pr_gated :: bool

record blind_spot =
  bs_file :: string
  bs_reason :: string

definition cargo_args :: "profile_stub \<Rightarrow> string list" where
  "cargo_args p = [''-p'', pr_package p, ''--test'', pr_target p]"

definition is_sync_test_path :: "string list \<Rightarrow> bool" where
  "is_sync_test_path segs =
     (case segs of
        [] \<Rightarrow> False
      | [one] \<Rightarrow> one = ''sync_test''
      | krate # rest \<Rightarrow> krate = ''ztest'' \<and> last rest = ''sync_test'')"

definition has_cfg :: "syn_attr list \<Rightarrow> bool" where
  "has_cfg attrs = list_ex (\<lambda>a. at_bare a \<and> at_path a = [''cfg'']) attrs"

definition profile_of :: "sync_test_args \<Rightarrow> string \<Rightarrow> string \<Rightarrow> string \<Rightarrow> nat \<Rightarrow> bool \<Rightarrow> profile_stub" where
  "profile_of args package target path line gated =
     \<lparr>pr_name = ar_name args, pr_description = ar_description args, pr_subject = ar_subject args, pr_qos = ar_qos args,
      pr_footprint = ar_footprint args, pr_runner = ar_runner args, pr_timeout = ar_timeout args, pr_tags = ar_tags args,
      pr_package = package, pr_target = target, pr_file = path, pr_line = line, pr_gated = gated\<rparr>"

text \<open>What a walk has found: the declarations, and the regions it could not see through.\<close>

type_synonym walk = "profile_stub list \<times> blind_spot list"

definition visit_attr :: "string \<Rightarrow> string \<Rightarrow> string \<Rightarrow> bool \<Rightarrow> syn_attr \<Rightarrow> walk \<Rightarrow> walk" where
  "visit_attr path package target gated attr w =
     (if \<not> is_sync_test_path (at_path attr) then w
      else (case at_args attr of
              Inr args \<Rightarrow> (fst w @ [profile_of args package target path (at_line attr) gated], snd w)
            | Inl e \<Rightarrow> (fst w, snd w @ [\<lparr>bs_file = path, bs_reason = ''sync_test attribute did not parse: '' @ e\<rparr>])))"

fun visit_items :: "string \<Rightarrow> string \<Rightarrow> string \<Rightarrow> syn_item list \<Rightarrow> bool \<Rightarrow> walk \<Rightarrow> walk" where
  "visit_items path package target [] gated w = w"
| "visit_items path package target (ItemFn attrs # items) gated w =
     visit_items path package target items gated
       (fold (visit_attr path package target (gated \<or> has_cfg attrs)) attrs w)"
| "visit_items path package target (ItemMod ident attrs (Some inner) # items) gated w =
     visit_items path package target items gated
       (visit_items path package target inner (gated \<or> has_cfg attrs) w)"
| "visit_items path package target (ItemMod ident attrs None # items) gated w =
     visit_items path package target items gated
       (fst w, snd w @ [\<lparr>bs_file = path, bs_reason = ''out-of-line `mod '' @ ident @ '';` not followed''\<rparr>])"
| "visit_items path package target (ItemOther # items) gated w = visit_items path package target items gated w"

section \<open>One scan of a workspace\<close>

text \<open>The file system and the Rust parser: each answers or says why not.\<close>

record source_reader =
  read_source :: "string \<Rightarrow> string + string"
  parse_source :: "string \<Rightarrow> string + syn_item list"

definition scan_file :: "source_reader \<Rightarrow> string \<Rightarrow> string \<Rightarrow> string \<Rightarrow> blind_spot list \<Rightarrow> walk" where
  "scan_file rd path package target blind =
     (case read_source rd path of
        Inl e \<Rightarrow> ([], blind @ [\<lparr>bs_file = path, bs_reason = ''unreadable: '' @ e\<rparr>])
      | Inr source \<Rightarrow>
          (case parse_source rd source of
             Inl e \<Rightarrow> ([], blind @ [\<lparr>bs_file = path, bs_reason = ''unparsable: '' @ e\<rparr>])
           | Inr items \<Rightarrow> visit_items path package target items False ([], blind)))"

text \<open>What the scan reads of \<open>cargo metadata\<close>: \<open>None\<close> where a key is absent or has another type.\<close>

record cargo_target =
  ct_kind :: "string option list option"
  ct_name :: "string option"
  ct_src_path :: "string option"

record cargo_package =
  cp_name :: "string option"
  cp_targets :: "cargo_target list option"

record cargo_meta =
  cm_root :: "string option"
  cm_packages :: "cargo_package list option"

record scan =
  sc_profiles :: "profile_stub list"
  sc_root :: string
  sc_branch :: "string option"
  sc_blind :: "blind_spot list"

definition is_test_target :: "cargo_target \<Rightarrow> bool" where
  "is_test_target t = (case ct_kind t of Some ks \<Rightarrow> list_ex (\<lambda>k. k = Some ''test'') ks | None \<Rightarrow> False)"

definition scan_target :: "source_reader \<Rightarrow> string \<Rightarrow> cargo_target \<Rightarrow> walk \<Rightarrow> walk" where
  "scan_target rd pkg_name t w =
     (if \<not> is_test_target t then w
      else (case (ct_name t, ct_src_path t) of
              (Some name, Some src) \<Rightarrow>
                (let found = scan_file rd src pkg_name name (snd w) in (fst w @ fst found, snd found))
            | _ \<Rightarrow> w))"

definition scan_package :: "source_reader \<Rightarrow> cargo_package \<Rightarrow> walk \<Rightarrow> walk" where
  "scan_package rd pkg w =
     (case cp_name pkg of
        None \<Rightarrow> w
      | Some name \<Rightarrow> (case cp_targets pkg of None \<Rightarrow> w | Some ts \<Rightarrow> fold (scan_target rd name) ts w))"

definition scan_workspace ::
  "(string \<Rightarrow> string option) \<Rightarrow> source_reader \<Rightarrow> string + cargo_meta \<Rightarrow> string + scan" where
  "scan_workspace git_branch rd meta =
     (case meta of
        Inl e \<Rightarrow> Inl e
      | Inr m \<Rightarrow>
          (case cm_root m of
             None \<Rightarrow> Inl ''cargo metadata has no workspace_root''
           | Some dir \<Rightarrow>
               (case cm_packages m of
                  None \<Rightarrow> Inl ''cargo metadata has no packages''
                | Some pkgs \<Rightarrow>
                    (let w = fold (scan_package rd) pkgs ([], [])
                     in Inr \<lparr>sc_profiles = sort_key pr_name (fst w), sc_root = dir, sc_branch = git_branch dir,
                             sc_blind = snd w\<rparr>))))"

text \<open>The branch (and the repository's root) from a git command: its success and its output, if it ran.\<close>

definition git_answer :: "(bool \<times> string) option \<Rightarrow> string option" where
  "git_answer out =
     (case out of
        None \<Rightarrow> None
      | Some (success, stdout) \<Rightarrow>
          if \<not> success then None else (let name = trim stdout in if name = [] then None else Some name))"

section \<open>Looking a profile up\<close>

datatype miss = MissEmpty | MissUnknown "string list" | MissAmbiguous "profile_stub list"

definition suggest :: "scan \<Rightarrow> string \<Rightarrow> string list" where
  "suggest sc name =
     (let budget = max (length name div 3) 2;
          scored = filter (\<lambda>(d, _). d \<le> budget) (map (\<lambda>p. (edit_distance name (pr_name p), pr_name p)) (sc_profiles sc))
      in map snd (sort scored))"

definition find_profile :: "scan \<Rightarrow> string \<Rightarrow> miss + profile_stub" where
  "find_profile sc name =
     (case filter (\<lambda>p. pr_name p = name) (sc_profiles sc) of
        [one] \<Rightarrow> Inr one
      | [] \<Rightarrow> if sc_profiles sc = [] then Inl MissEmpty else Inl (MissUnknown (suggest sc name))
      | many \<Rightarrow> Inl (MissAmbiguous many))"

definition is_uncertain :: "scan \<Rightarrow> bool" where
  "is_uncertain sc \<longleftrightarrow> sc_blind sc \<noteq> [] \<or> list_ex pr_gated (sc_profiles sc)"

text \<open>The gate in front of \<open>ztest sync start\<close>: a declaration, leave to build anyway, or a refusal.\<close>

definition preflight :: "scan \<Rightarrow> string \<Rightarrow> miss + profile_stub option" where
  "preflight sc name =
     (case find_profile sc name of
        Inr found \<Rightarrow> Inr (Some found)
      | Inl why \<Rightarrow> if is_uncertain sc then Inr None else Inl why)"

section \<open>Other workspaces of the repository\<close>

text \<open>
  Directories and other entries, each with its name; \<open>None\<close> where the directory or the file
  cannot be read. A path is the list of its components.\<close>

datatype fs_node = FsDir string "fs_node list option" | FsFile string "string option"

definition contains :: "string \<Rightarrow> string \<Rightarrow> bool" where
  "contains pat s \<longleftrightarrow> split_once pat s \<noteq> None"

definition extension :: "string \<Rightarrow> string option" where
  "extension name =
     (case rsplit_once ''.'' name of
        Some (stem, ext) \<Rightarrow> if stem = [] then None else Some ext
      | None \<Rightarrow> None)"

definition enclosing_workspace ::
  "(string list \<Rightarrow> string option) \<Rightarrow> string list \<Rightarrow> string list \<Rightarrow> string list option" where
  "enclosing_workspace cargo_toml repo file =
     List.find (\<lambda>dir. case cargo_toml dir of Some s \<Rightarrow> contains ''[workspace]'' s | None \<Rightarrow> False)
       (takeWhile (prefix repo) (tl (rev (prefixes file))))"

definition mentions_sync_test :: "string \<Rightarrow> string option \<Rightarrow> bool" where
  "mentions_sync_test name content \<longleftrightarrow>
     extension name = Some ''rs'' \<and> (case content of Some s \<Rightarrow> contains ''sync_test'' s | None \<Rightarrow> False)"

definition skipped_dir :: "string \<Rightarrow> bool" where
  "skipped_dir name \<longleftrightarrow> prefix ''.'' name \<or> name = ''target''"

type_synonym pending_dir = "string list \<times> fs_node list option"

fun walk_entry ::
  "(string list \<Rightarrow> string list option) \<Rightarrow> string list \<Rightarrow> fs_node \<Rightarrow> pending_dir list \<times> string list list
     \<Rightarrow> pending_dir list \<times> string list list" where
  "walk_entry enclosing dir (FsDir name entries) (todo, hits) =
     (if skipped_dir name then (todo, hits) else ((dir @ [name], entries) # todo, hits))"
| "walk_entry enclosing dir (FsFile name content) (todo, hits) =
     (if mentions_sync_test name content
      then (case enclosing (dir @ [name]) of
              Some ws \<Rightarrow> (todo, if ws \<in> set hits then hits else hits @ [ws])
            | None \<Rightarrow> (todo, hits))
      else (todo, hits))"

definition dirs_size :: "pending_dir list \<Rightarrow> nat" where
  "dirs_size todo = sum_list (map (\<lambda>(_, es). Suc (size_option (size_list size) es)) todo)"

lemma walk_entry_size: "dirs_size (fst (walk_entry enc dir e (todo, hits))) \<le> dirs_size todo + size e"
  by (cases "(enc, dir, e, (todo, hits))" rule: walk_entry.cases) (auto simp: dirs_size_def split: option.splits)

lemma walk_entries_size:
  "dirs_size (fst (fold (walk_entry enc dir) es (todo, hits))) \<le> dirs_size todo + size_list size es"
proof (induction es arbitrary: todo hits)
  case (Cons e es)
  obtain t h where th: "walk_entry enc dir e (todo, hits) = (t, h)" by (cases "walk_entry enc dir e (todo, hits)")
  then show ?case using Cons [of t h] walk_entry_size [of enc dir e todo hits] by simp
qed simp

function walk_dirs :: "(string list \<Rightarrow> string list option) \<Rightarrow> pending_dir list \<Rightarrow> string list list \<Rightarrow> string list list" where
  "walk_dirs enclosing [] hits = hits"
| "walk_dirs enclosing ((dir, None) # todo) hits = walk_dirs enclosing todo hits"
| "walk_dirs enclosing ((dir, Some entries) # todo) hits =
     (case fold (walk_entry enclosing dir) entries (todo, hits) of (todo, hits) \<Rightarrow> walk_dirs enclosing todo hits)"
  by pat_completeness auto

termination
proof (relation "measure (\<lambda>(_, todo, _). dirs_size todo)", goal_cases)
  case (3 enclosing dir entries todo hits t h)
  then show ?case using walk_entries_size [of enclosing dir entries todo hits]
    by (simp add: dirs_size_def flip: 3)
qed (simp_all add: dirs_size_def)

definition workspaces_with_profiles ::
  "(string list \<Rightarrow> string option) \<Rightarrow> (string list \<times> fs_node list option) option \<Rightarrow> string list list" where
  "workspaces_with_profiles cargo_toml repo =
     (case repo of
        None \<Rightarrow> []
      | Some (top_dir, entries) \<Rightarrow> sort (walk_dirs (enclosing_workspace cargo_toml top_dir) [(top_dir, entries)] []))"

section \<open>What an edit distance is\<close>

text \<open>One edit inserts, deletes or replaces one character anywhere.\<close>

inductive edit_step :: "'a list \<Rightarrow> 'a list \<Rightarrow> bool" where
  Insert: "edit_step (xs @ ys) (xs @ c # ys)"
| Delete: "edit_step (xs @ c # ys) (xs @ ys)"
| Replace: "edit_step (xs @ c # ys) (xs @ d # ys)"

fun lev :: "'a list \<Rightarrow> 'a list \<Rightarrow> nat" where
  "lev [] ys = length ys"
| "lev xs [] = length xs"
| "lev (x # xs) (y # ys) =
     min (min (lev xs ys + (if x \<noteq> y then 1 else 0)) (lev xs (y # ys) + 1)) (lev (x # xs) ys + 1)"

lemma lev_Nil_right [simp]: "lev xs [] = length xs"
  by (cases xs) simp_all

lemma lev_refl [simp]: "lev xs xs = 0"
  by (induction xs) simp_all

lemma lev_Cons_right: "lev xs (y # ys) \<le> lev xs ys + 1"
proof (induction xs)
  case (Cons x xs) then show ?case by simp
qed simp

lemma lev_Cons_left: "lev (x # xs) ys \<le> lev xs ys + 1"
proof (induction ys)
  case (Cons y ys) then show ?case by simp
qed simp

lemma lev_drop_right: "lev xs ys \<le> lev xs (y # ys) + 1"
proof (induction xs)
  case (Cons x xs)
  have "lev (x # xs) ys \<le> lev xs ys + 1" by (rule lev_Cons_left)
  with Cons show ?case by auto
qed simp

lemma lev_replace_right: "lev xs (c # ys) \<le> lev xs (d # ys) + 1"
proof (induction xs)
  case (Cons x xs)
  have "lev (x # xs) (c # ys) \<le> lev xs ys + 1" by (auto simp: min_def)
  with Cons show ?case by auto
qed simp

text \<open>An edit of the second word behind a common prefix moves the distance by at most one.\<close>

lemma lev_behind:
  assumes "\<And>xs. lev xs vs \<le> lev xs us + 1"
  shows "lev xs (ps @ vs) \<le> lev xs (ps @ us) + 1"
proof (induction ps arbitrary: xs)
  case Nil show ?case using assms by simp
next
  case outer: (Cons p ps)
  show ?case
  proof (induction xs)
    case Nil show ?case using assms [of "[]"] by simp
  next
    case (Cons x xs) then show ?case using outer [of xs] outer [of "x # xs"] by (auto simp: min_def)
  qed
qed

lemma lev_edit_step: "edit_step ys zs \<Longrightarrow> lev xs zs \<le> lev xs ys + 1"
proof (induction rule: edit_step.induct)
  case (Insert ps us c)
  show ?case by (rule lev_behind) (rule lev_Cons_right)
next
  case (Delete ps c us)
  show ?case by (rule lev_behind) (rule lev_drop_right)
next
  case (Replace ps c us d)
  show ?case by (rule lev_behind) (rule lev_replace_right)
qed

lemma lev_edits: "(edit_step ^^ n) xs ys \<Longrightarrow> lev xs ys \<le> n"
proof (induction n arbitrary: ys)
  case (Suc n)
  then obtain zs where "(edit_step ^^ n) xs zs" "edit_step zs ys" by auto
  with Suc.IH [of zs] lev_edit_step [of zs ys xs] show ?case by simp
qed simp

text \<open>The distance is attained.\<close>

lemma edit_step_Cons: "edit_step xs ys \<Longrightarrow> edit_step (c # xs) (c # ys)"
proof (induction rule: edit_step.induct)
  case (Insert us vs d) show ?case using edit_step.Insert [of "c # us" vs d] by simp
next
  case (Delete us d vs) show ?case using edit_step.Delete [of "c # us" d vs] by simp
next
  case (Replace us d vs e) show ?case using edit_step.Replace [of "c # us" d vs e] by simp
qed

lemma edits_Cons: "(edit_step ^^ n) xs ys \<Longrightarrow> (edit_step ^^ n) (c # xs) (c # ys)"
  by (induction n arbitrary: ys) (auto intro: edit_step_Cons)

lemma edits_after: "(edit_step ^^ n) xs ys \<Longrightarrow> edit_step ys zs \<Longrightarrow> (edit_step ^^ Suc n) xs zs"
  by auto

lemma edits_before: "edit_step xs ys \<Longrightarrow> (edit_step ^^ n) ys zs \<Longrightarrow> (edit_step ^^ Suc n) xs zs"
  by (metis relpowp_Suc_I2)

lemma min_min_cases: "min (min a b) c = a \<or> min (min a b) c = b \<or> min (min a b) c = (c :: nat)"
  by linarith

lemma edits_lev: "(edit_step ^^ lev xs ys) xs ys"
proof (induction xs ys rule: lev.induct)
  case (1 ys)
  show ?case
  proof (induction ys)
    case (Cons y ys) then show ?case using edits_before [OF edit_step.Insert [of "[]" "[]" y]] edits_Cons [of "length ys" "[]" ys y] by simp
  qed simp
next
  case (2 x xs)
  show ?case
  proof (induction xs arbitrary: x)
    case Nil show ?case using edit_step.Delete [of "[]" x "[]"] by (simp add: relcompp_apply)
  next
    case (Cons z xs)
    have "edit_step (x # z # xs) (z # xs)" using edit_step.Delete [of "[]" x "z # xs"] by simp
    from edits_before [OF this Cons.IH] show ?case by simp
  qed
next
  case (3 x xs y ys)
  consider "lev (x # xs) (y # ys) = lev xs ys + (if x \<noteq> y then 1 else 0)" | "lev (x # xs) (y # ys) = lev xs (y # ys) + 1"
    | "lev (x # xs) (y # ys) = lev (x # xs) ys + 1"
    using min_min_cases [of "lev xs ys + (if x \<noteq> y then 1 else 0)" "lev xs (y # ys) + 1" "lev (x # xs) ys + 1"]
    unfolding lev.simps by blast
  then show ?case
  proof cases
    case 1
    then show ?thesis using 3(1) edits_Cons [OF 3(1), of y] edits_before [OF edit_step.Replace [of "[]" x xs y]] by (auto split: if_splits)
  next
    case 2
    then show ?thesis using edits_before [OF edit_step.Delete [of "[]" x xs]] 3(2) by simp
  next
    case 3
    then show ?thesis using edits_after [OF "3.IH"(3) edit_step.Insert [of "[]" ys y, simplified]] by simp
  qed
qed

text \<open>A row of the table: the distances of one prefix of \<open>a\<close>, reversed, to all prefixes of \<open>b\<close>.\<close>

definition lev_row :: "string \<Rightarrow> string \<Rightarrow> nat list" where
  "lev_row as b = map (\<lambda>j. lev as (rev (take j b))) [0..<length b + 1]"

lemma lev_row_nth: "j \<le> length b \<Longrightarrow> lev_row as b ! j = lev as (rev (take j b))"
  by (simp add: lev_row_def del: upt_Suc)

lemma length_lev_row [simp]: "length (lev_row as b) = length b + 1"
  by (simp add: lev_row_def)

lemma enumerate_take_Suc: "k < length b \<Longrightarrow> enumerate 0 (take (Suc k) b) = enumerate 0 (take k b) @ [(k, b ! k)]"
  by (simp add: take_Suc_conv_app_nth enumerate_append_eq)

lemma edit_cells:
  fixes ca :: char and as :: string
  assumes "k \<le> length b" "length cur = length b + 1"
  defines "row \<equiv> \<lambda>k. fold (edit_cell ca (lev_row as b)) (enumerate 0 (take k b)) (cur[0 := length as + 1])"
  shows "length (row k) = length b + 1 \<and> (\<forall>m\<le>k. row k ! m = lev (ca # as) (rev (take m b)))"
  using assms(1)
proof (induction k)
  case 0 then show ?case using assms(2) by (simp add: row_def)
next
  case (Suc k)
  then have IH: "length (row k) = length b + 1" "\<And>m. m \<le> k \<Longrightarrow> row k ! m = lev (ca # as) (rev (take m b))" and k: "k < length b"
    by auto
  have row: "row (Suc k) = edit_cell ca (lev_row as b) (k, b ! k) (row k)"
    using k by (simp add: row_def enumerate_take_Suc)
  have cell: "row (Suc k) ! Suc k = lev (ca # as) (rev (take (Suc k) b))"
    using k IH by (simp add: row edit_cell_def lev_row_nth take_Suc_conv_app_nth)
  have "row (Suc k) ! m = row k ! m" if "m \<le> k" for m
    using that by (simp add: row edit_cell_def Let_def)
  with IH cell show ?case by (auto simp: le_Suc_eq row edit_cell_def Let_def)
qed

lemma edit_row_step:
  assumes "length cur = length b + 1"
  shows "edit_row b (length as, ca) (lev_row as b, cur) = (lev_row (ca # as) b, lev_row as b)"
  using edit_cells [of "length b" b cur ca as] assms
  by (auto simp: edit_row_def lev_row_nth intro!: nth_equalityI)

lemma edit_rows:
  assumes "length cur = length b + 1" "k \<le> length a"
  shows "\<exists>cur'. fold (edit_row b) (enumerate 0 (take k a)) (lev_row [] b, cur) = (lev_row (rev (take k a)) b, cur') \<and>
      length cur' = length b + 1"
  using assms(2)
proof (induction k)
  case 0 then show ?case using assms(1) by simp
next
  case (Suc k)
  then obtain cur' where "fold (edit_row b) (enumerate 0 (take k a)) (lev_row [] b, cur) = (lev_row (rev (take k a)) b, cur')"
    "length cur' = length b + 1" by auto
  with edit_row_step [of cur' b "rev (take k a)" "a ! k"] Suc.prems show ?case
    by (simp add: take_Suc_conv_app_nth enumerate_append_eq)
qed

lemma lev_row_Nil: "lev_row [] b = [0..<length b + 1]"
  by (rule nth_equalityI) (simp_all add: lev_row_nth del: upt_Suc)

lemma edit_distance_lev: "edit_distance a b = lev (rev a) (rev b)"
  using edit_rows [of "replicate (length b + 1) 0" b "length a" a]
  by (auto simp: edit_distance_def lev_row_nth lev_row_Nil simp del: upt_Suc)

lemma edit_step_rev: "edit_step xs ys \<Longrightarrow> edit_step (rev xs) (rev ys)"
proof (induction rule: edit_step.induct)
  case (Insert us vs c) show ?case using edit_step.Insert [of "rev vs" "rev us" c] by simp
next
  case (Delete us c vs) show ?case using edit_step.Delete [of "rev vs" c "rev us"] by simp
next
  case (Replace us c vs d) show ?case using edit_step.Replace [of "rev vs" c "rev us" d] by simp
qed

lemma edits_rev: "(edit_step ^^ n) xs ys \<Longrightarrow> (edit_step ^^ n) (rev xs) (rev ys)"
  by (induction n arbitrary: ys) (auto intro: edit_step_rev)

text \<open>
  C35. The distance behind the suggestions is the edit distance: the two-row table's value is a
  number of insertions, deletions and replacements that turns one name into the other, and no
  smaller number does.
\<close>

theorem edit_distance_least:
  "(edit_step ^^ edit_distance a b) a b \<and> edit_distance a b = (LEAST n. (edit_step ^^ n) a b)"
proof
  show attained: "(edit_step ^^ edit_distance a b) a b"
    using edits_rev [OF edits_lev [of "rev a" "rev b"]] by (simp add: edit_distance_lev)
  have "edit_distance a b \<le> n" if "(edit_step ^^ n) a b" for n
    using lev_edits [OF edits_rev [OF that]] by (simp add: edit_distance_lev)
  with attained show "edit_distance a b = (LEAST n. (edit_step ^^ n) a b)"
    by (metis (mono_tags) Least_equality)
qed

section \<open>The walk misses nothing in silence\<close>

text \<open>
  The attribute's own spellings, bare or qualified from the crate, and conditional compilation, stated
  independently of the code's tests for them.\<close>

definition sync_attr :: "syn_attr \<Rightarrow> bool" where
  "sync_attr a \<longleftrightarrow> at_path a = [''sync_test''] \<or> (\<exists>mid. at_path a = ''ztest'' # mid @ [''sync_test''])"

definition conditional :: "syn_attr list \<Rightarrow> bool" where
  "conditional attrs \<longleftrightarrow> (\<exists>a \<in> set attrs. at_bare a \<and> at_path a = [''cfg''])"

lemma sync_attr_iff: "is_sync_test_path (at_path a) \<longleftrightarrow> sync_attr a"
proof (cases "at_path a")
  case Nil then show ?thesis by (simp add: is_sync_test_path_def sync_attr_def)
next
  case (Cons k segs)
  show ?thesis
  proof (cases segs rule: rev_cases)
    case Nil with Cons show ?thesis by (simp add: is_sync_test_path_def sync_attr_def)
  next
    case (snoc mid x)
    then have "segs \<noteq> []" by simp
    then have "is_sync_test_path (k # segs) \<longleftrightarrow> k = ''ztest'' \<and> last segs = ''sync_test''"
      by (cases segs) (simp_all add: is_sync_test_path_def)
    with Cons snoc show ?thesis by (auto simp: sync_attr_def)
  qed
qed

lemma conditional_iff: "has_cfg attrs \<longleftrightarrow> conditional attrs"
  by (simp add: has_cfg_def conditional_def list_ex_iff)

text \<open>
  The declarations of a list of items in the order of the source, each with whether it is gated, and
  the modules whose items are in another file.\<close>

fun declarations :: "syn_item list \<Rightarrow> bool \<Rightarrow> (bool \<times> syn_attr) list" where
  "declarations [] gated = []"
| "declarations (ItemFn attrs # items) gated =
     map (Pair (gated \<or> conditional attrs)) (filter sync_attr attrs) @ declarations items gated"
| "declarations (ItemMod ident attrs (Some inner) # items) gated =
     declarations inner (gated \<or> conditional attrs) @ declarations items gated"
| "declarations (_ # items) gated = declarations items gated"

fun unread_modules :: "syn_item list \<Rightarrow> string list" where
  "unread_modules [] = []"
| "unread_modules (ItemMod ident attrs None # items) = ident # unread_modules items"
| "unread_modules (ItemMod ident attrs (Some inner) # items) = unread_modules inner @ unread_modules items"
| "unread_modules (_ # items) = unread_modules items"

definition stubs_of :: "string \<Rightarrow> string \<Rightarrow> string \<Rightarrow> (bool \<times> syn_attr) list \<Rightarrow> profile_stub list" where
  "stubs_of path package target ds =
     List.map_filter (\<lambda>(g, a). case at_args a of Inr args \<Rightarrow> Some (profile_of args package target path (at_line a) g) | Inl _ \<Rightarrow> None) ds"

lemma stubs_of_simps [simp]:
  "stubs_of path package target [] = []"
  "stubs_of path package target (ds @ es) = stubs_of path package target ds @ stubs_of path package target es"
  by (simp_all add: stubs_of_def map_filter_def)

lemma visit_attrs_fst:
  "fst (fold (visit_attr path package target g) attrs w) =
     fst w @ stubs_of path package target (map (Pair g) (filter sync_attr attrs))"
  by (induction attrs arbitrary: w)
    (auto simp: visit_attr_def sync_attr_iff stubs_of_def map_filter_def split: sum.splits)

lemma visit_items_fst:
  "fst (visit_items path package target items gated w) = fst w @ stubs_of path package target (declarations items gated)"
  by (induction path package target items gated w rule: visit_items.induct)
    (simp_all add: visit_attrs_fst conditional_iff)

text \<open>Blind spots are only added, and each undecodable declaration adds one for its file.\<close>

lemma visit_attrs_blind:
  "set (snd w) \<subseteq> set (snd (fold (visit_attr path package target g) attrs w))"
  "a \<in> set attrs \<Longrightarrow> sync_attr a \<Longrightarrow> at_args a = Inl e \<Longrightarrow>
     \<exists>b \<in> set (snd (fold (visit_attr path package target g) attrs w)). bs_file b = path"
proof (induction attrs arbitrary: w)
  case (Cons x attrs)
  {
    case 1
    have "set (snd w) \<subseteq> set (snd (visit_attr path package target g x w))"
      by (auto simp: visit_attr_def split: sum.splits)
    with Cons(1) [of "visit_attr path package target g x w"] show ?case by auto
  next
    case 2
    show ?case
    proof (cases "a = x")
      case True
      then have "\<lparr>bs_file = path, bs_reason = ''sync_test attribute did not parse: '' @ e\<rparr> \<in> set (snd (visit_attr path package target g x w))"
        using 2 by (simp add: visit_attr_def sync_attr_iff)
      with Cons(1) [of "visit_attr path package target g x w"] show ?thesis by force
    next
      case False
      with 2 Cons(2) [of "visit_attr path package target g x w"] show ?thesis by simp
    qed
  }
qed simp_all

lemma visit_items_blind_mono: "set (snd w) \<subseteq> set (snd (visit_items path package target items gated w))"
  by (induction path package target items gated w rule: visit_items.induct)
    (use visit_attrs_blind(1) in \<open>auto, blast+\<close>)

lemma visit_items_blind:
  "(g, a) \<in> set (declarations items gated) \<Longrightarrow> at_args a = Inl e \<Longrightarrow>
     \<exists>b \<in> set (snd (visit_items path package target items gated w)). bs_file b = path"
proof (induction path package target items gated w rule: visit_items.induct)
  case (2 path package target attrs items gated w)
  show ?case
  proof (cases "(g, a) \<in> set (declarations items gated)")
    case False
    with 2(2) have "a \<in> set attrs" "sync_attr a" by auto
    with 2(3) visit_attrs_blind(2) [of a attrs e path package target "gated \<or> has_cfg attrs" w]
      visit_items_blind_mono show ?thesis by fastforce
  qed (use 2 in simp)
next
  case (3 path package target ident attrs inner items gated w)
  then show ?case using visit_items_blind_mono by (fastforce simp: conditional_iff)
qed auto

lemma visit_items_unread:
  "ident \<in> set (unread_modules items) \<Longrightarrow>
     \<lparr>bs_file = path, bs_reason = ''out-of-line `mod '' @ ident @ '';` not followed''\<rparr>
       \<in> set (snd (visit_items path package target items gated w))"
proof (induction path package target items gated w rule: visit_items.induct)
  case (3 path package target name attrs inner items gated w)
  show ?case
  proof (cases "ident \<in> set (unread_modules inner)")
    case True
    from 3(1) [OF this] visit_items_blind_mono show ?thesis by simp blast
  next
    case False
    with 3(3) have "ident \<in> set (unread_modules items)" by simp
    from 3(2) [OF this] show ?thesis by simp
  qed
next
  case (4 path package target name attrs items gated w)
  show ?case
  proof (cases "ident \<in> set (unread_modules items)")
    case True
    from 4(1) [OF this] show ?thesis by simp
  next
    case False
    with 4(2) have "ident = name" by simp
    then show ?thesis
      using visit_items_blind_mono [of "(fst w, snd w @ [\<lparr>bs_file = path, bs_reason = ''out-of-line `mod '' @ name @ '';` not followed''\<rparr>])"
          path package target items gated] by auto
  qed
qed auto

text \<open>A walk only grows, so what one target contributes is in the scan.\<close>

definition grows :: "walk \<Rightarrow> walk \<Rightarrow> bool" where
  "grows w w' \<longleftrightarrow> set (fst w) \<subseteq> set (fst w') \<and> set (snd w) \<subseteq> set (snd w')"

lemma grows_refl [simp, intro]: "grows w w"
  by (simp add: grows_def)

lemma grows_trans: "grows u v \<Longrightarrow> grows v w \<Longrightarrow> grows u w"
  by (auto simp: grows_def)

lemma fold_grows:
  assumes "\<And>x w. grows w (f x w)"
  shows "grows w (fold f xs w)"
proof (induction xs arbitrary: w)
  case (Cons x xs)
  then show ?case using grows_trans [OF assms [of w x]] by simp
qed simp

lemma fold_contributes:
  assumes "\<And>x w. grows w (f x w)" "x \<in> set xs"
  shows "\<exists>w'. grows (f x w') (fold f xs w)"
  using assms(2)
proof (induction xs arbitrary: w)
  case (Cons y ys)
  show ?case
  proof (cases "x = y")
    case True
    then show ?thesis using fold_grows [of f, OF assms(1), of "f y w" ys] by (intro exI [of _ w]) simp
  next
    case False
    with Cons show ?thesis by simp
  qed
qed simp

lemma scan_target_grows: "grows w (scan_target rd pkg t w)"
  using visit_items_blind_mono [of "([], snd w)"]
  by (auto simp: grows_def scan_target_def scan_file_def Let_def split: option.splits sum.splits)

lemma scan_package_grows: "grows w (scan_package rd pkg w)"
  by (auto simp: scan_package_def split: option.splits intro: fold_grows scan_target_grows)

text \<open>A test target the workspace lists with its name and its file.\<close>

definition test_file :: "cargo_meta \<Rightarrow> string \<Rightarrow> string \<Rightarrow> string \<Rightarrow> bool" where
  "test_file m package target src \<longleftrightarrow>
     (\<exists>pkgs pkg ts t. cm_packages m = Some pkgs \<and> pkg \<in> set pkgs \<and> cp_name pkg = Some package \<and> cp_targets pkg = Some ts \<and>
        t \<in> set ts \<and> is_test_target t \<and> ct_name t = Some target \<and> ct_src_path t = Some src)"

lemma test_file_scanned:
  assumes "scan_workspace git rd (Inr m) = Inr sc" "test_file m package target src"
  shows "\<exists>blind. grows (scan_file rd src package target blind) (sc_profiles sc, sc_blind sc)"
proof -
  from assms(2) obtain pkgs pkg ts t where pkg: "cm_packages m = Some pkgs" "pkg \<in> set pkgs" "cp_name pkg = Some package" "cp_targets pkg = Some ts"
    and t: "t \<in> set ts" "is_test_target t" "ct_name t = Some target" "ct_src_path t = Some src"
    unfolding test_file_def by blast
  from fold_contributes [of "scan_package rd", OF scan_package_grows pkg(2), of "([], [])"]
  obtain w where w: "grows (scan_package rd pkg w) (fold (scan_package rd) pkgs ([], []))" by blast
  from fold_contributes [of "scan_target rd package", OF scan_target_grows t(1), of w]
  obtain w' where "grows (scan_target rd package t w') (scan_package rd pkg w)" using pkg(3,4) by (auto simp: scan_package_def)
  moreover have "grows (scan_file rd src package target (snd w')) (scan_target rd package t w')"
    using t by (auto simp: scan_target_def grows_def Let_def)
  moreover have "set (sc_profiles sc) = set (fst (fold (scan_package rd) pkgs ([], [])))"
    "sc_blind sc = snd (fold (scan_package rd) pkgs ([], []))"
    using assms(1) pkg(1) by (auto simp: scan_workspace_def Let_def split: option.splits)
  ultimately show ?thesis using w unfolding grows_def by (intro exI [of _ "snd w'"]) auto
qed

lemma scan_file_certain:
  assumes "snd (scan_file rd src package target blind) = []"
  obtains source items where "read_source rd src = Inr source" "parse_source rd source = Inr items"
    "fst (scan_file rd src package target blind) = stubs_of src package target (declarations items False)"
    "unread_modules items = []" "\<forall>(g, a) \<in> set (declarations items False). \<exists>args. at_args a = Inr args"
proof -
  from assms obtain source items where si: "read_source rd src = Inr source" "parse_source rd source = Inr items"
    by (auto simp: scan_file_def split: sum.splits)
  then have no_blind: "snd (visit_items src package target items False ([], blind)) = []"
    using assms by (simp add: scan_file_def)
  show ?thesis
  proof (rule that [OF si])
    show "fst (scan_file rd src package target blind) = stubs_of src package target (declarations items False)"
      using si by (simp add: scan_file_def visit_items_fst)
    show "unread_modules items = []"
      using visit_items_unread [of "hd (unread_modules items)" items src package target False "([], blind)"] no_blind
      by (cases "unread_modules items") auto
    have "\<exists>args. at_args a = Inr args" if "(g, a) \<in> set (declarations items False)" for g a
      using visit_items_blind [OF that, of _ src package target "([], blind)"] no_blind by (cases "at_args a") auto
    then show "\<forall>(g, a) \<in> set (declarations items False). \<exists>args. at_args a = Inr args" by blast
  qed
qed

lemma in_stubs_of:
  "(g, a) \<in> set ds \<Longrightarrow> at_args a = Inr args \<Longrightarrow> profile_of args package target path (at_line a) g \<in> set (stubs_of path package target ds)"
  by (force simp: stubs_of_def map_filter_def)

lemma find_profile_miss:
  assumes "find_profile sc name = Inl why" "p \<in> set (sc_profiles sc)" "pr_name p = name"
  shows "\<exists>many. why = MissAmbiguous many \<and> p \<in> set many \<and> 2 \<le> length many"
proof -
  define hits where "hits = filter (\<lambda>p. pr_name p = name) (sc_profiles sc)"
  have p: "p \<in> set hits" using assms(2,3) by (simp add: hits_def)
  have "find_profile sc name = (case hits of [one] \<Rightarrow> Inr one
      | [] \<Rightarrow> if sc_profiles sc = [] then Inl MissEmpty else Inl (MissUnknown (suggest sc name))
      | many \<Rightarrow> Inl (MissAmbiguous many))"
    by (simp add: find_profile_def hits_def)
  with assms(1) p show ?thesis by (auto split: list.splits)
qed

text \<open>
  C34. A name is refused before the build only on evidence: when the preflight of a sync refuses
  a name, every test file of the workspace was read and parsed, has no module in another file,
  each of its declarations was understood and is not conditional, and one of that name is among
  those the refusal reports as declared more than once.
\<close>

theorem preflight_refusal_justified:
  assumes "scan_workspace git rd (Inr m) = Inr sc" "preflight sc name = Inl why" "test_file m package target src"
  shows "\<exists>source items. read_source rd src = Inr source \<and> parse_source rd source = Inr items \<and> unread_modules items = [] \<and>
     (\<forall>(g, a) \<in> set (declarations items False). \<not> g \<and> (\<exists>args. at_args a = Inr args \<and> (ar_name args = name \<longrightarrow>
        (\<exists>many. why = MissAmbiguous many \<and> profile_of args package target src (at_line a) g \<in> set many \<and> 2 \<le> length many))))"
proof -
  from assms(2) have miss: "find_profile sc name = Inl why" and certain: "sc_blind sc = []" "\<not> list_ex pr_gated (sc_profiles sc)"
    by (auto simp: preflight_def is_uncertain_def split: sum.splits if_splits)
  from test_file_scanned [OF assms(1,3)] certain(1) obtain blind where
    scanned: "set (fst (scan_file rd src package target blind)) \<subseteq> set (sc_profiles sc)" "snd (scan_file rd src package target blind) = []"
    by (auto simp: grows_def)
  obtain source items where si: "read_source rd src = Inr source" "parse_source rd source = Inr items"
    and fst: "fst (scan_file rd src package target blind) = stubs_of src package target (declarations items False)"
    and unread: "unread_modules items = []"
    and args: "\<forall>(g, a) \<in> set (declarations items False). \<exists>args. at_args a = Inr args"
    using scanned(2) by (rule scan_file_certain)
  have "\<not> g \<and> (\<exists>args. at_args a = Inr args \<and> (ar_name args = name \<longrightarrow>
        (\<exists>many. why = MissAmbiguous many \<and> profile_of args package target src (at_line a) g \<in> set many \<and> 2 \<le> length many)))"
    if d: "(g, a) \<in> set (declarations items False)" for g a
  proof -
    from args d obtain ar where ar: "at_args a = Inr ar" by blast
    define p where "p = profile_of ar package target src (at_line a) g"
    have p: "p \<in> set (sc_profiles sc)" using in_stubs_of [OF d ar] scanned(1) fst by (auto simp: p_def)
    then have "\<not> g" using certain(2) by (auto simp: list_ex_iff p_def profile_of_def)
    moreover have "pr_name p = ar_name ar" by (simp add: p_def profile_of_def)
    ultimately show ?thesis using ar find_profile_miss [OF miss p] by (auto simp: p_def)
  qed
  with si unread show ?thesis by blast
qed

definition sample_args :: "string \<Rightarrow> sync_test_args" where
  "sample_args name = \<lparr>ar_name = name, ar_description = [], ar_subject = ''wallet'', ar_timeout = ''48h'', ar_qos = ''sync'',
     ar_footprint = None, ar_runner = None, ar_tags = []\<rparr>"

definition sample_items :: "syn_item list" where
  "sample_items = [ItemMod ''m'' [] (Some [ItemFn [\<lparr>at_path = [''ztest'', ''sync_test''], at_bare = True, at_line = 3,
      at_args = Inr (sample_args ''full-sync'')\<rparr>]]), ItemOther]"

definition sample_reader :: source_reader where
  "sample_reader = \<lparr>read_source = \<lambda>_. Inr [], parse_source = \<lambda>_. Inr sample_items\<rparr>"

definition one_target :: "string \<Rightarrow> cargo_meta" where
  "one_target kind = \<lparr>cm_root = Some ''/w'', cm_packages = Some [\<lparr>cp_name = Some ''p'', cp_targets = Some
     [\<lparr>ct_kind = Some [Some kind], ct_name = Some ''t'', ct_src_path = Some ''t.rs''\<rparr>]\<rparr>]\<rparr>"

definition sample_scan :: scan where
  "sample_scan = \<lparr>sc_profiles = [profile_of (sample_args ''full-sync'') ''p'' ''t'' ''t.rs'' 3 False], sc_root = ''/w'',
     sc_branch = None, sc_blind = []\<rparr>"

lemma sample_scanned: "scan_workspace (\<lambda>_. None) sample_reader (Inr (one_target ''test'')) = Inr sample_scan"
  by (simp add: scan_workspace_def sample_scan_def one_target_def scan_package_def scan_target_def scan_file_def
      sample_reader_def sample_items_def is_test_target_def visit_attr_def is_sync_test_path_def has_cfg_def)

theorem preflight_refusal_justified_witness:
  "preflight sample_scan ''fast-sync'' = Inl (MissUnknown (suggest sample_scan ''fast-sync'')) \<and>
   (\<exists>source items. read_source sample_reader ''t.rs'' = Inr source \<and> parse_source sample_reader source = Inr items)"
proof
  show refused: "preflight sample_scan ''fast-sync'' = Inl (MissUnknown (suggest sample_scan ''fast-sync''))"
    by (simp add: preflight_def find_profile_def sample_scan_def profile_of_def sample_args_def is_uncertain_def)
  have "test_file (one_target ''test'') ''p'' ''t'' ''t.rs''"
    by (simp add: test_file_def one_target_def is_test_target_def)
  from preflight_refusal_justified [OF sample_scanned refused this]
  show "\<exists>source items. read_source sample_reader ''t.rs'' = Inr source \<and> parse_source sample_reader source = Inr items" by blast
qed

text \<open>
  A profile declared in another kind of target leaves no trace, not even a blind spot: the same
  file as a library target makes the preflight refuse every name as absent.\<close>

lemma lib_profiles_refused:
  "\<exists>sc. scan_workspace (\<lambda>_. None) sample_reader (Inr (one_target ''lib'')) = Inr sc \<and> sc_blind sc = [] \<and>
     preflight sc ''full-sync'' = Inl MissEmpty"
  by (simp add: scan_workspace_def one_target_def scan_package_def scan_target_def is_test_target_def
      preflight_def find_profile_def is_uncertain_def)

text \<open>Suggestions are the declared names within the budget, nearest first.\<close>

lemma suggest_nearest:
  "sorted (map (edit_distance name) (suggest sc name)) \<and>
   set (suggest sc name) = {n \<in> pr_name ` set (sc_profiles sc). edit_distance name n \<le> max (length name div 3) 2}"
proof -
  define scored where "scored = filter (\<lambda>(d, _). d \<le> max (length name div 3) 2) (map (\<lambda>p. (edit_distance name (pr_name p), pr_name p)) (sc_profiles sc))"
  have "fst x = edit_distance name (snd x)" if "x \<in> set (sort scored)" for x
    using that by (auto simp: scored_def)
  then have "map (edit_distance name) (map snd (sort scored)) = map fst (sort scored)" by simp
  moreover have "sorted (map fst xs)" if "sorted xs" for xs :: "(nat \<times> string) list"
    using that by (induction xs) (auto simp: less_eq_prod_def)
  moreover have "suggest sc name = map snd (sort scored)" by (simp add: suggest_def scored_def Let_def)
  moreover have "snd ` set scored = {n \<in> pr_name ` set (sc_profiles sc). edit_distance name n \<le> max (length name div 3) 2}"
    by (force simp: scored_def)
  ultimately show ?thesis by (simp only: sorted_sort set_map set_sort)
qed

section \<open>Which workspaces the search names\<close>

text \<open>A file the search can see: below the top, through readable directories that are neither hidden nor build output.\<close>

inductive visible_file :: "string list \<Rightarrow> fs_node list option \<Rightarrow> string list \<Rightarrow> string \<Rightarrow> string option \<Rightarrow> bool" where
  here: "FsFile name content \<in> set es \<Longrightarrow> visible_file dir (Some es) (dir @ [name]) name content"
| below: "FsDir sub ses \<in> set es \<Longrightarrow> \<not> skipped_dir sub \<Longrightarrow> visible_file (dir @ [sub]) ses path name content
    \<Longrightarrow> visible_file dir (Some es) path name content"

inductive_simps visible_file_None [simp]: "visible_file dir None path name content"
inductive_simps visible_file_Some: "visible_file dir (Some es) path name content"

definition hits_of :: "(string list \<Rightarrow> string list option) \<Rightarrow> pending_dir list \<Rightarrow> string list set" where
  "hits_of enc todo = {ws. \<exists>(dir, es) \<in> set todo. \<exists>path name content.
     visible_file dir es path name content \<and> mentions_sync_test name content \<and> enc path = Some ws}"

lemma hits_of_Nil [simp]: "hits_of enc [] = {}"
  by (simp add: hits_of_def)

lemma hits_of_Cons: "hits_of enc (d # todo) = hits_of enc [d] \<union> hits_of enc todo"
  by (auto simp: hits_of_def)

definition entry_hits :: "(string list \<Rightarrow> string list option) \<Rightarrow> string list \<Rightarrow> fs_node \<Rightarrow> string list set" where
  "entry_hits enc dir e = (case e of
     FsDir sub ses \<Rightarrow> if skipped_dir sub then {} else hits_of enc [(dir @ [sub], ses)]
   | FsFile name content \<Rightarrow> {ws. mentions_sync_test name content \<and> enc (dir @ [name]) = Some ws})"

lemma hits_of_dir: "hits_of enc [(dir, Some es)] = (\<Union>e \<in> set es. entry_hits enc dir e)"
proof (intro set_eqI iffI)
  fix ws assume "ws \<in> hits_of enc [(dir, Some es)]"
  then obtain path name content where f: "visible_file dir (Some es) path name content" "mentions_sync_test name content" "enc path = Some ws"
    by (auto simp: hits_of_def)
  from f(1) show "ws \<in> (\<Union>e \<in> set es. entry_hits enc dir e)"
  proof cases
    case here
    with f show ?thesis by (auto simp: entry_hits_def intro!: bexI [of _ "FsFile name content"])
  next
    case (below sub ses)
    with f have "ws \<in> entry_hits enc dir (FsDir sub ses)"
      by (simp add: entry_hits_def hits_of_def) blast
    with below(1) show ?thesis by blast
  qed
next
  fix ws assume "ws \<in> (\<Union>e \<in> set es. entry_hits enc dir e)"
  then obtain e where e: "e \<in> set es" "ws \<in> entry_hits enc dir e" by blast
  show "ws \<in> hits_of enc [(dir, Some es)]"
  proof (cases e)
    case (FsDir sub ses)
    with e show ?thesis by (auto simp: entry_hits_def hits_of_def split: if_splits intro: visible_file.below)
  next
    case (FsFile name content)
    with e show ?thesis by (auto simp: entry_hits_def hits_of_def intro: visible_file.here)
  qed
qed

lemma walk_entry_hits:
  assumes "walk_entry enc dir e (todo, hits) = (todo', hits')"
  shows "hits_of enc todo' \<union> set hits' = hits_of enc todo \<union> set hits \<union> entry_hits enc dir e"
    and "distinct hits \<Longrightarrow> distinct hits'"
proof (atomize (full), cases e)
  case (FsDir sub ses)
  show "hits_of enc todo' \<union> set hits' = hits_of enc todo \<union> set hits \<union> entry_hits enc dir e \<and> (distinct hits \<longrightarrow> distinct hits')"
    using assms FsDir hits_of_Cons [of enc "(dir @ [sub], ses)" todo] by (auto simp: entry_hits_def split: if_splits)
next
  case (FsFile name content)
  then show "hits_of enc todo' \<union> set hits' = hits_of enc todo \<union> set hits \<union> entry_hits enc dir e \<and> (distinct hits \<longrightarrow> distinct hits')"
    using assms by (auto simp: entry_hits_def split: if_splits option.splits)
qed

lemma walk_entries_hits:
  assumes "fold (walk_entry enc dir) es (todo, hits) = (todo', hits')"
  shows "hits_of enc todo' \<union> set hits' = hits_of enc todo \<union> set hits \<union> (\<Union>e \<in> set es. entry_hits enc dir e) \<and>
    (distinct hits \<longrightarrow> distinct hits')"
  using assms
proof (induction es arbitrary: todo hits)
  case (Cons e es)
  obtain t h where th: "walk_entry enc dir e (todo, hits) = (t, h)" by (cases "walk_entry enc dir e (todo, hits)")
  with Cons.prems Cons.IH [of t h] walk_entry_hits [OF th] show ?case by auto
qed simp

lemma walk_dirs_hits:
  "set (walk_dirs enc todo hits) = hits_of enc todo \<union> set hits \<and> (distinct hits \<longrightarrow> distinct (walk_dirs enc todo hits))"
proof (induction enc todo hits rule: walk_dirs.induct)
  case (2 enc dir todo hits)
  then show ?case by (simp add: hits_of_def)
next
  case (3 enc dir entries todo hits)
  obtain t h where th: "fold (walk_entry enc dir) entries (todo, hits) = (t, h)" by (cases "fold (walk_entry enc dir) entries (todo, hits)")
  from 3 [OF th [symmetric]] walk_entries_hits [OF th] show ?case
    unfolding hits_of_Cons [of enc "(dir, Some entries)"] hits_of_dir by (simp add: th) blast
qed simp

text \<open>
  The search for other workspaces is exact: it ends on every directory tree, and names, once
  each and in order, the nearest enclosing workspaces of the Rust files that mention the
  attribute, however deep, outside hidden directories and build output, and no others.
\<close>

theorem workspace_search_exact:
  "set (workspaces_with_profiles cargo_toml (Some (repo, entries))) =
     {ws. \<exists>path name content. visible_file repo entries path name content \<and> mentions_sync_test name content \<and>
        enclosing_workspace cargo_toml repo path = Some ws} \<and>
   sorted (workspaces_with_profiles cargo_toml (Some (repo, entries))) \<and>
   distinct (workspaces_with_profiles cargo_toml (Some (repo, entries)))"
  using walk_dirs_hits [of "enclosing_workspace cargo_toml repo" "[(repo, entries)]" "[]"]
  by (simp add: workspaces_with_profiles_def hits_of_def)

end
