(* ===== verification/Cluster_Config.thy ===== *)
theory Cluster_Config
  imports Ztest_Prelude "HOL-Library.List_Lexorder" "HOL-Library.Char_ord"
begin

text \<open>
  Named cluster profiles (\<open>src/src/cluster_config.rs\<close>): what a profile is, when it is consistent, the
  overlay of fetched facts, and its activation, which writes the environment every later part of
  the process reads. With it the choice of storage (\<open>src/src/storage_class.rs\<close>), which reads that
  environment, and the container engine's name (\<open>src/src/runtime.rs\<close>). The environment is a map of
  variables; what the kubeconfig and the cluster answer are inputs.
\<close>

section \<open>Profiles\<close>

datatype cluster_class = LocalCluster | RemoteCluster

fun class_str :: "cluster_class \<Rightarrow> string" where
  "class_str LocalCluster = ''local''"
| "class_str RemoteCluster = ''remote''"

fun class_label :: "cluster_class \<Rightarrow> string" where
  "class_label LocalCluster = ''Kind Local Cluster''"
| "class_label RemoteCluster = ''Remote Cluster''"

definition class_parse :: "string \<Rightarrow> cluster_class option" where
  "class_parse s =
     (if s = ''local'' then Some LocalCluster else if s = ''remote'' then Some RemoteCluster else None)"

datatype container_runtime = Docker | Podman

fun runtime_str :: "container_runtime \<Rightarrow> string" where
  "runtime_str Docker = ''docker''"
| "runtime_str Podman = ''podman''"

definition runtime_parse :: "string \<Rightarrow> container_runtime option" where
  "runtime_parse s =
     (let t = trim s in if t = ''docker'' then Some Docker else if t = ''podman'' then Some Podman else None)"

record cluster_profile =
  pf_context :: "string option"
  pf_push :: "string option"
  pf_pull :: "string option"
  pf_push_secret :: "string option"
  pf_storage_driver :: "string option"
  pf_storage_class :: "string option"
  pf_snapshot_class :: "string option"
  pf_runtime :: "container_runtime option"
  pf_class :: cluster_class

definition default_profile :: cluster_profile where
  "default_profile = \<lparr>pf_context = None, pf_push = None, pf_pull = None, pf_push_secret = None, pf_storage_driver = None,
     pf_storage_class = None, pf_snapshot_class = None, pf_runtime = None, pf_class = LocalCluster\<rparr>"

record cluster_spec =
  sp_class :: "cluster_class option"
  sp_push :: "string option"
  sp_pull :: "string option"
  sp_push_secret :: "string option"
  sp_storage_driver :: "string option"
  sp_storage_class :: "string option"
  sp_snapshot_class :: "string option"

definition overlay :: "'a option \<Rightarrow> 'a option \<Rightarrow> 'a option" where
  "overlay dst src = (if src \<noteq> None then src else dst)"

definition apply_to :: "cluster_spec \<Rightarrow> cluster_profile \<Rightarrow> cluster_profile" where
  "apply_to sp p =
     p\<lparr>pf_class := (case sp_class sp of Some c \<Rightarrow> c | None \<Rightarrow> pf_class p),
       pf_push := overlay (pf_push p) (sp_push sp),
       pf_pull := overlay (pf_pull p) (sp_pull sp),
       pf_push_secret := overlay (pf_push_secret p) (sp_push_secret sp),
       pf_storage_driver := overlay (pf_storage_driver p) (sp_storage_driver sp),
       pf_storage_class := overlay (pf_storage_class p) (sp_storage_class sp),
       pf_snapshot_class := overlay (pf_snapshot_class p) (sp_snapshot_class sp)\<rparr>"

definition spec_fields :: "cluster_spec \<Rightarrow> (string \<times> string) list" where
  "spec_fields sp =
     (case sp_class sp of Some c \<Rightarrow> [(''class'', class_str c)] | None \<Rightarrow> []) @
     List.map_filter (\<lambda>(k, v). map_option (Pair k) v)
       [(''push'', sp_push sp), (''pull'', sp_pull sp), (''push_secret'', sp_push_secret sp),
        (''storage_driver'', sp_storage_driver sp), (''storage_class'', sp_storage_class sp),
        (''snapshot_class'', sp_snapshot_class sp)]"

definition local_profile :: "string \<Rightarrow> cluster_profile" where
  "local_profile kind_name = default_profile\<lparr>pf_context := Some (''kind-'' @ kind_name), pf_class := LocalCluster\<rparr>"

definition kind_cluster :: "cluster_profile \<Rightarrow> string option" where
  "kind_cluster p = Option.bind (pf_context p) (strip_prefix ''kind-'')"

definition for_context :: "string \<Rightarrow> cluster_profile" where
  "for_context ctx = default_profile\<lparr>pf_context := Some ctx,
     pf_class := (if prefix ''kind-'' ctx then LocalCluster else RemoteCluster)\<rparr>"

datatype profile_error =
    LocalHasRegistry | LocalNeedsKind | RemoteNeedsPush | RemoteHasKind | HalfPinnedStorage | RegistryScheme string

definition bad_scheme :: "string \<Rightarrow> bool" where
  "bad_scheme addr = (case split_once ''://'' addr of Some (scheme, _) \<Rightarrow> scheme \<noteq> ''http'' \<and> scheme \<noteq> ''https'' | None \<Rightarrow> False)"

definition some_list :: "'a option list \<Rightarrow> 'a list" where
  "some_list = List.map_filter id"

definition validate_profile :: "cluster_profile \<Rightarrow> profile_error + unit" where
  "validate_profile p =
     (if (pf_storage_class p \<noteq> None) \<noteq> (pf_snapshot_class p \<noteq> None) then Inl HalfPinnedStorage
      else (case List.find bad_scheme (some_list [pf_push p, pf_pull p]) of
              Some addr \<Rightarrow> Inl (RegistryScheme addr)
            | None \<Rightarrow>
                (case pf_class p of
                   LocalCluster \<Rightarrow>
                     if pf_push p \<noteq> None \<or> pf_pull p \<noteq> None then Inl LocalHasRegistry
                     else if kind_cluster p = None then Inl LocalNeedsKind else Inr ()
                 | RemoteCluster \<Rightarrow>
                     if pf_push p = None then Inl RemoteNeedsPush
                     else if kind_cluster p \<noteq> None then Inl RemoteHasKind else Inr ())))"

definition pull_address :: "cluster_profile \<Rightarrow> string option" where
  "pull_address p = (case pf_pull p of Some a \<Rightarrow> Some a | None \<Rightarrow> pf_push p)"

definition or_str :: "string option \<Rightarrow> string \<Rightarrow> string" where
  "or_str x d = (case x of Some s \<Rightarrow> s | None \<Rightarrow> d)"

definition profile_summary :: "cluster_profile \<Rightarrow> string" where
  "profile_summary p =
     (let images = (case pf_class p of
          LocalCluster \<Rightarrow> ''kind '' @ or_str (kind_cluster p) ''(default)''
        | RemoteCluster \<Rightarrow>
            (case (pf_push p, pf_pull p) of
               (Some push, Some pull) \<Rightarrow> ''registry push='' @ push @ '' pull='' @ pull
             | (push, _) \<Rightarrow> ''registry '' @ or_str push ''?''))
      in ''context='' @ or_str (pf_context p) ''(current kube-context)'' @ '', images='' @ images)"

section \<open>Activation\<close>

type_synonym env = "string \<Rightarrow> string option"

definition KUBE_CONTEXT_ENV :: string where "KUBE_CONTEXT_ENV = ''ZTEST_KUBE_CONTEXT''"
definition CLUSTER_CLASS_ENV :: string where "CLUSTER_CLASS_ENV = ''ZTEST_CLUSTER_CLASS''"
definition STORAGE_DRIVER_ENV :: string where "STORAGE_DRIVER_ENV = ''ZTEST_STORAGE_DRIVER''"
definition REGISTRY_ENV :: string where "REGISTRY_ENV = ''ZTEST_IMAGE_REGISTRY''"
definition PUSH_REGISTRY_ENV :: string where "PUSH_REGISTRY_ENV = ''ZTEST_IMAGE_PUSH_REGISTRY''"
definition PUSH_SECRET_ENV :: string where "PUSH_SECRET_ENV = ''ZTEST_IMAGE_PUSH_SECRET''"
definition STORAGE_CLASS_ENV :: string where "STORAGE_CLASS_ENV = ''ZTEST_STORAGE_CLASS''"
definition SNAPSHOT_CLASS_ENV :: string where "SNAPSHOT_CLASS_ENV = ''ZTEST_VOLUMESNAPSHOT_CLASS''"
definition RUNTIME_ENV :: string where "RUNTIME_ENV = ''ZTEST_CONTAINER_RUNTIME''"

definition occupied :: "env \<Rightarrow> string \<Rightarrow> bool" where
  "occupied e k = (case e k of Some v \<Rightarrow> v \<noteq> [] | None \<Rightarrow> False)"

definition set_env :: "string \<Rightarrow> string option \<Rightarrow> bool \<Rightarrow> env \<Rightarrow> env" where
  "set_env key val force e =
     (case val of
        None \<Rightarrow> e
      | Some v \<Rightarrow> if force \<or> \<not> occupied e key then e(key \<mapsto> v) else e)"

definition pair_writable :: "bool \<Rightarrow> bool \<Rightarrow> bool \<Rightarrow> bool" where
  "pair_writable force class_set snapshot_set \<longleftrightarrow> force \<or> \<not> (class_set \<or> snapshot_set)"

definition set_storage_pair :: "cluster_profile \<Rightarrow> bool \<Rightarrow> env \<Rightarrow> env" where
  "set_storage_pair p force e =
     (case (pf_storage_class p, pf_snapshot_class p) of
        (Some sc, Some snap) \<Rightarrow>
          if pair_writable force (occupied e STORAGE_CLASS_ENV) (occupied e SNAPSHOT_CLASS_ENV)
          then e(STORAGE_CLASS_ENV \<mapsto> sc, SNAPSHOT_CLASS_ENV \<mapsto> snap) else e
      | _ \<Rightarrow> if force then e(STORAGE_CLASS_ENV := None, SNAPSHOT_CLASS_ENV := None) else e)"

definition apply_profile :: "cluster_profile \<Rightarrow> bool \<Rightarrow> env \<Rightarrow> env" where
  "apply_profile p force e =
     (let e = set_env KUBE_CONTEXT_ENV (pf_context p) force e;
          e = set_env CLUSTER_CLASS_ENV (Some (class_str (pf_class p))) force e;
          e = set_env STORAGE_DRIVER_ENV (pf_storage_driver p) force e;
          e = set_storage_pair p force e;
          e = set_env RUNTIME_ENV (map_option runtime_str (pf_runtime p)) force e
      in case pf_class p of
           RemoteCluster \<Rightarrow>
             (let e = set_env REGISTRY_ENV (pull_address p) force e;
                  e = set_env PUSH_REGISTRY_ENV (pf_push p) force e
              in set_env PUSH_SECRET_ENV (pf_push_secret p) force e)
         | LocalCluster \<Rightarrow>
             if force then e(REGISTRY_ENV := None, PUSH_REGISTRY_ENV := None, PUSH_SECRET_ENV := None) else e)"

record config =
  cf_current :: "string option"
  cf_clusters :: "(string \<times> cluster_profile) list"

datatype config_error =
    LoadFailed string | KubeconfigFailed string | NoProfile string string | BadRuntime string
  | UnknownContext string string | BadProfile string profile_error

definition listed :: "string list \<Rightarrow> string" where
  "listed v = (if v = [] then ''(none)'' else join '', '' v)"

definition in_cluster :: "env \<Rightarrow> bool" where
  "in_cluster e \<longleftrightarrow> e ''KUBERNETES_SERVICE_HOST'' \<noteq> None"

text \<open>The kubeconfig: the names of its contexts and its current one, or why it cannot be read.\<close>

record kubeconfig =
  kc_contexts :: "string list"
  kc_current :: "string option"

definition verify_context :: "env \<Rightarrow> string + kubeconfig \<Rightarrow> string \<Rightarrow> config_error + unit" where
  "verify_context e kube ctx =
     (if in_cluster e then Inr ()
      else (case kube of
              Inl why \<Rightarrow> Inl (KubeconfigFailed why)
            | Inr kc \<Rightarrow> if ctx \<in> set (kc_contexts kc) then Inr () else Inl (UnknownContext ctx (listed (kc_contexts kc)))))"

text \<open>The process: its environment and the profile it was bound to.\<close>

record process =
  ps_env :: env
  ps_active :: "string option"

definition bad_runtime :: "env \<Rightarrow> string option" where
  "bad_runtime e = (case e RUNTIME_ENV of Some v \<Rightarrow> if runtime_parse v = None then Some v else None | None \<Rightarrow> None)"

definition bind_profile ::
  "string + kubeconfig \<Rightarrow> bool \<Rightarrow> string \<Rightarrow> cluster_profile \<Rightarrow> process \<Rightarrow> (process \<times> (config_error + string option)) option" where
  "bind_profile kube force name p pr =
     (let e = apply_profile p force (ps_env pr); pr = pr\<lparr>ps_env := e\<rparr> in
      case (case pf_context p of Some ctx \<Rightarrow> verify_context e kube ctx | None \<Rightarrow> Inr ()) of
        Inl err \<Rightarrow> Some (pr, Inl err)
      | Inr _ \<Rightarrow> if ps_active pr \<noteq> None then None else Some (pr\<lparr>ps_active := Some name\<rparr>, Inr (Some name)))"

text \<open>\<open>None\<close> is the panic of a second activation.\<close>

definition activate ::
  "config_error + config \<Rightarrow> string + kubeconfig \<Rightarrow> string option \<Rightarrow> process \<Rightarrow> (process \<times> (config_error + string option)) option" where
  "activate loaded kube flag pr =
     (case bad_runtime (ps_env pr) of
        Some v \<Rightarrow> Some (pr, Inl (BadRuntime v))
      | None \<Rightarrow>
          (case loaded of
             Inl err \<Rightarrow> Some (pr, Inl err)
           | Inr cfg \<Rightarrow>
               (case (case flag of Some n \<Rightarrow> Some n | None \<Rightarrow> cf_current cfg) of
                  None \<Rightarrow> Some (pr, Inr None)
                | Some name \<Rightarrow>
                    (case map_of (cf_clusters cfg) name of
                       None \<Rightarrow> Some (pr, Inl (NoProfile name (listed (map fst (cf_clusters cfg)))))
                     | Some p \<Rightarrow>
                         (case validate_profile p of
                            Inl err \<Rightarrow> Some (pr, Inl (BadProfile name err))
                          | Inr _ \<Rightarrow> bind_profile kube (flag \<noteq> None) name p pr)))))"

definition nonempty_env :: "env \<Rightarrow> string \<Rightarrow> string option" where
  "nonempty_env e k = (case e k of Some v \<Rightarrow> if v \<noteq> [] then Some v else None | None \<Rightarrow> None)"

definition active_context :: "env \<Rightarrow> string + kubeconfig \<Rightarrow> string option" where
  "active_context e kube =
     (case nonempty_env e KUBE_CONTEXT_ENV of
        Some ctx \<Rightarrow> Some ctx
      | None \<Rightarrow> if in_cluster e then None else (case kube of Inr kc \<Rightarrow> kc_current kc | Inl _ \<Rightarrow> None))"

definition active_storage_driver :: "env \<Rightarrow> string option" where
  "active_storage_driver e = (case e STORAGE_DRIVER_ENV of Some v \<Rightarrow> if trim v \<noteq> [] then Some v else None | None \<Rightarrow> None)"

definition active_registry :: "env \<Rightarrow> string option \<times> string option" where
  "active_registry e = (nonempty_env e PUSH_REGISTRY_ENV, nonempty_env e REGISTRY_ENV)"

definition kubelet_is_nested :: "(string option) list option \<Rightarrow> bool" where
  "kubelet_is_nested nodes =
     (case nodes of Some (Some provider # _) \<Rightarrow> prefix ''kind://'' provider | _ \<Rightarrow> False)"

definition SEED_GIB :: u64 where "SEED_GIB = 1073741824"

definition seed_gib :: "u64 \<Rightarrow> u64" where
  "seed_gib size_bytes =
     (let headroom = size_bytes div 100 * 15; want = sat_add size_bytes headroom
      in max (want div SEED_GIB + (if want mod SEED_GIB = 0 then 0 else 1)) 1)"

definition seed_size_for :: "u64 \<Rightarrow> string" where
  "seed_size_for size_bytes = show_u64 (seed_gib size_bytes) @ ''Gi''"

section \<open>The choice of storage\<close>

record storage_class =
  stc_name :: string
  stc_provisioner :: string
  stc_default :: "string option"

record storage_option =
  so_class :: string
  so_provisioner :: string
  so_snapshot :: string
  so_default :: bool

definition is_default_class :: "storage_class \<Rightarrow> bool" where
  "is_default_class sc \<longleftrightarrow> stc_default sc = Some ''true''"

definition storage_option_of :: "(string \<times> string) list \<Rightarrow> storage_class \<Rightarrow> storage_option option" where
  "storage_option_of drivers sc =
     map_option (\<lambda>(_, snap). \<lparr>so_class = stc_name sc, so_provisioner = stc_provisioner sc, so_snapshot = snap,
         so_default = is_default_class sc\<rparr>)
       (List.find (\<lambda>(driver, _). driver = stc_provisioner sc) drivers)"

definition snapshot_capable :: "storage_class list \<Rightarrow> (string \<times> string) list \<Rightarrow> storage_option list" where
  "snapshot_capable classes drivers = List.map_filter (storage_option_of drivers) classes"

text \<open>The snapshot classes of the cluster; \<open>Inr None\<close> when it has no such kind.\<close>

definition discover_storage ::
  "string + storage_class list \<Rightarrow> string + ((string option \<times> string option) list) option \<Rightarrow> string + storage_option list" where
  "discover_storage classes snaps =
     (case classes of
        Inl e \<Rightarrow> Inl (''list StorageClasses: '' @ e)
      | Inr scs \<Rightarrow>
          (case snaps of
             Inl e \<Rightarrow> Inl (''list VolumeSnapshotClasses: '' @ e)
           | Inr None \<Rightarrow> Inr (snapshot_capable scs [])
           | Inr (Some items) \<Rightarrow>
               Inr (snapshot_capable scs
                 (List.map_filter (\<lambda>(driver, name). Option.bind driver (\<lambda>d. map_option (Pair d) name)) items))))"

definition available :: "storage_option list \<Rightarrow> string" where
  "available options =
     (if options = [] then ''(none)''
      else join '', '' (map (\<lambda>s. so_provisioner s @ '' ('' @ so_class s @ '')'') options))"

definition select_storage :: "storage_option list \<Rightarrow> string option \<Rightarrow> string + storage_option" where
  "select_storage options driver =
     (case driver of
        Some d \<Rightarrow>
          (case List.find (\<lambda>s. so_provisioner s = d) options of
             Some s \<Rightarrow> Inr s
           | None \<Rightarrow> Inl (''no snapshot StorageClass on driver `'' @ d @ ''`; have: '' @ available options))
      | None \<Rightarrow>
          (case List.find so_default options of
             Some s \<Rightarrow> Inr s
           | None \<Rightarrow> (case options of s # _ \<Rightarrow> Inr s | [] \<Rightarrow> Inl ''no snapshot-capable StorageClass'')))"

definition selected_storage :: "env \<Rightarrow> string + storage_option list \<Rightarrow> string + storage_option" where
  "selected_storage e discovered =
     (case (e STORAGE_CLASS_ENV, e SNAPSHOT_CLASS_ENV) of
        (Some sc, Some snap) \<Rightarrow>
          Inr \<lparr>so_class = sc, so_provisioner = ''(overridden)'', so_snapshot = snap, so_default = False\<rparr>
      | _ \<Rightarrow>
          (case discovered of
             Inl err \<Rightarrow> Inl err
           | Inr options \<Rightarrow> select_storage options (active_storage_driver e)))"

definition plain_class ::
  "env \<Rightarrow> string \<Rightarrow> string + storage_class list \<Rightarrow> string + storage_option list \<Rightarrow> string + string option" where
  "plain_class e escape classes discovered =
     (case (case e escape of Some v \<Rightarrow> if trim v \<noteq> [] then Some v else None | None \<Rightarrow> None) of
        Some pinned \<Rightarrow> Inr (Some pinned)
      | None \<Rightarrow>
          (case classes of
             Inl err \<Rightarrow> Inl (''list StorageClasses: '' @ err)
           | Inr scs \<Rightarrow>
               if list_ex is_default_class scs then Inr None
               else (case selected_storage e discovered of
                       Inl err \<Rightarrow> Inl err
                     | Inr s \<Rightarrow> Inr (Some (so_class s)))))"

section \<open>What a valid profile is\<close>

lemma find_None_iff: "List.find P xs = None \<longleftrightarrow> (\<forall>x \<in> set xs. \<not> P x)"
  by (induction xs) auto

lemma set_some_list [simp]: "set (some_list xs) = {x. Some x \<in> set xs}"
  by (force simp: some_list_def map_filter_def)

lemma validate_ok_iff:
  "validate_profile p = Inr () \<longleftrightarrow>
     (pf_storage_class p = None \<longleftrightarrow> pf_snapshot_class p = None) \<and>
     (\<forall>a. pf_push p = Some a \<or> pf_pull p = Some a \<longrightarrow> \<not> bad_scheme a) \<and>
     (if pf_class p = LocalCluster then pf_push p = None \<and> pf_pull p = None \<and> kind_cluster p \<noteq> None
      else pf_push p \<noteq> None \<and> kind_cluster p = None)"
proof -
  have scheme: "List.find bad_scheme (some_list [pf_push p, pf_pull p]) = None \<longleftrightarrow>
      (\<forall>a. pf_push p = Some a \<or> pf_pull p = Some a \<longrightarrow> \<not> bad_scheme a)"
    by (simp only: find_None_iff set_some_list list.set) auto
  show ?thesis
  proof (cases "List.find bad_scheme (some_list [pf_push p, pf_pull p])")
    case None
    with scheme show ?thesis
      by (cases "pf_class p"; cases "pf_storage_class p"; cases "pf_snapshot_class p") (simp_all add: validate_profile_def)
  next
    case (Some a)
    with scheme show ?thesis by (simp add: validate_profile_def)
  qed
qed

text \<open>A profile made for a kind cluster is valid as it is; one for another context lacks only its registry.\<close>

lemma strip_prefix_append [simp]: "strip_prefix pre (pre @ s) = Some s"
  by (simp add: strip_prefix_def)

lemma local_profile_valid: "validate_profile (local_profile k) = Inr ()"
  by (simp add: validate_ok_iff local_profile_def default_profile_def kind_cluster_def strip_prefix_def)

lemma for_context_validate:
  "validate_profile (for_context ctx) = (if prefix ''kind-'' ctx then Inr () else Inl RemoteNeedsPush)"
  by (simp add: validate_profile_def for_context_def default_profile_def kind_cluster_def strip_prefix_def some_list_def map_filter_def)

section \<open>The environment an activation leaves\<close>

lemmas env_names = KUBE_CONTEXT_ENV_def CLUSTER_CLASS_ENV_def STORAGE_DRIVER_ENV_def REGISTRY_ENV_def PUSH_REGISTRY_ENV_def
  PUSH_SECRET_ENV_def STORAGE_CLASS_ENV_def SNAPSHOT_CLASS_ENV_def RUNTIME_ENV_def

lemma env_distinct:
  "distinct [KUBE_CONTEXT_ENV, CLUSTER_CLASS_ENV, STORAGE_DRIVER_ENV, REGISTRY_ENV, PUSH_REGISTRY_ENV,
     PUSH_SECRET_ENV, STORAGE_CLASS_ENV, SNAPSHOT_CLASS_ENV, RUNTIME_ENV]"
  by (simp add: env_names)

text \<open>Both orders, so that each inequation is found either way around.\<close>

lemmas env_keys = env_distinct env_distinct [folded distinct_rev [of "[_, _, _, _, _, _, _, _, _]"]]

lemma set_env_other: "k \<noteq> key \<Longrightarrow> set_env key val force e k = e k"
  by (simp add: set_env_def split: option.splits)

lemma set_env_forced: "set_env key val True e key = (case val of Some v \<Rightarrow> Some v | None \<Rightarrow> e key)"
  by (simp add: set_env_def split: option.splits)

lemma set_storage_pair_other: "k \<noteq> STORAGE_CLASS_ENV \<Longrightarrow> k \<noteq> SNAPSHOT_CLASS_ENV \<Longrightarrow> set_storage_pair p force e k = e k"
  by (simp add: set_storage_pair_def split: option.splits)

text \<open>The storage pair is written whole, cleared whole or left whole.\<close>

lemma set_storage_pair_whole:
  "(set_storage_pair p force e STORAGE_CLASS_ENV, set_storage_pair p force e SNAPSHOT_CLASS_ENV) \<in>
     {(pf_storage_class p, pf_snapshot_class p), (e STORAGE_CLASS_ENV, e SNAPSHOT_CLASS_ENV), (None, None)}"
  using env_keys by (auto simp: set_storage_pair_def split: option.splits)

lemma apply_profile_pair:
  "(apply_profile p force e STORAGE_CLASS_ENV, apply_profile p force e SNAPSHOT_CLASS_ENV) \<in>
     {(pf_storage_class p, pf_snapshot_class p), (e STORAGE_CLASS_ENV, e SNAPSHOT_CLASS_ENV), (None, None)}"
proof -
  define e1 where "e1 = set_env STORAGE_DRIVER_ENV (pf_storage_driver p) force
      (set_env CLUSTER_CLASS_ENV (Some (class_str (pf_class p))) force (set_env KUBE_CONTEXT_ENV (pf_context p) force e))"
  have "e1 STORAGE_CLASS_ENV = e STORAGE_CLASS_ENV" "e1 SNAPSHOT_CLASS_ENV = e SNAPSHOT_CLASS_ENV"
    using env_keys by (simp_all add: e1_def set_env_other)
  moreover have "apply_profile p force e STORAGE_CLASS_ENV = set_storage_pair p force e1 STORAGE_CLASS_ENV"
    "apply_profile p force e SNAPSHOT_CLASS_ENV = set_storage_pair p force e1 SNAPSHOT_CLASS_ENV"
    using env_keys by (cases "pf_class p"; simp add: apply_profile_def Let_def e1_def set_env_other)+
  ultimately show ?thesis using set_storage_pair_whole [of p force e1] by simp
qed

lemma activate_binds:
  assumes "activate (Inr cfg) kube flag pr = Some (pr', Inr (Some name))"
  obtains p where "map_of (cf_clusters cfg) name = Some p" "validate_profile p = Inr ()"
    "ps_env pr' = apply_profile p (flag \<noteq> None) (ps_env pr)" "flag = Some name \<or> flag = None \<and> cf_current cfg = Some name"
  using assms
  by (auto simp: activate_def bind_profile_def Let_def split: option.splits sum.splits if_splits)

text \<open>
  C32. Storage never comes from two providers. After a profile is activated, whatever the
  environment held, the storage class and the snapshot class the process uses are both the
  profile's, both the ambient ones, or a pair of the cluster joined by one driver.
\<close>

theorem storage_not_crossed:
  assumes "activate (Inr cfg) kube flag pr = Some (pr', Inr (Some name))" "map_of (cf_clusters cfg) name = Some p"
    and "selected_storage (ps_env pr') (discover_storage (Inr scs) (Inr (Some snaps))) = Inr s"
  shows "(pf_storage_class p = Some (so_class s) \<and> pf_snapshot_class p = Some (so_snapshot s)) \<or>
    (ps_env pr STORAGE_CLASS_ENV = Some (so_class s) \<and> ps_env pr SNAPSHOT_CLASS_ENV = Some (so_snapshot s)) \<or>
    (\<exists>sc \<in> set scs. so_class s = stc_name sc \<and> (Some (stc_provisioner sc), Some (so_snapshot s)) \<in> set snaps)"
proof (cases "\<exists>c n. ps_env pr' STORAGE_CLASS_ENV = Some c \<and> ps_env pr' SNAPSHOT_CLASS_ENV = Some n")
  case True
  then have "ps_env pr' STORAGE_CLASS_ENV = Some (so_class s)" "ps_env pr' SNAPSHOT_CLASS_ENV = Some (so_snapshot s)"
    using assms(3) by (auto simp: selected_storage_def)
  moreover from activate_binds [OF assms(1)] assms(2) have "ps_env pr' = apply_profile p (flag \<noteq> None) (ps_env pr)" by auto
  ultimately show ?thesis using apply_profile_pair [of p "flag \<noteq> None" "ps_env pr"] by auto
next
  case False
  define drivers where "drivers = List.map_filter (\<lambda>(driver, name). Option.bind driver (\<lambda>d. map_option (Pair d) name)) snaps"
  from False assms(3) have "select_storage (snapshot_capable scs drivers) (active_storage_driver (ps_env pr')) = Inr s"
    by (auto simp: selected_storage_def discover_storage_def drivers_def split: option.splits)
  then have "s \<in> set (snapshot_capable scs drivers)"
    by (auto simp: select_storage_def find_Some_iff in_set_conv_nth split: option.splits list.splits)
  then obtain sc where sc: "sc \<in> set scs" "storage_option_of drivers sc = Some s"
    by (auto simp: snapshot_capable_def map_filter_def)
  then have "so_class s = stc_name sc" "(stc_provisioner sc, so_snapshot s) \<in> set drivers"
    by (auto simp: storage_option_of_def find_Some_iff in_set_conv_nth)
  then have "(Some (stc_provisioner sc), Some (so_snapshot s)) \<in> set snaps"
    by (auto simp: drivers_def map_filter_def bind_eq_Some_conv)
  with sc(1) \<open>so_class s = stc_name sc\<close> show ?thesis by blast
qed

text \<open>A remote profile with a registry alone, on a process whose shell names a context and a secret.\<close>

definition bare_remote :: cluster_profile where
  "bare_remote = default_profile\<lparr>pf_push := Some ''r.example/z'', pf_class := RemoteCluster\<rparr>"

definition shell :: env where
  "shell = Map.empty(KUBE_CONTEXT_ENV \<mapsto> ''other'', PUSH_SECRET_ENV \<mapsto> ''theirs'', STORAGE_CLASS_ENV \<mapsto> ''fast'')"

definition sample_config :: config where
  "sample_config = \<lparr>cf_current = None, cf_clusters = [(''prod'', bare_remote)]\<rparr>"

lemma bare_remote_binds:
  "activate (Inr sample_config) (Inl ''none'') (Some ''prod'') \<lparr>ps_env = shell, ps_active = None\<rparr> =
     Some (\<lparr>ps_env = apply_profile bare_remote True shell, ps_active = Some ''prod''\<rparr>, Inr (Some ''prod''))"
proof -
  have "validate_profile bare_remote = Inr ()"
    by (auto simp: validate_ok_iff bare_remote_def default_profile_def kind_cluster_def bad_scheme_def split: option.splits)
  moreover have "bad_runtime shell = None" using env_keys by (simp add: bad_runtime_def shell_def)
  ultimately show ?thesis
    by (simp add: activate_def sample_config_def bind_profile_def Let_def) (simp add: bare_remote_def default_profile_def)
qed

theorem storage_not_crossed_witness:
  "\<exists>sc \<in> {\<lparr>stc_name = ''lvm'', stc_provisioner = ''topolvm.io'', stc_default = None\<rparr>}. stc_name sc = ''lvm'' \<and>
     (Some (stc_provisioner sc), Some ''snap'') \<in> set [(Some ''topolvm.io'', Some ''snap'')]"
proof -
  define scs where "scs = [\<lparr>stc_name = ''lvm'', stc_provisioner = ''topolvm.io'', stc_default = None\<rparr>]"
  define s where "s = \<lparr>so_class = ''lvm'', so_provisioner = ''topolvm.io'', so_snapshot = ''snap'', so_default = False\<rparr>"
  have driver: "apply_profile bare_remote True shell STORAGE_DRIVER_ENV = None" "apply_profile bare_remote True shell STORAGE_CLASS_ENV = None"
    using env_keys by (simp_all add: apply_profile_def Let_def bare_remote_def default_profile_def shell_def set_env_def set_storage_pair_def pull_address_def)
  have "selected_storage (apply_profile bare_remote True shell) (discover_storage (Inr scs) (Inr (Some [(Some ''topolvm.io'', Some ''snap'')]))) = Inr s"
    using driver by (simp add: selected_storage_def active_storage_driver_def discover_storage_def snapshot_capable_def storage_option_of_def
        map_filter_def select_storage_def is_default_class_def scs_def s_def)
  from storage_not_crossed [OF bare_remote_binds, of bare_remote scs _ s, simplified, OF _ this]
  show ?thesis using env_keys
    by (simp add: sample_config_def bare_remote_def default_profile_def shell_def s_def scs_def split: if_splits)
qed

text \<open>
  C39. What naming a cluster explicitly does to the environment, variable by variable. The
  kube context, the storage driver and the runtime are the profile's where it has one, and keep
  the ambient value where it has none. The cluster class is always the profile's. The storage
  pair is exactly the profile's: a profile without one clears both variables. A remote profile
  writes its registry addresses, and its push secret if it has one, else the ambient secret stays;
  a local profile clears all three registry variables, the secret included.
\<close>

theorem explicit_cluster_env_exact:
  assumes "activate (Inr cfg) kube (Some flag) pr = Some (pr', Inr (Some name))" "map_of (cf_clusters cfg) name = Some p"
  shows "ps_env pr' KUBE_CONTEXT_ENV = overlay (ps_env pr KUBE_CONTEXT_ENV) (pf_context p) \<and>
    ps_env pr' CLUSTER_CLASS_ENV = Some (class_str (pf_class p)) \<and>
    ps_env pr' STORAGE_DRIVER_ENV = overlay (ps_env pr STORAGE_DRIVER_ENV) (pf_storage_driver p) \<and>
    ps_env pr' RUNTIME_ENV = overlay (ps_env pr RUNTIME_ENV) (map_option runtime_str (pf_runtime p)) \<and>
    (ps_env pr' STORAGE_CLASS_ENV, ps_env pr' SNAPSHOT_CLASS_ENV) = (pf_storage_class p, pf_snapshot_class p) \<and>
    (ps_env pr' REGISTRY_ENV, ps_env pr' PUSH_REGISTRY_ENV, ps_env pr' PUSH_SECRET_ENV) =
      (if pf_class p = LocalCluster then (None, None, None)
       else (pull_address p, pf_push p, overlay (ps_env pr PUSH_SECRET_ENV) (pf_push_secret p)))"
proof -
  from activate_binds [OF assms(1)] assms(2) have valid: "validate_profile p = Inr ()"
    and env: "ps_env pr' = apply_profile p True (ps_env pr)" by auto
  have pinned: "(pf_storage_class p = None) = (pf_snapshot_class p = None)"
    and push: "pf_class p = RemoteCluster \<Longrightarrow> pf_push p \<noteq> None" using valid by (auto simp: validate_ok_iff)
  have over: "set_env key val True e key = overlay (e key) val" for key val e
    by (simp add: set_env_forced overlay_def split: option.splits)
  have pair: "set_storage_pair p True e STORAGE_CLASS_ENV = pf_storage_class p" "set_storage_pair p True e SNAPSHOT_CLASS_ENV = pf_snapshot_class p" for e
    using pinned env_keys by (auto simp: set_storage_pair_def pair_writable_def split: option.splits)
  have set: "overlay x (Some v) = Some v" for x :: "string option" and v by (simp add: overlay_def)
  show ?thesis
  proof (cases "pf_class p")
    case LocalCluster
    then show ?thesis using env_keys
      by (simp add: env apply_profile_def Let_def over pair set set_storage_pair_other set_env_other)
  next
    case RemoteCluster
    with push obtain addr where "pf_push p = Some addr" "\<exists>a. pull_address p = Some a"
      by (auto simp: pull_address_def split: option.splits)
    with RemoteCluster show ?thesis using env_keys
      by (auto simp: env apply_profile_def Let_def over pair set set_storage_pair_other set_env_other)
  qed
qed

theorem explicit_cluster_env_exact_witness:
  "apply_profile bare_remote True shell KUBE_CONTEXT_ENV = Some ''other'' \<and>
   apply_profile bare_remote True shell PUSH_SECRET_ENV = Some ''theirs'' \<and>
   apply_profile bare_remote True shell REGISTRY_ENV = Some ''r.example/z''"
  using explicit_cluster_env_exact [OF bare_remote_binds, of bare_remote] env_keys
  by (simp add: sample_config_def bare_remote_def default_profile_def shell_def overlay_def pull_address_def)

text \<open>An override of empty values is taken, although empty counts as unset when a profile is applied.\<close>

lemma empty_override_taken:
  "e STORAGE_CLASS_ENV = Some [] \<Longrightarrow> e SNAPSHOT_CLASS_ENV = Some [] \<Longrightarrow>
     \<exists>s. selected_storage e d = Inr s \<and> so_class s = [] \<and> \<not> occupied e STORAGE_CLASS_ENV"
  by (simp add: selected_storage_def occupied_def)

text \<open>Without a driver and without a default class, the first of several classes is taken.\<close>

lemma first_of_several: "select_storage (s # t # options) None = Inr s"
  if "\<not> list_ex so_default (s # t # options)"
proof -
  have "List.find so_default (s # t # options) = None" using that by (simp only: find_None_iff list_ex_iff) blast
  then show ?thesis by (simp only: select_storage_def option.case list.case)
qed

section \<open>The size of a seed volume\<close>

lemma div_ceil_bounds:
  assumes "0 < d"
  shows "w \<le> (w div d + (if w mod d = 0 then 0 else 1)) * d" "(w div d + (if w mod d = 0 then 0 else 1)) * d \<le> w + (d :: nat)"
proof -
  define q m where "q = w div d * d" and "m = w mod d"
  have split: "q + m = w" "m < d" using assms by (simp_all add: q_def m_def)
  have ceil: "(w div d + (if w mod d = 0 then 0 else 1)) * d = (if m = 0 then q else q + d)"
    by (simp add: q_def m_def)
  show "w \<le> (w div d + (if w mod d = 0 then 0 else 1)) * d" unfolding ceil using split by simp
  show "(w div d + (if w mod d = 0 then 0 else 1)) * d \<le> w + d" unfolding ceil using split by simp
qed

lemma unat_div100_mul: "unat (n div 100 * 15 :: u64) = unat n div 100 * 15"
proof -
  have "unat n div 100 * 15 < 2 ^ 64" using unsigned_less [of n, where 'a = nat] by simp
  then show ?thesis by (simp add: unat_word_ariths unat_div)
qed

text \<open>
  The volume asked for a seed holds the tree with its headroom, fifteen for each full
  hundred of bytes, and less than one unit more, for every size whose sum does not saturate.
\<close>

theorem seed_size_covers:
  assumes "unat n + unat n div 100 * 15 < 2 ^ 64"
  shows "unat n + unat n div 100 * 15 \<le> unat (seed_gib n) * 2 ^ 30 \<and>
    unat (seed_gib n) * 2 ^ 30 \<le> unat n + unat n div 100 * 15 + 2 ^ 30"
proof -
  define want where "want = sat_add n (n div 100 * 15)"
  have want: "unat want = unat n + unat n div 100 * 15"
    using assms by (simp add: want_def unat_sat_add unat_div100_mul)
  define q where "q = want div SEED_GIB + (if want mod SEED_GIB = 0 then 0 else 1)"
  have g: "unat SEED_GIB = 2 ^ 30" by (simp add: SEED_GIB_def)
  have "unat want div 2 ^ 30 + 1 < 2 ^ 64" using unsigned_less [of want, where 'a = nat] by simp
  then have q: "unat q = unat want div 2 ^ 30 + (if unat want mod 2 ^ 30 = 0 then 0 else 1)"
    by (simp add: q_def unat_word_ariths unat_div unat_mod g unat_eq_zero [symmetric])
  have "seed_gib n = max q 1" by (simp add: seed_gib_def Let_def q_def want_def)
  then have "unat (seed_gib n) = max (unat q) 1" by (simp add: max_def word_le_nat_alt)
  moreover have "unat want \<le> unat q * 2 ^ 30" "unat q * 2 ^ 30 \<le> unat want + 2 ^ 30"
    unfolding q by (rule div_ceil_bounds; simp)+
  moreover have "unat want = 0" if "unat q = 0" using that calculation(2) by simp
  ultimately show ?thesis unfolding want [symmetric] by (cases "unat q = 0") simp_all
qed

theorem seed_size_covers_witness:
  "276863224320 + 276863224320 div 100 * 15 \<le> unat (seed_gib 276863224320) * 2 ^ 30"
  using seed_size_covers [of 276863224320] by simp

end
