(* ===== verification/Spec2Isabelle.thy ===== *)
theory Spec2Isabelle
  imports Qos_Scheduler Qos_Footprint Qos_Reservation Resource_Graph Engine_Run_Claims Naming Resource_Reclaim_Props Sync_Observe Sync_Phase_Trace
    Load_Audit Run_Record Seed_Pull Pipeline_Profiles Cluster_Config
begin

text \<open>
  \<^bold>\<open>A verification library for ztest.\<close> ztest runs Zcash integration tests on a Kubernetes cluster
  that several runs share. A run plans a work list of tests with declared resource
  footprints, reserves a slice of the cluster in a ledger of leases, provisions what the
  tests need as a graph of resources, admits tests against its slice, runs, retries and
  reports them, and \<open>ztest cleanup\<close> reclaims what runs left behind. Beside tests it runs
  \<^emph>\<open>syncs\<close>: a subject (an indexer, a wallet) is watched tick by tick against registered
  probes while faults are injected, phase after phase. A \<^emph>\<open>load test\<close> floods an indexer with
  streams of blocks: a driver parses what arrives, an oracle checks the order and completeness of
  each stream, a ledger samples answers, and an auditor compares the sampled blocks with a
  reference node. The parts meet in amounts of resources,
  in the scheduler's ceiling (which the ledger's reconcile loop moves and the run loop obeys),
  in node states (which provisioning ends with and the run loop reads), in leases (which
  the ledger writes and cleanup reads), and in the run loop's events (which a record keeps and a
  replay shows again).

  \<^bold>\<open>Theories and sources.\<close> Sources are named under \<open>src/\<close>.

  \<^item> \<open>Ztest_Prelude\<close>: saturating and checked arithmetic on \<open>u64\<close> and \<open>u32\<close> words, decimal text,
    list lemmas, the collection \<open>word_unat\<close>, and the locale \<open>step_system\<close> (start states, steps, an
    invariant, and that reachable states have it).
  \<^item> \<open>Qos_Resources\<close> (\<open>src/qos/mod.rs\<close>, \<open>src/qos/schedule.rs\<close>): the five-dimensional amounts,
    pools and tiers with their labels. Locales \<open>amounts\<close> (an ordered monoid of amounts) and
    \<open>label_codec\<close> (a label and its parser), interpreted on the code's operations.
  \<^item> \<open>Qos_Scheduler\<close> (\<open>src/qos/scheduler.rs\<close>): \<open>decide\<close>, and the scheduler's request, cancel,
    release, reconcile and pass over the queue, each with its panics as \<open>None\<close>. No overload, a
    refinement of the pure decision, completeness and order of a pass, no idle queue.
  \<^item> \<open>Std_F64\<close>, \<open>Qos_Footprint\<close> (\<open>attr/src/footprint.rs\<close>), \<open>Qos_Units\<close> (\<open>src/qos/units.rs\<close>): doubles as
    rationals with rounding to even, the footprint notation and its printing, Kubernetes
    quantities and the effective footprint of a pod.
  \<^item> \<open>Qos_Beacon\<close> (\<open>src/qos/beacon.rs\<close>), \<open>Qos_Ledger\<close> and \<open>Qos_Reservation\<close> (\<open>src/qos/ledger.rs\<close>):
    the status record, budgets, usage and fair shares, and the reservation protocol:
    acquiring, renewing, resizing, adopting and releasing a lease, with the cluster's answers as
    inputs and \<open>reservation\<close> as a step system.
  \<^item> \<open>Resource_Graph\<close> (\<open>src/resource/graph.rs\<close>, \<open>provider.rs\<close>, \<open>state.rs\<close>): Kahn's check, concurrent
    provisioning as an interleaving of steps, and teardown. Locale \<open>dependency_graph\<close>.
  \<^item> \<open>Engine_Plan\<close> (\<open>src/engine/plan.rs\<close>, \<open>src/inventory.rs\<close>, \<open>src/pipeline/build.rs\<close>): the work
    list from declarations and binaries.
  \<^item> \<open>Engine_Run\<close> (\<open>src/engine/schedule.rs\<close>, \<open>events.rs\<close>, \<open>panel.rs\<close>, \<open>src/qos/live.rs\<close>): the run loop.
    \<open>Engine_Admission\<close> states what the loop relies on of a scheduler as the locales \<open>admission\<close>
    and \<open>draining_admission\<close>, interpreted on the scheduler; \<open>Engine_Run_Props\<close> keeps the books of
    one operation, \<open>Engine_Run_Trace\<close> those of a pass as a step relation, and
    \<open>Engine_Run_Claims\<close> what a run guarantees.
  \<^item> \<open>Naming\<close> (\<open>src/naming.rs\<close>, \<open>src/fmt.rs\<close>, the status vocabulary of \<open>src/sync/detached.rs\<close>):
    slugs as bounded DNS labels, namespaces, figures.
  \<^item> \<open>Resource_Reclaim\<close> and \<open>Resource_Reclaim_Props\<close> (\<open>src/resource/reclaim.rs\<close>): discovery, triage
    and deletion. What an unforced pass spares, its order, and what it accounts for.
  \<^item> \<open>Sync_Work\<close> (\<open>src/sync/work.rs\<close>, \<open>chainwork.rs\<close>), \<open>Metrics_Catalogue\<close> (\<open>src/metrics/mod.rs\<close>):
    measured work and its derivation from blocks; metric families and what one scrape
    answers.
  \<^item> \<open>Sync_Probe\<close> (\<open>src/sync/snapshot.rs\<close>, \<open>tree.rs\<close>, \<open>restart.rs\<close>, \<open>nemesis.rs\<close>, \<open>probe.rs\<close>, \<open>phase.rs\<close>) and
    \<open>Sync_Runner\<close> (\<open>src/sync/runner.rs\<close>): snapshots, restart windows, fault schedules, probes,
    phases, and the whole sync engine. \<open>Sync_Probe_Props\<close>, \<open>Sync_Runner_Props\<close> and
    \<open>Sync_Phase_Trace\<close> show when probes fire, that phases are gated and a pass is earned, the
    life of a subject, when kills fire, and the books of a phase as a step system.
  \<^item> \<open>Sync_Observe\<close> (\<open>src/rate.rs\<close>, \<open>src/sync/observe.rs\<close>): the trailing window, its rates and
    projections, and the live columns of a scrape.
  \<^item> \<open>Load_Wire\<close> (\<open>src/loadtest/wire.rs\<close>): the frame decoder of a response body that arrives in
    arbitrary pieces, and the scanner that reads a block's height and hashes without decoding the
    block. Frames survive every chunking; the scanner agrees with a full decode.
  \<^item> \<open>Load_Oracle\<close> (\<open>oracle.rs\<close>, message records of \<open>src/proto/generated.rs\<close>), \<open>Load_Ledger\<close>
    (\<open>ledger.rs\<close>), \<open>Load_Reference\<close> (\<open>reference.rs\<close>), \<open>Load_Audit\<close> (\<open>audit.rs\<close>): the checks of a stream, the
    counted and sampled answers, the difference of two blocks and the fee of a transaction, and the
    auditor's sweep and settlement. The oracle is silent exactly on correct streams, the ledger's
    counts are those of its events, a difference names the first field that differs, and an audit
    accounts for every sampled answer.
  \<^item> \<open>Pod_Status\<close> (\<open>src/pod_status.rs\<close>, \<open>await_pod_ready\<close> of \<open>src/env.rs\<close>, \<open>StartWatch\<close> of
    \<open>src/materialize/progress.rs\<close>, the end of a test pod in \<open>src/pod_runner.rs\<close>): what a pod's status says,
    and the waits that read it.
  \<^item> \<open>Run_Record\<close> (\<open>src/engine/record/\<close>): the event log of a run, its content-addressed output store,
    replay, the tests a rerun skips, retention and the selection of a run.
  \<^item> \<open>Seed_Pull\<close> (\<open>src/materialize/progress.rs\<close>): the watch over a seed download, with the clock of forward
    motion across re-attaches and pods. A pull is ended for silence only after silence, and a
    silent one is ended.
  \<^item> \<open>Pipeline_Profiles\<close> (\<open>src/pipeline/profiles.rs\<close>, \<open>is_sync_test_path\<close> of \<open>attr/src/lib.rs\<close>, \<open>preflight\<close> of
    \<open>cli/src/sync/mod.rs\<close>): the discovery of sync profiles in source, their lookup and the gate before a
    build. The edit distance of its suggestions is the least number of edits, a refusal rests on
    evidence, and the search for other workspaces is exact.
  \<^item> \<open>Cluster_Config\<close> (\<open>src/cluster_config.rs\<close>, \<open>src/storage_class.rs\<close>, \<open>src/runtime.rs\<close>): cluster profiles, the
    environment their activation leaves, the choice of storage from it, and the size of a seed
    volume. Storage never comes from two providers.

  \<^bold>\<open>How code becomes definitions.\<close> A struct is a record, an enum a datatype, a method that
  mutates a function from state to state. A panic or an early return is a value: \<open>None\<close>, or the
  left of a sum with the message the code prints. Integers whose overflow matters are words;
  counters the code never lets wrap are naturals; clocks are nanoseconds. Whatever the code
  awaits (the cluster's answers, clock readings, random draws, outcomes of tests, answers of
  probes' bodies) is an input, and what it calls and reports is a log in order, so that a
  theorem over all inputs is one over all interleavings. Third-party code the model cannot read
  (JSON, the exposition parser, regular expressions, the random generator) is an argument,
  and a theorem that needs something of it says so as a hypothesis with a witness.

  \<^bold>\<open>Loops.\<close> Loops are structural or have a measure; a loop that
  waits for the outside runs over the list of its inputs and has the value \<open>None\<close> when they end
  first, and the theorems on its end (\<open>acquire_ends\<close>, \<open>provision_outcome\<close>, \<open>run_end_reports_all\<close>) show
  which inputs suffice. One loop has fuel, the auditor's settlement \<open>settle_loop\<close>: it sleeps five
  seconds a turn until a deadline, and \<open>audit_run_accounts\<close> shows that as many turns as fit before the
  deadline give its result.

  \<^bold>\<open>Where the code and its documentation differ.\<close> Several theorems show a behaviour the source's
  comments do not: a shrinking ceiling strands parked tests, a rejected retry hides a failure,
  the elastic resize forgets scratch disk, a hold without a period and a reconnect flag have
  no effect, a subject that stops answering is never judged, a served tip near the end of \<open>u32\<close>
  stops the auditor, a retried download inherits the waiting time of the first pod, an explicit
  cluster keeps the shell's context, driver and runtime where its profile has none, profiles in library targets
  leave no blind spot, a pod whose container is being created is waited for without a limit, a
  replay of a cancelled run exits as a success, and the newest run is pruned when it alone is over
  the byte budget.

  \<^bold>\<open>Not modelled.\<close> The components' backends, images, volumes, handles and configuration
  files; the manifests of the graph's nodes; the command line, terminal interface and
  reporters; metric queries; profiling; of load tests the wallets, the load driver's sockets, its
  latency measurement and report, and the auditor's calibration; of seeds everything but the watch
  over a download; of cluster profiles their file; the attribute macros; generated protocol code beyond the message records. They are
  I/O against the cluster, docker, object storage or RPC servers, text rendering, or code
  generation, whose meaning is in services this model does not have.
\<close>

section \<open>Properties across components\<close>

text \<open>
  C38. The elastic resize forgets scratch disk. The target the reconcile loop publishes as the
  scheduler's ceiling has, in the scratch-disk dimension, only what already runs, whatever
  the cluster has: admission under that ceiling rejects every test that declares more disk
  than is running, as exceeding the cluster.
\<close>

theorem elastic_resize_forgets_disk:
  assumes "amount running Disk < amount footprint Disk"
  shows "decide (reserve_from_state live pods ident allocatable budget running demand)
    used sa_used sa_cap footprint = Rejected ExceedsClusterCapacity"
proof -
  have "amount (reserve_from_state live pods ident allocatable budget running demand) Disk = amount running Disk"
    unfolding reserve_from_state_def Let_def amount_fair_reserve by simp
  with assms have "\<not> fits_within footprint (reserve_from_state live pods ident allocatable budget running demand)"
    by (metis fits_within_iff not_le)
  then show ?thesis by (simp add: decide_def)
qed

theorem elastic_resize_forgets_disk_witness:
  "decide (reserve_from_state [] [] ''r1'' (with_disk (r_new 8 8 0 0) 100) (with_disk (r_new 8 8 0 0) 100) ZERO
      (with_disk (r_new 1 1 0 0) 1)) ZERO ZERO None (with_disk (r_new 1 1 0 0) 1) = Rejected ExceedsClusterCapacity"
  by (rule elastic_resize_forgets_disk) (simp add: with_disk_def r_new_def ZERO_def)

end
